(* ===== verification/Prelude.thy ===== *)
theory Prelude
  imports Main "HOL-Library.Word"
begin

unbundle bit_operations_syntax

text \<open>
  What every component shares: names for the machine types of the Go code, the result type of a
  fallible function, and generic lemmas on results, lists and maps. A Go \<^verbatim>\<open>string\<close> is a
  \<^typ>\<open>string\<close> whose characters are its bytes; a \<^verbatim>\<open>[]byte\<close> payload is a list of 8-bit words;
  \<^verbatim>\<open>uint64\<close> and \<^verbatim>\<open>uint32\<close> are words of that width; \<^verbatim>\<open>int\<close> and \<^verbatim>\<open>int64\<close>
  values are \<^typ>\<open>int\<close>. A Go pair \<^verbatim>\<open>(value, error)\<close> is a sum: \<^term>\<open>Inl\<close> the error,
  \<^term>\<open>Inr\<close> the value.
\<close>

type_synonym bytes = "8 word list"
type_synonym u64 = "64 word"
type_synonym u32 = "32 word"

named_theorems result_simps \<open>rewriting of results and early returns\<close>
named_theorems invariant_defs \<open>definitions of component invariants\<close>

section \<open>Results\<close>

fun res_bind :: "'e + 'a \<Rightarrow> ('a \<Rightarrow> 'e + 'b) \<Rightarrow> 'e + 'b" where
  "res_bind (Inl e) f = Inl e"
| "res_bind (Inr a) f = f a"

fun map_err :: "('e \<Rightarrow> 'f) \<Rightarrow> 'e + 'a \<Rightarrow> 'f + 'a" where
  "map_err g (Inl e) = Inl (g e)"
| "map_err g (Inr a) = Inr a"

definition is_ok :: "'e + 'a \<Rightarrow> bool" where
  "is_ok r = (case r of Inl _ \<Rightarrow> False | Inr _ \<Rightarrow> True)"

lemma is_ok_simps [simp]: "is_ok (Inl e) = False" "is_ok (Inr a) = True"
  by (simp_all add: is_ok_def)

lemma res_bind_Inr_iff [result_simps]:
  "res_bind r f = Inr b \<longleftrightarrow> (\<exists>a. r = Inr a \<and> f a = Inr b)"
  by (cases r) auto

lemma map_err_Inr_iff [result_simps]: "map_err g r = Inr a \<longleftrightarrow> r = Inr a"
  by (cases r) auto

section \<open>Lists\<close>

text \<open>A fold that stops at the first error: the shape of a \<^verbatim>\<open>for\<close> loop with early returns.\<close>

fun foldM :: "('s \<Rightarrow> 'a \<Rightarrow> 'e + 's) \<Rightarrow> 's \<Rightarrow> 'a list \<Rightarrow> 'e + 's" where
  "foldM f s [] = Inr s"
| "foldM f s (x # xs) = (case f s x of Inl e \<Rightarrow> Inl e | Inr s' \<Rightarrow> foldM f s' xs)"

lemma foldM_append:
  "foldM f s (xs @ ys) = (case foldM f s xs of Inl e \<Rightarrow> Inl e | Inr s' \<Rightarrow> foldM f s' ys)"
  by (induction xs arbitrary: s) (auto split: sum.splits)

lemma foldM_invariant:
  assumes "foldM f s xs = Inr s'" and "P s"
    and "\<And>s x t. x \<in> set xs \<Longrightarrow> P s \<Longrightarrow> f s x = Inr t \<Longrightarrow> P t"
  shows "P s'"
  using assms
proof (induction xs arbitrary: s)
  case Nil
  then show ?case by simp
next
  case (Cons x xs)
  from Cons.prems(1) obtain t where t: "f s x = Inr t" "foldM f t xs = Inr s'"
    by (auto split: sum.splits)
  have "P t" using Cons.prems(2,3) t(1) by (meson list.set_intros(1))
  then show ?case using Cons.IH [OF t(2)] Cons.prems(3) by (meson list.set_intros(2))
qed

lemma foldM_induct:
  assumes "foldM f s xs = Inr s'" and "P [] s"
    and "\<And>ys y u t. \<exists>zs. xs = ys @ y # zs \<Longrightarrow> P ys u \<Longrightarrow> f u y = Inr t \<Longrightarrow> P (ys @ [y]) t"
  shows "P xs s'"
  using assms
proof (induction xs arbitrary: s' rule: rev_induct)
  case Nil
  then show ?case by simp
next
  case (snoc x xs)
  from snoc.prems(1) obtain t where t: "foldM f s xs = Inr t" "f t x = Inr s'"
    by (auto simp: foldM_append split: sum.splits)
  have "P xs t"
  proof (rule snoc.IH [OF t(1) snoc.prems(2)])
    fix ys y u v
    assume "\<exists>zs. xs = ys @ y # zs" "P ys u" "f u y = Inr v"
    then show "P (ys @ [y]) v" by (intro snoc.prems(3) [of ys y u v]) auto
  qed
  then show ?case using snoc.prems(3) t(2) by blast
qed

lemma foldM_total:
  assumes "\<And>s x. x \<in> set xs \<Longrightarrow> \<exists>t. f s x = Inr t"
  shows "\<exists>s'. foldM f s xs = Inr s'"
  using assms
proof (induction xs arbitrary: s)
  case (Cons x xs)
  then obtain t where "f s x = Inr t" by (meson list.set_intros(1))
  with Cons show ?case by (metis (no_types, lifting) foldM.simps(2) list.set_intros(2) sum.simps(6))
qed simp

lemma list_all2_in_set: "list_all2 P xs ys \<Longrightarrow> list_all2 (\<lambda>x y. x \<in> set xs \<and> P x y) xs ys"
  by (simp add: list_all2_conv_all_nth)

text \<open>Adding a value to a list that is used as a set.\<close>

definition add_once :: "'a \<Rightarrow> 'a list \<Rightarrow> 'a list" where
  "add_once x xs = (if x \<in> set xs then xs else xs @ [x])"

lemma set_add_once [simp]: "set (add_once x xs) = insert x (set xs)"
  by (auto simp: add_once_def)

lemma distinct_add_once [simp]: "distinct (add_once x xs) = distinct xs"
  by (auto simp: add_once_def)

section \<open>Maps\<close>

lemma card_insert_dom:
  "finite (dom m) \<Longrightarrow> card (dom (m(k \<mapsto> v))) = (if k \<in> dom m then card (dom m) else Suc (card (dom m)))"
  by (simp add: insert_absorb)

lemma map_filter_snoc: "List.map_filter f (xs @ [x]) = List.map_filter f xs @ (case f x of None \<Rightarrow> [] | Some y \<Rightarrow> [y])"
  by (simp add: List.map_filter_def split: option.split)

section \<open>Association lists\<close>

text \<open>
  A Go map that a loop fills: the value of a key is created or changed. The list keeps the keys in
  the order of their first insertion, once each.
\<close>

fun upsert :: "'k \<Rightarrow> 'v \<Rightarrow> ('v \<Rightarrow> 'v) \<Rightarrow> ('k \<times> 'v) list \<Rightarrow> ('k \<times> 'v) list" where
  "upsert k i f [] = [(k, i)]"
| "upsert k i f ((k', v) # m) = (if k' = k then (k', f v) # m else (k', v) # upsert k i f m)"

lemma map_of_upsert:
  "map_of (upsert k i f m) = (map_of m)(k \<mapsto> (case map_of m k of None \<Rightarrow> i | Some v \<Rightarrow> f v))"
  by (induction m) auto

lemma keys_upsert: "set (map fst (upsert k i f m)) = insert k (set (map fst m))"
proof (induction m)
  case (Cons x m)
  then show ?case by (cases x) (simp add: insert_commute)
qed simp

lemma distinct_upsert: "distinct (map fst m) \<Longrightarrow> distinct (map fst (upsert k i f m))"
proof (induction m)
  case (Cons x m)
  then show ?case using keys_upsert [of k i f m] by (cases x) auto
qed simp

abbreviation bump :: "'k \<Rightarrow> ('k \<times> 'a::{one,plus}) list \<Rightarrow> ('k \<times> 'a) list" where
  "bump k m \<equiv> upsert k 1 (\<lambda>c. c + 1) m"

section \<open>Words\<close>

lemma of_nat_Suc_word [simp]: "(of_nat (Suc n) :: 'a::len word) = of_nat n + 1"
  by simp

lemma of_nat_word_less:
  assumes "m < n" and "n < 2 ^ LENGTH('a::len)"
  shows "(of_nat m :: 'a word) < of_nat n"
  using assms by (simp add: word_less_nat_alt unat_of_nat take_bit_nat_eq_self)

lemma of_nat_word_inj:
  assumes "m < 2 ^ LENGTH('a::len)" and "n < 2 ^ LENGTH('a)"
  shows "(of_nat m :: 'a word) = of_nat n \<longleftrightarrow> m = n"
  using assms by (metis unat_of_nat take_bit_nat_eq_self mod_less)

end
