(* ===== verification/Go_Strings.thy ===== *)
theory Go_Strings
  imports Prelude
begin

text \<open>
  The parts of Go's standard library that the program's decisions rest on: \<^verbatim>\<open>strings\<close>,
  \<^verbatim>\<open>unicode/utf8\<close>, \<^verbatim>\<open>strconv\<close>, \<^verbatim>\<open>path\<close> and the address functions of \<^verbatim>\<open>net\<close>, over
  byte strings, each translated from its documented algorithm and executable. The platform is one
  whose path separator is the slash.
\<close>

section \<open>Bytes and UTF-8\<close>

definition ord :: "char \<Rightarrow> nat" where
  "ord c = of_char c"

lemma ord_less [simp]: "ord c < 256"
  by (simp add: ord_def)

text \<open>
  The first rune of a byte string and its width, as \<^verbatim>\<open>utf8.DecodeRune\<close>: an ill-formed sequence
  (overlong, surrogate, truncated, beyond U+10FFFF) is U+FFFD of width 1.
\<close>

definition cont_byte :: "nat \<Rightarrow> bool" where
  "cont_byte b = (0x80 \<le> b \<and> b \<le> 0xBF)"

definition decode_rune :: "nat list \<Rightarrow> nat \<times> nat" where
  "decode_rune bs = (case bs of
      [] \<Rightarrow> (0xFFFD, 0)
    | b0 # rest \<Rightarrow>
        if b0 < 0x80 then (b0, 1)
        else if b0 < 0xC2 then (0xFFFD, 1)
        else if b0 < 0xE0 then
          (case rest of
             b1 # _ \<Rightarrow> if cont_byte b1 then ((b0 - 0xC0) * 64 + (b1 - 0x80), 2) else (0xFFFD, 1)
           | [] \<Rightarrow> (0xFFFD, 1))
        else if b0 < 0xF0 then
          (case rest of
             b1 # b2 # _ \<Rightarrow>
               if (if b0 = 0xE0 then 0xA0 else 0x80) \<le> b1 \<and> b1 \<le> (if b0 = 0xED then 0x9F else 0xBF)
                  \<and> cont_byte b2
               then ((b0 - 0xE0) * 4096 + (b1 - 0x80) * 64 + (b2 - 0x80), 3)
               else (0xFFFD, 1)
           | _ \<Rightarrow> (0xFFFD, 1))
        else if b0 < 0xF5 then
          (case rest of
             b1 # b2 # b3 # _ \<Rightarrow>
               if (if b0 = 0xF0 then 0x90 else 0x80) \<le> b1 \<and> b1 \<le> (if b0 = 0xF4 then 0x8F else 0xBF)
                  \<and> cont_byte b2 \<and> cont_byte b3
               then ((b0 - 0xF0) * 262144 + (b1 - 0x80) * 4096 + (b2 - 0x80) * 64 + (b3 - 0x80), 4)
               else (0xFFFD, 1)
           | _ \<Rightarrow> (0xFFFD, 1))
        else (0xFFFD, 1))"

lemma decode_rune_width: "bs \<noteq> [] \<Longrightarrow> 0 < snd (decode_rune bs)"
  by (auto simp: decode_rune_def Let_def split: list.splits if_splits)

text \<open>A byte list cut into runes, each with the bytes it came from.\<close>

function runes :: "nat list \<Rightarrow> (nat \<times> nat list) list" where
  "runes bs = (if bs = [] then []
     else (let (r, w) = decode_rune bs in (r, take w bs) # runes (drop w bs)))"
  by pat_completeness auto
termination
proof (relation "measure length")
  fix bs :: "nat list" and p r w
  assume "bs \<noteq> []" "p = decode_rune bs" "(r, w) = p"
  then have "0 < w" using decode_rune_width by (metis snd_conv)
  then show "(drop w bs, bs) \<in> measure length" using \<open>bs \<noteq> []\<close> by simp
qed simp

declare runes.simps [simp del]

lemma runes_Nil [simp]: "runes [] = []"
  by (simp add: runes.simps)

lemma concat_runes: "concat (map snd (runes bs)) = bs"
proof (induction bs rule: runes.induct)
  case (1 bs)
  then show ?case
    by (cases "bs = []") (auto simp: runes.simps [of bs] split: prod.splits)
qed

text \<open>\<^verbatim>\<open>utf8.Valid\<close>: no rune is the one-byte replacement of an ill-formed sequence.\<close>

definition utf8_valid :: "nat list \<Rightarrow> bool" where
  "utf8_valid bs = list_all (\<lambda>(r, w). \<not> (r = 0xFFFD \<and> length w = 1)) (runes bs)"

definition valid_string :: "string \<Rightarrow> bool" where
  "valid_string s = utf8_valid (map ord s)"

lemma runes_ascii: "\<forall>b \<in> set bs. b < 0x80 \<Longrightarrow> runes bs = map (\<lambda>b. (b, [b])) bs"
  by (induction bs) (auto simp: runes.simps decode_rune_def)

lemma utf8_valid_ascii: "\<forall>b \<in> set bs. b < 0x80 \<Longrightarrow> utf8_valid bs"
  by (auto simp: utf8_valid_def runes_ascii list_all_iff)

text \<open>\<^verbatim>\<open>unicode.IsSpace\<close> and \<^verbatim>\<open>unicode.IsControl\<close>.\<close>

definition is_space_rune :: "nat \<Rightarrow> bool" where
  "is_space_rune r = (r \<in> {9, 10, 11, 12, 13, 32, 0x85, 0xA0, 0x1680, 0x2028, 0x2029, 0x202F, 0x205F, 0x3000}
     \<or> (0x2000 \<le> r \<and> r \<le> 0x200A))"

definition is_control_rune :: "nat \<Rightarrow> bool" where
  "is_control_rune r = (r < 0x20 \<or> (0x7F \<le> r \<and> r < 0xA0))"

section \<open>strings\<close>

definition drop_while_end :: "('a \<Rightarrow> bool) \<Rightarrow> 'a list \<Rightarrow> 'a list" where
  "drop_while_end P xs = rev (dropWhile P (rev xs))"

definition trim_both :: "('a \<Rightarrow> bool) \<Rightarrow> 'a list \<Rightarrow> 'a list" where
  "trim_both P xs = drop_while_end P (dropWhile P xs)"

text \<open>\<^verbatim>\<open>strings.TrimSpace\<close>: Unicode white space, rune by rune, at both ends.\<close>

definition trim_space :: "string \<Rightarrow> string" where
  "trim_space s = map char_of
     (concat (map snd (trim_both (\<lambda>(r, w). is_space_rune r) (runes (map ord s)))))"

text \<open>\<^verbatim>\<open>strings.Trim\<close> and \<^verbatim>\<open>strings.TrimRight\<close> with an ASCII cut set.\<close>

definition trim_chars :: "char set \<Rightarrow> string \<Rightarrow> string" where
  "trim_chars cs s = trim_both (\<lambda>c. c \<in> cs) s"

definition has_prefix :: "string \<Rightarrow> string \<Rightarrow> bool" where
  "has_prefix s p = (take (length p) s = p)"

definition has_suffix :: "string \<Rightarrow> string \<Rightarrow> bool" where
  "has_suffix s p = (length p \<le> length s \<and> drop (length s - length p) s = p)"

definition trim_prefix :: "string \<Rightarrow> string \<Rightarrow> string" where
  "trim_prefix s p = (if has_prefix s p then drop (length p) s else s)"

definition trim_suffix :: "string \<Rightarrow> string \<Rightarrow> string" where
  "trim_suffix s p = (if has_suffix s p then take (length s - length p) s else s)"

fun contains_sub :: "string \<Rightarrow> string \<Rightarrow> bool" where
  "contains_sub [] p = (p = [])"
| "contains_sub (c # s) p = (has_prefix (c # s) p \<or> contains_sub s p)"

definition contains_any :: "string \<Rightarrow> char set \<Rightarrow> bool" where
  "contains_any s cs = list_ex (\<lambda>c. c \<in> cs) s"

text \<open>\<^verbatim>\<open>strings.Split\<close> and \<^verbatim>\<open>strings.Join\<close> with a one-byte separator.\<close>

fun split_on :: "'a \<Rightarrow> 'a list \<Rightarrow> 'a list list" where
  "split_on d [] = [[]]"
| "split_on d (c # s) =
     (if c = d then [] # split_on d s
      else (case split_on d s of [] \<Rightarrow> [[c]] | p # ps \<Rightarrow> (c # p) # ps))"

fun join_with :: "'a list \<Rightarrow> 'a list list \<Rightarrow> 'a list" where
  "join_with d [] = []"
| "join_with d [p] = p"
| "join_with d (p # q # ps) = p @ d @ join_with d (q # ps)"

text \<open>
  \<^verbatim>\<open>strings.ToLower\<close>: the ASCII letters and the two letters outside ASCII whose lower case is
  ASCII (U+0130 and the Kelvin sign U+212A); other letters outside ASCII are left alone, and no
  comparison of the program tells the difference, since it compares with ASCII text.
\<close>

definition lower_rune :: "nat \<times> nat list \<Rightarrow> nat list" where
  "lower_rune p = (case p of (r, w) \<Rightarrow>
     if 65 \<le> r \<and> r \<le> 90 then [r + 32]
     else if r = 0x130 then [105]
     else if r = 0x212A then [107]
     else w)"

definition to_lower :: "string \<Rightarrow> string" where
  "to_lower s = map char_of (concat (map lower_rune (runes (map ord s))))"

text \<open>\<^verbatim>\<open>strings.ReplaceAll\<close> of one byte by a string.\<close>

definition replace_char :: "char \<Rightarrow> string \<Rightarrow> string \<Rightarrow> string" where
  "replace_char c r s = concat (map (\<lambda>x. if x = c then r else [x]) s)"

lemma char_of_ord [simp]: "char_of (ord c) = c"
  by (simp add: ord_def)

lemma map_char_of_ord [simp]: "map (char_of \<circ> ord) s = s"
  by (induction s) auto

text \<open>Text without upper-case letters is its own lower case.\<close>

lemma to_lower_plain:
  assumes "\<forall>c \<in> set s. ord c < 0x80 \<and> \<not> (65 \<le> ord c \<and> ord c \<le> 90)"
  shows "to_lower s = s"
proof -
  have "runes (map ord s) = map (\<lambda>b. (b, [b])) (map ord s)" using assms by (intro runes_ascii) auto
  moreover have "concat (map lower_rune (map (\<lambda>b. (b, [b])) (map ord s))) = map ord s"
    using assms by (induction s) (auto simp: lower_rune_def)
  ultimately show ?thesis by (simp add: to_lower_def)
qed

lemma trim_both_id:
  "xs = [] \<or> (\<not> P (hd xs) \<and> \<not> P (last xs)) \<Longrightarrow> trim_both P xs = xs"
  by (metis (no_types) dropWhile_eq_self_iff drop_while_end_def hd_rev rev_is_Nil_conv
        rev_rev_ident trim_both_def)

lemma trim_both_idem: "trim_both P (trim_both P xs) = trim_both P xs"
proof (rule trim_both_id)
  let ?ys = "trim_both P xs"
  have "\<not> P (last ?ys)" if "?ys \<noteq> []"
    using that by (auto simp: trim_both_def drop_while_end_def last_rev hd_dropWhile)
  moreover have "\<not> P (hd ?ys)" if ne: "?ys \<noteq> []"
  proof -
    let ?zs = "dropWhile P xs"
    obtain ws where ws: "?zs = ?ys @ ws"
      by (metis trim_both_def drop_while_end_def rev_append rev_rev_ident takeWhile_dropWhile_id)
    then have "hd ?zs = hd ?ys" "?zs \<noteq> []" using ne by (auto simp: hd_append)
    then show ?thesis using hd_dropWhile [of P xs] by metis
  qed
  ultimately show "?ys = [] \<or> (\<not> P (hd ?ys) \<and> \<not> P (last ?ys))" by blast
qed

text \<open>A string as a byte slice and back.\<close>

definition to_bytes :: "string \<Rightarrow> 8 word list" where "to_bytes s = map (of_nat \<circ> ord) s"
definition of_bytes :: "8 word list \<Rightarrow> string" where "of_bytes b = map (char_of \<circ> unat) b"

lemma of_to_bytes [simp]: "of_bytes (to_bytes s) = s"
  by (induction s) (simp_all add: of_bytes_def to_bytes_def unat_of_nat take_bit_nat_eq_self)

lemma length_to_bytes [simp]: "length (to_bytes s) = length s" "length (of_bytes b) = length b"
  by (simp_all add: to_bytes_def of_bytes_def)

text \<open>ASCII text that starts and ends with no white space is left alone.\<close>

lemma trim_space_plain:
  assumes "s \<noteq> []" "\<forall>c \<in> set s. ord c < 128" "\<not> is_space_rune (ord (hd s))" "\<not> is_space_rune (ord (last s))"
  shows "trim_space s = s"
proof -
  have r: "runes (map ord s) = map (\<lambda>b. (b, [b])) (map ord s)"
    using assms(2) by (intro runes_ascii) auto
  have "trim_both (\<lambda>(r, w). is_space_rune r) (map (\<lambda>b. (b, [b])) (map ord s)) = map (\<lambda>b. (b, [b])) (map ord s)"
    using assms by (intro trim_both_id) (simp add: hd_map last_map)
  moreover have "concat (map (\<lambda>x. [ord x]) s) = map ord s" by (induction s) auto
  ultimately show ?thesis by (simp add: trim_space_def r comp_def)
qed

lemma set_trim_both: "set (trim_both P xs) \<subseteq> set xs"
  by (auto simp: trim_both_def drop_while_end_def dest!: set_dropWhileD)

lemma has_prefix_iff: "has_prefix s p \<longleftrightarrow> (\<exists>t. s = p @ t)"
  by (auto simp: has_prefix_def) (metis append_take_drop_id)

lemma has_suffix_iff: "has_suffix s p \<longleftrightarrow> (\<exists>t. s = t @ p)"
  by (auto simp: has_suffix_def) (metis append_take_drop_id)

lemma has_prefix_append [simp]: "has_prefix (p @ t) p"
  by (simp add: has_prefix_def)

lemma split_on_ne [simp]: "split_on d s \<noteq> []"
  by (induction s) (auto split: list.splits)

lemma split_on_no: "d \<notin> set s \<Longrightarrow> split_on d s = [s]"
  by (induction s) auto

lemma split_on_append: "d \<notin> set p \<Longrightarrow> split_on d (p @ d # s) = p # split_on d s"
  by (induction p) auto

lemma join_split: "join_with [d] (split_on d s) = s"
proof (induction s)
  case (Cons c s)
  obtain p ps where ps: "split_on d s = p # ps" by (metis split_on_ne list.exhaust)
  show ?case
  proof (cases "c = d")
    case True
    then show ?thesis using Cons ps by auto
  next
    case False
    then show ?thesis using Cons ps by (cases ps) auto
  qed
qed simp

lemma split_join:
  "ps \<noteq> [] \<Longrightarrow> \<forall>p \<in> set ps. d \<notin> set p \<Longrightarrow> split_on d (join_with [d] ps) = ps"
  by (induction "[d]" ps rule: join_with.induct) (auto simp: split_on_no split_on_append)

lemma split_on_parts: "p \<in> set (split_on d s) \<Longrightarrow> d \<notin> set p"
  by (induction s arbitrary: p) (auto split: list.splits if_splits)

lemma set_split_on: "p \<in> set (split_on d s) \<Longrightarrow> set p \<subseteq> set s"
  by (induction s arbitrary: p) (fastforce split: list.splits if_splits)+

lemma length_split_on: "length (split_on d s) = Suc (count_list s d)"
  by (induction s) (auto split: list.splits)

lemma replace_char_absent: "c \<notin> set r \<Longrightarrow> c \<notin> set (replace_char c r s)"
  by (auto simp: replace_char_def split: if_splits)

lemma set_replace_char: "set (replace_char c r s) \<subseteq> set s \<union> set r"
  by (auto simp: replace_char_def split: if_splits)

end
