(* ===== verification/Go_Net.thy ===== *)
theory Go_Net
  imports Go_Strings
begin

text \<open>
  Numbers (\<^verbatim>\<open>strconv\<close>), host:port addresses (\<^verbatim>\<open>net\<close>) and slash paths (\<^verbatim>\<open>path\<close>,
  which is also \<^verbatim>\<open>path/filepath\<close> on a slash platform), with the round trips and shapes the
  components use.
\<close>

section \<open>Decimal and hexadecimal numbers\<close>

definition digit_char :: "nat \<Rightarrow> char" where
  "digit_char d = char_of (if d < 10 then 48 + d else 87 + d)"

fun itoa :: "nat \<Rightarrow> string" where
  "itoa n = (if n < 10 then [digit_char n] else itoa (n div 10) @ [digit_char (n mod 10)])"

declare itoa.simps [simp del]

definition itoa_int :: "int \<Rightarrow> string" where
  "itoa_int i = (if i < 0 then CHR ''-'' # itoa (nat (- i)) else itoa (nat i))"

definition is_digit :: "char \<Rightarrow> bool" where
  "is_digit c = (48 \<le> ord c \<and> ord c \<le> 57)"

definition digits_value :: "string \<Rightarrow> nat" where
  "digits_value s = foldl (\<lambda>n c. 10 * n + (ord c - 48)) 0 s"

text \<open>\<^verbatim>\<open>strconv.ParseUint(s, 10, bits)\<close>: a non-empty run of digits whose value fits.\<close>

definition parse_uint :: "nat \<Rightarrow> string \<Rightarrow> nat option" where
  "parse_uint bits s =
     (if s \<noteq> [] \<and> list_all is_digit s \<and> digits_value s < 2 ^ bits then Some (digits_value s) else None)"

text \<open>\<^verbatim>\<open>strconv.ParseInt(s, 10, bits)\<close>: an optional sign and digits whose value fits.\<close>

definition parse_int :: "nat \<Rightarrow> string \<Rightarrow> int option" where
  "parse_int bits s =
     (let neg = (s \<noteq> [] \<and> hd s = CHR ''-'');
          t = (if s \<noteq> [] \<and> (hd s = CHR ''-'' \<or> hd s = CHR ''+'') then tl s else s);
          n = int (digits_value t)
      in if t = [] \<or> \<not> list_all is_digit t then None
         else if neg then (if n \<le> 2 ^ (bits - 1) then Some (- n) else None)
         else if n < 2 ^ (bits - 1) then Some n else None)"

lemma ord_digit_char: "d < 10 \<Longrightarrow> ord (digit_char d) = 48 + d"
  by (simp add: ord_def digit_char_def)

lemma itoa_digits: "list_all is_digit (itoa n)"
proof (induction n rule: itoa.induct)
  case (1 n)
  then show ?case
    by (subst itoa.simps) (simp add: is_digit_def [of "digit_char _"] ord_digit_char
        mod_less_divisor [THEN Suc_leI, unfolded Suc_le_mono] less_Suc_eq_le [symmetric])
qed

lemma itoa_ne [simp]: "itoa n \<noteq> []"
  by (subst itoa.simps) auto

lemma digits_value_itoa: "digits_value (itoa n) = n"
proof (induction n rule: itoa.induct)
  case (1 n)
  then show ?case
    by (subst itoa.simps) (auto simp: digits_value_def ord_digit_char)
qed

lemma parse_uint_itoa: "n < 2 ^ bits \<Longrightarrow> parse_uint bits (itoa n) = Some n"
  by (simp add: parse_uint_def itoa_digits digits_value_itoa)

lemma parse_uint_bound: "parse_uint bits s = Some n \<Longrightarrow> n < 2 ^ bits"
  by (auto simp: parse_uint_def split: if_splits)

lemma itoa_chars: "c \<in> set (itoa n) \<Longrightarrow> is_digit c"
  using itoa_digits by (auto simp: list_all_iff)

lemma digit_not_special:
  "is_digit c \<Longrightarrow> c \<noteq> CHR '':'' \<and> c \<noteq> CHR ''['' \<and> c \<noteq> CHR '']'' \<and> c \<noteq> CHR ''/'' \<and> c \<noteq> CHR ''.''"
  by (auto simp: is_digit_def ord_def)

text \<open>Lower-case hexadecimal of a byte string, as \<^verbatim>\<open>hex.EncodeToString\<close>.\<close>

definition hex_byte :: "8 word \<Rightarrow> string" where
  "hex_byte b = [digit_char (unat b div 16), digit_char (unat b mod 16)]"

definition hex_string :: "bytes \<Rightarrow> string" where
  "hex_string bs = concat (map hex_byte bs)"

definition is_hex_lower :: "char \<Rightarrow> bool" where
  "is_hex_lower c = (is_digit c \<or> (97 \<le> ord c \<and> ord c \<le> 102))"

lemma digit_char_hex: "d < 16 \<Longrightarrow> is_hex_lower (digit_char d)"
  by (auto simp: is_hex_lower_def is_digit_def digit_char_def ord_def)

lemma unat_byte_less: "unat (b :: 8 word) < 256"
  using unsigned_less [of b] by simp

lemma hex_string_hex: "list_all is_hex_lower (hex_string bs)"
proof -
  have "unat b div 16 < 16" for b :: "8 word"
    using unat_byte_less [of b] by (simp add: less_mult_imp_div_less)
  then show ?thesis
    by (auto simp: hex_string_def hex_byte_def list_all_iff intro: digit_char_hex)
qed

lemma length_hex_string: "length (hex_string bs) = 2 * length bs"
  by (induction bs) (auto simp: hex_string_def hex_byte_def)

section \<open>Host and port\<close>

datatype addr_error = MissingPort | TooManyColons | MissingBracket | UnexpectedBracket

definition last_index :: "'a \<Rightarrow> 'a list \<Rightarrow> nat option" where
  "last_index c s = (if c \<in> set s then Some (length s - Suc (length (takeWhile (\<lambda>x. x \<noteq> c) (rev s)))) else None)"

text \<open>\<^verbatim>\<open>net.SplitHostPort\<close>.\<close>

definition split_host_port :: "string \<Rightarrow> addr_error + string \<times> string" where
  "split_host_port s = (case last_index CHR '':'' s of
      None \<Rightarrow> Inl MissingPort
    | Some i \<Rightarrow>
        if s ! 0 = CHR ''['' then
          (let e = length (takeWhile (\<lambda>c. c \<noteq> CHR '']'') s) in
           if e = length s then Inl MissingBracket
           else if e + 1 = length s then Inl MissingPort
           else if e + 1 \<noteq> i then
             (if s ! (e + 1) = CHR '':'' then Inl TooManyColons else Inl MissingPort)
           else if CHR ''['' \<in> set (drop 1 s) then Inl UnexpectedBracket
           else if CHR '']'' \<in> set (drop (e + 1) s) then Inl UnexpectedBracket
           else Inr (drop 1 (take e s), drop (i + 1) s))
        else if CHR '':'' \<in> set (take i s) then Inl TooManyColons
        else if CHR ''['' \<in> set s then Inl UnexpectedBracket
        else if CHR '']'' \<in> set s then Inl UnexpectedBracket
        else Inr (take i s, drop (i + 1) s))"

text \<open>\<^verbatim>\<open>net.JoinHostPort\<close>: brackets around a host that holds a colon.\<close>

definition join_host_port :: "string \<Rightarrow> string \<Rightarrow> string" where
  "join_host_port h p =
     (if CHR '':'' \<in> set h then CHR ''['' # h @ '']:'' @ p else h @ CHR '':'' # p)"

definition no_brackets :: "string \<Rightarrow> bool" where
  "no_brackets s = (CHR ''['' \<notin> set s \<and> CHR '']'' \<notin> set s)"

lemma last_index_append: "c \<notin> set t \<Longrightarrow> last_index c (s @ c # t) = Some (length s)"
  by (auto simp: last_index_def takeWhile_append)

lemma last_index_Some:
  assumes "last_index c s = Some i"
  shows "i < length s \<and> s ! i = c \<and> c \<notin> set (drop (Suc i) s)"
proof -
  obtain u v where s: "s = u @ c # v" "c \<notin> set v"
    using assms split_list_last [of c s] by (auto simp: last_index_def split: if_splits)
  then have "i = length u" using assms last_index_append by fastforce
  then show ?thesis using s by simp
qed

theorem split_join_host_port:
  assumes "no_brackets h" "no_brackets p" "CHR '':'' \<notin> set p"
  shows "split_host_port (join_host_port h p) = Inr (h, p)"
proof (cases "CHR '':'' \<in> set h")
  case True
  let ?s = "(CHR ''['' # h @ '']'') @ CHR '':'' # p"
  have li: "last_index CHR '':'' ?s = Some (length h + 2)"
    using last_index_append [OF assms(3), of "CHR ''['' # h @ '']''"] by simp
  have e: "length (takeWhile (\<lambda>c. c \<noteq> CHR '']'') ?s) = length h + 1"
    using assms(1) by (simp add: no_brackets_def takeWhile_append)
  show ?thesis using True assms li e
    by (auto simp: join_host_port_def split_host_port_def no_brackets_def Let_def)
next
  case False
  have li: "last_index CHR '':'' (h @ CHR '':'' # p) = Some (length h)"
    using last_index_append [OF assms(3)] by simp
  have "(h @ CHR '':'' # p) ! 0 \<noteq> CHR ''[''"
    using assms(1) by (cases h) (auto simp: no_brackets_def)
  then show ?thesis using False assms li
    by (simp add: join_host_port_def split_host_port_def no_brackets_def)
qed

lemma split_host_port_Inr:
  assumes i: "last_index CHR '':'' s = Some i"
  shows "split_host_port s = Inr (h, p) \<longleftrightarrow> p = drop (i + 1) s \<and>
    (if s ! 0 = CHR ''[''
     then (let e = length (takeWhile (\<lambda>c. c \<noteq> CHR '']'') s) in
       e \<noteq> length s \<and> e + 1 \<noteq> length s \<and> e + 1 = i \<and> CHR ''['' \<notin> set (drop 1 s)
       \<and> CHR '']'' \<notin> set (drop (e + 1) s) \<and> h = drop 1 (take e s))
     else CHR '':'' \<notin> set (take i s) \<and> CHR ''['' \<notin> set s \<and> CHR '']'' \<notin> set s \<and> h = take i s)"
proof -
  define e where "e = length (takeWhile (\<lambda>c. c \<noteq> CHR '']'') s)"
  show ?thesis
    unfolding split_host_port_def i option.simps Let_def e_def [symmetric] by (cases "s ! 0 = CHR ''[''") auto
qed
lemma split_host_port_shape:
  assumes "split_host_port s = Inr (h, p)"
  shows "no_brackets h \<and> no_brackets p \<and> CHR '':'' \<notin> set p"
proof -
  have "last_index CHR '':'' s \<noteq> None"
    using assms unfolding split_host_port_def by (metis option.simps(4) sum.distinct(1))
  then obtain i where i: "last_index CHR '':'' s = Some i" by blast
  note eq = assms [unfolded split_host_port_Inr [OF i] Let_def]
  have p: "p = drop (Suc i) s"
    using eq [THEN conjunct1] by simp
  have colon: "CHR '':'' \<notin> set p"
    using last_index_Some [OF i] p by simp
  show ?thesis
  proof (cases "s ! 0 = CHR ''[''")
    case True
    let ?e = "length (takeWhile (\<lambda>c. c \<noteq> CHR '']'') s)"
    have h: "h = drop 1 (take ?e s)" "CHR ''['' \<notin> set (drop 1 s)"
      "CHR '']'' \<notin> set (drop (?e + 1) s)" "?e + 1 = i"
      using eq unfolding if_P [OF True] by blast+
    have tk: "take ?e s = takeWhile (\<lambda>c. c \<noteq> CHR '']'') s" by (rule takeWhile_eq_take [symmetric])
    have "CHR '']'' \<notin> set h"
      unfolding h(1) tk by (auto dest!: in_set_dropD set_takeWhileD)
    moreover have "CHR ''['' \<notin> set h"
      using h(2) unfolding h(1) drop_take by (meson in_set_takeD)
    moreover have "set p \<subseteq> set (drop 1 s)" "set p \<subseteq> set (drop (?e + 1) s)"
      unfolding p by (rule set_drop_subset_set_drop, use h(4) in linarith)+
    ultimately show ?thesis using colon h(2,3) unfolding no_brackets_def by blast
  next
    case False
    have "h = take i s" "CHR ''['' \<notin> set s" "CHR '']'' \<notin> set s"
      using eq unfolding if_not_P [OF False] by blast+
    then show ?thesis using p colon unfolding no_brackets_def
      by (meson in_set_takeD in_set_dropD)
  qed
qed

section \<open>Slash paths\<close>

text \<open>
  \<^verbatim>\<open>path.Clean\<close>: empty and dot elements go, a dot-dot element removes the element before it,
  leading dot-dot elements of a relative path stay and those of a rooted path go.
\<close>

fun clean_elems :: "bool \<Rightarrow> string list \<Rightarrow> string list \<Rightarrow> string list" where
  "clean_elems rooted st [] = rev st"
| "clean_elems rooted st (e # es) =
     (if e = [] \<or> e = ''.'' then clean_elems rooted st es
      else if e = ''..'' then
        (case st of
           [] \<Rightarrow> clean_elems rooted (if rooted then [] else [''..'']) es
         | x # xs \<Rightarrow> if x = ''..'' then clean_elems rooted (''..'' # st) es
                     else clean_elems rooted xs es)
      else clean_elems rooted (e # st) es)"

definition clean_path :: "string \<Rightarrow> string" where
  "clean_path p =
     (let rooted = has_prefix p ''/'';
          es = clean_elems rooted [] (split_on CHR ''/'' p)
      in if rooted then CHR ''/'' # join_with ''/'' es
         else if es = [] then ''.'' else join_with ''/'' es)"

text \<open>\<^verbatim>\<open>path.Join\<close> of two elements, \<^verbatim>\<open>path.Base\<close> and \<^verbatim>\<open>path.Dir\<close>.\<close>

definition join_path :: "string \<Rightarrow> string \<Rightarrow> string" where
  "join_path a b = (if a = [] \<and> b = [] then [] else if a = [] then clean_path b
     else if b = [] then clean_path a else clean_path (a @ ''/'' @ b))"

definition base_path :: "string \<Rightarrow> string" where
  "base_path p = (if p = [] then ''.'' else
     (let q = drop_while_end (\<lambda>c. c = CHR ''/'') p
      in if q = [] then ''/'' else last (split_on CHR ''/'' q)))"

definition dir_path :: "string \<Rightarrow> string" where
  "dir_path p = clean_path (drop_while_end (\<lambda>c. c \<noteq> CHR ''/'') p)"

text \<open>
  The stack of \<^const>\<open>clean_elems\<close> holds proper elements on top of leading dot-dots, and no
  dot-dot when the path is rooted.
\<close>

definition proper_elem :: "string \<Rightarrow> bool" where
  "proper_elem e = (e \<noteq> [] \<and> e \<noteq> ''.'' \<and> e \<noteq> ''..'')"

definition clean_shape :: "bool \<Rightarrow> string list \<Rightarrow> bool" where
  "clean_shape rooted es = (\<exists>n xs. es = replicate n ''..'' @ xs \<and> list_all proper_elem xs
     \<and> (rooted \<longrightarrow> n = 0))"

lemma clean_shape_Nil [simp]: "clean_shape rooted []"
  by (auto simp: clean_shape_def)

lemma clean_shape_snoc:
  "clean_shape rooted es \<Longrightarrow> proper_elem e \<Longrightarrow> clean_shape rooted (es @ [e])"
  unfolding clean_shape_def
  by (elim exE conjE, rename_tac n xs, rule_tac x = n in exI, rule_tac x = "xs @ [e]" in exI) simp

lemma clean_shape_butlast:
  assumes "clean_shape rooted (es @ [e])" "e \<noteq> ''..''"
  shows "clean_shape rooted es"
proof -
  obtain n xs where x: "es @ [e] = replicate n ''..'' @ xs" "list_all proper_elem xs" "rooted \<longrightarrow> n = 0"
    using assms(1) by (auto simp: clean_shape_def)
  have "xs \<noteq> []"
  proof
    assume "xs = []"
    then have "last (replicate n ''..'') = e" "n \<noteq> 0"
      using x(1) by (metis append_Nil2 last_snoc, metis append_Nil2 snoc_eq_iff_butlast x(1) \<open>xs = []\<close> replicate_0)
    then show False using assms(2) by simp
  qed
  then obtain ys where "xs = ys @ [e]" "es = replicate n ''..'' @ ys"
    by (metis append_butlast_last_id append_assoc append1_eq_conv x(1))
  then show ?thesis using x by (auto simp: clean_shape_def)
qed

lemma clean_shape_dots:
  assumes "clean_shape False (es @ [''..''])"
  shows "clean_shape False (es @ [''..'', ''..''])"
proof -
  obtain n xs where x: "es @ [''..''] = replicate n ''..'' @ xs" "list_all proper_elem xs"
    using assms by (auto simp: clean_shape_def)
  have "xs = []"
  proof (rule ccontr)
    assume "xs \<noteq> []"
    then have "last xs = ''..''" by (metis last_append last_snoc x(1))
    then show False using x(2) \<open>xs \<noteq> []\<close> by (auto simp: list_all_iff proper_elem_def dest: last_in_set)
  qed
  then have "es @ [''..'', ''..''] = replicate (Suc n) ''..'' @ []"
    using x(1) by (metis append.assoc append_Cons append_Nil append_Nil2 replicate_Suc replicate_append_same)
  then show ?thesis unfolding clean_shape_def
    by (intro exI [of _ "Suc n"] exI [of _ "[]"]) simp
qed

lemma clean_elems_shape:
  "clean_shape rooted (rev st) \<Longrightarrow> clean_shape rooted (clean_elems rooted st es)"
proof (induction rooted st es rule: clean_elems.induct)
  case (2 rooted st e es)
  consider "e = [] \<or> e = ''.''" | "e = ''..''" | "proper_elem e"
    by (auto simp: proper_elem_def)
  then show ?case
  proof cases
    case 1
    then show ?thesis using 2 by auto
  next
    case e: 2
    show ?thesis
    proof (cases st)
      case Nil
      have "clean_shape False [''..'']"
        unfolding clean_shape_def by (rule exI [of _ 1], rule exI [of _ "[]"]) simp
      then show ?thesis using 2 e Nil by simp
    next
      case (Cons x xs)
      show ?thesis
      proof (cases "x = ''..''")
        case True
        have "\<not> rooted"
        proof
          assume "rooted"
          then have "proper_elem x"
            using "2.prems" Cons by (auto simp: clean_shape_def)
          then show False using True by (simp add: proper_elem_def)
        qed
        then have "clean_shape rooted (rev (''..'' # st))"
          using "2.prems" Cons True clean_shape_dots by simp
        then show ?thesis using 2 e Cons True by simp
      next
        case False
        then have "clean_shape rooted (rev xs)"
          using "2.prems" Cons clean_shape_butlast by simp
        then show ?thesis using 2 e Cons False by simp
      qed
    qed
  next
    case 3
    then have "clean_shape rooted (rev (e # st))" using "2.prems" clean_shape_snoc by simp
    then show ?thesis using 2 3 by (auto simp: proper_elem_def)
  qed
qed simp

lemma clean_elems_sub: "set (clean_elems rooted st es) \<subseteq> set st \<union> set es \<union> {''..''}"
  by (induction rooted st es rule: clean_elems.induct) (auto split: list.splits)

text \<open>
  A relative path that the program lets through (its cleaned form is neither dot-dot nor starts
  with \<^verbatim>\<open>../\<close>) has proper elements only: it stays below the directory it is joined to.
\<close>

definition inside_rel :: "string \<Rightarrow> bool" where
  "inside_rel p = list_all proper_elem (split_on CHR ''/'' p)"

lemma clean_path_inside:
  assumes "\<not> has_prefix p ''/''" "clean_path p \<noteq> ''.''" "clean_path p \<noteq> ''..''"
    "\<not> has_prefix (clean_path p) ''../''"
  shows "inside_rel (clean_path p)"
proof -
  let ?es = "clean_elems False [] (split_on CHR ''/'' p)"
  have ne: "?es \<noteq> []" and cp: "clean_path p = join_with ''/'' ?es"
    using assms(1,2) by (auto simp: clean_path_def Let_def split: if_splits)
  obtain n xs where x: "?es = replicate n ''..'' @ xs" "list_all proper_elem xs"
    using clean_elems_shape [of False "[]" "split_on CHR ''/'' p"] by (auto simp: clean_shape_def)
  have "n = 0"
  proof (rule ccontr)
    assume "n \<noteq> 0"
    then obtain ys where ys: "?es = ''..'' # ys" using x(1) by (cases n) auto
    show False
    proof (cases ys)
      case Nil
      then show False using assms(3) cp ys by simp
    next
      case (Cons y zs)
      then have "clean_path p = ''../'' @ join_with ''/'' ys" using cp ys by simp
      then show False using assms(4) by (simp add: has_prefix_def)
    qed
  qed
  have "CHR ''/'' \<notin> set e" if "e \<in> set ?es" for e
    using that clean_elems_sub [of False "[]" "split_on CHR ''/'' p"] split_on_parts [of e] by auto
  then have "split_on CHR ''/'' (clean_path p) = ?es"
    using ne cp split_join [of ?es "CHR ''/''"] by simp
  then show ?thesis using x \<open>n = 0\<close> by (simp add: inside_rel_def)
qed

end
