(* ===== verification/Digest.thy ===== *)
theory Digest
  imports Go_Net
begin

text \<open>
  The standard library's \<^verbatim>\<open>crypto/sha256\<close>, written out after FIPS 180-4 so that the content
  addresses of the capture are values of the model and no assumption about them is made: an
  address is 64 lower-case hexadecimal characters. That two different payloads never share an
  address is not a theorem; the properties that rely on it say so in a hypothesis.
\<close>

definition sha_k :: "u32 list" where
  "sha_k =
    [0x428A2F98, 0x71374491, 0xB5C0FBCF, 0xE9B5DBA5, 0x3956C25B, 0x59F111F1, 0x923F82A4, 0xAB1C5ED5,
     0xD807AA98, 0x12835B01, 0x243185BE, 0x550C7DC3, 0x72BE5D74, 0x80DEB1FE, 0x9BDC06A7, 0xC19BF174,
     0xE49B69C1, 0xEFBE4786, 0x0FC19DC6, 0x240CA1CC, 0x2DE92C6F, 0x4A7484AA, 0x5CB0A9DC, 0x76F988DA,
     0x983E5152, 0xA831C66D, 0xB00327C8, 0xBF597FC7, 0xC6E00BF3, 0xD5A79147, 0x06CA6351, 0x14292967,
     0x27B70A85, 0x2E1B2138, 0x4D2C6DFC, 0x53380D13, 0x650A7354, 0x766A0ABB, 0x81C2C92E, 0x92722C85,
     0xA2BFE8A1, 0xA81A664B, 0xC24B8B70, 0xC76C51A3, 0xD192E819, 0xD6990624, 0xF40E3585, 0x106AA070,
     0x19A4C116, 0x1E376C08, 0x2748774C, 0x34B0BCB5, 0x391C0CB3, 0x4ED8AA4A, 0x5B9CCA4F, 0x682E6FF3,
     0x748F82EE, 0x78A5636F, 0x84C87814, 0x8CC70208, 0x90BEFFFA, 0xA4506CEB, 0xBEF9A3F7, 0xC67178F2]"

definition sha_init :: "u32 list" where
  "sha_init = [0x6A09E667, 0xBB67AE85, 0x3C6EF372, 0xA54FF53A, 0x510E527F, 0x9B05688C, 0x1F83D9AB, 0x5BE0CD19]"

fun word_of_bytes :: "bytes \<Rightarrow> u32" where
  "word_of_bytes bs = foldl (\<lambda>w b. push_bit 8 w OR ucast b) 0 bs"

definition bytes_of_word :: "u32 \<Rightarrow> bytes" where
  "bytes_of_word w = [ucast (drop_bit 24 w), ucast (drop_bit 16 w), ucast (drop_bit 8 w), ucast w]"

fun chunks :: "nat \<Rightarrow> 'a list \<Rightarrow> 'a list list" where
  "chunks n xs = (if n = 0 \<or> xs = [] then [] else take n xs # chunks n (drop n xs))"

declare chunks.simps [simp del]

definition sha_pad :: "bytes \<Rightarrow> bytes" where
  "sha_pad m = m @ [0x80] @ replicate ((119 - length m mod 64) mod 64) 0
     @ map (\<lambda>i. of_nat ((8 * length m) div 256 ^ i)) [7, 6, 5, 4, 3, 2, 1, 0]"

definition small_sigma :: "nat \<Rightarrow> nat \<Rightarrow> nat \<Rightarrow> u32 \<Rightarrow> u32" where
  "small_sigma a b c x = word_rotr a x XOR word_rotr b x XOR drop_bit c x"

definition big_sigma :: "nat \<Rightarrow> nat \<Rightarrow> nat \<Rightarrow> u32 \<Rightarrow> u32" where
  "big_sigma a b c x = word_rotr a x XOR word_rotr b x XOR word_rotr c x"

text \<open>The message schedule, the latest word first.\<close>

fun sha_extend :: "nat \<Rightarrow> u32 list \<Rightarrow> u32 list" where
  "sha_extend 0 ws = ws"
| "sha_extend (Suc n) ws =
     sha_extend n ((small_sigma 17 19 10 (ws ! 1) + ws ! 6 + small_sigma 7 18 3 (ws ! 14) + ws ! 15) # ws)"

definition sha_schedule :: "bytes \<Rightarrow> u32 list" where
  "sha_schedule blk = rev (sha_extend 48 (rev (map word_of_bytes (chunks 4 blk))))"

fun sha_round :: "u32 list \<Rightarrow> u32 \<times> u32 \<Rightarrow> u32 list" where
  "sha_round [a, b, c, d, e, f, g, h] (k, w) =
     (let t1 = h + big_sigma 6 11 25 e + ((e AND f) XOR (NOT e AND g)) + k + w;
          t2 = big_sigma 2 13 22 a + ((a AND b) XOR (a AND c) XOR (b AND c))
      in [t1 + t2, a, b, c, d + t1, e, f, g])"
| "sha_round st kw = st"

definition sha_block :: "u32 list \<Rightarrow> bytes \<Rightarrow> u32 list" where
  "sha_block st blk = map2 (+) st (foldl sha_round st (zip sha_k (sha_schedule blk)))"

definition sha256 :: "bytes \<Rightarrow> bytes" where
  "sha256 m = concat (map bytes_of_word (foldl sha_block sha_init (chunks 64 (sha_pad m))))"

definition hex_digest :: "bytes \<Rightarrow> string" where
  "hex_digest m = hex_string (sha256 m)"

lemma length_sha_round: "length st = 8 \<Longrightarrow> length (sha_round st kw) = 8"
  by (induction st kw rule: sha_round.induct) (auto simp: Let_def)

lemma length_sha_block:
  assumes "length st = 8"
  shows "length (sha_block st blk) = 8"
proof -
  have "length (foldl sha_round st kws) = 8" for kws
    using assms by (induction kws arbitrary: st) (auto simp: length_sha_round)
  then show ?thesis using assms by (simp add: sha_block_def)
qed

lemma length_sha256: "length (sha256 m) = 32"
proof -
  have "length (foldl sha_block st blks) = 8" if "length st = 8" for st blks
    using that by (induction blks arbitrary: st) (auto simp: length_sha_block)
  from this [of sha_init] have n: "length (foldl sha_block sha_init blks) = 8" for blks
    by (simp add: sha_init_def)
  have c: "length (concat (map bytes_of_word ws)) = 4 * length ws" for ws
    by (induction ws) (auto simp: bytes_of_word_def)
  show ?thesis by (simp add: sha256_def c n)
qed

lemma length_hex_digest [simp]: "length (hex_digest m) = 64"
  by (simp add: hex_digest_def length_hex_string length_sha256)

lemma hex_digest_hex: "list_all is_hex_lower (hex_digest m)"
  by (simp add: hex_digest_def hex_string_hex)

end
