(* ===== verification/Go_Json.thy ===== *)
theory Go_Json
  imports Go_Net
begin

text \<open>
  The decoding half of \<^verbatim>\<open>encoding/json\<close>: a lexer, a stack machine that builds the value one
  token at a time, and the decoding of struct fields. The program uses it to refuse event data
  that is not JSON, to read contents manifests and to analyse captured events. A number keeps its
  literal; the bounds of \<^verbatim>\<open>int32\<close>, \<^verbatim>\<open>int64\<close> and \<^verbatim>\<open>float64\<close> are checked where a field
  or an \<^verbatim>\<open>any\<close> value is decoded from it.
\<close>

datatype json = JNull | JBool bool | JNum string | JStr string
  | JArr "json list" | JObj "(string \<times> json) list"

datatype token = TLBrace | TRBrace | TLBrack | TRBrack | TComma | TColon
  | TStr string | TNum string | TTrue | TFalse | TNull

section \<open>Strings\<close>

definition encode_rune :: "nat \<Rightarrow> nat list" where
  "encode_rune r =
     (if r < 0x80 then [r]
      else if r < 0x800 then [0xC0 + r div 64, 0x80 + r mod 64]
      else if r < 0x10000 then [0xE0 + r div 4096, 0x80 + r div 64 mod 64, 0x80 + r mod 64]
      else [0xF0 + r div 262144, 0x80 + r div 4096 mod 64, 0x80 + r div 64 mod 64, 0x80 + r mod 64])"

definition hex_value :: "nat \<Rightarrow> nat option" where
  "hex_value b = (if 48 \<le> b \<and> b \<le> 57 then Some (b - 48)
     else if 97 \<le> b \<and> b \<le> 102 then Some (b - 87)
     else if 65 \<le> b \<and> b \<le> 70 then Some (b - 55) else None)"

text \<open>\<^verbatim>\<open>getu4\<close>: the value of a \<^verbatim>\<open>\uXXXX\<close> escape at the front.\<close>

definition hex4 :: "nat \<Rightarrow> nat \<Rightarrow> nat \<Rightarrow> nat \<Rightarrow> nat option" where
  "hex4 a b c d = (if list_all (\<lambda>x. hex_value x \<noteq> None) [a, b, c, d]
     then Some (foldl (\<lambda>n x. n * 16 + the (hex_value x)) 0 [a, b, c, d]) else None)"

definition get_u4 :: "nat list \<Rightarrow> nat option" where
  "get_u4 bs = (case bs of
      p # q # a # b # c # d # r \<Rightarrow> if p = 92 \<and> q = 117 then hex4 a b c d else None
    | _ \<Rightarrow> None)"

definition simple_escape :: "nat \<Rightarrow> nat option" where
  "simple_escape e = (if e = 34 \<or> e = 92 \<or> e = 47 then Some e
     else if e = 98 then Some 8 else if e = 102 then Some 12 else if e = 110 then Some 10
     else if e = 114 then Some 13 else if e = 116 then Some 9 else None)"

definition is_surrogate :: "nat \<Rightarrow> bool" where
  "is_surrogate r = (0xD800 \<le> r \<and> r < 0xE000)"

text \<open>
  One element of a string literal after the opening quote: its decoded bytes and how many bytes
  of the literal it takes. An ill-formed byte becomes U+FFFD, a control byte is an error.
\<close>

definition string_elem :: "nat list \<Rightarrow> (nat list \<times> nat) option" where
  "string_elem bs = (case bs of
      [] \<Rightarrow> None
    | b # rest \<Rightarrow>
        if b < 0x20 then None
        else if b \<noteq> 92 then (case decode_rune bs of (r, w) \<Rightarrow> Some (encode_rune r, w))
        else (case rest of
            [] \<Rightarrow> None
          | e # _ \<Rightarrow>
              if e = 117 then
                (case get_u4 bs of
                   None \<Rightarrow> None
                 | Some r \<Rightarrow>
                     if \<not> is_surrogate r then Some (encode_rune r, 6)
                     else (case get_u4 (drop 6 bs) of
                         Some r2 \<Rightarrow>
                           if r < 0xDC00 \<and> 0xDC00 \<le> r2 \<and> r2 < 0xE000
                           then Some (encode_rune ((r - 0xD800) * 1024 + (r2 - 0xDC00) + 0x10000), 12)
                           else Some (encode_rune 0xFFFD, 6)
                       | None \<Rightarrow> Some (encode_rune 0xFFFD, 6)))
              else map_option (\<lambda>c. ([c], 2)) (simple_escape e)))"

lemma string_elem_width: "string_elem bs = Some (out, w) \<Longrightarrow> 0 < w \<and> bs \<noteq> []"
  using decode_rune_width [of bs]
  by (auto simp: string_elem_def Let_def split: list.splits if_splits option.splits prod.splits)

text \<open>A literal up to its closing quote: the decoded bytes and the rest of the input.\<close>

function lex_string :: "nat list \<Rightarrow> (nat list \<times> nat list) option" where
  "lex_string bs =
     (if bs \<noteq> [] \<and> hd bs = 34 then Some ([], tl bs)
      else (case string_elem bs of
          None \<Rightarrow> None
        | Some (out, w) \<Rightarrow>
            (case lex_string (drop w bs) of
               None \<Rightarrow> None
             | Some (s, rest) \<Rightarrow> Some (out @ s, rest))))"
  by pat_completeness auto
termination
  by (relation "measure length") (auto dest: string_elem_width)

declare lex_string.simps [simp del]

lemma lex_string_shorter: "lex_string bs = Some (s, rest) \<Longrightarrow> length rest < length bs"
proof (induction bs arbitrary: s rest rule: lex_string.induct)
  case (1 bs)
  show ?case
  proof (cases "bs \<noteq> [] \<and> hd bs = 34")
    case True
    then show ?thesis using "1.prems" by (subst (asm) lex_string.simps) auto
  next
    case False
    with "1.prems" obtain out w s' where e: "string_elem bs = Some (out, w)"
      "lex_string (drop w bs) = Some (s', rest)"
      by (subst (asm) lex_string.simps) (auto split: option.splits)
    then show ?thesis using "1.IH" [OF False e(1) refl e(2)] by simp
  qed
qed

section \<open>Numbers\<close>

definition number_char :: "char \<Rightarrow> bool" where
  "number_char c = (is_digit c \<or> c \<in> {CHR ''-'', CHR ''+'', CHR ''.'', CHR ''e'', CHR ''E''})"

text \<open>The parts of a literal: sign, integer digits, fraction digits, exponent (when well formed).\<close>

definition number_parts :: "string \<Rightarrow> (bool \<times> string \<times> string \<times> int) option" where
  "number_parts s =
     (let neg = (s \<noteq> [] \<and> hd s = CHR ''-''); s1 = (if neg then tl s else s);
          ip = takeWhile is_digit s1; s2 = dropWhile is_digit s1;
          has_frac = (s2 \<noteq> [] \<and> hd s2 = CHR ''.'');
          fp = (if has_frac then takeWhile is_digit (tl s2) else []);
          s3 = (if has_frac then dropWhile is_digit (tl s2) else s2);
          has_exp = (s3 \<noteq> [] \<and> hd s3 \<in> {CHR ''e'', CHR ''E''});
          s4 = (if has_exp then tl s3 else s3);
          esign = (has_exp \<and> s4 \<noteq> [] \<and> hd s4 \<in> {CHR ''-'', CHR ''+''});
          ed = (if esign then tl s4 else s4)
      in if ip = [] \<or> (hd ip = CHR ''0'' \<and> length ip > 1) then None
         else if has_frac \<and> fp = [] then None
         else if has_exp \<and> \<not> (ed \<noteq> [] \<and> list_all is_digit ed) then None
         else if \<not> has_exp \<and> s3 \<noteq> [] then None
         else Some (neg, ip, fp,
           (if \<not> has_exp then 0
            else if esign \<and> hd s4 = CHR ''-'' then - int (digits_value ed) else int (digits_value ed))))"

text \<open>A literal fits \<^verbatim>\<open>float64\<close> when rounding it does not overflow.\<close>

definition float64_ok :: "string \<Rightarrow> bool" where
  "float64_ok s = (case number_parts s of
      None \<Rightarrow> False
    | Some (neg, ip, fp, e) \<Rightarrow>
        (let m = digits_value (ip @ fp); k = e - int (length fp) in
         if m = 0 then True
         else if 0 \<le> k then m * 10 ^ nat k < 2 ^ 1024 - 2 ^ 970
         else m < (2 ^ 1024 - 2 ^ 970) * 10 ^ nat (- k)))"

text \<open>An integer literal (no fraction, no exponent), as \<^verbatim>\<open>strconv.ParseInt\<close> reads it.\<close>

definition int_literal :: "string \<Rightarrow> int option" where
  "int_literal s =
     (let neg = (s \<noteq> [] \<and> hd s = CHR ''-''); d = (if neg then tl s else s)
      in if d \<noteq> [] \<and> list_all is_digit d
         then Some (if neg then - int (digits_value d) else int (digits_value d)) else None)"

section \<open>Lexer\<close>

function lex :: "string \<Rightarrow> token list option" where
  "lex s = (case s of
      [] \<Rightarrow> Some []
    | c # r \<Rightarrow>
        if c = CHR '' '' \<or> ord c = 9 \<or> ord c = 10 \<or> ord c = 13 then lex r
        else if c = CHR ''{'' then map_option ((#) TLBrace) (lex r)
        else if c = CHR ''}'' then map_option ((#) TRBrace) (lex r)
        else if c = CHR ''['' then map_option ((#) TLBrack) (lex r)
        else if c = CHR '']'' then map_option ((#) TRBrack) (lex r)
        else if c = CHR '','' then map_option ((#) TComma) (lex r)
        else if c = CHR '':'' then map_option ((#) TColon) (lex r)
        else if ord c = 34 then
          (case lex_string (map ord r) of
             None \<Rightarrow> None
           | Some (t, rest) \<Rightarrow> map_option ((#) (TStr (map char_of t))) (lex (map char_of rest)))
        else if has_prefix s ''true'' then map_option ((#) TTrue) (lex (drop 3 r))
        else if has_prefix s ''false'' then map_option ((#) TFalse) (lex (drop 4 r))
        else if has_prefix s ''null'' then map_option ((#) TNull) (lex (drop 3 r))
        else if is_digit c \<or> c = CHR ''-'' then
          (let lit = c # takeWhile number_char r in
           if number_parts lit = None then None
           else map_option ((#) (TNum lit)) (lex (dropWhile number_char r)))
        else None)"
  by pat_completeness auto
termination
  by (relation "measure length")
    (auto dest!: lex_string_shorter simp: length_dropWhile_le le_imp_less_Suc)

declare lex.simps [simp del]

section \<open>Parser\<close>

text \<open>
  The parser keeps the open arrays and objects (members in reverse) and what it expects next, as
  the scanner of \<^verbatim>\<open>encoding/json\<close> does; more than 10000 open brackets are an error.
\<close>

datatype frame = FArr "json list" | FObj "(string \<times> json) list" | FKey "(string \<times> json) list" string

datatype expect = ExpValue | ExpValueOrEnd | ExpKeyOrEnd | ExpKey | ExpColon | ExpCommaOrEnd
  | ExpDone json

type_synonym parse_state = "frame list \<times> expect"

definition max_nesting :: nat where
  "max_nesting = 10000"

fun push_value :: "json \<Rightarrow> frame list \<Rightarrow> parse_state option" where
  "push_value v [] = Some ([], ExpDone v)"
| "push_value v (FArr vs # fs) = Some (FArr (v # vs) # fs, ExpCommaOrEnd)"
| "push_value v (FKey ms k # fs) = Some (FObj ((k, v) # ms) # fs, ExpCommaOrEnd)"
| "push_value v (FObj ms # fs) = None"

definition open_frame :: "frame \<Rightarrow> expect \<Rightarrow> frame list \<Rightarrow> parse_state option" where
  "open_frame f e fs = (if length fs < max_nesting then Some (f # fs, e) else None)"

fun value_token :: "token \<Rightarrow> frame list \<Rightarrow> parse_state option" where
  "value_token (TStr s) fs = push_value (JStr s) fs"
| "value_token (TNum s) fs = push_value (JNum s) fs"
| "value_token TTrue fs = push_value (JBool True) fs"
| "value_token TFalse fs = push_value (JBool False) fs"
| "value_token TNull fs = push_value JNull fs"
| "value_token TLBrack fs = open_frame (FArr []) ExpValueOrEnd fs"
| "value_token TLBrace fs = open_frame (FObj []) ExpKeyOrEnd fs"
| "value_token _ fs = None"

fun close_frame :: "token \<Rightarrow> frame list \<Rightarrow> parse_state option" where
  "close_frame TRBrack (FArr vs # fs) = push_value (JArr (rev vs)) fs"
| "close_frame TRBrace (FObj ms # fs) = push_value (JObj (rev ms)) fs"
| "close_frame _ _ = None"

fun key_token :: "token \<Rightarrow> frame list \<Rightarrow> parse_state option" where
  "key_token (TStr k) (FObj ms # fs) = Some (FKey ms k # fs, ExpColon)"
| "key_token _ _ = None"

fun json_step :: "parse_state \<Rightarrow> token \<Rightarrow> parse_state option" where
  "json_step (fs, ExpValue) t = value_token t fs"
| "json_step (fs, ExpValueOrEnd) t = (if t = TRBrack then close_frame t fs else value_token t fs)"
| "json_step (fs, ExpKeyOrEnd) t = (if t = TRBrace then close_frame t fs else key_token t fs)"
| "json_step (fs, ExpKey) t = key_token t fs"
| "json_step (fs, ExpColon) t = (if t = TColon then Some (fs, ExpValue) else None)"
| "json_step (fs, ExpCommaOrEnd) t =
     (if t = TComma then
        (case fs of FArr _ # _ \<Rightarrow> Some (fs, ExpValue) | FObj _ # _ \<Rightarrow> Some (fs, ExpKey) | _ \<Rightarrow> None)
      else close_frame t fs)"
| "json_step (fs, ExpDone v) t = None"

fun json_run :: "parse_state \<Rightarrow> token list \<Rightarrow> parse_state option" where
  "json_run st [] = Some st"
| "json_run st (t # ts) = (case json_step st t of None \<Rightarrow> None | Some st' \<Rightarrow> json_run st' ts)"

definition json_parse :: "string \<Rightarrow> json option" where
  "json_parse s = (case lex s of
      None \<Rightarrow> None
    | Some ts \<Rightarrow> (case json_run ([], ExpValue) ts of Some (_, ExpDone v) \<Rightarrow> Some v | _ \<Rightarrow> None))"

text \<open>\<^verbatim>\<open>json.Valid\<close>, and \<^verbatim>\<open>json.Unmarshal\<close> into an \<^verbatim>\<open>any\<close>.\<close>

definition json_valid :: "string \<Rightarrow> bool" where
  "json_valid s = (json_parse s \<noteq> None)"

fun any_ok :: "json \<Rightarrow> bool" where
  "any_ok (JNum s) = float64_ok s"
| "any_ok (JArr vs) = list_all any_ok vs"
| "any_ok (JObj ms) = list_all any_ok (map snd ms)"
| "any_ok _ = True"

definition unmarshal_any_ok :: "string \<Rightarrow> bool" where
  "unmarshal_any_ok s = (case json_parse s of None \<Rightarrow> False | Some v \<Rightarrow> any_ok v)"

section \<open>Struct fields\<close>

text \<open>
  A member sets the field whose name it folds to; a later member overwrites an earlier one, and
  \<^verbatim>\<open>null\<close> leaves the field as it is. A member of the wrong type makes the whole decoding an
  error. A missing field keeps its zero value.
\<close>

definition fold_rune :: "nat \<times> nat list \<Rightarrow> nat list" where
  "fold_rune p = (case p of (r, w) \<Rightarrow>
     if 65 \<le> r \<and> r \<le> 90 then [r + 32] else if r = 0x17F then [115] else if r = 0x212A then [107] else w)"

definition json_fold :: "string \<Rightarrow> string" where
  "json_fold s = map char_of (concat (map fold_rune (runes (map ord s))))"

fun field_values :: "string \<Rightarrow> json \<Rightarrow> json list" where
  "field_values name (JObj ms) = map snd (filter (\<lambda>(k, v). json_fold k = name \<and> v \<noteq> JNull) ms)"
| "field_values name _ = []"

definition field_with :: "(json \<Rightarrow> 'a option) \<Rightarrow> 'a \<Rightarrow> string \<Rightarrow> json \<Rightarrow> 'a option" where
  "field_with dec zero name j =
     (let vs = field_values name j in
      if vs = [] then Some zero
      else if list_all (\<lambda>v. dec v \<noteq> None) vs then dec (last vs) else None)"

text \<open>A pointer field: null sets it to nil. A struct field: later members add to earlier ones.\<close>

fun members_named :: "string \<Rightarrow> json \<Rightarrow> json list" where
  "members_named name (JObj ms) = map snd (filter (\<lambda>(k, v). json_fold k = name) ms)"
| "members_named name _ = []"

definition field_pointer :: "(json \<Rightarrow> 'a option) \<Rightarrow> string \<Rightarrow> json \<Rightarrow> 'a option option" where
  "field_pointer dec name j =
     (let vs = members_named name j in
      if \<not> list_all (\<lambda>v. v = JNull \<or> dec v \<noteq> None) vs then None
      else if vs = [] \<or> last vs = JNull then Some None else Some (dec (last vs)))"

fun object_members :: "json \<Rightarrow> (string \<times> json) list" where
  "object_members (JObj ms) = ms"
| "object_members _ = []"

definition field_struct :: "string \<Rightarrow> json \<Rightarrow> json option" where
  "field_struct name j =
     (let vs = field_values name j in
      if list_all (\<lambda>v. case v of JObj _ \<Rightarrow> True | _ \<Rightarrow> False) vs
      then Some (JObj (concat (map object_members vs))) else None)"

fun json_string :: "json \<Rightarrow> string option" where
  "json_string (JStr s) = Some s"
| "json_string _ = None"

fun json_bool :: "json \<Rightarrow> bool option" where
  "json_bool (JBool b) = Some b"
| "json_bool _ = None"

fun json_int :: "nat \<Rightarrow> json \<Rightarrow> int option" where
  "json_int bits (JNum s) = (case int_literal s of
     None \<Rightarrow> None
   | Some i \<Rightarrow> if - (2 ^ (bits - 1)) \<le> i \<and> i < 2 ^ (bits - 1) then Some i else None)"
| "json_int bits _ = None"

fun json_object_like :: "json \<Rightarrow> bool" where
  "json_object_like (JObj _) = True"
| "json_object_like JNull = True"
| "json_object_like _ = False"

lemma json_int_range:
  "json_int bits j = Some i \<Longrightarrow> - (2 ^ (bits - 1)) \<le> i \<and> i < 2 ^ (bits - 1)"
  by (cases j) (auto split: option.splits if_splits)

lemma json_valid_if_any: "unmarshal_any_ok s \<Longrightarrow> json_valid s"
  by (auto simp: unmarshal_any_ok_def json_valid_def split: option.splits)

text \<open>\<^verbatim>\<open>json.Unmarshal\<close> into a struct: the text (nil is an error) must be an object or null.\<close>

definition unmarshal_object :: "string option \<Rightarrow> json option" where
  "unmarshal_object data =
     (case data of
        None \<Rightarrow> None
      | Some s \<Rightarrow> (case json_parse s of
          None \<Rightarrow> None
        | Some j \<Rightarrow> if json_object_like j then Some j else None))"

end
