(* ===== verification/Schema.thy ===== *)
theory Schema
  imports Digest Go_Json
begin

text \<open>
  The capture schema (\<^verbatim>\<open>internal/capture/schema.go\<close>): events, blob references and the manifest,
  each Go struct a record with one field per struct field. A nil pointer is \<^term>\<open>None\<close>; a
  \<^verbatim>\<open>json.RawMessage\<close> is \<^term>\<open>None\<close> when nil and its text otherwise.
\<close>

definition schema_version :: string where
  "schema_version = ''bedrockdebugproxy.capture.v1''"

section \<open>Directions and severities\<close>

type_synonym direction = string
type_synonym severity = string

definition DirectionClientToServer :: direction where "DirectionClientToServer = ''client_to_server''"
definition DirectionServerToClient :: direction where "DirectionServerToClient = ''server_to_client''"
definition DirectionInternal :: direction where "DirectionInternal = ''internal''"
definition DirectionUnknown :: direction where "DirectionUnknown = ''unknown''"

definition SeverityDebug :: severity where "SeverityDebug = ''debug''"
definition SeverityInfo :: severity where "SeverityInfo = ''info''"
definition SeverityWarn :: severity where "SeverityWarn = ''warn''"
definition SeverityError :: severity where "SeverityError = ''error''"

section \<open>Events\<close>

record endpoint =
  ep_network :: string
  ep_address :: string

record blob_ref =
  br_sha256 :: string
  br_size :: int
  br_path :: string
  br_media_type :: string
  br_representation :: string

record packet_info =
  pi_id :: u32
  pi_name :: string
  pi_go_type :: string
  pi_sender_sub_client :: "8 word"
  pi_target_sub_client :: "8 word"
  pi_decode_status :: string
  pi_unread_bytes :: int

record error_info =
  ei_operation :: string
  ei_message :: string
  ei_type :: string
  ei_temporary :: "bool option"
  ei_timeout :: "bool option"

record event =
  ev_schema :: string
  ev_sequence :: u64
  ev_time :: string
  ev_unix_nano :: int
  ev_elapsed_nano :: int
  ev_capture_id :: string
  ev_session_id :: string
  ev_connection_id :: string
  ev_hop :: int
  ev_kind :: string
  ev_severity :: severity
  ev_direction :: direction
  ev_channel :: string
  ev_stage :: string
  ev_source :: "endpoint option"
  ev_destination :: "endpoint option"
  ev_parent_sequence :: "u64 option"
  ev_packet :: "packet_info option"
  ev_blob :: "blob_ref option"
  ev_data :: "string option"
  ev_error :: "error_info option"
  ev_annotations :: "string list"

text \<open>The zero value of an event, which callers fill in.\<close>

definition empty_event :: event where
  "empty_event = \<lparr>ev_schema = [], ev_sequence = 0, ev_time = [], ev_unix_nano = 0,
     ev_elapsed_nano = 0, ev_capture_id = [], ev_session_id = [], ev_connection_id = [],
     ev_hop = 0, ev_kind = [], ev_severity = [], ev_direction = [], ev_channel = [],
     ev_stage = [], ev_source = None, ev_destination = None, ev_parent_sequence = None,
     ev_packet = None, ev_blob = None, ev_data = None, ev_error = None, ev_annotations = []\<rparr>"

section \<open>Manifest\<close>

record generator =
  g_name :: string
  g_version :: string
  g_commit :: string
  g_go_version :: string
  g_goos :: string
  g_goarch :: string
  g_executable :: string

record capture_options =
  co_sync_each_event :: bool
  co_raw_layers :: "string list"
  co_values :: "string \<rightharpoonup> string"

record capture_counts =
  cc_events :: u64
  cc_blobs :: u64
  cc_blob_bytes :: u64
  cc_write_errors :: u64
  cc_dropped :: u64
  cc_truncated :: u64
  cc_decode_errors :: u64

record completeness =
  cm_complete :: bool
  cm_limitations :: "string list"

record manifest =
  mf_schema :: string
  mf_capture_id :: string
  mf_started_at :: string
  mf_ended_at :: string
  mf_status :: string
  mf_failure :: string
  mf_generator :: generator
  mf_options :: capture_options
  mf_events_path :: string
  mf_blob_root :: string
  mf_counts :: capture_counts
  mf_completeness :: completeness

text \<open>
  \<^verbatim>\<open>Record\<close>: the event with its raw payload. A nil \<^verbatim>\<open>Raw\<close> slice is \<^term>\<open>None\<close> and means
  that the event has no blob; an empty slice is a blob of size zero.
\<close>

record capture_record =
  rc_event :: event
  rc_raw :: "bytes option"
  rc_media_type :: string
  rc_representation :: string

definition zero_counts :: capture_counts where
  "zero_counts = \<lparr>cc_events = 0, cc_blobs = 0, cc_blob_bytes = 0, cc_write_errors = 0,
     cc_dropped = 0, cc_truncated = 0, cc_decode_errors = 0\<rparr>"

section \<open>Content addresses\<close>

text \<open>The layout constants of \<^verbatim>\<open>recorder.go\<close> and \<^verbatim>\<open>Recorder.blobRef\<close>.\<close>

definition manifest_name :: string where "manifest_name = ''manifest.json''"
definition events_name :: string where "events_name = ''events.jsonl''"
definition blob_root :: string where "blob_root = ''blobs/sha256''"

definition blob_path :: "string \<Rightarrow> string" where
  "blob_path digest = join_path (join_path blob_root (take 2 digest)) (digest @ ''.bin'')"

definition make_blob_ref :: "string \<Rightarrow> int \<Rightarrow> string \<Rightarrow> string \<Rightarrow> blob_ref" where
  "make_blob_ref digest n media repr =
     \<lparr>br_sha256 = digest, br_size = n, br_path = blob_path digest, br_media_type = media,
      br_representation = repr\<rparr>"

definition payload_ref :: "bytes \<Rightarrow> string \<Rightarrow> string \<Rightarrow> blob_ref" where
  "payload_ref p media repr = make_blob_ref (hex_digest p) (int (length p)) media repr"

text \<open>A digest of 64 lower-case hexadecimal characters.\<close>

definition digest_text :: "string \<Rightarrow> bool" where
  "digest_text d = (length d = 64 \<and> list_all is_hex_lower d)"

lemma digest_text_hex_digest [simp]: "digest_text (hex_digest p)"
  by (simp add: digest_text_def hex_digest_hex)

lemma is_hex_lower_plain: "is_hex_lower c \<Longrightarrow> c \<noteq> CHR ''/'' \<and> c \<noteq> CHR ''.''"
  by (auto simp: is_hex_lower_def is_digit_def ord_def)

lemma digest_no_slash:
  assumes "list_all is_hex_lower d"
  shows "CHR ''/'' \<notin> set d" "CHR ''.'' \<notin> set d"
  using assms is_hex_lower_plain by (auto simp: list_all_iff)

lemma clean_proper_elems:
  "list_all proper_elem es \<Longrightarrow> clean_elems False st es = rev st @ es"
  by (induction es arbitrary: st) (auto simp: proper_elem_def)

lemma clean_path_proper:
  assumes "es \<noteq> []" "list_all proper_elem es" "\<forall>e \<in> set es. CHR ''/'' \<notin> set e"
  shows "clean_path (join_with ''/'' es) = join_with ''/'' es"
proof -
  have s: "split_on CHR ''/'' (join_with ''/'' es) = es"
    using assms split_join [of es "CHR ''/''"] by simp
  obtain e es' where es: "es = e # es'" using assms(1) by (cases es) auto
  have "e \<noteq> []" "CHR ''/'' \<notin> set e" using assms es by (auto simp: proper_elem_def)
  then obtain c e' where e: "e = c # e'" "c \<noteq> CHR ''/''" by (cases e) auto
  have "\<not> has_prefix (join_with ''/'' es) ''/''"
    using es e by (cases es') (auto simp: has_prefix_def)
  then show ?thesis
    using s assms clean_proper_elems [of es "[]"] by (simp add: clean_path_def Let_def)
qed

text \<open>The path of a blob: the root, the first two characters, the digest.\<close>

lemma blob_path_form:
  assumes "digest_text d"
  shows "blob_path d = ''blobs/sha256/'' @ take 2 d @ ''/'' @ d @ ''.bin''"
proof -
  let ?t = "take 2 d"
  have d: "length d = 64" "list_all is_hex_lower d" using assms by (auto simp: digest_text_def)
  have ns: "CHR ''/'' \<notin> set d" "CHR ''.'' \<notin> set d" using digest_no_slash d(2) by auto
  have nt: "CHR ''/'' \<notin> set ?t" "CHR ''.'' \<notin> set ?t" using ns by (auto dest: in_set_takeD)
  have tne: "?t \<noteq> []" using d(1) by auto
  have pt: "proper_elem ?t" using nt tne by (auto simp: proper_elem_def)
  have "length (d @ ''.bin'') = 68" using d(1) by simp
  then have pd: "proper_elem (d @ ''.bin'')" by (auto simp: proper_elem_def)
  have p1: "proper_elem ''blobs''" "proper_elem ''sha256''" by (auto simp: proper_elem_def)
  have a: "join_path blob_root ?t = ''blobs/sha256/'' @ ?t"
    using clean_path_proper [of "[''blobs'', ''sha256'', ?t]"] p1 pt nt(1) tne
    by (simp add: join_path_def blob_root_def)
  show ?thesis
    unfolding blob_path_def a
    using clean_path_proper [of "[''blobs'', ''sha256'', ?t, d @ ''.bin'']"] p1 pt pd nt(1) ns(1) tne
    by (simp add: join_path_def)
qed

lemma clean_blob_path:
  assumes "digest_text d"
  shows "clean_path (blob_path d) = blob_path d"
proof -
  have d: "length d = 64" "list_all is_hex_lower d" using assms by (auto simp: digest_text_def)
  have ns: "CHR ''/'' \<notin> set d" "CHR ''.'' \<notin> set d" using digest_no_slash d(2) by auto
  have nt: "CHR ''/'' \<notin> set (take 2 d)" "CHR ''.'' \<notin> set (take 2 d)" using ns by (auto dest: in_set_takeD)
  have "take 2 d \<noteq> []" using d(1) by auto
  then have "proper_elem (take 2 d)" using nt by (auto simp: proper_elem_def)
  moreover have "length (d @ ''.bin'') = 68" using d(1) by simp
  then have "proper_elem (d @ ''.bin'')" by (auto simp: proper_elem_def)
  ultimately have "clean_path (join_with ''/'' [''blobs'', ''sha256'', take 2 d, d @ ''.bin''])
      = join_with ''/'' [''blobs'', ''sha256'', take 2 d, d @ ''.bin'']"
    using nt ns by (intro clean_path_proper) (auto simp: proper_elem_def)
  then show ?thesis by (simp add: blob_path_form [OF assms])
qed

lemma blob_path_not:
  assumes "digest_text d"
  shows "blob_path d \<noteq> manifest_name" "blob_path d \<noteq> events_name"
    "\<not> has_prefix (blob_path d) ''/''" "\<not> has_prefix (blob_path d) ''../''" "blob_path d \<noteq> ''..''"
  by (simp_all add: blob_path_form [OF assms] manifest_name_def events_name_def has_prefix_def)

lemma blob_path_inj:
  assumes "digest_text d" "digest_text d'" "blob_path d = blob_path d'"
  shows "d = d'"
proof -
  have l: "length (take 2 d) = length (take 2 d')"
    using assms(1,2) by (simp add: digest_text_def)
  have "take 2 d @ ''/'' @ d @ ''.bin'' = take 2 d' @ ''/'' @ d' @ ''.bin''"
    using assms by (simp add: blob_path_form)
  then have "d @ ''.bin'' = d' @ ''.bin''" using l by simp
  then show ?thesis by simp
qed

end
