(* ===== verification/Go_Time.thy ===== *)
theory Go_Time
  imports Go_Net
begin

text \<open>
  Clock readings and \<^verbatim>\<open>time.RFC3339Nano\<close>. A reading is the wall clock and the monotonic clock,
  both in nanoseconds; \<^verbatim>\<open>Time.Sub\<close> is the difference of the monotonic parts.
\<close>

type_synonym instant = "int \<times> int"

definition unix_nano :: "instant \<Rightarrow> int" where "unix_nano t = fst t"

definition elapsed_since :: "instant \<Rightarrow> instant \<Rightarrow> int" where
  "elapsed_since start t = snd t - snd start"

definition pad_left :: "nat \<Rightarrow> string \<Rightarrow> string" where
  "pad_left n s = replicate (n - length s) (CHR ''0'') @ s"

text \<open>The civil date of a day number counted from 1970-01-01 (proleptic Gregorian calendar).\<close>

definition civil_date :: "int \<Rightarrow> int \<times> int \<times> int" where
  "civil_date d =
     (let z = d + 719468; era = z div 146097; doe = z mod 146097;
          yoe = (doe - doe div 1460 + doe div 36524 - doe div 146096) div 365;
          doy = doe - (365 * yoe + yoe div 4 - yoe div 100);
          mp = (5 * doy + 2) div 153;
          day = doy - (153 * mp + 2) div 5 + 1;
          month = (if mp < 10 then mp + 3 else mp - 9)
      in (yoe + era * 400 + (if month \<le> 2 then 1 else 0), month, day))"

definition fraction_nano :: "int \<Rightarrow> string" where
  "fraction_nano n = (if n = 0 then [] else
     CHR ''.'' # drop_while_end (\<lambda>c. c = CHR ''0'') (pad_left 9 (itoa (nat n))))"

text \<open>\<^verbatim>\<open>t.UTC().Format(time.RFC3339Nano)\<close> for a wall clock within the years 0 to 9999.\<close>

definition rfc3339_nano :: "int \<Rightarrow> string" where
  "rfc3339_nano w =
     (let secs = w div 1000000000; days = secs div 86400; sod = secs mod 86400;
          (y, m, d) = civil_date days; two = (\<lambda>n. pad_left 2 (itoa (nat n)))
      in pad_left 4 (itoa (nat y)) @ ''-'' @ two m @ ''-'' @ two d @ ''T''
         @ two (sod div 3600) @ '':'' @ two (sod div 60 mod 60) @ '':'' @ two (sod mod 60)
         @ fraction_nano (w mod 1000000000) @ ''Z'')"

end
