(* ===== verification/Recorder.thy ===== *)
theory Recorder
  imports Schema Go_Time
begin

text \<open>
  The capture recorder (\<^verbatim>\<open>internal/capture/recorder.go\<close>). Producers call
  \<^verbatim>\<open>Record\<close>, which assigns a sequence number and queues a job; one writer goroutine takes jobs
  in order, stores the payload as a content-addressed blob and appends the event to the stream.
  Each section the code runs under its mutex is one atomic operation here, a function on the
  recorder's state, and the step relation at the end composes them. The disk is part of the state; every system call that can fail takes its outcome from a
  fault argument, so that each error return of the source is a branch.
\<close>

section \<open>Disk\<close>

text \<open>
  What the file system holds below the capture root. A line of the event stream is an encoded
  event or text that does not decode; \<open>dk_torn\<close> says that the stream ends in an unterminated
  line. A blob path leads to a regular file, to a link that stays inside or leaves the capture
  directory, to a file that is not regular, or to one that cannot be read.
\<close>

datatype node = RegularFile bytes | LinkInside bytes | LinkOutside | SpecialFile | Unreadable

datatype line = EventLine event | BadLine

record disk =
  dk_lines :: "line list"
  dk_torn :: bool
  dk_blobs :: "string \<rightharpoonup> node"
  dk_manifest :: "manifest option"

fun node_size :: "node \<Rightarrow> int" where
  "node_size (RegularFile b) = int (length b)"
| "node_size (LinkInside b) = int (length b)"
| "node_size _ = 0"

section \<open>Errors and faults\<close>

datatype rec_error =
    ErrClosed | ErrFailed rec_error | ErrBlobOwned | ErrEncode | ErrInvalidData | ErrContext
  | ErrRawNil | ErrExpectedSize
  | ErrBlobCreate | ErrBlobWrite | ErrRawSize int int | ErrBlobSync | ErrBlobClose
  | ErrBlobExists string int int | ErrBlobStat | ErrBlobDir | ErrBlobPublish | ErrNegativeSize
  | ErrSequence u64 u64 | ErrWriteEvent u64 | ErrSyncEvent u64 | ErrWriterStopped
  | ErrEmptyRoot | ErrRootNotEmpty | ErrInspectRoot | ErrCreateDirs | ErrCreateStream | ErrRandom
  | ErrManifest | ErrEmptyLimitation | ErrOther string

datatype blob_fault = BfCreate | BfCopy | BfSync | BfClose | BfStat | BfDir | BfPublish

datatype write_fault = WfNothing | WfPart | WfAll

datatype manifest_fault = MfKeep | MfLost

text \<open>The outcomes of the system calls one operation makes; \<^term>\<open>None\<close> and \<^term>\<open>False\<close> are success.\<close>

record faults =
  ft_blob :: "blob_fault option"
  ft_write :: "write_fault option"
  ft_sync :: bool

definition no_faults :: faults where
  "no_faults = \<lparr>ft_blob = None, ft_write = None, ft_sync = False\<rparr>"

section \<open>State\<close>

record record_job =
  jb_event :: event
  jb_raw :: "bytes option"
  jb_media_type :: string
  jb_representation :: string
  jb_bytes :: int

text \<open>
  \<open>rd_sending\<close> is the job of the producer that holds \<^verbatim>\<open>enqueueMu\<close> between releasing the state
  mutex and handing the job to the channel; \<open>rd_stopped\<close> says that \<^verbatim>\<open>writerStopped\<close> is closed,
  \<open>rd_queue_closed\<close> that \<^verbatim>\<open>Close\<close> has closed the channel, \<open>rd_writer_done\<close> that the writer
  goroutine has returned.
\<close>

record recorder =
  rd_disk :: disk
  rd_start :: instant
  rd_sequence :: u64
  rd_assigned :: u64
  rd_seen :: "string set"
  rd_dirs :: "string set"
  rd_failed :: "rec_error option"
  rd_closed :: bool
  rd_manifest :: manifest
  rd_queue :: "record_job list"
  rd_capacity :: int
  rd_queue_closed :: bool
  rd_writer_done :: bool
  rd_stopped :: bool
  rd_sending :: "record_job option"
  rd_pending :: int
  rd_pending_bytes :: int
  rd_peak_records :: int
  rd_peak_bytes :: int
  rd_byte_limit :: int

section \<open>Creation\<close>

record rec_options =
  op_capture_id :: string
  op_generator_name :: string
  op_version :: string
  op_commit :: string
  op_sync_each_event :: bool
  op_queue_capacity :: int
  op_queue_bytes :: int
  op_raw_layers :: "string list"
  op_values :: "string \<rightharpoonup> string"
  op_limitations :: "string list"

text \<open>The process environment that \<^verbatim>\<open>New\<close> reads.\<close>

record rec_env =
  en_root_entries :: "nat option"
  en_root_error :: bool
  en_mkdir_fails :: bool
  en_open_fails :: bool
  en_now :: instant
  en_random :: "bytes option"
  en_go_version :: string
  en_goos :: string
  en_goarch :: string
  en_executable :: string
  en_manifest_fault :: "manifest_fault option"

definition default_queue_capacity :: int where "default_queue_capacity = 65536"
definition default_queue_bytes :: int where "default_queue_bytes = 64 * 2 ^ 20"

definition require_empty_or_missing :: "rec_env \<Rightarrow> rec_error option" where
  "require_empty_or_missing env =
     (if en_root_error env then Some ErrInspectRoot
      else (case en_root_entries env of
          None \<Rightarrow> None
        | Some n \<Rightarrow> if n \<noteq> 0 then Some ErrRootNotEmpty else None))"

text \<open>\<^verbatim>\<open>randomID\<close>: sixteen random bytes as a version 4 UUID.\<close>

definition random_id :: "bytes \<Rightarrow> string" where
  "random_id v =
     (let w = v[6 := (v ! 6 AND 0x0F) OR 0x40, 8 := (v ! 8 AND 0x3F) OR 0x80]
      in hex_string (take 4 w) @ ''-'' @ hex_string (take 2 (drop 4 w)) @ ''-''
         @ hex_string (take 2 (drop 6 w)) @ ''-'' @ hex_string (take 2 (drop 8 w)) @ ''-''
         @ hex_string (take 6 (drop 10 w)))"

definition initial_values :: "(string \<rightharpoonup> string) \<Rightarrow> int \<Rightarrow> int \<Rightarrow> (string \<rightharpoonup> string)" where
  "initial_values vs cap bytes = vs
     (''capture_writer'' \<mapsto> ''ordered_async'',
      ''capture_writer_queue_capacity'' \<mapsto> itoa_int cap,
      ''capture_writer_queue_bytes'' \<mapsto> itoa_int bytes,
      ''capture_writer_backpressure'' \<mapsto> ''block'',
      ''capture_writer_loss_policy'' \<mapsto> ''never_drop'')"

definition new_manifest :: "rec_options \<Rightarrow> rec_env \<Rightarrow> string \<Rightarrow> int \<Rightarrow> int \<Rightarrow> manifest" where
  "new_manifest op env cid cap bytes =
     \<lparr>mf_schema = schema_version, mf_capture_id = cid,
      mf_started_at = rfc3339_nano (unix_nano (en_now env)), mf_ended_at = [],
      mf_status = ''open'', mf_failure = [],
      mf_generator =
        \<lparr>g_name = (if op_generator_name op = [] then ''bedrock-debug-proxy'' else op_generator_name op),
         g_version = op_version op, g_commit = op_commit op, g_go_version = en_go_version env,
         g_goos = en_goos env, g_goarch = en_goarch env, g_executable = en_executable env\<rparr>,
      mf_options =
        \<lparr>co_sync_each_event = op_sync_each_event op, co_raw_layers = op_raw_layers op,
         co_values = initial_values (op_values op) cap bytes\<rparr>,
      mf_events_path = events_name, mf_blob_root = blob_root, mf_counts = zero_counts,
      mf_completeness =
        \<lparr>cm_complete = (op_limitations op = []), cm_limitations = op_limitations op\<rparr>\<rparr>"

definition new_recorder :: "string \<Rightarrow> rec_options \<Rightarrow> rec_env \<Rightarrow> rec_error + recorder" where
  "new_recorder root op env =
     (if trim_space root = [] then Inl ErrEmptyRoot
      else case require_empty_or_missing env of
        Some e \<Rightarrow> Inl e
      | None \<Rightarrow>
          if en_mkdir_fails env then Inl ErrCreateDirs
          else if en_open_fails env then Inl ErrCreateStream
          else if op_capture_id op = [] \<and> en_random env = None then Inl ErrRandom
          else if en_manifest_fault env \<noteq> None then Inl ErrManifest
          else
            (let cid = (if op_capture_id op = [] then random_id (the (en_random env)) else op_capture_id op);
                 cap = (if op_queue_capacity op \<le> 0 then default_queue_capacity else op_queue_capacity op);
                 lim = (if op_queue_bytes op \<le> 0 then default_queue_bytes else op_queue_bytes op);
                 m = new_manifest op env cid cap lim
             in Inr \<lparr>rd_disk = \<lparr>dk_lines = [], dk_torn = False, dk_blobs = Map.empty, dk_manifest = Some m\<rparr>,
                     rd_start = en_now env, rd_sequence = 0, rd_assigned = 0, rd_seen = {}, rd_dirs = {},
                     rd_failed = None, rd_closed = False, rd_manifest = m, rd_queue = [],
                     rd_capacity = cap, rd_queue_closed = False, rd_writer_done = False,
                     rd_stopped = False, rd_sending = None, rd_pending = 0, rd_pending_bytes = 0,
                     rd_peak_records = 0, rd_peak_bytes = 0, rd_byte_limit = lim\<rparr>))"

section \<open>Failure and loss\<close>

definition set_complete_false :: "manifest \<Rightarrow> manifest" where
  "set_complete_false m =
     m\<lparr>mf_completeness := (mf_completeness m)\<lparr>cm_complete := False\<rparr>\<rparr>"

definition add_limitation_text :: "string \<Rightarrow> manifest \<Rightarrow> manifest" where
  "add_limitation_text msg m =
     m\<lparr>mf_completeness := (mf_completeness m)\<lparr>cm_limitations := cm_limitations (mf_completeness m) @ [msg]\<rparr>\<rparr>"

definition upd_counts :: "(capture_counts \<Rightarrow> capture_counts) \<Rightarrow> manifest \<Rightarrow> manifest" where
  "upd_counts f m = m\<lparr>mf_counts := f (mf_counts m)\<rparr>"

definition mark_failed :: "rec_error \<Rightarrow> recorder \<Rightarrow> recorder" where
  "mark_failed e r =
     (let r1 = (if rd_failed r = None
                then r\<lparr>rd_failed := Some e,
                       rd_manifest := upd_counts (\<lambda>c. c\<lparr>cc_write_errors := cc_write_errors c + 1\<rparr>) (rd_manifest r)\<rparr>
                else r)
      in r1\<lparr>rd_manifest := set_complete_false (rd_manifest r1)\<rparr>)"

definition loss_reason :: string where
  "loss_reason = ''capture writer failure left accepted events unpersisted''"

definition mark_dropped :: "recorder \<Rightarrow> recorder" where
  "mark_dropped r =
     (let m = set_complete_false (upd_counts (\<lambda>c. c\<lparr>cc_dropped := cc_dropped c + 1\<rparr>) (rd_manifest r))
      in r\<lparr>rd_manifest := (if loss_reason \<in> set (cm_limitations (mf_completeness m)) then m
                           else add_limitation_text loss_reason m)\<rparr>)"

definition complete_pending :: "int \<Rightarrow> recorder \<Rightarrow> recorder" where
  "complete_pending n r =
     (if rd_pending r > 0
      then r\<lparr>rd_pending := rd_pending r - 1, rd_pending_bytes := max 0 (rd_pending_bytes r - n)\<rparr>
      else r)"

section \<open>Blobs\<close>

text \<open>
  \<^verbatim>\<open>storeBlobLocked\<close>: write a temporary file while hashing, check the size, publish under the
  digest. An existing blob of the same size is kept; the temporary file is gone on every path.
\<close>

definition store_blob :: "blob_fault option \<Rightarrow> bytes \<Rightarrow> int \<Rightarrow> string \<Rightarrow> string \<Rightarrow> recorder \<Rightarrow>
    (rec_error + blob_ref) \<times> recorder" where
  "store_blob ft src expected media repr r =
     (if ft = Some BfCreate then (Inl ErrBlobCreate, r)
      else if ft = Some BfCopy then (Inl ErrBlobWrite, r)
      else if expected \<ge> 0 \<and> int (length src) \<noteq> expected then (Inl (ErrRawSize (int (length src)) expected), r)
      else if co_sync_each_event (mf_options (rd_manifest r)) \<and> ft = Some BfSync then (Inl ErrBlobSync, r)
      else if ft = Some BfClose then (Inl ErrBlobClose, r)
      else
        (let digest = hex_digest src; ref = payload_ref src media repr in
         if ft = Some BfStat then (Inl ErrBlobStat, r)
         else case dk_blobs (rd_disk r) (br_path ref) of
           Some nd \<Rightarrow>
             if node_size nd \<noteq> int (length src)
             then (Inl (ErrBlobExists digest (node_size nd) (int (length src))), r)
             else (Inr ref, r)
         | None \<Rightarrow>
             if take 2 digest \<notin> rd_dirs r \<and> ft = Some BfDir then (Inl ErrBlobDir, r)
             else
               (let r1 = r\<lparr>rd_dirs := insert (take 2 digest) (rd_dirs r)\<rparr> in
                if ft = Some BfPublish then (Inl ErrBlobPublish, r1)
                else (Inr ref, r1\<lparr>rd_disk := (rd_disk r1)\<lparr>dk_blobs :=
                        (dk_blobs (rd_disk r1))(br_path ref \<mapsto> RegularFile src)\<rparr>\<rparr>))))"

definition store_blob_bytes :: "blob_fault option \<Rightarrow> bytes \<Rightarrow> string \<Rightarrow> string \<Rightarrow> recorder \<Rightarrow>
    (rec_error + blob_ref) \<times> recorder" where
  "store_blob_bytes ft payload media repr r =
     (if hex_digest payload \<in> rd_seen r then (Inr (payload_ref payload media repr), r)
      else store_blob ft payload (int (length payload)) media repr r)"

section \<open>Appending\<close>

text \<open>\<^verbatim>\<open>json.Marshal\<close> of an event fails only on raw data that is not JSON (empty data is omitted).\<close>

definition marshal_ok :: "event \<Rightarrow> bool" where
  "marshal_ok e = (case ev_data e of None \<Rightarrow> True | Some s \<Rightarrow> s = [] \<or> json_valid s)"

definition append_line :: "event \<Rightarrow> disk \<Rightarrow> disk" where
  "append_line e d = d\<lparr>dk_lines := dk_lines d @ [EventLine e]\<rparr>"

definition count_event :: "event \<Rightarrow> u64 \<Rightarrow> recorder \<Rightarrow> recorder" where
  "count_event e bytes r =
     (let r1 = r\<lparr>rd_sequence := ev_sequence e,
                 rd_manifest := upd_counts (\<lambda>c. c\<lparr>cc_events := cc_events c + 1\<rparr>) (rd_manifest r)\<rparr>;
          r2 = (case ev_blob e of
                  None \<Rightarrow> r1
                | Some ref \<Rightarrow>
                    if br_sha256 ref \<in> rd_seen r1 then r1
                    else r1\<lparr>rd_seen := insert (br_sha256 ref) (rd_seen r1),
                            rd_manifest := upd_counts (\<lambda>c. c\<lparr>cc_blobs := cc_blobs c + 1,
                              cc_blob_bytes := cc_blob_bytes c + bytes\<rparr>) (rd_manifest r1)\<rparr>)
      in if ev_kind e = ''packet.decode_error''
         then r2\<lparr>rd_manifest := upd_counts (\<lambda>c. c\<lparr>cc_decode_errors := cc_decode_errors c + 1\<rparr>) (rd_manifest r2)\<rparr>
         else r2)"

definition append_event :: "faults \<Rightarrow> event \<Rightarrow> u64 \<Rightarrow> recorder \<Rightarrow> (rec_error + event) \<times> recorder" where
  "append_event ft e bytes r =
     (if ev_sequence e \<noteq> rd_sequence r + 1 then (Inl (ErrSequence (ev_sequence e) (rd_sequence r)), r)
      else if \<not> marshal_ok e then (Inl ErrEncode, r)
      else case ft_write ft of
        Some w \<Rightarrow>
          (let d = (case w of WfNothing \<Rightarrow> rd_disk r
                    | WfPart \<Rightarrow> (rd_disk r)\<lparr>dk_torn := True\<rparr>
                    | WfAll \<Rightarrow> append_line e (rd_disk r));
               r1 = mark_failed (ErrWriteEvent (ev_sequence e)) (r\<lparr>rd_disk := d\<rparr>)
           in (Inl (the (rd_failed r1)), r1))
      | None \<Rightarrow>
          (let r1 = r\<lparr>rd_disk := append_line e (rd_disk r)\<rparr> in
           if co_sync_each_event (mf_options (rd_manifest r1)) \<and> ft_sync ft
           then (let r2 = mark_failed (ErrSyncEvent (ev_sequence e)) r1 in (Inl (the (rd_failed r2)), r2))
           else (Inr e, count_event e bytes r1)))"

definition write_job :: "faults \<Rightarrow> record_job \<Rightarrow> recorder \<Rightarrow> (rec_error + event) \<times> recorder" where
  "write_job ft job r =
     (case jb_raw job of
        None \<Rightarrow> append_event ft (jb_event job) 0 r
      | Some raw \<Rightarrow>
          (case store_blob_bytes (ft_blob ft) raw (jb_media_type job) (jb_representation job) r of
             (Inl e, r1) \<Rightarrow> (Inl e, r1)
           | (Inr ref, r1) \<Rightarrow>
               if br_size ref < 0 then (Inl ErrNegativeSize, r1)
               else append_event ft ((jb_event job)\<lparr>ev_blob := Some ref\<rparr>) (of_int (br_size ref)) r1))"

section \<open>Preparing an event\<close>

text \<open>\<^verbatim>\<open>cloneEvent\<close>: a deep copy; copying empty data gives nil.\<close>

definition clone_event :: "event \<Rightarrow> event" where
  "clone_event e = e\<lparr>ev_data := (case ev_data e of Some [] \<Rightarrow> None | d \<Rightarrow> d)\<rparr>"

definition stamp_event :: "instant \<Rightarrow> recorder \<Rightarrow> event \<Rightarrow> event" where
  "stamp_event now r e =
     e\<lparr>ev_schema := schema_version,
       ev_sequence := rd_assigned r + 1,
       ev_time := rfc3339_nano (unix_nano now),
       ev_unix_nano := unix_nano now,
       ev_elapsed_nano := elapsed_since (rd_start r) now,
       ev_capture_id := mf_capture_id (rd_manifest r),
       ev_kind := (if ev_kind e = [] then ''annotation'' else ev_kind e),
       ev_severity := (if ev_severity e = [] then SeverityInfo else ev_severity e),
       ev_direction := (if ev_direction e = [] then DirectionUnknown else ev_direction e)\<rparr>"

definition prepare_event :: "instant \<Rightarrow> recorder \<Rightarrow> event \<Rightarrow> rec_error + event" where
  "prepare_event now r e =
     (case ev_data e of
        Some s \<Rightarrow> if unmarshal_any_ok s then Inr (stamp_event now r e) else Inl ErrInvalidData
      | None \<Rightarrow> Inr (stamp_event now r e))"

section \<open>Producers\<close>

datatype 'a outcome = Blocked | Returned 'a

text \<open>
  The guard of \<^verbatim>\<open>waitForQueueSpace\<close> and \<^verbatim>\<open>waitForIdle\<close>: an error, room, or neither (the
  caller waits, unless its context is done).
\<close>

definition recorder_status :: "recorder \<Rightarrow> rec_error option" where
  "recorder_status r =
     (if rd_closed r then Some ErrClosed
      else map_option ErrFailed (rd_failed r))"

definition queue_space :: "recorder \<Rightarrow> int \<Rightarrow> bool" where
  "queue_space r n =
     (rd_pending r < rd_capacity r
      \<and> (rd_pending_bytes r + n \<le> rd_byte_limit r \<or> rd_pending r = 0))"

definition wait_for_queue_space :: "bool \<Rightarrow> int \<Rightarrow> recorder \<Rightarrow> (rec_error + unit) outcome" where
  "wait_for_queue_space ctx_done n r =
     (case recorder_status r of
        Some e \<Rightarrow> Returned (Inl e)
      | None \<Rightarrow> if queue_space r n then Returned (Inr ())
                else if ctx_done then Returned (Inl ErrContext) else Blocked)"

definition wait_for_idle :: "bool \<Rightarrow> recorder \<Rightarrow> (rec_error + unit) outcome" where
  "wait_for_idle ctx_done r =
     (case recorder_status r of
        Some e \<Rightarrow> Returned (Inl e)
      | None \<Rightarrow> if rd_pending r = 0 then Returned (Inr ())
                else if ctx_done then Returned (Inl ErrContext) else Blocked)"

definition raw_length :: "bytes option \<Rightarrow> int" where
  "raw_length raw = (case raw of None \<Rightarrow> 0 | Some p \<Rightarrow> int (length p))"

definition make_job :: "event \<Rightarrow> bytes option \<Rightarrow> string \<Rightarrow> string \<Rightarrow> record_job" where
  "make_job e raw media repr =
     \<lparr>jb_event = (case raw of None \<Rightarrow> e | Some p \<Rightarrow> e\<lparr>ev_blob := Some (payload_ref p media repr)\<rparr>),
      jb_raw = raw, jb_media_type = media, jb_representation = repr, jb_bytes = raw_length raw\<rparr>"

definition admit_job :: "record_job \<Rightarrow> recorder \<Rightarrow> recorder" where
  "admit_job job r =
     (let p = rd_pending r + 1; b = rd_pending_bytes r + jb_bytes job
      in r\<lparr>rd_assigned := ev_sequence (jb_event job), rd_pending := p, rd_pending_bytes := b,
           rd_peak_records := max (rd_peak_records r) p, rd_peak_bytes := max (rd_peak_bytes r) b,
           rd_sending := Some job\<rparr>)"

text \<open>
  The first half of \<^verbatim>\<open>enqueue\<close>: checks, waiting for space, preparing the event, and taking the
  sequence number, up to the channel send. \<open>ctx0\<close> and \<open>ctx1\<close> say whether the context is done on
  entry and while waiting.
\<close>

definition enqueue_begin :: "bool \<Rightarrow> bool \<Rightarrow> instant \<Rightarrow> capture_record \<Rightarrow> recorder \<Rightarrow>
    (rec_error + event \<times> recorder) outcome" where
  "enqueue_begin ctx0 ctx1 now rc r =
     (if ev_blob (rc_event rc) \<noteq> None then Returned (Inl ErrBlobOwned)
      else if ctx0 then Returned (Inl ErrContext)
      else if \<not> marshal_ok (rc_event rc) then Returned (Inl ErrEncode)
      else case wait_for_queue_space ctx1 (raw_length (rc_raw rc)) r of
        Blocked \<Rightarrow> Blocked
      | Returned (Inl e) \<Rightarrow> Returned (Inl e)
      | Returned (Inr _) \<Rightarrow>
          (case prepare_event now r (clone_event (rc_event rc)) of
             Inl e \<Rightarrow> Returned (Inl e)
           | Inr e \<Rightarrow>
               (let job = make_job e (rc_raw rc) (rc_media_type rc) (rc_representation rc)
                in Returned (Inr (jb_event job, admit_job job r)))))"

text \<open>The send of the second half, and its two other outcomes.\<close>

definition send_job :: "recorder \<Rightarrow> recorder option" where
  "send_job r = (case rd_sending r of
      None \<Rightarrow> None
    | Some job \<Rightarrow>
        if int (length (rd_queue r)) < rd_capacity r
        then Some (r\<lparr>rd_queue := rd_queue r @ [job], rd_sending := None\<rparr>) else None)"

definition rollback_enqueue :: "u64 \<Rightarrow> int \<Rightarrow> recorder \<Rightarrow> recorder" where
  "rollback_enqueue sq n r =
     complete_pending n
       (if rd_assigned r = sq \<and> rd_sequence r < sq then r\<lparr>rd_assigned := rd_assigned r - 1\<rparr> else r)"

definition cancel_send :: "recorder \<Rightarrow> (rec_error \<times> recorder) option" where
  "cancel_send r = map_option (\<lambda>job. (ErrContext,
     (rollback_enqueue (ev_sequence (jb_event job)) (jb_bytes job) r)\<lparr>rd_sending := None\<rparr>)) (rd_sending r)"

definition abort_send :: "recorder \<Rightarrow> (rec_error \<times> recorder) option" where
  "abort_send r = (case rd_sending r of
      None \<Rightarrow> None
    | Some job \<Rightarrow>
        if rd_stopped r
        then Some (ErrFailed (case rd_failed r of None \<Rightarrow> ErrWriterStopped | Some e \<Rightarrow> e),
               (rollback_enqueue (ev_sequence (jb_event job)) (jb_bytes job) r)\<lparr>rd_sending := None\<rparr>)
        else None)"

text \<open>\<^verbatim>\<open>RecordReader\<close> and \<^verbatim>\<open>recordSync\<close>: the event is written while the producer waits.\<close>

definition record_sync :: "faults \<Rightarrow> bool \<Rightarrow> instant \<Rightarrow> event \<Rightarrow> bytes \<Rightarrow> int \<Rightarrow> string \<Rightarrow> string \<Rightarrow> recorder \<Rightarrow>
    (rec_error + event) \<times> recorder" where
  "record_sync ft ctx_done now e src expected media repr r =
     (if ev_blob e \<noteq> None then (Inl ErrBlobOwned, r)
      else if \<not> marshal_ok e then (Inl ErrEncode, r)
      else case recorder_status r of
        Some err \<Rightarrow> (Inl err, r)
      | None \<Rightarrow>
          if ctx_done then (Inl ErrContext, r)
          else case prepare_event now r e of
            Inl err \<Rightarrow> (Inl err, r)
          | Inr e1 \<Rightarrow>
              (case store_blob (ft_blob ft) src expected media repr (r\<lparr>rd_assigned := ev_sequence e1\<rparr>) of
                 (Inl err, r1) \<Rightarrow> (Inl err, mark_failed err r1)
               | (Inr ref, r1) \<Rightarrow>
                   if br_size ref < 0 then (Inl ErrNegativeSize, r1)
                   else append_event ft (e1\<lparr>ev_blob := Some ref\<rparr>) (of_int (br_size ref)) r1))"

definition record_reader :: "faults \<Rightarrow> bool \<Rightarrow> instant \<Rightarrow> event \<Rightarrow> bytes option \<Rightarrow> int \<Rightarrow> string \<Rightarrow> string \<Rightarrow>
    recorder \<Rightarrow> ((rec_error + event) \<times> recorder) outcome" where
  "record_reader ft ctx_done now e src expected media repr r =
     (case src of
        None \<Rightarrow> Returned (Inl ErrRawNil, r)
      | Some p \<Rightarrow>
          if expected < - 1 then Returned (Inl ErrExpectedSize, r)
          else case wait_for_idle ctx_done r of
            Blocked \<Rightarrow> Blocked
          | Returned (Inl err) \<Rightarrow> Returned (Inl err, r)
          | Returned (Inr _) \<Rightarrow> Returned (record_sync ft ctx_done now e p expected media repr r))"

section \<open>Writer\<close>

text \<open>
  One turn of \<^verbatim>\<open>runWriter\<close>: write a job, or after a failure only count it as dropped
  (\<^verbatim>\<open>drainFailedQueue\<close>). The goroutine returns when the channel is closed and empty.
\<close>

definition writer_take :: "faults \<Rightarrow> record_job \<Rightarrow> recorder \<Rightarrow> recorder" where
  "writer_take ft job r =
     (let r1 = (if rd_failed r = None \<and> \<not> rd_closed r
                then (case write_job ft job r of (Inl e, r') \<Rightarrow> mark_failed e r' | (Inr _, r') \<Rightarrow> r')
                else if rd_failed r = None then mark_failed ErrClosed r else r);
          failed = (rd_failed r1 \<noteq> None);
          r2 = complete_pending (jb_bytes job) (if failed then mark_dropped r1 else r1)
      in if failed then r2\<lparr>rd_stopped := True\<rparr> else r2)"

definition drain_take :: "record_job \<Rightarrow> recorder \<Rightarrow> recorder" where
  "drain_take job r = complete_pending (jb_bytes job) (mark_dropped r)"

definition writer_turn :: "faults \<Rightarrow> recorder \<Rightarrow> recorder option" where
  "writer_turn ft r =
     (if rd_writer_done r then None
      else case rd_queue r of
        [] \<Rightarrow> if rd_queue_closed r then Some (r\<lparr>rd_writer_done := True\<rparr>) else None
      | job # js \<Rightarrow>
          (let r1 = r\<lparr>rd_queue := js\<rparr>
           in Some (if rd_stopped r then drain_take job r1 else writer_take ft job r1)))"

section \<open>Other calls\<close>

definition recorder_err :: "recorder \<Rightarrow> rec_error option" where
  "recorder_err r = map_option ErrFailed (rd_failed r)"

definition add_limitation :: "string \<Rightarrow> recorder \<Rightarrow> (rec_error + unit) \<times> recorder" where
  "add_limitation message r =
     (let msg = trim_space message in
      if msg = [] then (Inl ErrEmptyLimitation, r)
      else if rd_closed r then (Inl ErrClosed, r)
      else if msg \<in> set (cm_limitations (mf_completeness (rd_manifest r))) then (Inr (), r)
      else (Inr (), r\<lparr>rd_manifest := add_limitation_text msg (set_complete_false (rd_manifest r))\<rparr>))"

definition add_loss :: "u64 \<Rightarrow> u64 \<Rightarrow> string \<Rightarrow> recorder \<Rightarrow> (rec_error + unit) \<times> recorder" where
  "add_loss dropped truncated reason r =
     (if rd_closed r then (Inl ErrClosed, r)
      else
        (let m = upd_counts (\<lambda>c. c\<lparr>cc_dropped := cc_dropped c + dropped,
                                  cc_truncated := cc_truncated c + truncated\<rparr>) (rd_manifest r);
             m1 = (if dropped \<noteq> 0 \<or> truncated \<noteq> 0
                   then (let m' = set_complete_false m in if reason \<noteq> [] then add_limitation_text reason m' else m')
                   else m)
         in (Inr (), r\<lparr>rd_manifest := m1\<rparr>)))"

text \<open>\<^verbatim>\<open>writeManifestLocked\<close>: a failure leaves the old manifest, or none when the retry fails too.\<close>

definition write_manifest :: "manifest_fault option \<Rightarrow> recorder \<Rightarrow> bool \<times> recorder" where
  "write_manifest ft r =
     (case ft of
        None \<Rightarrow> (True, r\<lparr>rd_disk := (rd_disk r)\<lparr>dk_manifest := Some (rd_manifest r)\<rparr>\<rparr>)
      | Some MfKeep \<Rightarrow> (False, r)
      | Some MfLost \<Rightarrow> (False, r\<lparr>rd_disk := (rd_disk r)\<lparr>dk_manifest := None\<rparr>\<rparr>))"

text \<open>
  \<^verbatim>\<open>Close\<close> in two parts: closing the channel, and, after the writer is done, the final manifest.
  \<open>cause\<close> is the message of the caller's error; \<open>failure_text\<close> gives the recorder's own.
\<close>

definition close_begin :: "recorder \<Rightarrow> recorder option" where
  "close_begin r =
     (if rd_sending r \<noteq> None \<or> rd_queue_closed r \<or> rd_closed r then None
      else Some (r\<lparr>rd_queue_closed := True\<rparr>))"

definition close_status :: "string \<Rightarrow> rec_error option \<Rightarrow> 'c option \<Rightarrow> string" where
  "close_status status failed cause =
     (let s0 = (if status = [] then ''closed'' else status);
          s1 = (if failed \<noteq> None \<and> cause = None then ''failed'' else s0)
      in if failed \<noteq> None \<and> s1 = ''closed'' then ''failed'' else s1)"

definition close_manifest :: "(rec_error \<Rightarrow> string) \<Rightarrow> string \<Rightarrow> string option \<Rightarrow> instant \<Rightarrow> recorder \<Rightarrow> manifest" where
  "close_manifest failure_text status cause now r =
     (let m = rd_manifest r;
          cause1 = (if rd_failed r \<noteq> None \<and> cause = None then map_option failure_text (rd_failed r) else cause);
          vs = (co_values (mf_options m))
                 (''capture_writer_queue_peak_records'' \<mapsto> itoa_int (rd_peak_records r),
                  ''capture_writer_queue_peak_bytes'' \<mapsto> itoa_int (rd_peak_bytes r));
          m1 = m\<lparr>mf_status := close_status status (rd_failed r) cause,
                 mf_options := (mf_options m)\<lparr>co_values := vs\<rparr>\<rparr>;
          m2 = (case cause1 of None \<Rightarrow> m1 | Some t \<Rightarrow> (set_complete_false m1)\<lparr>mf_failure := t\<rparr>)
      in m2\<lparr>mf_ended_at := rfc3339_nano (unix_nano now)\<rparr>)"

definition close_finish :: "(rec_error \<Rightarrow> string) \<Rightarrow> manifest_fault option \<Rightarrow> string \<Rightarrow> string option \<Rightarrow> instant \<Rightarrow>
    recorder \<Rightarrow> (bool \<times> recorder) option" where
  "close_finish failure_text mft status cause now r =
     (if rd_closed r \<or> \<not> rd_queue_closed r \<or> \<not> rd_writer_done r then None
      else Some (write_manifest mft
        (r\<lparr>rd_closed := True, rd_manifest := close_manifest failure_text status cause now r\<rparr>)))"

section \<open>Steps\<close>

text \<open>
  What the recorder does while producers, the writer and \<^verbatim>\<open>Close\<close> run concurrently. A producer
  call that returns an error without touching the state is no step. \<^verbatim>\<open>enqueueMu\<close> is held while
  \<open>rd_sending\<close> is set and from \<^verbatim>\<open>Close\<close>'s first part on.
\<close>

definition enqueue_mutex_free :: "recorder \<Rightarrow> bool" where
  "enqueue_mutex_free r = (rd_sending r = None \<and> (rd_queue_closed r \<longrightarrow> rd_closed r))"

datatype label = Took event "bytes option" | Sent | Undone | Wrote
  | SyncDone "rec_error + event" "bytes option" | Noted | ClosedQueue | Finished

inductive rstep :: "recorder \<Rightarrow> label \<Rightarrow> recorder \<Rightarrow> bool" where
  rs_enqueue: "enqueue_mutex_free r \<Longrightarrow> enqueue_begin ctx0 ctx1 now rc r = Returned (Inr (e, r'))
     \<Longrightarrow> rstep r (Took e (rc_raw rc)) r'"
| rs_send: "send_job r = Some r' \<Longrightarrow> rstep r Sent r'"
| rs_cancel: "cancel_send r = Some (e, r') \<Longrightarrow> rstep r Undone r'"
| rs_abort: "abort_send r = Some (e, r') \<Longrightarrow> rstep r Undone r'"
| rs_writer: "writer_turn ft r = Some r' \<Longrightarrow> rstep r Wrote r'"
| rs_sync: "enqueue_mutex_free r \<Longrightarrow> record_reader ft c now e src n media repr r = Returned (res, r')
     \<Longrightarrow> rstep r (SyncDone res src) r'"
| rs_limitation: "add_limitation msg r = (Inr (), r') \<Longrightarrow> rstep r Noted r'"
| rs_loss: "add_loss d t reason r = (Inr (), r') \<Longrightarrow> rstep r Noted r'"
| rs_close: "close_begin r = Some r' \<Longrightarrow> rstep r ClosedQueue r'"
| rs_finish: "close_finish txt mft status cause now r = Some (ok, r') \<Longrightarrow> rstep r Finished r'"

text \<open>
  A run records its labels. The accepted events of a run are those whose call returned without an
  error: a taken event is accepted once its send is not undone.
\<close>

inductive rrun :: "recorder \<Rightarrow> label list \<Rightarrow> recorder \<Rightarrow> bool" where
  rr_start: "rrun r [] r"
| rr_step: "rrun r ls r1 \<Longrightarrow> rstep r1 l r2 \<Longrightarrow> rrun r (ls @ [l]) r2"

fun accept_label :: "event list \<Rightarrow> label \<Rightarrow> event list" where
  "accept_label acc (Took e _) = acc @ [e]"
| "accept_label acc Undone = butlast acc"
| "accept_label acc (SyncDone (Inr e) _) = acc @ [e]"
| "accept_label acc _ = acc"

definition accepted :: "label list \<Rightarrow> event list" where
  "accepted ls = foldl accept_label [] ls"

fun label_payloads :: "label \<Rightarrow> bytes set" where
  "label_payloads (Took _ (Some p)) = {p}"
| "label_payloads (SyncDone _ (Some p)) = {p}"
| "label_payloads _ = {}"

definition run_payloads :: "label list \<Rightarrow> bytes set" where
  "run_payloads ls = (\<Union>l \<in> set ls. label_payloads l)"

end
