(* ===== verification/Recorder_Accounting.thy ===== *)
theory Recorder_Accounting
  imports Recorder
begin

text \<open>
  Accounting of the recorder's queue, in every reachable state and whatever fails: the pending
  counters are the jobs between the producer and the writer, they stay within the configured
  bounds (back pressure), a failure is never forgotten, and a closed recorder has an empty queue.
\<close>

section \<open>Frame\<close>

text \<open>The fields that writing to the disk does not touch.\<close>

definition core :: "recorder \<Rightarrow> _" where
  "core r = (rd_queue r, rd_sending r, rd_pending r, rd_pending_bytes r, rd_peak_records r,
     rd_peak_bytes r, rd_capacity r, rd_byte_limit r, rd_closed r, rd_queue_closed r,
     rd_writer_done r, rd_stopped r)"

lemma core_mark_failed [simp]: "core (mark_failed e r) = core r"
  by (simp add: core_def mark_failed_def Let_def)

lemma core_mark_dropped [simp]: "core (mark_dropped r) = core r"
  by (simp add: core_def mark_dropped_def Let_def)

lemma core_store_blob [simp]: "core (snd (store_blob ft p n media repr r)) = core r"
  by (auto simp: store_blob_def core_def Let_def split: option.splits)

lemma core_store_blob_bytes [simp]: "core (snd (store_blob_bytes ft p media repr r)) = core r"
  by (simp add: store_blob_bytes_def)

lemma core_count_event [simp]: "core (count_event e n r) = core r"
  by (auto simp: count_event_def core_def Let_def split: option.splits)

lemma core_rec_disk [simp]: "core (r\<lparr>rd_disk := d\<rparr>) = core r"
  by (simp add: core_def)

lemma core_append_event [simp]: "core (snd (append_event ft e n r)) = core r"
  by (auto simp: append_event_def Let_def split: option.splits)

lemma core_write_job [simp]: "core (snd (write_job ft j r)) = core r"
proof (cases "jb_raw j")
  case (Some p)
  obtain res r1 where s: "store_blob_bytes (ft_blob ft) p (jb_media_type j) (jb_representation j) r = (res, r1)"
    by (cases "store_blob_bytes (ft_blob ft) p (jb_media_type j) (jb_representation j) r") auto
  then have "core r1 = core r" by (metis core_store_blob_bytes snd_conv)
  then show ?thesis using s Some by (cases res) (auto simp: write_job_def)
qed (simp add: write_job_def)

lemma core_resultD:
  "store_blob ft p n media repr r = (res, r') \<Longrightarrow> core r' = core r"
  "append_event fs e m r = (res2, r') \<Longrightarrow> core r' = core r"
  "write_job fs j r = (res2, r') \<Longrightarrow> core r' = core r"
  using core_store_blob core_append_event core_write_job by (metis snd_conv)+

lemma core_assigned [simp]: "core (r\<lparr>rd_assigned := q\<rparr>) = core r"
  by (simp add: core_def)

lemma core_record_sync:
  assumes "record_sync ft c now e p n media repr r = (res, r')"
  shows "core r' = core r"
proof (cases "ev_blob e \<noteq> None \<or> \<not> marshal_ok e \<or> recorder_status r \<noteq> None \<or> c
    \<or> (\<exists>err. prepare_event now r e = Inl err)")
  case True
  then show ?thesis using assms by (auto simp: record_sync_def split: option.splits if_splits)
next
  case False
  then obtain e1 where e1: "prepare_event now r e = Inr e1" by (cases "prepare_event now r e") auto
  obtain res1 r1 where s: "store_blob (ft_blob ft) p n media repr (r\<lparr>rd_assigned := ev_sequence e1\<rparr>) = (res1, r1)"
    by fastforce
  have c1: "core r1 = core r" using core_resultD(1) [OF s] by simp
  show ?thesis
  proof (cases res1)
    case (Inl err)
    then show ?thesis using assms False e1 s c1 by (auto simp: record_sync_def)
  next
    case (Inr ref)
    then show ?thesis using assms False e1 s c1
      by (auto simp: record_sync_def split: if_splits dest: core_resultD(2))
  qed
qed

section \<open>Jobs in flight\<close>

definition jobs :: "recorder \<Rightarrow> record_job list" where
  "jobs r = rd_queue r @ (case rd_sending r of None \<Rightarrow> [] | Some j \<Rightarrow> [j])"

definition total_bytes :: "record_job list \<Rightarrow> int" where
  "total_bytes js = sum_list (map jb_bytes js)"

definition accounting :: "recorder \<Rightarrow> bool" where
  "accounting r \<longleftrightarrow>
     0 < rd_capacity r \<and> 0 < rd_byte_limit r
     \<and> rd_pending r = int (length (jobs r)) \<and> rd_pending_bytes r = total_bytes (jobs r)
     \<and> (\<forall>j \<in> set (jobs r). 0 \<le> jb_bytes j)
     \<and> rd_pending r \<le> rd_capacity r
     \<and> (rd_pending_bytes r \<le> rd_byte_limit r \<or> rd_pending r = 1)
     \<and> rd_pending r \<le> rd_peak_records r \<and> rd_peak_records r \<le> rd_capacity r
     \<and> rd_pending_bytes r \<le> rd_peak_bytes r
     \<and> (rd_queue_closed r \<longrightarrow> rd_sending r = None)
     \<and> (rd_closed r \<longrightarrow> rd_queue_closed r \<and> rd_writer_done r)
     \<and> (rd_writer_done r \<longrightarrow> rd_queue r = [] \<and> rd_queue_closed r)"

lemma accountingD:
  assumes "accounting r"
  shows "0 < rd_capacity r" "0 < rd_byte_limit r" "rd_pending r = int (length (jobs r))"
    "rd_pending_bytes r = total_bytes (jobs r)" "\<And>j. j \<in> set (jobs r) \<Longrightarrow> 0 \<le> jb_bytes j"
    "rd_pending r \<le> rd_capacity r" "rd_pending_bytes r \<le> rd_byte_limit r \<or> rd_pending r = 1"
    "rd_pending r \<le> rd_peak_records r" "rd_peak_records r \<le> rd_capacity r"
    "rd_pending_bytes r \<le> rd_peak_bytes r" "rd_queue_closed r \<Longrightarrow> rd_sending r = None"
    "rd_closed r \<Longrightarrow> rd_queue_closed r" "rd_closed r \<Longrightarrow> rd_writer_done r"
    "rd_writer_done r \<Longrightarrow> rd_queue r = []" "rd_writer_done r \<Longrightarrow> rd_queue_closed r"
  using assms unfolding accounting_def by blast+

lemma accountingI:
  assumes "0 < rd_capacity r" "0 < rd_byte_limit r" "jobs r = js" "rd_pending r = int (length js)"
    "rd_pending_bytes r = total_bytes js" "\<forall>j \<in> set js. 0 \<le> jb_bytes j" "rd_pending r \<le> rd_capacity r"
    "rd_pending_bytes r \<le> rd_byte_limit r" "rd_pending r \<le> rd_peak_records r"
    "rd_peak_records r \<le> rd_capacity r" "rd_pending_bytes r \<le> rd_peak_bytes r"
    "rd_queue_closed r \<longrightarrow> rd_sending r = None" "rd_closed r \<longrightarrow> rd_queue_closed r \<and> rd_writer_done r"
    "rd_writer_done r \<longrightarrow> rd_queue r = [] \<and> rd_queue_closed r"
  shows "accounting r"
  using assms by (simp add: accounting_def)

lemma jobs_core: "core r = core r' \<Longrightarrow> jobs r = jobs r'"
  by (simp add: core_def jobs_def)

lemma accounting_core:
  assumes "core r = core r'"
  shows "accounting r = accounting r'"
proof -
  have "jobs r = jobs r'" using assms by (rule jobs_core)
  then show ?thesis using assms unfolding accounting_def core_def by simp
qed

lemma total_bytes_simps [simp]:
  "total_bytes [] = 0" "total_bytes (j # js) = jb_bytes j + total_bytes js"
  "total_bytes (js @ ks) = total_bytes js + total_bytes ks"
  by (simp_all add: total_bytes_def)

lemma total_bytes_nonneg: "\<forall>j \<in> set js. 0 \<le> jb_bytes j \<Longrightarrow> 0 \<le> total_bytes js"
  by (induction js) auto

lemma raw_length_nonneg [simp]: "0 \<le> raw_length raw"
  by (simp add: raw_length_def split: option.splits)

section \<open>Each step keeps the accounts\<close>

lemma accounting_new:
  assumes "new_recorder root op env = Inr r"
  shows "accounting r"
  using assms
  by (auto simp: new_recorder_def Let_def accounting_def jobs_def default_queue_capacity_def
      default_queue_bytes_def split: if_splits option.splits)

lemma enqueue_beginD:
  assumes "enqueue_begin ctx0 ctx1 now rc r = Returned (Inr (e, r'))"
  obtains e1 where "ev_blob (rc_event rc) = None" "marshal_ok (rc_event rc)"
    "recorder_status r = None" "queue_space r (raw_length (rc_raw rc))"
    "prepare_event now r (clone_event (rc_event rc)) = Inr e1"
    "e = jb_event (make_job e1 (rc_raw rc) (rc_media_type rc) (rc_representation rc))"
    "r' = admit_job (make_job e1 (rc_raw rc) (rc_media_type rc) (rc_representation rc)) r"
  using assms
  by (auto simp: enqueue_begin_def wait_for_queue_space_def Let_def
      split: if_splits outcome.splits sum.splits option.splits)

lemma accounting_enqueue:
  assumes "accounting r" "enqueue_mutex_free r"
    "enqueue_begin ctx0 ctx1 now rc r = Returned (Inr (e, r'))"
  shows "accounting r'"
proof -
  obtain e1 where st: "recorder_status r = None" and sp: "queue_space r (raw_length (rc_raw rc))"
    and r': "r' = admit_job (make_job e1 (rc_raw rc) (rc_media_type rc) (rc_representation rc)) r"
    using enqueue_beginD [OF assms(3)] by metis
  have "\<not> rd_closed r" using st by (auto simp: recorder_status_def split: if_splits)
  moreover have "rd_sending r = None" "\<not> rd_queue_closed r"
    using assms(2) calculation by (auto simp: enqueue_mutex_free_def)
  ultimately show ?thesis
    using assms(1) sp unfolding r'
    by (auto simp: accounting_def admit_job_def Let_def jobs_def make_job_def queue_space_def)
qed

lemma accounting_send: "accounting r \<Longrightarrow> send_job r = Some r' \<Longrightarrow> accounting r'"
  by (auto simp: send_job_def accounting_def jobs_def split: option.splits if_splits)

lemma complete_pending_fields [simp]:
  "rd_queue (complete_pending n r) = rd_queue r" "rd_sending (complete_pending n r) = rd_sending r"
  "rd_closed (complete_pending n r) = rd_closed r" "rd_queue_closed (complete_pending n r) = rd_queue_closed r"
  "rd_writer_done (complete_pending n r) = rd_writer_done r" "rd_stopped (complete_pending n r) = rd_stopped r"
  "rd_capacity (complete_pending n r) = rd_capacity r" "rd_byte_limit (complete_pending n r) = rd_byte_limit r"
  "rd_peak_records (complete_pending n r) = rd_peak_records r" "rd_peak_bytes (complete_pending n r) = rd_peak_bytes r"
  "rd_disk (complete_pending n r) = rd_disk r" "rd_manifest (complete_pending n r) = rd_manifest r"
  "rd_failed (complete_pending n r) = rd_failed r" "rd_sequence (complete_pending n r) = rd_sequence r"
  "rd_assigned (complete_pending n r) = rd_assigned r" "rd_seen (complete_pending n r) = rd_seen r"
  by (simp_all add: complete_pending_def)

text \<open>Taking one job out of the account, wherever it stands.\<close>

lemma accounting_complete:
  assumes acc: "accounting r0" and js: "jobs r0 = us @ j # vs"
    and r1: "rd_pending r1 = rd_pending r0" "rd_pending_bytes r1 = rd_pending_bytes r0"
  shows "rd_pending (complete_pending (jb_bytes j) r1) = int (length (us @ vs))"
    "rd_pending_bytes (complete_pending (jb_bytes j) r1) = total_bytes (us @ vs)"
    "total_bytes (us @ vs) \<le> rd_pending_bytes r0" "total_bytes (us @ vs) \<le> rd_byte_limit r0"
    "rd_pending r0 = 1 + int (length (us @ vs))"
proof -
  have nn: "0 \<le> total_bytes (us @ vs)" "0 \<le> jb_bytes j"
    using acc js total_bytes_nonneg [of "us @ vs"] by (auto simp: accounting_def)
  have f: "rd_pending r0 = int (length (jobs r0))" "rd_pending_bytes r0 = total_bytes (jobs r0)"
    and lim: "0 < rd_byte_limit r0" "rd_pending_bytes r0 \<le> rd_byte_limit r0 \<or> rd_pending r0 = 1"
    using acc by (auto simp: accounting_def)
  show "rd_pending r0 = 1 + int (length (us @ vs))" using f js by simp
  show "rd_pending (complete_pending (jb_bytes j) r1) = int (length (us @ vs))"
    "rd_pending_bytes (complete_pending (jb_bytes j) r1) = total_bytes (us @ vs)"
    using f js nn r1 by (simp_all add: complete_pending_def)
  show le: "total_bytes (us @ vs) \<le> rd_pending_bytes r0" using f js nn by simp
  show "total_bytes (us @ vs) \<le> rd_byte_limit r0"
    using lim le f js by (cases us; cases vs) auto
qed

text \<open>A state that differs from an accounted one by one job fewer is accounted.\<close>

lemma accounting_less:
  assumes acc: "accounting r0" and js: "jobs r0 = us @ j # vs" "jobs r = us @ vs"
    and pend: "rd_pending r = int (length (us @ vs))" "rd_pending_bytes r = total_bytes (us @ vs)"
    and same: "rd_writer_done r = rd_writer_done r0" "rd_closed r = rd_closed r0"
      "rd_queue_closed r = rd_queue_closed r0" "rd_capacity r = rd_capacity r0" "rd_byte_limit r = rd_byte_limit r0"
      "rd_peak_records r = rd_peak_records r0" "rd_peak_bytes r = rd_peak_bytes r0"
    and flags: "rd_queue_closed r0 \<longrightarrow> rd_sending r = None" "rd_writer_done r0 \<longrightarrow> rd_queue r = []"
  shows "accounting r"
proof -
  note d = accountingD [OF acc]
  note c = accounting_complete [OF acc js(1) refl refl]
  have "0 < rd_capacity r" "0 < rd_byte_limit r" using d same by simp_all
  moreover have "\<forall>j \<in> set (us @ vs). 0 \<le> jb_bytes j" using d(5) js(1) by auto
  moreover have "rd_pending r \<le> rd_capacity r" "rd_pending r \<le> rd_peak_records r"
    using pend(1) c(5) d(6,8) same by linarith+
  moreover have "rd_pending_bytes r \<le> rd_byte_limit r" "rd_pending_bytes r \<le> rd_peak_bytes r"
    using pend(2) c(3,4) d(10) same by linarith+
  moreover have "rd_peak_records r \<le> rd_capacity r" using d(9) same by simp
  ultimately show ?thesis
    using d(12-15) same flags js(2) pend by (intro accountingI) auto
qed

lemma accounting_after_take:
  assumes acc: "accounting r0" and q: "rd_queue r0 = j # js" and c: "core r1 = core (r0\<lparr>rd_queue := js\<rparr>)"
    and d: "\<not> rd_writer_done r0"
  shows "accounting (complete_pending (jb_bytes j) r1)"
proof -
  let ?r2 = "complete_pending (jb_bytes j) r1"
  let ?js = "js @ (case rd_sending r0 of None \<Rightarrow> [] | Some k \<Rightarrow> [k])"
  have j0: "jobs r0 = [] @ j # ?js" using q by (simp add: jobs_def)
  have j2: "jobs ?r2 = [] @ ?js" using c by (simp add: jobs_def core_def)
  have pr: "rd_pending r1 = rd_pending r0" "rd_pending_bytes r1 = rd_pending_bytes r0"
    using c by (simp_all add: core_def)
  note p = accounting_complete [OF acc j0 pr]
  show ?thesis
    by (rule accounting_less [OF acc j0 j2 p(1,2)])
      (use c d accountingD(11) [OF acc] in \<open>simp_all add: core_def\<close>)
qed

lemma core_writer_take_parts:
  "\<exists>r1. core r1 = core r \<and>
     writer_take ft j r = (complete_pending (jb_bytes j) r1)\<lparr>rd_stopped := (rd_stopped r \<or> rd_failed r1 \<noteq> None)\<rparr>"
proof -
  define r1 where "r1 = (if rd_failed r = None \<and> \<not> rd_closed r
     then (case write_job ft j r of (Inl e, r') \<Rightarrow> mark_failed e r' | (Inr _, r') \<Rightarrow> r')
     else if rd_failed r = None then mark_failed ErrClosed r else r)"
  define r2 where "r2 = (if rd_failed r1 \<noteq> None then mark_dropped r1 else r1)"
  obtain res rw where w: "write_job ft j r = (res, rw)" by fastforce
  have "core rw = core r" by (rule core_resultD(3) [OF w])
  then have c1: "core r1 = core r" by (cases res) (simp_all add: r1_def w)
  then have c: "core r2 = core r" by (simp add: r2_def)
  have f: "rd_failed r2 = rd_failed r1" by (simp add: r2_def mark_dropped_def Let_def)
  have s: "rd_stopped r2 = rd_stopped r" using c by (simp add: core_def)
  have w2: "writer_take ft j r = (let r3 = complete_pending (jb_bytes j) r2
      in if rd_failed r1 \<noteq> None then r3\<lparr>rd_stopped := True\<rparr> else r3)"
    unfolding writer_take_def Let_def r1_def r2_def by (rule refl)
  have "writer_take ft j r = (complete_pending (jb_bytes j) r2)\<lparr>rd_stopped := (rd_stopped r \<or> rd_failed r2 \<noteq> None)\<rparr>"
    by (cases "rd_failed r1 \<noteq> None") (simp_all add: w2 Let_def f flip: s)
  with c show ?thesis by blast
qed

lemma accounting_stopped [simp]: "accounting (r\<lparr>rd_stopped := b\<rparr>) = accounting r"
  by (simp add: accounting_def jobs_def)

lemma writer_turnD:
  assumes "writer_turn ft r = Some r'"
  shows "\<not> rd_writer_done r"
    "rd_queue r = [] \<Longrightarrow> rd_queue_closed r \<and> r' = r\<lparr>rd_writer_done := True\<rparr>"
    "rd_queue r = j # js \<Longrightarrow> r' = (if rd_stopped r then drain_take j (r\<lparr>rd_queue := js\<rparr>)
       else writer_take ft j (r\<lparr>rd_queue := js\<rparr>))"
  using assms by (simp_all add: writer_turn_def Let_def split: if_split_asm)

lemma accounting_writer:
  assumes acc: "accounting r" and w: "writer_turn ft r = Some r'"
  shows "accounting r'"
proof (cases "rd_queue r")
  case Nil
  have "rd_queue_closed r" and r': "r' = r\<lparr>rd_writer_done := True\<rparr>" using writer_turnD(2) [OF w Nil] by simp_all
  moreover have j: "jobs r = []" using accountingD(11) [OF acc] calculation(1) Nil by (simp add: jobs_def)
  then have "jobs r' = []" by (simp add: r' jobs_def)
  ultimately show ?thesis using accountingD [OF acc] j Nil by (intro accountingI [where js = "[]"]) simp_all
next
  case (Cons j js)
  let ?r1 = "r\<lparr>rd_queue := js\<rparr>"
  note r' = writer_turnD(3) [OF w Cons]
  note take = accounting_after_take [OF acc Cons _ writer_turnD(1) [OF w]]
  show ?thesis
  proof (cases "rd_stopped r")
    case True
    then show ?thesis using r' take [of "mark_dropped ?r1"] by (simp add: drain_take_def)
  next
    case False
    obtain r1 where c: "core r1 = core ?r1"
      and r1: "writer_take ft j ?r1 = (complete_pending (jb_bytes j) r1)\<lparr>rd_stopped := (rd_stopped ?r1 \<or> rd_failed r1 \<noteq> None)\<rparr>"
      using core_writer_take_parts [of ?r1 ft j] by (elim exE conjE) simp
    show ?thesis using False r' r1 take [OF c] by simp
  qed
qed

lemma accounting_rollback:
  assumes acc: "accounting r" and s: "rd_sending r = Some j"
  shows "accounting ((rollback_enqueue q (jb_bytes j) r)\<lparr>rd_sending := None\<rparr>)"
proof -
  define r1 where "r1 = (if rd_assigned r = q \<and> rd_sequence r < q then r\<lparr>rd_assigned := rd_assigned r - 1\<rparr> else r)"
  have c: "core r1 = core r" by (simp add: r1_def)
  then have pr: "rd_pending r1 = rd_pending r" "rd_pending_bytes r1 = rd_pending_bytes r"
    by (simp_all add: core_def)
  have j0: "jobs r = rd_queue r @ j # []" using s by (simp add: jobs_def)
  note p = accounting_complete [OF acc j0 pr]
  let ?r2 = "(complete_pending (jb_bytes j) r1)\<lparr>rd_sending := None\<rparr>"
  have j2: "jobs ?r2 = rd_queue r @ []" using c by (simp add: jobs_def core_def)
  have p2: "rd_pending ?r2 = int (length (rd_queue r @ []))" "rd_pending_bytes ?r2 = total_bytes (rd_queue r @ [])"
    using p(1,2) by simp_all
  have "accounting ?r2"
    by (rule accounting_less [OF acc j0 j2 p2])
      (use c accountingD(14) [OF acc] in \<open>simp_all add: core_def\<close>)
  then show ?thesis by (simp add: rollback_enqueue_def r1_def)
qed

lemma record_readerD:
  assumes "record_reader ft c now e src n media repr r = Returned (res, r')"
  shows "(r' = r \<and> (\<exists>err. res = Inl err)) \<or> (\<exists>p. src = Some p \<and> recorder_status r = None \<and> rd_pending r = 0
     \<and> record_sync ft c now e p n media repr r = (res, r'))"
proof (cases src)
  case None
  then show ?thesis using assms by (auto simp: record_reader_def)
next
  case (Some p)
  show ?thesis
  proof (cases "recorder_status r")
    case None
    then show ?thesis using Some assms
      by (auto simp: record_reader_def wait_for_idle_def split: if_split_asm)
  next
    case (Some err)
    then show ?thesis using \<open>src = Some p\<close> assms
      by (auto simp: record_reader_def wait_for_idle_def split: if_split_asm)
  qed
qed

lemma accounting_record_reader:
  assumes acc: "accounting r" and w: "record_reader ft c now e src n media repr r = Returned (res, r')"
  shows "accounting r'"
proof -
  have "core r' = core r"
    using record_readerD [OF w] core_record_sync by blast
  then show ?thesis using acc accounting_core by blast
qed

lemma core_add_limitation: "core (snd (add_limitation msg r)) = core r"
  by (simp add: add_limitation_def core_def Let_def)

lemma core_add_loss: "core (snd (add_loss d t reason r)) = core r"
  by (simp add: add_loss_def core_def Let_def)

lemma accounting_close_begin: "accounting r \<Longrightarrow> close_begin r = Some r' \<Longrightarrow> accounting r'"
  by (auto simp: close_begin_def accounting_def jobs_def split: if_splits)

lemma core_write_manifest [simp]: "core (snd (write_manifest ft r)) = core r"
  by (auto simp: write_manifest_def core_def split: option.splits manifest_fault.splits)

lemma accounting_close_finish:
  assumes acc: "accounting r" and f: "close_finish txt mft status cause now r = Some (ok, r')"
  shows "accounting r'"
proof -
  let ?r1 = "r\<lparr>rd_closed := True, rd_manifest := close_manifest txt status cause now r\<rparr>"
  have w: "write_manifest mft ?r1 = (ok, r')" and g: "rd_queue_closed r" "rd_writer_done r"
    using f by (simp_all add: close_finish_def split: if_split_asm)
  have c: "core r' = core ?r1" using w core_write_manifest [of mft ?r1] by simp
  have "accounting ?r1" using acc g by (auto simp: accounting_def jobs_def)
  then show ?thesis using c accounting_core by blast
qed

lemma accounting_step: "rstep r l r' \<Longrightarrow> accounting r \<Longrightarrow> accounting r'"
proof (induction rule: rstep.induct)
  case (rs_cancel r e r')
  then show ?case using accounting_rollback by (auto simp: cancel_send_def)
next
  case (rs_abort r e r')
  then show ?case using accounting_rollback by (auto simp: abort_send_def split: option.splits if_splits)
next
  case (rs_limitation msg r r')
  then show ?case using accounting_core core_add_limitation by (metis snd_conv)
next
  case (rs_loss d t reason r r')
  then show ?case using accounting_core core_add_loss by (metis snd_conv)
qed (auto intro: accounting_enqueue accounting_send accounting_writer accounting_record_reader
      accounting_close_begin accounting_close_finish)

lemma accounting_run: "rrun r ls r' \<Longrightarrow> accounting r \<Longrightarrow> accounting r'"
  by (induction rule: rrun.induct) (auto intro: accounting_step)

end
