(* ===== verification/Recorder_Stream.thy ===== *)
theory Recorder_Stream
  imports Recorder_Accounting
begin

text \<open>
  What the recorder keeps true of the capture itself. In every reachable state the event stream
  is numbered 1, 2, 3 and so on; while nothing has failed it is, together with the jobs in flight,
  exactly the sequence of accepted events, every blob is on disk under its digest, and the
  manifest's counts are the true ones.
\<close>

section \<open>The stream\<close>

definition stored :: "disk \<Rightarrow> event list" where
  "stored d = concat (map (\<lambda>l. case l of EventLine e \<Rightarrow> [e] | BadLine \<Rightarrow> []) (dk_lines d))"

definition header_ok :: "string \<Rightarrow> u64 \<Rightarrow> event \<Rightarrow> bool" where
  "header_ok cid sq e = (ev_schema e = schema_version \<and> ev_capture_id e = cid \<and> ev_sequence e = sq)"

fun numbered :: "string \<Rightarrow> nat \<Rightarrow> event list \<Rightarrow> bool" where
  "numbered cid n [] = True"
| "numbered cid n (e # es) = (header_ok cid (of_nat (Suc n)) e \<and> numbered cid (Suc n) es)"

lemma numbered_append [simp]:
  "numbered cid n (xs @ ys) = (numbered cid n xs \<and> numbered cid (n + length xs) ys)"
  by (induction xs arbitrary: n) auto

lemma numbered_nth:
  "numbered cid n es \<Longrightarrow> i < length es \<Longrightarrow> header_ok cid (of_nat (n + Suc i)) (es ! i)"
proof (induction es arbitrary: n i)
  case (Cons e es)
  then show ?case by (cases i) (auto simp: add.assoc dest: Cons.IH [of "Suc n"])
qed simp

definition cid :: "recorder \<Rightarrow> string" where
  "cid r = mf_capture_id (rd_manifest r)"

definition stream_ok :: "recorder \<Rightarrow> bool" where
  "stream_ok r \<longleftrightarrow> dk_lines (rd_disk r) = map EventLine (stored (rd_disk r))
     \<and> numbered (cid r) 0 (stored (rd_disk r))"

lemma stored_append_line [simp]: "stored (append_line e d) = stored d @ [e]"
  by (simp add: stored_def append_line_def)

lemma dk_lines_append_line [simp]: "dk_lines (append_line e d) = dk_lines d @ [EventLine e]"
  by (simp add: append_line_def)

lemma dk_torn_append_line [simp]: "dk_torn (append_line e d) = dk_torn d"
  by (simp add: append_line_def)

lemma dk_blobs_append_line [simp]: "dk_blobs (append_line e d) = dk_blobs d"
  by (simp add: append_line_def)

lemma stored_update [simp]:
  "stored (d\<lparr>dk_torn := b\<rparr>) = stored d" "stored (d\<lparr>dk_blobs := m\<rparr>) = stored d"
  "stored (d\<lparr>dk_manifest := mm\<rparr>) = stored d"
  by (simp_all add: stored_def)

section \<open>Blobs and counts\<close>

definition stream_payloads :: "bytes set \<Rightarrow> event list \<Rightarrow> bytes set" where
  "stream_payloads P es = {p \<in> P. \<exists>e \<in> set es. \<exists>m t. ev_blob e = Some (payload_ref p m t)}"

definition refs_known :: "bytes set \<Rightarrow> event list \<Rightarrow> bool" where
  "refs_known P es \<longleftrightarrow> (\<forall>e \<in> set es. \<forall>ref. ev_blob e = Some ref \<longrightarrow> (\<exists>p \<in> P. \<exists>m t. ref = payload_ref p m t))"

definition blobs_known :: "bytes set \<Rightarrow> disk \<Rightarrow> bool" where
  "blobs_known P d \<longleftrightarrow> (\<forall>path nd. dk_blobs d path = Some nd \<longrightarrow>
     (\<exists>p \<in> P. path = blob_path (hex_digest p) \<and> nd = RegularFile p))"

definition blobs_present :: "bytes set \<Rightarrow> disk \<Rightarrow> bool" where
  "blobs_present B d \<longleftrightarrow> (\<forall>p \<in> B. dk_blobs d (blob_path (hex_digest p)) = Some (RegularFile p))"

definition counts_ok :: "bytes set \<Rightarrow> event list \<Rightarrow> capture_counts \<Rightarrow> bool" where
  "counts_ok B es c \<longleftrightarrow> cc_events c = of_nat (length es) \<and> cc_blobs c = of_nat (card B)
     \<and> cc_blob_bytes c = of_nat (\<Sum>p \<in> B. length p)"

definition committed :: "bytes set \<Rightarrow> recorder \<Rightarrow> bool" where
  "committed P r \<longleftrightarrow>
     (let es = stored (rd_disk r); B = stream_payloads P es in
      stream_ok r \<and> \<not> dk_torn (rd_disk r) \<and> rd_sequence r = of_nat (length es)
      \<and> refs_known P es \<and> blobs_known P (rd_disk r) \<and> blobs_present B (rd_disk r)
      \<and> rd_seen r = hex_digest ` B \<and> counts_ok B es (mf_counts (rd_manifest r)))"

lemma payload_ref_inj:
  "payload_ref p m t = payload_ref q m' t' \<Longrightarrow> hex_digest p = hex_digest q"
  by (simp add: payload_ref_def make_blob_ref_def)

lemma payload_ref_fields [simp]:
  "br_sha256 (payload_ref p m t) = hex_digest p" "br_size (payload_ref p m t) = int (length p)"
  "br_path (payload_ref p m t) = blob_path (hex_digest p)"
  by (simp_all add: payload_ref_def make_blob_ref_def)

lemma finite_stream_payloads: "finite P \<Longrightarrow> finite (stream_payloads P es)"
  by (simp add: stream_payloads_def)

lemma stream_payloads_none:
  "ev_blob e = None \<Longrightarrow> stream_payloads P (es @ [e]) = stream_payloads P es"
  by (auto simp: stream_payloads_def)

lemma stream_payloads_some:
  assumes "ev_blob e = Some (payload_ref p m t)" "p \<in> P" "inj_on hex_digest P"
  shows "stream_payloads P (es @ [e]) = insert p (stream_payloads P es)"
proof -
  have eq: "q = p" if "q \<in> P" "ev_blob e = Some (payload_ref q m' t')" for q m' t'
  proof -
    have "payload_ref p m t = payload_ref q m' t'" using that assms(1) by simp
    then have "hex_digest p = hex_digest q" by (rule payload_ref_inj)
    then show "q = p" using inj_onD [OF assms(3)] that(1) assms(2) by simp
  qed
  show ?thesis
  proof (intro set_eqI iffI)
    fix q assume "q \<in> stream_payloads P (es @ [e])"
    then show "q \<in> insert p (stream_payloads P es)"
      using eq unfolding stream_payloads_def by auto
  next
    fix q assume "q \<in> insert p (stream_payloads P es)"
    then show "q \<in> stream_payloads P (es @ [e])"
      using assms(1,2) unfolding stream_payloads_def by auto
  qed
qed

lemma stream_payloads_sub: "stream_payloads P es \<subseteq> P"
  by (auto simp: stream_payloads_def)

lemma seen_iff:
  assumes "inj_on hex_digest P" "p \<in> P" "B \<subseteq> P"
  shows "hex_digest p \<in> hex_digest ` B \<longleftrightarrow> p \<in> B"
  using assms by (auto dest: inj_onD)

section \<open>Fields a failure touches\<close>

lemma mark_failed_fields [simp]:
  "rd_disk (mark_failed e r) = rd_disk r" "rd_sequence (mark_failed e r) = rd_sequence r"
  "rd_assigned (mark_failed e r) = rd_assigned r" "rd_seen (mark_failed e r) = rd_seen r"
  "rd_start (mark_failed e r) = rd_start r"
  "rd_failed (mark_failed e r) \<noteq> None" "cid (mark_failed e r) = cid r"
  "mf_options (rd_manifest (mark_failed e r)) = mf_options (rd_manifest r)"
  by (auto simp: mark_failed_def Let_def upd_counts_def set_complete_false_def cid_def)

lemma mark_failed_ex [simp]: "\<exists>err. rd_failed (mark_failed e r) = Some err"
  by (simp add: mark_failed_def Let_def)

lemma mark_dropped_fields [simp]:
  "rd_disk (mark_dropped r) = rd_disk r" "rd_sequence (mark_dropped r) = rd_sequence r"
  "rd_assigned (mark_dropped r) = rd_assigned r" "rd_seen (mark_dropped r) = rd_seen r"
  "rd_failed (mark_dropped r) = rd_failed r" "cid (mark_dropped r) = cid r"
  by (auto simp: mark_dropped_def Let_def upd_counts_def set_complete_false_def add_limitation_text_def cid_def)

lemma stream_ok_mark [simp]:
  "stream_ok (mark_failed e r) = stream_ok r" "stream_ok (mark_dropped r) = stream_ok r"
  by (simp_all add: stream_ok_def)

lemma cid_update [simp]:
  "cid (r\<lparr>rd_disk := d\<rparr>) = cid r" "cid (r\<lparr>rd_assigned := q\<rparr>) = cid r" "cid (r\<lparr>rd_queue := js\<rparr>) = cid r"
  "cid (r\<lparr>rd_sending := j\<rparr>) = cid r" "cid (r\<lparr>rd_dirs := ds\<rparr>) = cid r" "cid (r\<lparr>rd_stopped := b\<rparr>) = cid r"
  "cid (complete_pending n r) = cid r"
  by (simp_all add: cid_def)

section \<open>Storing a blob\<close>

text \<open>
  Storing a payload changes nothing but the directories and the blobs on disk, whatever its
  result; a success leaves the payload under its digest.
\<close>

lemma store_blob_frame:
  assumes "store_blob ft p n media repr r = (res, r')"
  shows "r' = r\<lparr>rd_dirs := rd_dirs r', rd_disk := (rd_disk r)\<lparr>dk_blobs := dk_blobs (rd_disk r')\<rparr>\<rparr>"
  using assms by (auto simp: store_blob_def Let_def split: if_split_asm option.splits)

lemma store_blob_ok:
  assumes P: "inj_on hex_digest P" "p \<in> P" and k: "blobs_known P (rd_disk r)"
    and s: "store_blob ft p n media repr r = (Inr ref, r')"
  shows "ref = payload_ref p media repr \<and>
     dk_blobs (rd_disk r') = (dk_blobs (rd_disk r))(blob_path (hex_digest p) \<mapsto> RegularFile p)"
proof (cases "dk_blobs (rd_disk r) (blob_path (hex_digest p))")
  case None
  then show ?thesis using s by (auto simp: store_blob_def Let_def split: if_split_asm)
next
  case (Some nd)
  then obtain q where q: "q \<in> P" "blob_path (hex_digest p) = blob_path (hex_digest q)" "nd = RegularFile q"
    using k unfolding blobs_known_def by blast
  then have "p = q" using P blob_path_inj inj_onD digest_text_hex_digest by metis
  then show ?thesis using s Some q by (auto simp: store_blob_def Let_def split: if_split_asm)
qed

lemma blobs_known_upd:
  "blobs_known P d \<Longrightarrow> p \<in> P \<Longrightarrow>
   blobs_known P (d\<lparr>dk_blobs := (dk_blobs d)(blob_path (hex_digest p) \<mapsto> RegularFile p)\<rparr>)"
  by (auto simp: blobs_known_def)

lemma blobs_present_upd:
  assumes "blobs_present B d" "inj_on hex_digest P" "p \<in> P" "B \<subseteq> P"
  shows "blobs_present B (d\<lparr>dk_blobs := (dk_blobs d)(blob_path (hex_digest p) \<mapsto> RegularFile p)\<rparr>)"
  using assms blob_path_inj
  by (auto simp: blobs_present_def) (metis digest_text_hex_digest inj_onD subsetD)

lemma committed_store:
  assumes P: "inj_on hex_digest P" "p \<in> P" and c: "committed P r"
    and s: "store_blob ft p n media repr r = (Inr ref, r')"
  shows "committed P r' \<and> ref = payload_ref p media repr
     \<and> dk_blobs (rd_disk r') (blob_path (hex_digest p)) = Some (RegularFile p)"
proof -
  define ds m where "ds = rd_dirs r'" and "m = dk_blobs (rd_disk r')"
  then have r': "r' = r\<lparr>rd_dirs := ds, rd_disk := (rd_disk r)\<lparr>dk_blobs := m\<rparr>\<rparr>"
    using store_blob_frame [OF s] by simp
  have k: "blobs_known P (rd_disk r)" using c by (simp add: committed_def Let_def)
  note ok = store_blob_ok [OF P k s]
  then have m: "m = (dk_blobs (rd_disk r))(blob_path (hex_digest p) \<mapsto> RegularFile p)"
    using r' by simp
  have "blobs_present (stream_payloads P (stored (rd_disk r))) (rd_disk r)"
    using c by (simp add: committed_def Let_def)
  note pres = blobs_present_upd [OF this P stream_payloads_sub]
  show ?thesis
    using c ok blobs_known_upd [OF k P(2)] pres unfolding r' m
    by (auto simp: committed_def Let_def stream_ok_def cid_def)
qed

section \<open>Appending an event\<close>

definition blob_ready :: "bytes set \<Rightarrow> recorder \<Rightarrow> event \<Rightarrow> u64 \<Rightarrow> bool" where
  "blob_ready P r e n \<longleftrightarrow> ev_blob e = None \<or>
     (\<exists>p \<in> P. \<exists>m t. ev_blob e = Some (payload_ref p m t) \<and> n = of_nat (length p)
        \<and> dk_blobs (rd_disk r) (blob_path (hex_digest p)) = Some (RegularFile p))"

lemma count_event_fields [simp]:
  "rd_disk (count_event e n r) = rd_disk r" "rd_sequence (count_event e n r) = ev_sequence e"
  "rd_assigned (count_event e n r) = rd_assigned r" "rd_failed (count_event e n r) = rd_failed r"
  "cid (count_event e n r) = cid r"
  by (auto simp: count_event_def Let_def upd_counts_def cid_def split: option.splits)

lemma count_event_seen:
  "rd_seen (count_event e n r) =
     (case ev_blob e of None \<Rightarrow> rd_seen r | Some ref \<Rightarrow> insert (br_sha256 ref) (rd_seen r))"
  by (auto simp: count_event_def Let_def upd_counts_def split: option.splits)

lemma count_event_counts:
  "cc_events (mf_counts (rd_manifest (count_event e n r))) = cc_events (mf_counts (rd_manifest r)) + 1"
  "cc_blobs (mf_counts (rd_manifest (count_event e n r))) = cc_blobs (mf_counts (rd_manifest r)) +
     (case ev_blob e of None \<Rightarrow> 0 | Some ref \<Rightarrow> if br_sha256 ref \<in> rd_seen r then 0 else 1)"
  "cc_blob_bytes (mf_counts (rd_manifest (count_event e n r))) = cc_blob_bytes (mf_counts (rd_manifest r)) +
     (case ev_blob e of None \<Rightarrow> 0 | Some ref \<Rightarrow> if br_sha256 ref \<in> rd_seen r then 0 else n)"
  by (auto simp: count_event_def Let_def upd_counts_def split: option.splits)

lemma committed_count:
  assumes P: "finite P" "inj_on hex_digest P" and c: "committed P r"
    and h: "header_ok (cid r) (of_nat (Suc (length (stored (rd_disk r))))) e"
    and b: "blob_ready P r e n"
  shows "committed P (count_event e n (r\<lparr>rd_disk := append_line e (rd_disk r)\<rparr>))"
proof -
  let ?es = "stored (rd_disk r)"
  let ?B = "stream_payloads P ?es"
  let ?B' = "stream_payloads P (?es @ [e])"
  let ?r1 = "r\<lparr>rd_disk := append_line e (rd_disk r)\<rparr>"
  have c': "stream_ok r" "\<not> dk_torn (rd_disk r)" "refs_known P ?es" "blobs_known P (rd_disk r)"
    "blobs_present ?B (rd_disk r)" "rd_seen r = hex_digest ` ?B" "counts_ok ?B ?es (mf_counts (rd_manifest r))"
    using c by (simp_all add: committed_def Let_def)
  have fin: "finite ?B" using P(1) by (rule finite_stream_payloads)
  have main: "refs_known P (?es @ [e]) \<and> blobs_present ?B' (rd_disk r)
      \<and> rd_seen (count_event e n ?r1) = hex_digest ` ?B'
      \<and> counts_ok ?B' (?es @ [e]) (mf_counts (rd_manifest (count_event e n ?r1)))"
  proof (cases "ev_blob e")
    case None
    then show ?thesis using c' stream_payloads_none [OF None, of P ?es]
      by (auto simp: refs_known_def counts_ok_def count_event_seen count_event_counts)
  next
    case (Some ref)
    then obtain p m t where p: "p \<in> P" "ev_blob e = Some (payload_ref p m t)" "n = of_nat (length p)"
      "dk_blobs (rd_disk r) (blob_path (hex_digest p)) = Some (RegularFile p)"
      using b by (auto simp: blob_ready_def)
    have B': "?B' = insert p ?B" using stream_payloads_some p P(2) by blast
    have seen: "hex_digest p \<in> rd_seen r \<longleftrightarrow> p \<in> ?B"
      using seen_iff [OF P(2) p(1) stream_payloads_sub] c'(6) by simp
    have "counts_ok ?B' (?es @ [e]) (mf_counts (rd_manifest (count_event e n ?r1)))"
      using c'(7) p(2,3) seen fin B'
      by (cases "p \<in> ?B") (simp_all add: counts_ok_def count_event_counts insert_absorb ac_simps)
    then show ?thesis using c' p B'
      by (auto simp: refs_known_def blobs_present_def count_event_seen)
  qed
  have "numbered (cid r) 0 (?es @ [e])" using c'(1) h by (simp add: stream_ok_def)
  moreover have "ev_sequence e = of_nat (length (?es @ [e]))" using h by (simp add: header_ok_def)
  ultimately show ?thesis
    using main c' unfolding committed_def Let_def stream_ok_def blobs_present_def blobs_known_def by simp
qed

lemma append_event_cases:
  assumes a: "append_event ft e n r = (res, r')" and m: "marshal_ok e"
    and sq: "ev_sequence e = rd_sequence r + 1"
  shows "(\<exists>err. res = Inl err \<and> rd_failed r' \<noteq> None \<and> cid r' = cid r \<and>
      (stored (rd_disk r') = stored (rd_disk r) \<and> dk_lines (rd_disk r') = dk_lines (rd_disk r)
       \<or> rd_disk r' = append_line e (rd_disk r)))
    \<or> (res = Inr e \<and> r' = count_event e n (r\<lparr>rd_disk := append_line e (rd_disk r)\<rparr>))"
proof (cases "ft_write ft")
  case None
  then show ?thesis using a m sq
    by (auto simp: append_event_def Let_def split: if_split_asm)
next
  case (Some w)
  then show ?thesis using a m sq
    by (cases w) (auto simp: append_event_def Let_def)
qed

text \<open>Appending the next event to a committed stream fails for good or commits it.\<close>

lemma append_committed:
  assumes P: "finite P" "inj_on hex_digest P" and c: "committed P r" and a: "append_event ft e n r = (res, r')"
    and h: "header_ok (cid r) (of_nat (Suc (length (stored (rd_disk r))))) e"
    and b: "blob_ready P r e n" and m: "marshal_ok e"
  shows "stream_ok r' \<and> cid r' = cid r \<and>
    ((\<exists>err. res = Inl err) \<and> rd_failed r' \<noteq> None
     \<or> res = Inr e \<and> rd_failed r' = rd_failed r \<and> rd_assigned r' = rd_assigned r \<and> committed P r'
       \<and> stored (rd_disk r') = stored (rd_disk r) @ [e])"
proof -
  have sq: "ev_sequence e = rd_sequence r + 1"
    using c h by (simp add: committed_def Let_def header_ok_def)
  have st: "stream_ok r" using c by (simp add: committed_def Let_def)
  have app: "stream_ok r''" if "rd_disk r'' = append_line e (rd_disk r)" "cid r'' = cid r" for r''
    using st h that by (simp add: stream_ok_def)
  note ok = committed_count [OF P c h b]
  from append_event_cases [OF a m sq] show ?thesis
  proof (elim disjE exE conjE)
    fix err assume "res = Inl err" "rd_failed r' \<noteq> None" "cid r' = cid r"
      "stored (rd_disk r') = stored (rd_disk r)" "dk_lines (rd_disk r') = dk_lines (rd_disk r)"
    then show ?thesis using st by (simp add: stream_ok_def)
  next
    fix err assume "res = Inl err" "rd_failed r' \<noteq> None" "cid r' = cid r" "rd_disk r' = append_line e (rd_disk r)"
    then show ?thesis using app by simp
  next
    assume "res = Inr e" and r': "r' = count_event e n (r\<lparr>rd_disk := append_line e (rd_disk r)\<rparr>)"
    then show ?thesis using ok app by simp
  qed
qed

end
