(* ===== verification/Recorder_Correct.thy ===== *)
theory Recorder_Correct
  imports Recorder_Stream
begin

text \<open>
  The invariant of the recorder's runs: accounting and numbering always, and while nothing has
  failed the equation accepted events = stored events followed by the jobs in flight. It is kept
  by every step for any set of payloads that the digest tells apart, and by runs of fewer than
  \<open>2 ^ 64\<close> steps, the range of the sequence counter.
\<close>

section \<open>Invariant\<close>

definition job_ok :: "bytes set \<Rightarrow> record_job \<Rightarrow> bool" where
  "job_ok P j \<longleftrightarrow> marshal_ok (jb_event j) \<and>
     (case jb_raw j of None \<Rightarrow> ev_blob (jb_event j) = None
      | Some p \<Rightarrow> p \<in> P \<and> ev_blob (jb_event j) = Some (payload_ref p (jb_media_type j) (jb_representation j)))"

definition live :: "bytes set \<Rightarrow> event list \<Rightarrow> recorder \<Rightarrow> bool" where
  "live P acc r \<longleftrightarrow>
     (let es = stored (rd_disk r); js = jobs r in
      committed P r \<and> \<not> rd_stopped r \<and> acc = es @ map jb_event js
      \<and> numbered (cid r) (length es) (map jb_event js)
      \<and> rd_assigned r = of_nat (length es + length js) \<and> (\<forall>j \<in> set js. job_ok P j))"

definition rec_inv :: "bytes set \<Rightarrow> event list \<Rightarrow> recorder \<Rightarrow> bool" where
  "rec_inv P acc r \<longleftrightarrow> accounting r \<and> stream_ok r \<and> (rd_failed r = None \<longrightarrow> live P acc r)"

definition same_capture :: "recorder \<Rightarrow> recorder \<Rightarrow> bool" where
  "same_capture r r' \<longleftrightarrow> dk_lines (rd_disk r') = dk_lines (rd_disk r) \<and> cid r' = cid r"

definition same_commit :: "recorder \<Rightarrow> recorder \<Rightarrow> bool" where
  "same_commit r r' \<longleftrightarrow> same_capture r r' \<and> dk_torn (rd_disk r') = dk_torn (rd_disk r)
     \<and> dk_blobs (rd_disk r') = dk_blobs (rd_disk r) \<and> rd_sequence r' = rd_sequence r
     \<and> rd_seen r' = rd_seen r
     \<and> cc_events (mf_counts (rd_manifest r')) = cc_events (mf_counts (rd_manifest r))
     \<and> cc_blobs (mf_counts (rd_manifest r')) = cc_blobs (mf_counts (rd_manifest r))
     \<and> cc_blob_bytes (mf_counts (rd_manifest r')) = cc_blob_bytes (mf_counts (rd_manifest r))"

lemma same_capture_stored: "same_capture r r' \<Longrightarrow> stored (rd_disk r') = stored (rd_disk r)"
  by (simp add: same_capture_def stored_def)

lemma same_capture_stream_ok: "same_capture r r' \<Longrightarrow> stream_ok r' = stream_ok r"
  using same_capture_stored [of r r'] by (simp add: stream_ok_def same_capture_def)

lemma same_commit_committed:
  assumes "same_commit r r'"
  shows "committed P r' = committed P r"
proof -
  have "stored (rd_disk r') = stored (rd_disk r)" "stream_ok r' = stream_ok r"
    using assms same_capture_stored same_capture_stream_ok by (auto simp: same_commit_def)
  then show ?thesis using assms
    by (simp add: committed_def Let_def same_commit_def blobs_known_def blobs_present_def counts_ok_def)
qed

text \<open>A step that leaves the capture and the jobs alone keeps the invariant.\<close>

lemma live_frame:
  assumes "live P acc r" "same_commit r r'" "jobs r' = jobs r" "rd_assigned r' = rd_assigned r"
    "rd_stopped r' = rd_stopped r"
  shows "live P acc r'"
  using assms same_commit_committed [OF assms(2)] same_capture_stored [of r r']
  by (simp add: live_def Let_def same_commit_def same_capture_def)

lemma rec_inv_frame:
  assumes "rec_inv P acc r" "accounting r'" "same_commit r r'" "jobs r' = jobs r"
    "rd_assigned r' = rd_assigned r" "rd_stopped r' = rd_stopped r" "rd_failed r' = rd_failed r"
  shows "rec_inv P acc r'"
  using assms live_frame same_capture_stream_ok [of r r'] by (auto simp: rec_inv_def same_commit_def)

section \<open>Producers\<close>

lemma recorder_status_None: "recorder_status r = None \<longleftrightarrow> \<not> rd_closed r \<and> rd_failed r = None"
  by (auto simp: recorder_status_def)

lemma prepare_event_ok:
  assumes "prepare_event now r e = Inr e1"
  shows "e1 = stamp_event now r e" "marshal_ok e1"
  using assms json_valid_if_any
  by (auto simp: prepare_event_def marshal_ok_def stamp_event_def split: option.splits if_splits)

lemma stamp_header: "header_ok (cid r) (rd_assigned r + 1) (stamp_event now r e)"
  by (simp add: header_ok_def stamp_event_def cid_def)

lemma stamp_blob [simp]: "ev_blob (stamp_event now r e) = ev_blob e"
  by (simp add: stamp_event_def)

lemma make_job_ok:
  assumes "marshal_ok e" "ev_blob e = None" "set_option raw \<subseteq> P"
  shows "job_ok P (make_job e raw media repr)"
  using assms by (auto simp: job_ok_def make_job_def marshal_ok_def split: option.splits)

lemma header_make_job: "header_ok c q (jb_event (make_job e raw media repr)) = header_ok c q e"
  by (simp add: make_job_def header_ok_def split: option.splits)

lemma admit_job_fields [simp]:
  "rd_disk (admit_job j r) = rd_disk r" "rd_manifest (admit_job j r) = rd_manifest r"
  "rd_failed (admit_job j r) = rd_failed r" "rd_sequence (admit_job j r) = rd_sequence r"
  "rd_seen (admit_job j r) = rd_seen r" "rd_stopped (admit_job j r) = rd_stopped r"
  "rd_queue (admit_job j r) = rd_queue r" "rd_sending (admit_job j r) = Some j"
  "rd_assigned (admit_job j r) = ev_sequence (jb_event j)"
  by (simp_all add: admit_job_def Let_def)

lemma inv_enqueue:
  assumes inv: "rec_inv P acc r" and free: "enqueue_mutex_free r"
    and en: "enqueue_begin ctx0 ctx1 now rc r = Returned (Inr (e, r'))" and P: "set_option (rc_raw rc) \<subseteq> P"
  shows "rec_inv P (acc @ [e]) r'"
proof -
  let ?job = "\<lambda>e1. make_job e1 (rc_raw rc) (rc_media_type rc) (rc_representation rc)"
  obtain e1 where eb: "ev_blob (rc_event rc) = None" and st: "recorder_status r = None"
    and pe: "prepare_event now r (clone_event (rc_event rc)) = Inr e1"
    and e: "e = jb_event (?job e1)" and r': "r' = admit_job (?job e1) r"
    using enqueue_beginD [OF en] by metis
  have acct: "accounting r'" using inv accounting_enqueue [OF _ free en] by (simp add: rec_inv_def)
  have nf: "rd_failed r = None" "\<not> rd_closed r" using st by (auto simp: recorder_status_None)
  then have lv: "live P acc r" using inv by (simp add: rec_inv_def)
  have js: "jobs r' = jobs r @ [?job e1]"
    using free nf by (simp add: r' jobs_def enqueue_mutex_free_def)
  have asg: "rd_assigned r = of_nat (length (stored (rd_disk r)) + length (jobs r))"
    using lv by (simp add: live_def Let_def)
  have hd: "header_ok (cid r) (rd_assigned r + 1) e"
    using stamp_header prepare_event_ok(1) [OF pe] by (simp add: e header_make_job)
  have jok: "job_ok P (?job e1)"
    using prepare_event_ok [OF pe] eb P by (intro make_job_ok) (auto simp: clone_event_def)
  have sc: "same_commit r r'" by (simp add: r' same_commit_def same_capture_def cid_def)
  have c: "cid r' = cid r" by (simp add: r' cid_def)
  have "live P (acc @ [e]) r'"
    using lv same_commit_committed [OF sc] js hd jok asg c
    by (simp add: live_def Let_def r' e header_ok_def add.commute add.left_commute)
  then show ?thesis using acct inv same_capture_stream_ok sc
    by (auto simp: rec_inv_def same_commit_def)
qed

lemma inv_send:
  assumes inv: "rec_inv P acc r" and s: "send_job r = Some r'"
  shows "rec_inv P acc r'"
proof -
  obtain job where "rd_sending r = Some job" "r' = r\<lparr>rd_queue := rd_queue r @ [job], rd_sending := None\<rparr>"
    using s by (auto simp: send_job_def split: option.splits if_splits)
  then show ?thesis
    using inv accounting_send [OF _ s]
    by (intro rec_inv_frame [OF inv])
      (auto simp: rec_inv_def same_commit_def same_capture_def cid_def jobs_def)
qed

lemma rollback_fields [simp]:
  "rd_disk (rollback_enqueue q n r) = rd_disk r" "rd_manifest (rollback_enqueue q n r) = rd_manifest r"
  "rd_failed (rollback_enqueue q n r) = rd_failed r" "rd_sequence (rollback_enqueue q n r) = rd_sequence r"
  "rd_seen (rollback_enqueue q n r) = rd_seen r" "rd_stopped (rollback_enqueue q n r) = rd_stopped r"
  "rd_queue (rollback_enqueue q n r) = rd_queue r"
  "rd_assigned (rollback_enqueue q n r) =
     (if rd_assigned r = q \<and> rd_sequence r < q then rd_assigned r - 1 else rd_assigned r)"
  by (simp_all add: rollback_enqueue_def)

lemma inv_rollback:
  assumes inv: "rec_inv P acc r" and s: "rd_sending r = Some j" and n: "length acc < 2 ^ 64"
  shows "rec_inv P (butlast acc) ((rollback_enqueue (ev_sequence (jb_event j)) (jb_bytes j) r)\<lparr>rd_sending := None\<rparr>)"
    (is "rec_inv _ _ ?r'")
proof -
  have acct: "accounting ?r'" using inv s accounting_rollback by (simp add: rec_inv_def)
  have sc: "same_commit r ?r'" by (simp add: same_commit_def same_capture_def cid_def)
  have "live P (butlast acc) ?r'" if "rd_failed r = None"
  proof -
    let ?L = "length (stored (rd_disk r))" and ?q = "rd_queue r"
    have lv: "live P acc r" using inv that by (simp add: rec_inv_def)
    have js: "jobs r = ?q @ [j]" "jobs ?r' = ?q" using s by (simp_all add: jobs_def)
    have len: "length acc = ?L + Suc (length ?q)" using lv js by (simp add: live_def Let_def)
    have sq: "ev_sequence (jb_event j) = of_nat (?L + Suc (length ?q))"
      using lv js by (simp add: live_def Let_def header_ok_def)
    have asg: "rd_assigned r = of_nat (?L + Suc (length ?q))" "rd_sequence r = of_nat ?L"
      using lv js by (simp_all add: live_def Let_def committed_def)
    have "(of_nat ?L :: u64) < of_nat (?L + Suc (length ?q))"
      using n len by (intro of_nat_word_less) auto
    then have "rd_assigned ?r' = of_nat (?L + length ?q)" using asg sq by simp
    moreover have "cid ?r' = cid r" by (simp add: cid_def)
    ultimately show ?thesis
      using lv js same_commit_committed [OF sc] by (simp add: live_def Let_def butlast_append)
  qed
  then show ?thesis using acct inv same_capture_stream_ok sc
    by (auto simp: rec_inv_def same_commit_def)
qed

section \<open>The writer\<close>

lemma same_commit_queue: "same_commit r (r\<lparr>rd_queue := js\<rparr>)"
  by (simp add: same_commit_def same_capture_def cid_def)

lemma same_commit_assigned: "same_commit r (r\<lparr>rd_assigned := q\<rparr>)"
  by (simp add: same_commit_def same_capture_def cid_def)

lemma store_blob_capture:
  assumes "store_blob ft p n media repr r = (res, r')"
  shows "same_capture r r' \<and> rd_failed r' = rd_failed r \<and> rd_assigned r' = rd_assigned r"
  by (subst (1 2 3) store_blob_frame [OF assms]) (simp add: same_capture_def cid_def)

text \<open>Storing the payload of a job, whether it was seen before or not.\<close>

lemma store_bytes_committed:
  assumes P: "inj_on hex_digest P" "p \<in> P" and c: "committed P r"
    and s: "store_blob_bytes ft p media repr r = (res, r')"
  shows "same_capture r r' \<and> rd_failed r' = rd_failed r \<and> rd_assigned r' = rd_assigned r \<and>
    (\<forall>ref. res = Inr ref \<longrightarrow> committed P r' \<and> ref = payload_ref p media repr
       \<and> dk_blobs (rd_disk r') (blob_path (hex_digest p)) = Some (RegularFile p))"
proof (cases "hex_digest p \<in> rd_seen r")
  case True
  then have "p \<in> stream_payloads P (stored (rd_disk r))"
    using c seen_iff [OF P stream_payloads_sub] by (simp add: committed_def Let_def)
  then have "dk_blobs (rd_disk r) (blob_path (hex_digest p)) = Some (RegularFile p)"
    using c by (simp add: committed_def Let_def blobs_present_def)
  then show ?thesis using True s c by (auto simp: store_blob_bytes_def same_capture_def)
next
  case False
  then have s': "store_blob ft p (int (length p)) media repr r = (res, r')"
    using s by (simp add: store_blob_bytes_def)
  show ?thesis
    using store_blob_capture [OF s'] committed_store [OF P c] s' by blast
qed

lemma write_job_committed:
  assumes P: "finite P" "inj_on hex_digest P" and c: "committed P r" and j: "job_ok P j"
    and h: "header_ok (cid r) (of_nat (Suc (length (stored (rd_disk r))))) (jb_event j)"
    and w: "write_job ft j r = (res, r')"
  shows "stream_ok r' \<and> cid r' = cid r \<and>
    ((\<exists>err. res = Inl err)
     \<or> res = Inr (jb_event j) \<and> rd_failed r' = rd_failed r \<and> rd_assigned r' = rd_assigned r
       \<and> committed P r' \<and> stored (rd_disk r') = stored (rd_disk r) @ [jb_event j])"
proof (cases "jb_raw j")
  case None
  then have a: "append_event ft (jb_event j) 0 r = (res, r')" using w by (simp add: write_job_def)
  have "blob_ready P r (jb_event j) 0" using j None by (simp add: blob_ready_def job_ok_def)
  from append_committed [OF P c a h this] j show ?thesis by (auto simp: job_ok_def)
next
  case (Some p)
  have p: "p \<in> P" "ev_blob (jb_event j) = Some (payload_ref p (jb_media_type j) (jb_representation j))"
    "marshal_ok (jb_event j)"
    using j Some by (auto simp: job_ok_def)
  obtain sr r1 where s: "store_blob_bytes (ft_blob ft) p (jb_media_type j) (jb_representation j) r = (sr, r1)"
    by fastforce
  note sb = store_bytes_committed [OF P(2) p(1) c s]
  show ?thesis
  proof (cases sr)
    case (Inl err)
    have "stream_ok r" using c by (simp add: committed_def Let_def)
    then show ?thesis using Inl s w Some sb same_capture_stream_ok [of r r1]
      by (auto simp: write_job_def same_capture_def)
  next
    case (Inr ref)
    then have ref: "ref = payload_ref p (jb_media_type j) (jb_representation j)" and c1: "committed P r1"
      and bl: "dk_blobs (rd_disk r1) (blob_path (hex_digest p)) = Some (RegularFile p)"
      using sb by auto
    have ev: "(jb_event j)\<lparr>ev_blob := Some ref\<rparr> = jb_event j" using ref p(2) by simp
    have a: "append_event ft (jb_event j) (of_int (br_size ref)) r1 = (res, r')"
      using w Some s Inr ref ev by (simp add: write_job_def)
    have st: "stored (rd_disk r1) = stored (rd_disk r)" "cid r1 = cid r"
      using sb same_capture_stored [of r r1] by (auto simp: same_capture_def)
    have "blob_ready P r1 (jb_event j) (of_int (br_size ref))"
      using p ref bl by (auto simp: blob_ready_def)
    from append_committed [OF P c1 a _ this p(3)] h st sb show ?thesis by auto
  qed
qed

lemma writer_take_failed:
  assumes "rd_failed r \<noteq> None"
  shows "same_capture r (writer_take ft j r)" "rd_failed (writer_take ft j r) \<noteq> None"
  using assms by (auto simp: writer_take_def Let_def same_capture_def)

lemma inv_writer_take:
  assumes inv: "rec_inv P acc r" and P: "finite P" "inj_on hex_digest P" and q: "rd_queue r = j # js"
    and d: "\<not> rd_writer_done r" and r': "r' = writer_take ft j (r\<lparr>rd_queue := js\<rparr>)" and acct: "accounting r'"
  shows "rec_inv P acc r'"
proof (cases "rd_failed r")
  case (Some err)
  have "same_capture (r\<lparr>rd_queue := js\<rparr>) r'" "rd_failed r' \<noteq> None"
    using writer_take_failed [of "r\<lparr>rd_queue := js\<rparr>" ft j] Some r' by auto
  then show ?thesis
    using inv acct same_capture_stream_ok [of r r'] by (auto simp: rec_inv_def same_capture_def)
next
  case None
  let ?r0 = "r\<lparr>rd_queue := js\<rparr>"
  let ?es = "stored (rd_disk r)"
  let ?rest = "js @ (case rd_sending r of None \<Rightarrow> [] | Some k \<Rightarrow> [k])"
  have lv: "live P acc r" using inv None by (simp add: rec_inv_def)
  have jr: "jobs r = j # ?rest" using q by (simp add: jobs_def)
  have nc: "\<not> rd_closed r" using inv d by (auto simp: rec_inv_def accounting_def)
  have c0: "committed P ?r0" using lv same_commit_committed [OF same_commit_queue] by (simp add: live_def Let_def)
  have j: "job_ok P j" and h: "header_ok (cid ?r0) (of_nat (Suc (length (stored (rd_disk ?r0))))) (jb_event j)"
    using lv jr by (simp_all add: live_def Let_def)
  obtain res r1 where w: "write_job ft j ?r0 = (res, r1)" by fastforce
  note wc = write_job_committed [OF P c0 j h w]
  have core1: "core r1 = core ?r0" using core_resultD(3) [OF w] .
  show ?thesis
  proof (cases res)
    case (Inl e)
    let ?r2 = "mark_dropped (mark_failed e r1)"
    have "r' = (complete_pending (jb_bytes j) ?r2)\<lparr>rd_stopped := True\<rparr>"
      using r' None nc w Inl by (simp add: writer_take_def Let_def)
    then have "rd_failed r' \<noteq> None" "same_capture r1 r'"
      by (simp_all add: same_capture_def)
    then show ?thesis using acct wc same_capture_stream_ok [of r1 r'] by (auto simp: rec_inv_def)
  next
    case (Inr e)
    then have s: "rd_failed r1 = None" "rd_assigned r1 = rd_assigned r" "committed P r1"
      "stored (rd_disk r1) = ?es @ [jb_event j]" "cid r1 = cid r"
      using wc None by auto
    have r'1: "r' = complete_pending (jb_bytes j) r1"
      using r' None nc w Inr s(1) by (simp add: writer_take_def Let_def)
    have sc: "same_commit r1 r'" by (simp add: r'1 same_commit_def same_capture_def)
    have jr': "jobs r' = ?rest" using core1 by (simp add: r'1 jobs_def core_def)
    have "\<not> rd_stopped r'" using core1 lv by (simp add: r'1 core_def live_def Let_def)
    then have "live P acc r'"
      using lv jr jr' s same_commit_committed [OF sc] by (simp add: live_def Let_def r'1)
    then show ?thesis
      using acct s(3) same_capture_stream_ok [of r1 r'] sc
      by (simp add: rec_inv_def same_commit_def committed_def Let_def)
  qed
qed

lemma inv_writer:
  assumes inv: "rec_inv P acc r" and P: "finite P" "inj_on hex_digest P" and w: "writer_turn ft r = Some r'"
  shows "rec_inv P acc r'"
proof -
  have acct: "accounting r'" using inv accounting_writer [OF _ w] by (simp add: rec_inv_def)
  have d: "\<not> rd_writer_done r" using w by (auto simp: writer_turn_def)
  show ?thesis
  proof (cases "rd_queue r")
    case Nil
    then have "r' = r\<lparr>rd_writer_done := True\<rparr>" using w by (auto simp: writer_turn_def split: if_splits)
    then show ?thesis
      using acct by (intro rec_inv_frame [OF inv]) (auto simp: same_commit_def same_capture_def cid_def jobs_def)
  next
    case (Cons j js)
    show ?thesis
    proof (cases "rd_stopped r")
      case True
      then have f: "rd_failed r \<noteq> None" using inv by (auto simp: rec_inv_def live_def Let_def)
      have r': "r' = drain_take j (r\<lparr>rd_queue := js\<rparr>)"
        using w Cons d True by (simp add: writer_turn_def Let_def)
      have "same_capture r r'" "rd_failed r' = rd_failed r" by (simp_all add: r' drain_take_def same_capture_def)
      then show ?thesis using acct inv f same_capture_stream_ok [of r r'] by (auto simp: rec_inv_def)
    next
      case False
      then have "r' = writer_take ft j (r\<lparr>rd_queue := js\<rparr>)"
        using w Cons d by (simp add: writer_turn_def Let_def)
      then show ?thesis using inv_writer_take [OF inv P Cons d _ acct] by simp
    qed
  qed
qed

section \<open>The other steps\<close>

lemma store_blob_size: "store_blob ft p n media repr r = (Inr ref, r') \<Longrightarrow> br_size ref = int (length p)"
  by (auto simp: store_blob_def Let_def split: if_split_asm option.splits)

lemma record_sync_cases:
  assumes w: "record_sync ft c now e p n media repr r = (res, r')"
  obtains (refused) err where "res = Inl err" "r' = r"
  | (blob) e1 err r1 where "recorder_status r = None" "prepare_event now r e = Inr e1"
      "store_blob (ft_blob ft) p n media repr (r\<lparr>rd_assigned := ev_sequence e1\<rparr>) = (Inl err, r1)"
      "res = Inl err" "r' = mark_failed err r1"
  | (append) e1 ref r1 where "recorder_status r = None" "prepare_event now r e = Inr e1"
      "store_blob (ft_blob ft) p n media repr (r\<lparr>rd_assigned := ev_sequence e1\<rparr>) = (Inr ref, r1)"
      "append_event ft (e1\<lparr>ev_blob := Some ref\<rparr>) (of_int (br_size ref)) r1 = (res, r')"
proof -
  consider (no) "ev_blob e \<noteq> None \<or> \<not> marshal_ok e \<or> recorder_status r \<noteq> None \<or> c"
    | (bad) err where "ev_blob e = None" "marshal_ok e" "recorder_status r = None" "\<not> c" "prepare_event now r e = Inl err"
    | (go) e1 where "ev_blob e = None" "marshal_ok e" "recorder_status r = None" "\<not> c" "prepare_event now r e = Inr e1"
    by (cases "prepare_event now r e") auto
  then show thesis
  proof cases
    case no
    then show ?thesis using w refused by (auto simp: record_sync_def split: if_splits option.splits)
  next
    case bad
    then have "res = Inl err" "r' = r" using w by (simp_all add: record_sync_def)
    then show ?thesis by (rule refused)
  next
    case go
    obtain sr r1 where s: "store_blob (ft_blob ft) p n media repr (r\<lparr>rd_assigned := ev_sequence e1\<rparr>) = (sr, r1)"
      by fastforce
    show ?thesis
    proof (cases sr)
      case (Inl err)
      then have "(Inl err, mark_failed err r1) = (res, r')" using w go s by (simp add: record_sync_def)
      then show ?thesis using blob [OF go(3) go(5) s [unfolded Inl]] by simp
    next
      case (Inr ref)
      have "\<not> br_size ref < 0" using store_blob_size [OF s [unfolded Inr]] by simp
      then have "append_event ft (e1\<lparr>ev_blob := Some ref\<rparr>) (of_int (br_size ref)) r1 = (res, r')"
        using w go s Inr by (simp add: record_sync_def)
      then show ?thesis by (rule append [OF go(3) go(5) s [unfolded Inr]])
    qed
  qed
qed

lemma store_blob_keeps:
  assumes "store_blob ft p n media repr r = (res, r')"
  shows "same_capture r r'" "rd_failed r' = rd_failed r" "rd_assigned r' = rd_assigned r" "rd_stopped r' = rd_stopped r"
proof -
  define ds m where "ds = rd_dirs r'" and "m = dk_blobs (rd_disk r')"
  then have "r' = r\<lparr>rd_dirs := ds, rd_disk := (rd_disk r)\<lparr>dk_blobs := m\<rparr>\<rparr>"
    using store_blob_frame [OF assms] by simp
  then show "same_capture r r'" "rd_failed r' = rd_failed r" "rd_assigned r' = rd_assigned r" "rd_stopped r' = rd_stopped r"
    by (simp_all add: same_capture_def cid_def)
qed

lemma same_capture_assigned: "same_capture r (r\<lparr>rd_assigned := q\<rparr>)"
  by (simp add: same_capture_def)

lemma same_capture_trans: "same_capture r s \<Longrightarrow> same_capture s t \<Longrightarrow> same_capture r t"
  by (simp add: same_capture_def)

lemma same_capture_failed: "same_capture r (mark_failed err r)"
  by (simp add: same_capture_def)

lemma rec_inv_failed:
  assumes "accounting r'" "stream_ok r'" "rd_failed r' \<noteq> None"
  shows "rec_inv P acc r'"
  using assms unfolding rec_inv_def by blast

lemma inv_record_sync:
  assumes inv: "rec_inv P acc r" and P: "finite P" "inj_on hex_digest P" and p: "p \<in> P"
    and pend: "rd_pending r = 0" and w: "record_sync ft c now e p n media repr r = (res, r')"
  shows "rec_inv P (accept_label acc (SyncDone res src)) r'"
proof -
  have acct: "accounting r'"
    using inv accounting_core [OF core_record_sync [OF w]] by (simp add: rec_inv_def)
  have jr: "jobs r = []" using inv pend by (simp add: rec_inv_def accounting_def)
  from w show ?thesis
  proof (cases rule: record_sync_cases)
    case (refused err)
    then show ?thesis using inv by simp
  next
    case (blob e1 err r1)
    have sc: "same_capture r r'"
      using same_capture_trans [OF same_capture_assigned same_capture_trans [OF store_blob_keeps(1) [OF blob(3)] same_capture_failed]]
      by (simp add: blob(5))
    have "stream_ok r'" using same_capture_stream_ok [OF sc] inv by (simp add: rec_inv_def)
    then show ?thesis using rec_inv_failed [OF acct] blob(5) by simp
  next
    case (append e1 ref r1)
    let ?r0 = "r\<lparr>rd_assigned := ev_sequence e1\<rparr>" and ?e = "e1\<lparr>ev_blob := Some ref\<rparr>"
    have nf: "rd_failed r = None" using append(1) by (simp add: recorder_status_None)
    then have lv: "live P acc r" using inv by (simp add: rec_inv_def)
    have c0: "committed P ?r0"
      using lv same_commit_committed [OF same_commit_assigned] by (simp add: live_def Let_def)
    note cs = committed_store [OF P(2) p c0 append(3)]
    note keep = store_blob_keeps [OF append(3)]
    have cap: "same_capture r r1" by (rule same_capture_trans [OF same_capture_assigned keep(1)])
    have st1: "stored (rd_disk r1) = stored (rd_disk r)" "cid r1 = cid r"
      using same_capture_stored [OF cap] cap by (simp_all add: same_capture_def)
    have hd: "header_ok (cid r) (rd_assigned r + 1) e1"
      using stamp_header prepare_event_ok(1) [OF append(2)] by simp
    have asg: "rd_assigned r = of_nat (length (stored (rd_disk r)))" "acc = stored (rd_disk r)"
      using lv jr by (simp_all add: live_def Let_def)
    have h: "header_ok (cid r1) (of_nat (Suc (length (stored (rd_disk r1))))) ?e"
      using hd st1 asg by (simp add: header_ok_def)
    have b: "blob_ready P r1 ?e (of_int (br_size ref))"
      using cs p by (auto simp: blob_ready_def)
    have m: "marshal_ok ?e" using prepare_event_ok(2) [OF append(2)] by (simp add: marshal_ok_def)
    note ac = append_committed [OF P conjunct1 [OF cs] append(4) h b m]
    show ?thesis
    proof (cases res)
      case (Inl err)
      then show ?thesis using rec_inv_failed [OF acct] ac by simp
    next
      case (Inr e2)
      have core1: "core r' = core r" using core_record_sync [OF w] .
      have "jobs r' = []" "\<not> rd_stopped r'"
        using jobs_core [OF core1] jr core1 lv by (simp_all add: core_def live_def Let_def)
      moreover have "rd_assigned r' = of_nat (Suc (length (stored (rd_disk r))))"
        using ac Inr keep(3) hd asg(1) by (simp add: header_ok_def)
      ultimately have "live P (acc @ [e2]) r'"
        using ac Inr st1 asg(2) by (simp add: live_def Let_def)
      then show ?thesis using acct ac Inr by (simp add: rec_inv_def)
    qed
  qed
qed

lemma inv_notes:
  assumes inv: "rec_inv P acc r"
  shows "add_limitation msg r = (Inr (), r') \<Longrightarrow> rec_inv P acc r'"
    "add_loss d t reason r = (Inr (), r') \<Longrightarrow> rec_inv P acc r'"
proof -
  assume n: "add_limitation msg r = (Inr (), r')"
  have "accounting r'" using inv n accounting_core core_add_limitation by (metis rec_inv_def snd_conv)
  then show "rec_inv P acc r'" using n
    by (intro rec_inv_frame [OF inv])
      (auto simp: add_limitation_def Let_def same_commit_def same_capture_def cid_def jobs_def
        add_limitation_text_def set_complete_false_def split: if_splits)
next
  assume n: "add_loss d t reason r = (Inr (), r')"
  have "accounting r'" using inv n accounting_core core_add_loss by (metis rec_inv_def snd_conv)
  then show "rec_inv P acc r'" using n
    by (intro rec_inv_frame [OF inv])
      (auto simp: add_loss_def Let_def same_commit_def same_capture_def cid_def jobs_def upd_counts_def
        add_limitation_text_def set_complete_false_def split: if_splits)
qed

lemma close_manifest_fields [simp]:
  "mf_capture_id (close_manifest txt status cause now r) = mf_capture_id (rd_manifest r)"
  "mf_counts (close_manifest txt status cause now r) = mf_counts (rd_manifest r)"
  "mf_schema (close_manifest txt status cause now r) = mf_schema (rd_manifest r)"
  "mf_events_path (close_manifest txt status cause now r) = mf_events_path (rd_manifest r)"
  "mf_blob_root (close_manifest txt status cause now r) = mf_blob_root (rd_manifest r)"
  by (auto simp: close_manifest_def Let_def set_complete_false_def split: option.splits)

lemma close_finishD:
  assumes "close_finish txt mft status cause now r = Some (ok, r')"
  shows "\<not> rd_closed r \<and> rd_queue_closed r \<and> rd_writer_done r \<and> same_commit r r' \<and> jobs r' = jobs r
    \<and> rd_assigned r' = rd_assigned r \<and> rd_stopped r' = rd_stopped r \<and> rd_failed r' = rd_failed r
    \<and> rd_closed r' \<and> rd_manifest r' = close_manifest txt status cause now r
    \<and> (mft = None \<longrightarrow> ok \<and> dk_manifest (rd_disk r') = Some (rd_manifest r'))"
  using assms
  by (auto simp: close_finish_def write_manifest_def same_commit_def same_capture_def cid_def jobs_def
      split: if_splits option.splits manifest_fault.splits)

lemma inv_close:
  assumes inv: "rec_inv P acc r"
  shows "close_begin r = Some r' \<Longrightarrow> rec_inv P acc r'"
    "close_finish txt mft status cause now r = Some (ok, r') \<Longrightarrow> rec_inv P acc r'"
proof -
  assume n: "close_begin r = Some r'"
  have "accounting r'" using inv n accounting_close_begin by (auto simp: rec_inv_def)
  then show "rec_inv P acc r'" using n
    by (intro rec_inv_frame [OF inv])
      (auto simp: close_begin_def same_commit_def same_capture_def cid_def jobs_def split: if_splits)
next
  assume n: "close_finish txt mft status cause now r = Some (ok, r')"
  have "accounting r'" using accounting_close_finish [OF _ n] inv by (simp add: rec_inv_def)
  then show "rec_inv P acc r'"
    using close_finishD [OF n] by (intro rec_inv_frame [OF inv]) auto
qed

section \<open>Runs\<close>

lemma inv_step:
  assumes "rstep r l r'" "rec_inv P acc r" "finite P" "inj_on hex_digest P" "label_payloads l \<subseteq> P"
    "length acc < 2 ^ 64"
  shows "rec_inv P (accept_label acc l) r'"
  using assms
proof (induction rule: rstep.induct)
  case (rs_enqueue r ctx0 ctx1 now rc e r')
  then show ?case using inv_enqueue by (cases "rc_raw rc") auto
next
  case (rs_cancel r e r')
  then show ?case using inv_rollback by (auto simp: cancel_send_def)
next
  case (rs_abort r e r')
  then show ?case using inv_rollback by (auto simp: abort_send_def split: option.splits if_splits)
next
  case (rs_sync r ft c now e src n media repr res r')
  from record_readerD [OF rs_sync(2)] show ?case
  proof
    assume "r' = r \<and> (\<exists>err. res = Inl err)"
    then show ?thesis using rs_sync(3) by (elim conjE exE) simp
  next
    assume "\<exists>p. src = Some p \<and> recorder_status r = None \<and> rd_pending r = 0 \<and>
      record_sync ft c now e p n media repr r = (res, r')"
    then obtain p where p: "src = Some p" "rd_pending r = 0" "record_sync ft c now e p n media repr r = (res, r')"
      by (elim conjE exE)
    have "p \<in> P" using rs_sync(6) p(1) by (cases res) simp_all
    then show ?thesis by (rule inv_record_sync [OF rs_sync(3,4,5) _ p(2,3)])
  qed
qed (auto intro: inv_send inv_writer inv_notes inv_close)

lemma length_accepted: "length (accepted ls) \<le> length ls"
proof (induction ls rule: rev_induct)
  case (snoc l ls)
  have "length (accept_label acc l) \<le> Suc (length acc)" for acc
    by (cases "(acc, l)" rule: accept_label.cases) auto
  from this [of "accepted ls"] show ?case using snoc by (simp add: accepted_def)
qed (simp add: accepted_def)

lemma new_recorder_state:
  assumes "new_recorder root op env = Inr r"
  shows "\<exists>c m. rd_disk r = \<lparr>dk_lines = [], dk_torn = False, dk_blobs = Map.empty, dk_manifest = Some m\<rparr>
    \<and> rd_manifest r = m \<and> mf_counts m = zero_counts \<and> mf_capture_id m = c \<and> mf_schema m = schema_version
    \<and> mf_events_path m = events_name \<and> mf_blob_root m = blob_root
    \<and> rd_sequence r = 0 \<and> rd_assigned r = 0 \<and> rd_seen r = {} \<and> rd_queue r = [] \<and> rd_sending r = None
    \<and> \<not> rd_stopped r \<and> \<not> rd_closed r"
  using assms by (auto simp: new_recorder_def Let_def new_manifest_def split: if_splits option.splits)

lemma new_recorder_inv:
  assumes n: "new_recorder root op env = Inr r"
  shows "rec_inv P [] r"
proof -
  obtain c m where s: "rd_disk r = \<lparr>dk_lines = [], dk_torn = False, dk_blobs = Map.empty, dk_manifest = Some m\<rparr>"
    "rd_manifest r = m" "mf_counts m = zero_counts" "rd_sequence r = 0" "rd_assigned r = 0" "rd_seen r = {}"
    "rd_queue r = []" "rd_sending r = None" "\<not> rd_stopped r"
    using new_recorder_state [OF n] by (elim exE conjE) simp
  have sd: "stored (rd_disk r) = []" "dk_lines (rd_disk r) = []" by (simp_all add: s(1) stored_def)
  have st: "jobs r = []" "stream_ok r" by (simp_all add: s(7,8) sd jobs_def stream_ok_def)
  have "committed P r"
    by (simp add: committed_def Let_def sd st refs_known_def stream_payloads_def blobs_present_def counts_ok_def)
      (simp add: s blobs_known_def zero_counts_def)
  then have "live P [] r" by (simp add: live_def Let_def sd st s(5,9))
  then show ?thesis using accounting_new [OF n] st by (simp add: rec_inv_def)
qed

theorem run_invariant:
  assumes "rrun r0 ls r" "new_recorder root op env = Inr r0" "run_payloads ls \<subseteq> P" "finite P"
    "inj_on hex_digest P" "length ls < 2 ^ 64"
  shows "rec_inv P (accepted ls) r"
  using assms
proof (induction rule: rrun.induct)
  case (rr_start r)
  then show ?case using new_recorder_inv by (simp add: accepted_def)
next
  case (rr_step r ls r1 l r2)
  then have "rec_inv P (accepted ls) r1" by (auto simp: run_payloads_def)
  moreover have "length (accepted ls) < 2 ^ 64"
    using length_accepted [of ls] rr_step.prems by simp
  ultimately show ?case
    using inv_step [OF rr_step(2)] rr_step.prems by (auto simp: accepted_def run_payloads_def)
qed

lemma finite_run_payloads: "finite (run_payloads ls)"
proof -
  have "finite (label_payloads l)" for l by (cases l rule: label_payloads.cases) auto
  then show ?thesis by (simp add: run_payloads_def)
qed

end
