(* ===== verification/Verify.thy ===== *)
theory Verify
  imports Recorder
begin

text \<open>
  The capture verifier (\<^verbatim>\<open>internal/capture/verify.go\<close>): scan the event stream, check numbering,
  schema, capture and blobs of every event, and compare the totals with the manifest. The issues
  are a datatype with what the Go message prints.
\<close>

section \<open>Results\<close>

datatype ref_problem = RefLength nat | RefNotHex | RefNotLower | RefNegativeSize int
  | RefUnsafePath string | RefNonCanonical string

datatype blob_problem = BlobResolve | BlobOutside | BlobOpen | BlobNotRegular
  | BlobSize int int | BlobDigest string string

datatype issue =
    IssueSchema u64 string
  | IssueCaptureID u64 string
  | IssueSequence u64 u64
  | IssueRef u64 ref_problem
  | IssueConflict u64 int int string
  | IssueOverflow u64
  | IssueBlob u64 blob_problem
  | IssueManifestSchema string
  | IssueEventsPath string
  | IssueBlobRoot string
  | IssueEventCount u64 u64
  | IssueBlobCount u64 u64
  | IssueByteCount u64 u64

record verification =
  vf_manifest :: manifest
  vf_events :: u64
  vf_blobs :: u64
  vf_issues :: "issue list"

record verification_progress =
  vp_phase :: string
  vp_events :: u64
  vp_blobs :: u64
  vp_blob_bytes :: u64
  vp_last_sequence :: u64

datatype verify_error = ErrNoManifest | ErrLineDecode nat | ErrLineNotTerminated nat | ErrVisit nat string

section \<open>Scanning\<close>

text \<open>
  \<^verbatim>\<open>ScanEvents\<close>: visit the events in order; a line that does not decode, an error of the visitor
  or an unterminated last line ends the scan with an error.
\<close>

fun scan_lines :: "('s \<Rightarrow> event \<Rightarrow> string + 's) \<Rightarrow> nat \<Rightarrow> 's \<Rightarrow> line list \<Rightarrow> verify_error + 's" where
  "scan_lines visit n s [] = Inr s"
| "scan_lines visit n s (BadLine # ls) = Inl (ErrLineDecode (Suc n))"
| "scan_lines visit n s (EventLine e # ls) =
     (case visit s e of
        Inl msg \<Rightarrow> Inl (ErrVisit (Suc n) msg)
      | Inr s' \<Rightarrow> scan_lines visit (Suc n) s' ls)"

definition scan_events :: "('s \<Rightarrow> event \<Rightarrow> string + 's) \<Rightarrow> 's \<Rightarrow> disk \<Rightarrow> verify_error + 's" where
  "scan_events visit s d =
     (case scan_lines visit 0 s (dk_lines d) of
        Inl e \<Rightarrow> Inl e
      | Inr s' \<Rightarrow> if dk_torn d then Inl (ErrLineNotTerminated (Suc (length (dk_lines d)))) else Inr s')"

text \<open>
  The interface between the scanner and its visitors: a relation between the events read so far
  and the visitor's state that every visit keeps holds of the whole stream when the scan succeeds.
\<close>

locale stream_audit =
  fixes visit :: "'s \<Rightarrow> event \<Rightarrow> string + 's"
    and audit :: "event list \<Rightarrow> 's \<Rightarrow> bool"
  assumes visit_audit: "audit es s \<Longrightarrow> visit s e = Inr s' \<Longrightarrow> audit (es @ [e]) s'"
begin

lemma scan_lines_audit:
  "audit es s \<Longrightarrow> scan_lines visit n s ls = Inr s' \<Longrightarrow>
     \<exists>fs. ls = map EventLine fs \<and> audit (es @ fs) s'"
proof (induction ls arbitrary: n s es)
  case (Cons l ls)
  then obtain e where l: "l = EventLine e" by (cases l) auto
  then obtain s1 where v: "visit s e = Inr s1" "scan_lines visit (Suc n) s1 ls = Inr s'"
    using Cons.prems by (auto split: sum.splits)
  then obtain fs where "ls = map EventLine fs" "audit ((es @ [e]) @ fs) s'"
    using Cons.IH [OF visit_audit [OF Cons.prems(1) v(1)] v(2)] by blast
  then show ?case using l by (intro exI [of _ "e # fs"]) simp
qed auto

lemma scan_events_audit:
  assumes "audit [] s" "scan_events visit s d = Inr s'"
  obtains es where "dk_lines d = map EventLine es" "\<not> dk_torn d" "audit es s'"
proof -
  have "scan_lines visit 0 s (dk_lines d) = Inr s'" "\<not> dk_torn d"
    using assms(2) by (auto simp: scan_events_def split: sum.splits if_splits)
  then show thesis using scan_lines_audit [OF assms(1)] that by (metis append_Nil)
qed

end

definition read_manifest :: "disk \<Rightarrow> verify_error + manifest" where
  "read_manifest d = (case dk_manifest d of None \<Rightarrow> Inl ErrNoManifest | Some m \<Rightarrow> Inr m)"

section \<open>Blob references\<close>

definition is_hex :: "char \<Rightarrow> bool" where
  "is_hex c = (is_hex_lower c \<or> (65 \<le> ord c \<and> ord c \<le> 70))"

definition validate_blob_ref :: "blob_ref \<Rightarrow> ref_problem + string" where
  "validate_blob_ref ref =
     (if length (br_sha256 ref) \<noteq> 64 then Inl (RefLength (length (br_sha256 ref)))
      else if \<not> list_all is_hex (br_sha256 ref) then Inl RefNotHex
      else if br_sha256 ref \<noteq> to_lower (br_sha256 ref) then Inl RefNotLower
      else if br_size ref < 0 then Inl (RefNegativeSize (br_size ref))
      else
        (let clean = clean_path (br_path ref) in
         if has_prefix clean ''/'' \<or> clean = ''..'' \<or> has_prefix clean ''../''
         then Inl (RefUnsafePath (br_path ref))
         else if clean \<noteq> clean_path (blob_path (br_sha256 ref))
         then Inl (RefNonCanonical (br_path ref))
         else Inr clean))"

text \<open>\<^verbatim>\<open>verifyBlob\<close>: the file at the path, through links, with the size and digest of the reference.\<close>

definition verify_blob :: "disk \<Rightarrow> string \<Rightarrow> blob_ref \<Rightarrow> blob_problem option" where
  "verify_blob d clean ref =
     (case dk_blobs d clean of
        None \<Rightarrow> Some BlobResolve
      | Some LinkOutside \<Rightarrow> Some BlobOutside
      | Some Unreadable \<Rightarrow> Some BlobOpen
      | Some SpecialFile \<Rightarrow> Some BlobNotRegular
      | Some nd \<Rightarrow>
          (let content = (case nd of RegularFile b \<Rightarrow> b | LinkInside b \<Rightarrow> b | _ \<Rightarrow> [])
           in if int (length content) \<noteq> br_size ref
              then Some (BlobSize (int (length content)) (br_size ref))
              else if hex_digest content \<noteq> br_sha256 ref
              then Some (BlobDigest (hex_digest content) (br_sha256 ref))
              else None))"

section \<open>The visitor\<close>

record verify_state =
  vs_events :: u64
  vs_blobs :: u64
  vs_issues :: "issue list"
  vs_seen :: "string \<rightharpoonup> blob_ref"
  vs_previous :: u64
  vs_bytes :: u64
  vs_reports :: "verification_progress list"

definition report_progress :: "string \<Rightarrow> u64 \<Rightarrow> verify_state \<Rightarrow> verify_state" where
  "report_progress phase sq s =
     s\<lparr>vs_reports := vs_reports s @ [\<lparr>vp_phase = phase, vp_events = vs_events s, vp_blobs = vs_blobs s,
         vp_blob_bytes = vs_bytes s, vp_last_sequence = sq\<rparr>]\<rparr>"

definition add_issue :: "issue \<Rightarrow> verify_state \<Rightarrow> verify_state" where
  "add_issue i s = s\<lparr>vs_issues := vs_issues s @ [i]\<rparr>"

definition issue_unless :: "bool \<Rightarrow> issue \<Rightarrow> verify_state \<Rightarrow> verify_state" where
  "issue_unless ok i s = (if ok then s else add_issue i s)"

definition check_header :: "manifest \<Rightarrow> event \<Rightarrow> verify_state \<Rightarrow> verify_state" where
  "check_header m e s =
     (let s1 = s\<lparr>vs_events := vs_events s + 1\<rparr>;
          s2 = issue_unless (ev_schema e = schema_version) (IssueSchema (ev_sequence e) (ev_schema e)) s1;
          s3 = issue_unless (ev_capture_id e = mf_capture_id m) (IssueCaptureID (ev_sequence e) (ev_capture_id e)) s2;
          s4 = issue_unless (ev_sequence e = vs_previous s3 + 1) (IssueSequence (vs_previous s3) (ev_sequence e)) s3;
          s5 = s4\<lparr>vs_previous := ev_sequence e\<rparr>
      in if vs_events s5 mod 10000 = 0 then report_progress ''events'' (ev_sequence e) s5 else s5)"

definition check_blob :: "disk \<Rightarrow> event \<Rightarrow> blob_ref \<Rightarrow> verify_state \<Rightarrow> verify_state" where
  "check_blob d e ref s =
     (case validate_blob_ref ref of
        Inl p \<Rightarrow> add_issue (IssueRef (ev_sequence e) p) s
      | Inr clean \<Rightarrow>
          (case vs_seen s (br_sha256 ref) of
             Some previous \<Rightarrow>
               issue_unless (br_size ref = br_size previous)
                 (IssueConflict (ev_sequence e) (br_size ref) (br_size previous) (br_sha256 ref)) s
           | None \<Rightarrow>
               (let s1 = s\<lparr>vs_seen := (vs_seen s)(br_sha256 ref \<mapsto> ref), vs_blobs := vs_blobs s + 1\<rparr>;
                    next_bytes = vs_bytes s1 + of_int (br_size ref);
                    s2 = (if next_bytes < vs_bytes s1 then add_issue (IssueOverflow (ev_sequence e)) s1
                          else s1\<lparr>vs_bytes := next_bytes\<rparr>)
                in case verify_blob d clean ref of
                     None \<Rightarrow> s2
                   | Some p \<Rightarrow> add_issue (IssueBlob (ev_sequence e) p) s2)))"

definition verify_visit :: "disk \<Rightarrow> manifest \<Rightarrow> verify_state \<Rightarrow> event \<Rightarrow> string + verify_state" where
  "verify_visit d m s e =
     (let s1 = check_header m e s
      in Inr (case ev_blob e of None \<Rightarrow> s1 | Some ref \<Rightarrow> check_blob d e ref s1))"

section \<open>Verification\<close>

definition verify_start :: verify_state where
  "verify_start = \<lparr>vs_events = 0, vs_blobs = 0, vs_issues = [], vs_seen = Map.empty,
     vs_previous = 0, vs_bytes = 0, vs_reports = []\<rparr>"

definition check_manifest :: "manifest \<Rightarrow> verify_state \<Rightarrow> verify_state" where
  "check_manifest m s =
     (let c = mf_counts m;
          s1 = issue_unless (mf_schema m = schema_version) (IssueManifestSchema (mf_schema m)) s;
          s2 = issue_unless (mf_events_path m = events_name) (IssueEventsPath (mf_events_path m)) s1;
          s3 = issue_unless (mf_blob_root m = blob_root) (IssueBlobRoot (mf_blob_root m)) s2;
          s4 = issue_unless (cc_events c = vs_events s3) (IssueEventCount (cc_events c) (vs_events s3)) s3;
          s5 = issue_unless (cc_blobs c = vs_blobs s4) (IssueBlobCount (cc_blobs c) (vs_blobs s4)) s4
      in issue_unless (cc_blob_bytes c = vs_bytes s5) (IssueByteCount (cc_blob_bytes c) (vs_bytes s5)) s5)"

definition verify_with_progress :: "disk \<Rightarrow> verify_error + verification \<times> verification_progress list" where
  "verify_with_progress d =
     (case read_manifest d of
        Inl e \<Rightarrow> Inl e
      | Inr m \<Rightarrow>
          (case scan_events (verify_visit d m) (report_progress ''events'' 0 verify_start) d of
             Inl e \<Rightarrow> Inl e
           | Inr s \<Rightarrow>
               (let s1 = check_manifest m (report_progress ''manifest'' (vs_previous s) s);
                    s2 = report_progress ''complete'' (vs_previous s1) s1
                in Inr (\<lparr>vf_manifest = m, vf_events = vs_events s2, vf_blobs = vs_blobs s2,
                         vf_issues = vs_issues s2\<rparr>, vs_reports s2))))"

definition verify :: "disk \<Rightarrow> verify_error + verification" where
  "verify d = (case verify_with_progress d of Inl e \<Rightarrow> Inl e | Inr (v, _) \<Rightarrow> Inr v)"

end
