(* ===== verification/Recorder_Verifies.thy ===== *)
theory Recorder_Verifies
  imports Recorder_Correct Verify
begin

text \<open>
  The recorder and the verifier together: the verifier finds nothing wrong with a capture that a
  recorder has closed without a failure, and counts the events the producers were told were
  accepted.
\<close>

section \<open>A recorder's references are valid\<close>

lemma to_lower_hex: "list_all is_hex_lower s \<Longrightarrow> to_lower s = s"
  by (rule to_lower_plain) (auto simp: list_all_iff is_hex_lower_def is_digit_def)

lemma validate_payload_ref:
  "validate_blob_ref (payload_ref p m t) = Inr (blob_path (hex_digest p))"
proof -
  let ?d = "hex_digest p" and ?bp = "blob_path (hex_digest p)"
  have d: "digest_text ?d" by simp
  have hex: "list_all is_hex ?d" using hex_digest_hex by (auto simp: list_all_iff is_hex_def)
  note np = blob_path_not [OF d]
  show ?thesis
    using hex clean_blob_path [OF d] np to_lower_hex [OF hex_digest_hex] by (simp add: validate_blob_ref_def Let_def)
qed

section \<open>Visiting a committed stream\<close>

text \<open>What the verifier's visitor knows after the events \<open>es\<close> of a committed capture.\<close>

definition visited :: "bytes set \<Rightarrow> event list \<Rightarrow> verify_state \<Rightarrow> bool" where
  "visited P es s \<longleftrightarrow>
     (let B = stream_payloads P es in
      vs_events s = of_nat (length es) \<and> vs_previous s = of_nat (length es) \<and> vs_issues s = []
      \<and> dom (vs_seen s) = hex_digest ` B
      \<and> (\<forall>h ref. vs_seen s h = Some ref \<longrightarrow> (\<exists>p \<in> B. h = hex_digest p \<and> br_size ref = int (length p)))
      \<and> vs_blobs s = of_nat (card B) \<and> vs_bytes s = of_nat (\<Sum>p \<in> B. length p))"

lemma check_header_fields [simp]:
  "vs_seen (check_header m e s) = vs_seen s" "vs_blobs (check_header m e s) = vs_blobs s"
  "vs_bytes (check_header m e s) = vs_bytes s" "vs_events (check_header m e s) = vs_events s + 1"
  "vs_previous (check_header m e s) = ev_sequence e"
  by (simp_all add: check_header_def Let_def issue_unless_def add_issue_def report_progress_def)

lemma check_header_clean:
  assumes "header_ok (mf_capture_id m) (vs_previous s + 1) e"
  shows "vs_issues (check_header m e s) = vs_issues s"
  using assms by (simp add: check_header_def Let_def issue_unless_def report_progress_def header_ok_def)

lemma verify_blob_regular:
  "dk_blobs d path = Some (RegularFile p) \<Longrightarrow> verify_blob d path (payload_ref p m t) = None"
  by (simp add: verify_blob_def)

lemma sum_le_total:
  assumes "finite P" "B \<subseteq> P"
  shows "(\<Sum>p \<in> B. length p) \<le> (\<Sum>p \<in> P. length (p :: bytes))"
  using assms by (intro sum_mono2) auto

lemma add_no_wrap: "a + b < 2 ^ 64 \<Longrightarrow> \<not> (of_nat a + of_nat b :: u64) < of_nat a"
  by (simp add: not_less word_le_nat_alt unat_of_nat take_bit_nat_eq_self flip: of_nat_add)

lemma visited_step:
  assumes P: "finite P" "inj_on hex_digest P" "(\<Sum>p \<in> P. length p) < 2 ^ 64"
    and v: "visited P es s" and h: "header_ok (mf_capture_id m) (of_nat (length es) + 1) e"
    and ref: "refs_known P (es @ [e])" and pres: "blobs_present (stream_payloads P (es @ [e])) d"
  shows "\<exists>s'. verify_visit d m s e = Inr s' \<and> visited P (es @ [e]) s'"
proof -
  let ?B = "stream_payloads P es"
  let ?s1 = "check_header m e s"
  have i1: "vs_issues ?s1 = []"
    using check_header_clean [of m s e] h v by (simp add: visited_def Let_def)
  have sq: "ev_sequence e = of_nat (length es) + 1" using h by (simp add: header_ok_def)
  show ?thesis
  proof (cases "ev_blob e")
    case None
    then show ?thesis
      using v i1 sq by (simp add: verify_visit_def visited_def Let_def stream_payloads_none)
  next
    case (Some r)
    then obtain p mt t where p: "p \<in> P" "r = payload_ref p mt t"
      using ref by (auto simp: refs_known_def)
    have B': "stream_payloads P (es @ [e]) = insert p ?B"
      using stream_payloads_some [OF _ p(1) P(2)] Some p(2) by simp
    have fin: "finite ?B" using P(1) by (rule finite_stream_payloads)
    have blob: "dk_blobs d (blob_path (hex_digest p)) = Some (RegularFile p)"
      using pres B' by (simp add: blobs_present_def)
    have seen: "vs_seen s (hex_digest p) = None \<longleftrightarrow> p \<notin> ?B"
      using v seen_iff [OF P(2) p(1) stream_payloads_sub, of es] by (auto simp: visited_def Let_def)
    show ?thesis
    proof (cases "p \<in> ?B")
      case True
      then obtain prev where prev: "vs_seen s (hex_digest p) = Some prev" using seen by auto
      then have "\<exists>q \<in> ?B. hex_digest p = hex_digest q \<and> br_size prev = int (length q)"
        using v by (simp add: visited_def Let_def)
      then obtain q where "q \<in> ?B" "hex_digest p = hex_digest q" "br_size prev = int (length q)" by blast
      then have "br_size prev = int (length p)"
        using inj_onD [OF P(2)] p(1) stream_payloads_sub by (metis subsetD)
      then have "verify_visit d m s e = Inr ?s1"
        using Some p(2) prev by (simp add: verify_visit_def check_blob_def validate_payload_ref issue_unless_def)
      then show ?thesis using v i1 sq B' True by (simp add: visited_def Let_def insert_absorb)
    next
      case False
      have le: "(\<Sum>q \<in> ?B. length q) + length p \<le> (\<Sum>q \<in> P. length q)"
        using sum_le_total [OF P(1), of "insert p ?B"] fin False p(1) stream_payloads_sub
        by (simp add: add.commute)
      have "vs_bytes s = of_nat (\<Sum>q \<in> ?B. length q)" using v by (simp add: visited_def Let_def)
      then have ov: "\<not> vs_bytes s + of_nat (length p) < vs_bytes s"
        using add_no_wrap [OF order_le_less_trans [OF le P(3)]] by simp
      let ?s2 = "?s1\<lparr>vs_seen := (vs_seen s)(hex_digest p \<mapsto> r), vs_blobs := vs_blobs s + 1,
        vs_bytes := vs_bytes s + of_nat (length p)\<rparr>"
      have "verify_visit d m s e = Inr ?s2"
        using Some p(2) seen False ov verify_blob_regular [OF blob]
        by (simp add: verify_visit_def check_blob_def validate_payload_ref Let_def)
      moreover have "visited P (es @ [e]) ?s2"
        using v i1 sq B' False fin p(2) by (auto simp: visited_def Let_def add.commute)
      ultimately show ?thesis by blast
    qed
  qed
qed

text \<open>Any prefix of the stream is visited without an issue, by induction from its end.\<close>

lemma refs_known_prefix: "refs_known P (es @ fs) \<Longrightarrow> refs_known P es"
  by (auto simp: refs_known_def)

lemma blobs_present_prefix:
  "blobs_present (stream_payloads P (es @ fs)) d \<Longrightarrow> blobs_present (stream_payloads P es) d"
  by (auto simp: blobs_present_def stream_payloads_def)

lemma scan_lines_append:
  "scan_lines visit n s (map EventLine es @ [EventLine e]) =
     (case scan_lines visit n s (map EventLine es) of
        Inl err \<Rightarrow> Inl err
      | Inr s' \<Rightarrow> (case visit s' e of Inl msg \<Rightarrow> Inl (ErrVisit (Suc (n + length es)) msg) | Inr s2 \<Rightarrow> Inr s2))"
  by (induction es arbitrary: n s) (auto split: sum.splits)

lemma visited_scan:
  assumes P: "finite P" "inj_on hex_digest P" "(\<Sum>p \<in> P. length p) < 2 ^ 64"
    and s0: "visited P [] s0"
  shows "numbered (mf_capture_id m) 0 es \<Longrightarrow> refs_known P es \<Longrightarrow> blobs_present (stream_payloads P es) d \<Longrightarrow>
    \<exists>s. scan_lines (verify_visit d m) 0 s0 (map EventLine es) = Inr s \<and> visited P es s"
proof (induction es rule: rev_induct)
  case Nil
  then show ?case using s0 by simp
next
  case (snoc e es)
  then obtain s where s: "scan_lines (verify_visit d m) 0 s0 (map EventLine es) = Inr s" "visited P es s"
    using refs_known_prefix blobs_present_prefix by fastforce
  have "header_ok (mf_capture_id m) (of_nat (length es) + 1) e" using snoc.prems(1) by (simp add: add.commute)
  then obtain s' where "verify_visit d m s e = Inr s'" "visited P (es @ [e]) s'"
    using visited_step [OF P s(2) _ snoc.prems(2,3)] by blast
  then show ?case using s by (simp add: scan_lines_append)
qed

lemma visited_start: "visited P [] (report_progress ''events'' 0 verify_start)"
  by (simp add: visited_def Let_def report_progress_def verify_start_def stream_payloads_def)

lemma visited_report [simp]: "visited P es (report_progress ph q s) = visited P es s"
  by (simp add: visited_def report_progress_def)

definition layout_ok :: "manifest \<Rightarrow> bool" where
  "layout_ok m \<longleftrightarrow> mf_schema m = schema_version \<and> mf_events_path m = events_name \<and> mf_blob_root m = blob_root"

lemma check_manifest_clean:
  assumes "layout_ok m" "visited P es s" "counts_ok (stream_payloads P es) es (mf_counts m)"
  shows "check_manifest m s = s"
  using assms by (simp add: check_manifest_def Let_def issue_unless_def layout_ok_def visited_def counts_ok_def)

text \<open>A capture on disk that is committed and whose manifest has the right counts verifies.\<close>

lemma committed_verifies:
  assumes P: "finite P" "inj_on hex_digest P" "(\<Sum>p \<in> P. length p) < 2 ^ 64"
    and c: "committed P r" and m: "dk_manifest (rd_disk r) = Some (rd_manifest r)" "layout_ok (rd_manifest r)"
  shows "\<exists>v. verify (rd_disk r) = Inr v \<and> vf_issues v = [] \<and> vf_manifest v = rd_manifest r
    \<and> vf_events v = of_nat (length (stored (rd_disk r)))
    \<and> vf_blobs v = of_nat (card (stream_payloads P (stored (rd_disk r))))"
proof -
  let ?m = "rd_manifest r" and ?d = "rd_disk r" and ?es = "stored (rd_disk r)"
  have ln: "dk_lines ?d = map EventLine ?es" "\<not> dk_torn ?d" "numbered (mf_capture_id ?m) 0 ?es"
    "refs_known P ?es" "blobs_present (stream_payloads P ?es) ?d"
    "counts_ok (stream_payloads P ?es) ?es (mf_counts ?m)"
    using c by (simp_all add: committed_def Let_def stream_ok_def cid_def)
  obtain s where s: "scan_lines (verify_visit ?d ?m) 0 (report_progress ''events'' 0 verify_start)
      (map EventLine ?es) = Inr s" "visited P ?es s"
    using visited_scan [OF P visited_start ln(3,4,5)] by blast
  have sc: "scan_events (verify_visit ?d ?m) (report_progress ''events'' 0 verify_start) ?d = Inr s"
    using s(1) ln(1,2) unfolding scan_events_def by simp
  let ?s1 = "report_progress ''manifest'' (vs_previous s) s"
  have "check_manifest ?m ?s1 = ?s1"
    using s(2) by (intro check_manifest_clean [OF m(2) _ ln(6)]) simp
  then show ?thesis
    using sc m(1) s(2)
    by (simp add: verify_def verify_with_progress_def read_manifest_def Let_def report_progress_def visited_def)
qed

end
