(* ===== verification/Recorder_History.thy ===== *)
theory Recorder_History
  imports Recorder_Correct
begin

text \<open>
  What no step of the recorder takes back, whatever fails: stored lines stay where they are, a
  published blob never changes, a failure stays the recorder's error and keeps the capture marked
  incomplete, and the manifest keeps its layout and capture id.
\<close>

section \<open>The order\<close>

definition complete_flag :: "recorder \<Rightarrow> bool" where
  "complete_flag r = cm_complete (mf_completeness (rd_manifest r))"

definition layout :: "manifest \<Rightarrow> string \<times> string \<times> string \<times> string" where
  "layout m = (mf_schema m, mf_capture_id m, mf_events_path m, mf_blob_root m)"

definition follows :: "recorder \<Rightarrow> recorder \<Rightarrow> bool" where
  "follows r r' \<longleftrightarrow>
     layout (rd_manifest r') = layout (rd_manifest r)
     \<and> (\<forall>e. rd_failed r = Some e \<longrightarrow> rd_failed r' = Some e)
     \<and> (complete_flag r' \<longrightarrow> complete_flag r) \<and> (complete_flag r' \<longrightarrow> rd_failed r = None \<longrightarrow> rd_failed r' = None)
     \<and> (\<exists>ls. dk_lines (rd_disk r') = dk_lines (rd_disk r) @ ls)
     \<and> dk_blobs (rd_disk r) \<subseteq>\<^sub>m dk_blobs (rd_disk r')
     \<and> (rd_closed r \<longrightarrow> rd_closed r')"

lemma follows_refl [simp]: "follows r r"
  by (simp add: follows_def)

lemma follows_trans [trans]:
  assumes "follows r s" "follows s t"
  shows "follows r t"
  using assms unfolding follows_def by (metis append.assoc map_le_trans)

lemma follows_same:
  assumes "rd_manifest r' = rd_manifest r" "rd_failed r' = rd_failed r" "rd_disk r' = rd_disk r" "rd_closed r' = rd_closed r"
  shows "follows r r'"
  using assms by (simp add: follows_def complete_flag_def)

lemma follows_update [simp]:
  "follows r (r\<lparr>rd_assigned := q\<rparr>)" "follows r (r\<lparr>rd_queue := js\<rparr>)" "follows r (r\<lparr>rd_sending := j\<rparr>)"
  "follows r (r\<lparr>rd_stopped := b\<rparr>)" "follows r (r\<lparr>rd_writer_done := b\<rparr>)" "follows r (r\<lparr>rd_queue_closed := b\<rparr>)"
  "follows r (complete_pending n r)"
  by (simp_all add: follows_same complete_pending_def)

section \<open>Operations\<close>

lemma follows_mark_failed: "follows r (mark_failed e r)"
  by (auto simp: follows_def mark_failed_def Let_def layout_def complete_flag_def upd_counts_def set_complete_false_def)

lemma follows_mark_dropped: "follows r (mark_dropped r)"
  by (auto simp: follows_def mark_dropped_def Let_def layout_def complete_flag_def upd_counts_def
      set_complete_false_def add_limitation_text_def)

lemma store_blob_history:
  assumes "store_blob ft p n media repr r = (res, r')"
  shows "follows r r'"
proof -
  have "dk_blobs (rd_disk r) \<subseteq>\<^sub>m dk_blobs (rd_disk r')"
    using assms by (auto simp: store_blob_def Let_def map_le_def split: if_split_asm option.splits)
  moreover define ds m where "ds = rd_dirs r'" and "m = dk_blobs (rd_disk r')"
  then have "r' = r\<lparr>rd_dirs := ds, rd_disk := (rd_disk r)\<lparr>dk_blobs := m\<rparr>\<rparr>"
    using store_blob_frame [OF assms] by simp
  ultimately show ?thesis by (simp add: follows_def complete_flag_def)
qed

lemma store_bytes_history: "store_blob_bytes ft p media repr r = (res, r') \<Longrightarrow> follows r r'"
  by (auto simp: store_blob_bytes_def split: if_splits intro: store_blob_history)

lemma follows_append_line: "follows r (r\<lparr>rd_disk := append_line e (rd_disk r)\<rparr>)"
  by (simp add: follows_def complete_flag_def)

lemma follows_count: "follows r (count_event e n r)"
  by (auto simp: follows_def count_event_def Let_def layout_def complete_flag_def upd_counts_def split: option.splits)

lemma append_event_history:
  assumes "append_event ft e n r = (res, r')"
  shows "follows r r'"
proof -
  let ?r1 = "r\<lparr>rd_disk := append_line e (rd_disk r)\<rparr>"
  have torn: "follows r (r\<lparr>rd_disk := (rd_disk r)\<lparr>dk_torn := True\<rparr>\<rparr>)" by (simp add: follows_def complete_flag_def)
  have "r' = r \<or> (\<exists>x. r' = mark_failed x r) \<or> (\<exists>x. r' = mark_failed x (r\<lparr>rd_disk := (rd_disk r)\<lparr>dk_torn := True\<rparr>\<rparr>))
      \<or> (\<exists>x. r' = mark_failed x ?r1) \<or> r' = count_event e n ?r1"
    using assms by (auto simp: append_event_def Let_def split: if_split_asm option.splits write_fault.splits)
  then show ?thesis
    using follows_mark_failed follows_trans [OF torn follows_mark_failed]
      follows_trans [OF follows_append_line follows_mark_failed] follows_trans [OF follows_append_line follows_count]
    by auto
qed

lemma write_job_history:
  assumes w: "write_job ft j r = (res, r')"
  shows "follows r r'"
proof (cases "jb_raw j")
  case None
  then show ?thesis using w append_event_history by (simp add: write_job_def)
next
  case (Some p)
  obtain sr r1 where s: "store_blob_bytes (ft_blob ft) p (jb_media_type j) (jb_representation j) r = (sr, r1)"
    by fastforce
  have f: "follows r r1" by (rule store_bytes_history [OF s])
  show ?thesis
  proof (cases sr)
    case (Inl e)
    then show ?thesis using w s Some f by (simp add: write_job_def)
  next
    case (Inr ref)
    then show ?thesis
      using w s Some f append_event_history follows_trans [OF f]
      by (auto simp: write_job_def split: if_splits)
  qed
qed

lemma record_sync_history:
  assumes "record_sync ft c now e p n media repr r = (res, r')"
  shows "follows r r'"
  using assms
proof (cases rule: record_sync_cases)
  case (blob e1 err r1)
  have "follows r r1" using follows_trans [OF _ store_blob_history [OF blob(3)]] by simp
  then show ?thesis using follows_trans [OF _ follows_mark_failed] blob(5) by simp
next
  case (append e1 ref r1)
  have "follows r r1" using follows_trans [OF _ store_blob_history [OF append(3)]] by simp
  then show ?thesis by (rule follows_trans [OF _ append_event_history [OF append(4)]])
qed simp

lemma writer_take_history: "follows r (writer_take ft j r)"
proof -
  define r1 where "r1 = (if rd_failed r = None \<and> \<not> rd_closed r
     then (case write_job ft j r of (Inl e, r') \<Rightarrow> mark_failed e r' | (Inr _, r') \<Rightarrow> r')
     else if rd_failed r = None then mark_failed ErrClosed r else r)"
  define r2 where "r2 = complete_pending (jb_bytes j) (if rd_failed r1 \<noteq> None then mark_dropped r1 else r1)"
  obtain res rw where w: "write_job ft j r = (res, rw)" by fastforce
  have "follows r rw" by (rule write_job_history [OF w])
  then have "follows r r1"
    using follows_trans [OF _ follows_mark_failed] follows_mark_failed by (cases res) (auto simp: r1_def w)
  moreover have "follows r1 r2" using follows_trans [OF follows_mark_dropped] by (simp add: r2_def)
  ultimately have f: "follows r r2" by (rule follows_trans)
  have "writer_take ft j r = (if rd_failed r1 \<noteq> None then r2\<lparr>rd_stopped := True\<rparr> else r2)"
    unfolding writer_take_def Let_def r1_def r2_def by (rule refl)
  then show ?thesis using f follows_trans [OF f] by simp
qed

lemma writer_history:
  assumes w: "writer_turn ft r = Some r'"
  shows "follows r r'"
proof (cases "rd_queue r")
  case Nil
  then show ?thesis using writer_turnD(2) [OF w] by simp
next
  case (Cons j js)
  have q: "follows r (r\<lparr>rd_queue := js\<rparr>)" by simp
  have d: "follows r (drain_take j (r\<lparr>rd_queue := js\<rparr>))"
    unfolding drain_take_def using follows_trans [OF follows_trans [OF q follows_mark_dropped]] by simp
  show ?thesis
    using writer_turnD(3) [OF w Cons] d follows_trans [OF q writer_take_history] by simp
qed

lemma rollback_history: "follows r ((rollback_enqueue sq n r)\<lparr>rd_sending := None\<rparr>)"
proof -
  let ?r1 = "if rd_assigned r = sq \<and> rd_sequence r < sq then r\<lparr>rd_assigned := rd_assigned r - 1\<rparr> else r"
  have "follows r ?r1" by simp
  then have "follows r (rollback_enqueue sq n r)" unfolding rollback_enqueue_def by (rule follows_trans) simp
  then show ?thesis by (rule follows_trans) simp
qed

lemma notes_history:
  "add_limitation msg r = (Inr (), r') \<Longrightarrow> follows r r'"
  "add_loss d t reason r = (Inr (), r') \<Longrightarrow> follows r r'"
  by (auto simp: add_limitation_def add_loss_def Let_def follows_def layout_def complete_flag_def
      add_limitation_text_def set_complete_false_def upd_counts_def split: if_splits)

lemma close_manifest_complete:
  "cm_complete (mf_completeness (close_manifest txt status cause now r)) \<Longrightarrow>
     cm_complete (mf_completeness (rd_manifest r)) \<and> rd_failed r = None \<and> cause = None"
  by (auto simp: close_manifest_def Let_def set_complete_false_def split: option.splits if_splits)

lemma close_finish_history:
  assumes "close_finish txt mft status cause now r = Some (ok, r')"
  shows "follows r r'"
proof -
  note d = close_finishD [OF assms]
  have "rd_failed r' = rd_failed r" "rd_closed r'" "same_commit r r'"
    and m: "rd_manifest r' = close_manifest txt status cause now r"
    using d by simp_all
  moreover have "layout (rd_manifest r') = layout (rd_manifest r)" by (simp add: m layout_def)
  moreover have "complete_flag r' \<longrightarrow> complete_flag r"
    using close_manifest_complete unfolding complete_flag_def m by blast
  ultimately show ?thesis by (simp add: follows_def same_commit_def same_capture_def map_le_def)
qed

section \<open>Steps and runs\<close>

lemma step_history: "rstep r l r' \<Longrightarrow> follows r r'"
proof (induction rule: rstep.induct)
  case (rs_enqueue r ctx0 ctx1 now rc e r')
  from rs_enqueue(2) show ?case
    by (rule enqueue_beginD) (simp add: follows_same admit_job_def Let_def)
next
  case (rs_send r r')
  then show ?case by (auto simp: send_job_def follows_same split: option.splits if_splits)
next
  case (rs_cancel r e r')
  then show ?case by (auto simp: cancel_send_def rollback_history)
next
  case (rs_abort r e r')
  then show ?case by (auto simp: abort_send_def rollback_history split: option.splits if_splits)
next
  case (rs_sync r ft c now e src n media repr res r')
  from record_readerD [OF rs_sync(2)] show ?case using record_sync_history by (elim disjE conjE exE) simp_all
next
  case (rs_close r r')
  then show ?case by (auto simp: close_begin_def split: if_splits)
qed (auto intro: writer_history notes_history close_finish_history)

lemma run_history: "rrun r ls r' \<Longrightarrow> follows r r'"
  by (induction rule: rrun.induct) (auto intro: follows_trans step_history)

text \<open>A failed recorder is marked incomplete, in every state a run from a fresh recorder reaches.\<close>

lemma new_not_failed: "new_recorder root op env = Inr r \<Longrightarrow> rd_failed r = None"
  by (auto simp: new_recorder_def Let_def split: if_splits option.splits)

lemma failed_incomplete:
  assumes "new_recorder root op env = Inr r0" "rrun r0 ls r" "rd_failed r \<noteq> None"
  shows "\<not> complete_flag r"
  using run_history [OF assms(2)] new_not_failed [OF assms(1)] assms(3) by (auto simp: follows_def)

end
