(* ===== verification/Recorder_Example.thy ===== *)
theory Recorder_Example
  imports Recorder_History
begin

text \<open>
  A concrete run of the recorder, from creation to the last step before \<^verbatim>\<open>Close\<close> writes the
  manifest, and one in which the disk fails; the theorems on runs are applied to them.
\<close>

definition demo_env :: rec_env where
  "demo_env = \<lparr>en_root_entries = None, en_root_error = False, en_mkdir_fails = False, en_open_fails = False,
     en_now = (0, 0), en_random = None, en_go_version = ''go1.24'', en_goos = ''linux'', en_goarch = ''amd64'',
     en_executable = ''proxy'', en_manifest_fault = None\<rparr>"

definition demo_options :: rec_options where
  "demo_options = \<lparr>op_capture_id = ''c1'', op_generator_name = [], op_version = ''dev'', op_commit = [],
     op_sync_each_event = False, op_queue_capacity = 2, op_queue_bytes = 100, op_raw_layers = [],
     op_values = Map.empty, op_limitations = []\<rparr>"

definition demo_payload :: bytes where "demo_payload = [1, 2, 3]"

definition demo_record :: capture_record where
  "demo_record = \<lparr>rc_event = empty_event\<lparr>ev_kind := ''packet''\<rparr>, rc_raw = Some demo_payload,
     rc_media_type = ''application/octet-stream'', rc_representation = ''wire''\<rparr>"

definition demo_ref :: blob_ref where
  "demo_ref = payload_ref demo_payload ''application/octet-stream'' ''wire''"

definition demo_manifest :: manifest where
  "demo_manifest = new_manifest demo_options demo_env ''c1'' 2 100"

definition demo_start :: recorder where
  "demo_start = \<lparr>rd_disk = \<lparr>dk_lines = [], dk_torn = False, dk_blobs = Map.empty, dk_manifest = Some demo_manifest\<rparr>,
     rd_start = (0, 0), rd_sequence = 0, rd_assigned = 0, rd_seen = {}, rd_dirs = {},
     rd_failed = None, rd_closed = False, rd_manifest = demo_manifest, rd_queue = [],
     rd_capacity = 2, rd_queue_closed = False, rd_writer_done = False,
     rd_stopped = False, rd_sending = None, rd_pending = 0, rd_pending_bytes = 0,
     rd_peak_records = 0, rd_peak_bytes = 0, rd_byte_limit = 100\<rparr>"

definition demo_event :: event where
  "demo_event = (stamp_event (7, 7) demo_start (empty_event\<lparr>ev_kind := ''packet''\<rparr>))\<lparr>ev_blob := Some demo_ref\<rparr>"

definition demo_job :: record_job where
  "demo_job = \<lparr>jb_event = demo_event, jb_raw = Some demo_payload, jb_media_type = ''application/octet-stream'',
     jb_representation = ''wire'', jb_bytes = 3\<rparr>"

definition demo_taken :: recorder where "demo_taken = admit_job demo_job demo_start"

definition demo_sent :: recorder where
  "demo_sent = demo_taken\<lparr>rd_queue := [demo_job], rd_sending := None\<rparr>"

definition demo_written :: recorder where
  "demo_written = complete_pending 3 (count_event demo_event 3 (demo_sent\<lparr>rd_queue := [],
     rd_dirs := {take 2 (hex_digest demo_payload)},
     rd_disk := append_line demo_event ((rd_disk demo_sent)\<lparr>dk_blobs := [br_path demo_ref \<mapsto> RegularFile demo_payload]\<rparr>)\<rparr>))"

definition demo_idle :: recorder where
  "demo_idle = demo_written\<lparr>rd_queue_closed := True, rd_writer_done := True\<rparr>"

definition demo_labels :: "label list" where
  "demo_labels = [Took demo_event (Some demo_payload), Sent, Wrote, ClosedQueue, Wrote]"

lemma demo_new: "new_recorder ''capture'' demo_options demo_env = Inr demo_start"
proof -
  have "trim_space ''capture'' = ''capture''"
    by (rule trim_space_plain) (simp_all add: ord_def is_space_rune_def)
  then show ?thesis
    by (simp add: new_recorder_def demo_options_def demo_env_def demo_start_def demo_manifest_def
        require_empty_or_missing_def Let_def)
qed

lemma demo_start_fields [simp]:
  "rd_closed demo_start = False" "rd_failed demo_start = None" "rd_pending demo_start = 0"
  "rd_pending_bytes demo_start = 0" "rd_capacity demo_start = 2" "rd_byte_limit demo_start = 100"
  "rd_sending demo_start = None" "rd_queue_closed demo_start = False" "rd_queue demo_start = []"
  "rd_writer_done demo_start = False" "rd_stopped demo_start = False" "rd_seen demo_start = {}"
  "rd_dirs demo_start = {}" "rd_sequence demo_start = 0" "rd_assigned demo_start = 0"
  "dk_blobs (rd_disk demo_start) = Map.empty"
  by (simp_all add: demo_start_def)

definition demo_request :: event where "demo_request = empty_event\<lparr>ev_kind := ''packet''\<rparr>"

lemma demo_request_fields [simp]: "ev_blob demo_request = None" "ev_data demo_request = None"
  by (simp_all add: demo_request_def empty_event_def)

lemma demo_prepare:
  "prepare_event (7, 7) demo_start (clone_event demo_request) = Inr (stamp_event (7, 7) demo_start demo_request)"
proof -
  have "clone_event demo_request = demo_request" by (simp add: clone_event_def)
  then show ?thesis by (simp add: prepare_event_def)
qed

lemma demo_make_job:
  "make_job (stamp_event (7, 7) demo_start demo_request) (Some demo_payload) ''application/octet-stream'' ''wire'' = demo_job"
  by (simp add: make_job_def demo_job_def demo_event_def demo_request_def demo_ref_def raw_length_def demo_payload_def)

lemma demo_space: "wait_for_queue_space False 3 demo_start = Returned (Inr ())"
  by (simp add: wait_for_queue_space_def recorder_status_def queue_space_def)

lemma demo_step1: "rstep demo_start (Took demo_event (Some demo_payload)) demo_taken"
proof -
  have l: "raw_length (Some demo_payload) = 3" by (simp add: raw_length_def demo_payload_def)
  have "marshal_ok demo_request" by (simp add: marshal_ok_def)
  moreover have "jb_event demo_job = demo_event" by (simp add: demo_job_def)
  ultimately have "enqueue_begin False False (7, 7) demo_record demo_start = Returned (Inr (demo_event, demo_taken))"
    unfolding enqueue_begin_def demo_record_def Let_def demo_taken_def demo_request_def [symmetric] capture_record.simps
    by (simp add: l demo_space demo_prepare demo_make_job)
  from rs_enqueue [OF _ this] show ?thesis
    by (simp add: demo_record_def enqueue_mutex_free_def)
qed

lemma demo_step2: "rstep demo_taken Sent demo_sent"
  by (rule rs_send)
    (simp add: send_job_def demo_sent_def demo_taken_def admit_job_def Let_def)

lemma demo_sent_fields [simp]:
  "rd_queue demo_sent = [demo_job]" "rd_failed demo_sent = None" "\<not> rd_closed demo_sent"
  "\<not> rd_writer_done demo_sent" "\<not> rd_stopped demo_sent" "rd_seen demo_sent = {}" "rd_dirs demo_sent = {}"
  "dk_blobs (rd_disk demo_sent) = Map.empty" "rd_sequence demo_sent = 0"
  "co_sync_each_event (mf_options (rd_manifest demo_sent)) = False" "rd_sending demo_sent = None"
  "rd_queue_closed demo_sent = False"
  by (simp_all add: demo_sent_def demo_taken_def demo_start_def admit_job_def Let_def demo_manifest_def
      new_manifest_def demo_options_def)

lemma demo_event_fields [simp]:
  "ev_sequence demo_event = 1" "ev_blob demo_event = Some demo_ref" "marshal_ok demo_event"
  "demo_event\<lparr>ev_blob := Some demo_ref\<rparr> = demo_event"
  by (simp_all add: demo_event_def stamp_event_def demo_start_def marshal_ok_def empty_event_def)

lemma demo_ref_size [simp]: "br_size demo_ref = 3"
  by (simp add: demo_ref_def demo_payload_def)

lemma demo_step3: "rstep demo_sent Wrote demo_written"
proof -
  have s: "store_blob_bytes None demo_payload ''application/octet-stream'' ''wire'' (demo_sent\<lparr>rd_queue := []\<rparr>)
    = (Inr demo_ref, demo_sent\<lparr>rd_queue := [], rd_dirs := {take 2 (hex_digest demo_payload)},
        rd_disk := (rd_disk demo_sent)\<lparr>dk_blobs := [br_path demo_ref \<mapsto> RegularFile demo_payload]\<rparr>\<rparr>)"
    by (simp add: store_blob_bytes_def store_blob_def Let_def demo_ref_def)
  have j: "write_job no_faults demo_job (demo_sent\<lparr>rd_queue := []\<rparr>) = (Inr demo_event,
      count_event demo_event 3 (demo_sent\<lparr>rd_queue := [], rd_dirs := {take 2 (hex_digest demo_payload)},
        rd_disk := append_line demo_event ((rd_disk demo_sent)\<lparr>dk_blobs := [br_path demo_ref \<mapsto> RegularFile demo_payload]\<rparr>)\<rparr>))"
    using s by (simp add: write_job_def demo_job_def no_faults_def append_event_def)
  have "jb_bytes demo_job = 3" by (simp add: demo_job_def)
  then have "writer_take no_faults demo_job (demo_sent\<lparr>rd_queue := []\<rparr>) = demo_written"
    unfolding writer_take_def Let_def demo_written_def by (simp add: j)
  then have "writer_turn no_faults demo_sent = Some demo_written"
    by (simp add: writer_turn_def Let_def)
  then show ?thesis by (rule rs_writer)
qed

lemma demo_written_fields [simp]:
  "rd_queue demo_written = []" "rd_failed demo_written = None" "\<not> rd_closed demo_written"
  "\<not> rd_writer_done demo_written" "\<not> rd_queue_closed demo_written" "rd_sending demo_written = None"
  using core_count_event [of demo_event 3 "demo_sent\<lparr>rd_queue := [], rd_dirs := {take 2 (hex_digest demo_payload)},
        rd_disk := append_line demo_event ((rd_disk demo_sent)\<lparr>dk_blobs := [br_path demo_ref \<mapsto> RegularFile demo_payload]\<rparr>)\<rparr>"]
  by (simp_all add: demo_written_def core_def)

lemma demo_run: "rrun demo_start demo_labels demo_idle"
proof -
  let ?r4 = "demo_written\<lparr>rd_queue_closed := True\<rparr>"
  have s4: "rstep demo_written ClosedQueue ?r4" by (rule rs_close) (simp add: close_begin_def)
  have s5: "rstep ?r4 Wrote demo_idle"
    by (rule rs_writer [of no_faults]) (simp add: writer_turn_def demo_idle_def)
  show ?thesis
    using rr_step [OF rr_step [OF rr_step [OF rr_step [OF rr_step [OF rr_start demo_step1] demo_step2] demo_step3] s4] s5]
    by (simp add: demo_labels_def)
qed

lemma demo_idle_fields [simp]:
  "rd_failed demo_idle = None" "\<not> rd_closed demo_idle" "rd_queue_closed demo_idle" "rd_writer_done demo_idle"
  by (simp_all add: demo_idle_def)

lemma demo_labels_facts [simp]:
  "run_payloads demo_labels = {demo_payload}" "length demo_labels = 5" "accepted demo_labels = [demo_event]"
  by (simp_all add: demo_labels_def run_payloads_def accepted_def)

lemma demo_close: "close_finish txt None status cause now demo_idle =
    Some (write_manifest None (demo_idle\<lparr>rd_closed := True, rd_manifest := close_manifest txt status cause now demo_idle\<rparr>))"
  by (simp add: close_finish_def)

section \<open>A run in which the write fails\<close>

definition demo_faults :: faults where
  "demo_faults = \<lparr>ft_blob = Some BfCopy, ft_write = None, ft_sync = False\<rparr>"

definition demo_failed :: recorder where
  "demo_failed = writer_take demo_faults demo_job (demo_sent\<lparr>rd_queue := []\<rparr>)"

lemma demo_failed_run: "rrun demo_start [Took demo_event (Some demo_payload), Sent, Wrote] demo_failed"
proof -
  have "writer_turn demo_faults demo_sent = Some demo_failed"
    by (simp add: writer_turn_def demo_failed_def Let_def)
  from rr_step [OF rr_step [OF rr_step [OF rr_start demo_step1] demo_step2] rs_writer [OF this]]
  show ?thesis by simp
qed

lemma demo_failed_error: "rd_failed demo_failed = Some ErrBlobWrite"
proof -
  have "write_job demo_faults demo_job (demo_sent\<lparr>rd_queue := []\<rparr>) = (Inl ErrBlobWrite, demo_sent\<lparr>rd_queue := []\<rparr>)"
    by (simp add: write_job_def demo_job_def demo_faults_def store_blob_bytes_def store_blob_def)
  then show ?thesis
    by (simp add: demo_failed_def writer_take_def Let_def) (simp add: mark_failed_def Let_def)
qed

end
