(* ===== verification/Verify_Sound.thy ===== *)
theory Verify_Sound
  imports Verify
begin

text \<open>
  What a verification without issues means for the capture on disk, whoever wrote it: the
  numbering of the events, the blobs behind every reference and the manifest's counts.
\<close>

section \<open>Issues only accumulate\<close>

lemma issue_unless_issues:
  "vs_issues (issue_unless ok i s) = (if ok then vs_issues s else vs_issues s @ [i])"
  by (simp add: issue_unless_def add_issue_def)

lemma issue_unless_fields [simp]:
  "vs_events (issue_unless ok i s) = vs_events s" "vs_blobs (issue_unless ok i s) = vs_blobs s"
  "vs_seen (issue_unless ok i s) = vs_seen s" "vs_previous (issue_unless ok i s) = vs_previous s"
  "vs_bytes (issue_unless ok i s) = vs_bytes s"
  by (simp_all add: issue_unless_def add_issue_def)

lemma report_progress_fields [simp]:
  "vs_events (report_progress ph q s) = vs_events s" "vs_blobs (report_progress ph q s) = vs_blobs s"
  "vs_seen (report_progress ph q s) = vs_seen s" "vs_previous (report_progress ph q s) = vs_previous s"
  "vs_bytes (report_progress ph q s) = vs_bytes s" "vs_issues (report_progress ph q s) = vs_issues s"
  by (simp_all add: report_progress_def)

lemma check_header_issues:
  "vs_issues (check_header m e s) = [] \<longleftrightarrow> vs_issues s = [] \<and> ev_schema e = schema_version
     \<and> ev_capture_id e = mf_capture_id m \<and> ev_sequence e = vs_previous s + 1"
  by (simp add: check_header_def Let_def issue_unless_issues)

lemma check_header_state [simp]:
  "vs_seen (check_header m e s) = vs_seen s" "vs_blobs (check_header m e s) = vs_blobs s"
  "vs_bytes (check_header m e s) = vs_bytes s" "vs_events (check_header m e s) = vs_events s + 1"
  "vs_previous (check_header m e s) = ev_sequence e"
  by (simp_all add: check_header_def Let_def)

section \<open>Blobs\<close>

text \<open>A reference is sound when the file at its canonical path has its size and digest.\<close>

definition blob_sound :: "disk \<Rightarrow> blob_ref \<Rightarrow> bool" where
  "blob_sound d ref \<longleftrightarrow>
     (\<exists>content. (dk_blobs d (clean_path (br_path ref)) = Some (RegularFile content)
          \<or> dk_blobs d (clean_path (br_path ref)) = Some (LinkInside content))
        \<and> clean_path (br_path ref) = clean_path (blob_path (br_sha256 ref))
        \<and> br_size ref = int (length content) \<and> br_sha256 ref = hex_digest content)"

lemma validate_blob_refD:
  "validate_blob_ref ref = Inr clean \<Longrightarrow>
     clean = clean_path (br_path ref) \<and> clean = clean_path (blob_path (br_sha256 ref)) \<and> 0 \<le> br_size ref"
  by (simp add: validate_blob_ref_def Let_def split: if_split_asm)

lemma verify_blob_sound:
  assumes "validate_blob_ref ref = Inr clean" "verify_blob d clean ref = None"
  shows "blob_sound d ref"
  using validate_blob_refD [OF assms(1)] assms(2)
  by (auto simp: verify_blob_def blob_sound_def Let_def split: option.splits node.splits if_splits)

lemma blob_sound_same:
  assumes "blob_sound d prev" "validate_blob_ref ref = Inr clean"
    "br_sha256 prev = br_sha256 ref" "br_size ref = br_size prev"
  shows "blob_sound d ref"
  using assms(1,3,4) validate_blob_refD [OF assms(2)] by (auto simp: blob_sound_def)

text \<open>What checking one reference adds to the state when it raises no issue.\<close>

lemma check_blob_clean:
  assumes "vs_issues (check_blob d e ref s) = []"
  shows "vs_issues s = [] \<and> (\<exists>clean. validate_blob_ref ref = Inr clean \<and>
    ((\<exists>prev. vs_seen s (br_sha256 ref) = Some prev \<and> br_size ref = br_size prev \<and> check_blob d e ref s = s)
     \<or> (vs_seen s (br_sha256 ref) = None \<and> verify_blob d clean ref = None
        \<and> \<not> vs_bytes s + of_int (br_size ref) < vs_bytes s
        \<and> check_blob d e ref s = s\<lparr>vs_seen := (vs_seen s)(br_sha256 ref \<mapsto> ref), vs_blobs := vs_blobs s + 1,
             vs_bytes := vs_bytes s + of_int (br_size ref)\<rparr>)))"
proof (cases "validate_blob_ref ref")
  case (Inl p)
  then show ?thesis using assms by (simp add: check_blob_def add_issue_def)
next
  case (Inr clean)
  show ?thesis
  proof (cases "vs_seen s (br_sha256 ref)")
    case (Some prev)
    then show ?thesis using assms Inr by (simp add: check_blob_def issue_unless_def add_issue_def split: if_split_asm)
  next
    case None
    then show ?thesis using assms Inr
      by (cases "verify_blob d clean ref")
        (simp_all add: check_blob_def Let_def add_issue_def split: if_split_asm)
  qed
qed

section \<open>The audit\<close>

fun in_order :: "string \<Rightarrow> nat \<Rightarrow> event list \<Rightarrow> bool" where
  "in_order cid n [] = True"
| "in_order cid n (e # es) = (ev_schema e = schema_version \<and> ev_capture_id e = cid
     \<and> ev_sequence e = of_nat (Suc n) \<and> in_order cid (Suc n) es)"

lemma in_order_append [simp]:
  "in_order cid n (xs @ ys) = (in_order cid n xs \<and> in_order cid (n + length xs) ys)"
  by (induction xs arbitrary: n) auto

definition event_refs :: "event list \<Rightarrow> blob_ref set" where
  "event_refs es = {ref. \<exists>e \<in> set es. ev_blob e = Some ref}"

lemma event_refs_snoc:
  "event_refs (es @ [e]) = (case ev_blob e of None \<Rightarrow> event_refs es | Some ref \<Rightarrow> insert ref (event_refs es))"
  by (auto simp: event_refs_def split: option.splits)

definition audited :: "disk \<Rightarrow> manifest \<Rightarrow> event list \<Rightarrow> verify_state \<Rightarrow> bool" where
  "audited d m es s \<longleftrightarrow> (vs_issues s = [] \<longrightarrow>
     in_order (mf_capture_id m) 0 es \<and> vs_previous s = of_nat (length es) \<and> vs_events s = of_nat (length es)
     \<and> (\<forall>ref \<in> event_refs es. blob_sound d ref)
     \<and> dom (vs_seen s) = br_sha256 ` event_refs es
     \<and> (\<forall>h prev. vs_seen s h = Some prev \<longrightarrow> br_sha256 prev = h \<and> blob_sound d prev)
     \<and> vs_blobs s = of_nat (card (br_sha256 ` event_refs es)))"

lemma finite_event_refs [simp]: "finite (event_refs es)"
proof -
  have "event_refs es = (\<Union>e \<in> set es. set_option (ev_blob e))" by (auto simp: event_refs_def)
  then show ?thesis by simp
qed

lemma audited_visit:
  assumes a: "audited d m es s" and v: "verify_visit d m s e = Inr s'"
  shows "audited d m (es @ [e]) s'"
proof (cases "vs_issues s' = []")
  case False
  then show ?thesis by (simp add: audited_def)
next
  case clean: True
  let ?s1 = "check_header m e s"
  show ?thesis
  proof (cases "ev_blob e")
    case None
    then have s': "s' = ?s1" using v by (simp add: verify_visit_def)
    then show ?thesis
      using a clean None by (simp add: audited_def check_header_issues event_refs_snoc)
  next
    case (Some ref)
    then have s': "s' = check_blob d e ref ?s1" using v by (simp add: verify_visit_def)
    obtain cl where cl: "vs_issues ?s1 = []" "validate_blob_ref ref = Inr cl" and alt:
      "(\<exists>prev. vs_seen s (br_sha256 ref) = Some prev \<and> br_size ref = br_size prev \<and> s' = ?s1)
       \<or> (vs_seen s (br_sha256 ref) = None \<and> verify_blob d cl ref = None
          \<and> s' = ?s1\<lparr>vs_seen := (vs_seen s)(br_sha256 ref \<mapsto> ref), vs_blobs := vs_blobs s + 1,
               vs_bytes := vs_bytes s + of_int (br_size ref)\<rparr>)"
      using check_blob_clean [of d e ref ?s1] clean s' by auto
    have h: "vs_issues s = []" "in_order (mf_capture_id m) 0 (es @ [e])"
      "ev_sequence e = of_nat (length (es @ [e]))"
      using cl(1) a by (simp_all add: check_header_issues audited_def)
    have b: "\<forall>ref \<in> event_refs es. blob_sound d ref" "dom (vs_seen s) = br_sha256 ` event_refs es"
      "\<And>h prev. vs_seen s h = Some prev \<Longrightarrow> br_sha256 prev = h \<and> blob_sound d prev"
      "vs_blobs s = of_nat (card (br_sha256 ` event_refs es))" "vs_events s = of_nat (length es)"
      using a h(1) by (auto simp: audited_def)
    from alt show ?thesis
    proof (elim disjE exE conjE)
      fix prev assume p: "vs_seen s (br_sha256 ref) = Some prev" "br_size ref = br_size prev" "s' = ?s1"
      have "blob_sound d ref" using blob_sound_same [OF _ cl(2) _ p(2)] b(3) [OF p(1)] by simp
      moreover have "br_sha256 ref \<in> br_sha256 ` event_refs es" using b(2) p(1) by blast
      ultimately show ?thesis
        using h b p(3) Some by (simp add: audited_def event_refs_snoc insert_absorb)
    next
      assume n: "vs_seen s (br_sha256 ref) = None" "verify_blob d cl ref = None"
        and s2: "s' = ?s1\<lparr>vs_seen := (vs_seen s)(br_sha256 ref \<mapsto> ref), vs_blobs := vs_blobs s + 1,
               vs_bytes := vs_bytes s + of_int (br_size ref)\<rparr>"
      have r: "blob_sound d ref" by (rule verify_blob_sound [OF cl(2) n(2)])
      have "br_sha256 ref \<notin> br_sha256 ` event_refs es" using b(2) n(1) by blast
      then have "card (br_sha256 ` event_refs (es @ [e])) = Suc (card (br_sha256 ` event_refs es))"
        using Some by (simp add: event_refs_snoc)
      then show ?thesis
        using h b s2 Some r by (simp add: audited_def event_refs_snoc add.commute)
    qed
  qed
qed

interpretation verifier: stream_audit "verify_visit d m" "audited d m" for d m
  by unfold_locales (rule audited_visit)

lemma audited_start: "audited d m [] (report_progress ''events'' 0 verify_start)"
  by (simp add: audited_def verify_start_def event_refs_def)

lemma check_manifest_issues:
  "vs_issues (check_manifest m s) = [] \<longleftrightarrow> vs_issues s = [] \<and> mf_schema m = schema_version
     \<and> mf_events_path m = events_name \<and> mf_blob_root m = blob_root
     \<and> cc_events (mf_counts m) = vs_events s \<and> cc_blobs (mf_counts m) = vs_blobs s
     \<and> cc_blob_bytes (mf_counts m) = vs_bytes s"
  by (simp add: check_manifest_def Let_def issue_unless_issues)

lemma verify_unfold:
  assumes "verify d = Inr v"
  obtains m s where "dk_manifest d = Some m"
    "scan_events (verify_visit d m) (report_progress ''events'' 0 verify_start) d = Inr s"
    "vf_manifest v = m" "vf_issues v = vs_issues (check_manifest m (report_progress ''manifest'' (vs_previous s) s))"
    "vf_events v = vs_events s" "vf_blobs v = vs_blobs s"
  using assms
  by (auto simp: verify_def verify_with_progress_def read_manifest_def Let_def check_manifest_def
      split: option.splits sum.splits)

section \<open>Soundness\<close>

text \<open>The capture that a verification without issues describes.\<close>

definition capture_sound :: "disk \<Rightarrow> manifest \<Rightarrow> event list \<Rightarrow> bool" where
  "capture_sound d m es \<longleftrightarrow>
     dk_manifest d = Some m \<and> dk_lines d = map EventLine es \<and> \<not> dk_torn d
     \<and> mf_schema m = schema_version \<and> mf_events_path m = events_name \<and> mf_blob_root m = blob_root
     \<and> in_order (mf_capture_id m) 0 es \<and> (\<forall>ref \<in> event_refs es. blob_sound d ref)
     \<and> cc_events (mf_counts m) = of_nat (length es)
     \<and> cc_blobs (mf_counts m) = of_nat (card (br_sha256 ` event_refs es))"

lemma verify_clean:
  assumes "verify d = Inr v" "vf_issues v = []"
  shows "\<exists>es. capture_sound d (vf_manifest v) es \<and> vf_events v = of_nat (length es)"
proof -
  obtain m s where m: "dk_manifest d = Some m" "vf_manifest v = m" and
    sc: "scan_events (verify_visit d m) (report_progress ''events'' 0 verify_start) d = Inr s" and
    v: "vf_issues v = vs_issues (check_manifest m (report_progress ''manifest'' (vs_previous s) s))"
      "vf_events v = vs_events s"
    using verify_unfold [OF assms(1)] by metis
  obtain es where es: "dk_lines d = map EventLine es" "\<not> dk_torn d" "audited d m es s"
    using verifier.scan_events_audit [OF audited_start sc] .
  have c: "vs_issues s = []" "mf_schema m = schema_version" "mf_events_path m = events_name"
    "mf_blob_root m = blob_root" "cc_events (mf_counts m) = vs_events s" "cc_blobs (mf_counts m) = vs_blobs s"
    using assms(2) v(1) by (simp_all add: check_manifest_issues)
  then show ?thesis
    using m es v(2) by (intro exI [of _ es]) (simp add: capture_sound_def audited_def)
qed

end
