(* ===== verification/Capture_Theorems.thy ===== *)
theory Capture_Theorems
  imports Recorder_Verifies Recorder_Example Verify_Sound
begin

text \<open>
  The theorems on captures: what a run of the recorder leaves on disk, and what the verifier's
  answer means.
\<close>

section \<open>The end of a run\<close>

definition total_length :: "bytes set \<Rightarrow> nat" where
  "total_length P = (\<Sum>p \<in> P. length p)"

lemma finite_run: "finite (run_payloads ls)"
  by (rule finite_run_payloads)

text \<open>The premises of a theorem on runs, in one place.\<close>

definition run_of :: "rec_options \<Rightarrow> rec_env \<Rightarrow> label list \<Rightarrow> recorder \<Rightarrow> bool" where
  "run_of op env ls r \<longleftrightarrow> (\<exists>root r0. new_recorder root op env = Inr r0 \<and> rrun r0 ls r)
     \<and> inj_on hex_digest (run_payloads ls) \<and> length ls < 2 ^ 64"

lemma run_ofE:
  assumes "run_of op env ls r"
  obtains root r0 where "new_recorder root op env = Inr r0" "rrun r0 ls r" "inj_on hex_digest (run_payloads ls)"
    "rec_inv (run_payloads ls) (accepted ls) r"
  using assms run_invariant [OF _ _ order_refl finite_run] unfolding run_of_def by blast

lemma run_layout:
  assumes "new_recorder root op env = Inr r0" "rrun r0 ls r"
  shows "layout_ok (rd_manifest r)"
proof -
  have "layout_ok (rd_manifest r0)"
    using new_recorder_state [OF assms(1)] by (elim exE conjE) (simp add: layout_ok_def)
  moreover have "layout (rd_manifest r) = layout (rd_manifest r0)"
    using run_history [OF assms(2)] by (simp add: follows_def)
  ultimately show ?thesis by (simp add: layout_def layout_ok_def)
qed

lemma done_no_jobs: "accounting r \<Longrightarrow> rd_writer_done r \<Longrightarrow> jobs r = []"
  using accountingD(11,14,15) [of r] by (simp add: jobs_def)

lemma closed_state:
  assumes r: "rec_inv P acc r" "rd_failed r = None" and lay: "layout_ok (rd_manifest r)"
    and fin: "close_finish txt None status cause now r = Some (ok, r')"
  shows "ok \<and> committed P r' \<and> stored (rd_disk r') = acc \<and> dk_manifest (rd_disk r') = Some (rd_manifest r')
    \<and> layout_ok (rd_manifest r')"
proof -
  note d = close_finishD [OF fin]
  have lv: "live P acc r" and ac: "accounting r" using r by (simp_all add: rec_inv_def)
  have j: "jobs r = []" using done_no_jobs [OF ac] d by simp
  have "committed P r'" using lv same_commit_committed [of r r'] d by (simp add: live_def Let_def)
  moreover have "stored (rd_disk r') = acc"
    using lv j d same_capture_stored [of r r'] by (simp add: live_def Let_def same_commit_def)
  moreover have "layout_ok (rd_manifest r')" using d lay by (simp add: layout_ok_def)
  ultimately show ?thesis using d by simp
qed

lemma inj_on_single: "inj_on f {x}"
  by simp

lemma demo_run_of: "run_of demo_options demo_env demo_labels demo_idle"
  using demo_new demo_run unfolding run_of_def by auto

definition demo_closed :: recorder where
  "demo_closed = snd (write_manifest None (demo_idle\<lparr>rd_closed := True,
     rd_manifest := close_manifest (\<lambda>_. []) [] None (9, 9) demo_idle\<rparr>))"

lemma demo_finish: "close_finish (\<lambda>_. []) None [] None (9, 9) demo_idle = Some (True, demo_closed)"
  by (simp add: demo_close demo_closed_def) (simp add: write_manifest_def)

section \<open>The recorder\<close>

text \<open>
  C1. A capture that a recorder closed without a failure, and whose final manifest reached the
  disk, passes verification without an issue: the verifier reads back the recorder's manifest and
  counts exactly the events whose \<^verbatim>\<open>Record\<close> call returned no error, however the calls, the
  writer and \<^verbatim>\<open>Close\<close> interleaved. The payloads of the run are told apart by their SHA-256
  digests and stay within the 64 bit byte counter.
\<close>

theorem closed_capture_verifies:
  assumes "run_of op env ls r" "rd_failed r = None"
    "close_finish txt None status cause now r = Some (ok, r')" "total_length (run_payloads ls) < 2 ^ 64"
  shows "\<exists>v. verify (rd_disk r') = Inr v \<and> vf_issues v = [] \<and> vf_manifest v = rd_manifest r'
    \<and> vf_events v = of_nat (length (accepted ls))"
proof -
  obtain root r0 where n: "new_recorder root op env = Inr r0" and rn: "rrun r0 ls r"
    and inj: "inj_on hex_digest (run_payloads ls)" and inv: "rec_inv (run_payloads ls) (accepted ls) r"
    using run_ofE [OF assms(1)] .
  note c = closed_state [OF inv assms(2) run_layout [OF n rn] assms(3)]
  then show ?thesis
    using committed_verifies [OF finite_run inj, of r'] assms(4) by (auto simp: total_length_def)
qed

theorem closed_capture_verifies_witness:
  "\<exists>v. verify (rd_disk demo_closed) = Inr v \<and> vf_issues v = [] \<and> vf_manifest v = rd_manifest demo_closed
    \<and> vf_events v = 1"
  using closed_capture_verifies [OF demo_run_of _ demo_finish] by (simp add: total_length_def demo_payload_def)

text \<open>
  C2. No accepted event is lost, reordered or changed: in every state of a run in which nothing
  has failed, the accepted events, in the order of their calls, are the stored lines followed by
  the jobs on their way to the writer; when the recorder has closed the stream is exactly the
  accepted events.
\<close>

theorem accepted_events_in_order:
  assumes "run_of op env ls r" "rd_failed r = None"
  shows "accepted ls = stored (rd_disk r) @ map jb_event (jobs r)
    \<and> (rd_closed r \<longrightarrow> dk_lines (rd_disk r) = map EventLine (accepted ls) \<and> \<not> dk_torn (rd_disk r))"
proof -
  obtain root r0 where inv: "rec_inv (run_payloads ls) (accepted ls) r" using run_ofE [OF assms(1)] .
  then have lv: "live (run_payloads ls) (accepted ls) r" "accounting r" using assms(2) by (simp_all add: rec_inv_def)
  have "rd_closed r \<Longrightarrow> jobs r = []" using done_no_jobs accountingD(13) lv(2) by blast
  then show ?thesis using lv(1) by (simp add: live_def Let_def committed_def stream_ok_def)
qed

theorem accepted_events_in_order_witness:
  "accepted demo_labels = stored (rd_disk demo_idle) @ map jb_event (jobs demo_idle)"
  using accepted_events_in_order [OF demo_run_of] by simp

text \<open>
  C3. Sequence numbers have no gaps and no repetitions, also after a failure: the lines of the
  stream are events numbered 1, 2, 3 and so on, each carrying the schema version and the capture's
  id.
\<close>

theorem stream_numbered:
  assumes "run_of op env ls r" "i < length (stored (rd_disk r))"
  shows "dk_lines (rd_disk r) ! i = EventLine (stored (rd_disk r) ! i)
    \<and> ev_sequence (stored (rd_disk r) ! i) = of_nat (Suc i)
    \<and> ev_schema (stored (rd_disk r) ! i) = schema_version
    \<and> ev_capture_id (stored (rd_disk r) ! i) = mf_capture_id (rd_manifest r)"
proof -
  obtain root r0 where inv: "rec_inv (run_payloads ls) (accepted ls) r" using run_ofE [OF assms(1)] .
  then have s: "stream_ok r" by (simp add: rec_inv_def)
  then have "header_ok (cid r) (of_nat (0 + Suc i)) (stored (rd_disk r) ! i)"
    using assms(2) by (intro numbered_nth) (simp_all add: stream_ok_def)
  moreover have "dk_lines (rd_disk r) ! i = EventLine (stored (rd_disk r) ! i)"
    using s assms(2) unfolding stream_ok_def by (metis nth_map)
  ultimately show ?thesis by (simp add: header_ok_def cid_def)
qed

lemma demo_stored: "stored (rd_disk demo_idle) = [demo_event]"
  by (simp add: demo_idle_def demo_written_def complete_pending_def)
    (simp add: demo_sent_def demo_taken_def demo_start_def stored_def)

theorem stream_numbered_witness: "ev_sequence (stored (rd_disk demo_idle) ! 0) = 1"
  using stream_numbered [OF demo_run_of, of 0] by (simp add: demo_stored)

text \<open>
  C4. Back pressure: in every reachable state, whatever has failed, the jobs between the producers
  and the writer are what the counters say, at most the configured capacity, and hold at most the
  configured bytes unless a single job is larger than the limit; the peak recorded in the manifest
  bounds them.
\<close>

theorem queue_bounded:
  assumes "new_recorder root op env = Inr r0" "rrun r0 ls r"
  shows "rd_pending r = int (length (jobs r)) \<and> rd_pending_bytes r = (\<Sum>j \<leftarrow> jobs r. jb_bytes j)
    \<and> rd_pending r \<le> rd_capacity r \<and> (rd_pending_bytes r \<le> rd_byte_limit r \<or> rd_pending r = 1)
    \<and> rd_pending r \<le> rd_peak_records r \<and> rd_peak_records r \<le> rd_capacity r \<and> rd_pending_bytes r \<le> rd_peak_bytes r"
  using accountingD [OF accounting_run [OF assms(2) accounting_new [OF assms(1)]]]
  unfolding total_bytes_def by (intro conjI)

theorem queue_bounded_witness: "rd_pending demo_idle = int (length (jobs demo_idle))"
  using queue_bounded [OF demo_new demo_run] by simp

text \<open>
  C5. Durable history: a later state of a run keeps every line and every blob that is on disk, and
  the first failure stays the recorder's error for good. A failed recorder is marked incomplete,
  and every further \<^verbatim>\<open>Record\<close> is refused with that failure (or because the recorder is closed).
\<close>

theorem history_kept:
  assumes "new_recorder root op env = Inr r0" "rrun r0 ls1 r1" "rrun r1 ls2 r2" "rd_failed r1 = Some err"
  shows "(\<exists>new. dk_lines (rd_disk r2) = dk_lines (rd_disk r1) @ new)
    \<and> dk_blobs (rd_disk r1) \<subseteq>\<^sub>m dk_blobs (rd_disk r2)
    \<and> rd_failed r2 = Some err \<and> \<not> cm_complete (mf_completeness (rd_manifest r2))
    \<and> recorder_status r2 \<in> {Some ErrClosed, Some (ErrFailed err)}"
proof -
  have f: "follows r1 r2" by (rule run_history [OF assms(3)])
  have "\<not> complete_flag r1" using failed_incomplete [OF assms(1,2)] assms(4) by simp
  then show ?thesis using f assms(4) by (auto simp: follows_def complete_flag_def recorder_status_def)
qed

theorem history_kept_witness: "\<not> cm_complete (mf_completeness (rd_manifest demo_failed))"
  using history_kept [OF demo_new demo_failed_run rr_start demo_failed_error] by simp

text \<open>
  \<^verbatim>\<open>Close\<close> after a failure never reports a complete capture: whatever status and cause
  the caller passes, the manifest that is written is incomplete, has a failure text of the caller
  or of the recorder, and does not carry the status \<^verbatim>\<open>closed\<close>.
\<close>

theorem close_after_failure:
  assumes "close_finish txt None status cause now r = Some (ok, r')" "rd_failed r = Some err"
  shows "\<exists>m. dk_manifest (rd_disk r') = Some m \<and> mf_status m \<noteq> ''closed''
    \<and> \<not> cm_complete (mf_completeness m)
    \<and> mf_failure m = (case cause of None \<Rightarrow> txt err | Some t \<Rightarrow> t) \<and> (cause = None \<longrightarrow> mf_status m = ''failed'')"
proof -
  have m: "dk_manifest (rd_disk r') = Some (close_manifest txt status cause now r)"
    using close_finishD [OF assms(1)] by simp
  have "\<not> cm_complete (mf_completeness (close_manifest txt status cause now r))"
    using close_manifest_complete assms(2) by fastforce
  then show ?thesis
    using m assms(2) by (auto simp: close_manifest_def Let_def close_status_def set_complete_false_def split: option.splits)
qed

definition demo_failed_idle :: recorder where
  "demo_failed_idle = demo_failed\<lparr>rd_closed := False, rd_queue_closed := True, rd_writer_done := True\<rparr>"

theorem close_after_failure_witness:
  "\<exists>ok r' m. close_finish (\<lambda>_. ''disk full'') None ''closed'' None (9, 9) demo_failed_idle = Some (ok, r')
    \<and> dk_manifest (rd_disk r') = Some m \<and> mf_status m = ''failed''"
proof -
  have "rd_failed demo_failed_idle = Some ErrBlobWrite" by (simp add: demo_failed_idle_def demo_failed_error)
  moreover obtain ok r' where
    "close_finish (\<lambda>_. ''disk full'') None ''closed'' None (9, 9) demo_failed_idle = Some (ok, r')"
    by (simp add: close_finish_def demo_failed_idle_def write_manifest_def)
  ultimately show ?thesis using close_after_failure by fast
qed

section \<open>The verifier\<close>

text \<open>
  C7. Soundness of the verifier, whoever wrote the capture: a verification without issues means
  that the manifest and every line were read, that the events are numbered without gaps under the
  manifest's capture id and the schema version, that behind every blob reference, at its canonical
  path, lies content of the stated size whose SHA-256 digest is the reference's, and that the
  manifest's counts of events and of distinct blobs are the true ones.
\<close>

theorem verification_sound:
  assumes "verify d = Inr v" "vf_issues v = []"
  shows "\<exists>es. capture_sound d (vf_manifest v) es \<and> vf_events v = of_nat (length es)"
  by (rule verify_clean [OF assms])

definition empty_disk :: disk where
  "empty_disk = \<lparr>dk_lines = [], dk_torn = False, dk_blobs = Map.empty, dk_manifest = Some demo_manifest\<rparr>"

theorem verification_sound_witness:
  "\<exists>v es. verify empty_disk = Inr v \<and> capture_sound empty_disk (vf_manifest v) es \<and> vf_events v = of_nat (length es)"
proof -
  obtain v where "verify empty_disk = Inr v" "vf_issues v = []"
    by (simp add: empty_disk_def verify_def verify_with_progress_def read_manifest_def scan_events_def Let_def
        verify_start_def report_progress_def check_manifest_def issue_unless_def demo_manifest_def new_manifest_def
        zero_counts_def)
  then show ?thesis using verification_sound by blast
qed

end
