(* ===== verification/Archive.thy ===== *)
theory Archive
  imports Verify_Sound "HOL-Library.List_Lexorder" "HOL-Library.Char_ord" "HOL-Library.Sublist"
begin

text \<open>
  Export of a capture to an archive (\<^verbatim>\<open>internal/capturearchive/export.go\<close>). Reading and
  writing the zip container is \<^verbatim>\<open>archive/zip\<close>; the two directions are the arguments
  \<open>zip_write\<close> and \<open>zip_read\<close>. The bytes of the manifest and of the event stream are the
  argument \<open>raw\<close> (their JSON encoding); the capture does not change between its verification and its export. Paths are those
  of a Unix system; \<open>cwd\<close> is the working directory, when it can be determined.
\<close>

section \<open>Paths\<close>

definition abs_path :: "string option \<Rightarrow> string \<Rightarrow> string option" where
  "abs_path cwd p =
     (if has_prefix p ''/'' then Some (clean_path p)
      else map_option (\<lambda>c. join_path c p) cwd)"

text \<open>The elements of a clean absolute path, and \<^verbatim>\<open>filepath.Rel\<close> between two of them.\<close>

definition path_elems :: "string \<Rightarrow> string list" where
  "path_elems p = (if p = ''/'' then [] else split_on CHR ''/'' (drop 1 p))"

fun strip_common :: "'a list \<Rightarrow> 'a list \<Rightarrow> 'a list \<times> 'a list" where
  "strip_common (x # xs) (y # ys) = (if x = y then strip_common xs ys else (x # xs, y # ys))"
| "strip_common xs ys = (xs, ys)"

definition rel_path :: "string \<Rightarrow> string \<Rightarrow> string" where
  "rel_path base targ =
     (if targ = base then ''.''
      else case strip_common (path_elems base) (path_elems targ) of
        (bs, ts) \<Rightarrow> join_with ''/'' (replicate (length bs) ''..'' @ ts))"

definition path_inside :: "string option \<Rightarrow> string \<Rightarrow> string \<Rightarrow> bool option" where
  "path_inside cwd root candidate =
     (case (abs_path cwd root, abs_path cwd candidate) of
        (Some a, Some b) \<Rightarrow> (let relative = rel_path a b in Some (relative \<noteq> ''..'' \<and> \<not> has_prefix relative ''../''))
      | _ \<Rightarrow> None)"

section \<open>Entries\<close>

datatype export_error =
    XVerify verify_error | XIssues nat | XStatusOpen | XOutputEmpty | XAbsolute | XInside
  | XScan verify_error | XMkdir | XCreate | XEntryPath string | XRootResolve | XEntryResolve string | XEntryOutside string
  | XEntryOpen string | XEntryInspect string | XEntryNotRegular string | XEntryHeader string | XEntryWrite string | XCloseStream | XSync | XClose
  | XReopen | XEntryCount nat nat | XMethod string nat | XReadBack

text \<open>The two text files of a capture; \<open>raw\<close> gives their bytes on disk.\<close>

datatype capture_file = ManifestFile manifest | StreamFile "line list" bool

record archive_entry =
  ae_name :: string
  ae_method :: nat
  ae_content :: bytes

record export_result =
  xr_path :: string
  xr_sha256 :: string
  xr_bytes :: int
  xr_entries :: int
  xr_decrypted :: bool

text \<open>
  What the two text files are on disk: the verifier reads through links, the export does not follow a link
  out of the capture and takes regular files only.
\<close>

datatype text_place = TextRegular | TextLinkInside | TextLinkOutside | TextSpecial | TextUnreadable | TextMissing

text \<open>
  Outcomes of the system calls. A failing \<^verbatim>\<open>MkdirAll\<close> has made some of the directories; a
  failing entry fails when it is inspected, announced to the archive or copied; \<open>xf_partial\<close> is what
  a failed export has written by the time it removes its output, and \<open>xf_remove\<close> that this fails.
\<close>

datatype entry_fault = FaultInspect | FaultHeader | FaultCopy

record export_faults =
  xf_place :: "string \<Rightarrow> text_place"
  xf_root :: bool
  xf_mkdir :: "nat option"
  xf_create :: bool
  xf_entry :: "(string \<times> entry_fault) option"
  xf_close_stream :: bool
  xf_sync :: bool
  xf_close :: bool
  xf_read_back :: bool
  xf_partial :: bytes
  xf_remove :: bool

definition no_export_faults :: export_faults where
  "no_export_faults = \<lparr>xf_place = (\<lambda>_. TextRegular), xf_root = False, xf_mkdir = None, xf_create = False, xf_entry = None,
     xf_close_stream = False, xf_sync = False, xf_close = False, xf_read_back = False, xf_partial = [], xf_remove = False\<rparr>"

definition open_text :: "text_place \<Rightarrow> string \<Rightarrow> bytes \<Rightarrow> export_error + bytes" where
  "open_text place relative content =
     (case place of
        TextRegular \<Rightarrow> Inr content
      | TextLinkInside \<Rightarrow> Inr content
      | TextLinkOutside \<Rightarrow> Inl (XEntryOutside relative)
      | TextSpecial \<Rightarrow> Inl (XEntryNotRegular relative)
      | TextUnreadable \<Rightarrow> Inl (XEntryOpen relative)
      | TextMissing \<Rightarrow> Inl (XEntryResolve relative))"

definition open_entry :: "(string \<Rightarrow> text_place) \<Rightarrow> (capture_file \<Rightarrow> bytes) \<Rightarrow> disk \<Rightarrow> string \<Rightarrow> string \<Rightarrow> export_error + bytes" where
  "open_entry place raw d relative clean =
     (if clean = manifest_name
      then (case dk_manifest d of None \<Rightarrow> Inl (XEntryResolve relative) | Some m \<Rightarrow> open_text (place clean) relative (raw (ManifestFile m)))
      else if clean = events_name then open_text (place clean) relative (raw (StreamFile (dk_lines d) (dk_torn d)))
      else case dk_blobs d clean of
          None \<Rightarrow> Inl (XEntryResolve relative)
        | Some LinkOutside \<Rightarrow> Inl (XEntryOutside relative)
        | Some Unreadable \<Rightarrow> Inl (XEntryOpen relative)
        | Some SpecialFile \<Rightarrow> Inl (XEntryNotRegular relative)
        | Some (RegularFile b) \<Rightarrow> Inr b
        | Some (LinkInside b) \<Rightarrow> Inr b)"

definition add_file :: "(capture_file \<Rightarrow> bytes) \<Rightarrow> export_faults \<Rightarrow> disk \<Rightarrow> archive_entry list \<Rightarrow> string \<Rightarrow>
    export_error + archive_entry list" where
  "add_file raw ft d entries relative =
     (let clean = clean_path relative in
      if has_prefix clean ''/'' \<or> clean = ''..'' \<or> has_prefix clean ''../'' then Inl (XEntryPath relative)
      else if xf_root ft then Inl XRootResolve
      else case open_entry (xf_place ft) raw d relative clean of
        Inl e \<Rightarrow> Inl e
      | Inr c \<Rightarrow>
          if xf_entry ft = Some (relative, FaultInspect) then Inl (XEntryInspect relative)
          else if xf_entry ft = Some (relative, FaultHeader) then Inl (XEntryHeader relative)
          else if xf_entry ft = Some (relative, FaultCopy) then Inl (XEntryWrite relative)
          else Inr (entries @ [\<lparr>ae_name = clean, ae_method = 0, ae_content = c\<rparr>]))"

section \<open>Export\<close>

record export_state =
  xs_paths :: "string list"
  xs_seen :: "string set"
  xs_decrypted :: bool

definition export_start :: "manifest \<Rightarrow> export_state" where
  "export_start m = \<lparr>xs_paths = [manifest_name, mf_events_path m], xs_seen = {manifest_name, mf_events_path m},
     xs_decrypted = False\<rparr>"

definition decrypted_kind :: "event \<Rightarrow> bool" where
  "decrypted_kind e = (ev_kind e = ''resource_pack.contents_manifest'' \<or> ev_kind e = ''resource_pack.decrypted_archive'')"

definition export_visit :: "export_state \<Rightarrow> event \<Rightarrow> string + export_state" where
  "export_visit s e =
     (let s1 = (if decrypted_kind e then s\<lparr>xs_decrypted := True\<rparr> else s)
      in Inr (case ev_blob e of
           None \<Rightarrow> s1
         | Some ref \<Rightarrow>
             if br_path ref \<in> xs_seen s1 then s1
             else s1\<lparr>xs_seen := insert (br_path ref) (xs_seen s1), xs_paths := xs_paths s1 @ [br_path ref]\<rparr>))"

definition inspect_archive :: "(bytes \<Rightarrow> archive_entry list option) \<Rightarrow> export_faults \<Rightarrow> string option \<Rightarrow> string \<Rightarrow>
    bytes \<Rightarrow> nat \<Rightarrow> export_error + export_result" where
  "inspect_archive zip_read ft cwd path packed expected =
     (case zip_read packed of
        None \<Rightarrow> Inl XReopen
      | Some es \<Rightarrow>
          if length es \<noteq> expected then Inl (XEntryCount (length es) expected)
          else case find (\<lambda>e. ae_method e \<noteq> 0) es of
            Some e \<Rightarrow> Inl (XMethod (ae_name e) (ae_method e))
          | None \<Rightarrow>
              if xf_read_back ft then Inl XReadBack
              else case abs_path cwd path of
                None \<Rightarrow> Inl XAbsolute
              | Some p \<Rightarrow> Inr \<lparr>xr_path = p, xr_sha256 = hex_digest packed, xr_bytes = int (length packed),
                     xr_entries = int (length es), xr_decrypted = False\<rparr>)"

text \<open>
  The part of \<^verbatim>\<open>Export\<close> after the output file is created; the caller removes the file when
  it fails. \<open>zip_write\<close> gets the comment and the entries.
\<close>

definition fill_archive :: "(capture_file \<Rightarrow> bytes) \<Rightarrow> (string \<Rightarrow> archive_entry list \<Rightarrow> bytes) \<Rightarrow> (bytes \<Rightarrow> archive_entry list option) \<Rightarrow>
    export_faults \<Rightarrow> string option \<Rightarrow> string \<Rightarrow> disk \<Rightarrow> string list \<Rightarrow> export_error + bytes \<times> export_result" where
  "fill_archive raw zip_write zip_read ft cwd output d paths =
     (case foldM (add_file raw ft d) [] paths of
        Inl e \<Rightarrow> Inl e
      | Inr entries \<Rightarrow>
          if xf_close_stream ft then Inl XCloseStream
          else if xf_sync ft then Inl XSync
          else if xf_close ft then Inl XClose
          else (let packed = zip_write schema_version entries in
            case inspect_archive zip_read ft cwd output packed (length paths) of
              Inl e \<Rightarrow> Inl e
            | Inr res \<Rightarrow> Inr (packed, res)))"

definition export_paths :: "export_state \<Rightarrow> string list" where
  "export_paths s = take 2 (xs_paths s) @ sort (drop 2 (xs_paths s))"

text \<open>The checks of \<^verbatim>\<open>Export\<close> and the scan that collects the paths.\<close>

definition export_check :: "string option \<Rightarrow> string \<Rightarrow> string \<Rightarrow> disk \<Rightarrow> export_error + export_state" where
  "export_check cwd root output d =
     (case verify d of
        Inl e \<Rightarrow> Inl (XVerify e)
      | Inr v \<Rightarrow>
          if vf_issues v \<noteq> [] then Inl (XIssues (length (vf_issues v)))
          else if mf_status (vf_manifest v) = ''open'' then Inl XStatusOpen
          else if trim_space output = [] then Inl XOutputEmpty
          else case path_inside cwd root output of
            None \<Rightarrow> Inl XAbsolute
          | Some inside \<Rightarrow>
              if inside then Inl XInside
              else map_err XScan (scan_events export_visit (export_start (vf_manifest v)) d))"

text \<open>
  The files and directories outside the capture. \<^verbatim>\<open>MkdirAll\<close> makes the missing ones of a
  directory and its parents, from the top.
\<close>

record export_fs =
  xd_files :: "string \<rightharpoonup> bytes"
  xd_dirs :: "string set"

definition dir_chain :: "string \<Rightarrow> string list" where
  "dir_chain p = (let parts = split_on CHR ''/'' p
     in filter (\<lambda>q. q \<noteq> []) (map (\<lambda>k. join_with ''/'' (take k parts)) [1..<length parts + 1]))"

definition make_dirs :: "nat option \<Rightarrow> string \<Rightarrow> export_fs \<Rightarrow> export_fs" where
  "make_dirs fault p fs =
     (let chain = dir_chain p
      in fs\<lparr>xd_dirs := xd_dirs fs \<union> set (case fault of None \<Rightarrow> chain | Some k \<Rightarrow> take k chain)\<rparr>)"

definition export_capture :: "(capture_file \<Rightarrow> bytes) \<Rightarrow> (string \<Rightarrow> archive_entry list \<Rightarrow> bytes) \<Rightarrow> (bytes \<Rightarrow> archive_entry list option) \<Rightarrow>
    export_faults \<Rightarrow> string option \<Rightarrow> string \<Rightarrow> string \<Rightarrow> disk \<Rightarrow> export_fs \<Rightarrow>
    (export_error + export_result) \<times> export_fs" where
  "export_capture raw zip_write zip_read ft cwd root output d fs =
     (case export_check cwd root output d of
        Inl e \<Rightarrow> (Inl e, fs)
      | Inr s \<Rightarrow>
          (let fs1 = make_dirs (xf_mkdir ft) (dir_path output) fs in
           if xf_mkdir ft \<noteq> None then (Inl XMkdir, fs1)
           else if xd_files fs1 output \<noteq> None \<or> output \<in> xd_dirs fs1 \<or> xf_create ft then (Inl XCreate, fs1)
           else case fill_archive raw zip_write zip_read ft cwd output d (export_paths s) of
             Inl e \<Rightarrow> (Inl e, fs1\<lparr>xd_files := (xd_files fs1)(output := if xf_remove ft then Some (xf_partial ft) else None)\<rparr>)
           | Inr (packed, res) \<Rightarrow>
               (Inr (res\<lparr>xr_decrypted := xs_decrypted s\<rparr>), fs1\<lparr>xd_files := (xd_files fs1)(output \<mapsto> packed)\<rparr>)))"

lemma make_dirs_files [simp]: "xd_files (make_dirs fault p fs) = xd_files fs"
  by (simp add: make_dirs_def Let_def)

lemma make_dirs_grow: "xd_dirs fs \<subseteq> xd_dirs (make_dirs fault p fs)" "xd_dirs (make_dirs fault p fs) \<subseteq> xd_dirs fs \<union> set (dir_chain p)"
  by (auto simp: make_dirs_def Let_def split: option.splits dest: in_set_takeD)

section \<open>Paths inside\<close>

lemma strip_common_spec:
  "strip_common xs ys = (bs, ts) \<Longrightarrow> \<exists>c. xs = c @ bs \<and> ys = c @ ts \<and> (bs = [] \<or> ts = [] \<or> hd bs \<noteq> hd ts)"
proof (induction xs ys rule: strip_common.induct)
  case (1 x xs y ys)
  show ?case
  proof (cases "x = y")
    case True
    then obtain c where "xs = c @ bs" "ys = c @ ts" "bs = [] \<or> ts = [] \<or> hd bs \<noteq> hd ts" using 1 by auto
    then show ?thesis using True by (intro exI [of _ "x # c"]) simp
  next
    case False
    then show ?thesis using 1 by auto
  qed
qed auto

lemma clean_rooted_elems:
  assumes "has_prefix p ''/''"
  shows "\<exists>es. clean_path p = CHR ''/'' # join_with ''/'' es \<and> list_all proper_elem es
    \<and> (\<forall>e \<in> set es. CHR ''/'' \<notin> set e) \<and> path_elems (clean_path p) = es"
proof -
  let ?es = "clean_elems True [] (split_on CHR ''/'' p)"
  have cp: "clean_path p = CHR ''/'' # join_with ''/'' ?es" using assms by (simp add: clean_path_def Let_def)
  have pr: "list_all proper_elem ?es"
    using clean_elems_shape [of True "[]" "split_on CHR ''/'' p"] by (auto simp: clean_shape_def)
  have ns: "CHR ''/'' \<notin> set e" if "e \<in> set ?es" for e
    using that clean_elems_sub [of True "[]" "split_on CHR ''/'' p"] split_on_parts [of e] by auto
  have "path_elems (clean_path p) = ?es"
  proof (cases "?es = []")
    case True
    then show ?thesis using cp by (simp add: path_elems_def)
  next
    case False
    then obtain e es' where es: "?es = e # es'" by (cases ?es) auto
    then have "e \<noteq> []" using pr by (simp add: proper_elem_def)
    then have "join_with ''/'' ?es \<noteq> []" using es by (cases es') auto
    then show ?thesis using cp split_join [of ?es "CHR ''/''"] False ns by (simp add: path_elems_def)
  qed
  then show ?thesis using cp pr ns by blast
qed

lemma join_dotdot:
  assumes "e \<noteq> ''..''" "CHR ''/'' \<notin> set e"
  shows "join_with ''/'' (e # es) \<noteq> ''..'' \<and> \<not> has_prefix (join_with ''/'' (e # es)) ''../''"
proof (cases es)
  case Nil
  then show ?thesis using assms by (auto simp: has_prefix_iff)
next
  case (Cons x xs)
  have "e @ ''/'' @ r \<noteq> ''../'' @ t" for r t
  proof
    assume "e @ ''/'' @ r = ''../'' @ t"
    then have "e @ CHR ''/'' # r = ''..'' @ CHR ''/'' # t" by simp
    then have "split_on CHR ''/'' (e @ CHR ''/'' # r) = split_on CHR ''/'' (''..'' @ CHR ''/'' # t)" by simp
    then show False using assms by (simp add: split_on_append)
  qed
  moreover have "e @ ''/'' @ r \<noteq> ''..''" for r
  proof
    assume "e @ ''/'' @ r = ''..''"
    then have "CHR ''/'' \<in> set ''..''" by (metis Un_iff list.set_intros(1) set_append append_Cons)
    then show False by simp
  qed
  ultimately show ?thesis using Cons by (auto simp: has_prefix_iff)
qed

lemma rel_path_inside:
  assumes a: "has_prefix p ''/''" and b: "has_prefix q ''/''"
  shows "rel_path (clean_path p) (clean_path q) \<noteq> ''..'' \<and> \<not> has_prefix (rel_path (clean_path p) (clean_path q)) ''../''
    \<longleftrightarrow> prefix (path_elems (clean_path p)) (path_elems (clean_path q))"
proof -
  let ?a = "clean_path p" and ?b = "clean_path q"
  obtain bs ts where st: "strip_common (path_elems ?a) (path_elems ?b) = (bs, ts)" by fastforce
  obtain c where c: "path_elems ?a = c @ bs" "path_elems ?b = c @ ts" "bs = [] \<or> ts = [] \<or> hd bs \<noteq> hd ts"
    using strip_common_spec [OF st] by blast
  obtain eb where eb: "path_elems ?b = eb" "list_all proper_elem eb" "\<forall>e \<in> set eb. CHR ''/'' \<notin> set e"
    using clean_rooted_elems [OF b] by blast
  show ?thesis
  proof (cases "?b = ?a")
    case True
    then show ?thesis by (simp add: rel_path_def has_prefix_def)
  next
    case ne: False
    have r: "rel_path ?a ?b = join_with ''/'' (replicate (length bs) ''..'' @ ts)"
      using ne st by (simp add: rel_path_def)
    show ?thesis
    proof (cases bs)
      case Nil
      have "rel_path ?a ?b \<noteq> ''..'' \<and> \<not> has_prefix (rel_path ?a ?b) ''../''"
      proof (cases ts)
        case Nil
        then show ?thesis using r \<open>bs = []\<close> by (simp add: has_prefix_def)
      next
        case (Cons t ts')
        then have "t \<in> set eb" using c(2) eb(1) by auto
        then have "t \<noteq> ''..''" "CHR ''/'' \<notin> set t" using eb(2,3) by (auto simp: list_all_iff proper_elem_def)
        then show ?thesis using r Cons \<open>bs = []\<close> join_dotdot [of t ts'] by simp
      qed
      then show ?thesis using c Nil by simp
    next
      case (Cons x xs)
      have "rel_path ?a ?b = ''..'' \<or> has_prefix (rel_path ?a ?b) ''../''"
        using r Cons by (cases "replicate (length xs) ''..'' @ ts") (auto simp: has_prefix_def)
      moreover have "\<not> prefix (c @ bs) (c @ ts)"
        using c(3) Cons by (auto simp: prefix_def)
      ultimately show ?thesis using c by auto
    qed
  qed
qed

lemma abs_path_rooted:
  assumes "abs_path cwd p = Some a" "\<And>c. cwd = Some c \<Longrightarrow> has_prefix c ''/''"
  shows "\<exists>q. has_prefix q ''/'' \<and> a = clean_path q"
proof (cases "has_prefix p ''/''")
  case True
  then show ?thesis using assms by (auto simp: abs_path_def)
next
  case False
  then obtain c where c: "cwd = Some c" "a = join_path c p" using assms(1) by (auto simp: abs_path_def)
  then obtain t where t: "c = ''/'' @ t" using assms(2) has_prefix_iff by blast
  show ?thesis
  proof (cases "p = []")
    case True
    then show ?thesis using c t by (intro exI [of _ c]) (simp add: join_path_def has_prefix_def)
  next
    case False
    then show ?thesis using c t by (intro exI [of _ "c @ ''/'' @ p"]) (simp add: join_path_def has_prefix_def)
  qed
qed

end
