(* ===== verification/Archive_Theorems.thy ===== *)
theory Archive_Theorems
  imports Archive Capture_Theorems
begin

text \<open>
  What an export contains: the manifest, the event stream and every referenced blob, once, with
  the content the capture has; and what a failed export can leave behind.
\<close>

section \<open>The paths\<close>

definition collected :: "manifest \<Rightarrow> event list \<Rightarrow> export_state \<Rightarrow> bool" where
  "collected m es s \<longleftrightarrow>
     (\<exists>ps. xs_paths s = [manifest_name, mf_events_path m] @ ps \<and> distinct ps
        \<and> set ps = br_path ` event_refs es - {manifest_name, mf_events_path m})
     \<and> xs_seen s = set (xs_paths s) \<and> xs_decrypted s = (\<exists>e \<in> set es. decrypted_kind e)"

lemma collected_start: "collected m [] (export_start m)"
  by (auto simp: collected_def export_start_def event_refs_def)

lemma export_visit_result:
  "export_visit s e = Inr s' \<Longrightarrow>
     xs_decrypted s' = (xs_decrypted s \<or> decrypted_kind e) \<and>
     (case ev_blob e of
        None \<Rightarrow> xs_paths s' = xs_paths s \<and> xs_seen s' = xs_seen s
      | Some ref \<Rightarrow>
          if br_path ref \<in> xs_seen s then xs_paths s' = xs_paths s \<and> xs_seen s' = xs_seen s
          else xs_paths s' = xs_paths s @ [br_path ref] \<and> xs_seen s' = insert (br_path ref) (xs_seen s))"
  by (cases "decrypted_kind e"; cases "ev_blob e") (auto simp: export_visit_def)

lemma collected_visit:
  assumes c: "collected m es s" and v: "export_visit s e = Inr s'"
  shows "collected m (es @ [e]) s'"
proof -
  let ?two = "{manifest_name, mf_events_path m}"
  obtain ps where ps: "xs_paths s = [manifest_name, mf_events_path m] @ ps" "distinct ps"
    "set ps = br_path ` event_refs es - ?two" and seen: "xs_seen s = set (xs_paths s)"
    and dec: "xs_decrypted s = (\<exists>e \<in> set es. decrypted_kind e)"
    using c unfolding collected_def by blast
  note r = export_visit_result [OF v]
  have d: "xs_decrypted s' = (\<exists>x \<in> set (es @ [e]). decrypted_kind x)" using r dec by simp blast
  show ?thesis
  proof (cases "\<exists>ref. ev_blob e = Some ref \<and> br_path ref \<notin> xs_seen s")
    case True
    then obtain ref where ref: "ev_blob e = Some ref" "br_path ref \<notin> xs_seen s" by blast
    then have x: "xs_paths s' = [manifest_name, mf_events_path m] @ ps @ [br_path ref]" "xs_seen s' = set (xs_paths s')"
      using r ps(1) seen by auto
    have n: "br_path ref \<notin> set ps" "br_path ref \<notin> ?two" using ref(2) ps(1) seen by simp_all
    have "set (ps @ [br_path ref]) = br_path ` event_refs (es @ [e]) - ?two"
      using ref(1) n(2) ps(3) by (simp add: event_refs_snoc insert_Diff_if)
    moreover have "distinct (ps @ [br_path ref])" using ps(2) n by simp
    ultimately show ?thesis
      unfolding collected_def using d x by (intro conjI exI [of _ "ps @ [br_path ref]"]) simp_all
  next
    case False
    have x: "xs_paths s' = xs_paths s" "xs_seen s' = xs_seen s"
      using False r by (auto split: option.splits if_splits)
    have "set ps = br_path ` event_refs (es @ [e]) - ?two"
    proof (cases "ev_blob e")
      case (Some ref)
      then have "br_path ref \<in> xs_seen s" using False by simp
      then consider "br_path ref \<in> ?two" | "br_path ref \<in> set ps" using ps(1) seen by auto
      then show ?thesis
      proof cases
        case 1
        then show ?thesis using ps(3) Some by (simp add: event_refs_snoc insert_Diff_if)
      next
        case 2
        then have "br_path ref \<in> br_path ` event_refs es" using ps(3) by simp
        then show ?thesis using ps(3) Some by (simp add: event_refs_snoc insert_absorb)
      qed
    qed (simp add: ps(3) event_refs_snoc)
    then show ?thesis
      unfolding collected_def x using d ps(1,2) seen by (intro conjI exI [of _ ps]) simp_all
  qed
qed

interpretation exporter: stream_audit export_visit "collected m" for m
  by unfold_locales (rule collected_visit)

lemma sorted_paths:
  assumes "collected m es s"
  shows "export_paths s = [manifest_name, mf_events_path m]
     @ sorted_list_of_set (br_path ` event_refs es - {manifest_name, mf_events_path m})"
proof -
  obtain ps where ps: "xs_paths s = [manifest_name, mf_events_path m] @ ps" "distinct ps"
    "set ps = br_path ` event_refs es - {manifest_name, mf_events_path m}"
    using assms by (auto simp: collected_def)
  have "sort ps = sorted_list_of_set (set ps)" using ps(2) by (simp add: sorted_list_of_set_sort_remdups distinct_remdups_id)
  then show ?thesis using ps by (simp add: export_paths_def)
qed

section \<open>The entries\<close>

definition copied :: "(capture_file \<Rightarrow> bytes) \<Rightarrow> disk \<Rightarrow> string \<Rightarrow> archive_entry \<Rightarrow> bool" where
  "copied raw d p e \<longleftrightarrow> ae_name e = clean_path p \<and> ae_method e = 0 
     \<and> (\<exists>place. open_entry place raw d p (clean_path p) = Inr (ae_content e))"

lemma add_fileD:
  "add_file raw ft d es p = Inr es' \<Longrightarrow> \<exists>e. es' = es @ [e] \<and> copied raw d p e"
  by (auto simp: add_file_def Let_def copied_def split: if_splits sum.splits)

lemma add_files:
  "foldM (add_file raw ft d) es ps = Inr es' \<Longrightarrow> \<exists>new. es' = es @ new \<and> list_all2 (copied raw d) ps new"
proof (induction ps arbitrary: es)
  case (Cons p ps)
  then obtain es1 where a: "add_file raw ft d es p = Inr es1" "foldM (add_file raw ft d) es1 ps = Inr es'"
    by (auto split: sum.splits)
  obtain e where "es1 = es @ [e]" "copied raw d p e" using add_fileD [OF a(1)] by blast
  moreover obtain new where "es' = es1 @ new" "list_all2 (copied raw d) ps new" using Cons.IH [OF a(2)] by blast
  ultimately show ?case by (intro exI [of _ "e # new"]) simp
qed simp

definition readable :: "(string \<Rightarrow> text_place) \<Rightarrow> (capture_file \<Rightarrow> bytes) \<Rightarrow> disk \<Rightarrow> string \<Rightarrow> bool" where
  "readable place raw d p \<longleftrightarrow> \<not> has_prefix (clean_path p) ''/'' \<and> clean_path p \<noteq> ''..'' \<and> \<not> has_prefix (clean_path p) ''../''
     \<and> (\<exists>c. open_entry place raw d p (clean_path p) = Inr c)"

lemma add_files_total:
  assumes "\<forall>p \<in> set ps. readable (xf_place ft) raw d p" "xf_entry ft = None" "\<not> xf_root ft"
  shows "\<exists>es'. foldM (add_file raw ft d) es ps = Inr es'"
  using assms by (intro foldM_total) (auto simp: readable_def add_file_def Let_def)

lemma copied_methods: "list_all2 (copied raw d) ps es \<Longrightarrow> find (\<lambda>e. ae_method e \<noteq> 0) es = None"
  by (induction rule: list_all2_induct) (auto simp: copied_def)

section \<open>Entries of a sound capture\<close>

lemma sound_ref_entry:
  assumes "blob_sound d ref"
  shows "\<exists>c. (\<forall>place. open_entry place raw d (br_path ref) (clean_path (br_path ref)) = Inr c)
    \<and> hex_digest c = br_sha256 ref \<and> int (length c) = br_size ref" "readable place raw d (br_path ref)"
    "br_path ref \<noteq> manifest_name" "br_path ref \<noteq> events_name"
proof -
  obtain c where c: "dk_blobs d (clean_path (br_path ref)) = Some (RegularFile c)
      \<or> dk_blobs d (clean_path (br_path ref)) = Some (LinkInside c)"
    "clean_path (br_path ref) = clean_path (blob_path (br_sha256 ref))"
    "br_size ref = int (length c)" "br_sha256 ref = hex_digest c"
    using assms unfolding blob_sound_def by blast
  have d: "digest_text (br_sha256 ref)" by (simp add: c(4))
  have cp: "clean_path (br_path ref) = blob_path (br_sha256 ref)" by (simp add: c(2) clean_blob_path [OF d])
  note np = blob_path_not [OF d]
  show o: "\<exists>c. (\<forall>place. open_entry place raw d (br_path ref) (clean_path (br_path ref)) = Inr c)
      \<and> hex_digest c = br_sha256 ref \<and> int (length c) = br_size ref"
    using c(1,3,4) np cp by (auto simp: open_entry_def)
  show "readable place raw d (br_path ref)" using o np by (auto simp: readable_def cp)
  have "clean_path manifest_name = manifest_name" "clean_path events_name = events_name"
    by (simp_all add: manifest_name_def events_name_def clean_path_def Let_def has_prefix_def)
  then show "br_path ref \<noteq> manifest_name" "br_path ref \<noteq> events_name" using np cp by metis+
qed

lemma clean_names [simp]: "clean_path manifest_name = manifest_name" "clean_path events_name = events_name"
  by (simp_all add: manifest_name_def events_name_def clean_path_def Let_def has_prefix_def)

lemma open_textD: "open_text place p c = Inr x \<Longrightarrow> x = c"
  by (cases place) (simp_all add: open_text_def)

lemma names_differ: "events_name \<noteq> manifest_name" "manifest_name \<noteq> events_name"
  by (simp_all add: events_name_def manifest_name_def)

lemma open_names:
  assumes "dk_manifest d = Some m"
  shows "open_entry place raw d manifest_name manifest_name = Inr x \<Longrightarrow> x = raw (ManifestFile m)"
    "open_entry place raw d events_name events_name = Inr x \<Longrightarrow> x = raw (StreamFile (dk_lines d) (dk_torn d))"
  using assms by (auto simp: open_entry_def names_differ dest: open_textD)

definition placed_well :: "(string \<Rightarrow> text_place) \<Rightarrow> bool" where
  "placed_well place = (place manifest_name \<in> {TextRegular, TextLinkInside} \<and> place events_name \<in> {TextRegular, TextLinkInside})"

lemma readable_names:
  assumes "dk_manifest d = Some m" "placed_well place"
  shows "readable place raw d manifest_name" "readable place raw d events_name"
proof -
  have "\<not> has_prefix manifest_name ''/''" "manifest_name \<noteq> ''..''" "\<not> has_prefix manifest_name ''../''"
    "\<not> has_prefix events_name ''/''" "events_name \<noteq> ''..''" "\<not> has_prefix events_name ''../''"
    by (simp_all add: manifest_name_def events_name_def has_prefix_def)
  then show "readable place raw d manifest_name" "readable place raw d events_name"
    using assms by (auto simp: readable_def open_entry_def open_text_def placed_well_def names_differ)
qed

section \<open>Export\<close>

text \<open>What \<^const>\<open>export_capture\<close> has checked when it starts writing.\<close>

lemma export_begun:
  assumes v: "verify d = Inr v" "vf_issues v = []" and sc: "scan_events export_visit (export_start (vf_manifest v)) d = Inr s"
  shows "\<exists>es. capture_sound d (vf_manifest v) es \<and> collected (vf_manifest v) es s
    \<and> export_paths s = [manifest_name, events_name] @ sorted_list_of_set (br_path ` event_refs es)"
proof -
  obtain es where es: "capture_sound d (vf_manifest v) es" using verify_clean [OF v] by blast
  obtain es' where "dk_lines d = map EventLine es'" "collected (vf_manifest v) es' s"
    using exporter.scan_events_audit [OF collected_start sc] by metis
  moreover have "es' = es" using es calculation(1) by (auto simp: capture_sound_def inj_map_eq_map inj_def)
  ultimately have c: "collected (vf_manifest v) es s" by simp
  have "br_path ` event_refs es - {manifest_name, events_name} = br_path ` event_refs es"
    using es sound_ref_entry(3,4) by (fastforce simp: capture_sound_def)
  then show ?thesis using es sorted_paths [OF c] c by (auto simp: capture_sound_def)
qed

lemma scan_export_total:
  assumes "dk_lines d = map EventLine es" "\<not> dk_torn d"
  shows "\<exists>s. scan_events export_visit s0 d = Inr s"
proof -
  have "\<exists>s. scan_lines export_visit n s0 (map EventLine es) = Inr s" for n
    by (induction es arbitrary: n s0) (auto simp: export_visit_def Let_def)
  then obtain s where "scan_lines export_visit 0 s0 (map EventLine es) = Inr s" by blast
  then show ?thesis using assms by (simp add: scan_events_def)
qed

definition complete_archive :: "(capture_file \<Rightarrow> bytes) \<Rightarrow> disk \<Rightarrow> event list \<Rightarrow> archive_entry list \<Rightarrow> bool" where
  "complete_archive raw d es entries \<longleftrightarrow>
     (\<exists>m blobs. dk_manifest d = Some m \<and> entries =
         [\<lparr>ae_name = manifest_name, ae_method = 0, ae_content = raw (ManifestFile m)\<rparr>,
          \<lparr>ae_name = events_name, ae_method = 0, ae_content = raw (StreamFile (map EventLine es) False)\<rparr>] @ blobs
       \<and> list_all2 (\<lambda>p e. ae_name e = clean_path p) (sorted_list_of_set (br_path ` event_refs es)) blobs
       \<and> (\<forall>ref \<in> event_refs es. \<exists>c. \<lparr>ae_name = clean_path (br_path ref), ae_method = 0, ae_content = c\<rparr> \<in> set blobs
            \<and> hex_digest c = br_sha256 ref \<and> int (length c) = br_size ref))"

lemma entries_complete:
  assumes s: "capture_sound d m es"
    and all: "list_all2 (copied raw d) ([manifest_name, events_name] @ sorted_list_of_set (br_path ` event_refs es)) entries"
  shows "complete_archive raw d es entries"
proof -
  have m: "dk_manifest d = Some m" and ln: "dk_lines d = map EventLine es" "\<not> dk_torn d"
    using s by (simp_all add: capture_sound_def)
  let ?ps = "sorted_list_of_set (br_path ` event_refs es)"
  obtain e1 e2 blobs where e: "entries = [e1, e2] @ blobs" "copied raw d manifest_name e1" "copied raw d events_name e2"
    "list_all2 (copied raw d) ?ps blobs"
    using all by (auto simp: list_all2_Cons1)
  have e12: "e1 = \<lparr>ae_name = manifest_name, ae_method = 0, ae_content = raw (ManifestFile m)\<rparr>"
    "e2 = \<lparr>ae_name = events_name, ae_method = 0, ae_content = raw (StreamFile (map EventLine es) False)\<rparr>"
    using e(2,3) open_names [OF m] ln by (auto simp: copied_def)
  have b: "\<exists>c. \<lparr>ae_name = clean_path (br_path ref), ae_method = 0, ae_content = c\<rparr> \<in> set blobs
      \<and> hex_digest c = br_sha256 ref \<and> int (length c) = br_size ref" if r: "ref \<in> event_refs es" for ref
  proof -
    have "br_path ref \<in> set ?ps" using r by simp
    then obtain x where x: "x \<in> set blobs" "copied raw d (br_path ref) x"
      using e(4) by (metis in_set_conv_nth list_all2_conv_all_nth)
    have "blob_sound d ref" using s r by (simp add: capture_sound_def)
    then obtain c where "\<And>place. open_entry place raw d (br_path ref) (clean_path (br_path ref)) = Inr c"
      "hex_digest c = br_sha256 ref" "int (length c) = br_size ref" using sound_ref_entry(1) by blast
    moreover have "x = \<lparr>ae_name = clean_path (br_path ref), ae_method = 0, ae_content = c\<rparr>"
      using x(2) calculation(1) by (simp add: copied_def)
    ultimately show ?thesis using x(1) by auto
  qed
  have "list_all2 (\<lambda>p e. ae_name e = clean_path p) ?ps blobs"
    using e(4) by (rule list_all2_mono) (simp add: copied_def)
  then show ?thesis unfolding complete_archive_def using m e(1) e12 b by blast
qed

lemma fill_archiveD:
  assumes "fill_archive raw zw zr ft cwd output d ps = Inr (packed, res)"
  shows "\<exists>entries. list_all2 (copied raw d) ps entries \<and> packed = zw schema_version entries
    \<and> xr_sha256 res = hex_digest packed \<and> xr_bytes res = int (length packed) \<and> xr_entries res = int (length ps)
    \<and> abs_path cwd output = Some (xr_path res)"
proof -
  obtain entries where e: "foldM (add_file raw ft d) [] ps = Inr entries" "packed = zw schema_version entries"
    "inspect_archive zr ft cwd output packed (length ps) = Inr res"
    using assms by (auto simp: fill_archive_def Let_def split: sum.splits if_splits)
  then show ?thesis using add_files [OF e(1)]
    by (auto simp: inspect_archive_def split: option.splits if_splits)
qed

definition calm :: "export_faults \<Rightarrow> bool" where
  "calm ft = (placed_well (xf_place ft) \<and> \<not> xf_root ft \<and> xf_mkdir ft = None \<and> \<not> xf_create ft \<and> xf_entry ft = None
     \<and> \<not> xf_close_stream ft \<and> \<not> xf_sync ft \<and> \<not> xf_close ft \<and> \<not> xf_read_back ft)"

lemma calm_none [simp]: "calm no_export_faults"
  by (simp add: calm_def no_export_faults_def placed_well_def)

lemma fill_archive_total:
  assumes r: "\<forall>p \<in> set ps. readable (xf_place ft) raw d p" and z: "\<forall>es. zr (zw schema_version es) = Some es"
    and c: "abs_path cwd output \<noteq> None" and f: "calm ft"
  shows "\<exists>packed res. fill_archive raw zw zr ft cwd output d ps = Inr (packed, res)"
proof -
  obtain entries where e: "foldM (add_file raw ft d) [] ps = Inr entries"
    using add_files_total [OF r] f by (auto simp: calm_def)
  then have l: "list_all2 (copied raw d) ps entries" using add_files by fastforce
  show ?thesis
    using e z c f copied_methods [OF l] list_all2_lengthD [OF l]
    by (auto simp: fill_archive_def inspect_archive_def calm_def Let_def)
qed

lemma export_checkD:
  assumes "export_check cwd root output d = Inr s"
  shows "\<exists>v. verify d = Inr v \<and> vf_issues v = [] \<and> mf_status (vf_manifest v) \<noteq> ''open''
    \<and> path_inside cwd root output = Some False
    \<and> scan_events export_visit (export_start (vf_manifest v)) d = Inr s"
  using assms
  by (cases "verify d"; cases "path_inside cwd root output")
    (simp_all add: export_check_def result_simps split: if_split_asm)

lemma export_captureD:
  assumes "export_capture raw zw zr ft cwd root output d fs = (Inr res, fs')"
  shows "\<exists>s packed res1. export_check cwd root output d = Inr s \<and> xd_files fs output = None
    \<and> fill_archive raw zw zr ft cwd output d (export_paths s) = Inr (packed, res1)
    \<and> res = res1\<lparr>xr_decrypted := xs_decrypted s\<rparr> \<and> xd_files fs' = (xd_files fs)(output \<mapsto> packed)
    \<and> xd_dirs fs' = xd_dirs fs \<union> set (dir_chain (dir_path output))"
proof -
  obtain s where s: "export_check cwd root output d = Inr s"
    using assms by (cases "export_check cwd root output d") (simp_all add: export_capture_def)
  have ok: "xf_mkdir ft = None" "xd_files fs output = None"
    using assms s by (auto simp: export_capture_def Let_def split: if_split_asm)
  obtain p where p: "fill_archive raw zw zr ft cwd output d (export_paths s) = Inr p"
    using assms s
    by (cases "fill_archive raw zw zr ft cwd output d (export_paths s)") (simp_all add: export_capture_def Let_def split: if_split_asm)
  have "res = snd p\<lparr>xr_decrypted := xs_decrypted s\<rparr>" "xd_files fs' = (xd_files fs)(output \<mapsto> fst p)"
    "xd_dirs fs' = xd_dirs fs \<union> set (dir_chain (dir_path output))"
    using assms s p ok by (auto simp: export_capture_def make_dirs_def Let_def split: if_split_asm prod.splits)
  then show ?thesis using s p ok by (cases p) simp
qed

section \<open>A concrete archive format\<close>

text \<open>A byte format for the examples: every item is preceded by 1 and every list ended by 0.\<close>

definition put_bytes :: "bytes \<Rightarrow> bytes" where
  "put_bytes b = concat (map (\<lambda>x. [1, x]) b) @ [0]"

fun get_bytes :: "bytes \<Rightarrow> (bytes \<times> bytes) option" where
  "get_bytes [] = None"
| "get_bytes (t # r) =
     (if t = 0 then Some ([], r)
      else (case r of [] \<Rightarrow> None | x # r' \<Rightarrow> map_option (\<lambda>(b, s). (x # b, s)) (get_bytes r')))"

lemma get_put_bytes [simp]: "get_bytes (put_bytes b @ r) = Some (b, r)"
  by (induction b) (auto simp: put_bytes_def)

definition put_entry :: "archive_entry \<Rightarrow> bytes" where
  "put_entry e = 1 # put_bytes (map (of_nat \<circ> ord) (ae_name e)) @ put_bytes (replicate (ae_method e) 0) @ put_bytes (ae_content e)"

definition demo_write :: "string \<Rightarrow> archive_entry list \<Rightarrow> bytes" where
  "demo_write c es = concat (map put_entry es) @ [0]"

fun get_entries :: "nat \<Rightarrow> bytes \<Rightarrow> archive_entry list option" where
  "get_entries 0 bs = None"
| "get_entries (Suc n) bs =
     (case bs of [] \<Rightarrow> None
      | t # r \<Rightarrow>
          if t = 0 then Some []
          else (case get_bytes r of None \<Rightarrow> None | Some (name, r1) \<Rightarrow>
            (case get_bytes r1 of None \<Rightarrow> None | Some (meth, r2) \<Rightarrow>
              (case get_bytes r2 of None \<Rightarrow> None | Some (c, r3) \<Rightarrow>
                map_option (Cons \<lparr>ae_name = map (char_of \<circ> unat) name, ae_method = length meth, ae_content = c\<rparr>)
                  (get_entries n r3)))))"

lemma get_put_entries: "length es < n \<Longrightarrow> get_entries n (concat (map put_entry es) @ [0]) = Some es"
proof (induction es arbitrary: n)
  case Nil
  then obtain m where "n = Suc m" by (cases n) auto
  then show ?case by simp
next
  case (Cons e es)
  then obtain m where n: "n = Suc m" "length es < m" by (cases n) auto
  have nm: "map (char_of \<circ> unat) (map (of_nat \<circ> ord) s :: bytes) = s" for s
    by (induction s) (simp_all add: unat_of_nat take_bit_nat_eq_self)
  show ?case
    using Cons.IH [OF n(2)] nm [of "ae_name e"] by (simp add: n(1) put_entry_def)
qed

definition demo_read :: "bytes \<Rightarrow> archive_entry list option" where
  "demo_read bs = get_entries (Suc (length bs)) bs"

lemma demo_format: "\<forall>es. demo_read (demo_write c es) = Some es"
proof
  fix es
  have "length es \<le> length (concat (map put_entry es))"
    by (induction es) (auto simp: put_entry_def)
  then show "demo_read (demo_write c es) = Some es"
    unfolding demo_read_def demo_write_def by (intro get_put_entries) simp
qed

definition demo_raw :: "capture_file \<Rightarrow> bytes" where
  "demo_raw f = (case f of ManifestFile m \<Rightarrow> [1] | StreamFile ls torn \<Rightarrow> replicate (length ls) 2)"

definition export_disk :: disk where
  "export_disk = empty_disk\<lparr>dk_manifest := Some (demo_manifest\<lparr>mf_status := ''closed''\<rparr>)\<rparr>"

lemma export_disk_verifies:
  "\<exists>v. verify export_disk = Inr v \<and> vf_issues v = [] \<and> vf_manifest v = demo_manifest\<lparr>mf_status := ''closed''\<rparr>"
  by (simp add: export_disk_def empty_disk_def verify_def verify_with_progress_def read_manifest_def scan_events_def Let_def
      verify_start_def report_progress_def check_manifest_def issue_unless_def demo_manifest_def new_manifest_def
      zero_counts_def)

lemma demo_output: "trim_space ''/out'' \<noteq> []"
  by (subst trim_space_plain) (simp_all add: ord_def is_space_rune_def)

lemma demo_outside: "path_inside None ''/cap'' ''/out'' = Some False"
  by (simp add: path_inside_def abs_path_def has_prefix_def clean_path_def Let_def rel_path_def path_elems_def)

text \<open>
  C8. A successful export was of a capture that verifies; it creates the output file, which did
  not exist, and no other file, in a directory that it made sure exists; the file is an archive of exactly
  the manifest, the event stream and one entry per referenced blob path, in path order, each blob with the
  digest and size of its references; the result carries the digest and length of the file.
\<close>

theorem export_contents:
  assumes "export_capture raw zw zr ft cwd root output d fs = (Inr res, fs')"
  shows "\<exists>v es entries. verify d = Inr v \<and> vf_issues v = [] \<and> mf_status (vf_manifest v) \<noteq> ''open''
    \<and> path_inside cwd root output = Some False \<and> capture_sound d (vf_manifest v) es \<and> complete_archive raw d es entries
    \<and> xd_files fs output = None \<and> xd_files fs' = (xd_files fs)(output \<mapsto> zw schema_version entries)
    \<and> xd_dirs fs' = xd_dirs fs \<union> set (dir_chain (dir_path output))
    \<and> xr_sha256 res = hex_digest (zw schema_version entries) \<and> xr_bytes res = int (length (zw schema_version entries))
    \<and> (xr_decrypted res \<longleftrightarrow> (\<exists>e \<in> set es. decrypted_kind e))"
proof -
  obtain s packed res1 where c: "export_check cwd root output d = Inr s" and n: "xd_files fs output = None"
    and f: "fill_archive raw zw zr ft cwd output d (export_paths s) = Inr (packed, res1)"
      "res = res1\<lparr>xr_decrypted := xs_decrypted s\<rparr>" "xd_files fs' = (xd_files fs)(output \<mapsto> packed)"
      "xd_dirs fs' = xd_dirs fs \<union> set (dir_chain (dir_path output))"
    using export_captureD [OF assms] by blast
  obtain v where v: "verify d = Inr v" "vf_issues v = []" "mf_status (vf_manifest v) \<noteq> ''open''"
      "path_inside cwd root output = Some False"
    and s: "scan_events export_visit (export_start (vf_manifest v)) d = Inr s"
    using export_checkD [OF c] by blast
  obtain es where es: "capture_sound d (vf_manifest v) es" "collected (vf_manifest v) es s"
    "export_paths s = [manifest_name, events_name] @ sorted_list_of_set (br_path ` event_refs es)"
    using export_begun [OF v(1,2) s] by blast
  obtain entries where e: "list_all2 (copied raw d) (export_paths s) entries" "packed = zw schema_version entries"
    "xr_sha256 res1 = hex_digest packed" "xr_bytes res1 = int (length packed)"
    using fill_archiveD [OF f(1)] by blast
  have "complete_archive raw d es entries" using entries_complete [OF es(1)] e(1) es(3) by simp
  moreover have "xs_decrypted s = (\<exists>e \<in> set es. decrypted_kind e)" using es(2) by (simp add: collected_def)
  moreover have "xr_sha256 res = hex_digest packed" "xr_bytes res = int (length packed)"
    "xr_decrypted res = xs_decrypted s" using e(3,4) by (simp_all add: f(2))
  ultimately show ?thesis
    by (intro exI [of _ v] exI [of _ es] exI [of _ entries] conjI v es(1) n f(4)) (simp_all only: f(3) e(2))
qed

definition demo_fs :: export_fs where
  "demo_fs = \<lparr>xd_files = Map.empty, xd_dirs = {''/''}\<rparr>"

lemma demo_dir: "dir_chain (dir_path ''/out'') = [''/'']"
  by (simp add: dir_path_def drop_while_end_def clean_path_def has_prefix_def dir_chain_def Let_def)

lemma export_check_demo: "\<exists>s. export_check None ''/cap'' ''/out'' export_disk = Inr s \<and> export_paths s = [manifest_name, events_name]"
proof -
  obtain v where v: "verify export_disk = Inr v" "vf_issues v = []" "vf_manifest v = demo_manifest\<lparr>mf_status := ''closed''\<rparr>"
    using export_disk_verifies by blast
  have ev: "mf_events_path demo_manifest = events_name" by (simp add: demo_manifest_def new_manifest_def)
  have "dk_lines export_disk = []" "\<not> dk_torn export_disk" by (simp_all add: export_disk_def empty_disk_def)
  then have "export_check None ''/cap'' ''/out'' export_disk = Inr (export_start (vf_manifest v))"
    using v demo_output demo_outside by (simp add: export_check_def scan_events_def)
  moreover have "export_paths (export_start (vf_manifest v)) = [manifest_name, events_name]" by (simp add: export_paths_def export_start_def v(3) ev)
  ultimately show ?thesis by blast
qed

lemma demo_readable: "placed_well place \<Longrightarrow> \<forall>p \<in> set [manifest_name, events_name]. readable place raw export_disk p"
  using readable_names [of export_disk "demo_manifest\<lparr>mf_status := ''closed''\<rparr>" place raw] by (simp add: export_disk_def)

lemma export_run:
  "\<exists>res fs'. export_capture raw demo_write demo_read no_export_faults None ''/cap'' ''/out'' export_disk demo_fs = (Inr res, fs')"
proof -
  obtain s where s: "export_check None ''/cap'' ''/out'' export_disk = Inr s" "export_paths s = [manifest_name, events_name]"
    using export_check_demo by blast
  have "abs_path None ''/out'' \<noteq> None" by (simp add: abs_path_def has_prefix_def)
  moreover have "placed_well (xf_place no_export_faults)" by (simp add: no_export_faults_def placed_well_def)
  ultimately obtain packed res where
    "fill_archive raw demo_write demo_read no_export_faults None ''/out'' export_disk [manifest_name, events_name] = Inr (packed, res)"
    using fill_archive_total [where zr = demo_read and zw = demo_write, OF demo_readable demo_format [where c = schema_version] _ calm_none] by blast
  then show ?thesis using s by (simp add: export_capture_def demo_fs_def make_dirs_def demo_dir Let_def) (simp add: no_export_faults_def)
qed

theorem export_contents_witness:
  "\<exists>res fs' es entries. export_capture demo_raw demo_write demo_read no_export_faults None ''/cap'' ''/out'' export_disk demo_fs
     = (Inr res, fs') \<and> complete_archive demo_raw export_disk es entries \<and> xd_files fs' = [''/out'' \<mapsto> demo_write schema_version entries]"
proof -
  obtain res fs' where r: "export_capture demo_raw demo_write demo_read no_export_faults None ''/cap'' ''/out'' export_disk demo_fs
     = (Inr res, fs')" using export_run [of demo_raw] by blast
  show ?thesis using r export_contents [OF r] by (auto simp: demo_fs_def)
qed

text \<open>
  C9. An export that fails, at whatever step, leaves every file as it was, an existing one at the output
  path included, and nothing at an output path that was free, unless the removal of the partial output
  fails as well; then the output, and nothing else, is what had been written. Of the directories,
  only parents of the output can have been added.
\<close>

theorem failed_export_traceless:
  assumes "export_capture raw zw zr ft cwd root output d fs = (Inl e, fs')"
  shows "(xd_files fs' = xd_files fs
       \<or> (xf_remove ft \<and> xd_files fs output = None \<and> xd_files fs' = (xd_files fs)(output \<mapsto> xf_partial ft)))
    \<and> xd_dirs fs \<subseteq> xd_dirs fs' \<and> xd_dirs fs' \<subseteq> xd_dirs fs \<union> set (dir_chain (dir_path output))"
proof (cases "export_check cwd root output d")
  case (Inl x)
  then show ?thesis using assms by (simp add: export_capture_def)
next
  case (Inr s)
  let ?m = "make_dirs (xf_mkdir ft) (dir_path output) fs"
  have "xd_dirs fs' = xd_dirs ?m \<and> (xd_files fs' = xd_files fs
       \<or> (xf_remove ft \<and> xd_files fs output = None \<and> xd_files fs' = (xd_files fs)(output \<mapsto> xf_partial ft)))"
    using assms Inr
    by (cases "fill_archive raw zw zr ft cwd output d (export_paths s)")
      (auto simp: export_capture_def Let_def fun_upd_idem split: if_split_asm)
  then show ?thesis using make_dirs_grow(1) [of fs "xf_mkdir ft" "dir_path output"] make_dirs_grow(2) [of "xf_mkdir ft" "dir_path output" fs] by auto
qed

theorem failed_export_traceless_witness:
  "\<exists>fs'. export_capture demo_raw demo_write demo_read (no_export_faults\<lparr>xf_sync := True\<rparr>) None ''/cap'' ''/out'' export_disk
       \<lparr>xd_files = [''/other'' \<mapsto> [7]], xd_dirs = {''/''}\<rparr> = (Inl XSync, fs') \<and> xd_files fs' = [''/other'' \<mapsto> [7]]"
proof -
  let ?ft = "no_export_faults\<lparr>xf_sync := True\<rparr>" and ?fs = "\<lparr>xd_files = [''/other'' \<mapsto> [7 :: 8 word]], xd_dirs = {''/''}\<rparr>"
  obtain s where s: "export_check None ''/cap'' ''/out'' export_disk = Inr s" "export_paths s = [manifest_name, events_name]"
    using export_check_demo by blast
  have place: "xf_place ?ft = (\<lambda>_. TextRegular)" "xf_entry ?ft = None" "\<not> xf_root ?ft" "xf_mkdir ?ft = None" "\<not> xf_create ?ft" "\<not> xf_remove ?ft"
    by (simp_all add: no_export_faults_def)
  obtain entries where "foldM (add_file demo_raw ?ft export_disk) [] [manifest_name, events_name] = Inr entries"
    using add_files_total [of "[manifest_name, events_name]" ?ft demo_raw export_disk "[]"] demo_readable [of "xf_place ?ft" demo_raw] place
    by (metis insertI1 placed_well_def)
  then have "fill_archive demo_raw demo_write demo_read ?ft None ''/out'' export_disk [manifest_name, events_name] = Inl XSync"
    by (simp add: fill_archive_def) (simp add: no_export_faults_def)
  then obtain fs' where r: "export_capture demo_raw demo_write demo_read ?ft None ''/cap'' ''/out'' export_disk ?fs = (Inl XSync, fs')"
    using s place by (simp add: export_capture_def make_dirs_def demo_dir Let_def)
  then show ?thesis using failed_export_traceless [OF r] place by simp
qed

text \<open>
  C10. Export works: a capture that verifies and is not open is exported whenever its manifest and stream
  are regular files or links to such inside the capture, the output is a path outside the capture
  where there is neither a file nor a directory, and no system call fails.
\<close>

theorem export_succeeds:
  assumes "verify d = Inr v" "vf_issues v = []" "mf_status (vf_manifest v) \<noteq> ''open''" "trim_space output \<noteq> []"
    "path_inside cwd root output = Some False" "xd_files fs output = None" "output \<notin> xd_dirs fs \<union> set (dir_chain (dir_path output))"
    "\<forall>es. zr (zw schema_version es) = Some es" "calm ft"
  shows "\<exists>res. fst (export_capture raw zw zr ft cwd root output d fs) = Inr res"
proof -
  obtain es0 where es0: "capture_sound d (vf_manifest v) es0" using verify_clean [OF assms(1,2)] by blast
  then obtain s where s: "scan_events export_visit (export_start (vf_manifest v)) d = Inr s"
    using scan_export_total [of d es0] unfolding capture_sound_def by blast
  obtain es where es: "capture_sound d (vf_manifest v) es"
    "export_paths s = [manifest_name, events_name] @ sorted_list_of_set (br_path ` event_refs es)"
    using export_begun [OF assms(1,2) s] by blast
  have m: "dk_manifest d = Some (vf_manifest v)" and snd: "\<And>ref. ref \<in> event_refs es \<Longrightarrow> blob_sound d ref"
    using es(1) by (simp_all add: capture_sound_def)
  have "readable (xf_place ft) raw d p" if p: "p \<in> set (export_paths s)" for p
  proof -
    have "p = manifest_name \<or> p = events_name \<or> p \<in> br_path ` event_refs es" using p es(2) by simp
    then show ?thesis using readable_names [OF m] sound_ref_entry(2) [OF snd] assms(9) by (auto simp: calm_def)
  qed
  then have "\<forall>p \<in> set (export_paths s). readable (xf_place ft) raw d p" by blast
  moreover have "abs_path cwd output \<noteq> None" using assms(5) by (auto simp: path_inside_def split: option.splits)
  ultimately obtain packed res where "fill_archive raw zw zr ft cwd output d (export_paths s) = Inr (packed, res)"
    using fill_archive_total assms(8,9) by blast
  moreover have "export_check cwd root output d = Inr s" using assms s by (simp add: export_check_def)
  ultimately show ?thesis using assms(6,7,9) by (simp add: export_capture_def calm_def make_dirs_def Let_def)
qed

theorem export_succeeds_witness:
  "\<exists>res. fst (export_capture demo_raw demo_write demo_read (no_export_faults\<lparr>xf_place := (\<lambda>_. TextLinkInside)\<rparr>) None ''/cap'' ''/out'' export_disk demo_fs) = Inr res"
proof -
  obtain v where v: "verify export_disk = Inr v" "vf_issues v = []" "vf_manifest v = demo_manifest\<lparr>mf_status := ''closed''\<rparr>"
    using export_disk_verifies by blast
  have open_: "mf_status (vf_manifest v) \<noteq> ''open''" by (simp add: v(3))
  have c: "calm (no_export_faults\<lparr>xf_place := (\<lambda>_. TextLinkInside)\<rparr>)" by (simp add: calm_def no_export_faults_def placed_well_def)
  show ?thesis
    by (rule export_succeeds [OF v(1,2) open_ demo_output demo_outside _ _ demo_format c]) (simp_all add: demo_fs_def demo_dir)
qed

text \<open>
  The guard that keeps the archive out of the capture directory: for absolute or relative
  arguments, with dots, double slashes and dot-dots, the output counts as inside exactly when the
  elements of its absolute path extend those of the root's.
\<close>

theorem path_inside_correct:
  assumes "path_inside cwd root candidate = Some inside" "\<And>c. cwd = Some c \<Longrightarrow> has_prefix c ''/''"
  shows "\<exists>a b. abs_path cwd root = Some a \<and> abs_path cwd candidate = Some b
    \<and> (inside \<longleftrightarrow> prefix (path_elems a) (path_elems b))"
proof -
  obtain a b where ab: "abs_path cwd root = Some a" "abs_path cwd candidate = Some b"
    and i: "inside \<longleftrightarrow> rel_path a b \<noteq> ''..'' \<and> \<not> has_prefix (rel_path a b) ''../''"
    using assms(1) by (auto simp: path_inside_def Let_def split: option.splits)
  obtain p q where "has_prefix p ''/''" "a = clean_path p" "has_prefix q ''/''" "b = clean_path q"
    using abs_path_rooted [OF ab(1) assms(2)] abs_path_rooted [OF ab(2) assms(2)] by blast
  then show ?thesis using ab i rel_path_inside by auto
qed

theorem path_inside_correct_witness:
  "\<exists>a b. abs_path (Some ''/w'') ''cap'' = Some a \<and> abs_path (Some ''/w'') ''cap/../cap/x.zip'' = Some b
     \<and> prefix (path_elems a) (path_elems b)"
proof -
  have "path_inside (Some ''/w'') ''cap'' ''cap/../cap/x.zip'' = Some True"
    by (simp add: path_inside_def abs_path_def has_prefix_def clean_path_def join_path_def Let_def rel_path_def path_elems_def)
  from path_inside_correct [OF this] show ?thesis by (auto simp: has_prefix_def)
qed

end
