(* ===== verification/Analysis.thy ===== *)
theory Analysis
  imports Verify "HOL-Library.List_Lexorder" "HOL-Library.Char_ord" "HOL-Library.Product_Lexorder"
begin

text \<open>
  The analysis of a capture (\<^verbatim>\<open>internal/analysis/analysis.go\<close>): one pass over the verified
  event stream that counts, collects resource packs and groups errors, and the explanation of the
  summary in Markdown. The maps of the pass are association lists in insertion order; every one
  of them is sorted before it is returned.
\<close>

section \<open>The summary\<close>

record build_info =
  bi_version :: string
  bi_commit :: string
  bi_go_version :: string
  bi_goos :: string
  bi_goarch :: string

record protocol_info =
  pr_configured_id :: string
  pr_configured_version :: string
  pr_downstream_id :: int
  pr_downstream_version :: string
  pr_upstream_id :: int
  pr_upstream_version :: string
  pr_downstream_data_version :: string
  pr_upstream_data_version :: string
  pr_data_version_match :: "bool option"
  pr_downstream_device_os :: int
  pr_upstream_device_os :: int
  pr_device_os_match :: "bool option"
  pr_pack_decrypt :: bool

record session_info =
  se_upstream_connected :: bool
  se_negotiated :: bool
  se_spawned :: bool
  se_closed :: bool
  se_connection_views :: u64
  se_game_data_views :: u64
  se_decoded :: u64
  se_unknown :: u64
  se_transport :: u64
  se_raw :: u64
  se_decode_errors :: u64
  se_errors :: u64
  se_view_errors :: u64

record named_count =
  nc_name :: string
  nc_count :: u64

record packet_count =
  pc_direction :: direction
  pc_id :: u32
  pc_name :: string
  pc_decode_status :: string
  pc_count :: u64

record artifact_count =
  ac_representation :: string
  ac_references :: u64
  ac_unique_blobs :: u64
  ac_unique_bytes :: u64

record pack_info =
  pk_sequence :: u64
  pk_uuid :: string
  pk_version :: string
  pk_name :: string
  pk_archive_bytes :: int
  pk_checksum :: string
  pk_delivery :: string
  pk_encrypted :: bool
  pk_has_key :: bool
  pk_blob :: string

record pack_decryption =
  pd_sequence :: u64
  pd_parent :: u64
  pd_uuid :: string
  pd_version :: string
  pd_status :: string
  pd_algorithm :: string
  pd_authenticated :: bool
  pd_files :: int
  pd_blob :: string
  pd_error :: string

record error_count =
  er_kind :: string
  er_operation :: string
  er_type :: string
  er_message :: string
  er_best_effort :: bool
  er_count :: u64
  er_first :: u64
  er_last :: u64

record summary =
  su_schema :: string
  su_capture_id :: string
  su_build :: build_info
  su_protocol :: protocol_info
  su_session :: session_info
  su_status :: string
  su_started_at :: string
  su_ended_at :: string
  su_complete :: bool
  su_limitations :: "string list"
  su_counts :: capture_counts
  su_observed :: u64
  su_first :: u64
  su_last :: u64
  su_kinds :: "named_count list"
  su_directions :: "named_count list"
  su_channels :: "named_count list"
  su_packets :: "packet_count list"
  su_artifacts :: "artifact_count list"
  su_packs :: "pack_info list"
  su_decryptions :: "pack_decryption list"
  su_errors :: "error_count list"
  su_issues :: "string list"

section \<open>Keys\<close>

datatype packet_key = PacketKey direction u32 string string

fun packet_key_parts :: "packet_key \<Rightarrow> direction \<times> u32 \<times> string \<times> string" where
  "packet_key_parts (PacketKey d i n s) = (d, i, n, s)"

lemma packet_key_parts_inj: "packet_key_parts a = packet_key_parts b \<longleftrightarrow> a = b"
  by (cases a; cases b) auto

text \<open>
  The order of the packet table, as the comparison function of \<^verbatim>\<open>Analyze\<close> spells it out:
  direction, id, name, decode status.
\<close>

instantiation packet_key :: linorder
begin

definition less_eq_packet_key :: "packet_key \<Rightarrow> packet_key \<Rightarrow> bool" where
  "less_eq_packet_key a b = (packet_key_parts a \<le> packet_key_parts b)"

definition less_packet_key :: "packet_key \<Rightarrow> packet_key \<Rightarrow> bool" where
  "less_packet_key a b = (packet_key_parts a < packet_key_parts b)"

instance
proof
  fix a b c :: packet_key
  show "a < b \<longleftrightarrow> a \<le> b \<and> \<not> b \<le> a" by (auto simp: less_eq_packet_key_def less_packet_key_def)
  show "a \<le> a" by (simp add: less_eq_packet_key_def)
  show "a \<le> b \<Longrightarrow> b \<le> c \<Longrightarrow> a \<le> c" by (simp add: less_eq_packet_key_def)
  show "a \<le> b \<Longrightarrow> b \<le> a \<Longrightarrow> a = b" using packet_key_parts_inj by (simp add: less_eq_packet_key_def)
  show "a \<le> b \<or> b \<le> a" by (auto simp: less_eq_packet_key_def)
qed

end

record error_key =
  ek_kind :: string
  ek_operation :: string
  ek_type :: string
  ek_message :: string
  ek_best_effort :: bool

record artifact_aggregate =
  aa_references :: u64
  aa_blobs :: "(string \<times> int) list"

section \<open>The pass\<close>

record analysis =
  an_session :: session_info
  an_protocol :: protocol_info
  an_observed :: u64
  an_first :: u64
  an_last :: u64
  an_kinds :: "(string \<times> u64) list"
  an_directions :: "(string \<times> u64) list"
  an_channels :: "(string \<times> u64) list"
  an_packets :: "(packet_key \<times> u64) list"
  an_errors :: "(error_key \<times> error_count) list"
  an_artifacts :: "(string \<times> artifact_aggregate) list"
  an_packs :: "pack_info list"
  an_decryptions :: "pack_decryption list"

definition count_stream :: "event \<Rightarrow> analysis \<Rightarrow> analysis" where
  "count_stream e a =
     a\<lparr>an_observed := an_observed a + 1,
       an_first := (if an_first a = 0 then ev_sequence e else an_first a),
       an_last := ev_sequence e,
       an_kinds := bump (ev_kind e) (an_kinds a),
       an_directions := bump (ev_direction e) (an_directions a),
       an_channels := bump (ev_channel e) (an_channels a)\<rparr>"

text \<open>The negotiated protocol, decoded from the data of a \<^verbatim>\<open>session.negotiated\<close> event.\<close>

definition decode_negotiated :: "json \<Rightarrow> protocol_info \<Rightarrow> protocol_info option" where
  "decode_negotiated j p =
     (case (field_with (json_int 32) 0 ''downstream_protocol_id'' j,
            field_with json_string [] ''downstream_game_version'' j,
            field_with (json_int 32) 0 ''upstream_protocol_id'' j,
            field_with json_string [] ''upstream_game_version'' j,
            field_with json_string [] ''downstream_client_data_game_version'' j,
            field_with json_string [] ''upstream_client_data_game_version'' j,
            field_pointer json_bool ''client_data_game_version_match'' j,
            field_with (json_int 32) 0 ''downstream_client_data_device_os'' j,
            field_with (json_int 32) 0 ''upstream_client_data_device_os'' j,
            field_pointer json_bool ''client_data_device_os_match'' j) of
        (Some di, Some dv, Some ui, Some uv, Some ddv, Some udv, Some vm, Some dos, Some uos, Some om) \<Rightarrow>
          Some (p\<lparr>pr_downstream_id := di, pr_downstream_version := dv, pr_upstream_id := ui,
                  pr_upstream_version := uv, pr_downstream_data_version := ddv,
                  pr_upstream_data_version := udv, pr_data_version_match := vm,
                  pr_downstream_device_os := dos, pr_upstream_device_os := uos, pr_device_os_match := om\<rparr>)
      | _ \<Rightarrow> None)"

definition unmarshal_with :: "(json \<Rightarrow> 'a option) \<Rightarrow> string option \<Rightarrow> 'a option" where
  "unmarshal_with dec data = (case unmarshal_object data of None \<Rightarrow> None | Some j \<Rightarrow> dec j)"

definition count_session :: "string \<Rightarrow> session_info \<Rightarrow> session_info" where
  "count_session k s =
     (if k = ''upstream.connected'' then s\<lparr>se_upstream_connected := True\<rparr>
      else if k = ''session.negotiated'' then s\<lparr>se_negotiated := True\<rparr>
      else if k = ''session.spawned'' then s\<lparr>se_spawned := True\<rparr>
      else if k = ''session.close'' then s\<lparr>se_closed := True\<rparr>
      else if k = ''session.connection_metadata'' then s\<lparr>se_connection_views := se_connection_views s + 1\<rparr>
      else if k = ''session.game_data'' then s\<lparr>se_game_data_views := se_game_data_views s + 1\<rparr>
      else if k = ''packet.decoded'' then s\<lparr>se_decoded := se_decoded s + 1\<rparr>
      else if k = ''packet.unknown'' then s\<lparr>se_unknown := se_unknown s + 1\<rparr>
      else if k = ''transport.payload'' then s\<lparr>se_transport := se_transport s + 1\<rparr>
      else if k = ''packet.raw'' then s\<lparr>se_raw := se_raw s + 1\<rparr>
      else if k = ''packet.decode_error'' then s\<lparr>se_decode_errors := se_decode_errors s + 1\<rparr>
      else if k = ''capture.view_error'' then s\<lparr>se_view_errors := se_view_errors s + 1\<rparr>
      else s)"

text \<open>The switch on the event kind; decoding the negotiation can fail.\<close>

definition visit_session :: "event \<Rightarrow> analysis \<Rightarrow> string + analysis" where
  "visit_session e a =
     (let a1 = a\<lparr>an_session := count_session (ev_kind e) (an_session a)\<rparr> in
      if ev_kind e = ''session.negotiated''
      then (case unmarshal_with (\<lambda>j. decode_negotiated j (an_protocol a1)) (ev_data e) of
              None \<Rightarrow> Inl ''decode session negotiation event''
            | Some p \<Rightarrow> Inr (a1\<lparr>an_protocol := p\<rparr>))
      else Inr a1)"

definition event_packet_key :: "event \<Rightarrow> packet_key option" where
  "event_packet_key e = map_option (\<lambda>p. PacketKey (ev_direction e) (pi_id p) (pi_name p) (pi_decode_status p)) (ev_packet e)"

definition count_packet :: "event \<Rightarrow> analysis \<Rightarrow> analysis" where
  "count_packet e a =
     (case event_packet_key e of None \<Rightarrow> a | Some k \<Rightarrow> a\<lparr>an_packets := bump k (an_packets a)\<rparr>)"

definition add_reference :: "blob_ref \<Rightarrow> artifact_aggregate \<Rightarrow> artifact_aggregate" where
  "add_reference ref g =
     g\<lparr>aa_references := aa_references g + 1,
       aa_blobs := upsert (br_sha256 ref) (br_size ref) (\<lambda>_. br_size ref) (aa_blobs g)\<rparr>"

definition new_aggregate :: artifact_aggregate where
  "new_aggregate = \<lparr>aa_references = 0, aa_blobs = []\<rparr>"

definition count_artifact :: "event \<Rightarrow> analysis \<Rightarrow> analysis" where
  "count_artifact e a =
     (case ev_blob e of
        None \<Rightarrow> a
      | Some ref \<Rightarrow> a\<lparr>an_artifacts := upsert (br_representation ref) (add_reference ref new_aggregate)
                        (add_reference ref) (an_artifacts a)\<rparr>)"

definition is_error_event :: "event \<Rightarrow> bool" where
  "is_error_event e = (ev_error e \<noteq> None \<or> ev_severity e = SeverityError)"

definition best_effort :: "event \<Rightarrow> bool" where
  "best_effort e =
     (case unmarshal_with (field_with json_bool False ''best_effort'') (ev_data e) of
        None \<Rightarrow> False | Some b \<Rightarrow> b)"

definition event_error_key :: "event \<Rightarrow> error_key" where
  "event_error_key e =
     (case ev_error e of
        None \<Rightarrow> \<lparr>ek_kind = ev_kind e, ek_operation = [], ek_type = [], ek_message = [], ek_best_effort = best_effort e\<rparr>
      | Some x \<Rightarrow> \<lparr>ek_kind = ev_kind e, ek_operation = ei_operation x, ek_type = ei_type x,
                   ek_message = ei_message x, ek_best_effort = best_effort e\<rparr>)"

definition again_error :: "u64 \<Rightarrow> error_count \<Rightarrow> error_count" where
  "again_error sq c = c\<lparr>er_count := er_count c + 1, er_last := sq\<rparr>"

definition new_error :: "error_key \<Rightarrow> u64 \<Rightarrow> error_count" where
  "new_error k sq = \<lparr>er_kind = ek_kind k, er_operation = ek_operation k, er_type = ek_type k,
     er_message = ek_message k, er_best_effort = ek_best_effort k, er_count = 0, er_first = sq, er_last = 0\<rparr>"

definition visit_error :: "event \<Rightarrow> analysis \<Rightarrow> analysis" where
  "visit_error e a =
     (if is_error_event e
      then (let k = event_error_key e; s = an_session a
            in a\<lparr>an_session := s\<lparr>se_errors := se_errors s + 1\<rparr>,
                 an_errors := upsert k (again_error (ev_sequence e) (new_error k (ev_sequence e)))
                   (again_error (ev_sequence e)) (an_errors a)\<rparr>)
      else a)"

definition blob_digest :: "event \<Rightarrow> string" where
  "blob_digest e = (case ev_blob e of None \<Rightarrow> [] | Some ref \<Rightarrow> br_sha256 ref)"

definition parent_of :: "event \<Rightarrow> u64" where
  "parent_of e = (case ev_parent_sequence e of None \<Rightarrow> 0 | Some s \<Rightarrow> s)"

definition decode_pack :: "event \<Rightarrow> json \<Rightarrow> pack_info option" where
  "decode_pack e j =
     (case (field_with json_string [] ''uuid'' j, field_with json_string [] ''version'' j,
            field_with json_string [] ''name'' j, field_with (json_int 64) 0 ''archive_bytes'' j,
            field_with json_string [] ''checksum_sha256'' j, field_with json_string [] ''delivery'' j,
            field_with json_bool False ''encrypted'' j, field_with json_string [] ''content_key'' j) of
        (Some uuid, Some version, Some nm, Some n, Some checksum, Some delivery, Some enc, Some key) \<Rightarrow>
          Some \<lparr>pk_sequence = ev_sequence e, pk_uuid = uuid, pk_version = version, pk_name = nm,
                pk_archive_bytes = n, pk_checksum = checksum, pk_delivery = delivery, pk_encrypted = enc,
                pk_has_key = (key \<noteq> []), pk_blob = blob_digest e\<rparr>
      | _ \<Rightarrow> None)"

definition visit_pack :: "event \<Rightarrow> analysis \<Rightarrow> string + analysis" where
  "visit_pack e a =
     (if ev_kind e = ''resource_pack.archive''
      then (case unmarshal_with (decode_pack e) (ev_data e) of
              None \<Rightarrow> Inl ''decode resource pack event''
            | Some p \<Rightarrow> Inr (a\<lparr>an_packs := an_packs a @ [p]\<rparr>))
      else Inr a)"

definition decode_decrypted :: "event \<Rightarrow> json \<Rightarrow> pack_decryption option" where
  "decode_decrypted e j =
     (case (field_with json_string [] ''uuid'' j, field_with json_string [] ''version'' j, field_struct ''report'' j) of
        (Some uuid, Some version, Some report) \<Rightarrow>
          (case (field_with json_string [] ''algorithm'' report, field_with json_bool False ''authenticated'' report,
                 field_with (json_int 64) 0 ''decrypted_files'' report) of
             (Some alg, Some auth, Some n) \<Rightarrow>
               Some \<lparr>pd_sequence = ev_sequence e, pd_parent = parent_of e, pd_uuid = uuid, pd_version = version,
                     pd_status = ''decrypted'', pd_algorithm = alg, pd_authenticated = auth, pd_files = n,
                     pd_blob = blob_digest e, pd_error = []\<rparr>
           | _ \<Rightarrow> None)
      | _ \<Rightarrow> None)"

definition decode_decrypt_error :: "event \<Rightarrow> json \<Rightarrow> pack_decryption option" where
  "decode_decrypt_error e j =
     (case (field_with json_string [] ''uuid'' j, field_with json_string [] ''version'' j) of
        (Some uuid, Some version) \<Rightarrow>
          Some \<lparr>pd_sequence = ev_sequence e, pd_parent = parent_of e, pd_uuid = uuid, pd_version = version,
                pd_status = ''error'', pd_algorithm = [], pd_authenticated = False, pd_files = 0, pd_blob = [],
                pd_error = (case ev_error e of None \<Rightarrow> [] | Some x \<Rightarrow> ei_message x)\<rparr>
      | _ \<Rightarrow> None)"

definition visit_decryption :: "event \<Rightarrow> analysis \<Rightarrow> string + analysis" where
  "visit_decryption e a =
     (if ev_kind e = ''resource_pack.decrypted_archive''
      then (case unmarshal_with (decode_decrypted e) (ev_data e) of
              None \<Rightarrow> Inl ''decode resource pack decryption event''
            | Some p \<Rightarrow> Inr (a\<lparr>an_decryptions := an_decryptions a @ [p]\<rparr>))
      else if ev_kind e = ''resource_pack.decrypt_error''
      then (case unmarshal_with (decode_decrypt_error e) (ev_data e) of
              None \<Rightarrow> Inl ''decode resource pack decryption error event''
            | Some p \<Rightarrow> Inr (a\<lparr>an_decryptions := an_decryptions a @ [p]\<rparr>))
      else Inr a)"

text \<open>The visitor: the steps in the order of the source.\<close>

definition analyze_visit :: "analysis \<Rightarrow> event \<Rightarrow> string + analysis" where
  "analyze_visit a e =
     res_bind (visit_session e (count_stream e a)) (\<lambda>a1.
     res_bind (visit_pack e (visit_error e (count_artifact e (count_packet e a1)))) (\<lambda>a2.
       visit_decryption e a2))"

section \<open>The result\<close>

definition initial_protocol :: "manifest \<Rightarrow> protocol_info" where
  "initial_protocol m =
     (let vs = co_values (mf_options m); value = (\<lambda>k. case vs k of None \<Rightarrow> [] | Some v \<Rightarrow> v) in
      \<lparr>pr_configured_id = value ''protocol_id'', pr_configured_version = value ''game_version'',
       pr_downstream_id = 0, pr_downstream_version = [], pr_upstream_id = 0, pr_upstream_version = [],
       pr_downstream_data_version = [], pr_upstream_data_version = [], pr_data_version_match = None,
       pr_downstream_device_os = 0, pr_upstream_device_os = 0, pr_device_os_match = None,
       pr_pack_decrypt = (value ''decrypt_resource_packs'' = ''true'')\<rparr>)"

definition empty_session :: session_info where
  "empty_session = \<lparr>se_upstream_connected = False, se_negotiated = False, se_spawned = False, se_closed = False,
     se_connection_views = 0, se_game_data_views = 0, se_decoded = 0, se_unknown = 0, se_transport = 0,
     se_raw = 0, se_decode_errors = 0, se_errors = 0, se_view_errors = 0\<rparr>"

definition analyze_start :: "manifest \<Rightarrow> analysis" where
  "analyze_start m = \<lparr>an_session = empty_session, an_protocol = initial_protocol m, an_observed = 0, an_first = 0,
     an_last = 0, an_kinds = [], an_directions = [], an_channels = [], an_packets = [], an_errors = [],
     an_artifacts = [], an_packs = [], an_decryptions = []\<rparr>"

definition sorted_named_counts :: "(string \<times> u64) list \<Rightarrow> named_count list" where
  "sorted_named_counts m = map (\<lambda>(k, n). \<lparr>nc_name = k, nc_count = n\<rparr>) (sort_key fst m)"

fun packet_row :: "packet_key \<times> u64 \<Rightarrow> packet_count" where
  "packet_row (PacketKey d i n s, c) =
     \<lparr>pc_direction = d, pc_id = i, pc_name = n, pc_decode_status = s, pc_count = c\<rparr>"

definition sorted_packets :: "(packet_key \<times> u64) list \<Rightarrow> packet_count list" where
  "sorted_packets m = map packet_row (sort_key fst m)"

definition unique_bytes :: "(string \<times> int) list \<Rightarrow> u64" where
  "unique_bytes bs = sum_list (map (\<lambda>(_, n). if n > 0 then of_int n else 0) bs)"

definition artifact_row :: "string \<times> artifact_aggregate \<Rightarrow> artifact_count" where
  "artifact_row x = (case x of (repr, g) \<Rightarrow>
     \<lparr>ac_representation = repr, ac_references = aa_references g,
      ac_unique_blobs = of_nat (length (aa_blobs g)), ac_unique_bytes = unique_bytes (aa_blobs g)\<rparr>)"

definition sorted_artifacts :: "(string \<times> artifact_aggregate) list \<Rightarrow> artifact_count list" where
  "sorted_artifacts m = map artifact_row (sort_key fst m)"

definition sorted_errors :: "(error_key \<times> error_count) list \<Rightarrow> error_count list" where
  "sorted_errors m = sort_key (\<lambda>c. (er_first c, er_kind c)) (map snd m)"

definition analysis_summary :: "(issue \<Rightarrow> string) \<Rightarrow> verification \<Rightarrow> analysis \<Rightarrow> summary" where
  "analysis_summary show_issue v a =
     (let m = vf_manifest v; g = mf_generator m in
      \<lparr>su_schema = mf_schema m, su_capture_id = mf_capture_id m,
       su_build = \<lparr>bi_version = g_version g, bi_commit = g_commit g, bi_go_version = g_go_version g,
                   bi_goos = g_goos g, bi_goarch = g_goarch g\<rparr>,
       su_protocol = an_protocol a, su_session = an_session a, su_status = mf_status m,
       su_started_at = mf_started_at m, su_ended_at = mf_ended_at m,
       su_complete = cm_complete (mf_completeness m), su_limitations = cm_limitations (mf_completeness m),
       su_counts = mf_counts m, su_observed = an_observed a, su_first = an_first a, su_last = an_last a,
       su_kinds = sorted_named_counts (an_kinds a), su_directions = sorted_named_counts (an_directions a),
       su_channels = sorted_named_counts (an_channels a), su_packets = sorted_packets (an_packets a),
       su_artifacts = sorted_artifacts (an_artifacts a), su_packs = an_packs a,
       su_decryptions = an_decryptions a, su_errors = sorted_errors (an_errors a),
       su_issues = map show_issue (vf_issues v)\<rparr>)"

text \<open>\<^verbatim>\<open>Analyze\<close>; \<open>show_issue\<close> is the message of a verification issue.\<close>

definition analyze :: "(issue \<Rightarrow> string) \<Rightarrow> disk \<Rightarrow> verify_error + summary" where
  "analyze show_issue d =
     res_bind (verify d) (\<lambda>v.
     res_bind (scan_events analyze_visit (analyze_start (vf_manifest v)) d) (\<lambda>a.
       Inr (analysis_summary show_issue v a)))"

section \<open>Explanation\<close>

text \<open>\<^verbatim>\<open>sanitizeInline\<close>: a text for a Markdown code span.\<close>

abbreviation tick :: char where "tick \<equiv> CHR 0x60"
abbreviation newline :: char where "newline \<equiv> CHR 0x0A"
abbreviation return :: char where "return \<equiv> CHR 0x0D"

definition sanitize_inline :: "string \<Rightarrow> string" where
  "sanitize_inline s = replace_char newline '' '' (replace_char return '' '' (replace_char tick [CHR 0x27] s))"

definition span :: "string \<Rightarrow> string" where
  "span s = tick # sanitize_inline s @ [tick]"

definition show_bool :: "bool \<Rightarrow> string" where
  "show_bool b = tick # (if b then ''true'' else ''false'') @ [tick]"

definition plain_bool :: "bool \<Rightarrow> string" where
  "plain_bool b = (if b then ''true'' else ''false'')"

definition show_u64 :: "u64 \<Rightarrow> string" where "show_u64 n = itoa (unat n)"

definition show_length :: "'a list \<Rightarrow> string" where "show_length xs = itoa (length xs)"

definition heading :: "string \<Rightarrow> string" where
  "heading s = ''## '' @ s @ [newline, newline]"

definition bullet :: "string \<Rightarrow> string" where
  "bullet s = ''- '' @ s @ [newline]"

definition paragraph_text :: "string \<Rightarrow> string" where
  "paragraph_text s = s @ [newline, newline]"

definition explain_intro :: "summary \<Rightarrow> string" where
  "explain_intro s =
     paragraph_text ''# BedrockDebugProxy capture explanation''
     @ paragraph_text (''Capture '' @ span (su_capture_id s) @ '' uses schema '' @ span (su_schema s)
         @ '' and has status '' @ span (su_status s) @ ''. It contains '' @ show_u64 (su_observed s)
         @ '' observed events from sequence '' @ show_u64 (su_first s) @ '' through '' @ show_u64 (su_last s) @ ''.'')
     @ (if bi_commit (su_build s) = [] then []
        else paragraph_text (''The capture was produced by revision '' @ span (bi_commit (su_build s)) @ '' version ''
          @ span (bi_version (su_build s)) @ '' on '' @ [tick] @ sanitize_inline (bi_goos (su_build s)) @ ''/''
          @ sanitize_inline (bi_goarch (su_build s)) @ [tick] @ ''.''))"

definition explain_integrity :: "summary \<Rightarrow> string" where
  "explain_integrity s =
     heading ''Integrity and completeness''
     @ (if su_issues s = []
        then paragraph_text ''The capture verifier found no event ordering, manifest count, blob path, size, or SHA-256 integrity issues.''
        else paragraph_text (''The capture verifier found '' @ show_length (su_issues s)
               @ '' issue(s). Treat conclusions as provisional.'')
             @ concat (map (\<lambda>i. bullet (span i)) (su_issues s)) @ [newline])
     @ (if su_complete s then paragraph_text ''The manifest marks the capture complete.''
        else paragraph_text ''The manifest marks the capture incomplete or limited.'')
     @ (if su_limitations s = [] then []
        else concat (map (\<lambda>l. bullet (span l)) (su_limitations s)) @ [newline])"

definition explain_traffic :: "summary \<Rightarrow> string" where
  "explain_traffic s =
     (let x = su_session s in
      heading ''Traffic''
      @ paragraph_text (''Session evidence reports upstream connected '' @ show_bool (se_upstream_connected x)
          @ '', negotiated '' @ show_bool (se_negotiated x) @ '', spawned '' @ show_bool (se_spawned x)
          @ '', and closed '' @ show_bool (se_closed x) @ ''. It retained '' @ show_u64 (se_raw x)
          @ '' raw packet event(s), '' @ show_u64 (se_transport x) @ '' transport payload event(s), and ''
          @ show_u64 (se_decoded x) @ '' decoded packet event(s).'')
      @ concat (map (\<lambda>d. bullet (span (nc_name d) @ '' has '' @ show_u64 (nc_count d) @ '' event(s)'')) (su_directions s))
      @ [newline]
      @ (if su_packets s = [] then paragraph_text ''No packet metadata events were found.''
         else paragraph_text (''The capture contains '' @ show_length (su_packets s)
           @ '' distinct packet ID, direction, name, and decode-status combinations.'')))"

definition pack_line :: "pack_info \<Rightarrow> string" where
  "pack_line p = bullet (span (pk_name p) @ '' version '' @ span (pk_version p) @ '' UUID '' @ span (pk_uuid p)
     @ '' has '' @ itoa_int (pk_archive_bytes p) @ '' archive bytes via '' @ span (pk_delivery p)
     @ ''. Encrypted is '' @ plain_bool (pk_encrypted p) @ '' and content key retained is ''
     @ plain_bool (pk_has_key p) @ ''.'')"

definition decryption_line :: "pack_decryption \<Rightarrow> string" where
  "decryption_line p =
     (if pd_status p = ''decrypted''
      then bullet (''Derived archive for UUID '' @ span (pd_uuid p) @ '' decrypted '' @ itoa_int (pd_files p)
        @ '' file(s) with '' @ span (pd_algorithm p) @ ''. Authenticated plaintext is ''
        @ plain_bool (pd_authenticated p) @ ''.'')
      else bullet (''Derived decryption for UUID '' @ span (pd_uuid p)
        @ '' failed and the original archive remains available''
        @ (if pd_error p = [] then [] else '' with error '' @ span (pd_error p)) @ ''.''))"

definition explain_packs :: "summary \<Rightarrow> string" where
  "explain_packs s =
     heading ''Resource packs''
     @ (if su_packs s = [] then paragraph_text ''No reconstructed resource-pack archive events were found.''
        else concat (map pack_line (su_packs s)) @ concat (map decryption_line (su_decryptions s)) @ [newline])"

definition error_line :: "error_count \<Rightarrow> string" where
  "error_line c = bullet (span (er_kind c) @ '' occurred '' @ show_u64 (er_count c) @ '' time(s) from sequence ''
     @ show_u64 (er_first c) @ '' through '' @ show_u64 (er_last c)
     @ (if er_message c = [] then [] else '' with message '' @ span (er_message c)) @ ''.'')"

definition explain_errors :: "summary \<Rightarrow> string" where
  "explain_errors s =
     heading ''Errors''
     @ (if su_errors s = [] then paragraph_text ''No error-severity or structured error events were found.''
        else concat (map error_line (su_errors s)) @ [newline])
     @ ''Capture integrity does not by itself prove compatibility with a real Minecraft client or every Bedrock server implementation. Compare packet sequences and failures with the named server flow used during collection.''
     @ [newline]"

definition explain :: "summary \<Rightarrow> string" where
  "explain s = explain_intro s @ explain_integrity s @ explain_traffic s @ explain_packs s @ explain_errors s"

end
