(* ===== verification/Analysis_Theorems.thy ===== *)
theory Analysis_Theorems
  imports Analysis Capture_Theorems "HOL-Library.Multiset"
begin

text \<open>
  The numbers of an analysis are those of the event stream, and the layout of an explanation does
  not depend on the texts the capture holds.
\<close>

section \<open>Tallies\<close>

text \<open>An association list counts the events per key, modulo the 64 bits of the counter.\<close>

definition tallied :: "(event \<Rightarrow> 'k option) \<Rightarrow> event list \<Rightarrow> ('k \<times> u64) list \<Rightarrow> bool" where
  "tallied key es m \<longleftrightarrow> distinct (map fst m)
     \<and> (\<forall>k. map_of m k = (let n = length (filter (\<lambda>e. key e = Some k) es) in if n = 0 then None else Some (of_nat n)))"

lemma tallied_Nil [simp]: "tallied key [] []"
  by (simp add: tallied_def)

lemma tallied_skip: "tallied key es m \<Longrightarrow> key e = None \<Longrightarrow> tallied key (es @ [e]) m"
  by (simp add: tallied_def)

lemma tallied_bump:
  assumes "tallied key es m" "key e = Some k"
  shows "tallied key (es @ [e]) (bump k m)"
  using assms distinct_upsert by (auto simp: tallied_def map_of_upsert Let_def add.commute)

lemma sorted_keys:
  assumes "distinct (map fst m)"
  shows "sorted_wrt (<) (map fst (sort_key fst m))" "set (sort_key fst m) = set m"
proof -
  have "mset (map fst (sort_key fst m)) = mset (map fst m)" by simp
  then have "distinct (map fst (sort_key fst m))" using assms mset_eq_imp_distinct_iff by blast
  then show "sorted_wrt (<) (map fst (sort_key fst m))" by (simp add: strict_sorted_iff)
qed simp

definition occurrences :: "('e \<Rightarrow> 'k option) \<Rightarrow> 'k \<Rightarrow> 'e list \<Rightarrow> nat" where
  "occurrences key k es = length (filter (\<lambda>e. key e = Some k) es)"

definition exact_table :: "('r \<Rightarrow> 'k::linorder) \<Rightarrow> ('r \<Rightarrow> u64) \<Rightarrow> (event \<Rightarrow> 'k option) \<Rightarrow> event list \<Rightarrow> 'r list \<Rightarrow> bool" where
  "exact_table name number key es rows \<longleftrightarrow> sorted_wrt (<) (map name rows)
     \<and> (\<forall>k n. (k, n) \<in> (\<lambda>r. (name r, number r)) ` set rows \<longleftrightarrow> 0 < occurrences key k es \<and> n = of_nat (occurrences key k es))"

lemma tallied_member:
  assumes "tallied key es m"
  shows "(k, n) \<in> set m \<longleftrightarrow> 0 < occurrences key k es \<and> n = of_nat (occurrences key k es)"
proof -
  have "distinct (map fst m)" using assms unfolding tallied_def by blast
  then have "(k, n) \<in> set m \<longleftrightarrow> map_of m k = Some n" by simp
  also have "map_of m k = (if occurrences key k es = 0 then None else Some (of_nat (occurrences key k es)))"
    using assms unfolding tallied_def occurrences_def Let_def by blast
  finally show ?thesis by auto
qed

lemma tallied_table:
  assumes t: "tallied key es m" and r: "\<And>x. name (row x) = fst x" "\<And>x. number (row x) = snd x"
  shows "exact_table name number key es (map row (sort_key fst m))"
proof -
  have d: "distinct (map fst m)" using t by (simp add: tallied_def)
  have "(\<lambda>r. (name r, number r)) ` set (map row (sort_key fst m)) = set m"
    using sorted_keys(2) [OF d] r by (simp add: image_image)
  moreover have "map name (map row (sort_key fst m)) = map fst (sort_key fst m)" using r by simp
  ultimately show ?thesis using sorted_keys(1) [OF d] tallied_member [OF t] unfolding exact_table_def by (metis (no_types, lifting))
qed

section \<open>Error groups and artifacts\<close>

definition errors_of :: "error_key \<Rightarrow> event list \<Rightarrow> event list" where
  "errors_of k es = filter (\<lambda>e. is_error_event e \<and> event_error_key e = k) es"

definition error_group :: "error_key \<Rightarrow> event list \<Rightarrow> error_count" where
  "error_group k xs = \<lparr>er_kind = ek_kind k, er_operation = ek_operation k, er_type = ek_type k,
     er_message = ek_message k, er_best_effort = ek_best_effort k, er_count = of_nat (length xs),
     er_first = ev_sequence (hd xs), er_last = ev_sequence (last xs)\<rparr>"

definition errors_grouped :: "event list \<Rightarrow> (error_key \<times> error_count) list \<Rightarrow> bool" where
  "errors_grouped es m \<longleftrightarrow> distinct (map fst m)
     \<and> (\<forall>k. map_of m k = (if errors_of k es = [] then None else Some (error_group k (errors_of k es))))"

lemma errors_of_snoc:
  "errors_of k (es @ [e]) = errors_of k es @ (if is_error_event e \<and> event_error_key e = k then [e] else [])"
  by (simp add: errors_of_def)

lemma errors_grouped_step:
  assumes "errors_grouped es m" "is_error_event e"
  shows "errors_grouped (es @ [e]) (upsert (event_error_key e)
     (again_error (ev_sequence e) (new_error (event_error_key e) (ev_sequence e))) (again_error (ev_sequence e)) m)"
  using assms distinct_upsert
  by (auto simp: errors_grouped_def map_of_upsert errors_of_snoc error_group_def again_error_def new_error_def add.commute)

definition refs_of :: "string \<Rightarrow> event list \<Rightarrow> blob_ref list" where
  "refs_of repr es = filter (\<lambda>ref. br_representation ref = repr)
     (concat (map (\<lambda>e. case ev_blob e of None \<Rightarrow> [] | Some ref \<Rightarrow> [ref]) es))"

text \<open>The aggregate of a list of references: their number, and per digest the last stated size.\<close>

definition aggregate_of :: "blob_ref list \<Rightarrow> artifact_aggregate \<Rightarrow> bool" where
  "aggregate_of refs g \<longleftrightarrow> aa_references g = of_nat (length refs) \<and> distinct (map fst (aa_blobs g))
     \<and> (\<forall>h. map_of (aa_blobs g) h = (let xs = filter (\<lambda>ref. br_sha256 ref = h) refs
            in if xs = [] then None else Some (br_size (last xs))))"

definition artifacts_grouped :: "event list \<Rightarrow> (string \<times> artifact_aggregate) list \<Rightarrow> bool" where
  "artifacts_grouped es m \<longleftrightarrow> distinct (map fst m)
     \<and> (\<forall>repr. map_of m repr = None \<longleftrightarrow> refs_of repr es = [])
     \<and> (\<forall>repr g. map_of m repr = Some g \<longrightarrow> aggregate_of (refs_of repr es) g)"

lemma refs_of_snoc:
  "refs_of repr (es @ [e]) = refs_of repr es @
     (case ev_blob e of None \<Rightarrow> [] | Some ref \<Rightarrow> if br_representation ref = repr then [ref] else [])"
  by (simp add: refs_of_def split: option.splits)

lemma aggregate_step:
  assumes "aggregate_of refs g"
  shows "aggregate_of (refs @ [ref]) (add_reference ref g)"
proof -
  let ?u = "upsert (br_sha256 ref) (br_size ref) (\<lambda>_. br_size ref) (aa_blobs g)"
  have "map_of ?u h = (let xs = filter (\<lambda>x. br_sha256 x = h) (refs @ [ref])
      in if xs = [] then None else Some (br_size (last xs)))" for h
    using assms by (cases "h = br_sha256 ref") (simp_all add: aggregate_of_def map_of_upsert Let_def split: option.splits)
  moreover have "distinct (map fst (aa_blobs g))" "aa_references g = of_nat (length refs)"
    using assms unfolding aggregate_of_def by blast+
  ultimately show ?thesis
    using distinct_upsert [of "aa_blobs g"] unfolding aggregate_of_def add_reference_def by (simp add: add.commute)
qed

lemma aggregate_new: "aggregate_of [] new_aggregate"
  by (simp add: aggregate_of_def new_aggregate_def)

lemma artifacts_step:
  assumes g: "artifacts_grouped es m" and e: "ev_blob e = Some ref"
  shows "artifacts_grouped (es @ [e]) (upsert (br_representation ref) (add_reference ref new_aggregate) (add_reference ref) m)"
proof -
  let ?r = "br_representation ref"
  let ?m = "upsert ?r (add_reference ref new_aggregate) (add_reference ref) m"
  have d: "distinct (map fst m)" and none: "\<And>repr. map_of m repr = None \<longleftrightarrow> refs_of repr es = []"
    and some: "\<And>repr g. map_of m repr = Some g \<Longrightarrow> aggregate_of (refs_of repr es) g"
    using g unfolding artifacts_grouped_def by blast+
  have "map_of ?m repr = None \<longleftrightarrow> refs_of repr (es @ [e]) = []" for repr
    using none [of repr] by (simp add: map_of_upsert refs_of_snoc e)
  moreover have "aggregate_of (refs_of repr (es @ [e])) x" if x: "map_of ?m repr = Some x" for repr x
  proof (cases "repr = ?r")
    case False
    then show ?thesis using x some [of repr x] by (simp add: map_of_upsert refs_of_snoc e)
  next
    case True
    have new: "refs_of repr (es @ [e]) = refs_of ?r es @ [ref]" by (simp add: refs_of_snoc e True)
    show ?thesis
    proof (cases "map_of m ?r")
      case None
      then have "refs_of ?r es = []" "x = add_reference ref new_aggregate"
        using none x True None by (simp_all add: map_of_upsert)
      then show ?thesis using aggregate_step [OF aggregate_new, of ref] new by simp
    next
      case (Some y)
      then have "x = add_reference ref y" using x True by (simp add: map_of_upsert)
      then show ?thesis using aggregate_step [OF some [OF Some], of ref] new by simp
    qed
  qed
  ultimately show ?thesis using distinct_upsert [OF d] unfolding artifacts_grouped_def by blast
qed

lemma artifacts_skip: "artifacts_grouped es m \<Longrightarrow> ev_blob e = None \<Longrightarrow> artifacts_grouped (es @ [e]) m"
  by (simp add: artifacts_grouped_def refs_of_snoc)

section \<open>The visitor, step by step\<close>

lemma visit_session_result:
  "visit_session e a = Inr a' \<Longrightarrow> \<exists>p. a' = a\<lparr>an_session := count_session (ev_kind e) (an_session a), an_protocol := p\<rparr>"
  by (auto simp: visit_session_def Let_def split: if_splits option.splits)
    (metis analysis.surjective analysis.update_convs(1,2))

lemma visit_pack_result:
  "visit_pack e a = Inr a' \<Longrightarrow> \<exists>ps. a' = a\<lparr>an_packs := an_packs a @ ps\<rparr>
     \<and> map pk_sequence ps = (if ev_kind e = ''resource_pack.archive'' then [ev_sequence e] else [])"
proof -
  assume v: "visit_pack e a = Inr a'"
  have "pk_sequence p = ev_sequence e" if "unmarshal_with (decode_pack e) (ev_data e) = Some p" for p
    using that by (auto simp: unmarshal_with_def decode_pack_def split: option.splits)
  then show ?thesis using v
    by (auto simp: visit_pack_def split: if_splits option.splits intro: exI [of _ "[]"] exI [of _ "[_]"])
qed

lemma visit_decryption_result:
  "visit_decryption e a = Inr a' \<Longrightarrow> \<exists>ds. a' = a\<lparr>an_decryptions := an_decryptions a @ ds\<rparr>"
  by (auto simp: visit_decryption_def split: if_splits option.splits intro: exI [of _ "[]"])

section \<open>The audit\<close>

definition with_kind :: "string \<Rightarrow> event list \<Rightarrow> nat" where
  "with_kind k es = length (filter (\<lambda>e. ev_kind e = k) es)"

definition session_of :: "event list \<Rightarrow> session_info" where
  "session_of es =
     \<lparr>se_upstream_connected = (0 < with_kind ''upstream.connected'' es),
      se_negotiated = (0 < with_kind ''session.negotiated'' es), se_spawned = (0 < with_kind ''session.spawned'' es),
      se_closed = (0 < with_kind ''session.close'' es),
      se_connection_views = of_nat (with_kind ''session.connection_metadata'' es),
      se_game_data_views = of_nat (with_kind ''session.game_data'' es),
      se_decoded = of_nat (with_kind ''packet.decoded'' es), se_unknown = of_nat (with_kind ''packet.unknown'' es),
      se_transport = of_nat (with_kind ''transport.payload'' es), se_raw = of_nat (with_kind ''packet.raw'' es),
      se_decode_errors = of_nat (with_kind ''packet.decode_error'' es),
      se_errors = of_nat (length (filter is_error_event es)),
      se_view_errors = of_nat (with_kind ''capture.view_error'' es)\<rparr>"

fun first_nonzero :: "u64 list \<Rightarrow> u64" where
  "first_nonzero [] = 0"
| "first_nonzero (x # xs) = (if x = 0 then first_nonzero xs else x)"

lemma first_nonzero_snoc: "first_nonzero (xs @ [x]) = (if first_nonzero xs = 0 then x else first_nonzero xs)"
  by (induction xs) auto

definition stream_counted :: "event list \<Rightarrow> analysis \<Rightarrow> bool" where
  "stream_counted es a \<longleftrightarrow> an_observed a = of_nat (length es)
     \<and> an_first a = first_nonzero (map ev_sequence es)
     \<and> an_last a = (if es = [] then 0 else ev_sequence (last es))
     \<and> tallied (\<lambda>e. Some (ev_kind e)) es (an_kinds a) \<and> tallied (\<lambda>e. Some (ev_direction e)) es (an_directions a)
     \<and> tallied (\<lambda>e. Some (ev_channel e)) es (an_channels a)"

definition analysed :: "event list \<Rightarrow> analysis \<Rightarrow> bool" where
  "analysed es a \<longleftrightarrow> stream_counted es a \<and> an_session a = session_of es \<and> tallied event_packet_key es (an_packets a)
     \<and> errors_grouped es (an_errors a) \<and> artifacts_grouped es (an_artifacts a)
     \<and> map pk_sequence (an_packs a) = map ev_sequence (filter (\<lambda>e. ev_kind e = ''resource_pack.archive'') es)"

lemma stream_counted_step: "stream_counted es a \<Longrightarrow> stream_counted (es @ [e]) (count_stream e a)"
  unfolding stream_counted_def count_stream_def
  by (simp add: tallied_bump first_nonzero_snoc add.commute)

lemma stream_counted_frame:
  assumes "stream_counted es a" "an_observed b = an_observed a" "an_first b = an_first a" "an_last b = an_last a"
    "an_kinds b = an_kinds a" "an_directions b = an_directions a" "an_channels b = an_channels a"
  shows "stream_counted es b"
  using assms by (simp add: stream_counted_def)

lemma count_session_flags:
  "se_upstream_connected (count_session k s) = (k = ''upstream.connected'' \<or> se_upstream_connected s)"
  "se_negotiated (count_session k s) = (k = ''session.negotiated'' \<or> se_negotiated s)"
  "se_spawned (count_session k s) = (k = ''session.spawned'' \<or> se_spawned s)"
  "se_closed (count_session k s) = (k = ''session.close'' \<or> se_closed s)"
  by (simp_all add: count_session_def)

lemma count_session_counts:
  "se_connection_views (count_session k s) = se_connection_views s + (if k = ''session.connection_metadata'' then 1 else 0)"
  "se_game_data_views (count_session k s) = se_game_data_views s + (if k = ''session.game_data'' then 1 else 0)"
  "se_decoded (count_session k s) = se_decoded s + (if k = ''packet.decoded'' then 1 else 0)"
  "se_unknown (count_session k s) = se_unknown s + (if k = ''packet.unknown'' then 1 else 0)"
  "se_transport (count_session k s) = se_transport s + (if k = ''transport.payload'' then 1 else 0)"
  "se_raw (count_session k s) = se_raw s + (if k = ''packet.raw'' then 1 else 0)"
  "se_decode_errors (count_session k s) = se_decode_errors s + (if k = ''packet.decode_error'' then 1 else 0)"
  "se_view_errors (count_session k s) = se_view_errors s + (if k = ''capture.view_error'' then 1 else 0)"
  "se_errors (count_session k s) = se_errors s"
  by (simp_all add: count_session_def)

lemma with_kind_snoc: "with_kind k (es @ [e]) = with_kind k es + (if ev_kind e = k then 1 else 0)"
  by (simp add: with_kind_def)

lemma session_eqI:
  assumes "se_upstream_connected a = se_upstream_connected b" "se_negotiated a = se_negotiated b"
    "se_spawned a = se_spawned b" "se_closed a = se_closed b" "se_connection_views a = se_connection_views b"
    "se_game_data_views a = se_game_data_views b" "se_decoded a = se_decoded b" "se_unknown a = se_unknown b"
    "se_transport a = se_transport b" "se_raw a = se_raw b" "se_decode_errors a = se_decode_errors b"
    "se_errors a = se_errors b" "se_view_errors a = (se_view_errors b :: u64)"
  shows "a = (b :: session_info)"
  using assms by simp

definition count_errors :: "event \<Rightarrow> session_info \<Rightarrow> session_info" where
  "count_errors e s = s\<lparr>se_errors := se_errors s + (if is_error_event e then 1 else 0)\<rparr>"

lemma session_step: "count_errors e (count_session (ev_kind e) (session_of es)) = session_of (es @ [e])"
  by (rule session_eqI)
    (auto simp: count_errors_def count_session_flags count_session_counts session_of_def with_kind_snoc add.commute)

text \<open>The fields of the state after one event.\<close>

lemma sub_steps:
  "count_packet e x = x\<lparr>an_packets := an_packets (count_packet e x)\<rparr>"
  "count_artifact e x = x\<lparr>an_artifacts := an_artifacts (count_artifact e x)\<rparr>"
  "visit_error e x = x\<lparr>an_session := count_errors e (an_session x), an_errors := an_errors (visit_error e x)\<rparr>"
  by (simp_all add: count_packet_def count_artifact_def visit_error_def count_errors_def Let_def split: option.splits)

lemma sub_step_fields:
  "an_packets x = an_packets y \<Longrightarrow> an_packets (count_packet e x) = an_packets (count_packet e y)"
  "an_artifacts x = an_artifacts y \<Longrightarrow> an_artifacts (count_artifact e x) = an_artifacts (count_artifact e y)"
  "an_errors x = an_errors y \<Longrightarrow> an_errors (visit_error e x) = an_errors (visit_error e y)"
  by (simp_all add: count_packet_def count_artifact_def visit_error_def Let_def split: option.splits)

lemma analyze_visit_result:
  assumes "analyze_visit a e = Inr a'"
  shows "\<exists>p ps ds. a' = (count_stream e a)\<lparr>an_session := count_errors e (count_session (ev_kind e) (an_session a)),
      an_protocol := p, an_packets := an_packets (count_packet e a), an_artifacts := an_artifacts (count_artifact e a),
      an_errors := an_errors (visit_error e a), an_packs := an_packs a @ ps, an_decryptions := ds\<rparr>
    \<and> map pk_sequence ps = (if ev_kind e = ''resource_pack.archive'' then [ev_sequence e] else [])"
proof -
  let ?s = "count_stream e a"
  obtain a1 a2 where v: "visit_session e ?s = Inr a1"
    "visit_pack e (visit_error e (count_artifact e (count_packet e a1))) = Inr a2" "visit_decryption e a2 = Inr a'"
    using assms by (auto simp: analyze_visit_def result_simps)
  obtain p where a1: "a1 = ?s\<lparr>an_session := count_session (ev_kind e) (an_session ?s), an_protocol := p\<rparr>"
    using visit_session_result [OF v(1)] by blast
  define b where "b = count_packet e a1"
  define c where "c = count_artifact e b"
  define x where "x = visit_error e c"
  obtain ps where a2: "a2 = x\<lparr>an_packs := an_packs x @ ps\<rparr>"
    "map pk_sequence ps = (if ev_kind e = ''resource_pack.archive'' then [ev_sequence e] else [])"
    using visit_pack_result [OF v(2)] unfolding x_def c_def b_def by blast
  obtain ds where a': "a' = a2\<lparr>an_decryptions := an_decryptions a2 @ ds\<rparr>"
    using visit_decryption_result [OF v(3)] by blast
  have s: "an_packets ?s = an_packets a" "an_artifacts ?s = an_artifacts a" "an_errors ?s = an_errors a"
    "an_session ?s = an_session a" "an_packs ?s = an_packs a" by (simp_all add: count_stream_def)
  have b: "b = a1\<lparr>an_packets := an_packets (count_packet e a)\<rparr>"
    using sub_steps(1) [of e a1] sub_step_fields(1) [of a1 a e] a1 s unfolding b_def by simp
  have c: "c = b\<lparr>an_artifacts := an_artifacts (count_artifact e a)\<rparr>"
    using sub_steps(2) [of e b] sub_step_fields(2) [of b a e] a1 b s unfolding c_def by simp
  have x: "x = c\<lparr>an_session := count_errors e (an_session c), an_errors := an_errors (visit_error e a)\<rparr>"
    using sub_steps(3) [of e c] sub_step_fields(3) [of c a e] a1 b c s unfolding x_def by simp
  have "a' = (?s)\<lparr>an_session := count_errors e (count_session (ev_kind e) (an_session a)),
      an_protocol := p, an_packets := an_packets (count_packet e a), an_artifacts := an_artifacts (count_artifact e a),
      an_errors := an_errors (visit_error e a), an_packs := an_packs a @ ps, an_decryptions := an_decryptions a2 @ ds\<rparr>"
    unfolding a' a2(1) x c b a1 by (simp add: s)
  then show ?thesis using a2(2) by blast
qed

lemma analysed_visit:
  assumes a: "analysed es a" and v: "analyze_visit a e = Inr a'"
  shows "analysed (es @ [e]) a'"
proof -
  obtain p ps ds where r: "a' = (count_stream e a)\<lparr>an_session := count_errors e (count_session (ev_kind e) (an_session a)),
      an_protocol := p, an_packets := an_packets (count_packet e a), an_artifacts := an_artifacts (count_artifact e a),
      an_errors := an_errors (visit_error e a), an_packs := an_packs a @ ps, an_decryptions := ds\<rparr>"
    and ps: "map pk_sequence ps = (if ev_kind e = ''resource_pack.archive'' then [ev_sequence e] else [])"
    using analyze_visit_result [OF v] by blast
  have "stream_counted (es @ [e]) a'"
    using stream_counted_frame [OF stream_counted_step [of es a e], of a'] a unfolding r analysed_def by simp
  moreover have "an_session a' = session_of (es @ [e])"
    using a session_step [of e es] unfolding r analysed_def by simp
  moreover have "tallied event_packet_key (es @ [e]) (an_packets a')"
    using a tallied_skip [of event_packet_key] tallied_bump [of event_packet_key] unfolding r analysed_def
    by (simp add: count_packet_def split: option.splits)
  moreover have "errors_grouped (es @ [e]) (an_errors a')"
  proof (cases "is_error_event e")
    case True
    then show ?thesis using a errors_grouped_step unfolding r analysed_def by (simp add: visit_error_def Let_def)
  next
    case False
    then show ?thesis using a unfolding r analysed_def by (simp add: visit_error_def errors_grouped_def errors_of_snoc)
  qed
  moreover have "artifacts_grouped (es @ [e]) (an_artifacts a')"
    using a artifacts_skip artifacts_step unfolding r analysed_def by (simp add: count_artifact_def split: option.splits)
  moreover have "map pk_sequence (an_packs a') = map ev_sequence (filter (\<lambda>e. ev_kind e = ''resource_pack.archive'') (es @ [e]))"
    using a ps unfolding r analysed_def by simp
  ultimately show ?thesis unfolding analysed_def by blast
qed

interpretation analyser: stream_audit analyze_visit analysed
  by unfold_locales (rule analysed_visit)

lemma analysed_start: "analysed [] (analyze_start m)"
  by (simp add: analysed_def stream_counted_def analyze_start_def session_of_def empty_session_def with_kind_def
      errors_grouped_def errors_of_def artifacts_grouped_def refs_of_def)

lemma analyzeD:
  assumes "analyze sh d = Inr s"
  shows "\<exists>v a es. verify d = Inr v \<and> s = analysis_summary sh v a \<and> dk_lines d = map EventLine es \<and> \<not> dk_torn d
    \<and> analysed es a"
proof -
  obtain v a where v: "verify d = Inr v" "scan_events analyze_visit (analyze_start (vf_manifest v)) d = Inr a"
    "s = analysis_summary sh v a"
    using assms by (auto simp: analyze_def result_simps)
  show ?thesis using analyser.scan_events_audit [OF analysed_start v(2)] v by metis
qed

section \<open>The tables of the summary\<close>

lemma packet_row_key:
  "PacketKey (pc_direction (packet_row x)) (pc_id (packet_row x)) (pc_name (packet_row x)) (pc_decode_status (packet_row x)) = fst x"
  "pc_count (packet_row x) = snd x"
  by (cases x rule: packet_row.cases; simp)+

text \<open>
  C12. The tables of a summary count the event stream exactly: one row per event kind, direction and
  channel that occurs and per packet identity, in strictly ascending order of the key, with the
  number of events that have it (modulo the 64 bits of the counters); the number of observed events,
  the last sequence, the session flags and counters, and one resource pack row per archive event in
  stream order agree with the stream as well.
\<close>

theorem analysis_counts:
  assumes "analyze sh d = Inr s"
  shows "\<exists>es. dk_lines d = map EventLine es \<and> su_observed s = of_nat (length es) \<and> su_session s = session_of es
    \<and> (es \<noteq> [] \<longrightarrow> su_last s = ev_sequence (last es))
    \<and> exact_table nc_name nc_count (\<lambda>e. Some (ev_kind e)) es (su_kinds s)
    \<and> exact_table nc_name nc_count (\<lambda>e. Some (ev_direction e)) es (su_directions s)
    \<and> exact_table nc_name nc_count (\<lambda>e. Some (ev_channel e)) es (su_channels s)
    \<and> exact_table (\<lambda>r. PacketKey (pc_direction r) (pc_id r) (pc_name r) (pc_decode_status r)) pc_count
        event_packet_key es (su_packets s)
    \<and> map pk_sequence (su_packs s) = map ev_sequence (filter (\<lambda>e. ev_kind e = ''resource_pack.archive'') es)"
proof -
  obtain v a es where s: "s = analysis_summary sh v a" and ln: "dk_lines d = map EventLine es" and an: "analysed es a"
    using analyzeD [OF assms] by blast
  have c: "an_observed a = of_nat (length es)" "an_last a = (if es = [] then 0 else ev_sequence (last es))"
    "tallied (\<lambda>e. Some (ev_kind e)) es (an_kinds a)" "tallied (\<lambda>e. Some (ev_direction e)) es (an_directions a)"
    "tallied (\<lambda>e. Some (ev_channel e)) es (an_channels a)" "an_session a = session_of es"
    "tallied event_packet_key es (an_packets a)"
    "map pk_sequence (an_packs a) = map ev_sequence (filter (\<lambda>e. ev_kind e = ''resource_pack.archive'') es)"
    using an unfolding analysed_def stream_counted_def by blast+
  have named: "exact_table nc_name nc_count key es (sorted_named_counts m)" if "tallied key es m" for key m
    unfolding sorted_named_counts_def by (rule tallied_table [OF that]) (simp_all add: split_beta)
  show ?thesis
    using ln c(1,2,6,8) named [OF c(3)] named [OF c(4)] named [OF c(5)]
      tallied_table [OF c(7), of "\<lambda>r. PacketKey (pc_direction r) (pc_id r) (pc_name r) (pc_decode_status r)" packet_row pc_count,
        OF packet_row_key]
    unfolding s by (intro exI [of _ es]) (simp add: analysis_summary_def Let_def sorted_packets_def)
qed

text \<open>The analysis of the capture of the concrete run.\<close>

lemma demo_closed_disk: "dk_lines (rd_disk demo_closed) = [EventLine demo_event]" "\<not> dk_torn (rd_disk demo_closed)"
proof -
  have s: "dk_lines (rd_disk demo_idle) = [EventLine demo_event]" "\<not> dk_torn (rd_disk demo_idle)"
    by (simp_all add: demo_idle_def demo_written_def complete_pending_def)
      (simp_all add: demo_sent_def demo_taken_def demo_start_def)
  then show "dk_lines (rd_disk demo_closed) = [EventLine demo_event]" "\<not> dk_torn (rd_disk demo_closed)"
    by (simp_all add: demo_closed_def write_manifest_def)
qed

lemma demo_closed_verifies: "\<exists>v. verify (rd_disk demo_closed) = Inr v"
proof -
  obtain root r0 where n: "new_recorder root demo_options demo_env = Inr r0" and rn: "rrun r0 demo_labels demo_idle"
    and inj: "inj_on hex_digest (run_payloads demo_labels)"
    and inv: "rec_inv (run_payloads demo_labels) (accepted demo_labels) demo_idle"
    using run_ofE [OF demo_run_of] .
  have "rd_failed demo_idle = None" by simp
  note c = closed_state [OF inv this run_layout [OF n rn] demo_finish]
  then show ?thesis
    using committed_verifies [OF finite_run inj, of demo_closed] by (auto simp: total_length_def demo_payload_def)
qed

lemma demo_analyzed: "\<exists>s. analyze (\<lambda>_. []) (rd_disk demo_closed) = Inr s"
proof -
  have "ev_kind demo_event = ''packet''" "ev_data demo_event = None"
    by (simp_all add: demo_event_def stamp_event_def empty_event_def)
  then have visit: "\<exists>a'. analyze_visit a demo_event = Inr a'" for a
    by (simp add: analyze_visit_def visit_session_def visit_pack_def visit_decryption_def Let_def)
  obtain v where v: "verify (rd_disk demo_closed) = Inr v" using demo_closed_verifies by blast
  obtain a where "analyze_visit (analyze_start (vf_manifest v)) demo_event = Inr a" using visit by blast
  then show ?thesis using v demo_closed_disk by (simp add: analyze_def scan_events_def)
qed

theorem analysis_counts_witness: "\<exists>s. analyze (\<lambda>_. []) (rd_disk demo_closed) = Inr s \<and> su_observed s = 1"
proof -
  obtain s where s: "analyze (\<lambda>_. []) (rd_disk demo_closed) = Inr s" using demo_analyzed by blast
  obtain es where "dk_lines (rd_disk demo_closed) = map EventLine es" "su_observed s = of_nat (length es)"
    using analysis_counts [OF s] by blast
  then have "su_observed s = of_nat (length (dk_lines (rd_disk demo_closed)))" by simp
  then show ?thesis using s by (simp add: demo_closed_disk)
qed

lemma grouped_values:
  assumes "distinct (map fst m)" "\<And>k. k \<in> set (map fst m) \<Longrightarrow> map_of m k = Some (f k)"
  shows "mset (map snd m) = image_mset f (mset_set (set (map fst m)))"
proof -
  have "snd x = f (fst x)" if "x \<in> set m" for x
  proof -
    have "map_of m (fst x) = Some (snd x)" using assms(1) that by simp
    moreover have "map_of m (fst x) = Some (f (fst x))" using assms(2) that by simp
    ultimately show ?thesis by simp
  qed
  then have "map snd m = map f (map fst m)" by simp
  then have "mset (map snd m) = image_mset f (mset (map fst m))" by (metis mset_map)
  then show ?thesis using mset_set_set [OF assms(1)] by simp
qed

lemma errors_rows:
  assumes "errors_grouped es m"
  shows "mset (sorted_errors m)
    = image_mset (\<lambda>k. error_group k (errors_of k es)) (mset_set (event_error_key ` {e \<in> set es. is_error_event e}))"
proof -
  have d: "distinct (map fst m)"
    and v: "\<And>k. map_of m k = (if errors_of k es = [] then None else Some (error_group k (errors_of k es)))"
    using assms unfolding errors_grouped_def by blast+
  have keys: "k \<in> set (map fst m) \<longleftrightarrow> errors_of k es \<noteq> []" for k
  proof -
    have "k \<in> set (map fst m) \<longleftrightarrow> map_of m k \<noteq> None" by (simp add: map_of_eq_None_iff)
    then show ?thesis unfolding v by simp
  qed
  have "event_error_key ` {e \<in> set es. is_error_event e} = {k. errors_of k es \<noteq> []}"
    unfolding errors_of_def filter_empty_conv by blast
  then have ks: "set (map fst m) = event_error_key ` {e \<in> set es. is_error_event e}" using keys by blast
  have "map_of m k = Some (error_group k (errors_of k es))" if "k \<in> set (map fst m)" for k
    unfolding v using keys that by simp
  from grouped_values [OF d this] show ?thesis unfolding sorted_errors_def mset_sort ks .
qed

lemma errors_sorted: "sorted (map er_first (sorted_errors m))"
proof -
  have "sorted (map (\<lambda>c. (er_first c, er_kind c)) (sorted_errors m))" unfolding sorted_errors_def by (rule sorted_sort_key)
  then show ?thesis by (simp add: sorted_map sorted_wrt_iff_nth_less less_eq_prod_def) (metis order.strict_iff_order)
qed

lemma artifact_rows:
  assumes "artifacts_grouped es m"
  shows "sorted_wrt (<) (map ac_representation (sorted_artifacts m))"
    and "row \<in> set (sorted_artifacts m) \<Longrightarrow> refs_of (ac_representation row) es \<noteq> []
      \<and> ac_references row = of_nat (length (refs_of (ac_representation row) es))
      \<and> ac_unique_blobs row = of_nat (card (br_sha256 ` set (refs_of (ac_representation row) es)))"
    and "ac_representation ` set (sorted_artifacts m) = {repr. refs_of repr es \<noteq> []}"
proof -
  have d: "distinct (map fst m)" and none: "\<And>repr. map_of m repr = None \<longleftrightarrow> refs_of repr es = []"
    and some: "\<And>repr g. map_of m repr = Some g \<Longrightarrow> aggregate_of (refs_of repr es) g"
    using assms unfolding artifacts_grouped_def by blast+
  have name: "ac_representation (artifact_row x) = fst x" for x by (cases x) (simp add: artifact_row_def)
  have "map ac_representation (sorted_artifacts m) = map fst (sort_key fst m)"
    unfolding sorted_artifacts_def by (simp add: name)
  then show "sorted_wrt (<) (map ac_representation (sorted_artifacts m))" using sorted_keys(1) [OF d] by simp
  have "ac_representation ` set (sorted_artifacts m) = fst ` set m"
    unfolding sorted_artifacts_def by (simp add: image_image name)
  moreover have "r \<in> fst ` set m \<longleftrightarrow> refs_of r es \<noteq> []" for r
    using none [of r] by (auto simp: map_of_eq_None_iff)
  ultimately show "ac_representation ` set (sorted_artifacts m) = {repr. refs_of repr es \<noteq> []}" by blast
  assume "row \<in> set (sorted_artifacts m)"
  then obtain repr g where x: "(repr, g) \<in> set m" "row = artifact_row (repr, g)"
    unfolding sorted_artifacts_def by auto
  then have mo: "map_of m repr = Some g" using d by simp
  let ?refs = "refs_of repr es"
  have ag: "aa_references g = of_nat (length ?refs)" "distinct (map fst (aa_blobs g))"
    and look: "\<And>h. map_of (aa_blobs g) h = (let xs = filter (\<lambda>ref. br_sha256 ref = h) ?refs
            in if xs = [] then None else Some (br_size (last xs)))"
    using some [OF mo] unfolding aggregate_of_def by blast+
  have "h \<in> set (map fst (aa_blobs g)) \<longleftrightarrow> h \<in> br_sha256 ` set ?refs" for h
  proof -
    have "h \<in> set (map fst (aa_blobs g)) \<longleftrightarrow> map_of (aa_blobs g) h \<noteq> None" by (simp add: map_of_eq_None_iff)
    also have "\<dots> \<longleftrightarrow> filter (\<lambda>ref. br_sha256 ref = h) ?refs \<noteq> []" unfolding look by (simp add: Let_def)
    also have "\<dots> \<longleftrightarrow> h \<in> br_sha256 ` set ?refs" by (auto simp: filter_empty_conv)
    finally show ?thesis .
  qed
  then have "set (map fst (aa_blobs g)) = br_sha256 ` set ?refs" by blast
  then have "length (aa_blobs g) = card (br_sha256 ` set ?refs)" using distinct_card [OF ag(2)] by simp
  moreover have "?refs \<noteq> []" using none [of repr] mo by simp
  ultimately show "refs_of (ac_representation row) es \<noteq> []
      \<and> ac_references row = of_nat (length (refs_of (ac_representation row) es))
      \<and> ac_unique_blobs row = of_nat (card (br_sha256 ` set (refs_of (ac_representation row) es)))"
    using ag(1) x(2) by (simp add: artifact_row_def)
qed

text \<open>
  Error groups and artifacts. The error rows are ordered by first sequence, and there is exactly
  one per distinct combination of kind, operation, type, message and best-effort flag among the error
  events, with their number and the sequences of the first and the last of them. The artifact rows are
  ordered by representation, one per representation that is referenced, with the number of references
  and the number of distinct digests among them.
\<close>

theorem analysis_groups:
  assumes "analyze sh d = Inr s"
  shows "\<exists>es. dk_lines d = map EventLine es \<and> sorted (map er_first (su_errors s))
    \<and> mset (su_errors s) = image_mset (\<lambda>k. error_group k (errors_of k es)) (mset_set (event_error_key ` {e \<in> set es. is_error_event e}))
    \<and> sorted_wrt (<) (map ac_representation (su_artifacts s))
    \<and> (\<forall>row \<in> set (su_artifacts s). refs_of (ac_representation row) es \<noteq> []
         \<and> ac_references row = of_nat (length (refs_of (ac_representation row) es))
         \<and> ac_unique_blobs row = of_nat (card (br_sha256 ` set (refs_of (ac_representation row) es))))
    \<and> ac_representation ` set (su_artifacts s) = {repr. refs_of repr es \<noteq> []}"
proof -
  obtain v a es where s: "s = analysis_summary sh v a" and ln: "dk_lines d = map EventLine es" and an: "analysed es a"
    using analyzeD [OF assms] by blast
  have g: "errors_grouped es (an_errors a)" "artifacts_grouped es (an_artifacts a)"
    using an unfolding analysed_def by blast+
  have "su_errors s = sorted_errors (an_errors a)" "su_artifacts s = sorted_artifacts (an_artifacts a)"
    by (simp_all add: s analysis_summary_def Let_def)
  then show ?thesis
    using ln errors_sorted [of "an_errors a"] errors_rows [OF g(1)] artifact_rows [OF g(2)] by auto
qed

theorem analysis_groups_witness:
  "\<exists>s. analyze (\<lambda>_. []) (rd_disk demo_closed) = Inr s \<and> ac_representation ` set (su_artifacts s) = {''wire''}"
proof -
  obtain s where s: "analyze (\<lambda>_. []) (rd_disk demo_closed) = Inr s" using demo_analyzed by blast
  obtain es where es: "dk_lines (rd_disk demo_closed) = map EventLine es"
    "ac_representation ` set (su_artifacts s) = {repr. refs_of repr es \<noteq> []}"
    using analysis_groups [OF s] by blast
  have "map EventLine es = map EventLine [demo_event]" using es(1) demo_closed_disk(1) by simp
  then have "es = [demo_event]" by (auto simp: map_eq_Cons_conv)
  then show ?thesis using s es(2) by (simp add: refs_of_def demo_ref_def payload_ref_def make_blob_ref_def)
qed

section \<open>The layout of the explanation\<close>

text \<open>The characters that structure the Markdown text: line ends and code span delimiters.\<close>

definition markup :: "char set" where "markup = {newline, return, tick}"

lemma sanitize_inline_plain: "c \<in> markup \<Longrightarrow> c \<notin> set (sanitize_inline s)"
proof -
  have a: "newline \<notin> set (sanitize_inline s)" by (simp add: sanitize_inline_def replace_char_absent)
  let ?t = "replace_char tick [CHR 0x27] s" and ?u = "replace_char return '' '' (replace_char tick [CHR 0x27] s)"
  have t: "tick \<notin> set ?t" by (simp add: replace_char_absent)
  have u: "tick \<notin> set ?u" "return \<notin> set ?u"
    using t set_replace_char [of return "'' ''" ?t] by (auto simp: replace_char_absent)
  have "tick \<notin> set (sanitize_inline s)" "return \<notin> set (sanitize_inline s)"
    using u set_replace_char [of newline "'' ''" ?u] by (auto simp: sanitize_inline_def)
  then show "c \<in> markup \<Longrightarrow> c \<notin> set (sanitize_inline s)" using a by (auto simp: markup_def)
qed

lemma count_sanitize [simp]: "c \<in> markup \<Longrightarrow> count_list (sanitize_inline s) c = 0"
  using sanitize_inline_plain by (simp add: count_list_0_iff)

lemma count_itoa [simp]: "c \<in> markup \<Longrightarrow> count_list (itoa n) c = 0"
  using itoa_chars [of c n] by (auto simp: count_list_0_iff markup_def is_digit_def ord_def)

lemma count_itoa_int [simp]: "c \<in> markup \<Longrightarrow> count_list (itoa_int i) c = 0"
  by (auto simp: itoa_int_def markup_def)

definition nl :: "char \<Rightarrow> nat" where "nl c = (if c = newline then 1 else 0)"
definition tk :: "char \<Rightarrow> nat" where "tk c = (if c = tick then 1 else 0)"

lemma in_markup [simp]: "newline \<in> markup" "return \<in> markup" "tick \<in> markup"
  by (simp_all add: markup_def)

lemma markup_cases:
  assumes "c \<in> markup"
  obtains "c = newline" | "c = return" | "c = tick"
  using assms by (auto simp: markup_def)

lemma weights [simp]: "nl newline = 1" "nl return = 0" "nl tick = 0" "tk newline = 0" "tk return = 0" "tk tick = 1"
  by (simp_all add: nl_def tk_def)

text \<open>How often a structuring character occurs in the pieces of the text.\<close>

lemma count_pieces:
  assumes "c \<in> markup"
  shows "count_list (span s) c = 2 * tk c" "count_list (bullet x) c = count_list x c + nl c"
    "count_list (paragraph_text x) c = count_list x c + 2 * nl c" "count_list (heading x) c = count_list x c + 2 * nl c"
    "count_list (show_bool b) c = 2 * tk c" "count_list (plain_bool b) c = 0"
    "count_list (show_u64 n) c = 0" "count_list (show_length xs) c = 0"
  using assms
  by (cases rule: markup_cases; simp add: span_def bullet_def paragraph_text_def heading_def show_bool_def
      plain_bool_def show_u64_def show_length_def)+

lemmas count_text = count_list_append count_pieces [OF in_markup(1)] count_pieces [OF in_markup(2)] count_pieces [OF in_markup(3)]

lemma count_concat: "count_list (concat xss) c = sum_list (map (\<lambda>xs. count_list xs c) xss)"
  by (induction xss) auto

lemma count_intro:
  assumes "c \<in> markup"
  shows "count_list (explain_intro s) c = 4 * nl c + 6 * tk c + (if bi_commit (su_build s) = [] then 0 else 2 * nl c + 6 * tk c)"
  using assms by (cases rule: markup_cases; simp add: explain_intro_def count_text)

lemma count_integrity:
  assumes "c \<in> markup"
  shows "count_list (explain_integrity s) c = 4 * nl c
    + (if su_issues s = [] then 2 * nl c else 2 * nl c + length (su_issues s) * (2 * tk c + nl c) + nl c)
    + (if su_limitations s = [] then 0 else length (su_limitations s) * (2 * tk c + nl c) + nl c)"
  using assms
  by (cases rule: markup_cases; simp add: explain_integrity_def count_text count_concat comp_def sum_list_triv)

lemma count_traffic:
  assumes "c \<in> markup"
  shows "count_list (explain_traffic s) c = 7 * nl c + 8 * tk c + length (su_directions s) * (2 * tk c + nl c)"
  using assms
  by (cases rule: markup_cases; simp add: explain_traffic_def Let_def count_text count_concat comp_def sum_list_triv)

definition line_weight :: "char \<Rightarrow> bool \<Rightarrow> nat" where
  "line_weight c short = (if short then 2 * tk c else 4 * tk c) + nl c"

lemma count_lines:
  assumes "c \<in> markup"
  shows "count_list (pack_line p) c = 8 * tk c + nl c"
    "count_list (decryption_line d) c = line_weight c (pd_status d \<noteq> ''decrypted'' \<and> pd_error d = [])"
    "count_list (error_line e) c = line_weight c (er_message e = [])"
  using assms
  by (cases rule: markup_cases; simp add: pack_line_def decryption_line_def error_line_def count_text line_weight_def)+

lemmas count_line_text = count_text count_lines [OF in_markup(1)] count_lines [OF in_markup(2)] count_lines [OF in_markup(3)]

lemma count_packs:
  assumes "c \<in> markup"
  shows "count_list (explain_packs s) c = 2 * nl c + (if su_packs s = [] then 2 * nl c
     else length (su_packs s) * (8 * tk c + nl c)
       + sum_list (map (line_weight c) (map (\<lambda>d. pd_status d \<noteq> ''decrypted'' \<and> pd_error d = []) (su_decryptions s))) + nl c)"
  using assms
  by (cases rule: markup_cases; simp add: explain_packs_def count_line_text count_concat comp_def sum_list_triv)

lemma count_error_text:
  assumes "c \<in> markup"
  shows "count_list (explain_errors s) c = 3 * nl c + (if su_errors s = [] then 2 * nl c
     else sum_list (map (line_weight c) (map (\<lambda>e. er_message e = []) (su_errors s))) + nl c)"
  using assms
  by (cases rule: markup_cases; simp add: explain_errors_def count_line_text count_concat comp_def)

text \<open>What decides the layout: lengths and flags, but none of the captured texts.\<close>

definition explain_shape :: "summary \<Rightarrow> _" where
  "explain_shape s = (bi_commit (su_build s) = [], length (su_issues s), length (su_limitations s),
     length (su_directions s), length (su_packs s),
     map (\<lambda>d. pd_status d \<noteq> ''decrypted'' \<and> pd_error d = []) (su_decryptions s), map (\<lambda>e. er_message e = []) (su_errors s))"

text \<open>
  No text of a capture can change the layout of its explanation: whatever the server put into
  names, versions, kinds, messages and limitations, two summaries of the same shape have explanations
  with the same number of line ends and of code span delimiters, so no field can close its code span or
  start a line of its own.
\<close>

theorem explanation_layout:
  assumes "explain_shape s = explain_shape t" "c \<in> {newline, return, tick}"
  shows "count_list (explain s) c = count_list (explain t) c"
proof -
  have c: "c \<in> markup" using assms(2) by (simp add: markup_def)
  have sh: "(bi_commit (su_build s) = []) = (bi_commit (su_build t) = [])" "length (su_issues s) = length (su_issues t)"
    "length (su_limitations s) = length (su_limitations t)" "length (su_directions s) = length (su_directions t)"
    "length (su_packs s) = length (su_packs t)"
    and d: "map (\<lambda>d. pd_status d \<noteq> ''decrypted'' \<and> pd_error d = []) (su_decryptions s)
      = map (\<lambda>d. pd_status d \<noteq> ''decrypted'' \<and> pd_error d = []) (su_decryptions t)"
    and e: "map (\<lambda>e. er_message e = []) (su_errors s) = map (\<lambda>e. er_message e = []) (su_errors t)"
    using assms(1) unfolding explain_shape_def by (simp_all only: prod.inject)
  have nil: "(su_issues s = []) = (su_issues t = [])" "(su_limitations s = []) = (su_limitations t = [])"
    "(su_packs s = []) = (su_packs t = [])" "(su_errors s = []) = (su_errors t = [])"
    using sh e by (metis length_0_conv, metis length_0_conv, metis length_0_conv, metis map_is_Nil_conv)
  show ?thesis
    unfolding explain_def count_list_append count_intro [OF c] count_integrity [OF c] count_traffic [OF c]
      count_packs [OF c] count_error_text [OF c] sh nil d e ..
qed

definition quiet_summary :: summary where
  "quiet_summary = analysis_summary (\<lambda>_. [])
     \<lparr>vf_manifest = demo_manifest, vf_events = 0, vf_blobs = 0, vf_issues = []\<rparr> (analyze_start demo_manifest)"

theorem explanation_layout_witness:
  "count_list (explain (quiet_summary\<lparr>su_capture_id := [tick, newline] @ ''# owned''\<rparr>)) newline
     = count_list (explain quiet_summary) newline"
  by (rule explanation_layout) (simp_all add: explain_shape_def)

end
