(* ===== verification/Aes.thy ===== *)
theory Aes
  imports Prelude
begin

text \<open>
  The block cipher of \<^verbatim>\<open>crypto/aes\<close> with a 32 byte key (FIPS 197), as far as the
  program uses it: encryption of one block. A block is a list of 16 bytes in the order of the
  standard, column by column. At the end the interface that a stream mode needs of a block cipher.
\<close>

section \<open>Tables\<close>

definition sbox :: bytes where
  "sbox =
  [99, 124, 119, 123, 242, 107, 111, 197, 48, 1, 103, 43, 254, 215, 171, 118,
   202, 130, 201, 125, 250, 89, 71, 240, 173, 212, 162, 175, 156, 164, 114, 192,
   183, 253, 147, 38, 54, 63, 247, 204, 52, 165, 229, 241, 113, 216, 49, 21,
   4, 199, 35, 195, 24, 150, 5, 154, 7, 18, 128, 226, 235, 39, 178, 117,
   9, 131, 44, 26, 27, 110, 90, 160, 82, 59, 214, 179, 41, 227, 47, 132,
   83, 209, 0, 237, 32, 252, 177, 91, 106, 203, 190, 57, 74, 76, 88, 207,
   208, 239, 170, 251, 67, 77, 51, 133, 69, 249, 2, 127, 80, 60, 159, 168,
   81, 163, 64, 143, 146, 157, 56, 245, 188, 182, 218, 33, 16, 255, 243, 210,
   205, 12, 19, 236, 95, 151, 68, 23, 196, 167, 126, 61, 100, 93, 25, 115,
   96, 129, 79, 220, 34, 42, 144, 136, 70, 238, 184, 20, 222, 94, 11, 219,
   224, 50, 58, 10, 73, 6, 36, 92, 194, 211, 172, 98, 145, 149, 228, 121,
   231, 200, 55, 109, 141, 213, 78, 169, 108, 86, 244, 234, 101, 122, 174, 8,
   186, 120, 37, 46, 28, 166, 180, 198, 232, 221, 116, 31, 75, 189, 139, 138,
   112, 62, 181, 102, 72, 3, 246, 14, 97, 53, 87, 185, 134, 193, 29, 158,
   225, 248, 152, 17, 105, 217, 142, 148, 155, 30, 135, 233, 206, 85, 40, 223,
   140, 161, 137, 13, 191, 230, 66, 104, 65, 153, 45, 15, 176, 84, 187, 22]"

definition sub_byte :: "8 word \<Rightarrow> 8 word" where
  "sub_byte b = sbox ! unat b"

definition xtime :: "8 word \<Rightarrow> 8 word" where
  "xtime b = (if bit b 7 then push_bit 1 b XOR 0x1B else push_bit 1 b)"

section \<open>Key schedule\<close>

definition xor_bytes :: "bytes \<Rightarrow> bytes \<Rightarrow> bytes" where
  "xor_bytes a b = map2 (XOR) a b"

definition schedule_core :: "8 word \<Rightarrow> bytes \<Rightarrow> bytes" where
  "schedule_core rcon w = xor_bytes (map sub_byte (rotate1 w)) [rcon, 0, 0, 0]"

text \<open>
  One step of eight words: the last word of the previous eight goes through the core, the fifth
  word through the S-box.
\<close>

fun chain_words :: "bytes \<Rightarrow> bytes list \<Rightarrow> bytes list" where
  "chain_words t [] = []"
| "chain_words t (w # ws) = xor_bytes t w # chain_words (xor_bytes t w) ws"

definition next_eight :: "8 word \<Rightarrow> bytes list \<Rightarrow> bytes list" where
  "next_eight rcon ws =
     (let a = chain_words (schedule_core rcon (ws ! 7)) (take 4 ws);
          b = chain_words (map sub_byte (a ! 3)) (drop 4 ws)
      in a @ b)"

fun expand_words :: "bytes \<Rightarrow> bytes list \<Rightarrow> bytes list" where
  "expand_words [] ws = ws"
| "expand_words (rcon # rs) ws = ws @ expand_words rs (next_eight rcon ws)"

definition key_words :: "bytes \<Rightarrow> bytes list" where
  "key_words key = map (\<lambda>i. take 4 (drop (4 * i) key)) [0..<8]"

definition round_constants :: bytes where "round_constants = [1, 2, 4, 8, 16, 32, 64]"

definition round_keys :: "bytes \<Rightarrow> bytes list" where
  "round_keys key = map (\<lambda>i. concat (take 4 (drop (4 * i) (expand_words round_constants (key_words key))))) [0..<15]"

section \<open>Rounds\<close>

definition shift_rows :: "bytes \<Rightarrow> bytes" where
  "shift_rows s = map (\<lambda>i. s ! ((i + 4 * (i mod 4)) mod 16)) [0..<16]"

definition mix_byte :: "bytes \<Rightarrow> nat \<Rightarrow> 8 word" where
  "mix_byte s i =
     (let c = 4 * (i div 4); a = s ! i; b = s ! (c + (i + 1) mod 4); d = s ! (c + (i + 2) mod 4); e = s ! (c + (i + 3) mod 4)
      in xtime a XOR (xtime b XOR b) XOR d XOR e)"

definition mix_columns :: "bytes \<Rightarrow> bytes" where
  "mix_columns s = map (mix_byte s) [0..<16]"

definition aes_round :: "bytes \<Rightarrow> bytes \<Rightarrow> bytes" where
  "aes_round s k = xor_bytes (mix_columns (shift_rows (map sub_byte s))) k"

definition aes_encrypt :: "bytes \<Rightarrow> bytes \<Rightarrow> bytes" where
  "aes_encrypt key block =
     (let ks = round_keys key;
          s = foldl aes_round (xor_bytes block (ks ! 0)) (take 13 (drop 1 ks))
      in xor_bytes (shift_rows (map sub_byte s)) (ks ! 14))"

section \<open>Lengths\<close>

lemma length_xor_bytes [simp]: "length (xor_bytes a b) = min (length a) (length b)"
  by (simp add: xor_bytes_def)

lemma length_chain_words [simp]: "length (chain_words t ws) = length ws"
  by (induction t ws rule: chain_words.induct) auto

lemma chain_words_length:
  "length t = 4 \<Longrightarrow> \<forall>w \<in> set ws. length w = 4 \<Longrightarrow> w \<in> set (chain_words t ws) \<Longrightarrow> length w = 4"
  by (induction t ws rule: chain_words.induct) auto

lemma chain_words_four:
  assumes "length t = 4" "\<forall>w \<in> set ws. length w = 4"
  shows "\<forall>w \<in> set (chain_words t ws). length w = 4"
  using assms chain_words_length by blast

lemma next_eight_words:
  assumes "length ws = 8" "\<forall>w \<in> set ws. length w = 4"
  shows "length (next_eight rcon ws) = 8 \<and> (\<forall>w \<in> set (next_eight rcon ws). length w = 4)"
proof -
  define a where "a = chain_words (schedule_core rcon (ws ! 7)) (take 4 ws)"
  define b where "b = chain_words (map sub_byte (a ! 3)) (drop 4 ws)"
  have tk: "\<forall>w \<in> set (take 4 ws). length w = 4" "\<forall>w \<in> set (drop 4 ws). length w = 4"
    using assms(2) by (meson in_set_takeD, meson in_set_dropD)
  have "ws ! 7 \<in> set ws" using assms(1) by (intro nth_mem) simp
  then have "length (ws ! 7) = 4" using assms(2) by blast
  then have "length (schedule_core rcon (ws ! 7)) = 4" by (simp add: schedule_core_def)
  then have a: "\<forall>w \<in> set a. length w = 4" unfolding a_def by (rule chain_words_four [OF _ tk(1)])
  have la: "length a = 4" "length b = 4" unfolding a_def b_def using assms(1) by simp_all
  have "a ! 3 \<in> set a" using la(1) by (intro nth_mem) simp
  then have "length (a ! 3) = 4" using a by blast
  then have "length (map sub_byte (a ! 3)) = 4" by simp
  then have b: "\<forall>w \<in> set b. length w = 4" unfolding b_def by (rule chain_words_four [OF _ tk(2)])
  have "next_eight rcon ws = a @ b" by (simp add: next_eight_def a_def b_def Let_def)
  then show ?thesis using a b la by auto
qed

lemma expand_words_length:
  assumes "length ws = 8" "\<forall>w \<in> set ws. length w = 4"
  shows "length (expand_words rs ws) = 8 * (length rs + 1) \<and> (\<forall>w \<in> set (expand_words rs ws). length w = 4)"
  using assms
proof (induction rs arbitrary: ws)
  case (Cons r rs)
  note ne = next_eight_words [OF Cons.prems, of r]
  note ih = Cons.IH [OF conjunct1 [OF ne] conjunct2 [OF ne]]
  show ?case using ih Cons.prems by auto
qed simp

lemma length_concat_four: "\<forall>w \<in> set ws. length w = (4::nat) \<Longrightarrow> length (concat ws) = 4 * length ws"
  by (induction ws) auto

lemma length_constants: "length round_constants = 7"
  by (simp add: round_constants_def)

lemma round_keys_length:
  assumes "length key = 32"
  shows "length (round_keys key) = 15 \<and> (\<forall>k \<in> set (round_keys key). length k = 16)"
proof -
  let ?ws = "expand_words round_constants (key_words key)"
  have "length (key_words key) = 8" "\<forall>w \<in> set (key_words key). length w = 4"
    using assms by (auto simp: key_words_def)
  then have ws: "length ?ws = 64" "\<forall>w \<in> set ?ws. length w = 4"
    using expand_words_length [of "key_words key" round_constants] by (simp_all add: length_constants)
  have "length (concat (take 4 (drop (4 * i) ?ws))) = 16" if "i < 15" for i
  proof -
    have "\<forall>w \<in> set (take 4 (drop (4 * i) ?ws)). length w = 4" using ws(2) by (meson in_set_dropD in_set_takeD)
    then show ?thesis using length_concat_four [of "take 4 (drop (4 * i) ?ws)"] ws(1) that by simp
  qed
  then show ?thesis unfolding round_keys_def by auto
qed

lemma length_aes_round: "length k = 16 \<Longrightarrow> length (aes_round s k) = 16"
  by (simp add: aes_round_def mix_columns_def)

lemma length_aes_rounds:
  "length s = 16 \<Longrightarrow> \<forall>k \<in> set ks. length k = 16 \<Longrightarrow> length (foldl aes_round s ks) = 16"
  by (induction ks arbitrary: s) (auto simp: length_aes_round)

lemma length_aes_encrypt:
  assumes "length key = 32" "length block = 16"
  shows "length (aes_encrypt key block) = 16"
proof -
  have "round_keys key ! 14 \<in> set (round_keys key)"
    using round_keys_length [OF assms(1)] by (intro nth_mem) simp
  then have "length (round_keys key ! 14) = 16" using round_keys_length [OF assms(1)] by blast
  then show ?thesis by (simp add: aes_encrypt_def Let_def shift_rows_def)
qed

section \<open>Interface\<close>

text \<open>
  A block cipher maps 16-byte blocks to 16-byte blocks for every valid key; a stream mode needs no
  more of it.
\<close>

locale block_cipher =
  fixes valid_key :: "bytes \<Rightarrow> bool" and block :: "bytes \<Rightarrow> bytes \<Rightarrow> bytes"
  assumes block_length: "valid_key k \<Longrightarrow> length b = 16 \<Longrightarrow> length (block k b) = 16"
begin

lemma block_first:
  assumes "valid_key k" "length b = 16"
  shows "take 1 (block k b) = [block k b ! 0]"
  using block_length [OF assms] by (cases "block k b") auto

end

interpretation aes: block_cipher "\<lambda>k. length k = 32" aes_encrypt
  by unfold_locales (rule length_aes_encrypt)

end
