(* ===== verification/PackDecrypt.thy ===== *)
theory PackDecrypt
  imports Aes Go_Json "HOL-Library.List_Lexorder" "HOL-Library.Char_ord" "HOL-Library.Product_Lexorder"
begin

text \<open>
  Decryption of a resource pack archive (\<^verbatim>\<open>internal/resourcepack/decrypt.go\<close>): index the
  zip entries, find the root and the contents manifests, decrypt and check them, and write a derived
  archive in which the declared entries are decrypted with AES-256-CFB8. The zip reader gives the
  entries with their declared size and what reading them yields; the writer's failures are arguments.
\<close>

section \<open>Constants and data\<close>

definition contents_header_size :: nat where "contents_header_size = 256"
definition max_archive_entries :: nat where "max_archive_entries = 100000"
definition max_contents_manifests :: nat where "max_contents_manifests = 1024"
definition max_contents_manifest_size :: nat where "max_contents_manifest_size = 16 * 2 ^ 20"
definition max_contents_plaintext :: nat where "max_contents_plaintext = 64 * 2 ^ 20"
definition max_decrypted_payload :: nat where "max_decrypted_payload = 2 ^ 30"
definition contents_magic :: bytes where "contents_magic = [0xFC, 0xB9, 0xCF, 0x9B]"

datatype decrypt_error =
    DSourceNil | DDestinationNil | DNegativeSize | DKeyLength nat | DOpenArchive | DTooManyEntries nat
  | DUnsafePath string | DNonCanonical string | DDuplicate string | DNoManifest | DNoContents string
  | DTooManyManifests nat | DPlaintextLimit | DTotalEntries | DContentID string string | DDeclaredTwice string
  | DEntryKeyLength string nat | DMissing string | DDirectoryKey string
  | DSymlink string | DNotRegular string | DCreate string | DPayloadLimit string | DReadEntry string
  | DWriteEntry string | DWrittenSize string nat nat | DCloseArchive
  | DManifestRead string | DManifestShort string nat | DVersion string | DMagic string | DReserved string
  | DContentIDLength string nat | DContentIDText string | DPadding string | DNotJson string
  | DNoContentArray string | DDecode string | DManifestEntries string nat

text \<open>What reading an entry to its end gives: it does not open, it yields bytes and then fails, or ends.\<close>

datatype zip_content = ZipNoOpen | ZipFails bytes | ZipData bytes

record zip_file =
  zf_name :: string
  zf_dir :: bool
  zf_symlink :: bool
  zf_regular :: bool
  zf_size :: nat
  zf_content :: zip_content

record contents_summary =
  ct_path :: string
  ct_entries :: int
  ct_encrypted :: int
  ct_plain :: int

record contents_manifest =
  cm_summary :: contents_summary
  cm_plaintext :: bytes

record decrypt_report =
  dr_algorithm :: string
  dr_authenticated :: bool
  dr_content_id :: string
  dr_input :: int
  dr_output :: int
  dr_decrypted :: int
  dr_copied :: int
  dr_directories :: int
  dr_payload :: int
  dr_contents :: "contents_summary list"

record decrypt_result =
  rs_report :: decrypt_report
  rs_manifests :: "contents_manifest list"

type_synonym contents_entry = "string \<times> string"

text \<open>An entry written to the derived archive.\<close>

record out_entry =
  oe_name :: string
  oe_dir :: bool
  oe_data :: bytes

record writer_faults =
  wf_create :: "string option"
  wf_copy :: "string option"
  wf_close :: bool

section \<open>AES-CFB8\<close>

text \<open>
  \<^verbatim>\<open>XORKeyStream\<close>: every byte is combined with the first byte of the encrypted register, which
  then shifts in the ciphertext byte.
\<close>

fun cfb8_decrypt :: "(bytes \<Rightarrow> bytes) \<Rightarrow> bytes \<Rightarrow> bytes \<Rightarrow> bytes" where
  "cfb8_decrypt enc register [] = []"
| "cfb8_decrypt enc register (c # cs) =
     (c XOR enc register ! 0) # cfb8_decrypt enc (tl register @ [c]) cs"

text \<open>\<^verbatim>\<open>newCFB8Decrypter(key, key[:16])\<close> on a whole input.\<close>

definition decrypt_bytes :: "bytes \<Rightarrow> bytes \<Rightarrow> bytes" where
  "decrypt_bytes key ciphertext = cfb8_decrypt (aes_encrypt key) (take 16 key) ciphertext"

section \<open>Paths\<close>

definition unsafe_name :: "string \<Rightarrow> bool" where
  "unsafe_name name = (name = [] \<or> \<not> valid_string name \<or> CHR 0x5C \<in> set name \<or> has_prefix name ''/'')"

definition unsafe_clean :: "string \<Rightarrow> bool" where
  "unsafe_clean clean = (clean = ''.'' \<or> clean = ''..'' \<or> has_prefix clean ''../'')"

definition clean_archive_path :: "string \<Rightarrow> bool \<Rightarrow> decrypt_error + string" where
  "clean_archive_path name directory =
     (if unsafe_name name then Inl (DUnsafePath name)
      else
        (let clean = clean_path name in
         if unsafe_clean clean then Inl (DUnsafePath name)
         else
           (let full = (if directory then clean @ ''/'' else clean)
            in if full \<noteq> name then Inl (DNonCanonical name) else Inr full)))"

definition clean_content_path :: "string \<Rightarrow> decrypt_error + string" where
  "clean_content_path name =
     (if unsafe_name name then Inl (DUnsafePath name)
      else
        (let directory = has_suffix name ''/''; clean = clean_path name in
         if unsafe_clean clean then Inl (DUnsafePath name)
         else
           (let full = (if directory then clean @ ''/'' else clean)
            in if full \<noteq> name then Inl (DNonCanonical name) else Inr full)))"

definition join_archive_path :: "string \<Rightarrow> string \<Rightarrow> string" where
  "join_archive_path pre name = (if pre = [] then name else pre @ ''/'' @ name)"

section \<open>Index\<close>

record pack_index =
  ix_files :: "(string \<times> zip_file) list"
  ix_manifests :: "string list"

definition index_file :: "pack_index \<Rightarrow> zip_file \<Rightarrow> decrypt_error + pack_index" where
  "index_file ix file =
     res_bind (clean_archive_path (zf_name file) (zf_dir file)) (\<lambda>name.
       if map_of (ix_files ix) name \<noteq> None then Inl (DDuplicate name)
       else Inr \<lparr>ix_files = ix_files ix @ [(name, file)],
                 ix_manifests = (if \<not> zf_dir file \<and> base_path name = ''manifest.json''
                                 then ix_manifests ix @ [name] else ix_manifests ix)\<rparr>)"

definition slashes :: "string \<Rightarrow> nat" where "slashes s = count_list s (CHR ''/'')"

text \<open>The root manifest is the one with the fewest slashes, the first by name among those.\<close>

definition root_manifest :: "pack_index \<Rightarrow> string" where
  "root_manifest ix = hd (sort_key (\<lambda>n. (slashes n, n)) (ix_manifests ix))"

definition dir_or_empty :: "string \<Rightarrow> string" where
  "dir_or_empty p = (if dir_path p = ''.'' then [] else dir_path p)"

definition is_subpack_contents :: "string \<Rightarrow> string \<Rightarrow> bool" where
  "is_subpack_contents pre name =
     (has_prefix name pre \<and>
        (case split_on CHR ''/'' (trim_prefix name pre) of
           [a, b] \<Rightarrow> a \<noteq> [] \<and> b = ''contents.json''
         | _ \<Rightarrow> False))"

definition contents_paths :: "pack_index \<Rightarrow> string \<Rightarrow> string list" where
  "contents_paths ix root =
     (let first = join_archive_path root ''contents.json''; pre = join_archive_path root ''subpacks'' @ ''/'' in
      first # sort (map fst (filter (\<lambda>(name, file). \<not> zf_dir file \<and> name \<noteq> first \<and> is_subpack_contents pre name)
                              (ix_files ix))))"

text \<open>\<^verbatim>\<open>archiveDirectoryReference\<close>: a directory entry, or a name that is a parent of an entry.\<close>

definition directory_reference :: "string \<Rightarrow> (string \<times> zip_file) list \<Rightarrow> bool" where
  "directory_reference full files =
     (let name = trim_suffix full ''/'' in
      if name = [] then False
      else case map_of files name of
        Some file \<Rightarrow> zf_dir file
      | None \<Rightarrow>
          (case map_of files (name @ ''/'') of
             Some file \<Rightarrow> zf_dir file | None \<Rightarrow> False)
          \<or> list_ex (\<lambda>(candidate, _). has_prefix candidate (name @ ''/'')) files)"

section \<open>Contents manifests\<close>

definition read_limited :: "zip_file \<Rightarrow> bytes option" where
  "read_limited file =
     (if zf_size file > max_contents_manifest_size then None
      else case zf_content file of
        ZipNoOpen \<Rightarrow> None
      | ZipFails b \<Rightarrow> None
      | ZipData b \<Rightarrow> if length b > max_contents_manifest_size then None else Some b)"

definition all_zero :: "bytes \<Rightarrow> bool" where
  "all_zero b = list_all (\<lambda>x. x = 0) b"

text \<open>The checks of the plain header; the result is the content id.\<close>

definition contents_header :: "string \<Rightarrow> bytes \<Rightarrow> decrypt_error + string" where
  "contents_header path data =
     (if length data < contents_header_size then Inl (DManifestShort path (length data))
      else
        (let h = take contents_header_size data; n = unat (h ! 16); e = 17 + n in
         if take 4 h \<noteq> [0, 0, 0, 0] then Inl (DVersion path)
         else if take 4 (drop 4 h) \<noteq> contents_magic then Inl (DMagic path)
         else if \<not> all_zero (take 8 (drop 8 h)) then Inl (DReserved path)
         else if n = 0 \<or> e > contents_header_size then Inl (DContentIDLength path n)
         else if \<not> utf8_valid (map unat (take n (drop 17 h))) then Inl (DContentIDText path)
         else if \<not> all_zero (drop e h) then Inl (DPadding path)
         else Inr (of_bytes (take n (drop 17 h)))))"

definition trim_plaintext :: "bytes \<Rightarrow> bytes" where
  "trim_plaintext b = drop_while_end (\<lambda>x. x = 0 \<or> x = 0x20 \<or> x = 9 \<or> x = 13 \<or> x = 10) b"

definition decode_entry :: "json \<Rightarrow> contents_entry option" where
  "decode_entry j =
     (if \<not> json_object_like j then None
      else case (field_with json_string [] ''path'' j, field_with json_string [] ''key'' j) of
        (Some p, Some k) \<Rightarrow> Some (p, k)
      | _ \<Rightarrow> None)"

definition decode_entries :: "json list \<Rightarrow> contents_entry list option" where
  "decode_entries vs = (if list_all (\<lambda>v. decode_entry v \<noteq> None) vs then Some (map (the \<circ> decode_entry) vs) else None)"

text \<open>The last member \<^verbatim>\<open>content\<close> of the envelope, when it is an array.\<close>

definition content_array :: "json \<Rightarrow> json list option" where
  "content_array j =
     (let vs = map snd (filter (\<lambda>(k, _). k = ''content'') (object_members j)) in
      if vs = [] then None else (case last vs of JArr xs \<Rightarrow> Some xs | _ \<Rightarrow> None))"

text \<open>
  The decrypted text must be JSON; decoding it into a map fails unless it is an object or null, and
  the content must be an array of entries.
\<close>

definition parse_contents :: "string \<Rightarrow> bytes \<Rightarrow> decrypt_error + contents_entry list" where
  "parse_contents path plaintext =
     (case json_parse (of_bytes plaintext) of
        None \<Rightarrow> Inl (DNotJson path)
      | Some j \<Rightarrow>
          if \<not> json_object_like j then Inl (DDecode path)
          else case content_array j of
            None \<Rightarrow> Inl (DNoContentArray path)
          | Some vs \<Rightarrow>
              (case decode_entries vs of
                 None \<Rightarrow> Inl (DDecode path)
               | Some es \<Rightarrow> if length es > max_archive_entries then Inl (DManifestEntries path (length es)) else Inr es))"

definition decrypt_contents :: "bytes \<Rightarrow> string \<Rightarrow> zip_file \<Rightarrow>
    decrypt_error + (contents_manifest \<times> string \<times> contents_entry list)" where
  "decrypt_contents key path file =
     (case read_limited file of
        None \<Rightarrow> Inl (DManifestRead path)
      | Some data \<Rightarrow>
          res_bind (contents_header path data) (\<lambda>content_id.
            let plaintext = trim_plaintext (decrypt_bytes key (drop contents_header_size data)) in
            if plaintext = [] then Inl (DNotJson path)
            else res_bind (parse_contents path plaintext) (\<lambda>es.
              Inr (\<lparr>cm_summary = \<lparr>ct_path = path, ct_entries = int (length es), ct_encrypted = 0, ct_plain = 0\<rparr>,
                    cm_plaintext = plaintext\<rparr>, content_id, es))))"

section \<open>Declarations\<close>

record declared =
  dc_keys :: "string \<rightharpoonup> string"
  dc_plain :: int
  dc_encrypted :: int

text \<open>One entry of a contents manifest; \<open>contents\<close> are the manifests processed so far.\<close>

definition declare_entry :: "pack_index \<Rightarrow> string list \<Rightarrow> string \<Rightarrow> declared \<Rightarrow> contents_entry \<Rightarrow>
    decrypt_error + declared" where
  "declare_entry ix contents base s entry =
     res_bind (clean_content_path (fst entry)) (\<lambda>relative.
       let full = join_archive_path base relative; key = snd entry;
           directory = directory_reference full (ix_files ix)
       in if dc_keys s full \<noteq> None then Inl (DDeclaredTwice full)
          else if key \<noteq> [] \<and> length key \<noteq> 32 then Inl (DEntryKeyLength full (length key))
          else if full \<notin> set contents \<and> map_of (ix_files ix) full = None \<and> \<not> directory then Inl (DMissing full)
          else if directory then
            (if key \<noteq> [] then Inl (DDirectoryKey full)
             else Inr (s\<lparr>dc_keys := (dc_keys s)(full \<mapsto> [])\<rparr>))
          else Inr (s\<lparr>dc_keys := (dc_keys s)(full \<mapsto> key),
                      dc_plain := (if key = [] then dc_plain s + 1 else dc_plain s),
                      dc_encrypted := (if key = [] then dc_encrypted s else dc_encrypted s + 1)\<rparr>))"

record declare_state =
  ds_keys :: "string \<rightharpoonup> string"
  ds_contents :: "string list"
  ds_total :: nat
  ds_plaintext :: nat
  ds_content_id :: string
  ds_manifests :: "contents_manifest list"

definition declare_start :: declare_state where
  "declare_start = \<lparr>ds_keys = Map.empty, ds_contents = [], ds_total = 0, ds_plaintext = max_contents_plaintext,
     ds_content_id = [], ds_manifests = []\<rparr>"

text \<open>One contents manifest: decrypt it, charge the budgets, agree on the content id, declare its entries.\<close>

definition declare_manifest :: "bytes \<Rightarrow> pack_index \<Rightarrow> declare_state \<Rightarrow> string \<Rightarrow> decrypt_error + declare_state" where
  "declare_manifest key ix s path =
     res_bind (decrypt_contents key path (the (map_of (ix_files ix) path))) (\<lambda>(manifest, content_id, entries).
       if length (cm_plaintext manifest) > ds_plaintext s then Inl DPlaintextLimit
       else if length entries > max_archive_entries - ds_total s then Inl DTotalEntries
       else if ds_content_id s \<noteq> [] \<and> ds_content_id s \<noteq> content_id then Inl (DContentID path content_id)
       else
         (let contents = ds_contents s @ [path] in
          res_bind (foldM (declare_entry ix contents (dir_or_empty path))
                      \<lparr>dc_keys = ds_keys s, dc_plain = 0, dc_encrypted = 0\<rparr> entries) (\<lambda>dc.
            Inr \<lparr>ds_keys = dc_keys dc, ds_contents = contents, ds_total = ds_total s + length entries,
                 ds_plaintext = ds_plaintext s - length (cm_plaintext manifest), ds_content_id = content_id,
                 ds_manifests = ds_manifests s @ [manifest\<lparr>cm_summary := (cm_summary manifest)
                   \<lparr>ct_plain := dc_plain dc, ct_encrypted := dc_encrypted dc\<rparr>\<rparr>]\<rparr>)))"

section \<open>Plaintext\<close>

definition text_suffixes :: "string list" where
  "text_suffixes = [''.cfg'', ''.csv'', ''.fsh'', ''.glsl'', ''.hlsl'', ''.ini'', ''.json'', ''.lang'',
     ''.material'', ''.mcmeta'', ''.md'', ''.properties'', ''.txt'', ''.vsh'', ''.xml'', ''.yaml'', ''.yml'']"

definition is_text_like :: "string \<Rightarrow> bool" where
  "is_text_like name = list_ex (\<lambda>suffix. has_suffix (to_lower name) suffix) text_suffixes"

definition looks_like_plaintext :: "bytes \<Rightarrow> bool" where
  "looks_like_plaintext data =
     (utf8_valid (map unat data)
      \<and> list_all (\<lambda>(r, _). \<not> (r = 0 \<or> (is_control_rune r \<and> r \<noteq> 9 \<and> r \<noteq> 10 \<and> r \<noteq> 13))) (runes (map unat data)))"

section \<open>Output\<close>

record out_state =
  os_entries :: "out_entry list"
  os_remaining :: nat
  os_directories :: int
  os_copied :: int
  os_decrypted :: int
  os_payload :: int

definition out_start :: out_state where
  "out_start = \<lparr>os_entries = [], os_remaining = max_decrypted_payload, os_directories = 0, os_copied = 0,
     os_decrypted = 0, os_payload = 0\<rparr>"

text \<open>Root metadata is plain whatever a declaration says.\<close>

definition entry_key :: "string \<Rightarrow> string \<Rightarrow> (string \<rightharpoonup> string) \<Rightarrow> string \<Rightarrow> string" where
  "entry_key root manifest keys name =
     (if name = manifest \<or> name = join_archive_path root ''pack_icon.png'' \<or> name = join_archive_path root ''bug_pack_icon.png''
      then [] else case keys name of None \<Rightarrow> [] | Some k \<Rightarrow> k)"

text \<open>
  \<^verbatim>\<open>copyWithBudget\<close>: at most one byte more than the budget is read; a larger input and an
  input that fails are errors.
\<close>

definition copy_with_budget :: "nat \<Rightarrow> zip_content \<Rightarrow> bytes option" where
  "copy_with_budget remaining source =
     (case source of
        ZipNoOpen \<Rightarrow> None
      | ZipFails b \<Rightarrow> None
      | ZipData b \<Rightarrow> if length b > remaining then None else Some b)"

fun map_content :: "(bytes \<Rightarrow> bytes) \<Rightarrow> zip_content \<Rightarrow> zip_content" where
  "map_content f ZipNoOpen = ZipNoOpen"
| "map_content f (ZipFails b) = ZipFails (f b)"
| "map_content f (ZipData b) = ZipData (f b)"

text \<open>
  The source of an output entry and whether it counts as decrypted: text that a key is declared for is
  read first, and kept as it is when it is text already and its decryption is not.
\<close>

definition entry_input :: "string \<Rightarrow> zip_file \<Rightarrow> decrypt_error + zip_content \<times> bool" where
  "entry_input key file =
     (let name = zf_name file in
      if key \<noteq> [] \<and> is_text_like name \<and> zf_size file \<le> max_contents_manifest_size
      then (case read_limited file of
              None \<Rightarrow> Inl (DReadEntry name)
            | Some data \<Rightarrow>
                (let decrypted = decrypt_bytes (to_bytes key) data in
                 if looks_like_plaintext data \<and> \<not> looks_like_plaintext decrypted
                 then Inr (ZipData data, False) else Inr (ZipData decrypted, True)))
      else if zf_content file = ZipNoOpen then Inl (DReadEntry name)
      else if key \<noteq> [] then Inr (map_content (decrypt_bytes (to_bytes key)) (zf_content file), True)
      else Inr (zf_content file, False))"

definition write_file :: "writer_faults \<Rightarrow> string \<Rightarrow> zip_file \<Rightarrow> out_state \<Rightarrow> decrypt_error + out_state" where
  "write_file ft key file s =
     (let name = zf_name file in
      if zf_size file > max_decrypted_payload then Inl (DPayloadLimit name)
      else res_bind (entry_input key file) (\<lambda>(source, decrypted).
        case copy_with_budget (os_remaining s) source of
          None \<Rightarrow> Inl (DWriteEntry name)
        | Some data \<Rightarrow>
            if wf_copy ft = Some name then Inl (DWriteEntry name)
            else if length data \<noteq> zf_size file then Inl (DWrittenSize name (length data) (zf_size file))
            else Inr (s\<lparr>os_entries := os_entries s @ [\<lparr>oe_name = name, oe_dir = False, oe_data = data\<rparr>],
                        os_remaining := os_remaining s - length data,
                        os_copied := (if decrypted then os_copied s else os_copied s + 1),
                        os_decrypted := (if decrypted then os_decrypted s + 1 else os_decrypted s),
                        os_payload := os_payload s + int (length data)\<rparr>)))"

definition write_out :: "writer_faults \<Rightarrow> string list \<Rightarrow> (string \<Rightarrow> string) \<Rightarrow> out_state \<Rightarrow> zip_file \<Rightarrow>
    decrypt_error + out_state" where
  "write_out ft contents key_of s file =
     (let name = zf_name file in
      if name \<in> set contents then Inr s
      else if zf_symlink file then Inl (DSymlink name)
      else if \<not> zf_dir file \<and> \<not> zf_regular file then Inl (DNotRegular name)
      else if wf_create ft = Some name then Inl (DCreate name)
      else if zf_dir file
      then Inr (s\<lparr>os_entries := os_entries s @ [\<lparr>oe_name = name, oe_dir = True, oe_data = []\<rparr>],
                  os_directories := os_directories s + 1\<rparr>)
      else write_file ft (key_of name) file s)"

section \<open>The whole archive\<close>

text \<open>
  \<^verbatim>\<open>DecryptArchive\<close>. \<open>source\<close> is \<^term>\<open>None\<close> for a nil reader; inside, \<^term>\<open>None\<close> is an input
  that is no zip archive. The result is the report with the manifests, and the written entries.
\<close>

definition decrypt_archive :: "writer_faults \<Rightarrow> zip_file list option option \<Rightarrow> bool \<Rightarrow> int \<Rightarrow> string \<Rightarrow>
    decrypt_error + decrypt_result \<times> out_entry list" where
  "decrypt_archive ft source destination archive_size content_key =
     (case source of
        None \<Rightarrow> Inl DSourceNil
      | Some archive \<Rightarrow>
          if \<not> destination then Inl DDestinationNil
          else if archive_size < 0 then Inl DNegativeSize
          else if length content_key \<noteq> 32 then Inl (DKeyLength (length content_key))
          else case archive of
            None \<Rightarrow> Inl DOpenArchive
          | Some files \<Rightarrow>
              if length files > max_archive_entries then Inl (DTooManyEntries (length files))
              else res_bind (foldM index_file \<lparr>ix_files = [], ix_manifests = []\<rparr> files) (\<lambda>ix.
                if ix_manifests ix = [] then Inl DNoManifest
                else
                  (let manifest = root_manifest ix; root = dir_or_empty manifest;
                       first = join_archive_path root ''contents.json''; paths = contents_paths ix root
                   in if map_of (ix_files ix) first = None then Inl (DNoContents first)
                      else if length paths > max_contents_manifests then Inl (DTooManyManifests (length paths))
                      else res_bind (foldM (declare_manifest (to_bytes content_key) ix) declare_start paths) (\<lambda>ds.
                        res_bind (foldM (write_out ft paths (entry_key root manifest (ds_keys ds))) out_start files) (\<lambda>out.
                          if wf_close ft then Inl DCloseArchive
                          else Inr (\<lparr>rs_report =
                                 \<lparr>dr_algorithm = ''AES-256-CFB8'', dr_authenticated = False, dr_content_id = ds_content_id ds,
                                  dr_input = int (length files), dr_output = int (length (os_entries out)),
                                  dr_decrypted = os_decrypted out, dr_copied = os_copied out,
                                  dr_directories = os_directories out, dr_payload = os_payload out,
                                  dr_contents = map cm_summary (ds_manifests ds)\<rparr>,
                               rs_manifests = ds_manifests ds\<rparr>, os_entries out))))))"

end
