(* ===== verification/Json_Print.thy ===== *)
theory Json_Print
  imports Go_Json
begin

text \<open>
  Printing JSON tokens and reading them back: the lexer returns every sequence of tokens whose
  strings need no escapes. Components use it to build texts that their decoders accept.
\<close>

definition plain_char :: "char \<Rightarrow> bool" where
  "plain_char c \<longleftrightarrow> 0x20 \<le> ord c \<and> ord c < 0x80 \<and> c \<noteq> CHR 0x22 \<and> c \<noteq> CHR 0x5C"

definition plain_text :: "string \<Rightarrow> bool" where
  "plain_text s \<longleftrightarrow> list_all plain_char s"

lemma plain_text_simps [simp]:
  "plain_text []" "plain_text (c # s) \<longleftrightarrow> plain_char c \<and> plain_text s"
  "plain_text (s @ t) \<longleftrightarrow> plain_text s \<and> plain_text t"
  by (simp_all add: plain_text_def)

fun print_token :: "token \<Rightarrow> string" where
  "print_token TLBrace = ''{''"
| "print_token TRBrace = ''}''"
| "print_token TLBrack = ''[''"
| "print_token TRBrack = '']''"
| "print_token TComma = '',''"
| "print_token TColon = '':''"
| "print_token (TStr s) = [CHR 0x22] @ s @ [CHR 0x22]"
| "print_token (TNum s) = s"
| "print_token TTrue = ''true''"
| "print_token TFalse = ''false''"
| "print_token TNull = ''null''"

fun plain_token :: "token \<Rightarrow> bool" where
  "plain_token (TStr s) = plain_text s"
| "plain_token (TNum s) = False"
| "plain_token _ = True"

definition print_tokens :: "token list \<Rightarrow> string" where
  "print_tokens ts = concat (map print_token ts)"

lemma print_tokens_simps [simp]:
  "print_tokens [] = []" "print_tokens (t # ts) = print_token t @ print_tokens ts"
  "print_tokens (ts @ us) = print_tokens ts @ print_tokens us"
  by (simp_all add: print_tokens_def)

lemma ord_eq_iff: "ord c = ord d \<longleftrightarrow> c = d"
  by (simp add: ord_def)

lemma ord_quote: "ord (CHR 0x22) = 34" "ord (CHR 0x5C) = 92"
  by (simp_all add: ord_def)

lemma string_elem_plain:
  assumes "plain_char c"
  shows "string_elem (ord c # bs) = Some ([ord c], 1)"
proof -
  have "ord c \<noteq> 92" using assms ord_eq_iff [of c "CHR 0x5C"] by (auto simp: plain_char_def ord_quote)
  then show ?thesis
    using assms by (simp add: string_elem_def plain_char_def decode_rune_def encode_rune_def)
qed

lemma lex_string_plain:
  "plain_text s \<Longrightarrow> lex_string (map ord s @ 34 # bs) = Some (map ord s, bs)"
proof (induction s)
  case Nil
  then show ?case by (subst lex_string.simps) simp
next
  case (Cons c s)
  then have c: "plain_char c" "ord c \<noteq> 34"
    using ord_eq_iff [of c "CHR 0x22"] by (auto simp: plain_char_def ord_quote)
  show ?case
    using Cons c by (subst lex_string.simps) (simp add: string_elem_plain)
qed

lemma lex_print_token:
  assumes "plain_token t"
  shows "lex (print_token t @ r) = map_option ((#) t) (lex r)"
proof (cases t)
  case (TStr s)
  have "lex_string (map ord (s @ CHR 0x22 # r)) = Some (map ord s, map ord r)"
    using assms TStr lex_string_plain [of s "map ord r"] by (simp add: ord_quote)
  then show ?thesis
    using TStr by (subst lex.simps) (simp add: ord_quote comp_def)
qed (use assms in \<open>(subst lex.simps, simp add: ord_def has_prefix_def)+\<close>)

lemma lex_print_tokens: "list_all plain_token ts \<Longrightarrow> lex (print_tokens ts) = Some ts"
  by (induction ts) (simp_all add: lex_print_token lex.simps [of "[]"])

text \<open>So parsing a printed sequence of tokens is running the parser on the tokens.\<close>

lemma json_parse_tokens:
  "list_all plain_token ts \<Longrightarrow>
   json_parse (print_tokens ts)
   = (case json_run ([], ExpValue) ts of Some (_, ExpDone v) \<Rightarrow> Some v | _ \<Rightarrow> None)"
  by (simp add: json_parse_def lex_print_tokens)

lemma json_run_append:
  "json_run st (ts @ us) = (case json_run st ts of None \<Rightarrow> None | Some st' \<Rightarrow> json_run st' us)"
  by (induction st ts rule: json_run.induct) (auto split: option.splits)

lemma json_fold_lower:
  assumes "\<forall>c \<in> set s. ord c < 0x80 \<and> \<not> (65 \<le> ord c \<and> ord c \<le> 90)"
  shows "json_fold s = s"
proof -
  have "runes (map ord s) = map (\<lambda>b. (b, [b])) (map ord s)" using assms by (intro runes_ascii) auto
  moreover have "concat (map fold_rune (map (\<lambda>b. (b, [b])) (map ord s))) = map ord s"
    using assms by (induction s) (auto simp: fold_rune_def)
  ultimately show ?thesis by (simp add: json_fold_def)
qed

end
