(* ===== verification/PackDecrypt_Theorems.thy ===== *)
theory PackDecrypt_Theorems
  imports PackDecrypt Json_Print
begin

text \<open>
  Properties of the resource pack decryption: the cipher mode against its standard definition and its
  inverse, the correctness of the derived archive, its paths, the limits and the report, and the
  recovery of an encrypted pack.
\<close>

section \<open>The cipher mode\<close>

text \<open>
  The mode as the standard states it: byte \<open>j\<close> of the output is byte \<open>j\<close> of the input combined with
  the first byte of the encrypted input block, which is the last 16 bytes of the initial vector
  followed by the ciphertext before \<open>j\<close>.
\<close>

definition input_block :: "bytes \<Rightarrow> bytes \<Rightarrow> nat \<Rightarrow> bytes" where
  "input_block iv ciphertext j = drop j (iv @ take j ciphertext)"

definition cfb8_standard :: "(bytes \<Rightarrow> bytes) \<Rightarrow> bytes \<Rightarrow> bytes \<Rightarrow> bytes" where
  "cfb8_standard enc iv ciphertext =
     concat (map (\<lambda>j. xor_bytes [ciphertext ! j] (take 1 (enc (input_block iv ciphertext j))))
                 [0..<length ciphertext])"

text \<open>The encryption of the mode, the operation that makes the packs the program reads.\<close>

fun cfb8_encrypt :: "(bytes \<Rightarrow> bytes) \<Rightarrow> bytes \<Rightarrow> bytes \<Rightarrow> bytes" where
  "cfb8_encrypt enc register [] = []"
| "cfb8_encrypt enc register (p # ps) =
     (let c = p XOR enc register ! 0 in c # cfb8_encrypt enc (tl register @ [c]) ps)"

definition encrypt_bytes :: "bytes \<Rightarrow> bytes \<Rightarrow> bytes" where
  "encrypt_bytes key plaintext = cfb8_encrypt (aes_encrypt key) (take 16 key) plaintext"

lemma length_cfb8_decrypt [simp]: "length (cfb8_decrypt enc r cs) = length cs"
  by (induction enc r cs rule: cfb8_decrypt.induct) simp_all

lemma length_cfb8_encrypt [simp]: "length (cfb8_encrypt enc r ps) = length ps"
  by (induction enc r ps rule: cfb8_encrypt.induct) (simp_all add: Let_def)

lemma length_crypt_bytes [simp]:
  "length (decrypt_bytes key b) = length b" "length (encrypt_bytes key b) = length b"
  by (simp_all add: decrypt_bytes_def encrypt_bytes_def)

lemma cfb8_decrypt_encrypt: "cfb8_decrypt enc r (cfb8_encrypt enc r ps) = ps"
  by (induction enc r ps rule: cfb8_encrypt.induct) (simp_all add: Let_def xor.assoc)

lemma cfb8_encrypt_decrypt: "cfb8_encrypt enc r (cfb8_decrypt enc r cs) = cs"
  by (induction enc r cs rule: cfb8_decrypt.induct) (simp_all add: Let_def xor.assoc)

text \<open>Decrypting in two steps carries the register from the first to the second.\<close>

lemma cfb8_decrypt_append:
  "length r = 16 \<Longrightarrow>
   cfb8_decrypt enc r (a @ b) = cfb8_decrypt enc r a @ cfb8_decrypt enc (drop (length a) (r @ a)) b"
proof (induction a arbitrary: r)
  case Nil
  then show ?case by simp
next
  case (Cons x a)
  from Cons.prems obtain h t where r: "r = h # t" by (cases r) auto
  with Cons show ?case by (simp del: drop_append)
qed

lemma cfb8_decrypt_nth:
  assumes "length r = 16" "j < length cs"
  shows "cfb8_decrypt enc r cs ! j = cs ! j XOR enc (input_block r cs j) ! 0"
proof -
  have "cfb8_decrypt enc r cs = cfb8_decrypt enc r (take j cs) @ cfb8_decrypt enc (input_block r cs j) (drop j cs)"
    using assms cfb8_decrypt_append [of r enc "take j cs" "drop j cs"] by (simp add: input_block_def del: drop_append)
  moreover have "drop j cs = cs ! j # drop (Suc j) cs" using assms(2) by (rule Cons_nth_drop_Suc [symmetric])
  ultimately show ?thesis using assms(2) by (simp add: nth_append del: append_take_drop_id)
qed

context block_cipher begin

lemma cfb8_is_standard:
  assumes "valid_key k" "length r = 16"
  shows "cfb8_decrypt (block k) r cs = cfb8_standard (block k) r cs"
proof -
  have b: "xor_bytes [cs ! j] (take 1 (block k (input_block r cs j))) = [cs ! j XOR block k (input_block r cs j) ! 0]"
    if "j < length cs" for j
    using that assms block_first [OF assms(1), of "input_block r cs j"] by (simp add: input_block_def xor_bytes_def)
  have "concat (map (\<lambda>j. xor_bytes [cs ! j] (take 1 (block k (input_block r cs j)))) [0..<length cs])
      = concat (map (\<lambda>j. [cs ! j XOR block k (input_block r cs j) ! 0]) [0..<length cs])"
    using b by (intro arg_cong [of _ _ concat] map_cong) auto
  also have "\<dots> = map (\<lambda>j. cs ! j XOR block k (input_block r cs j) ! 0) [0..<length cs]" by (simp add: concat_map_singleton)
  also have "\<dots> = cfb8_decrypt (block k) r cs"
    using assms(2) by (intro nth_equalityI) (simp_all add: cfb8_decrypt_nth)
  finally show ?thesis by (simp add: cfb8_standard_def)
qed

text \<open>
  The mode synchronises itself: whatever register it starts with, the output after 16 input bytes is
  decided by the input alone.
\<close>

lemma cfb8_synchronises:
  assumes "length r = 16" "length r' = 16" "16 \<le> j" "j < length cs"
  shows "cfb8_decrypt (block k) r cs ! j = cfb8_decrypt (block k) r' cs ! j"
proof -
  have "input_block r cs j = input_block r' cs j" using assms by (simp add: input_block_def)
  then show ?thesis using assms by (simp add: cfb8_decrypt_nth)
qed

end

text \<open>
  C15. For a key of 32 bytes the program's decryption is AES-256-CFB8 as the standard defines it, with
  the first 16 bytes of the key as initial vector: every byte is combined with the first byte of the
  encrypted block of the 16 bytes before it. So a byte after the first sixteen depends on the key and
  the 17 ciphertext bytes up to it only.
\<close>

theorem decryption_is_standard:
  assumes "length key = 32"
  shows "decrypt_bytes key ciphertext = cfb8_standard (aes_encrypt key) (take 16 key) ciphertext
    \<and> (\<forall>j \<in> {16..<length ciphertext}.
         decrypt_bytes key ciphertext ! j
         = ciphertext ! j XOR aes_encrypt key (map (\<lambda>i. ciphertext ! i) [j - 16..<j]) ! 0)"
proof (intro conjI ballI)
  have iv: "length (take 16 key) = 16" using assms by simp
  show "decrypt_bytes key ciphertext = cfb8_standard (aes_encrypt key) (take 16 key) ciphertext"
    unfolding decrypt_bytes_def by (rule aes.cfb8_is_standard [OF assms iv])
  fix j assume "j \<in> {16..<length ciphertext}"
  then have j: "16 \<le> j" "j < length ciphertext" by auto
  have "input_block (take 16 key) ciphertext j = map (\<lambda>i. ciphertext ! i) [j - 16..<j]"
    using j iv by (intro nth_equalityI) (auto simp: input_block_def)
  then show "decrypt_bytes key ciphertext ! j
      = ciphertext ! j XOR aes_encrypt key (map (\<lambda>i. ciphertext ! i) [j - 16..<j]) ! 0"
    using cfb8_decrypt_nth [OF iv j(2), of "aes_encrypt key"] by (simp add: decrypt_bytes_def)
qed

theorem decryption_is_standard_witness:
  "decrypt_bytes (replicate 32 7) [1, 2, 3] = cfb8_standard (aes_encrypt (replicate 32 7)) (take 16 (replicate 32 7)) [1, 2, 3]"
  using decryption_is_standard [of "replicate 32 7" "[1, 2, 3]"] by simp

text \<open>
  Decryption is the inverse of encryption with the same key, on inputs of any length and in both
  directions, and keeps the length.
\<close>

theorem cfb8_round_trip:
  "decrypt_bytes key (encrypt_bytes key plaintext) = plaintext
   \<and> encrypt_bytes key (decrypt_bytes key ciphertext) = ciphertext
   \<and> length (decrypt_bytes key ciphertext) = length ciphertext"
  by (simp add: decrypt_bytes_def encrypt_bytes_def cfb8_decrypt_encrypt cfb8_encrypt_decrypt)

section \<open>The index\<close>

definition indexed :: "zip_file list \<Rightarrow> pack_index" where
  "indexed files =
     \<lparr>ix_files = map (\<lambda>f. (zf_name f, f)) files,
      ix_manifests = filter (\<lambda>n. base_path n = ''manifest.json'') (map zf_name (filter (\<lambda>f. \<not> zf_dir f) files))\<rparr>"

lemma clean_archive_path_Inr:
  assumes "clean_archive_path name d = Inr n"
  shows "n = name \<and> valid_string name \<and> CHR 0x5C \<notin> set name \<and> inside_rel (if d then butlast name else name)"
proof -
  from assms have u: "\<not> unsafe_name name" "\<not> unsafe_clean (clean_path name)"
    and n: "n = name" "name = (if d then clean_path name @ ''/'' else clean_path name)"
    by (auto simp: clean_archive_path_def Let_def split: if_splits)
  have "inside_rel (clean_path name)"
    using u by (intro clean_path_inside) (auto simp: unsafe_name_def unsafe_clean_def)
  moreover have "(if d then butlast name else name) = clean_path name"
  proof (cases d)
    case True
    then have "name = clean_path name @ ''/''" using n(2) by simp
    then show ?thesis using True by (metis butlast_snoc)
  next
    case False
    then show ?thesis using n(2) by simp
  qed
  ultimately show ?thesis using u(1) n(1) by (auto simp: unsafe_name_def)
qed

lemma clean_content_path_Inr: "clean_content_path name = Inr n \<Longrightarrow> n = name"
  by (auto simp: clean_content_path_def Let_def split: if_splits)

lemma index_file_Inr:
  assumes "index_file ix f = Inr ix'"
  shows "clean_archive_path (zf_name f) (zf_dir f) = Inr (zf_name f)" "zf_name f \<notin> fst ` set (ix_files ix)"
    "ix_files ix' = ix_files ix @ [(zf_name f, f)]"
    "ix_manifests ix' = ix_manifests ix @ (if \<not> zf_dir f \<and> base_path (zf_name f) = ''manifest.json'' then [zf_name f] else [])"
proof -
  from assms obtain n where c: "clean_archive_path (zf_name f) (zf_dir f) = Inr n"
    by (auto simp: index_file_def result_simps)
  then have n: "n = zf_name f" using clean_archive_path_Inr by blast
  show "clean_archive_path (zf_name f) (zf_dir f) = Inr (zf_name f)" using c n by simp
  with assms show "zf_name f \<notin> fst ` set (ix_files ix)" "ix_files ix' = ix_files ix @ [(zf_name f, f)]"
    "ix_manifests ix' = ix_manifests ix @ (if \<not> zf_dir f \<and> base_path (zf_name f) = ''manifest.json'' then [zf_name f] else [])"
    by (auto simp: index_file_def map_of_eq_None_iff split: if_splits)
qed

lemma index_Inr:
  assumes "foldM index_file \<lparr>ix_files = [], ix_manifests = []\<rparr> files = Inr ix"
  shows "ix = indexed files \<and> distinct (map zf_name files)
    \<and> (\<forall>f \<in> set files. clean_archive_path (zf_name f) (zf_dir f) = Inr (zf_name f))"
proof (rule foldM_induct [OF assms])
  show "\<lparr>ix_files = [], ix_manifests = []\<rparr> = indexed [] \<and> distinct (map zf_name [])
    \<and> (\<forall>f \<in> set []. clean_archive_path (zf_name f) (zf_dir f) = Inr (zf_name f))"
    by (simp add: indexed_def)
next
  fix fs f ix1 ix2
  assume h: "ix1 = indexed fs \<and> distinct (map zf_name fs)
      \<and> (\<forall>f \<in> set fs. clean_archive_path (zf_name f) (zf_dir f) = Inr (zf_name f))"
    and s: "index_file ix1 f = Inr ix2"
  have "ix2 = indexed (fs @ [f])"
    using h index_file_Inr(3,4) [OF s] by (intro pack_index.equality) (simp_all add: indexed_def)
  moreover have "zf_name f \<notin> zf_name ` set fs"
    using h index_file_Inr(2) [OF s] by (auto simp: indexed_def image_iff)
  ultimately show "ix2 = indexed (fs @ [f]) \<and> distinct (map zf_name (fs @ [f]))
      \<and> (\<forall>f \<in> set (fs @ [f]). clean_archive_path (zf_name f) (zf_dir f) = Inr (zf_name f))"
    using h index_file_Inr(1) [OF s] by auto
qed

section \<open>Declarations\<close>

text \<open>The keys a contents manifest at \<open>path\<close> with the given entries declares.\<close>

definition declares :: "string \<Rightarrow> contents_entry list \<Rightarrow> string \<Rightarrow> string \<Rightarrow> bool" where
  "declares path es name k \<longleftrightarrow> (\<exists>p. (p, k) \<in> set es \<and> name = join_archive_path (dir_or_empty path) p)"

definition good_key :: "string \<Rightarrow> bool" where "good_key k \<longleftrightarrow> k = [] \<or> length k = 32"

lemma declare_entry_Inr:
  assumes "declare_entry ix contents base s entry = Inr t"
  shows "dc_keys s (join_archive_path base (fst entry)) = None"
    "dc_keys t = (dc_keys s)(join_archive_path base (fst entry) \<mapsto> snd entry)" "good_key (snd entry)"
    "dc_plain t + dc_encrypted t \<le> dc_plain s + dc_encrypted s + 1"
proof -
  from assms obtain n where c: "clean_content_path (fst entry) = Inr n"
    by (auto simp: declare_entry_def result_simps)
  then have "n = fst entry" by (rule clean_content_path_Inr)
  with assms c show "dc_keys s (join_archive_path base (fst entry)) = None"
    "dc_keys t = (dc_keys s)(join_archive_path base (fst entry) \<mapsto> snd entry)" "good_key (snd entry)"
    "dc_plain t + dc_encrypted t \<le> dc_plain s + dc_encrypted s + 1"
    by (auto simp: declare_entry_def Let_def good_key_def split: if_splits)
qed

lemma declare_entries_Inr:
  assumes "foldM (declare_entry ix contents (dir_or_empty path)) s es = Inr t"
  shows "(\<forall>name k. dc_keys t name = Some k \<longleftrightarrow> dc_keys s name = Some k \<or> declares path es name k)
    \<and> (\<forall>name k. declares path es name k \<longrightarrow> good_key k)
    \<and> dc_plain t + dc_encrypted t \<le> dc_plain s + dc_encrypted s + int (length es)"
proof (rule foldM_induct [OF assms])
  show "(\<forall>name k. dc_keys s name = Some k \<longleftrightarrow> dc_keys s name = Some k \<or> declares path [] name k)
    \<and> (\<forall>name k. declares path [] name k \<longrightarrow> good_key k)
    \<and> dc_plain s + dc_encrypted s \<le> dc_plain s + dc_encrypted s + int (length [])"
    by (simp add: declares_def)
next
  fix es e u v
  assume h: "(\<forall>name k. dc_keys u name = Some k \<longleftrightarrow> dc_keys s name = Some k \<or> declares path es name k)
      \<and> (\<forall>name k. declares path es name k \<longrightarrow> good_key k)
      \<and> dc_plain u + dc_encrypted u \<le> dc_plain s + dc_encrypted s + int (length es)"
    and st: "declare_entry ix contents (dir_or_empty path) u e = Inr v"
  let ?n = "join_archive_path (dir_or_empty path) (fst e)"
  have d: "declares path (es @ [e]) name k \<longleftrightarrow> declares path es name k \<or> name = ?n \<and> k = snd e" for name k
    by (cases e) (auto simp: declares_def)
  have "dc_keys v name = Some k \<longleftrightarrow> dc_keys s name = Some k \<or> declares path (es @ [e]) name k" for name k
  proof (cases "name = ?n")
    case True
    have "dc_keys u ?n = None" by (rule declare_entry_Inr(1) [OF st])
    then have "dc_keys s ?n \<noteq> Some k \<and> \<not> declares path es ?n k" using h by (metis option.distinct(1))
    then show ?thesis using declare_entry_Inr(2) [OF st] d True by auto
  next
    case False
    then show ?thesis using h declare_entry_Inr(2) [OF st] d by simp
  qed
  moreover have "declares path (es @ [e]) name k \<Longrightarrow> good_key k" for name k
    using h d declare_entry_Inr(3) [OF st] by blast
  moreover have "dc_plain v + dc_encrypted v \<le> dc_plain s + dc_encrypted s + int (length (es @ [e]))"
    using h declare_entry_Inr(4) [OF st] by simp
  ultimately show "(\<forall>name k. dc_keys v name = Some k \<longleftrightarrow> dc_keys s name = Some k \<or> declares path (es @ [e]) name k)
      \<and> (\<forall>name k. declares path (es @ [e]) name k \<longrightarrow> good_key k)
      \<and> dc_plain v + dc_encrypted v \<le> dc_plain s + dc_encrypted s + int (length (es @ [e]))" by blast
qed

lemma decrypt_contents_Inr:
  assumes "decrypt_contents key path f = Inr (m, cid, es)"
  shows "parse_contents path (cm_plaintext m) = Inr es" "cm_summary m = \<lparr>ct_path = path, ct_entries = int (length es), ct_encrypted = 0, ct_plain = 0\<rparr>"
  using assms by (auto simp: decrypt_contents_def Let_def result_simps split: option.splits if_splits)

text \<open>The keys that the manifests of a result declare.\<close>

definition manifest_declares :: "contents_manifest \<Rightarrow> string \<Rightarrow> string \<Rightarrow> bool" where
  "manifest_declares m name k \<longleftrightarrow>
     (\<exists>es. parse_contents (ct_path (cm_summary m)) (cm_plaintext m) = Inr es
       \<and> declares (ct_path (cm_summary m)) es name k)"

definition declared_key :: "contents_manifest list \<Rightarrow> string \<Rightarrow> string \<Rightarrow> bool" where
  "declared_key ms name k \<longleftrightarrow> (\<exists>m \<in> set ms. manifest_declares m name k)"

definition declared_ok :: "string list \<Rightarrow> declare_state \<Rightarrow> bool" where
  "declared_ok paths ds \<longleftrightarrow>
     ds_contents ds = paths \<and> map (ct_path \<circ> cm_summary) (ds_manifests ds) = paths
     \<and> (\<forall>name k. ds_keys ds name = Some k \<longleftrightarrow> declared_key (ds_manifests ds) name k)
     \<and> (\<forall>name k. declared_key (ds_manifests ds) name k \<longrightarrow> good_key k)
     \<and> ds_plaintext ds + sum_list (map (length \<circ> cm_plaintext) (ds_manifests ds)) = max_contents_plaintext
     \<and> int (ds_total ds) = sum_list (map (ct_entries \<circ> cm_summary) (ds_manifests ds))
     \<and> ds_total ds \<le> max_archive_entries
     \<and> list_all (\<lambda>m. ct_encrypted (cm_summary m) + ct_plain (cm_summary m) \<le> ct_entries (cm_summary m)) (ds_manifests ds)"

lemma declare_manifest_Inr:
  assumes "declare_manifest key ix s path = Inr t"
  obtains m cid es dc where "decrypt_contents key path (the (map_of (ix_files ix) path)) = Inr (m, cid, es)"
    "length (cm_plaintext m) \<le> ds_plaintext s" "length es \<le> max_archive_entries - ds_total s"
    "foldM (declare_entry ix (ds_contents s @ [path]) (dir_or_empty path)) \<lparr>dc_keys = ds_keys s, dc_plain = 0, dc_encrypted = 0\<rparr> es = Inr dc"
    "t = \<lparr>ds_keys = dc_keys dc, ds_contents = ds_contents s @ [path], ds_total = ds_total s + length es,
          ds_plaintext = ds_plaintext s - length (cm_plaintext m), ds_content_id = cid,
          ds_manifests = ds_manifests s @ [m\<lparr>cm_summary := (cm_summary m)
             \<lparr>ct_plain := dc_plain dc, ct_encrypted := dc_encrypted dc\<rparr>\<rparr>]\<rparr>"
proof -
  from assms obtain m cid es where d: "decrypt_contents key path (the (map_of (ix_files ix) path)) = Inr (m, cid, es)"
    by (auto simp: declare_manifest_def result_simps)
  with assms that [OF d] show ?thesis
    by (auto simp: declare_manifest_def Let_def result_simps split: if_splits)
qed

lemma declare_manifest_ok:
  assumes "declared_ok ps s" "declare_manifest key ix s path = Inr t"
  shows "declared_ok (ps @ [path]) t"
proof (rule declare_manifest_Inr [OF assms(2)])
  fix m cid es dc
  assume d: "decrypt_contents key path (the (map_of (ix_files ix) path)) = Inr (m, cid, es)"
    and pl: "length (cm_plaintext m) \<le> ds_plaintext s" and el: "length es \<le> max_archive_entries - ds_total s"
    and f: "foldM (declare_entry ix (ds_contents s @ [path]) (dir_or_empty path)) \<lparr>dc_keys = ds_keys s, dc_plain = 0, dc_encrypted = 0\<rparr> es = Inr dc"
    and t: "t = \<lparr>ds_keys = dc_keys dc, ds_contents = ds_contents s @ [path], ds_total = ds_total s + length es,
          ds_plaintext = ds_plaintext s - length (cm_plaintext m), ds_content_id = cid,
          ds_manifests = ds_manifests s @ [m\<lparr>cm_summary := (cm_summary m)
             \<lparr>ct_plain := dc_plain dc, ct_encrypted := dc_encrypted dc\<rparr>\<rparr>]\<rparr>"
  let ?m = "m\<lparr>cm_summary := (cm_summary m)\<lparr>ct_plain := dc_plain dc, ct_encrypted := dc_encrypted dc\<rparr>\<rparr>"
  note dm = decrypt_contents_Inr [OF d]
  note de = declare_entries_Inr [OF f]
  have md: "manifest_declares ?m name k \<longleftrightarrow> declares path es name k" for name k
    using dm by (simp add: manifest_declares_def)
  have dk: "declared_key (ds_manifests t) name k \<longleftrightarrow> declared_key (ds_manifests s) name k \<or> declares path es name k" for name k
    using md by (auto simp: t declared_key_def)
  have keys: "ds_keys t name = Some k \<longleftrightarrow> declared_key (ds_manifests t) name k" for name k
  proof -
    have "ds_keys t name = Some k \<longleftrightarrow> ds_keys s name = Some k \<or> declares path es name k" using de by (simp add: t)
    then show ?thesis using assms(1) dk by (simp add: declared_ok_def)
  qed
  have good: "declared_key (ds_manifests t) name k \<Longrightarrow> good_key k" for name k
    using dk de assms(1) unfolding declared_ok_def by blast
  have count: "dc_plain dc + dc_encrypted dc \<le> int (length es)" using de by simp
  show "declared_ok (ps @ [path]) t"
    unfolding declared_ok_def
  proof (intro conjI)
    show "\<forall>name k. ds_keys t name = Some k \<longleftrightarrow> declared_key (ds_manifests t) name k" using keys by blast
    show "\<forall>name k. declared_key (ds_manifests t) name k \<longrightarrow> good_key k" using good by blast
  qed (use assms(1) dm pl el count in \<open>auto simp: declared_ok_def t\<close>)
qed

text \<open>
  The counts of a manifest: the entries with a key, and those without one that are no directories.
\<close>

definition plain_declaration :: "pack_index \<Rightarrow> string \<Rightarrow> contents_entry \<Rightarrow> bool" where
  "plain_declaration ix path e = (snd e = [] \<and> \<not> directory_reference (join_archive_path (dir_or_empty path) (fst e)) (ix_files ix))"

definition manifest_counted :: "pack_index \<Rightarrow> contents_manifest \<Rightarrow> bool" where
  "manifest_counted ix m = (\<exists>es. parse_contents (ct_path (cm_summary m)) (cm_plaintext m) = Inr es
     \<and> ct_entries (cm_summary m) = int (length es)
     \<and> ct_encrypted (cm_summary m) = int (length (filter (\<lambda>e. snd e \<noteq> []) es))
     \<and> ct_plain (cm_summary m) = int (length (filter (plain_declaration ix (ct_path (cm_summary m))) es)))"

lemma declare_entry_counts:
  assumes "declare_entry ix contents (dir_or_empty path) s entry = Inr t"
  shows "dc_encrypted t = dc_encrypted s + (if snd entry \<noteq> [] then 1 else 0)"
    "dc_plain t = dc_plain s + (if plain_declaration ix path entry then 1 else 0)"
proof -
  from assms obtain n where c: "clean_content_path (fst entry) = Inr n"
    by (auto simp: declare_entry_def result_simps)
  then have "n = fst entry" by (rule clean_content_path_Inr)
  with assms c show "dc_encrypted t = dc_encrypted s + (if snd entry \<noteq> [] then 1 else 0)"
    "dc_plain t = dc_plain s + (if plain_declaration ix path entry then 1 else 0)"
    by (auto simp: declare_entry_def plain_declaration_def Let_def split: if_splits)
qed

lemma declare_entries_counts:
  assumes "foldM (declare_entry ix contents (dir_or_empty path)) s es = Inr t"
  shows "dc_encrypted t = dc_encrypted s + int (length (filter (\<lambda>e. snd e \<noteq> []) es))
    \<and> dc_plain t = dc_plain s + int (length (filter (plain_declaration ix path) es))"
  by (rule foldM_induct [OF assms]) (auto dest: declare_entry_counts)

lemma declare_manifest_counts:
  assumes "list_all (manifest_counted ix) (ds_manifests s)" "declare_manifest key ix s path = Inr t"
  shows "list_all (manifest_counted ix) (ds_manifests t)"
proof (rule declare_manifest_Inr [OF assms(2)])
  fix m cid es dc
  assume d: "decrypt_contents key path (the (map_of (ix_files ix) path)) = Inr (m, cid, es)"
    and f: "foldM (declare_entry ix (ds_contents s @ [path]) (dir_or_empty path)) \<lparr>dc_keys = ds_keys s, dc_plain = 0, dc_encrypted = 0\<rparr> es = Inr dc"
    and t: "t = \<lparr>ds_keys = dc_keys dc, ds_contents = ds_contents s @ [path], ds_total = ds_total s + length es,
          ds_plaintext = ds_plaintext s - length (cm_plaintext m), ds_content_id = cid,
          ds_manifests = ds_manifests s @ [m\<lparr>cm_summary := (cm_summary m)
             \<lparr>ct_plain := dc_plain dc, ct_encrypted := dc_encrypted dc\<rparr>\<rparr>]\<rparr>"
  have "manifest_counted ix (m\<lparr>cm_summary := (cm_summary m)\<lparr>ct_plain := dc_plain dc, ct_encrypted := dc_encrypted dc\<rparr>\<rparr>)"
    using decrypt_contents_Inr [OF d] declare_entries_counts [OF f] unfolding manifest_counted_def
    by (intro exI [of _ es]) simp
  then show "list_all (manifest_counted ix) (ds_manifests t)" using assms(1) by (simp add: t)
qed

lemma declare_manifests_counts:
  assumes "foldM (declare_manifest key ix) declare_start paths = Inr ds"
  shows "list_all (manifest_counted ix) (ds_manifests ds)"
proof (rule foldM_induct [OF assms])
  show "list_all (manifest_counted ix) (ds_manifests declare_start)" by (simp add: declare_start_def)
qed (rule declare_manifest_counts)

lemma declare_manifests_ok:
  assumes "foldM (declare_manifest key ix) declare_start paths = Inr ds"
  shows "declared_ok paths ds"
proof (rule foldM_induct [OF assms])
  show "declared_ok [] declare_start" by (simp add: declared_ok_def declare_start_def declared_key_def)
qed (rule declare_manifest_ok)

section \<open>The output\<close>

text \<open>
  What the bytes of an entry become under a key: they are decrypted unless there is no key, or the
  entry is text already and its decryption is not.
\<close>

definition kept_as_text :: "zip_file \<Rightarrow> string \<Rightarrow> bytes \<Rightarrow> bool" where
  "kept_as_text f k data \<longleftrightarrow> is_text_like (zf_name f) \<and> zf_size f \<le> max_contents_manifest_size
     \<and> looks_like_plaintext data \<and> \<not> looks_like_plaintext (decrypt_bytes (to_bytes k) data)"

definition derived_data :: "zip_file \<Rightarrow> string \<Rightarrow> bytes \<Rightarrow> bytes" where
  "derived_data f k data = (if k = [] \<or> kept_as_text f k data then data else decrypt_bytes (to_bytes k) data)"

definition derived_entry :: "(string \<Rightarrow> string) \<Rightarrow> zip_file \<Rightarrow> out_entry \<Rightarrow> bool" where
  "derived_entry key_of f e \<longleftrightarrow> oe_name e = zf_name f \<and> oe_dir e = zf_dir f \<and> \<not> zf_symlink f
     \<and> (if zf_dir f then oe_data e = []
        else zf_regular f \<and> (\<exists>data. zf_content f = ZipData data \<and> zf_size f = length data
               \<and> oe_data e = derived_data f (key_of (zf_name f)) data))"

definition is_decrypted :: "(string \<Rightarrow> string) \<Rightarrow> zip_file \<Rightarrow> bool" where
  "is_decrypted key_of f \<longleftrightarrow> \<not> zf_dir f \<and> key_of (zf_name f) \<noteq> []
     \<and> (\<forall>data. zf_content f = ZipData data \<longrightarrow> \<not> kept_as_text f (key_of (zf_name f)) data)"

lemma entry_input_Inr:
  assumes "entry_input k f = Inr (source, decrypted)" "copy_with_budget n source = Some data"
    "length data = zf_size f"
  obtains d where "zf_content f = ZipData d" "data = derived_data f k d" "length d = zf_size f"
    "decrypted \<longleftrightarrow> k \<noteq> [] \<and> \<not> kept_as_text f k d" "length data \<le> n"
proof (cases "k \<noteq> [] \<and> is_text_like (zf_name f) \<and> zf_size f \<le> max_contents_manifest_size")
  case True
  with assms(1) obtain d where r: "read_limited f = Some d"
    by (auto simp: entry_input_def Let_def split: option.splits)
  then have d: "zf_content f = ZipData d"
    by (auto simp: read_limited_def split: if_splits zip_content.splits)
  show ?thesis
    using that [OF d] True assms r
    by (auto simp: entry_input_def Let_def copy_with_budget_def derived_data_def kept_as_text_def split: if_splits)
next
  case False
  then have i: "zf_content f \<noteq> ZipNoOpen" "decrypted \<longleftrightarrow> k \<noteq> []"
      "source = (if k = [] then zf_content f else map_content (decrypt_bytes (to_bytes k)) (zf_content f))"
    using assms(1) by (auto simp: entry_input_def Let_def split: if_splits)
  with assms(2) obtain d where d: "zf_content f = ZipData d"
    by (cases "zf_content f") (auto simp: copy_with_budget_def split: if_splits)
  have "\<not> kept_as_text f k d \<or> k = []" using False by (auto simp: kept_as_text_def)
  then show ?thesis
    using that [OF d] i d assms(2,3) by (auto simp: copy_with_budget_def derived_data_def split: if_splits)
qed

definition outside :: "string list \<Rightarrow> zip_file list \<Rightarrow> zip_file list" where
  "outside contents files = filter (\<lambda>f. zf_name f \<notin> set contents) files"

lemma outside_simps [simp]:
  "outside contents [] = []"
  "outside contents (fs @ gs) = outside contents fs @ outside contents gs"
  "outside contents [f] = (if zf_name f \<in> set contents then [] else [f])"
  by (simp_all add: outside_def)

definition payload :: "out_entry list \<Rightarrow> nat" where
  "payload es = sum_list (map (length \<circ> oe_data) es)"

lemma payload_simps [simp]:
  "payload [] = 0" "payload (es @ [e]) = payload es + length (oe_data e)"
  by (simp_all add: payload_def)

definition out_ok :: "string list \<Rightarrow> (string \<Rightarrow> string) \<Rightarrow> zip_file list \<Rightarrow> out_state \<Rightarrow> bool" where
  "out_ok contents key_of fs s \<longleftrightarrow>
     list_all2 (derived_entry key_of) (outside contents fs) (os_entries s)
     \<and> os_remaining s + payload (os_entries s) = max_decrypted_payload
     \<and> os_payload s = int (payload (os_entries s))
     \<and> os_directories s = int (length (filter oe_dir (os_entries s)))
     \<and> os_decrypted s = int (length (filter (is_decrypted key_of) (outside contents fs)))
     \<and> os_copied s + os_decrypted s + os_directories s = int (length (os_entries s))"

lemma write_file_Inr:
  assumes "write_file ft k f s = Inr t"
  obtains d decrypted where "zf_content f = ZipData d" "length d = zf_size f" "length (derived_data f k d) \<le> os_remaining s"
    "decrypted \<longleftrightarrow> k \<noteq> [] \<and> \<not> kept_as_text f k d" "length (derived_data f k d) = length d"
    "t = s\<lparr>os_entries := os_entries s @ [\<lparr>oe_name = zf_name f, oe_dir = False, oe_data = derived_data f k d\<rparr>],
           os_remaining := os_remaining s - length d,
           os_copied := (if decrypted then os_copied s else os_copied s + 1),
           os_decrypted := (if decrypted then os_decrypted s + 1 else os_decrypted s),
           os_payload := os_payload s + int (length d)\<rparr>"
proof -
  from assms obtain source decrypted where i: "entry_input k f = Inr (source, decrypted)"
    by (auto simp: write_file_def Let_def result_simps split: if_splits)
  with assms obtain data where c: "copy_with_budget (os_remaining s) source = Some data" "length data = zf_size f"
    and t: "t = s\<lparr>os_entries := os_entries s @ [\<lparr>oe_name = zf_name f, oe_dir = False, oe_data = data\<rparr>],
                   os_remaining := os_remaining s - length data,
                   os_copied := (if decrypted then os_copied s else os_copied s + 1),
                   os_decrypted := (if decrypted then os_decrypted s + 1 else os_decrypted s),
                   os_payload := os_payload s + int (length data)\<rparr>"
    by (auto simp: write_file_def Let_def split: if_splits option.splits)
  from entry_input_Inr [OF i c] obtain d where "zf_content f = ZipData d" "data = derived_data f k d" "length d = zf_size f"
    "decrypted \<longleftrightarrow> k \<noteq> [] \<and> \<not> kept_as_text f k d" "length data \<le> os_remaining s" by blast
  with that [of d decrypted] c(2) t show ?thesis by simp
qed

lemma write_out_ok:
  assumes h: "out_ok contents key_of fs s" and w: "write_out ft contents key_of s f = Inr t"
  shows "out_ok contents key_of (fs @ [f]) t"
proof (cases "zf_name f \<in> set contents")
  case True
  then have "t = s" using w by (simp add: write_out_def Let_def)
  then show ?thesis using True h by (simp add: out_ok_def)
next
  case out: False
  then have ok: "\<not> zf_symlink f" "zf_dir f \<or> zf_regular f"
    using w by (auto simp: write_out_def Let_def split: if_splits)
  show ?thesis
  proof (cases "zf_dir f")
    case True
    then have "t = s\<lparr>os_entries := os_entries s @ [\<lparr>oe_name = zf_name f, oe_dir = True, oe_data = []\<rparr>],
                  os_directories := os_directories s + 1\<rparr>"
      using w out by (auto simp: write_out_def Let_def split: if_splits)
    then show ?thesis using h True ok out
      by (auto simp: out_ok_def derived_entry_def is_decrypted_def intro!: list_all2_appendI)
  next
    case False
    then have "write_file ft (key_of (zf_name f)) f s = Inr t"
      using w out by (auto simp: write_out_def Let_def split: if_splits)
    from write_file_Inr [OF this] obtain d decrypted where
      d: "zf_content f = ZipData d" "length d = zf_size f" "length (derived_data f (key_of (zf_name f)) d) \<le> os_remaining s"
        "decrypted \<longleftrightarrow> key_of (zf_name f) \<noteq> [] \<and> \<not> kept_as_text f (key_of (zf_name f)) d"
        "length (derived_data f (key_of (zf_name f)) d) = length d"
      and t: "t = s\<lparr>os_entries := os_entries s @ [\<lparr>oe_name = zf_name f, oe_dir = False, oe_data = derived_data f (key_of (zf_name f)) d\<rparr>],
           os_remaining := os_remaining s - length d,
           os_copied := (if decrypted then os_copied s else os_copied s + 1),
           os_decrypted := (if decrypted then os_decrypted s + 1 else os_decrypted s),
           os_payload := os_payload s + int (length d)\<rparr>" by blast
    have de: "derived_entry key_of f \<lparr>oe_name = zf_name f, oe_dir = False, oe_data = derived_data f (key_of (zf_name f)) d\<rparr>"
      using False ok d by (simp add: derived_entry_def)
    have dec: "is_decrypted key_of f \<longleftrightarrow> decrypted" using False d by (simp add: is_decrypted_def)
    show ?thesis using h out False d(2,3,5) de dec
      by (auto simp: out_ok_def t intro!: list_all2_appendI)
  qed
qed

lemma write_all_ok:
  assumes "foldM (write_out ft contents key_of) out_start files = Inr s"
  shows "out_ok contents key_of files s"
proof (rule foldM_induct [OF assms])
  show "out_ok contents key_of [] out_start" by (simp add: out_ok_def out_start_def)
qed (rule write_out_ok)

section \<open>A successful run\<close>

definition pack_manifest :: "zip_file list \<Rightarrow> string" where "pack_manifest files = root_manifest (indexed files)"
definition pack_root :: "zip_file list \<Rightarrow> string" where "pack_root files = dir_or_empty (pack_manifest files)"

text \<open>The key under which an entry is read: none for the root metadata, else the declared one.\<close>

definition key_for :: "zip_file list \<Rightarrow> (string \<rightharpoonup> string) \<Rightarrow> string \<Rightarrow> string" where
  "key_for files keys = entry_key (pack_root files) (pack_manifest files) keys"

lemma decrypt_archive_Inr:
  assumes "decrypt_archive ft (Some (Some files)) dest n key = Inr (r, entries)"
  obtains ds out where "length key = 32" "length files \<le> max_archive_entries" "ix_manifests (indexed files) \<noteq> []"
    "distinct (map zf_name files)" "\<forall>f \<in> set files. clean_archive_path (zf_name f) (zf_dir f) = Inr (zf_name f)"
    "length (contents_paths (indexed files) (pack_root files)) \<le> max_contents_manifests"
    "declared_ok (contents_paths (indexed files) (pack_root files)) ds"
    "out_ok (contents_paths (indexed files) (pack_root files)) (key_for files (ds_keys ds)) files out"
    "entries = os_entries out"
    "r = \<lparr>rs_report = \<lparr>dr_algorithm = ''AES-256-CFB8'', dr_authenticated = False, dr_content_id = ds_content_id ds,
            dr_input = int (length files), dr_output = int (length (os_entries out)),
            dr_decrypted = os_decrypted out, dr_copied = os_copied out, dr_directories = os_directories out,
            dr_payload = os_payload out, dr_contents = map cm_summary (ds_manifests ds)\<rparr>,
          rs_manifests = ds_manifests ds\<rparr>"
    "list_all (manifest_counted (indexed files)) (ds_manifests ds)"
proof -
  from assms have b: "length key = 32" "length files \<le> max_archive_entries"
    by (auto simp: decrypt_archive_def split: if_splits)
  from assms obtain ix where ix: "foldM index_file \<lparr>ix_files = [], ix_manifests = []\<rparr> files = Inr ix"
    by (auto simp: decrypt_archive_def result_simps split: if_splits)
  have ixi: "ix = indexed files" "distinct (map zf_name files)"
      "\<forall>f \<in> set files. clean_archive_path (zf_name f) (zf_dir f) = Inr (zf_name f)"
    using index_Inr [OF ix] by auto
  let ?paths = "contents_paths (indexed files) (pack_root files)"
  from assms ix have c: "ix_manifests (indexed files) \<noteq> []" "length ?paths \<le> max_contents_manifests"
    by (auto simp: decrypt_archive_def Let_def ixi(1) pack_root_def pack_manifest_def split: if_splits)
  from assms ix obtain ds where ds: "foldM (declare_manifest (to_bytes key) (indexed files)) declare_start ?paths = Inr ds"
    by (auto simp: decrypt_archive_def Let_def ixi(1) pack_root_def pack_manifest_def result_simps split: if_splits)
  from assms ix ds obtain out where out: "foldM (write_out ft ?paths (key_for files (ds_keys ds))) out_start files = Inr out"
    by (auto simp: decrypt_archive_def Let_def ixi(1) pack_root_def pack_manifest_def key_for_def result_simps split: if_splits)
  from assms ix ds out have r: "entries = os_entries out"
    "r = \<lparr>rs_report = \<lparr>dr_algorithm = ''AES-256-CFB8'', dr_authenticated = False, dr_content_id = ds_content_id ds,
            dr_input = int (length files), dr_output = int (length (os_entries out)),
            dr_decrypted = os_decrypted out, dr_copied = os_copied out, dr_directories = os_directories out,
            dr_payload = os_payload out, dr_contents = map cm_summary (ds_manifests ds)\<rparr>,
          rs_manifests = ds_manifests ds\<rparr>"
    by (auto simp: decrypt_archive_def Let_def ixi(1) pack_root_def pack_manifest_def key_for_def split: if_splits)
  show ?thesis
    by (rule that [OF b c(1) ixi(2,3) c(2) declare_manifests_ok [OF ds] write_all_ok [OF out] r declare_manifests_counts [OF ds]])
qed

section \<open>Sealing a pack\<close>

text \<open>
  The format from the other side: the header of a contents manifest, the manifest, and an entry
  encrypted with its key.
\<close>

definition header_for :: "string \<Rightarrow> bytes" where
  "header_for ident = [0, 0, 0, 0] @ contents_magic @ replicate 8 0 @ [of_nat (length ident)] @ to_bytes ident
     @ replicate (239 - length ident) 0"

definition sealed_contents :: "bytes \<Rightarrow> string \<Rightarrow> bytes \<Rightarrow> zip_file" where
  "sealed_contents key ident json =
     \<lparr>zf_name = ''contents.json'', zf_dir = False, zf_symlink = False, zf_regular = True,
      zf_size = contents_header_size + length json, zf_content = ZipData (header_for ident @ encrypt_bytes key json)\<rparr>"

definition sealed_entry :: "(string \<Rightarrow> string) \<Rightarrow> zip_file \<Rightarrow> zip_file" where
  "sealed_entry key_of f =
     (if key_of (zf_name f) = [] \<or> zf_dir f then f
      else f\<lparr>zf_content := map_content (encrypt_bytes (to_bytes (key_of (zf_name f)))) (zf_content f)\<rparr>)"

lemma sealed_entry_simps [simp]:
  "zf_name (sealed_entry key_of f) = zf_name f" "zf_dir (sealed_entry key_of f) = zf_dir f"
  "zf_symlink (sealed_entry key_of f) = zf_symlink f" "zf_regular (sealed_entry key_of f) = zf_regular f"
  "zf_size (sealed_entry key_of f) = zf_size f"
  by (simp_all add: sealed_entry_def)

lemma header_for_parts:
  assumes "length ident \<le> 239"
  shows "length (header_for ident) = 256" "take 4 (header_for ident) = [0, 0, 0, 0]"
    "take 4 (drop 4 (header_for ident)) = contents_magic" "take 8 (drop 8 (header_for ident)) = replicate 8 0"
    "header_for ident ! 16 = of_nat (length ident)"
    "take (length ident) (drop 17 (header_for ident)) = to_bytes ident"
    "drop (17 + length ident) (header_for ident) = replicate (239 - length ident) 0"
  using assms by (simp_all add: header_for_def contents_magic_def nth_append numeral_eq_Suc)

lemma utf8_to_bytes: "utf8_valid (map unat (to_bytes s)) = valid_string s"
proof -
  have "map unat (to_bytes s) = map ord s" by (simp add: to_bytes_def unat_of_nat)
  then show ?thesis by (simp add: valid_string_def)
qed

lemma contents_header_for:
  assumes "0 < length ident" "length ident \<le> 239" "valid_string ident"
  shows "contents_header path (header_for ident @ rest) = Inr ident"
proof -
  note h = header_for_parts [OF assms(2)]
  have n: "unat (of_nat (length ident) :: 8 word) = length ident" using assms(2) by (simp add: unat_of_nat)
  have t: "take contents_header_size (header_for ident @ rest) = header_for ident"
    by (simp add: contents_header_size_def h(1))
  show ?thesis
    unfolding contents_header_def t Let_def h n
    using assms by (simp add: contents_header_size_def h(1) all_zero_def list_all_iff utf8_to_bytes)
qed

lemma decrypt_sealed_contents:
  assumes "0 < length ident" "length ident \<le> 239" "valid_string ident"
    and "parse_contents ''contents.json'' json = Inr es" "trim_plaintext json = json" "json \<noteq> []"
    and "contents_header_size + length json \<le> max_contents_manifest_size"
  shows "decrypt_contents key ''contents.json'' (sealed_contents key ident json)
    = Inr (\<lparr>cm_summary = \<lparr>ct_path = ''contents.json'', ct_entries = int (length es), ct_encrypted = 0, ct_plain = 0\<rparr>,
            cm_plaintext = json\<rparr>, ident, es)"
proof -
  have l: "length (header_for ident) = contents_header_size" by (simp add: header_for_parts(1) [OF assms(2)] contents_header_size_def)
  have r: "read_limited (sealed_contents key ident json) = Some (header_for ident @ encrypt_bytes key json)"
    using assms(7) by (simp add: read_limited_def sealed_contents_def l)
  have d: "decrypt_bytes key (drop contents_header_size (header_for ident @ encrypt_bytes key json)) = json"
    by (simp add: l decrypt_bytes_def encrypt_bytes_def cfb8_decrypt_encrypt)
  show ?thesis
    by (simp add: decrypt_contents_def r contents_header_for [OF assms(1-3)] d Let_def assms(4-6) del: drop_append)
qed

section \<open>Printing a contents manifest\<close>

text \<open>The text of a contents manifest that declares the given entries, and that it is read back.\<close>

definition entry_tokens :: "contents_entry \<Rightarrow> token list" where
  "entry_tokens e = [TLBrace, TStr ''path'', TColon, TStr (fst e), TComma, TStr ''key'', TColon, TStr (snd e), TRBrace]"

definition contents_tokens :: "contents_entry list \<Rightarrow> token list" where
  "contents_tokens es =
     [TLBrace, TStr ''content'', TColon, TLBrack]
     @ (case es of [] \<Rightarrow> [] | e # rest \<Rightarrow> entry_tokens e @ concat (map (\<lambda>e. TComma # entry_tokens e) rest))
     @ [TRBrack, TRBrace]"

definition contents_text :: "contents_entry list \<Rightarrow> bytes" where
  "contents_text es = to_bytes (print_tokens (contents_tokens es))"

definition entry_json :: "contents_entry \<Rightarrow> json" where
  "entry_json e = JObj [(''path'', JStr (fst e)), (''key'', JStr (snd e))]"

lemma json_fold_names: "json_fold ''path'' = ''path''" "json_fold ''key'' = ''key''"
  by (rule json_fold_lower, simp add: ord_def)+

lemma decode_entry_json: "decode_entry (entry_json e) = Some e"
  by (simp add: decode_entry_def entry_json_def field_with_def json_fold_names)

lemma run_entry:
  assumes "length fs < 9998"
  shows "json_run (FArr vs # fs, ExpValue) (entry_tokens e @ ts) = json_run (FArr (entry_json e # vs) # fs, ExpCommaOrEnd) ts"
    "json_run (FArr vs # fs, ExpValueOrEnd) (entry_tokens e @ ts) = json_run (FArr (entry_json e # vs) # fs, ExpCommaOrEnd) ts"
  using assms by (simp_all add: entry_tokens_def entry_json_def open_frame_def max_nesting_def)

lemma run_entries:
  "length fs < 9998 \<Longrightarrow>
   json_run (FArr vs # fs, ExpCommaOrEnd) (concat (map (\<lambda>e. TComma # entry_tokens e) es) @ ts)
   = json_run (FArr (rev (map entry_json es) @ vs) # fs, ExpCommaOrEnd) ts"
  by (induction es arbitrary: vs) (simp_all add: run_entry)

lemma run_contents:
  "json_run ([], ExpValue) (contents_tokens es) = Some ([], ExpDone (JObj [(''content'', JArr (map entry_json es))]))"
  by (cases es) (simp_all add: contents_tokens_def open_frame_def max_nesting_def run_entry run_entries)

lemma plain_names: "plain_char (CHR ''p'')" "plain_char (CHR ''a'')" "plain_char (CHR ''t'')" "plain_char (CHR ''h'')" "plain_char (CHR ''k'')" "plain_char (CHR ''e'')" "plain_char (CHR ''y'')" "plain_char (CHR ''c'')" "plain_char (CHR ''o'')" "plain_char (CHR ''n'')"
  by (simp_all add: plain_char_def ord_def)

lemma plain_entry_tokens: "list_all plain_token (entry_tokens e) \<longleftrightarrow> plain_text (fst e) \<and> plain_text (snd e)"
  by (simp add: entry_tokens_def plain_names)

lemma list_all_concat: "list_all P (concat xss) \<longleftrightarrow> list_all (list_all P) xss"
  by (induction xss) simp_all

lemma plain_separated:
  "\<forall>e \<in> set es. plain_text (fst e) \<and> plain_text (snd e) \<Longrightarrow>
   list_all plain_token (concat (map (\<lambda>e. TComma # entry_tokens e) es))"
  by (induction es) (simp_all add: plain_entry_tokens)

lemma plain_contents_tokens:
  "\<forall>e \<in> set es. plain_text (fst e) \<and> plain_text (snd e) \<Longrightarrow> list_all plain_token (contents_tokens es)"
  by (cases es) (simp_all add: contents_tokens_def plain_names plain_entry_tokens plain_separated)

lemma decode_entries_json: "decode_entries (map entry_json es) = Some es"
  by (simp add: decode_entries_def decode_entry_json list_all_iff comp_def)

lemma contents_text_parses:
  assumes "\<forall>e \<in> set es. plain_text (fst e) \<and> plain_text (snd e)" "length es \<le> max_archive_entries"
  shows "parse_contents path (contents_text es) = Inr es"
proof -
  have j: "json_parse (of_bytes (contents_text es)) = Some (JObj [(''content'', JArr (map entry_json es))])"
    unfolding contents_text_def of_to_bytes json_parse_tokens [OF plain_contents_tokens [OF assms(1)]]
    by (simp add: run_contents)
  have c: "content_array (JObj [(''content'', JArr (map entry_json es))]) = Some (map entry_json es)"
    by (simp add: content_array_def)
  show ?thesis
    using assms(2) by (simp add: parse_contents_def j c decode_entries_json)
qed

lemma contents_tokens_end: "\<exists>ts. contents_tokens es = ts @ [TRBrace]"
  by (rule exI [of _ "butlast (contents_tokens es)"]) (simp add: contents_tokens_def butlast_append)

lemma to_bytes_brace: "to_bytes (s @ ''}'') = to_bytes s @ [0x7D]"
  by (simp add: to_bytes_def ord_def)

lemma trim_plaintext_brace: "trim_plaintext (b @ [0x7D]) = b @ [0x7D]"
  by (simp add: trim_plaintext_def drop_while_end_def)

lemma contents_text_trimmed: "trim_plaintext (contents_text es) = contents_text es" "contents_text es \<noteq> []"
proof -
  obtain ts where ts: "contents_tokens es = ts @ [TRBrace]" using contents_tokens_end by blast
  have c: "contents_text es = to_bytes (print_tokens ts) @ [0x7D]"
    unfolding contents_text_def ts print_tokens_simps print_token.simps append_Nil2 by (rule to_bytes_brace)
  show "trim_plaintext (contents_text es) = contents_text es" unfolding c by (rule trim_plaintext_brace)
  show "contents_text es \<noteq> []" unfolding c by simp
qed

section \<open>Opening a sealed pack\<close>

lemma index_total:
  assumes "distinct (map zf_name files)" "\<forall>f \<in> set files. clean_archive_path (zf_name f) (zf_dir f) = Inr (zf_name f)"
  shows "foldM index_file \<lparr>ix_files = [], ix_manifests = []\<rparr> files = Inr (indexed files)"
  using assms
proof (induction files rule: rev_induct)
  case Nil
  then show ?case by (simp add: indexed_def)
next
  case (snoc f fs)
  then have "map_of (ix_files (indexed fs)) (zf_name f) = None"
    by (auto simp: map_of_eq_None_iff indexed_def)
  then have "index_file (indexed fs) f = Inr (indexed (fs @ [f]))"
    using snoc.prems by (simp add: index_file_def indexed_def)
  then show ?case using snoc by (simp add: foldM_append)
qed

lemma map_of_indexed:
  "f \<in> set files \<Longrightarrow> distinct (map zf_name files) \<Longrightarrow> map_of (ix_files (indexed files)) (zf_name f) = Some f"
  by (simp add: indexed_def map_of_eq_Some_iff comp_def)

lemma not_directory_reference:
  assumes "map_of files name = Some f" "\<not> zf_dir f" "\<not> has_suffix name ''/''"
  shows "\<not> directory_reference name files"
  using assms by (simp add: directory_reference_def trim_suffix_def)

lemma split_on_last: "split_on d (t @ [d]) = split_on d t @ [[]]"
proof (induction t)
  case (Cons a t)
  obtain p ps where "split_on d t = p # ps" using split_on_ne [of d t] by (cases "split_on d t") auto
  then show ?case using Cons by simp
qed simp

lemma inside_no_slash:
  assumes "inside_rel name"
  shows "\<not> has_suffix name ''/'' \<and> \<not> has_prefix name ''/'' \<and> name \<noteq> []"
proof -
  have "has_suffix name ''/'' \<Longrightarrow> [] \<in> set (split_on CHR ''/'' name)"
  proof -
    assume "has_suffix name ''/''"
    then obtain t where t: "name = t @ ''/''" by (auto simp: has_suffix_iff)
    then show ?thesis by (simp add: split_on_last)
  qed
  moreover have "has_prefix name ''/'' \<Longrightarrow> [] \<in> set (split_on CHR ''/'' name)"
    by (auto simp: has_prefix_iff)
  moreover have "name = [] \<Longrightarrow> [] \<in> set (split_on CHR ''/'' name)" by simp
  moreover have "[] \<notin> set (split_on CHR ''/'' name)"
    using assms by (auto simp: inside_rel_def list_all_iff proper_elem_def)
  ultimately show ?thesis by blast
qed

lemma declare_entry_total:
  assumes "clean_content_path p = Inr p" "good_key k" "dc_keys s p = None"
    "map_of (ix_files ix) p = Some f" "\<not> zf_dir f" "\<not> has_suffix p ''/''"
  shows "declare_entry ix contents [] s (p, k)
    = Inr (s\<lparr>dc_keys := (dc_keys s)(p \<mapsto> k),
            dc_plain := (if k = [] then dc_plain s + 1 else dc_plain s),
            dc_encrypted := (if k = [] then dc_encrypted s else dc_encrypted s + 1)\<rparr>)"
  using assms not_directory_reference [OF assms(4-6)]
  by (auto simp: declare_entry_def join_archive_path_def Let_def good_key_def)

lemma declare_entries_total:
  assumes "distinct (map fst es)"
    "\<forall>(p, k) \<in> set es. clean_content_path p = Inr p \<and> good_key k \<and> \<not> has_suffix p ''/''
       \<and> (\<exists>f. map_of (ix_files ix) p = Some f \<and> \<not> zf_dir f)"
    "\<forall>(p, k) \<in> set es. dc_keys s p = None"
  shows "\<exists>t. foldM (declare_entry ix contents []) s es = Inr t
    \<and> (\<forall>name. dc_keys t name = (case map_of es name of None \<Rightarrow> dc_keys s name | Some k \<Rightarrow> Some k))"
  using assms
proof (induction es arbitrary: s)
  case Nil
  then show ?case by simp
next
  case (Cons e es)
  obtain p k where e: "e = (p, k)" by (cases e)
  with Cons.prems obtain f where f: "map_of (ix_files ix) p = Some f" "\<not> zf_dir f" by auto
  let ?t = "s\<lparr>dc_keys := (dc_keys s)(p \<mapsto> k),
            dc_plain := (if k = [] then dc_plain s + 1 else dc_plain s),
            dc_encrypted := (if k = [] then dc_encrypted s else dc_encrypted s + 1)\<rparr>"
  have d: "declare_entry ix contents [] s (p, k) = Inr ?t"
    using Cons.prems e f by (intro declare_entry_total) auto
  have "q \<noteq> p \<and> dc_keys s q = None" if "(q, l) \<in> set es" for q l
    using Cons.prems(1,3) e that by force
  then have "\<forall>(q, l) \<in> set es. dc_keys ?t q = None" by auto
  then obtain t where t: "foldM (declare_entry ix contents []) ?t es = Inr t"
      "\<forall>name. dc_keys t name = (case map_of es name of None \<Rightarrow> dc_keys ?t name | Some l \<Rightarrow> Some l)"
    using Cons.IH [of ?t] Cons.prems by auto
  have "map_of es p = None" using Cons.prems(1) e by (auto simp: map_of_eq_None_iff)
  then show ?case using t d e by (auto split: option.splits)
qed

definition no_faults :: writer_faults where
  "no_faults = \<lparr>wf_create = None, wf_copy = None, wf_close = False\<rparr>"

fun content_bytes :: "zip_content \<Rightarrow> bytes" where
  "content_bytes (ZipData d) = d"
| "content_bytes _ = []"

definition plain_entry :: "zip_file \<Rightarrow> out_entry" where
  "plain_entry f = \<lparr>oe_name = zf_name f, oe_dir = zf_dir f, oe_data = (if zf_dir f then [] else content_bytes (zf_content f))\<rparr>"

text \<open>A file of a plain pack, and that its encryption is not mistaken for text.\<close>

definition plain_file :: "zip_file \<Rightarrow> bool" where
  "plain_file f \<longleftrightarrow> \<not> zf_symlink f
     \<and> (zf_dir f \<or> zf_regular f \<and> (\<exists>d. zf_content f = ZipData d \<and> zf_size f = length d))"

definition not_ambiguous :: "(string \<Rightarrow> string) \<Rightarrow> zip_file \<Rightarrow> bool" where
  "not_ambiguous key_of f \<longleftrightarrow> (let k = key_of (zf_name f); d = content_bytes (zf_content f) in
     k = [] \<or> \<not> is_text_like (zf_name f) \<or> looks_like_plaintext d
     \<or> \<not> looks_like_plaintext (encrypt_bytes (to_bytes k) d))"

lemma write_sealed:
  assumes "plain_file f" "not_ambiguous key_of f" "zf_name f \<notin> set contents"
    "length (oe_data (plain_entry f)) \<le> os_remaining s" "os_remaining s \<le> max_decrypted_payload"
  shows "\<exists>t. write_out no_faults contents key_of s (sealed_entry key_of f) = Inr t
    \<and> os_entries t = os_entries s @ [plain_entry f]
    \<and> os_remaining t = os_remaining s - length (oe_data (plain_entry f))"
proof (cases "zf_dir f")
  case True
  then show ?thesis using assms by (simp add: write_out_def Let_def no_faults_def plain_file_def plain_entry_def)
next
  case False
  with assms(1) obtain d where d: "zf_content f = ZipData d" "zf_size f = length d" "zf_regular f" "\<not> zf_symlink f"
    by (auto simp: plain_file_def)
  let ?k = "key_of (zf_name f)"
  have l: "length d \<le> os_remaining s" using assms(4) False d by (simp add: plain_entry_def)
  have "\<exists>b. entry_input ?k (sealed_entry key_of f) = Inr (ZipData d, b)"
  proof (cases "?k = []")
    case True
    then show ?thesis using d by (auto simp: entry_input_def sealed_entry_def)
  next
    case k: False
    have c: "zf_content (sealed_entry key_of f) = ZipData (encrypt_bytes (to_bytes ?k) d)"
      using k False d by (simp add: sealed_entry_def)
    have r: "zf_size f \<le> max_contents_manifest_size \<Longrightarrow>
        read_limited (sealed_entry key_of f) = Some (encrypt_bytes (to_bytes ?k) d)"
      using c d by (simp add: read_limited_def)
    show ?thesis
      using assms(2) k d r c cfb8_decrypt_encrypt
      by (auto simp: entry_input_def not_ambiguous_def Let_def decrypt_bytes_def encrypt_bytes_def)
  qed
  then show ?thesis
    using assms(3,5) False d l
    by (auto simp: write_out_def write_file_def Let_def no_faults_def copy_with_budget_def plain_entry_def)
qed

lemma write_sealed_all:
  assumes "\<forall>f \<in> set files. plain_file f \<and> not_ambiguous key_of f \<and> zf_name f \<notin> set contents"
    "payload (map plain_entry files) \<le> os_remaining s" "os_remaining s \<le> max_decrypted_payload"
  shows "\<exists>t. foldM (write_out no_faults contents key_of) s (map (sealed_entry key_of) files) = Inr t
    \<and> os_entries t = os_entries s @ map plain_entry files"
  using assms
proof (induction files arbitrary: s)
  case Nil
  then show ?case by simp
next
  case (Cons f fs)
  have p: "length (oe_data (plain_entry f)) + payload (map plain_entry fs) \<le> os_remaining s"
    using Cons.prems(2) by (simp add: payload_def)
  obtain t where t: "write_out no_faults contents key_of s (sealed_entry key_of f) = Inr t"
      "os_entries t = os_entries s @ [plain_entry f]" "os_remaining t = os_remaining s - length (oe_data (plain_entry f))"
    using write_sealed [of f key_of contents s] Cons.prems p by auto
  have "payload (map plain_entry fs) \<le> os_remaining t" "os_remaining t \<le> max_decrypted_payload"
    using p t(3) Cons.prems(3) by simp_all
  with Cons.IH [of t] Cons.prems(1) t show ?case by auto
qed

lemma base_path_no_slash: "CHR ''/'' \<notin> set p \<Longrightarrow> p \<noteq> [] \<Longrightarrow> base_path p = p"
  by (cases p rule: rev_cases) (auto simp: base_path_def drop_while_end_def split_on_no Let_def)

lemma root_manifest_first:
  assumes "''manifest.json'' \<in> set (ix_manifests ix)" "\<forall>n \<in> set (ix_manifests ix). base_path n = ''manifest.json''"
  shows "root_manifest ix = ''manifest.json''"
proof -
  let ?k = "\<lambda>n. (slashes n, n)"
  let ?s = "sort_key ?k (ix_manifests ix)"
  obtain m where m: "m = ''manifest.json''" by simp
  have mm: "m \<in> set (ix_manifests ix)" "slashes m = 0" using assms(1) by (simp_all add: m slashes_def)
  have st: "set ?s = set (ix_manifests ix)" by simp
  with mm obtain h t where s: "?s = h # t" by (cases ?s) auto
  have h: "h \<in> set (ix_manifests ix)" using s st by (metis list.set_intros(1))
  have "m = h \<or> m \<in> set t" using mm(1) s st by (metis set_ConsD)
  moreover have "sorted (map ?k (h # t))" using sorted_sort_key [of ?k "ix_manifests ix"] s by simp
  ultimately have "?k h \<le> ?k m" by auto
  then have "slashes h = 0" using mm(2) by (auto simp: less_eq_prod_def)
  then have no: "CHR ''/'' \<notin> set h" by (simp add: slashes_def count_list_0_iff)
  have b: "base_path h = m" using assms(2) h m by blast
  have "h \<noteq> []" using b m by (auto simp: base_path_def)
  then have "h = m" using base_path_no_slash [OF no] b by simp
  then show ?thesis by (simp add: root_manifest_def s m)
qed

definition seal_pack :: "bytes \<Rightarrow> string \<Rightarrow> bytes \<Rightarrow> (string \<Rightarrow> string) \<Rightarrow> zip_file list \<Rightarrow> zip_file list" where
  "seal_pack key ident json key_of files = sealed_contents key ident json # map (sealed_entry key_of) files"

text \<open>
  A plain pack with its manifest at the top, and a contents text that declares keys for some of its
  files.
\<close>

definition plain_pack :: "zip_file list \<Rightarrow> bool" where
  "plain_pack files \<longleftrightarrow>
     distinct (''contents.json'' # map zf_name files) \<and> length files < max_archive_entries
     \<and> (\<forall>f \<in> set files. plain_file f \<and> clean_archive_path (zf_name f) (zf_dir f) = Inr (zf_name f)
          \<and> \<not> is_subpack_contents ''subpacks/'' (zf_name f))
     \<and> (\<exists>f \<in> set files. zf_name f = ''manifest.json'' \<and> \<not> zf_dir f)
     \<and> payload (map plain_entry files) \<le> max_decrypted_payload"

definition keyed_contents :: "zip_file list \<Rightarrow> bytes \<Rightarrow> contents_entry list \<Rightarrow> bool" where
  "keyed_contents files json es \<longleftrightarrow>
     parse_contents ''contents.json'' json = Inr es \<and> trim_plaintext json = json \<and> json \<noteq> []
     \<and> contents_header_size + length json \<le> max_contents_manifest_size
     \<and> distinct (map fst es)
     \<and> (\<forall>(p, k) \<in> set es. good_key k \<and> (\<exists>f \<in> set files. zf_name f = p \<and> \<not> zf_dir f))"

abbreviation pack_keys :: "contents_entry list \<Rightarrow> string \<Rightarrow> string" where
  "pack_keys es \<equiv> entry_key [] ''manifest.json'' (map_of es)"

definition pack_files :: "bytes \<Rightarrow> string \<Rightarrow> bytes \<Rightarrow> contents_entry list \<Rightarrow> zip_file list \<Rightarrow> zip_file list" where
  "pack_files key ident json es files = seal_pack key ident json (pack_keys es) files"

lemma pack_index:
  assumes "plain_pack files"
  shows "foldM index_file \<lparr>ix_files = [], ix_manifests = []\<rparr> (pack_files key ident json es files)
      = Inr (indexed (pack_files key ident json es files))"
    "root_manifest (indexed (pack_files key ident json es files)) = ''manifest.json''"
    "contents_paths (indexed (pack_files key ident json es files)) [] = [''contents.json'']"
    "ix_manifests (indexed (pack_files key ident json es files)) \<noteq> []"
proof -
  let ?fs = "pack_files key ident json es files"
  have names: "map zf_name ?fs = ''contents.json'' # map zf_name files"
    by (simp add: pack_files_def seal_pack_def sealed_contents_def comp_def)
  have c: "clean_archive_path ''contents.json'' False = Inr ''contents.json''"
    by (simp add: clean_archive_path_def unsafe_name_def unsafe_clean_def has_prefix_def clean_path_def Let_def
        valid_string_def utf8_valid_ascii ord_def)
  have ok: "\<forall>f \<in> set ?fs. clean_archive_path (zf_name f) (zf_dir f) = Inr (zf_name f)"
    using assms c by (auto simp: plain_pack_def pack_files_def seal_pack_def sealed_contents_def)
  show "foldM index_file \<lparr>ix_files = [], ix_manifests = []\<rparr> ?fs = Inr (indexed ?fs)"
    using assms ok names by (intro index_total) (simp_all add: plain_pack_def)
  from assms obtain m where m: "m \<in> set files" "zf_name m = ''manifest.json''" "\<not> zf_dir m"
    by (auto simp: plain_pack_def)
  have "base_path ''manifest.json'' = ''manifest.json''" by (rule base_path_no_slash) simp_all
  with m have mi: "''manifest.json'' \<in> set (ix_manifests (indexed ?fs))"
    by (force simp: indexed_def pack_files_def seal_pack_def)
  then show "root_manifest (indexed ?fs) = ''manifest.json''"
    by (rule root_manifest_first) (auto simp: indexed_def)
  show "ix_manifests (indexed ?fs) \<noteq> []" using mi by auto
  have "filter (\<lambda>(name, file). \<not> zf_dir file \<and> name \<noteq> ''contents.json'' \<and> is_subpack_contents ''subpacks/'' name)
      (ix_files (indexed ?fs)) = []"
    using assms by (auto simp: filter_empty_conv indexed_def pack_files_def seal_pack_def plain_pack_def sealed_contents_def)
  then show "contents_paths (indexed ?fs) [] = [''contents.json'']"
    by (simp add: contents_paths_def join_archive_path_def Let_def)
qed

lemma pack_lookup:
  assumes "plain_pack files"
  shows "map_of (ix_files (indexed (pack_files key ident json es files))) ''contents.json'' = Some (sealed_contents key ident json)"
    "f \<in> set files \<Longrightarrow>
     map_of (ix_files (indexed (pack_files key ident json es files))) (zf_name f) = Some (sealed_entry (pack_keys es) f)"
proof -
  let ?fs = "pack_files key ident json es files"
  have d: "distinct (map zf_name ?fs)"
    using assms by (simp add: plain_pack_def pack_files_def seal_pack_def sealed_contents_def comp_def)
  show "map_of (ix_files (indexed ?fs)) ''contents.json'' = Some (sealed_contents key ident json)"
    by (simp add: indexed_def pack_files_def seal_pack_def sealed_contents_def)
  assume "f \<in> set files"
  then have "sealed_entry (pack_keys es) f \<in> set ?fs" by (simp add: pack_files_def seal_pack_def)
  from map_of_indexed [OF this d] show
    "map_of (ix_files (indexed ?fs)) (zf_name f) = Some (sealed_entry (pack_keys es) f)" by simp
qed

lemma pack_declares:
  assumes "plain_pack files" "keyed_contents files json es"
    and "0 < length ident" "length ident \<le> 239" "valid_string ident"
  shows "\<exists>ds. foldM (declare_manifest key (indexed (pack_files key ident json es files))) declare_start [''contents.json''] = Inr ds
    \<and> ds_keys ds = map_of es \<and> ds_content_id ds = ident \<and> map cm_plaintext (ds_manifests ds) = [json]"
proof -
  let ?ix = "indexed (pack_files key ident json es files)"
  have k: "parse_contents ''contents.json'' json = Inr es" "trim_plaintext json = json" "json \<noteq> []"
      "contents_header_size + length json \<le> max_contents_manifest_size" "distinct (map fst es)"
    using assms(2) by (auto simp: keyed_contents_def)
  note dc = decrypt_sealed_contents [OF assms(3-5) k(1-4), of key]
  have le: "length es \<le> max_archive_entries"
    using k(1) by (auto simp: parse_contents_def split: option.splits if_splits)
  have lj: "length json \<le> max_contents_plaintext"
    using k(4) by (simp add: max_contents_manifest_size_def max_contents_plaintext_def)
  have dir: "dir_or_empty ''contents.json'' = []"
    by (simp add: dir_or_empty_def dir_path_def drop_while_end_def clean_path_def Let_def has_prefix_def)
  have e: "clean_content_path p = Inr p \<and> good_key k \<and> \<not> has_suffix p ''/''
      \<and> (\<exists>f. map_of (ix_files ?ix) p = Some f \<and> \<not> zf_dir f)" if pk: "(p, k) \<in> set es" for p k
  proof -
    from assms(2) pk obtain f where f: "f \<in> set files" "zf_name f = p" "\<not> zf_dir f" and g: "good_key k"
      by (auto simp: keyed_contents_def)
    then have c: "clean_archive_path p False = Inr p" using assms(1) by (auto simp: plain_pack_def)
    then have s: "\<not> has_suffix p ''/''" using clean_archive_path_Inr [OF c] inside_no_slash by simp
    then have "clean_content_path p = Inr p" using c by (auto simp: clean_content_path_def clean_archive_path_def Let_def split: if_splits)
    then show ?thesis using g s pack_lookup(2) [OF assms(1) f(1)] f(2,3) by simp
  qed
  have b: "\<forall>(p, k) \<in> set es. clean_content_path p = Inr p \<and> good_key k \<and> \<not> has_suffix p ''/''
      \<and> (\<exists>f. map_of (ix_files ?ix) p = Some f \<and> \<not> zf_dir f)" using e by blast
  let ?s = "\<lparr>dc_keys = Map.empty, dc_plain = 0, dc_encrypted = 0\<rparr>"
  have "\<forall>(p, k) \<in> set es. dc_keys ?s p = None" by auto
  from declare_entries_total [OF k(5) b this]
  obtain t where t0: "foldM (declare_entry ?ix [''contents.json''] []) ?s es = Inr t"
      "\<forall>name. dc_keys t name = (case map_of es name of None \<Rightarrow> dc_keys ?s name | Some k \<Rightarrow> Some k)" by blast
  have t: "foldM (declare_entry ?ix [''contents.json''] []) ?s es = Inr t" "dc_keys t = map_of es"
    using t0 by (auto simp: fun_eq_iff split: option.splits)
  show ?thesis
    using le lj by (simp add: declare_manifest_def declare_start_def pack_lookup(1) [OF assms(1)] dc dir t Let_def)
qed

lemma sealed_pack_opens:
  assumes "length key = 32" "plain_pack files" "keyed_contents files json es"
    and "0 < length ident" "length ident \<le> 239" "valid_string ident"
    and "\<forall>f \<in> set files. not_ambiguous (pack_keys es) f" "0 \<le> n"
  shows "\<exists>r. decrypt_archive no_faults (Some (Some (pack_files (to_bytes key) ident json es files))) True n key
      = Inr (r, map plain_entry files)
    \<and> dr_content_id (rs_report r) = ident \<and> map cm_plaintext (rs_manifests r) = [json]"
proof -
  let ?fs = "pack_files (to_bytes key) ident json es files"
  note ix = pack_index [OF assms(2), of "to_bytes key" ident json es]
  obtain ds where ds: "foldM (declare_manifest (to_bytes key) (indexed ?fs)) declare_start [''contents.json''] = Inr ds"
      "ds_keys ds = map_of es" "ds_content_id ds = ident" "map cm_plaintext (ds_manifests ds) = [json]"
    using pack_declares [OF assms(2-6), of "to_bytes key"] by (elim exE conjE) (rule that)
  have dir: "dir_or_empty ''manifest.json'' = []"
    by (simp add: dir_or_empty_def dir_path_def drop_while_end_def clean_path_def Let_def has_prefix_def)
  have w: "\<forall>f \<in> set files. plain_file f \<and> not_ambiguous (pack_keys es) f \<and> zf_name f \<notin> set [''contents.json'']"
    using assms(2,7) by (force simp: plain_pack_def)
  have st: "payload (map plain_entry files) \<le> os_remaining out_start" "os_remaining out_start \<le> max_decrypted_payload"
      "os_entries out_start = []"
    using assms(2) by (simp_all add: plain_pack_def out_start_def)
  obtain t where wt: "foldM (write_out no_faults [''contents.json''] (pack_keys es)) out_start (map (sealed_entry (pack_keys es)) files) = Inr t"
      "os_entries t = map plain_entry files"
    using write_sealed_all [OF w st(1,2)] unfolding st(3) append_Nil by blast
  have "write_out no_faults [''contents.json''] (pack_keys es) out_start (sealed_contents (to_bytes key) ident json) = Inr out_start"
    by (simp add: write_out_def sealed_contents_def)
  then have t: "foldM (write_out no_faults [''contents.json''] (pack_keys es)) out_start ?fs = Inr t"
    unfolding pack_files_def seal_pack_def foldM.simps by (simp add: wt(1))
  have len: "length ?fs \<le> max_archive_entries"
    using assms(2) by (simp add: plain_pack_def pack_files_def seal_pack_def)
  have first: "join_archive_path [] ''contents.json'' = ''contents.json''" by (simp add: join_archive_path_def)
  have one: "\<not> max_contents_manifests < length [''contents.json'']" by (simp add: max_contents_manifests_def)
  have found: "map_of (ix_files (indexed ?fs)) ''contents.json'' \<noteq> None" using pack_lookup(1) [OF assms(2)] by simp
  show ?thesis
    unfolding decrypt_archive_def Let_def option.case ix(1) res_bind.simps ix(2) dir first ix(3) ds(1) ds(2) t
    using assms(1,8) len one found ix(4) ds wt(2) by (simp add: no_faults_def)
qed


section \<open>Properties\<close>

text \<open>
  C17. A derived archive holds, in the order of the source, exactly the source's entries other than
  the contents manifests; directories stay directories, and every file is a regular file whose bytes,
  as many as declared, are the source's own or their decryption: decrypted under the one key that the
  pack's decrypted manifests declare for exactly that path, except for root metadata, for entries
  without a key, and for text that is text already while its decryption is not. Keys are unique per
  path and 32 bytes long.
\<close>

theorem derived_archive_correct:
  assumes "decrypt_archive ft (Some (Some files)) dest n key = Inr (r, entries)"
  shows "\<exists>keys. (\<forall>name k. keys name = Some k \<longleftrightarrow> declared_key (rs_manifests r) name k)
    \<and> (\<forall>name k. keys name = Some k \<longrightarrow> good_key k)
    \<and> list_all2 (derived_entry (key_for files keys)) (outside (map ct_path (dr_contents (rs_report r))) files) entries"
proof (rule decrypt_archive_Inr [OF assms])
  fix ds out
  assume d: "declared_ok (contents_paths (indexed files) (pack_root files)) ds"
    and o: "out_ok (contents_paths (indexed files) (pack_root files)) (key_for files (ds_keys ds)) files out"
    and e: "entries = os_entries out"
    and r: "r = \<lparr>rs_report = \<lparr>dr_algorithm = ''AES-256-CFB8'', dr_authenticated = False, dr_content_id = ds_content_id ds,
            dr_input = int (length files), dr_output = int (length (os_entries out)),
            dr_decrypted = os_decrypted out, dr_copied = os_copied out, dr_directories = os_directories out,
            dr_payload = os_payload out, dr_contents = map cm_summary (ds_manifests ds)\<rparr>,
          rs_manifests = ds_manifests ds\<rparr>"
  show ?thesis
    using d o unfolding r e declared_ok_def out_ok_def by (intro exI [of _ "ds_keys ds"]) simp
qed

text \<open>
  C18. The names of a derived archive are safe to extract: they are distinct and are names of the
  source in its order, valid UTF-8 without backslashes, relative, and no element of them is empty,
  dot or dot-dot. No symbolic link of the source is among them.
\<close>

theorem derived_paths_safe:
  assumes "decrypt_archive ft (Some (Some files)) dest n key = Inr (r, entries)"
  shows "map oe_name entries = map zf_name (outside (map ct_path (dr_contents (rs_report r))) files)
    \<and> distinct (map oe_name entries)
    \<and> list_all (\<lambda>e. valid_string (oe_name e) \<and> CHR 0x5C \<notin> set (oe_name e)
        \<and> inside_rel (if oe_dir e then butlast (oe_name e) else oe_name e)) entries
    \<and> list_all (\<lambda>f. \<not> zf_symlink f) (outside (map ct_path (dr_contents (rs_report r))) files)"
proof (rule decrypt_archive_Inr [OF assms])
  fix ds out
  let ?paths = "contents_paths (indexed files) (pack_root files)"
  assume d: "declared_ok ?paths ds" and o: "out_ok ?paths (key_for files (ds_keys ds)) files out"
    and e: "entries = os_entries out"
    and di: "distinct (map zf_name files)"
    and cl: "\<forall>f \<in> set files. clean_archive_path (zf_name f) (zf_dir f) = Inr (zf_name f)"
    and r: "r = \<lparr>rs_report = \<lparr>dr_algorithm = ''AES-256-CFB8'', dr_authenticated = False, dr_content_id = ds_content_id ds,
            dr_input = int (length files), dr_output = int (length (os_entries out)),
            dr_decrypted = os_decrypted out, dr_copied = os_copied out, dr_directories = os_directories out,
            dr_payload = os_payload out, dr_contents = map cm_summary (ds_manifests ds)\<rparr>,
          rs_manifests = ds_manifests ds\<rparr>"
  have p: "map ct_path (dr_contents (rs_report r)) = ?paths" using d by (simp add: r declared_ok_def)
  have l: "list_all2 (derived_entry (key_for files (ds_keys ds))) (outside ?paths files) entries"
    using o by (simp add: out_ok_def e)
  have n: "map oe_name entries = map zf_name (outside ?paths files)"
    using l by (induction rule: list_all2_induct) (simp_all add: derived_entry_def)
  have "list_all2 (\<lambda>f e. f \<in> set files \<and> derived_entry (key_for files (ds_keys ds)) f e) (outside ?paths files) entries"
    by (rule list_all2_mono [OF list_all2_in_set [OF l]]) (simp add: outside_def)
  then have "list_all (\<lambda>e. valid_string (oe_name e) \<and> CHR 0x5C \<notin> set (oe_name e)
        \<and> inside_rel (if oe_dir e then butlast (oe_name e) else oe_name e)) entries
    \<and> list_all (\<lambda>f. \<not> zf_symlink f) (outside ?paths files)"
  proof (induction rule: list_all2_induct)
    case (Cons f fs e es)
    then have c: "clean_archive_path (zf_name f) (zf_dir f) = Inr (zf_name f)" using cl by auto
    have "oe_name e = zf_name f" "oe_dir e = zf_dir f" "\<not> zf_symlink f"
      using Cons.hyps by (simp_all add: derived_entry_def)
    then show ?case using clean_archive_path_Inr [OF c] Cons.IH by (cases "zf_dir f") simp_all
  qed simp
  then show ?thesis using n di by (simp add: p outside_def distinct_map_filter)
qed

lemma entry_classes:
  "length (filter (is_decrypted k) fs) + length (filter (\<lambda>f. \<not> zf_dir f \<and> \<not> is_decrypted k f) fs) + length (filter zf_dir fs) = length fs"
  by (induction fs) (auto simp: is_decrypted_def)

text \<open>
  C19. The limits hold of every derived archive, and its report is true of it: at most 2^30 bytes of
  payload, 64 MiB of manifest text, 100000 entries and declarations and 1024 manifests. The counts of
  the report are those of the archive: with the keys that the manifests declare, the decrypted files are those that
  were read under a key and not kept as text, the copied ones the other files, and the rest are directories. The
  counts of each manifest are those of its entries: with a key, and without one for what is no directory.
\<close>

theorem decryption_limits:
  assumes "decrypt_archive ft (Some (Some files)) dest n key = Inr (r, entries)"
  shows "dr_payload (rs_report r) = int (payload entries) \<and> payload entries \<le> 2 ^ 30
    \<and> sum_list (map (length \<circ> cm_plaintext) (rs_manifests r)) \<le> 64 * 2 ^ 20
    \<and> sum_list (map ct_entries (dr_contents (rs_report r))) \<le> 100000
    \<and> length (dr_contents (rs_report r)) \<le> 1024
    \<and> dr_input (rs_report r) = int (length files) \<and> length files \<le> 100000
    \<and> dr_output (rs_report r) = int (length entries)
    \<and> dr_directories (rs_report r) = int (length (filter oe_dir entries))
    \<and> (\<exists>keys. (\<forall>name k. keys name = Some k \<longleftrightarrow> declared_key (rs_manifests r) name k)
        \<and> (let written = outside (map ct_path (dr_contents (rs_report r))) files; decrypted = is_decrypted (key_for files keys)
           in dr_decrypted (rs_report r) = int (length (filter decrypted written))
              \<and> dr_copied (rs_report r) = int (length (filter (\<lambda>f. \<not> zf_dir f \<and> \<not> decrypted f) written))))
    \<and> dr_copied (rs_report r) + dr_decrypted (rs_report r) + dr_directories (rs_report r) = dr_output (rs_report r)
    \<and> dr_contents (rs_report r) = map cm_summary (rs_manifests r)
    \<and> list_all (manifest_counted (indexed files)) (rs_manifests r)
    \<and> list_all (\<lambda>c. ct_encrypted c + ct_plain c \<le> ct_entries c) (dr_contents (rs_report r))
    \<and> \<not> dr_authenticated (rs_report r)"
proof (rule decrypt_archive_Inr [OF assms])
  fix ds out
  let ?paths = "contents_paths (indexed files) (pack_root files)"
  assume d: "declared_ok ?paths ds" and o: "out_ok ?paths (key_for files (ds_keys ds)) files out"
    and e: "entries = os_entries out" and f: "length files \<le> max_archive_entries"
    and m: "length ?paths \<le> max_contents_manifests" and mc: "list_all (manifest_counted (indexed files)) (ds_manifests ds)"
    and r: "r = \<lparr>rs_report = \<lparr>dr_algorithm = ''AES-256-CFB8'', dr_authenticated = False, dr_content_id = ds_content_id ds,
            dr_input = int (length files), dr_output = int (length (os_entries out)),
            dr_decrypted = os_decrypted out, dr_copied = os_copied out, dr_directories = os_directories out,
            dr_payload = os_payload out, dr_contents = map cm_summary (ds_manifests ds)\<rparr>,
          rs_manifests = ds_manifests ds\<rparr>"
  let ?written = "outside ?paths files" and ?dec = "is_decrypted (key_for files (ds_keys ds))"
  have lm: "length (ds_manifests ds) = length ?paths" and p: "map ct_path (dr_contents (rs_report r)) = ?paths"
    using d unfolding declared_ok_def r by (metis length_map, simp)
  have pay: "payload entries \<le> 2 ^ 30" "os_payload out = int (payload entries)"
    using o by (simp_all add: out_ok_def e max_decrypted_payload_def)
  have tot: "sum_list (map (ct_entries \<circ> cm_summary) (ds_manifests ds)) \<le> 100000"
      "sum_list (map (length \<circ> cm_plaintext) (ds_manifests ds)) \<le> 64 * 2 ^ 20"
      "list_all (\<lambda>c. ct_encrypted c + ct_plain c \<le> ct_entries c) (map cm_summary (ds_manifests ds))"
    using d by (auto simp: declared_ok_def max_contents_plaintext_def max_archive_entries_def list_all_iff)
  have cnt: "os_directories out = int (length (filter oe_dir entries))"
      "os_copied out + os_decrypted out + os_directories out = int (length entries)" "os_decrypted out = int (length (filter ?dec ?written))"
    and l: "list_all2 (derived_entry (key_for files (ds_keys ds))) ?written entries"
    using o by (simp_all add: out_ok_def e)
  have "length (filter oe_dir entries) = length (filter zf_dir ?written)" "length entries = length ?written"
    using l by (induction rule: list_all2_induct) (auto simp: derived_entry_def)
  then have copied: "os_copied out = int (length (filter (\<lambda>f. \<not> zf_dir f \<and> \<not> ?dec f) ?written))"
    using cnt entry_classes [of "key_for files (ds_keys ds)" ?written] by linarith
  have "\<exists>keys. (\<forall>name k. keys name = Some k \<longleftrightarrow> declared_key (rs_manifests r) name k)
        \<and> (let written = outside (map ct_path (dr_contents (rs_report r))) files; decrypted = is_decrypted (key_for files keys)
           in dr_decrypted (rs_report r) = int (length (filter decrypted written))
              \<and> dr_copied (rs_report r) = int (length (filter (\<lambda>f. \<not> zf_dir f \<and> \<not> decrypted f) written)))"
    unfolding p using d cnt(3) copied by (intro exI [of _ "ds_keys ds"]) (simp add: r declared_ok_def)
  then show ?thesis
    using pay tot cnt(1,2) lm m f e mc by (simp add: r max_contents_manifests_def max_archive_entries_def)
qed

text \<open>
  C20. Decryption recovers a pack: seal a plain pack with a contents manifest for an identifier and a
  JSON text that declares keys for some of its files, encrypting those files, and the program's output
  for the sealed pack and its key is the plain pack, entry by entry, together with the identifier and
  the JSON text. The only plain packs left out are those where an encrypted text file happens to look
  like text while the plain file does not.
\<close>

theorem sealed_pack_recovered:
  assumes "length key = 32" "plain_pack files" "keyed_contents files json es"
    and "0 < length ident" "length ident \<le> 239" "valid_string ident"
    and "list_all (not_ambiguous (pack_keys es)) files" "0 \<le> n"
  shows "\<exists>r. decrypt_archive no_faults (Some (Some (pack_files (to_bytes key) ident json es files))) True n key
      = Inr (r, map plain_entry files)
    \<and> dr_content_id (rs_report r) = ident \<and> map cm_plaintext (rs_manifests r) = [json]"
  using assms by (intro sealed_pack_opens) (simp_all add: list_all_iff)

section \<open>A concrete pack\<close>

definition demo_key :: string where "demo_key = ''0123456789abcdef0123456789ABCDEF''"
definition demo_entries :: "contents_entry list" where "demo_entries = [(''a.bin'', demo_key)]"

definition demo_files :: "zip_file list" where
  "demo_files =
     [\<lparr>zf_name = ''manifest.json'', zf_dir = False, zf_symlink = False, zf_regular = True, zf_size = 2, zf_content = ZipData [0x7B, 0x7D]\<rparr>,
      \<lparr>zf_name = ''texts/'', zf_dir = True, zf_symlink = False, zf_regular = False, zf_size = 0, zf_content = ZipData []\<rparr>,
      \<lparr>zf_name = ''a.bin'', zf_dir = False, zf_symlink = False, zf_regular = True, zf_size = 3, zf_content = ZipData [1, 2, 3]\<rparr>]"

definition demo_pack :: "zip_file list" where
  "demo_pack = pack_files (to_bytes demo_key) ''demo'' (contents_text demo_entries) demo_entries demo_files"

lemma valid_ascii: "\<forall>c \<in> set s. ord c < 0x80 \<Longrightarrow> valid_string s"
  by (simp add: valid_string_def utf8_valid_ascii)

lemma demo_plain_pack: "plain_pack demo_files"
proof -
  have "clean_archive_path ''manifest.json'' False = Inr ''manifest.json''"
    "clean_archive_path ''texts/'' True = Inr ''texts/''" "clean_archive_path ''a.bin'' False = Inr ''a.bin''"
    by (simp_all add: clean_archive_path_def unsafe_name_def unsafe_clean_def has_prefix_def clean_path_def Let_def
        valid_ascii ord_def)
  moreover have "\<not> is_subpack_contents ''subpacks/'' n" if "n \<in> {''manifest.json'', ''texts/'', ''a.bin''}" for n
    using that by (auto simp: is_subpack_contents_def has_prefix_def)
  ultimately show ?thesis
    by (simp add: plain_pack_def demo_files_def plain_file_def payload_def plain_entry_def
        max_archive_entries_def max_decrypted_payload_def)
qed

lemma demo_keyed: "keyed_contents demo_files (contents_text demo_entries) demo_entries"
proof -
  have "plain_text ''a.bin''" "plain_text demo_key" "length demo_key = 32"
    by (simp_all add: demo_key_def plain_char_def ord_def)
  then have p: "parse_contents ''contents.json'' (contents_text demo_entries) = Inr demo_entries" "good_key demo_key"
    by (simp_all add: contents_text_parses demo_entries_def max_archive_entries_def good_key_def)
  have "contents_header_size + length (contents_text demo_entries) \<le> max_contents_manifest_size"
    by (simp add: contents_text_def contents_tokens_def entry_tokens_def demo_entries_def demo_key_def
        contents_header_size_def max_contents_manifest_size_def)
  moreover have "\<exists>f \<in> set demo_files. zf_name f = ''a.bin'' \<and> \<not> zf_dir f" by (simp add: demo_files_def)
  ultimately show ?thesis
    using p contents_text_trimmed by (simp add: keyed_contents_def demo_entries_def)
qed

lemma demo_unambiguous: "list_all (not_ambiguous (pack_keys demo_entries)) demo_files"
  by (simp add: demo_files_def not_ambiguous_def demo_entries_def entry_key_def is_text_like_def text_suffixes_def
      join_archive_path_def to_lower_plain has_suffix_def Let_def ord_def)

lemma demo_conditions:
  "length demo_key = 32" "0 < length ''demo''" "length ''demo'' \<le> 239" "valid_string ''demo''"
  by (simp_all add: demo_key_def valid_ascii ord_def)

lemma demo_opens: "\<exists>r. decrypt_archive no_faults (Some (Some demo_pack)) True 0 demo_key = Inr (r, map plain_entry demo_files)"
  using sealed_pack_opens [OF demo_conditions(1) demo_plain_pack demo_keyed demo_conditions(2-4), of 0] demo_unambiguous
  unfolding demo_pack_def list_all_iff by blast

definition demo_result :: "decrypt_result \<times> out_entry list" where
  "demo_result = projr (decrypt_archive no_faults (Some (Some demo_pack)) True 0 demo_key)"

lemma demo_decrypt_run: "decrypt_archive no_faults (Some (Some demo_pack)) True 0 demo_key = Inr (fst demo_result, snd demo_result)"
  using demo_opens by (auto simp: demo_result_def)

theorem sealed_pack_recovered_witness:
  "\<exists>r. decrypt_archive no_faults (Some (Some demo_pack)) True 0 demo_key = Inr (r, map plain_entry demo_files)
    \<and> dr_content_id (rs_report r) = ''demo'' \<and> map cm_plaintext (rs_manifests r) = [contents_text demo_entries]"
  unfolding demo_pack_def
  by (rule sealed_pack_recovered [OF demo_conditions(1) demo_plain_pack demo_keyed demo_conditions(2-4) demo_unambiguous order_refl])

theorem derived_archive_correct_witness:
  "\<exists>keys. list_all2 (derived_entry (key_for demo_pack keys))
     (outside (map ct_path (dr_contents (rs_report (fst demo_result)))) demo_pack) (snd demo_result)"
  using derived_archive_correct [OF demo_decrypt_run] by blast

theorem derived_paths_safe_witness:
  "distinct (map oe_name (snd demo_result))
   \<and> list_all (\<lambda>f. \<not> zf_symlink f) (outside (map ct_path (dr_contents (rs_report (fst demo_result)))) demo_pack)"
  using derived_paths_safe [OF demo_decrypt_run] by blast

theorem decryption_limits_witness:
  "payload (snd demo_result) \<le> 2 ^ 30 \<and> dr_output (rs_report (fst demo_result)) = int (length (snd demo_result))
   \<and> dr_copied (rs_report (fst demo_result)) + dr_decrypted (rs_report (fst demo_result)) + dr_directories (rs_report (fst demo_result))
      = int (length (snd demo_result))"
  using decryption_limits [OF demo_decrypt_run] by simp

end
