(* ===== verification/PackCache.thy ===== *)
theory PackCache
  imports Go_Strings
begin

text \<open>
  The cache of resource packs a server offers by URL (\<^verbatim>\<open>internal/proxy/resource_pack_url.go\<close>).
  The connection's reader calls \<^verbatim>\<open>Observe\<close> for one packet at a time; \<^verbatim>\<open>Load\<close>,
  \<^verbatim>\<open>Store\<close>, \<^verbatim>\<open>Merge\<close>, \<^verbatim>\<open>Packs\<close> and \<^verbatim>\<open>WaitForOffer\<close> may run between any two
  of its mutex sections, each of which is one operation here. Decoding the packet, parsing a URL and the
  HTTP download are parameters.
\<close>

section \<open>Data\<close>

record pack_key =
  pk_uuid :: string
  pk_version :: string
  pk_size :: "64 word"

text \<open>A parsed pack: identity, archive length, content key and the archive itself.\<close>

record 'c pack =
  pu_uuid :: string
  pu_version :: string
  pu_length :: int
  pu_key :: string
  pu_content :: 'c

record texture_pack =
  tp_uuid :: string
  tp_version :: string
  tp_size :: "64 word"
  tp_url :: string
  tp_key :: string

datatype download_error = UrlSyntax string | UrlScheme string | UrlTooLarge "64 word" | DownloadCancelled
  | DownloadFailed string | DownloadMismatch string

definition max_url_pack_bytes :: "64 word" where "max_url_pack_bytes = 512 * 2 ^ 20"
definition download_concurrency :: nat where "download_concurrency = 3"

definition advertised_key :: "texture_pack \<Rightarrow> pack_key" where
  "advertised_key a = \<lparr>pk_uuid = tp_uuid a, pk_version = tp_version a, pk_size = tp_size a\<rparr>"

text \<open>\<^verbatim>\<open>ResourcePackCacheKey.Matches\<close>, which converts the length to an unsigned number.\<close>

definition key_matches :: "pack_key \<Rightarrow> 'c pack \<Rightarrow> bool" where
  "key_matches k p = (pu_uuid p = pk_uuid k \<and> pu_version p = pk_version k \<and> word_of_int (pu_length p) = pk_size k)"

definition resource_pack_key :: "'c pack \<Rightarrow> pack_key" where
  "resource_pack_key p =
     (if pu_length p < 0 then \<lparr>pk_uuid = replicate 16 (CHR 0x00), pk_version = [], pk_size = 0\<rparr>
      else \<lparr>pk_uuid = pu_uuid p, pk_version = pu_version p, pk_size = word_of_int (pu_length p)\<rparr>)"

section \<open>Download\<close>

text \<open>
  \<open>parse\<close> gives the scheme and host of a URL or fails, \<open>fetch\<close> is
  \<^verbatim>\<open>resource.ReadURLLimitedContext\<close> with its byte limit.
\<close>

definition download :: "(string \<Rightarrow> (string \<times> string) option) \<Rightarrow> (string \<Rightarrow> int \<Rightarrow> 'c pack option) \<Rightarrow> bool \<Rightarrow>
    texture_pack \<Rightarrow> download_error + 'c pack" where
  "download parse fetch cancelled a =
     (case parse (tp_url a) of
        None \<Rightarrow> Inl (UrlSyntax (tp_url a))
      | Some (scheme0, host) \<Rightarrow>
          (let scheme = to_lower scheme0 in
           if (scheme \<noteq> ''http'' \<and> scheme \<noteq> ''https'') \<or> host = [] then Inl (UrlScheme (tp_url a))
           else if tp_size a > max_url_pack_bytes then Inl (UrlTooLarge (tp_size a))
           else if cancelled then Inl DownloadCancelled
           else case fetch (tp_url a) (sint (tp_size a)) of
             None \<Rightarrow> Inl (DownloadFailed (tp_url a))
           | Some p \<Rightarrow>
               if \<not> key_matches (advertised_key a) p then Inl (DownloadMismatch (tp_url a))
               else Inr (if tp_key a \<noteq> [] then p\<lparr>pu_key := tp_key a\<rparr> else p)))"

section \<open>State\<close>

text \<open>\<open>rc_offered\<close> and \<open>rc_ready\<close> say whether the channels are closed, which happens once.\<close>

record 'c pack_cache =
  rc_packs :: "pack_key \<rightharpoonup> 'c pack"
  rc_pack_order :: "pack_key list"
  rc_offer_order :: "pack_key list"
  rc_errors :: "pack_key \<rightharpoonup> download_error"
  rc_observed :: "pack_key set"
  rc_offered :: bool
  rc_ready :: bool
  rc_url_count :: nat

definition new_pack_cache :: "'c pack_cache" where
  "new_pack_cache = \<lparr>rc_packs = Map.empty, rc_pack_order = [], rc_offer_order = [], rc_errors = Map.empty,
     rc_observed = {}, rc_offered = False, rc_ready = False, rc_url_count = 0\<rparr>"

section \<open>Observe\<close>

definition note_offer :: "texture_pack list \<Rightarrow> 'c pack_cache \<Rightarrow> 'c pack_cache" where
  "note_offer info s =
     (if rc_offer_order s = [] then s\<lparr>rc_offer_order := map advertised_key info\<rparr> else s)"

definition count_urls :: "texture_pack list \<Rightarrow> nat" where
  "count_urls info = length (filter (\<lambda>a. tp_url a \<noteq> []) info)"

definition publish_offer :: "texture_pack list \<Rightarrow> 'c pack_cache \<Rightarrow> 'c pack_cache" where
  "publish_offer info s =
     (if rc_offered s then s else s\<lparr>rc_url_count := count_urls info, rc_offered := True\<rparr>)"

text \<open>One advertised pack: it becomes a job when it has a URL and was not observed before.\<close>

definition claim_pack :: "texture_pack \<Rightarrow> 'c pack_cache \<Rightarrow> 'c pack_cache \<times> texture_pack list" where
  "claim_pack a s =
     (if tp_url a = [] then (s, [])
      else (s\<lparr>rc_observed := insert (advertised_key a) (rc_observed s)\<rparr>,
            if advertised_key a \<in> rc_observed s then [] else [a]))"

definition store_result :: "'c pack_cache \<Rightarrow> texture_pack \<times> (download_error + 'c pack) \<Rightarrow> 'c pack_cache" where
  "store_result s r =
     (let k = advertised_key (fst r) in
      case snd r of
        Inl e \<Rightarrow> s\<lparr>rc_errors := (rc_errors s)(k \<mapsto> e)\<rparr>
      | Inr p \<Rightarrow> s\<lparr>rc_packs := (rc_packs s)(k \<mapsto> p), rc_pack_order := rc_pack_order s @ [k]\<rparr>)"

definition store_results :: "(texture_pack \<times> (download_error + 'c pack)) list \<Rightarrow> 'c pack_cache \<Rightarrow> 'c pack_cache" where
  "store_results rs s = foldl store_result s rs"

definition close_ready :: "'c pack_cache \<Rightarrow> 'c pack_cache" where
  "close_ready s = s\<lparr>rc_ready := True\<rparr>"

section \<open>Download workers\<close>

text \<open>
  At most three workers take job indices from the channel in order and fill their slots of the results.
\<close>

record 'r pool =
  wp_next :: nat
  wp_busy :: "nat list"
  wp_results :: "'r option list"

definition pool_workers :: "nat \<Rightarrow> nat" where "pool_workers jobs = min download_concurrency jobs"

definition new_pool :: "nat \<Rightarrow> 'r pool" where
  "new_pool jobs = \<lparr>wp_next = 0, wp_busy = [], wp_results = replicate jobs None\<rparr>"

inductive pool_step :: "('j \<Rightarrow> 'r) \<Rightarrow> 'j list \<Rightarrow> 'r pool \<Rightarrow> 'r pool \<Rightarrow> bool" for work jobs where
  take_job: "wp_next p < length jobs \<Longrightarrow> length (wp_busy p) < pool_workers (length jobs) \<Longrightarrow>
     pool_step work jobs p (p\<lparr>wp_next := wp_next p + 1, wp_busy := wp_next p # wp_busy p\<rparr>)"
| finish_job: "i \<in> set (wp_busy p) \<Longrightarrow>
     pool_step work jobs p (p\<lparr>wp_busy := remove1 i (wp_busy p),
                              wp_results := (wp_results p)[i := Some (work (jobs ! i))]\<rparr>)"

definition pool_done :: "'j list \<Rightarrow> 'r pool \<Rightarrow> bool" where
  "pool_done jobs p = (wp_next p = length jobs \<and> wp_busy p = [])"

section \<open>Load, Store, Packs and Merge\<close>

datatype load_error = LoadCancelled | LoadDownload download_error

definition load_pack :: "bool \<Rightarrow> pack_key \<Rightarrow> 'c pack_cache \<Rightarrow> load_error + 'c pack option" where
  "load_pack cancelled k s =
     (if cancelled then Inl LoadCancelled
      else case rc_errors s k of
        Some e \<Rightarrow> Inl (LoadDownload e)
      | None \<Rightarrow> Inr (rc_packs s k))"

datatype store_error = StoreCancelled | StoreNil | StoreMismatch

definition store_pack :: "bool \<Rightarrow> pack_key \<Rightarrow> 'c pack option \<Rightarrow> 'c pack_cache \<Rightarrow> store_error + 'c pack_cache" where
  "store_pack cancelled k pk s =
     (if cancelled then Inl StoreCancelled
      else case pk of
        None \<Rightarrow> Inl StoreNil
      | Some p \<Rightarrow>
          if \<not> key_matches k p then Inl StoreMismatch
          else Inr (s\<lparr>rc_packs := (rc_packs s)(k \<mapsto> p), rc_errors := (rc_errors s)(k := None),
                      rc_pack_order := (if rc_packs s k = None then rc_pack_order s @ [k] else rc_pack_order s)\<rparr>))"

definition cached_packs :: "'c pack_cache \<Rightarrow> 'c pack list" where
  "cached_packs s = List.map_filter (rc_packs s) (rc_pack_order s)"

text \<open>
  \<^verbatim>\<open>Merge\<close>: the packs used so far as a list of flags, the cached keys used, and the result.
\<close>

record 'c merge_state =
  mg_used :: "bool list"
  mg_keys :: "pack_key set"
  mg_merged :: "'c pack list"

text \<open>The first unused pack of the list that has the key.\<close>

definition unused_match :: "'c pack option list \<Rightarrow> bool list \<Rightarrow> pack_key \<Rightarrow> nat \<Rightarrow> bool" where
  "unused_match existing used k i =
     (\<not> used ! i \<and> (case existing ! i of None \<Rightarrow> False | Some p \<Rightarrow> resource_pack_key p = k))"

definition first_unused :: "'c pack option list \<Rightarrow> bool list \<Rightarrow> pack_key \<Rightarrow> nat option" where
  "first_unused existing used k = find (unused_match existing used k) [0..<length existing]"

definition mark_used :: "'c pack option list \<Rightarrow> pack_key \<Rightarrow> bool list \<Rightarrow> bool list" where
  "mark_used existing k used =
     (case first_unused existing used k of None \<Rightarrow> used | Some i \<Rightarrow> used[i := True])"

definition merge_offer :: "'c pack option list \<Rightarrow> (pack_key \<rightharpoonup> 'c pack) \<Rightarrow> 'c merge_state \<Rightarrow> pack_key \<Rightarrow> 'c merge_state" where
  "merge_offer existing prefetched m k =
     (case (if k \<in> mg_keys m then None else prefetched k) of
        Some p \<Rightarrow> \<lparr>mg_used = mark_used existing k (mg_used m), mg_keys = insert k (mg_keys m), mg_merged = mg_merged m @ [p]\<rparr>
      | None \<Rightarrow>
          (case first_unused existing (mg_used m) k of
             None \<Rightarrow> m
           | Some i \<Rightarrow> m\<lparr>mg_used := (mg_used m)[i := True], mg_merged := mg_merged m @ [the (existing ! i)]\<rparr>))"

definition unused_packs :: "'c pack option list \<Rightarrow> bool list \<Rightarrow> 'c pack list" where
  "unused_packs existing used =
     map the (map ((!) existing) (filter (\<lambda>i. \<not> used ! i \<and> existing ! i \<noteq> None) [0..<length existing]))"

definition merge_cached :: "(pack_key \<rightharpoonup> 'c pack) \<Rightarrow> 'c merge_state \<Rightarrow> pack_key \<Rightarrow> 'c merge_state" where
  "merge_cached prefetched m k =
     (if k \<in> mg_keys m then m
      else case prefetched k of
        None \<Rightarrow> m
      | Some p \<Rightarrow> m\<lparr>mg_keys := insert k (mg_keys m), mg_merged := mg_merged m @ [p]\<rparr>)"

definition merge_packs :: "'c pack_cache \<Rightarrow> 'c pack option list \<Rightarrow> 'c pack list" where
  "merge_packs s existing =
     (let start = \<lparr>mg_used = replicate (length existing) False, mg_keys = {}, mg_merged = []\<rparr>;
          offered = foldl (merge_offer existing (rc_packs s)) start (rc_offer_order s);
          kept = offered\<lparr>mg_merged := mg_merged offered @ unused_packs existing (mg_used offered)\<rparr>
      in mg_merged (foldl (merge_cached (rc_packs s)) kept (rc_pack_order s)))"

section \<open>Waiting for the offer\<close>

text \<open>
  \<^verbatim>\<open>WaitForOffer\<close> blocks on the channels, its timers and its context. A wait that has not been
  decided is pending; an event ends one of its two selects.
\<close>

datatype wait_state = WaitOffer | WaitReady | WaitDone bool

datatype wait_event = ChannelClosed | TimerFired | WaitCancelled

fun wait_step :: "'c pack_cache \<Rightarrow> wait_state \<Rightarrow> wait_event \<Rightarrow> wait_state" where
  "wait_step s WaitOffer ChannelClosed =
     (if \<not> rc_offered s then WaitOffer else if rc_url_count s = 0 then WaitDone True else WaitReady)"
| "wait_step s WaitOffer e = WaitDone False"
| "wait_step s WaitReady ChannelClosed = (if rc_ready s then WaitDone True else WaitReady)"
| "wait_step s WaitReady e = WaitDone False"
| "wait_step s (WaitDone b) e = WaitDone b"

section \<open>Interleavings\<close>

text \<open>Where the reader is in \<^verbatim>\<open>Observe\<close>: between packets or before one of its sections.\<close>

datatype observe_phase = Between | Noting "texture_pack list" | Publishing "texture_pack list"
  | Claiming "texture_pack list" "texture_pack list" | Downloading "texture_pack list" | Closing

text \<open>
  A step of the connection: the reader's next section, or a store of a pack that came in chunks. The
  outcome of a download is that of \<^const>\<open>download\<close> at the time of the call, so \<open>get\<close> is its result
  for each job.
\<close>

inductive cache_step :: "(texture_pack \<Rightarrow> download_error + 'c pack) \<Rightarrow>
    'c pack_cache \<times> observe_phase \<Rightarrow> 'c pack_cache \<times> observe_phase \<Rightarrow> bool" for get where
  begin_observe: "cache_step get (s, Between) (s, Noting info)"
| note_step: "cache_step get (s, Noting info) (note_offer info s, Publishing info)"
| publish_step: "cache_step get (s, Publishing info) (publish_offer info s, Claiming info [])"
| claim_step: "claim_pack a s = (s', new) \<Longrightarrow>
    cache_step get (s, Claiming (a # rest) jobs) (s', Claiming rest (jobs @ new))"
| no_jobs: "cache_step get (s, Claiming [] []) (s, Closing)"
| start_downloads: "jobs \<noteq> [] \<Longrightarrow> cache_step get (s, Claiming [] jobs) (s, Downloading jobs)"
| store_step: "cache_step get (s, Downloading jobs) (store_results (map (\<lambda>j. (j, get j)) jobs) s, Closing)"
| ready_step: "cache_step get (s, Closing) (close_ready s, Between)"
| chunk_store: "store_pack False k pk s = Inr s' \<Longrightarrow> cache_step get (s, ph) (s', ph)"

inductive_cases cache_stepE: "cache_step get st st'"

definition cache_reachable :: "(texture_pack \<Rightarrow> download_error + 'c pack) \<Rightarrow> 'c pack_cache \<times> observe_phase \<Rightarrow> bool" where
  "cache_reachable get st = (cache_step get)\<^sup>*\<^sup>* (new_pack_cache, Between) st"

end
