(* ===== verification/PackCache_Theorems.thy ===== *)
theory PackCache_Theorems
  imports PackCache "HOL-Library.Multiset" "HOL-Library.Sublist"
begin

text \<open>
  Properties of the pack cache: the worker pool computes every result once under any schedule, cached
  packs match their keys, an offer that was waited for is resolved, and merging loses nothing.
\<close>

section \<open>The worker pool\<close>

definition pool_ok :: "('j \<Rightarrow> 'r) \<Rightarrow> 'j list \<Rightarrow> 'r pool \<Rightarrow> bool" where
  "pool_ok work jobs p \<longleftrightarrow>
     wp_next p \<le> length jobs \<and> length (wp_results p) = length jobs \<and> distinct (wp_busy p)
     \<and> (\<forall>i \<in> set (wp_busy p). i < wp_next p) \<and> length (wp_busy p) \<le> pool_workers (length jobs)
     \<and> (\<forall>i < length jobs. wp_results p ! i =
          (if i < wp_next p \<and> i \<notin> set (wp_busy p) then Some (work (jobs ! i)) else None))"

lemma pool_start: "pool_ok work jobs (new_pool (length jobs))"
  by (simp add: pool_ok_def new_pool_def)

lemma pool_step_ok:
  assumes "pool_step work jobs p q" "pool_ok work jobs p"
  shows "pool_ok work jobs q"
  using assms
proof (cases rule: pool_step.cases)
  case take_job
  have "wp_next p \<notin> set (wp_busy p)" using assms(2) by (auto simp: pool_ok_def)
  then show ?thesis using take_job assms(2) by (auto simp: pool_ok_def less_Suc_eq)
next
  case (finish_job i)
  have "i < wp_next p" "wp_next p \<le> length jobs" using finish_job assms(2) by (auto simp: pool_ok_def)
  moreover have "length (remove1 i (wp_busy p)) \<le> length (wp_busy p)" by (simp add: length_remove1)
  ultimately show ?thesis
    using finish_job assms(2) by (auto simp: pool_ok_def nth_list_update)
qed

definition pool_work_left :: "'j list \<Rightarrow> 'r pool \<Rightarrow> nat" where
  "pool_work_left jobs p = 2 * (length jobs - wp_next p) + length (wp_busy p)"

lemma pool_step_less:
  assumes "pool_step work jobs p q"
  shows "pool_work_left jobs q < pool_work_left jobs p"
  using assms
proof (cases rule: pool_step.cases)
  case (finish_job i)
  then have "0 < length (wp_busy p)" by auto
  then show ?thesis using finish_job by (simp add: pool_work_left_def length_remove1)
qed (simp add: pool_work_left_def)

lemma pool_progress:
  assumes "pool_ok work jobs p" "\<not> pool_done jobs p"
  shows "\<exists>q. pool_step work jobs p q"
proof (cases "wp_busy p")
  case Nil
  then have "wp_next p < length jobs" using assms by (auto simp: pool_ok_def pool_done_def)
  moreover have "0 < pool_workers (length jobs)"
    using calculation by (auto simp: pool_workers_def download_concurrency_def)
  ultimately show ?thesis using Nil take_job [of p jobs work] by auto
next
  case (Cons i rest)
  then show ?thesis using finish_job [of i p work jobs] by auto
qed

text \<open>
  C25. Under every schedule of the download workers at most three downloads run at once, no schedule
  gets stuck or runs forever, and when the work is done every job has its own result, whatever order
  the downloads finished in.
\<close>

theorem downloads_schedule_independent:
  assumes "(pool_step work jobs)\<^sup>*\<^sup>* (new_pool (length jobs)) p"
  shows "length (wp_busy p) \<le> 3
    \<and> (if pool_done jobs p then wp_results p = map (\<lambda>j. Some (work j)) jobs else \<exists>q. pool_step work jobs p q)
    \<and> (\<forall>q. pool_step work jobs p q \<longrightarrow> pool_work_left jobs q < pool_work_left jobs p)"
proof -
  from assms have ok: "pool_ok work jobs p"
    by (induction rule: rtranclp_induct) (auto intro: pool_start pool_step_ok)
  then have "length (wp_busy p) \<le> 3" by (auto simp: pool_ok_def pool_workers_def download_concurrency_def)
  moreover have "pool_done jobs p \<Longrightarrow> wp_results p = map (\<lambda>j. Some (work j)) jobs"
    using ok by (intro nth_equalityI) (auto simp: pool_ok_def pool_done_def)
  ultimately show ?thesis using pool_progress [OF ok] pool_step_less by auto
qed

section \<open>Cached packs match\<close>

lemma download_matches: "download parse fetch cancelled a = Inr p \<Longrightarrow> key_matches (advertised_key a) p"
  by (auto simp: download_def key_matches_def Let_def split: option.splits prod.splits if_splits)

lemma download_limited:
  assumes "download parse fetch cancelled a = Inr p"
  shows "unat (tp_size a) \<le> 512 * 2 ^ 20"
proof -
  have "tp_size a \<le> max_url_pack_bytes"
    using assms by (auto simp: download_def Let_def split: option.splits prod.splits if_splits)
  then have "unat (tp_size a) \<le> unat max_url_pack_bytes" by (simp add: word_le_nat_alt)
  also have "unat max_url_pack_bytes = 512 * 2 ^ 20" by (simp add: max_url_pack_bytes_def)
  finally show ?thesis .
qed

definition resolved :: "'c pack_cache \<Rightarrow> pack_key \<Rightarrow> bool" where
  "resolved s k \<longleftrightarrow> rc_packs s k \<noteq> None \<or> rc_errors s k \<noteq> None"

definition cache_ok :: "'c pack_cache \<Rightarrow> bool" where
  "cache_ok s \<longleftrightarrow> (\<forall>k p. rc_packs s k = Some p \<longrightarrow> key_matches k p) \<and> set (rc_pack_order s) = dom (rc_packs s)
     \<and> (rc_ready s \<longrightarrow> rc_offered s)"

text \<open>What the reader's phase adds: before the first offer is published nothing was claimed.\<close>

definition phase_ok :: "'c pack_cache \<times> observe_phase \<Rightarrow> bool" where
  "phase_ok st \<longleftrightarrow> (case st of (s, ph) \<Rightarrow>
     cache_ok s
     \<and> (\<not> rc_offered s \<longrightarrow> rc_observed s = {} \<and> (case ph of Between \<Rightarrow> True | Noting _ \<Rightarrow> True | Publishing _ \<Rightarrow> True | _ \<Rightarrow> False)))"

lemma store_result_ok:
  assumes "cache_ok s" "\<And>p. snd r = Inr p \<Longrightarrow> key_matches (advertised_key (fst r)) p"
  shows "cache_ok (store_result s r)" "rc_offered (store_result s r) = rc_offered s"
    "rc_observed (store_result s r) = rc_observed s" "rc_ready (store_result s r) = rc_ready s"
  using assms by (auto simp: store_result_def cache_ok_def Let_def split: sum.splits)

lemma store_results_ok:
  assumes "cache_ok s" "\<And>j p. j \<in> set jobs \<Longrightarrow> get j = Inr p \<Longrightarrow> key_matches (advertised_key j) p"
  shows "cache_ok (store_results (map (\<lambda>j. (j, get j)) jobs) s)
    \<and> rc_offered (store_results (map (\<lambda>j. (j, get j)) jobs) s) = rc_offered s
    \<and> rc_observed (store_results (map (\<lambda>j. (j, get j)) jobs) s) = rc_observed s
    \<and> rc_ready (store_results (map (\<lambda>j. (j, get j)) jobs) s) = rc_ready s"
  using assms
proof (induction jobs arbitrary: s)
  case (Cons j jobs)
  then show ?case
    using store_result_ok [of s "(j, get j)"] Cons.IH [of "store_result s (j, get j)"]
    by (simp add: store_results_def)
qed (simp add: store_results_def)

lemma store_pack_Inr:
  assumes "store_pack c k pk s = Inr s'"
  obtains p where "pk = Some p" "key_matches k p" "\<not> c"
    "s' = s\<lparr>rc_packs := (rc_packs s)(k \<mapsto> p), rc_errors := (rc_errors s)(k := None),
            rc_pack_order := (if rc_packs s k = None then rc_pack_order s @ [k] else rc_pack_order s)\<rparr>"
  using assms by (auto simp: store_pack_def split: option.splits if_splits)

lemma store_pack_ok:
  assumes "store_pack c k pk s = Inr s'" "cache_ok s"
  shows "cache_ok s'" "rc_offered s' = rc_offered s" "rc_observed s' = rc_observed s" "rc_ready s' = rc_ready s"
proof -
  obtain p where p: "pk = Some p" "key_matches k p"
    "s' = s\<lparr>rc_packs := (rc_packs s)(k \<mapsto> p), rc_errors := (rc_errors s)(k := None),
            rc_pack_order := (if rc_packs s k = None then rc_pack_order s @ [k] else rc_pack_order s)\<rparr>"
    by (rule store_pack_Inr [OF assms(1)])
  then show "cache_ok s'" using assms(2) by (auto simp: cache_ok_def)
  show "rc_offered s' = rc_offered s" "rc_observed s' = rc_observed s" "rc_ready s' = rc_ready s"
    using p by simp_all
qed

lemma cache_step_ok:
  assumes "cache_step get st st'" "phase_ok st"
    and "\<And>a p. get a = Inr p \<Longrightarrow> key_matches (advertised_key a) p"
  shows "phase_ok st'"
  using assms(1)
proof (cases rule: cache_step.cases)
  case (store_step s jobs)
  then show ?thesis
    using assms(2) store_results_ok [of s jobs get] assms(3) by (auto simp: phase_ok_def)
next
  case (chunk_store k pk s s' ph)
  then show ?thesis
    using assms(2) store_pack_ok [OF chunk_store(3)] by (auto simp: phase_ok_def split: observe_phase.splits)
qed (use assms(2) in \<open>auto simp: phase_ok_def cache_ok_def note_offer_def publish_offer_def claim_pack_def
      close_ready_def split: if_splits\<close>)

lemma cache_reachable_ok:
  assumes "cache_reachable get st" "\<And>a p. get a = Inr p \<Longrightarrow> key_matches (advertised_key a) p"
  shows "phase_ok st"
  using assms(1) unfolding cache_reachable_def
proof (induction rule: rtranclp_induct)
  case base
  then show ?case by (simp add: phase_ok_def cache_ok_def new_pack_cache_def)
qed (blast intro: cache_step_ok assms(2))

text \<open>
  C26. In every reachable state of the cache, under every interleaving of the reader with stores, a
  pack that \<^verbatim>\<open>Load\<close> returns has the UUID, version and size of the key it was asked for, and
  the cache lists exactly the packs it holds. A download is accepted only within the size limit.
\<close>

theorem loaded_pack_matches:
  assumes "cache_reachable get (s, ph)" "\<forall>a. \<exists>c. get a = download parse fetch c a"
  shows "(\<forall>p. load_pack c k s = Inr (Some p) \<longrightarrow> key_matches k p)
    \<and> set (rc_pack_order s) = dom (rc_packs s)
    \<and> (\<forall>a p. get a = Inr p \<longrightarrow> unat (tp_size a) \<le> 512 * 2 ^ 20)"
proof -
  have m: "get a = Inr p \<Longrightarrow> key_matches (advertised_key a) p" for a p
    using assms(2) download_matches by metis
  have "cache_ok s" using cache_reachable_ok [OF assms(1) m] by (simp add: phase_ok_def)
  moreover have "get a = Inr p \<Longrightarrow> unat (tp_size a) \<le> 512 * 2 ^ 20" for a p
    using assms(2) download_limited by metis
  ultimately show ?thesis by (auto simp: cache_ok_def load_pack_def split: if_splits option.splits)
qed

section \<open>Waiting for an offer\<close>

lemma resolved_store_result:
  "resolved s k \<Longrightarrow> resolved (store_result s r) k" "resolved (store_result s r) (advertised_key (fst r))"
  by (auto simp: resolved_def store_result_def Let_def split: sum.splits)

lemma resolved_kept: "resolved s k \<Longrightarrow> resolved (store_results rs s) k"
  by (induction rs arbitrary: s) (simp_all add: store_results_def resolved_store_result)

lemma resolved_stored: "r \<in> set rs \<Longrightarrow> resolved (store_results rs s) (advertised_key (fst r))"
proof (induction rs arbitrary: s)
  case (Cons x rs)
  have "store_results (x # rs) s = store_results rs (store_result s x)" by (simp add: store_results_def)
  then show ?case using Cons by (cases "r = x") (auto intro: resolved_kept resolved_store_result)
qed simp

lemma resolved_store_pack:
  assumes "store_pack c j pk s = Inr s'" "resolved s k"
  shows "resolved s' k"
  using assms by (auto elim!: store_pack_Inr simp: resolved_def)

text \<open>
  What is known of a published offer while and after its \<^verbatim>\<open>Observe\<close> runs: its URL packs are still
  to be claimed, are jobs, or are resolved, and the channel that says ready closes last.
\<close>

definition offer_keys :: "texture_pack list \<Rightarrow> pack_key set" where
  "offer_keys info = advertised_key ` {a \<in> set info. tp_url a \<noteq> []}"

definition offer_ok :: "texture_pack list \<Rightarrow> 'c pack_cache \<times> observe_phase \<Rightarrow> bool" where
  "offer_ok info st \<longleftrightarrow> (case st of (s, ph) \<Rightarrow>
     rc_offered s \<and> rc_url_count s = count_urls info
     \<and> (\<forall>k \<in> offer_keys info. resolved s k \<or> \<not> rc_ready s)
     \<and> (case ph of
          Claiming rest jobs \<Rightarrow>
            \<forall>k \<in> offer_keys info \<union> rc_observed s. resolved s k \<or> (k \<in> offer_keys info \<and> k \<in> offer_keys rest \<and> k \<notin> rc_observed s)
              \<or> k \<in> advertised_key ` set jobs
        | Downloading jobs \<Rightarrow>
            \<forall>k \<in> offer_keys info \<union> rc_observed s. resolved s k \<or> k \<in> advertised_key ` set jobs
        | _ \<Rightarrow> \<forall>k \<in> offer_keys info \<union> rc_observed s. resolved s k))"

lemma offer_keys_simps [simp]:
  "offer_keys [] = {}"
  "offer_keys (a # info) = (if tp_url a = [] then offer_keys info else insert (advertised_key a) (offer_keys info))"
  by (auto simp: offer_keys_def)

lemma resolved_cong:
  "rc_packs s = rc_packs t \<Longrightarrow> rc_errors s = rc_errors t \<Longrightarrow> resolved s k = resolved t k"
  by (simp add: resolved_def)

lemma resolved_sections [simp]:
  "resolved (note_offer i s) k = resolved s k" "resolved (publish_offer i s) k = resolved s k"
  "resolved (close_ready s) k = resolved s k"
  by (simp_all add: resolved_def note_offer_def publish_offer_def close_ready_def)

lemma offer_step_ok:
  assumes "cache_step get st st'" "offer_ok info st"
  shows "offer_ok info st'"
  using assms(1)
proof (cases rule: cache_step.cases)
  case (begin_observe s i)
  then show ?thesis using assms(2) by (simp add: offer_ok_def)
next
  case (note_step s i)
  then show ?thesis using assms(2) by (auto simp: offer_ok_def note_offer_def resolved_def)
next
  case (publish_step s i)
  then show ?thesis using assms(2) by (auto simp: offer_ok_def publish_offer_def)
next
  case (claim_step a s s' new rest jobs)
  show ?thesis
  proof (cases "tp_url a = []")
    case True
    then show ?thesis using claim_step assms(2) by (auto simp: offer_ok_def claim_pack_def)
  next
    case False
    then have s': "s' = s\<lparr>rc_observed := insert (advertised_key a) (rc_observed s)\<rparr>"
        "new = (if advertised_key a \<in> rc_observed s then [] else [a])"
      using claim_step by (auto simp: claim_pack_def)
    have r: "resolved s' k = resolved s k" for k by (simp add: s' resolved_def)
    show ?thesis using claim_step assms(2) False r by (auto simp: offer_ok_def s')
  qed
next
  case (no_jobs s)
  then show ?thesis using assms(2) by (auto simp: offer_ok_def)
next
  case (start_downloads jobs s)
  then show ?thesis using assms(2) by (auto simp: offer_ok_def)
next
  case (store_step s jobs)
  let ?t = "store_results (map (\<lambda>j. (j, get j)) jobs) s"
  have f: "rc_offered ?t = rc_offered s" "rc_url_count ?t = rc_url_count s" "rc_observed ?t = rc_observed s" "rc_ready ?t = rc_ready s"
    unfolding store_results_def by (induction jobs arbitrary: s) (simp_all add: store_result_def Let_def split: sum.splits)
  have "resolved ?t k" if "resolved s k \<or> k \<in> advertised_key ` set jobs" for k
    using that resolved_kept resolved_stored [of "(j, get j)" "map (\<lambda>j. (j, get j)) jobs" for j] by fastforce
  then show ?thesis using store_step assms(2) f by (auto simp: offer_ok_def)
next
  case (ready_step s)
  then show ?thesis using assms(2) by (auto simp: offer_ok_def close_ready_def resolved_def)
next
  case (chunk_store k pk s s' ph)
  have f: "rc_offered s' = rc_offered s" "rc_url_count s' = rc_url_count s" "rc_observed s' = rc_observed s" "rc_ready s' = rc_ready s"
    using chunk_store by (auto elim!: store_pack_Inr)
  have "resolved s j \<Longrightarrow> resolved s' j" for j by (rule resolved_store_pack [OF chunk_store(3)])
  then show ?thesis using chunk_store assms(2) f
    by (auto simp: offer_ok_def split: observe_phase.splits; blast)
qed

text \<open>
  When \<^verbatim>\<open>WaitForOffer\<close> answers yes, every pack that the first published offer advertises with
  a URL is resolved: it is in the cache, or loading it reports the download's error. This holds
  at the answer and ever after, whatever other packets and stores come between.
\<close>

theorem waited_offer_resolved:
  assumes "cache_reachable get (s, Publishing info)" "\<forall>a p. get a = Inr p \<longrightarrow> key_matches (advertised_key a) p"
    and "\<not> rc_offered s" "(cache_step get)\<^sup>*\<^sup>* (publish_offer info s, Claiming info []) (t, ph)"
    and "wait_step t w ChannelClosed = WaitDone True" "w \<in> {WaitOffer, WaitReady}"
  shows "rc_url_count t = count_urls info
    \<and> (\<forall>a \<in> set info. tp_url a \<noteq> [] \<longrightarrow> load_pack False (advertised_key a) t \<noteq> Inr None)"
proof -
  have "phase_ok (s, Publishing info)" by (rule cache_reachable_ok [OF assms(1)]) (use assms(2) in blast)
  then have "rc_observed s = {}" "\<not> rc_ready s" using assms(3) by (auto simp: phase_ok_def cache_ok_def)
  then have "offer_ok info (publish_offer info s, Claiming info [])"
    using assms(3) by (auto simp: offer_ok_def publish_offer_def)
  with assms(4) have ok: "offer_ok info (t, ph)"
    by (induction rule: rtranclp_induct) (auto intro: offer_step_ok)
  have "resolved t (advertised_key a)" if a: "a \<in> set info" "tp_url a \<noteq> []" for a
  proof -
    have k: "advertised_key a \<in> offer_keys info" using a by (auto simp: offer_keys_def)
    have "count_urls info \<noteq> 0" using a by (auto simp: count_urls_def filter_empty_conv)
    then have "rc_ready t" using assms(5,6) ok by (auto simp: offer_ok_def split: if_splits)
    then show ?thesis using ok k by (auto simp: offer_ok_def)
  qed
  moreover have "load_pack False k t \<noteq> Inr None" if "resolved t k" for k
    using that by (auto simp: load_pack_def resolved_def split: option.splits)
  moreover have "rc_url_count t = count_urls info" using ok by (simp add: offer_ok_def)
  ultimately show ?thesis by blast
qed

section \<open>Merging\<close>

definition used_bag :: "'c pack option list \<Rightarrow> bool list \<Rightarrow> 'c pack multiset" where
  "used_bag existing used = image_mset (\<lambda>i. the (existing ! i)) (mset_set {i. i < length existing \<and> used ! i \<and> existing ! i \<noteq> None})"

definition cached_bag :: "(pack_key \<rightharpoonup> 'c pack) \<Rightarrow> pack_key set \<Rightarrow> 'c pack multiset" where
  "cached_bag prefetched ks = image_mset (\<lambda>k. the (prefetched k)) (mset_set ks)"

definition merge_ok :: "'c pack option list \<Rightarrow> (pack_key \<rightharpoonup> 'c pack) \<Rightarrow> pack_key list \<Rightarrow> 'c merge_state \<Rightarrow> bool" where
  "merge_ok existing prefetched ks m \<longleftrightarrow>
     length (mg_used m) = length existing \<and> mg_keys m = {k \<in> set ks. prefetched k \<noteq> None}
     \<and> (\<exists>shadowed. mset (mg_merged m) + shadowed = used_bag existing (mg_used m) + cached_bag prefetched (mg_keys m)
          \<and> image_mset resource_pack_key shadowed \<subseteq># mset_set (mg_keys m))
     \<and> (\<forall>k \<in> mg_keys m. the (prefetched k) \<in> set (mg_merged m))
     \<and> ((\<forall>k p. prefetched k = Some p \<longrightarrow> resource_pack_key p = k) \<longrightarrow> subseq (map resource_pack_key (mg_merged m)) ks)"

lemma first_unused_Some:
  assumes "first_unused existing used k = Some i"
  shows "i < length existing" "\<not> used ! i" "\<exists>p. existing ! i = Some p \<and> resource_pack_key p = k"
  using assms by (auto simp: first_unused_def find_Some_iff unused_match_def split: option.splits)

lemma used_bag_insert:
  assumes "i < length existing" "length used = length existing" "\<not> used ! i" "existing ! i \<noteq> None"
  shows "used_bag existing (used[i := True]) = used_bag existing used + {#the (existing ! i)#}"
proof -
  let ?S = "{j. j < length existing \<and> used ! j \<and> existing ! j \<noteq> None}"
  have "{j. j < length existing \<and> used[i := True] ! j \<and> existing ! j \<noteq> None} = insert i ?S"
    using assms by (auto simp: nth_list_update)
  moreover have "i \<notin> ?S" "finite ?S" using assms(3) by auto
  ultimately show ?thesis by (simp add: used_bag_def)
qed

lemma cached_bag_insert:
  "finite ks \<Longrightarrow> k \<notin> ks \<Longrightarrow> cached_bag prefetched (insert k ks) = cached_bag prefetched ks + {#the (prefetched k)#}"
  by (simp add: cached_bag_def)

lemma merge_offer_ok:
  assumes "merge_ok existing prefetched ks m"
  shows "merge_ok existing prefetched (ks @ [k]) (merge_offer existing prefetched m k)"
proof -
  from assms obtain sh where h: "length (mg_used m) = length existing" "mg_keys m = {k \<in> set ks. prefetched k \<noteq> None}"
    "mset (mg_merged m) + sh = used_bag existing (mg_used m) + cached_bag prefetched (mg_keys m)"
    "image_mset resource_pack_key sh \<subseteq># mset_set (mg_keys m)"
    "\<forall>k \<in> mg_keys m. the (prefetched k) \<in> set (mg_merged m)"
    and sub: "(\<forall>k p. prefetched k = Some p \<longrightarrow> resource_pack_key p = k) \<Longrightarrow> subseq (map resource_pack_key (mg_merged m)) ks"
    unfolding merge_ok_def by blast
  have fin: "finite (mg_keys m)" using h(2) by simp
  note fu = first_unused_Some [of existing "mg_used m" k]
  show ?thesis
  proof (cases "k \<in> mg_keys m \<or> prefetched k = None")
    case True
    then have c: "(if k \<in> mg_keys m then None else prefetched k) = None" by (cases "k \<in> mg_keys m") simp_all
    have ks: "{x \<in> set (ks @ [k]). prefetched x \<noteq> None} = mg_keys m" using True h(2) by auto
    show ?thesis
    proof (cases "first_unused existing (mg_used m) k")
      case None
      then show ?thesis using c h ks sub by (auto simp: merge_offer_def merge_ok_def intro: subseq_append')
    next
      case (Some i)
      then obtain p where p: "existing ! i = Some p" "resource_pack_key p = k" using fu(3) by blast
      have "used_bag existing ((mg_used m)[i := True]) = used_bag existing (mg_used m) + {#p#}"
        using used_bag_insert [of i existing "mg_used m"] fu(1,2) Some h(1) p(1) by simp
      then show ?thesis
        using c Some h ks sub p by (auto simp: merge_offer_def merge_ok_def intro!: exI [of _ sh])
    qed
  next
    case False
    then obtain p where p: "prefetched k = Some p" "k \<notin> mg_keys m" by auto
    have ks: "{x \<in> set (ks @ [k]). prefetched x \<noteq> None} = insert k (mg_keys m)" using p h(2) by auto
    have cb: "cached_bag prefetched (insert k (mg_keys m)) = cached_bag prefetched (mg_keys m) + {#p#}"
      using cached_bag_insert [OF fin p(2), of prefetched] p(1) by simp
    have ms: "mset_set (insert k (mg_keys m)) = mset_set (mg_keys m) + {#k#}" using fin p(2) by simp
    show ?thesis
    proof (cases "first_unused existing (mg_used m) k")
      case None
      then show ?thesis
        using h ks p cb ms sub
        by (auto simp: merge_offer_def merge_ok_def mark_used_def intro!: exI [of _ sh] intro: subset_mset.order_trans)
    next
      case (Some i)
      then obtain q where q: "existing ! i = Some q" "resource_pack_key q = k" using fu(3) by blast
      have "used_bag existing ((mg_used m)[i := True]) = used_bag existing (mg_used m) + {#q#}"
        using used_bag_insert [of i existing "mg_used m"] fu(1,2) Some h(1) q(1) by simp
      then show ?thesis
        using h ks p cb ms sub q Some
        by (auto simp: merge_offer_def merge_ok_def mark_used_def intro!: exI [of _ "sh + {#q#}"])
    qed
  qed
qed

lemma merge_offers_ok:
  assumes "merge_ok existing prefetched [] m"
  shows "merge_ok existing prefetched ks (foldl (merge_offer existing prefetched) m ks)"
  using assms by (induction ks rule: rev_induct) (simp_all add: merge_offer_ok)

lemma merge_start_ok:
  "merge_ok existing prefetched [] \<lparr>mg_used = replicate (length existing) False, mg_keys = {}, mg_merged = []\<rparr>"
proof -
  have none: "{i. i < length existing \<and> replicate (length existing) False ! i \<and> existing ! i \<noteq> None} = {}" by auto
  show ?thesis unfolding merge_ok_def used_bag_def cached_bag_def by (simp add: none del: not_None_eq)
qed

definition present :: "'c pack option list \<Rightarrow> 'c pack list" where
  "present existing = map the (filter (\<lambda>p. p \<noteq> None) existing)"

lemma mset_filter_upt: "mset (filter P [0..<n]) = mset_set {i. i < n \<and> P i}"
proof -
  have "mset (filter P [0..<n]) = mset_set (set (filter P [0..<n]))" by (rule mset_set_set [symmetric]) simp
  also have "set (filter P [0..<n]) = {i. i < n \<and> P i}" by auto
  finally show ?thesis .
qed

lemma unused_and_used:
  "mset (unused_packs existing used) + used_bag existing used = mset (present existing)"
proof -
  let ?n = "length existing"
  let ?f = "\<lambda>i. the (existing ! i)"
  have "present existing = map ?f (filter (\<lambda>i. existing ! i \<noteq> None) [0..<?n])"
    unfolding present_def by (subst map_nth [of existing, symmetric]) (simp add: filter_map comp_def)
  then have p: "mset (present existing) = image_mset ?f (mset_set {i. i < ?n \<and> existing ! i \<noteq> None})"
    by (simp add: mset_filter_upt)
  have u: "mset (unused_packs existing used) = image_mset ?f (mset_set {i. i < ?n \<and> \<not> used ! i \<and> existing ! i \<noteq> None})"
    by (simp add: unused_packs_def mset_filter_upt multiset.map_comp comp_def)
  let ?A = "{i. i < ?n \<and> \<not> used ! i \<and> existing ! i \<noteq> None}" and ?B = "{i. i < ?n \<and> used ! i \<and> existing ! i \<noteq> None}"
  have "{i. i < ?n \<and> existing ! i \<noteq> None} = ?A \<union> ?B" by auto
  moreover have "mset_set (?A \<union> ?B) = mset_set ?A + mset_set ?B" by (rule mset_set_Union) auto
  ultimately show ?thesis by (simp add: p u used_bag_def)
qed

lemma merge_cached_all:
  assumes "finite (mg_keys m)"
  shows "\<exists>more. mg_merged (foldl (merge_cached prefetched) m ks) = mg_merged m @ more
    \<and> mg_keys (foldl (merge_cached prefetched) m ks) = mg_keys m \<union> {k \<in> set ks. prefetched k \<noteq> None}
    \<and> mset more + cached_bag prefetched (mg_keys m)
      = cached_bag prefetched (mg_keys m \<union> {k \<in> set ks. prefetched k \<noteq> None})"
  using assms
proof (induction ks arbitrary: m)
  case (Cons k ks)
  show ?case
  proof (cases "k \<in> mg_keys m \<or> prefetched k = None")
    case True
    then have "merge_cached prefetched m k = m" by (auto simp: merge_cached_def)
    moreover have "mg_keys m \<union> {x \<in> set (k # ks). prefetched x \<noteq> None} = mg_keys m \<union> {x \<in> set ks. prefetched x \<noteq> None}"
      using True by auto
    ultimately show ?thesis using Cons.IH [OF Cons.prems] by simp
  next
    case False
    then obtain p where p: "prefetched k = Some p" "k \<notin> mg_keys m" by auto
    let ?m = "m\<lparr>mg_keys := insert k (mg_keys m), mg_merged := mg_merged m @ [p]\<rparr>"
    have st: "merge_cached prefetched m k = ?m" using p by (simp add: merge_cached_def)
    from Cons.IH [of ?m] Cons.prems obtain more where more:
      "mg_merged (foldl (merge_cached prefetched) ?m ks) = mg_merged ?m @ more"
      "mg_keys (foldl (merge_cached prefetched) ?m ks) = mg_keys ?m \<union> {k \<in> set ks. prefetched k \<noteq> None}"
      "mset more + cached_bag prefetched (mg_keys ?m)
       = cached_bag prefetched (mg_keys ?m \<union> {k \<in> set ks. prefetched k \<noteq> None})" by auto
    have "mg_keys ?m \<union> {x \<in> set ks. prefetched x \<noteq> None} = mg_keys m \<union> {x \<in> set (k # ks). prefetched x \<noteq> None}"
      using p by auto
    moreover have "cached_bag prefetched (mg_keys ?m) = cached_bag prefetched (mg_keys m) + {#p#}"
      using cached_bag_insert [OF Cons.prems p(2), of prefetched] p(1) by simp
    ultimately show ?thesis using more st by (intro exI [of _ "p # more"]) simp
  qed
qed (simp add: exI [of _ "[]"])

text \<open>
  Merging loses nothing and invents nothing: as a multiset, the merged list together with the
  packs that a cached pack of the same key replaced is the existing packs together with every cached
  pack that was offered or listed, each once; at most one pack is replaced per key. The list starts with the
  packs of the offer, in the order of the offer, among them every cached pack that was offered.
\<close>

theorem merge_complete:
  "(\<exists>shadowed. mset (merge_packs s existing) + shadowed
        = mset (present existing)
          + cached_bag (rc_packs s) {k \<in> set (rc_offer_order s) \<union> set (rc_pack_order s). rc_packs s k \<noteq> None}
      \<and> image_mset resource_pack_key shadowed \<subseteq># mset_set {k \<in> set (rc_offer_order s). rc_packs s k \<noteq> None})
   \<and> (\<exists>front back. merge_packs s existing = front @ back
      \<and> ((\<forall>k p. rc_packs s k = Some p \<longrightarrow> resource_pack_key p = k) \<longrightarrow> subseq (map resource_pack_key front) (rc_offer_order s))
      \<and> (\<forall>k \<in> set (rc_offer_order s). \<forall>p. rc_packs s k = Some p \<longrightarrow> p \<in> set front))"
proof -
  let ?P = "rc_packs s" and ?ks = "rc_offer_order s" and ?order = "rc_pack_order s"
  let ?start = "\<lparr>mg_used = replicate (length existing) False, mg_keys = {}, mg_merged = []\<rparr>"
  define m where "m = foldl (merge_offer existing ?P) ?start ?ks"
  define kept where "kept = m\<lparr>mg_merged := mg_merged m @ unused_packs existing (mg_used m)\<rparr>"
  have "merge_ok existing ?P ?ks m" unfolding m_def by (rule merge_offers_ok [OF merge_start_ok])
  then obtain sh where m: "mg_keys m = {k \<in> set ?ks. ?P k \<noteq> None}"
    "mset (mg_merged m) + sh = used_bag existing (mg_used m) + cached_bag ?P (mg_keys m)"
    "image_mset resource_pack_key sh \<subseteq># mset_set (mg_keys m)"
    "\<forall>k \<in> mg_keys m. the (?P k) \<in> set (mg_merged m)"
    and sub: "(\<forall>k p. ?P k = Some p \<longrightarrow> resource_pack_key p = k) \<longrightarrow> subseq (map resource_pack_key (mg_merged m)) ?ks"
    unfolding merge_ok_def by blast
  have "finite (mg_keys kept)" by (simp add: kept_def m(1))
  from merge_cached_all [OF this, of ?P ?order] obtain more where more:
    "mg_merged (foldl (merge_cached ?P) kept ?order) = mg_merged kept @ more"
    "mset more + cached_bag ?P (mg_keys kept) = cached_bag ?P (mg_keys kept \<union> {k \<in> set ?order. ?P k \<noteq> None})" by blast
  have res: "merge_packs s existing = mg_merged m @ (unused_packs existing (mg_used m) @ more)"
    using more(1) by (simp add: merge_packs_def Let_def m_def [symmetric] kept_def)
  have keys: "mg_keys kept \<union> {k \<in> set ?order. ?P k \<noteq> None} = {k \<in> set ?ks \<union> set ?order. ?P k \<noteq> None}"
    by (auto simp: kept_def m(1))
  have "mset (merge_packs s existing) + sh
      = mset (unused_packs existing (mg_used m)) + mset more + (mset (mg_merged m) + sh)" by (simp add: res)
  also have "\<dots> = (mset (unused_packs existing (mg_used m)) + used_bag existing (mg_used m))
      + (mset more + cached_bag ?P (mg_keys kept))" unfolding m(2) by (simp add: kept_def)
  also have "\<dots> = mset (present existing) + cached_bag ?P {k \<in> set ?ks \<union> set ?order. ?P k \<noteq> None}"
    unfolding unused_and_used more(2) keys ..
  finally have "mset (merge_packs s existing) + sh
      = mset (present existing) + cached_bag ?P {k \<in> set ?ks \<union> set ?order. ?P k \<noteq> None}" .
  moreover have "\<forall>k \<in> set ?ks. \<forall>p. ?P k = Some p \<longrightarrow> p \<in> set (mg_merged m)" using m(1,4) by force
  ultimately show ?thesis
    by (intro conjI exI [of _ sh] exI [of _ "mg_merged m"] exI [of _ "unused_packs existing (mg_used m) @ more"])
       (use m(3) sub res in \<open>simp_all add: m(1)\<close>)
qed

section \<open>Concrete runs\<close>

theorem downloads_schedule_independent_witness:
  "\<exists>p. (pool_step Suc [10, 20])\<^sup>*\<^sup>* (new_pool 2) p \<and> wp_results p = map (\<lambda>j. Some (Suc j)) [10, 20]"
proof -
  let ?a = "\<lparr>wp_next = 1, wp_busy = [0], wp_results = [None, None]\<rparr> :: nat pool"
  let ?b = "\<lparr>wp_next = 2, wp_busy = [1, 0], wp_results = [None, None]\<rparr> :: nat pool"
  let ?c = "\<lparr>wp_next = 2, wp_busy = [0], wp_results = [None, Some 21]\<rparr> :: nat pool"
  let ?d = "\<lparr>wp_next = 2, wp_busy = [], wp_results = [Some 11, Some 21]\<rparr> :: nat pool"
  have w: "pool_workers 2 = 2" by (simp add: pool_workers_def download_concurrency_def)
  have "pool_step Suc [10, 20] (new_pool 2) ?a"
    using take_job [of "new_pool 2" "[10, 20]" Suc] w by (simp add: new_pool_def numeral_2_eq_2)
  moreover have "pool_step Suc [10, 20] ?a ?b" using take_job [of ?a "[10, 20]" Suc] w by (simp add: numeral_2_eq_2)
  moreover have "pool_step Suc [10, 20] ?b ?c" using finish_job [of 1 ?b Suc "[10, 20]"] by simp
  moreover have "pool_step Suc [10, 20] ?c ?d" using finish_job [of 0 ?c Suc "[10, 20]"] by simp
  ultimately have steps: "(pool_step Suc [10, 20])\<^sup>*\<^sup>* (new_pool 2) ?d" by simp
  have two: "length [10, 20 :: nat] = 2" by simp
  have run: "(pool_step Suc [10, 20])\<^sup>*\<^sup>* (new_pool (length [10, 20 :: nat])) ?d" unfolding two by (rule steps)
  have "pool_done [10, 20 :: nat] ?d" by (simp add: pool_done_def)
  then have "wp_results ?d = map (\<lambda>j. Some (Suc j)) [10, 20]"
    using downloads_schedule_independent [OF run] by (metis (no_types, lifting))
  then show ?thesis using steps by blast
qed

definition demo_texture :: texture_pack where
  "demo_texture = \<lparr>tp_uuid = ''u'', tp_version = ''1.0.0'', tp_size = 7, tp_url = ''https://h/p'', tp_key = []\<rparr>"

definition demo_cached :: "nat pack" where
  "demo_cached = \<lparr>pu_uuid = ''u'', pu_version = ''1.0.0'', pu_length = 7, pu_key = [], pu_content = 0\<rparr>"

definition demo_get :: "texture_pack \<Rightarrow> download_error + nat pack" where
  "demo_get = download (\<lambda>_. Some (''https'', ''h'')) (\<lambda>_ _. Some demo_cached) False"

lemma demo_get_texture: "demo_get demo_texture = Inr demo_cached"
  by (simp add: demo_get_def download_def demo_texture_def demo_cached_def key_matches_def advertised_key_def
      max_url_pack_bytes_def to_lower_plain ord_def Let_def)

lemma demo_observe:
  "cache_reachable demo_get (note_offer [demo_texture] new_pack_cache, Publishing [demo_texture])"
  "\<exists>t. (cache_step demo_get)\<^sup>*\<^sup>* (publish_offer [demo_texture] (note_offer [demo_texture] new_pack_cache), Claiming [demo_texture] []) (t, Between)
     \<and> rc_ready t \<and> rc_packs t (advertised_key demo_texture) = Some demo_cached \<and> rc_errors t = Map.empty"
proof -
  let ?n = "note_offer [demo_texture] (new_pack_cache :: nat pack_cache)"
  have "cache_step demo_get (new_pack_cache, Between) (new_pack_cache, Noting [demo_texture])" by (rule begin_observe)
  moreover have "cache_step demo_get (new_pack_cache, Noting [demo_texture]) (?n, Publishing [demo_texture])" by (rule note_step)
  ultimately show "cache_reachable demo_get (?n, Publishing [demo_texture])" by (simp add: cache_reachable_def)
  let ?p = "publish_offer [demo_texture] ?n"
  let ?c = "?p\<lparr>rc_observed := {advertised_key demo_texture}\<rparr>"
  let ?s = "store_results [(demo_texture, demo_get demo_texture)] ?c"
  have "claim_pack demo_texture ?p = (?c, [demo_texture])"
    by (simp add: claim_pack_def demo_texture_def publish_offer_def note_offer_def new_pack_cache_def)
  then have "cache_step demo_get (?p, Claiming [demo_texture] []) (?c, Claiming [] [demo_texture])"
    using claim_step [of demo_texture ?p ?c "[demo_texture]" demo_get "[]" "[]"] by simp
  moreover have "cache_step demo_get (?c, Claiming [] [demo_texture]) (?c, Downloading [demo_texture])"
    by (rule start_downloads) simp
  moreover have "cache_step demo_get (?c, Downloading [demo_texture]) (?s, Closing)"
    using store_step [of demo_get ?c "[demo_texture]"] by simp
  moreover have "cache_step demo_get (?s, Closing) (close_ready ?s, Between)" by (rule ready_step)
  ultimately have "(cache_step demo_get)\<^sup>*\<^sup>* (?p, Claiming [demo_texture] []) (close_ready ?s, Between)" by simp
  moreover have "rc_ready (close_ready ?s) \<and> rc_packs (close_ready ?s) (advertised_key demo_texture) = Some demo_cached
      \<and> rc_errors (close_ready ?s) = Map.empty"
    by (simp add: close_ready_def store_results_def store_result_def demo_get_texture publish_offer_def note_offer_def
        new_pack_cache_def Let_def)
  ultimately show "\<exists>t. (cache_step demo_get)\<^sup>*\<^sup>* (?p, Claiming [demo_texture] []) (t, Between)
     \<and> rc_ready t \<and> rc_packs t (advertised_key demo_texture) = Some demo_cached \<and> rc_errors t = Map.empty" by blast
qed

theorem loaded_pack_matches_witness:
  "\<exists>t. load_pack False (advertised_key demo_texture) t = Inr (Some demo_cached)
    \<and> key_matches (advertised_key demo_texture) demo_cached \<and> set (rc_pack_order t) = dom (rc_packs t)"
proof -
  obtain t where t: "(cache_step demo_get)\<^sup>*\<^sup>* (publish_offer [demo_texture] (note_offer [demo_texture] new_pack_cache), Claiming [demo_texture] []) (t, Between)"
    "rc_packs t (advertised_key demo_texture) = Some demo_cached" "rc_errors t = Map.empty"
    using demo_observe(2) by blast
  have "cache_step demo_get (note_offer [demo_texture] new_pack_cache, Publishing [demo_texture])
      (publish_offer [demo_texture] (note_offer [demo_texture] new_pack_cache), Claiming [demo_texture] [])"
    by (rule publish_step)
  then have r: "cache_reachable demo_get (t, Between)"
    using demo_observe(1) t(1) unfolding cache_reachable_def by simp
  have g: "\<forall>a. \<exists>c. demo_get a = download (\<lambda>_. Some (''https'', ''h'')) (\<lambda>_ _. Some demo_cached) c a"
    by (auto simp: demo_get_def)
  have "load_pack False (advertised_key demo_texture) t = Inr (Some demo_cached)" using t by (simp add: load_pack_def)
  then show ?thesis using loaded_pack_matches [OF r g] by blast
qed

theorem waited_offer_resolved_witness:
  "\<exists>t. rc_url_count t = 1 \<and> load_pack False (advertised_key demo_texture) t \<noteq> (Inr None :: load_error + nat pack option)"
proof -
  obtain t where t: "(cache_step demo_get)\<^sup>*\<^sup>* (publish_offer [demo_texture] (note_offer [demo_texture] new_pack_cache), Claiming [demo_texture] []) (t, Between)"
    "rc_ready t" using demo_observe(2) by blast
  have g: "\<forall>a p. demo_get a = Inr p \<longrightarrow> key_matches (advertised_key a) p"
    using download_matches by (auto simp: demo_get_def)
  have n: "\<not> rc_offered (note_offer [demo_texture] (new_pack_cache :: nat pack_cache))"
    by (simp add: note_offer_def new_pack_cache_def)
  have w: "wait_step t WaitReady ChannelClosed = WaitDone True" using t(2) by simp
  have "rc_url_count t = count_urls [demo_texture]
      \<and> (\<forall>a \<in> set [demo_texture]. tp_url a \<noteq> [] \<longrightarrow> load_pack False (advertised_key a) t \<noteq> Inr None)"
    by (rule waited_offer_resolved [OF demo_observe(1) g n t(1) w]) simp
  then show ?thesis by (auto simp: count_urls_def demo_texture_def)
qed

definition demo_cache :: "nat pack_cache" where
  "demo_cache = \<lparr>rc_packs = [advertised_key demo_texture \<mapsto> demo_cached\<lparr>pu_key := ''k''\<rparr>],
     rc_pack_order = [advertised_key demo_texture], rc_offer_order = [advertised_key demo_texture], rc_errors = Map.empty,
     rc_observed = {advertised_key demo_texture}, rc_offered = True, rc_ready = True, rc_url_count = 1\<rparr>"

theorem merge_complete_witness:
  "\<exists>front back. merge_packs demo_cache [None, Some demo_cached] = front @ back \<and> demo_cached\<lparr>pu_key := ''k''\<rparr> \<in> set front"
proof -
  have "advertised_key demo_texture \<in> set (rc_offer_order demo_cache)"
    "rc_packs demo_cache (advertised_key demo_texture) = Some (demo_cached\<lparr>pu_key := ''k''\<rparr>)"
    by (simp_all add: demo_cache_def)
  then show ?thesis using merge_complete [of demo_cache "[None, Some demo_cached]"] by blast
qed

end
