(* ===== verification/Proxy_Transfer.thy ===== *)
theory Proxy_Transfer
  imports Go_Net
begin

text \<open>
  The proxy's configuration and the rewriting of transfer packets
  (\<^verbatim>\<open>internal/proxy/config.go\<close>, \<^verbatim>\<open>transfer.go\<close>, \<^verbatim>\<open>transfer_transport.go\<close>), and the
  failure sink that a connection's callbacks share (\<^verbatim>\<open>internal/bedrock/failure.go\<close>).
\<close>

section \<open>Addresses\<close>

datatype address_error = AddrSyntax addr_error | PortEmpty | HostLineBreak

definition line_breaks :: "char set" where "line_breaks = {CHR 0x0D, CHR 0x0A}"

definition validate_address :: "string \<Rightarrow> address_error + unit" where
  "validate_address address =
     (case split_host_port address of
        Inl e \<Rightarrow> Inl (AddrSyntax e)
      | Inr (host, port) \<Rightarrow>
          if trim_space port = [] then Inl PortEmpty
          else if contains_any host line_breaks then Inl HostLineBreak
          else Inr ())"

section \<open>Configuration\<close>

text \<open>
  The members that \<^verbatim>\<open>normalize\<close> reads; a recorder, network or output is present or nil, and a
  nil output becomes the discarding one.
\<close>

datatype out_writer = NilOutput | Discard | GivenOutput

record config =
  cfg_listen :: string
  cfg_packs_only :: bool
  cfg_upstream :: string
  cfg_network :: bool
  cfg_recorder :: bool
  cfg_output :: out_writer
  cfg_max_decompressed :: int
  cfg_preview :: int
  cfg_max_items :: int

datatype config_error = NoRecorder | NoUpstream | BadListen address_error | BadUpstream address_error
  | UpstreamBlank | UpstreamLineBreak | NegativeDecompressed | NegativePreview | NegativeItems

definition config_defaults :: "config \<Rightarrow> config" where
  "config_defaults c =
     c\<lparr>cfg_output := (if cfg_output c = NilOutput then Discard else cfg_output c),
       cfg_max_decompressed := (if cfg_max_decompressed c = 0 then 64 * 2 ^ 20 else cfg_max_decompressed c),
       cfg_preview := (if cfg_preview c = 0 then 32 else cfg_preview c)\<rparr>"

definition check_upstream :: "config \<Rightarrow> config_error + unit" where
  "check_upstream c =
     (if \<not> cfg_network c then map_err BadUpstream (validate_address (cfg_upstream c))
      else if trim_space (cfg_upstream c) = [] then Inl UpstreamBlank
      else if contains_any (cfg_upstream c) line_breaks then Inl UpstreamLineBreak
      else Inr ())"

definition normalize_config :: "config \<Rightarrow> config_error + config" where
  "normalize_config c0 =
     (if \<not> cfg_recorder c0 then Inl NoRecorder
      else
        (let c = (if cfg_listen c0 = [] then c0\<lparr>cfg_listen := ''127.0.0.1:19132''\<rparr> else c0) in
         if cfg_upstream c = [] then Inl NoUpstream
         else res_bind (if cfg_packs_only c then Inr () else map_err BadListen (validate_address (cfg_listen c))) (\<lambda>_.
              res_bind (check_upstream c) (\<lambda>_.
                let d = config_defaults c in
                if cfg_max_decompressed d < 0 then Inl NegativeDecompressed
                else if cfg_preview d < 0 then Inl NegativePreview
                else if cfg_max_items d < 0 then Inl NegativeItems
                else Inr d))))"

section \<open>Transfer packets\<close>

record 'g transfer =
  tr_address :: string
  tr_port :: "16 word"
  tr_reload :: bool
  tr_gathering :: 'g

datatype transfer_error = TransferNil | TransferEmpty | BadTarget string address_error
  | BadProxy address_error | Unreachable string | SplitProxy addr_error | ProxyPort

definition validate_proxy_transfer_address :: "string \<Rightarrow> transfer_error + unit" where
  "validate_proxy_transfer_address address =
     res_bind (map_err BadProxy (validate_address address)) (\<lambda>_.
       let host = (case split_host_port address of Inr (h, _) \<Rightarrow> h | Inl _ \<Rightarrow> []);
           bare = trim_space (trim_chars {CHR ''['', CHR '']''} host)
       in if bare = [] \<or> bare = ''0.0.0.0'' \<or> bare = ''::'' \<or> bare = ''::0'' then Inl (Unreachable address)
          else Inr ())"

definition transfer_for_proxy_address :: "'g transfer option \<Rightarrow> string \<Rightarrow> transfer_error + ('g transfer \<times> string)" where
  "transfer_for_proxy_address transfer proxy =
     (case transfer of
        None \<Rightarrow> Inl TransferNil
      | Some t \<Rightarrow>
          if trim_space (tr_address t) = [] then Inl TransferEmpty
          else
            (let host = trim_chars {CHR ''['', CHR '']''} (trim_space (tr_address t));
                 target = join_host_port host (itoa (unat (tr_port t)))
             in res_bind (map_err (BadTarget target) (validate_address target)) (\<lambda>_.
                res_bind (validate_proxy_transfer_address proxy) (\<lambda>_.
                res_bind (map_err SplitProxy (split_host_port proxy)) (\<lambda>(new_host, new_port).
                  case parse_uint 16 new_port of
                    None \<Rightarrow> Inl ProxyPort
                  | Some port \<Rightarrow>
                      Inr (\<lparr>tr_address = new_host, tr_port = of_nat port, tr_reload = tr_reload t,
                            tr_gathering = tr_gathering t\<rparr>, target))))))"

datatype https_error = SplitTarget addr_error | EmptyHost | InvalidPort

definition transfer_https_address :: "string \<Rightarrow> https_error + string" where
  "transfer_https_address target =
     res_bind (map_err SplitTarget (split_host_port (trim_space target))) (\<lambda>(host, port).
       if trim_space host = [] then Inl EmptyHost
       else case parse_uint 16 port of
         None \<Rightarrow> Inl InvalidPort
       | Some n \<Rightarrow> if n = 0 then Inl InvalidPort else Inr (''https://'' @ join_host_port host (itoa n)))"

text \<open>
  \<^verbatim>\<open>transferHTTPSNetherNet\<close>: \<open>connect\<close> is \<^verbatim>\<open>experience.NewHTTPSNetherNetNetwork\<close> under the probe
  timeout, \<^term>\<open>None\<close> when it fails.
\<close>

definition transfer_https_nethernet :: "(string \<Rightarrow> 'n option) \<Rightarrow> string \<Rightarrow> ('n \<times> string) option" where
  "transfer_https_nethernet connect target =
     (case transfer_https_address target of
        Inl _ \<Rightarrow> None
      | Inr address \<Rightarrow> map_option (\<lambda>n. (n, address)) (connect address))"

text \<open>
  \<^verbatim>\<open>prepareTransferHop\<close> on the members of the hop state it uses; \<open>record_failed\<close> is the outcome of
  recording the selected route, and the result says whether that failure ends the hop and whether the
  bounded datagram probe runs.
\<close>

record 'n hop_state =
  hs_target :: string
  hs_local :: bool
  hs_network :: "'n option"
  hs_address :: string
  hs_probed :: bool

record hop_outcome =
  ho_failed :: bool
  ho_recorded :: bool
  ho_datagram_probe :: bool

definition prepare_transfer_hop :: "(string \<Rightarrow> 'n option) \<Rightarrow> bool \<Rightarrow> 'n hop_state \<Rightarrow> 'n hop_state \<times> hop_outcome" where
  "prepare_transfer_hop connect record_failed s =
     (case transfer_https_nethernet connect (hs_target s) of
        Some (network, address) \<Rightarrow>
          (s\<lparr>hs_network := Some network, hs_address := address, hs_probed := True\<rparr>,
           \<lparr>ho_failed = record_failed, ho_recorded = True, ho_datagram_probe = False\<rparr>)
      | None \<Rightarrow>
          if hs_local s
          then (s\<lparr>hs_probed := True\<rparr>, \<lparr>ho_failed = False, ho_recorded = False, ho_datagram_probe = True\<rparr>)
          else (s, \<lparr>ho_failed = False, ho_recorded = False, ho_datagram_probe = False\<rparr>))"

section \<open>Failure sink\<close>

text \<open>
  \<^verbatim>\<open>FailureSink\<close>: \<open>fs_calls\<close> counts the calls of \<^verbatim>\<open>onFailure\<close>, which happens after the mutex
  is released; \<open>fs_callback\<close> says whether there is one.
\<close>

record 'e failure_sink =
  fs_err :: "'e option"
  fs_callback :: bool
  fs_calls :: nat

definition new_failure_sink :: "bool \<Rightarrow> 'e failure_sink" where
  "new_failure_sink callback = \<lparr>fs_err = None, fs_callback = callback, fs_calls = 0\<rparr>"

definition failure_set :: "'e failure_sink \<Rightarrow> 'e option \<Rightarrow> 'e failure_sink" where
  "failure_set s err =
     (case err of
        None \<Rightarrow> s
      | Some e \<Rightarrow>
          (let first = (fs_err s = None);
               t = (if fs_err s = None then s\<lparr>fs_err := Some e\<rparr> else s)
           in if first \<and> fs_callback s then t\<lparr>fs_calls := fs_calls t + 1\<rparr> else t))"

end
