(* ===== verification/Proxy_Transfer_Theorems.thy ===== *)
theory Proxy_Transfer_Theorems
  imports Proxy_Transfer
begin

text \<open>
  Properties of the configuration, of transfer rewriting and of the failure sink.
\<close>

section \<open>Addresses\<close>

lemma split_join_host_port_Inr:
  assumes "split_host_port (join_host_port h p) = Inr r" "no_brackets p" "CHR '':'' \<notin> set p"
    and "h = [] \<or> hd h \<noteq> CHR ''[''"
  shows "no_brackets h"
proof (cases "CHR '':'' \<in> set h")
  case True
  let ?s = "CHR ''['' # h @ '']:'' @ p"
  have s: "join_host_port h p = ?s" using True by (simp add: join_host_port_def)
  have i: "last_index CHR '':'' ?s = Some (length h + 2)"
    using last_index_append [OF assms(3), of "CHR ''['' # h @ '']''"] by simp
  obtain a b where r: "r = (a, b)" by (cases r)
  let ?e = "length (takeWhile (\<lambda>c. c \<noteq> CHR '']'') ?s)"
  have c: "?e + 1 = length h + 2" "CHR ''['' \<notin> set (drop 1 ?s)"
    using assms(1) unfolding s r split_host_port_Inr [OF i] Let_def by simp_all
  have "CHR '']'' \<notin> set h"
  proof
    assume "CHR '']'' \<in> set h"
    then obtain u v where "h = u @ CHR '']'' # v" "CHR '']'' \<notin> set u" by (meson split_list_first)
    then have "takeWhile (\<lambda>c. c \<noteq> CHR '']'') ?s = CHR ''['' # u" "length u < length h"
      by (auto simp: takeWhile_append)
    then show False using c(1) by simp
  qed
  then show ?thesis using c(2) by (simp add: no_brackets_def)
next
  case False
  let ?s = "h @ CHR '':'' # p"
  have s: "join_host_port h p = ?s" using False by (simp add: join_host_port_def)
  have i: "last_index CHR '':'' ?s = Some (length h)" by (rule last_index_append [OF assms(3)])
  have "?s ! 0 \<noteq> CHR ''[''" using assms(4) by (cases h) auto
  moreover obtain a b where r: "r = (a, b)" by (cases r)
  ultimately show ?thesis
    using assms(1) unfolding s r split_host_port_Inr [OF i] Let_def by (simp add: no_brackets_def)
qed

lemma trim_chars_head: "trim_chars cs s = [] \<or> hd (trim_chars cs s) \<notin> cs"
proof (cases "trim_chars cs s")
  case (Cons a t)
  let ?d = "dropWhile (\<lambda>c. c \<in> cs) s"
  have "rev ?d = takeWhile (\<lambda>c. c \<in> cs) (rev ?d) @ dropWhile (\<lambda>c. c \<in> cs) (rev ?d)" by simp
  then have "?d = trim_chars cs s @ rev (takeWhile (\<lambda>c. c \<in> cs) (rev ?d))"
    by (metis drop_while_end_def rev_append rev_rev_ident trim_both_def trim_chars_def)
  then have d: "?d = a # t @ rev (takeWhile (\<lambda>c. c \<in> cs) (rev ?d))" using Cons by simp
  then have "hd ?d = a" "?d \<noteq> []" by (metis list.sel(1), metis list.distinct(1))
  then show ?thesis using hd_dropWhile [of "\<lambda>c. c \<in> cs" s] Cons by simp
qed simp

lemma itoa_plain: "no_brackets (itoa n)" "CHR '':'' \<notin> set (itoa n)"
  using itoa_chars [of _ n] digit_not_special by (auto simp: no_brackets_def)

lemma digit_not_space: "is_digit c \<Longrightarrow> \<not> is_space_rune (ord c) \<and> ord c < 128"
  by (auto simp: is_digit_def is_space_rune_def)

lemma trim_space_digits: "list_all is_digit s \<Longrightarrow> trim_space s = s"
proof (cases "s = []")
  case True
  then show ?thesis by (simp add: trim_space_def trim_both_def drop_while_end_def)
next
  assume d: "list_all is_digit s"
  case False
  then have "is_digit (hd s)" "is_digit (last s)" using d by (simp_all add: list_all_iff)
  then show ?thesis
    using d False digit_not_space by (intro trim_space_plain) (auto simp: list_all_iff)
qed

definition reachable_host :: "string \<Rightarrow> bool" where
  "reachable_host host \<longleftrightarrow>
     trim_space (trim_chars {CHR ''['', CHR '']''} host) \<notin> {[], ''0.0.0.0'', ''::'', ''::0''}"

lemma validate_address_Inr:
  "validate_address a = Inr () \<longleftrightarrow>
   (\<exists>h p. split_host_port a = Inr (h, p) \<and> trim_space p \<noteq> [] \<and> \<not> contains_any h line_breaks)"
  by (auto simp: validate_address_def split: sum.splits)

lemma validate_target:
  assumes "h = [] \<or> hd h \<noteq> CHR ''[''"
  shows "validate_address (join_host_port h (itoa n)) = Inr () \<longleftrightarrow> no_brackets h \<and> \<not> contains_any h line_breaks"
proof (cases "no_brackets h")
  case True
  have "trim_space (itoa n) \<noteq> []" by (simp add: trim_space_digits [OF itoa_digits])
  then show ?thesis
    using split_join_host_port [OF True itoa_plain] True by (simp add: validate_address_def)
next
  case False
  have "split_host_port (join_host_port h (itoa n)) \<noteq> Inr r" for r
    using split_join_host_port_Inr [OF _ itoa_plain assms] False by blast
  then show ?thesis using False by (simp add: validate_address_Inr)
qed

lemma validate_proxy:
  "validate_proxy_transfer_address a = Inr () \<longleftrightarrow>
   (\<exists>h p. split_host_port a = Inr (h, p) \<and> trim_space p \<noteq> [] \<and> \<not> contains_any h line_breaks \<and> reachable_host h)"
  by (auto simp: validate_proxy_transfer_address_def result_simps validate_address_Inr reachable_host_def Let_def
      split: if_splits)

lemma parse_uint_digits: "parse_uint b s = Some n \<Longrightarrow> list_all is_digit s \<and> s \<noteq> []"
  by (auto simp: parse_uint_def split: if_splits)
section \<open>Transfer packets\<close>

abbreviation brackets :: "char set" where "brackets \<equiv> {CHR ''['', CHR '']''}"

lemma case_option_Inr_iff:
  "(case x of None \<Rightarrow> Inl e | Some n \<Rightarrow> Inr (f n)) = Inr r \<longleftrightarrow> (\<exists>n. x = Some n \<and> f n = r)"
  by (cases x) auto

lemma map_err_unit [simp]: "map_err g r = Inr () \<longleftrightarrow> r = Inr ()"
  by (cases r) simp_all

lemma transfer_characterised:
  "transfer_for_proxy_address (Some t) proxy = Inr (t', target) \<longleftrightarrow>
   (let host = trim_chars brackets (trim_space (tr_address t)) in
    trim_space (tr_address t) \<noteq> [] \<and> no_brackets host \<and> \<not> contains_any host line_breaks
    \<and> target = join_host_port host (itoa (unat (tr_port t)))
    \<and> (\<exists>new_port n. split_host_port proxy = Inr (tr_address t', new_port) \<and> parse_uint 16 new_port = Some n
         \<and> \<not> contains_any (tr_address t') line_breaks \<and> reachable_host (tr_address t') \<and> tr_port t' = of_nat n)
    \<and> tr_reload t' = tr_reload t \<and> tr_gathering t' = tr_gathering t)" (is "?l \<longleftrightarrow> ?r")
proof -
  let ?host = "trim_chars brackets (trim_space (tr_address t))"
  let ?target = "join_host_port ?host (itoa (unat (tr_port t)))"
  have hd: "?host = [] \<or> hd ?host \<noteq> CHR ''[''" using trim_chars_head [of brackets "trim_space (tr_address t)"] by auto
  note v = validate_target [OF hd, of "unat (tr_port t)"]
  have "?l \<longleftrightarrow> trim_space (tr_address t) \<noteq> [] \<and> validate_address ?target = Inr () \<and> target = ?target
      \<and> validate_proxy_transfer_address proxy = Inr ()
      \<and> (\<exists>h p n. split_host_port proxy = Inr (h, p) \<and> parse_uint 16 p = Some n
          \<and> t' = \<lparr>tr_address = h, tr_port = of_nat n, tr_reload = tr_reload t, tr_gathering = tr_gathering t\<rparr>)"
    by (auto simp: transfer_for_proxy_address_def Let_def result_simps case_option_Inr_iff split: if_splits)
  also have "\<dots> \<longleftrightarrow> ?r"
  proof (cases "split_host_port proxy")
    case (Inl e)
    then show ?thesis by (simp add: Let_def)
  next
    case (Inr hp)
    obtain h p where hp: "hp = (h, p)" by (cases hp)
    have "parse_uint 16 p = Some n \<Longrightarrow> trim_space p \<noteq> []" for n
      using parse_uint_digits trim_space_digits by metis
    then show ?thesis
      using Inr hp v unfolding validate_proxy Let_def by (cases t') auto
  qed
  finally show ?thesis .
qed

text \<open>
  C21. Rewriting a transfer succeeds exactly when the server's address is not blank and, after
  trimming, is a host without brackets and line breaks, and the proxy address is a host the client can
  reach with a port number. Then the client is sent to the proxy's own host and port, everything else
  of the packet is kept, and the target that the proxy connects to next is the server's host and port:
  splitting it gives exactly them back.
\<close>

theorem transfer_rewritten:
  "transfer_for_proxy_address (Some t) proxy = Inr (t', target) \<longleftrightarrow>
   (let host = trim_chars brackets (trim_space (tr_address t)) in
    trim_space (tr_address t) \<noteq> [] \<and> no_brackets host \<and> \<not> contains_any host line_breaks
    \<and> target = join_host_port host (itoa (unat (tr_port t)))
    \<and> split_host_port target = Inr (host, itoa (unat (tr_port t)))
    \<and> parse_uint 16 (itoa (unat (tr_port t))) = Some (unat (tr_port t))
    \<and> (\<exists>new_port. split_host_port proxy = Inr (tr_address t', new_port)
         \<and> parse_uint 16 new_port = Some (unat (tr_port t'))
         \<and> \<not> contains_any (tr_address t') line_breaks \<and> reachable_host (tr_address t'))
    \<and> tr_reload t' = tr_reload t \<and> tr_gathering t' = tr_gathering t)"
proof -
  have p: "(\<exists>n. parse_uint 16 s = Some n \<and> w = of_nat n) \<longleftrightarrow> parse_uint 16 s = Some (unat w)" for s and w :: "16 word"
    using parse_uint_bound [of 16 s] by (auto simp: unat_of_nat take_bit_eq_mod)
  have q: "parse_uint 16 (itoa (unat w)) = Some (unat w)" for w :: "16 word"
    using unsigned_less [of w] by (intro parse_uint_itoa) simp
  show ?thesis
    unfolding transfer_characterised Let_def
    using p [symmetric] q split_join_host_port [OF _ itoa_plain] by auto
qed

section \<open>The HTTPS route\<close>

text \<open>
  The address of the HTTPS route of a transfer is https followed by the target's own host and
  port: the port is a number between 1 and 65535, the host is not blank, and splitting what follows
  the scheme gives the host and port back. A hop takes the route exactly when that address exists and
  the connection to it succeeds; then the hop keeps the connection with the address and the route is
  recorded, and otherwise its network and address stay as they are.
\<close>

theorem https_route_sound:
  "(transfer_https_address target = Inr a \<longleftrightarrow>
      (\<exists>host port n. split_host_port (trim_space target) = Inr (host, port) \<and> trim_space host \<noteq> []
        \<and> parse_uint 16 port = Some n \<and> n \<noteq> 0 \<and> n < 65536
        \<and> a = ''https://'' @ join_host_port host (itoa n)
        \<and> split_host_port (join_host_port host (itoa n)) = Inr (host, itoa n)))
   \<and> (case prepare_transfer_hop connect failed s of (s', o') \<Rightarrow>
        (ho_recorded o' \<longleftrightarrow> (\<exists>b. transfer_https_address (hs_target s) = Inr b \<and> connect b \<noteq> None))
        \<and> (if ho_recorded o'
           then \<exists>b. transfer_https_address (hs_target s) = Inr b \<and> hs_network s' = connect b \<and> hs_address s' = b \<and> hs_probed s'
           else hs_network s' = hs_network s \<and> hs_address s' = hs_address s
             \<and> (hs_probed s' \<longleftrightarrow> hs_probed s \<or> hs_local s)))"
proof (rule conjI)
  show "transfer_https_address target = Inr a \<longleftrightarrow>
      (\<exists>host port n. split_host_port (trim_space target) = Inr (host, port) \<and> trim_space host \<noteq> []
        \<and> parse_uint 16 port = Some n \<and> n \<noteq> 0 \<and> n < 65536
        \<and> a = ''https://'' @ join_host_port host (itoa n)
        \<and> split_host_port (join_host_port host (itoa n)) = Inr (host, itoa n))"
  proof (cases "split_host_port (trim_space target)")
    case (Inr hp)
    obtain h p where hp: "hp = (h, p)" by (cases hp)
    have "no_brackets h" using split_host_port_shape Inr hp by blast
    then show ?thesis
      using Inr hp split_join_host_port [OF _ itoa_plain] parse_uint_bound [of 16 p]
      by (auto simp: transfer_https_address_def split: option.splits if_splits)
  qed (simp add: transfer_https_address_def)
qed (auto simp: prepare_transfer_hop_def transfer_https_nethernet_def split: option.splits sum.splits)

lemma itoa_examples: "itoa 7 = ''7''" "itoa 9 = ''9''"
  by (subst itoa.simps, simp add: digit_char_def char_of_eq_iff)+

lemma address_examples: "join_host_port ''a'' ''7'' = ''a:7''" "join_host_port ''b'' ''9'' = ''b:9''"
  "split_host_port ''a:7'' = Inr (''a'', ''7'')" "split_host_port ''b:9'' = Inr (''b'', ''9'')"
  "parse_uint 16 ''7'' = Some 7" "parse_uint 16 ''9'' = Some 9"
proof -
  show j: "join_host_port ''a'' ''7'' = ''a:7''" "join_host_port ''b'' ''9'' = ''b:9''"
    by (simp_all add: join_host_port_def)
  show "split_host_port ''a:7'' = Inr (''a'', ''7'')" "split_host_port ''b:9'' = Inr (''b'', ''9'')"
    using split_join_host_port [of "''a''" "itoa 7"] split_join_host_port [of "''b''" "itoa 9"] itoa_plain j
    by (simp_all add: no_brackets_def itoa_examples)
  show "parse_uint 16 ''7'' = Some 7" "parse_uint 16 ''9'' = Some 9"
    using parse_uint_itoa [of 7 16] parse_uint_itoa [of 9 16] by (simp_all add: itoa_examples)
qed

lemma trim_examples: "trim_space ''a'' = ''a''" "trim_space ''b'' = ''b''" "trim_space ''a:7'' = ''a:7''"
  by (rule trim_space_plain; simp add: ord_def is_space_rune_def)+

theorem transfer_rewritten_witness:
  "transfer_for_proxy_address (Some \<lparr>tr_address = ''a'', tr_port = 7, tr_reload = True, tr_gathering = ()\<rparr>) ''b:9''
   = Inr (\<lparr>tr_address = ''b'', tr_port = 9, tr_reload = True, tr_gathering = ()\<rparr>, ''a:7'')"
  unfolding transfer_rewritten
  by (simp add: address_examples itoa_examples trim_examples trim_chars_def trim_both_def drop_while_end_def
      no_brackets_def contains_any_def line_breaks_def reachable_host_def)

theorem https_route_sound_witness: "transfer_https_address ''a:7'' = Inr ''https://a:7''"
proof -
  have "split_host_port (join_host_port ''a'' (itoa 7)) = Inr (''a'', itoa 7)"
    by (simp add: address_examples itoa_examples)
  then have "\<exists>host port n. split_host_port (trim_space ''a:7'') = Inr (host, port) \<and> trim_space host \<noteq> []
        \<and> parse_uint 16 port = Some n \<and> n \<noteq> 0 \<and> n < 65536
        \<and> ''https://a:7'' = ''https://'' @ join_host_port host (itoa n)
        \<and> split_host_port (join_host_port host (itoa n)) = Inr (host, itoa n)"
    by (intro exI [of _ "''a''"] exI [of _ "''7''"] exI [of _ 7]) (simp add: address_examples trim_examples itoa_examples)
  then show ?thesis using https_route_sound [of "''a:7''" "''https://a:7''"] by blast
qed

section \<open>Configuration\<close>

definition config_ok :: "config \<Rightarrow> bool" where
  "config_ok c \<longleftrightarrow> cfg_recorder c \<and> cfg_listen c \<noteq> [] \<and> cfg_upstream c \<noteq> []
     \<and> (cfg_packs_only c \<or> validate_address (cfg_listen c) = Inr ()) \<and> check_upstream c = Inr ()
     \<and> cfg_output c \<noteq> NilOutput \<and> 0 < cfg_max_decompressed c \<and> 0 < cfg_preview c \<and> 0 \<le> cfg_max_items c"

lemma check_upstream_cong:
  "cfg_network c = cfg_network d \<Longrightarrow> cfg_upstream c = cfg_upstream d \<Longrightarrow> check_upstream c = check_upstream d"
  by (simp add: check_upstream_def)

lemma normalize_Inr:
  "normalize_config c = Inr d \<longleftrightarrow>
     d = config_defaults (if cfg_listen c = [] then c\<lparr>cfg_listen := ''127.0.0.1:19132''\<rparr> else c) \<and> config_ok d"
proof -
  define e where "e = (if cfg_listen c = [] then c\<lparr>cfg_listen := ''127.0.0.1:19132''\<rparr> else c)"
  define g where "g = config_defaults e"
  have f: "cfg_recorder c = cfg_recorder g" "cfg_listen e = cfg_listen g" "cfg_upstream e = cfg_upstream g"
    "cfg_packs_only e = cfg_packs_only g"
    by (simp_all add: e_def g_def config_defaults_def)
  have n: "cfg_listen g \<noteq> []" "cfg_output g \<noteq> NilOutput" "cfg_max_decompressed g \<noteq> 0" "cfg_preview g \<noteq> 0"
    by (simp_all add: e_def g_def config_defaults_def)
  have p: "0 < cfg_max_decompressed g \<longleftrightarrow> \<not> cfg_max_decompressed g < 0" "0 < cfg_preview g \<longleftrightarrow> \<not> cfg_preview g < 0"
    "0 \<le> cfg_max_items g \<longleftrightarrow> \<not> cfg_max_items g < 0"
    using n(3,4) by linarith+
  have u: "check_upstream e = check_upstream g"
    by (rule check_upstream_cong) (simp_all add: g_def config_defaults_def)
  have "normalize_config c =
      (if \<not> cfg_recorder g then Inl NoRecorder
       else if cfg_upstream g = [] then Inl NoUpstream
       else res_bind (if cfg_packs_only g then Inr () else map_err BadListen (validate_address (cfg_listen g))) (\<lambda>_.
              res_bind (check_upstream g) (\<lambda>_.
                if cfg_max_decompressed g < 0 then Inl NegativeDecompressed
                else if cfg_preview g < 0 then Inl NegativePreview
                else if cfg_max_items g < 0 then Inl NegativeItems else Inr g)))"
    unfolding normalize_config_def Let_def e_def [symmetric] g_def [symmetric] f u ..
  also have "\<dots> = Inr d \<longleftrightarrow> d = g \<and> config_ok g"
  proof (cases "cfg_packs_only g \<or> validate_address (cfg_listen g) = Inr ()")
    case True
    then have "(if cfg_packs_only g then Inr () else map_err BadListen (validate_address (cfg_listen g))) = Inr ()" by auto
    then show ?thesis
      using True n p by (auto simp: config_ok_def res_bind_Inr_iff)
  next
    case False
    then have "(if cfg_packs_only g then Inr () else map_err BadListen (validate_address (cfg_listen g))) \<noteq> Inr x" for x
      by simp
    then have "res_bind (if cfg_packs_only g then Inr () else map_err BadListen (validate_address (cfg_listen g))) k \<noteq> Inr d" for k
      unfolding res_bind_Inr_iff by blast
    then show ?thesis using False by (simp add: config_ok_def)
  qed
  finally have "normalize_config c = Inr d \<longleftrightarrow> d = g \<and> config_ok g" .
  then show ?thesis unfolding e_def [symmetric] g_def [symmetric] by blast
qed

text \<open>
  A configuration that normalises is usable: it has a recorder, a listen and an upstream address
  that pass validation, an output, positive limits and no negative one; the options that were set are
  kept. Normalising it again changes nothing.
\<close>

theorem normalized_config:
  assumes "normalize_config c = Inr d"
  shows "config_ok d \<and> normalize_config d = Inr d
    \<and> (cfg_listen c \<noteq> [] \<longrightarrow> cfg_listen d = cfg_listen c) \<and> cfg_upstream d = cfg_upstream c
    \<and> (cfg_max_decompressed c \<noteq> 0 \<longrightarrow> cfg_max_decompressed d = cfg_max_decompressed c)
    \<and> (cfg_preview c \<noteq> 0 \<longrightarrow> cfg_preview d = cfg_preview c) \<and> cfg_max_items d = cfg_max_items c"
proof -
  have d: "d = config_defaults (if cfg_listen c = [] then c\<lparr>cfg_listen := ''127.0.0.1:19132''\<rparr> else c)" "config_ok d"
    using assms unfolding normalize_Inr by (rule conjunct1, rule conjunct2)
  have "cfg_listen d \<noteq> []" "config_defaults d = d"
    using d(2) by (auto simp: config_ok_def config_defaults_def)
  then have "normalize_config d = Inr d" using d(2) by (simp add: normalize_Inr)
  then show ?thesis using d by (simp add: config_defaults_def)
qed

definition demo_config :: config where
  "demo_config = \<lparr>cfg_listen = ''0.0.0.0:7'', cfg_packs_only = False, cfg_upstream = ''a:9'', cfg_network = False,
     cfg_recorder = True, cfg_output = NilOutput, cfg_max_decompressed = 0, cfg_preview = 5, cfg_max_items = 0\<rparr>"

lemma demo_addresses: "validate_address ''0.0.0.0:7'' = Inr ()" "validate_address ''a:9'' = Inr ()"
proof -
  have "join_host_port ''0.0.0.0'' (itoa 7) = ''0.0.0.0:7''" "join_host_port ''a'' (itoa 9) = ''a:9''"
    by (simp_all add: join_host_port_def itoa_examples)
  then show "validate_address ''0.0.0.0:7'' = Inr ()" "validate_address ''a:9'' = Inr ()"
    using validate_target [of "''0.0.0.0''" 7] validate_target [of "''a''" 9]
    by (simp_all add: no_brackets_def contains_any_def line_breaks_def)
qed

lemma demo_normalizes: "\<exists>d. normalize_config demo_config = Inr d"
proof (rule exI [of _ "config_defaults demo_config"])
  show "normalize_config demo_config = Inr (config_defaults demo_config)"
    unfolding normalize_Inr
    by (simp add: config_ok_def demo_addresses check_upstream_def config_defaults_def demo_config_def)
qed

theorem normalized_config_witness: "\<exists>d. config_ok d \<and> normalize_config d = Inr d \<and> cfg_listen d = ''0.0.0.0:7''"
proof -
  obtain d where d: "normalize_config demo_config = Inr d" using demo_normalizes by blast
  show ?thesis using normalized_config [OF d] by (auto simp: demo_config_def)
qed

section \<open>Failure sink\<close>

lemma failure_set_cases:
  "failure_set s None = s"
  "fs_err s = None \<Longrightarrow> failure_set s (Some x)
     = s\<lparr>fs_err := Some x, fs_calls := (if fs_callback s then fs_calls s + 1 else fs_calls s)\<rparr>"
  "fs_err s \<noteq> None \<Longrightarrow> failure_set s (Some x) = s"
  by (simp_all add: failure_set_def Let_def)

text \<open>
  However many failures are set, and in whatever order the callers' turns come, the sink keeps
  the first one, and the callback is called exactly once if there was one; setting no error does
  nothing.
\<close>

theorem failure_sink_first:
  "fs_err (foldl failure_set (new_failure_sink callback) errs)
     = (case filter (\<lambda>e. e \<noteq> None) errs of [] \<Rightarrow> None | e # _ \<Rightarrow> e)
   \<and> fs_calls (foldl failure_set (new_failure_sink callback) errs)
     = (if callback \<and> filter (\<lambda>e. e \<noteq> None) errs \<noteq> [] then 1 else 0)"
proof -
  let ?fold = "\<lambda>errs. foldl failure_set (new_failure_sink callback) errs"
  have "fs_callback (?fold errs) = callback
      \<and> fs_err (?fold errs) = (case filter (\<lambda>e. e \<noteq> None) errs of [] \<Rightarrow> None | e # _ \<Rightarrow> e)
      \<and> fs_calls (?fold errs) = (if callback \<and> filter (\<lambda>e. e \<noteq> None) errs \<noteq> [] then 1 else 0)" for errs :: "'a option list"
  proof (induction errs rule: rev_induct)
    case (snoc e errs)
    show ?case
    proof (cases e)
      case None
      then show ?thesis using snoc by (simp add: failure_set_cases)
    next
      case e: (Some x)
      show ?thesis
      proof (cases "filter (\<lambda>e. e \<noteq> None) errs")
        case Nil
        then show ?thesis using snoc e by (cases callback) (simp_all add: failure_set_cases)
      next
        case (Cons a list)
        then have "a \<in> set (filter (\<lambda>e. e \<noteq> None) errs)" by simp
        then have "a \<noteq> None" by simp
        then show ?thesis using snoc e Cons by (simp add: failure_set_cases)
      qed
    qed
  qed (simp add: new_failure_sink_def)
  then show ?thesis by blast
qed

end
