(* ===== verification/AuthCache.thy ===== *)
theory AuthCache
  imports Go_Net
begin

text \<open>
  The token cache of one account (\<^verbatim>\<open>internal/authcache/cache.go\<close>): reading, writing and removing
  the cached token, and the token source that refreshes it or falls back to device authentication.
  What the file system and the OAuth library answer are arguments.
\<close>

section \<open>Tokens and files\<close>

record oauth_token =
  tk_access :: string
  tk_type :: string
  tk_refresh :: string
  tk_expiry :: int

text \<open>
  A token file: whether it is a regular file, its size, whether it opens, its modification time and the
  token its first JSON value decodes to. A path is missing, cannot be inspected, is a file, or is a
  symbolic link to a file; \<^verbatim>\<open>Stat\<close> follows the link and \<^verbatim>\<open>Lstat\<close> does not.
\<close>

record token_file =
  tf_regular :: bool
  tf_size :: nat
  tf_opens :: bool
  tf_mtime :: int
  tf_token :: "oauth_token option"

datatype path_state = Missing | Broken | PlainFile token_file | LinkTo token_file

type_synonym files = "string \<Rightarrow> path_state"

definition max_cache_bytes :: nat where "max_cache_bytes = 64 * 2 ^ 10"

datatype cache_error = EmptyPath | NotExist | InspectFailed | NotRegular string | TooLarge string | OpenFailed
  | DecodeFailed string | Unusable string | RemoveFailed | NoFactory
  | MakeDirFailed | CreateFailed | ChmodFailed | EncodeFailed | SyncFailed | CloseFailed | ReplaceFailed | PublishFailed
  | SourceFailed | NilToken

section \<open>Remove\<close>

definition remove_token :: "bool \<Rightarrow> string \<Rightarrow> files \<Rightarrow> files \<times> (cache_error + bool)" where
  "remove_token remove_fails path fs =
     (if path = [] then (fs, Inl EmptyPath)
      else case fs path of
        Missing \<Rightarrow> (fs, Inr False)
      | Broken \<Rightarrow> (fs, Inl InspectFailed)
      | LinkTo f \<Rightarrow> (fs, Inl (NotRegular path))
      | PlainFile f \<Rightarrow>
          if \<not> tf_regular f then (fs, Inl (NotRegular path))
          else if remove_fails then (fs, Inl RemoveFailed)
          else (fs(path := Missing), Inr True))"

section \<open>Reading and writing\<close>

fun stat_file :: "path_state \<Rightarrow> cache_error + token_file" where
  "stat_file Missing = Inl NotExist"
| "stat_file Broken = Inl InspectFailed"
| "stat_file (PlainFile f) = Inr f"
| "stat_file (LinkTo f) = Inr f"

definition read_token :: "files \<Rightarrow> string \<Rightarrow> cache_error + oauth_token" where
  "read_token fs path =
     res_bind (stat_file (fs path)) (\<lambda>f.
       if \<not> tf_regular f then Inl (NotRegular path)
       else if tf_size f > max_cache_bytes then Inl (TooLarge path)
       else if \<not> tf_opens f then Inl OpenFailed
       else case tf_token f of
         None \<Rightarrow> Inl (DecodeFailed path)
       | Some t \<Rightarrow> if tk_access t = [] \<and> tk_refresh t = [] then Inl (Unusable path) else Inr t)"

text \<open>
  The outcome of writing: the step before the final rename that fails, if one does, and whether the
  rename, the removal of the old file and the second rename fail.
\<close>

record write_faults =
  wr_prepare :: "cache_error option"
  wr_rename :: bool
  wr_remove :: bool
  wr_rename_again :: bool

definition written_file :: "(oauth_token \<Rightarrow> nat) \<Rightarrow> int \<Rightarrow> oauth_token \<Rightarrow> path_state" where
  "written_file encoded_size now t =
     PlainFile \<lparr>tf_regular = True, tf_size = encoded_size t, tf_opens = True, tf_mtime = now, tf_token = Some t\<rparr>"

definition write_token :: "(oauth_token \<Rightarrow> nat) \<Rightarrow> int \<Rightarrow> write_faults \<Rightarrow> files \<Rightarrow> string \<Rightarrow> oauth_token \<Rightarrow>
    files \<times> (cache_error + unit)" where
  "write_token encoded_size now ft fs path t =
     (case wr_prepare ft of
        Some e \<Rightarrow> (fs, Inl e)
      | None \<Rightarrow>
          if \<not> wr_rename ft then (fs(path := written_file encoded_size now t), Inr ())
          else if fs path \<noteq> Missing \<and> wr_remove ft then (fs, Inl ReplaceFailed)
          else if wr_rename_again ft then (fs(path := Missing), Inl PublishFailed)
          else (fs(path := written_file encoded_size now t), Inr ()))"

text \<open>\<^verbatim>\<open>sameToken\<close> compares the expiry as an instant, which is what a token holds here.\<close>

definition same_token :: "oauth_token option \<Rightarrow> oauth_token option \<Rightarrow> bool" where
  "same_token left right =
     (case (left, right) of
        (Some l, Some r) \<Rightarrow> tk_access l = tk_access r \<and> tk_type l = tk_type r \<and> tk_refresh l = tk_refresh r
          \<and> tk_expiry l = tk_expiry r
      | (None, None) \<Rightarrow> True
      | _ \<Rightarrow> False)"

section \<open>The token source\<close>

text \<open>The source in use: device authentication, or refreshing a token that was read from the cache.\<close>

datatype source_kind = DeviceSource | RefreshSource oauth_token

record source =
  so_path :: string
  so_source :: source_kind
  so_persisted :: "oauth_token option"
  so_from_cache :: bool
  so_announced :: bool

definition new_source :: "files \<Rightarrow> string \<Rightarrow> bool \<Rightarrow> bool \<Rightarrow> cache_error + source" where
  "new_source fs path factory force_device =
     (let device = \<lparr>so_path = path, so_source = DeviceSource, so_persisted = None, so_from_cache = False, so_announced = False\<rparr>
      in if path = [] then Inl EmptyPath
         else if \<not> factory then Inl NoFactory
         else if force_device then Inr device
         else case read_token fs path of
           Inl NotExist \<Rightarrow> Inr device
         | Inl e \<Rightarrow> Inl e
         | Inr t \<Rightarrow> Inr (device\<lparr>so_source := RefreshSource t, so_persisted := Some t, so_from_cache := True\<rparr>))"

datatype notice = RefreshFailedNotice | UsingCachedNotice | CachedAtNotice string

text \<open>
  \<^verbatim>\<open>Source.Token\<close>. \<open>answer\<close> is what a source answers when it is asked: \<^term>\<open>None\<close> for an error,
  and inside, \<^term>\<open>None\<close> for a nil token.
\<close>

record token_call =
  tc_source :: source
  tc_files :: files
  tc_notices :: "notice list"
  tc_result :: "cache_error + oauth_token"

definition ask_source :: "(source_kind \<Rightarrow> oauth_token option option) \<Rightarrow> source \<Rightarrow> source \<times> notice list \<times> oauth_token option option" where
  "ask_source answer s =
     (case answer (so_source s) of
        Some t \<Rightarrow> (s, [], Some t)
      | None \<Rightarrow>
          if so_from_cache s
          then (s\<lparr>so_source := DeviceSource, so_from_cache := False, so_announced := False\<rparr>,
                [RefreshFailedNotice], answer DeviceSource)
          else (s, [], None))"

definition persist_token :: "(oauth_token \<Rightarrow> nat) \<Rightarrow> int \<Rightarrow> write_faults \<Rightarrow> files \<Rightarrow> source \<Rightarrow> oauth_token \<Rightarrow>
    files \<times> (cache_error + source)" where
  "persist_token encoded_size now ft fs s t =
     (if same_token (so_persisted s) (Some t) then (fs, Inr s)
      else case write_token encoded_size now ft fs (so_path s) t of
        (fs', Inl e) \<Rightarrow> (fs', Inl e)
      | (fs', Inr _) \<Rightarrow> (fs', Inr (s\<lparr>so_persisted := Some t\<rparr>)))"

definition source_token :: "(oauth_token \<Rightarrow> nat) \<Rightarrow> int \<Rightarrow> (source_kind \<Rightarrow> oauth_token option option) \<Rightarrow> write_faults \<Rightarrow>
    files \<Rightarrow> source \<Rightarrow> token_call" where
  "source_token encoded_size now answer ft fs s0 =
     (case ask_source answer s0 of
        (s, notices, None) \<Rightarrow> \<lparr>tc_source = s, tc_files = fs, tc_notices = notices, tc_result = Inl SourceFailed\<rparr>
      | (s, notices, Some None) \<Rightarrow> \<lparr>tc_source = s, tc_files = fs, tc_notices = notices, tc_result = Inl NilToken\<rparr>
      | (s, notices, Some (Some t)) \<Rightarrow>
          (case persist_token encoded_size now ft fs s t of
             (fs', Inl e) \<Rightarrow> \<lparr>tc_source = s, tc_files = fs', tc_notices = notices, tc_result = Inl e\<rparr>
           | (fs', Inr s') \<Rightarrow>
               (if so_announced s' then \<lparr>tc_source = s', tc_files = fs', tc_notices = notices, tc_result = Inr t\<rparr>
                else \<lparr>tc_source = s'\<lparr>so_announced := True\<rparr>, tc_files = fs',
                      tc_notices = notices @ [if so_from_cache s' then UsingCachedNotice else CachedAtNotice (so_path s')],
                      tc_result = Inr t\<rparr>)))"

end
