(* ===== verification/Accounts.thy ===== *)
theory Accounts
  imports AuthCache "HOL-Library.List_Lexorder" "HOL-Library.Char_ord"
begin

text \<open>
  The registry of local accounts (\<^verbatim>\<open>internal/authcache/profiles.go\<close>): accounts by canonical name,
  the default account, and the operations that select, add, rename and remove accounts. The registry
  file is its size and the registry its JSON decodes to; failures of system calls are arguments.
\<close>

section \<open>Data\<close>

definition default_account_name :: string where "default_account_name = ''default''"
definition max_registry_bytes :: nat where "max_registry_bytes = 64 * 2 ^ 10"

record account_record =
  ar_name :: string
  ar_created :: "int option"
  ar_max_age :: "64 word"

text \<open>The accounts are an association list with distinct keys. A time that is not set is \<^term>\<open>None\<close>.\<close>

record registry =
  rg_version :: int
  rg_default :: string
  rg_accounts :: "(string \<times> account_record) list"

datatype registry_file = NoRegistry | RegistryUnopenable | RegistryNoStat | RegistryFile nat "registry option"

record account_store =
  as_root :: string
  as_legacy :: string
  as_registry :: string
  as_accounts :: string

definition new_account_store :: "string \<Rightarrow> account_store" where
  "new_account_store root =
     \<lparr>as_root = root, as_legacy = join_path root ''auth-token.json'', as_registry = join_path root ''accounts.json'',
      as_accounts = join_path root ''accounts''\<rparr>"

record account_files =
  af_registry :: registry_file
  af_tokens :: files

datatype cache_state = CacheMissing | CachePresent | CacheReauth | CacheInvalid

record account =
  ac_name :: string
  ac_path :: string
  ac_default :: bool
  ac_cached :: bool
  ac_state :: cache_state
  ac_modified :: "int option"
  ac_expires :: "int option"
  ac_access_expires :: "int option"
  ac_max_age :: "64 word"

datatype account_error = NameRequired | NameInvalid | OpenRegistry | InspectRegistry | RegistryTooLarge | DecodeRegistry
  | BadVersion int | NoDefault | UnsafeDefault | MissingDefault | UnsafeKey | BadLabel string
  | BadAge | NotFound string | SameName | AlreadyExists string | CacheExists string | InspectDestination
  | NoCache string | InspectCache | CacheNotRegular string | CreateDirectory | RenameCache
  | SaveFailed | SaveRenamed | RemoveCache cache_error | RemoveRegistry

section \<open>Names\<close>

definition alnum :: "char \<Rightarrow> bool" where
  "alnum c = (is_digit c \<or> (65 \<le> ord c \<and> ord c \<le> 90) \<or> (97 \<le> ord c \<and> ord c \<le> 122))"

definition name_char :: "char \<Rightarrow> bool" where
  "name_char c = (alnum c \<or> c \<in> {CHR ''.'', CHR ''_'', CHR ''-''})"

text \<open>The pattern of account names: an alphanumeric, then at most 31 name characters.\<close>

definition account_name_pattern :: "string \<Rightarrow> bool" where
  "account_name_pattern s = (s \<noteq> [] \<and> alnum (hd s) \<and> list_all name_char (tl s) \<and> length (tl s) \<le> 31)"

definition canonical_account_name :: "string \<Rightarrow> account_error + string \<times> string" where
  "canonical_account_name name =
     (let label = trim_space name in
      if label = [] then Inl NameRequired
      else if \<not> account_name_pattern label then Inl NameInvalid
      else Inr (to_lower label, label))"

definition token_path :: "account_store \<Rightarrow> string \<Rightarrow> string" where
  "token_path st key =
     (if key = default_account_name then as_legacy st else join_path (as_accounts st) (key @ ''.json''))"

section \<open>Load and save\<close>

definition initial_registry :: registry where
  "initial_registry = \<lparr>rg_version = 1, rg_default = [], rg_accounts = []\<rparr>"

definition legacy_registry :: "account_store \<Rightarrow> files \<Rightarrow> registry" where
  "legacy_registry st fs =
     (case stat_file (fs (as_legacy st)) of
        Inr f \<Rightarrow> if tf_regular f
          then \<lparr>rg_version = 1, rg_default = default_account_name,
                rg_accounts = [(default_account_name, \<lparr>ar_name = default_account_name, ar_created = Some (tf_mtime f), ar_max_age = 0\<rparr>)]\<rparr>
          else initial_registry
      | Inl _ \<Rightarrow> initial_registry)"

definition canonical_key :: "string \<Rightarrow> bool" where
  "canonical_key key = (case canonical_account_name key of Inr (k, _) \<Rightarrow> k = key | Inl _ \<Rightarrow> False)"

definition label_ok :: "string \<Rightarrow> account_record \<Rightarrow> bool" where
  "label_ok key r = (ar_name r = [] \<or> (case canonical_account_name (ar_name r) of Inr (k, _) \<Rightarrow> k = key | Inl _ \<Rightarrow> False))"

text \<open>The first account whose key or label is wrong; Go ranges over the map in any order.\<close>

fun check_accounts :: "(string \<times> account_record) list \<Rightarrow> account_error + unit" where
  "check_accounts [] = Inr ()"
| "check_accounts ((key, r) # rest) =
     (if \<not> canonical_key key then Inl UnsafeKey
      else if \<not> label_ok key r then Inl (BadLabel key)
      else check_accounts rest)"

definition check_registry :: "registry \<Rightarrow> account_error + registry" where
  "check_registry r =
     (if rg_version r \<noteq> 1 then Inl (BadVersion (rg_version r))
      else if rg_default r = [] \<and> rg_accounts r \<noteq> [] then Inl NoDefault
      else if rg_default r \<noteq> [] \<and> \<not> canonical_key (rg_default r) then Inl UnsafeDefault
      else if rg_default r \<noteq> [] \<and> map_of (rg_accounts r) (rg_default r) = None then Inl MissingDefault
      else res_bind (check_accounts (rg_accounts r)) (\<lambda>_. Inr r))"

definition load_registry :: "account_store \<Rightarrow> account_files \<Rightarrow> account_error + registry" where
  "load_registry st af =
     (case af_registry af of
        NoRegistry \<Rightarrow> Inr (legacy_registry st (af_tokens af))
      | RegistryUnopenable \<Rightarrow> Inl OpenRegistry
      | RegistryNoStat \<Rightarrow> Inl InspectRegistry
      | RegistryFile bytes content \<Rightarrow>
          if bytes > max_registry_bytes then Inl RegistryTooLarge
          else case content of None \<Rightarrow> Inl DecodeRegistry | Some r \<Rightarrow> check_registry r)"

text \<open>
  Saving replaces the file by a rename at the end, so a step that fails leaves the old file.
  \<open>encoded\<close> is the length of the registry's JSON text.
\<close>

definition save_registry :: "(registry \<Rightarrow> nat) \<Rightarrow> bool \<Rightarrow> registry \<Rightarrow> account_files \<Rightarrow> account_files option" where
  "save_registry encoded fails r0 af =
     (let r = (if rg_version r0 = 0 then r0\<lparr>rg_version := 1\<rparr> else r0) in
      if fails then None else Some (af\<lparr>af_registry := RegistryFile (encoded r) (Some r)\<rparr>))"

section \<open>Status\<close>

definition second :: int where "second = 1000000000"

text \<open>A duration is a 64-bit number of nanoseconds, so an age in seconds may wrap around.\<close>

definition age_duration :: "64 word \<Rightarrow> 64 word" where
  "age_duration secs = secs * word_of_int second"

definition account_status :: "account_store \<Rightarrow> int \<Rightarrow> files \<Rightarrow> string \<Rightarrow> account_record \<Rightarrow> bool \<Rightarrow> account" where
  "account_status st now fs key r is_default =
     (let path = token_path st key;
          age = age_duration (ar_max_age r);
          base = \<lparr>ac_name = (if ar_name r = [] then key else ar_name r), ac_path = path, ac_default = is_default,
                  ac_cached = False, ac_state = CacheMissing, ac_modified = None, ac_expires = None, ac_access_expires = None, ac_max_age = age\<rparr>
      in case stat_file (fs path) of
        Inl _ \<Rightarrow> base
      | Inr f \<Rightarrow>
          (let cached = base\<lparr>ac_cached := True, ac_modified := Some (tf_mtime f), ac_state := CachePresent\<rparr>;
               expires = tf_mtime f + sint age;
               aged = (if sint age > 0
                       then cached\<lparr>ac_expires := Some expires, ac_state := (if now < expires then CachePresent else CacheReauth)\<rparr>
                       else cached)
           in case read_token fs path of
             Inr t \<Rightarrow> aged\<lparr>ac_access_expires := Some (tk_expiry t)\<rparr>
           | Inl _ \<Rightarrow> aged\<lparr>ac_state := CacheInvalid\<rparr>))"

definition cache_expired :: "account \<Rightarrow> int \<Rightarrow> bool" where
  "cache_expired a now = (sint (ac_max_age a) > 0 \<and> ac_modified a \<noteq> None
     \<and> (case ac_expires a of None \<Rightarrow> True | Some e \<Rightarrow> \<not> now < e))"

section \<open>Operations\<close>

definition default_account :: "account_store \<Rightarrow> int \<Rightarrow> account_files \<Rightarrow> account_error + account" where
  "default_account st now af =
     res_bind (load_registry st af) (\<lambda>r.
       let key = (if rg_default r = [] then default_account_name else rg_default r);
           rec = (case map_of (rg_accounts r) key of
                    Some rec \<Rightarrow> rec | None \<Rightarrow> \<lparr>ar_name = default_account_name, ar_created = None, ar_max_age = 0\<rparr>)
       in Inr (account_status st now (af_tokens af) key rec
                 (key = rg_default r \<or> (rg_default r = [] \<and> key = default_account_name))))"

text \<open>The display order: the default account first, then by lower-case name; the sort is stable.\<close>

definition display_key :: "account \<Rightarrow> bool \<times> string" where
  "display_key a = (\<not> ac_default a, to_lower (ac_name a))"

fun display_le :: "bool \<times> string \<Rightarrow> bool \<times> string \<Rightarrow> bool" where
  "display_le (a, s) (b, t) = (if a \<noteq> b then b else s \<le> t)"

fun insert_display :: "account \<Rightarrow> account list \<Rightarrow> account list" where
  "insert_display a [] = [a]"
| "insert_display a (b # bs) =
     (if display_le (display_key a) (display_key b) then a # b # bs else b # insert_display a bs)"

definition sort_display :: "account list \<Rightarrow> account list" where
  "sort_display as = foldr insert_display as []"

definition list_accounts :: "account_store \<Rightarrow> int \<Rightarrow> account_files \<Rightarrow> account_error + account list" where
  "list_accounts st now af =
     res_bind (load_registry st af) (\<lambda>r.
       Inr (sort_display (map (\<lambda>key. account_status st now (af_tokens af) key (the (map_of (rg_accounts r) key)) (key = rg_default r))
                              (sort (map fst (rg_accounts r))))))"

definition account_token_path :: "account_store \<Rightarrow> string \<Rightarrow> account_error + string \<times> string" where
  "account_token_path st name =
     res_bind (canonical_account_name name) (\<lambda>(key, _). Inr (key, token_path st key))"

definition whole_seconds :: "64 word \<Rightarrow> bool" where
  "whole_seconds d = (sint d mod second = 0)"

definition upserted_record :: "string \<Rightarrow> int \<Rightarrow> 64 word \<Rightarrow> bool \<Rightarrow> account_record option \<Rightarrow> account_record" where
  "upserted_record label now max_age set_max_age old =
     (let found = (case old of Some rec \<Rightarrow> rec | None \<Rightarrow> \<lparr>ar_name = label, ar_created = Some now, ar_max_age = 0\<rparr>);
          named = (if ar_name found = [] then found\<lparr>ar_name := label\<rparr> else found)
      in if set_max_age then named\<lparr>ar_max_age := word_of_int (sint max_age div second)\<rparr> else named)"

definition set_account :: "string \<Rightarrow> account_record \<Rightarrow> registry \<Rightarrow> registry" where
  "set_account key rec r =
     r\<lparr>rg_accounts := upsert key rec (\<lambda>_. rec) (rg_accounts r),
       rg_default := (if rg_default r = [] then key else rg_default r)\<rparr>"

definition upsert_account :: "(registry \<Rightarrow> nat) \<Rightarrow> account_store \<Rightarrow> int \<Rightarrow> bool \<Rightarrow> string \<Rightarrow> 64 word \<Rightarrow> bool \<Rightarrow>
    account_files \<Rightarrow> account_files \<times> (account_error + unit)" where
  "upsert_account encoded st now save_fails name max_age set_max_age af =
     (if set_max_age \<and> (sint max_age < 0 \<or> \<not> whole_seconds max_age) then (af, Inl BadAge)
      else case canonical_account_name name of
        Inl e \<Rightarrow> (af, Inl e)
      | Inr (key, label) \<Rightarrow>
          (case load_registry st af of
             Inl e \<Rightarrow> (af, Inl e)
           | Inr r \<Rightarrow>
               (let rec = upserted_record label now max_age set_max_age (map_of (rg_accounts r) key)
                in case save_registry encoded save_fails (set_account key rec r) af of
                  None \<Rightarrow> (af, Inl SaveFailed)
                | Some af' \<Rightarrow> (af', Inr ()))))"

definition use_account :: "(registry \<Rightarrow> nat) \<Rightarrow> account_store \<Rightarrow> int \<Rightarrow> bool \<Rightarrow> string \<Rightarrow>
    account_files \<Rightarrow> account_files \<times> (account_error + account)" where
  "use_account encoded st now save_fails name af =
     (case canonical_account_name name of
        Inl e \<Rightarrow> (af, Inl e)
      | Inr (key, _) \<Rightarrow>
          (case load_registry st af of
             Inl e \<Rightarrow> (af, Inl e)
           | Inr r \<Rightarrow>
               (case map_of (rg_accounts r) key of
                  None \<Rightarrow> (af, Inl (NotFound name))
                | Some rec \<Rightarrow>
                    (case save_registry encoded save_fails (r\<lparr>rg_default := key\<rparr>) af of
                       None \<Rightarrow> (af, Inl SaveFailed)
                     | Some af' \<Rightarrow> (af', Inr (account_status st now (af_tokens af') key rec True))))))"

record rename_faults =
  rf_mkdir :: bool
  rf_rename :: bool
  rf_save :: bool
  rf_rollback :: bool

definition move_file :: "string \<Rightarrow> string \<Rightarrow> files \<Rightarrow> files" where
  "move_file old new fs = fs(new := fs old, old := Missing)"

text \<open>The checks of the two token files before a rename.\<close>

definition check_rename :: "account_store \<Rightarrow> string \<Rightarrow> string \<Rightarrow> string \<Rightarrow> string \<Rightarrow> files \<Rightarrow> account_error + unit" where
  "check_rename st old_name new_name old_key new_key fs =
     (case fs (token_path st new_key) of
        Missing \<Rightarrow>
          (case stat_file (fs (token_path st old_key)) of
             Inl NotExist \<Rightarrow> Inl (NoCache old_name)
           | Inl _ \<Rightarrow> Inl InspectCache
           | Inr f \<Rightarrow> if tf_regular f then Inr () else Inl (CacheNotRegular old_name))
      | Broken \<Rightarrow> Inl InspectDestination
      | _ \<Rightarrow> Inl (CacheExists new_name))"

definition renamed_registry :: "string \<Rightarrow> string \<Rightarrow> string \<Rightarrow> account_record \<Rightarrow> registry \<Rightarrow> registry" where
  "renamed_registry old_key new_key new_label rec r =
     r\<lparr>rg_accounts := filter (\<lambda>(k, _). k \<noteq> old_key)
         (upsert new_key (rec\<lparr>ar_name := new_label\<rparr>) (\<lambda>_. rec\<lparr>ar_name := new_label\<rparr>) (rg_accounts r)),
       rg_default := (if rg_default r = old_key then new_key else rg_default r)\<rparr>"

definition rename_account :: "(registry \<Rightarrow> nat) \<Rightarrow> account_store \<Rightarrow> rename_faults \<Rightarrow> string \<Rightarrow> string \<Rightarrow>
    account_files \<Rightarrow> account_files \<times> (account_error + unit)" where
  "rename_account encoded st ft old_name new_name af =
     (case canonical_account_name old_name of Inl e \<Rightarrow> (af, Inl e) | Inr (old_key, _) \<Rightarrow>
      (case canonical_account_name new_name of Inl e \<Rightarrow> (af, Inl e) | Inr (new_key, new_label) \<Rightarrow>
       if old_key = new_key then (af, Inl SameName)
       else
      (case load_registry st af of Inl e \<Rightarrow> (af, Inl e) | Inr r \<Rightarrow>
      (case map_of (rg_accounts r) old_key of None \<Rightarrow> (af, Inl (NotFound old_name)) | Some rec \<Rightarrow>
       if map_of (rg_accounts r) new_key \<noteq> None then (af, Inl (AlreadyExists new_name))
       else
      (case check_rename st old_name new_name old_key new_key (af_tokens af) of Inl e \<Rightarrow> (af, Inl e) | Inr _ \<Rightarrow>
       if rf_mkdir ft then (af, Inl CreateDirectory)
       else if rf_rename ft then (af, Inl RenameCache)
       else
         (let old_path = token_path st old_key; new_path = token_path st new_key;
              moved = af\<lparr>af_tokens := move_file old_path new_path (af_tokens af)\<rparr>
          in case save_registry encoded (rf_save ft) (renamed_registry old_key new_key new_label rec r) moved of
               Some af' \<Rightarrow> (af', Inr ())
             | None \<Rightarrow>
                 (if rf_rollback ft then (moved, Inl SaveRenamed)
                  else (moved\<lparr>af_tokens := move_file new_path old_path (af_tokens moved)\<rparr>, Inl SaveRenamed))))))))"

text \<open>\<^verbatim>\<open>Remove\<close>: whether a token was removed, and the label of the replacement default.\<close>

record remove_faults =
  vf_remove :: bool
  vf_registry :: bool
  vf_save :: bool

definition remove_registry :: "bool \<Rightarrow> account_files \<Rightarrow> account_error + account_files" where
  "remove_registry fails af =
     (case af_registry af of
        NoRegistry \<Rightarrow> Inr af
      | _ \<Rightarrow> if fails then Inl RemoveRegistry else Inr (af\<lparr>af_registry := NoRegistry\<rparr>))"

definition removed_registry :: "string \<Rightarrow> registry \<Rightarrow> registry \<times> string" where
  "removed_registry key r =
     (let accounts = filter (\<lambda>(k, _). k \<noteq> key) (rg_accounts r); keys = sort (map fst accounts) in
      if rg_default r \<noteq> key then (r\<lparr>rg_accounts := accounts\<rparr>, [])
      else case keys of
        [] \<Rightarrow> (r\<lparr>rg_accounts := accounts, rg_default := []\<rparr>, [])
      | k # _ \<Rightarrow> (r\<lparr>rg_accounts := accounts, rg_default := k\<rparr>, ar_name (the (map_of accounts k))))"

definition remove_account :: "(registry \<Rightarrow> nat) \<Rightarrow> account_store \<Rightarrow> remove_faults \<Rightarrow> string \<Rightarrow>
    account_files \<Rightarrow> account_files \<times> (account_error + bool \<times> string)" where
  "remove_account encoded st ft name af =
     (case canonical_account_name name of Inl e \<Rightarrow> (af, Inl e) | Inr (key, _) \<Rightarrow>
      (case load_registry st af of Inl e \<Rightarrow> (af, Inl e) | Inr r \<Rightarrow>
       if map_of (rg_accounts r) key = None then (af, Inl (NotFound name))
       else
      (case remove_token (vf_remove ft) (token_path st key) (af_tokens af) of
         (fs, Inl e) \<Rightarrow> (af, Inl (RemoveCache e))
       | (fs, Inr removed) \<Rightarrow>
           (let gone = af\<lparr>af_tokens := fs\<rparr> in
            case removed_registry key r of (r', replacement) \<Rightarrow>
              if rg_accounts r' = [] then
                (case remove_registry (vf_registry ft) gone of
                   Inl e \<Rightarrow> (gone, Inl e) | Inr af' \<Rightarrow> (af', Inr (removed, replacement)))
              else
                (case save_registry encoded (vf_save ft) r' gone of
                   None \<Rightarrow> (gone, Inl SaveFailed) | Some af' \<Rightarrow> (af', Inr (removed, replacement)))))))"

section \<open>Cache age\<close>

text \<open>
  \<^verbatim>\<open>ParseMaxCacheAge\<close>, in nanoseconds. \<open>parse_duration\<close> is \<^verbatim>\<open>time.ParseDuration\<close>.
\<close>

definition max_days :: int where "max_days = (2 ^ 63 - 1) div (86400 * second)"

definition parse_max_cache_age :: "(string \<Rightarrow> int option) \<Rightarrow> string \<Rightarrow> string option + int" where
  "parse_max_cache_age parse_duration value0 =
     (let value = trim_space (to_lower value0) in
      if value = [] \<or> value = ''0'' \<or> value = ''none'' then Inr 0
      else if has_suffix value ''d'' then
        (case parse_int 64 (trim_suffix value ''d'') of
           None \<Rightarrow> Inl (Some value)
         | Some days \<Rightarrow> if days \<le> 0 \<or> days > max_days then Inl (Some value) else Inr (days * 24 * 3600 * second))
      else case parse_duration value of
        None \<Rightarrow> Inl (Some value)
      | Some d \<Rightarrow> if d \<le> 0 then Inl (Some value) else if d mod second \<noteq> 0 then Inl None else Inr d)"

end
