(* ===== verification/Accounts_Theorems.thy ===== *)
theory Accounts_Theorems
  imports Accounts Schema "HOL-Library.Multiset"
begin

text \<open>
  Properties of the token cache and the account registry: canonical names and their paths, the token
  source, the invariant of the registry under every operation, what each operation changes, and the
  cache age.
\<close>

section \<open>Names\<close>

lemma key_char_facts:
  assumes "name_char c"
  shows "ord c < 128" "\<not> is_space_rune (ord c)" "c \<noteq> CHR ''/''" "c \<noteq> CHR 0x5C"
proof -
  have o: "ord (CHR ''.'') = 46" "ord (CHR ''_'') = 95" "ord (CHR ''-'') = 45" "ord (CHR ''/'') = 47" "ord (CHR 0x5C) = 92"
    by (simp_all add: ord_def)
  show "ord c < 128" "\<not> is_space_rune (ord c)"
    using assms o by (auto simp: name_char_def alnum_def is_digit_def is_space_rune_def)
  show "c \<noteq> CHR ''/''" "c \<noteq> CHR 0x5C"
    using assms o by (auto simp: name_char_def alnum_def is_digit_def)
qed

definition lower_ascii :: "char \<Rightarrow> char" where
  "lower_ascii c = (if 65 \<le> ord c \<and> ord c \<le> 90 then char_of (ord c + 32) else c)"

lemma to_lower_ascii:
  assumes "\<forall>c \<in> set s. ord c < 128"
  shows "to_lower s = map lower_ascii s"
proof -
  have "runes (map ord s) = map (\<lambda>b. (b, [b])) (map ord s)" using assms by (intro runes_ascii) auto
  moreover have "map char_of (concat (map lower_rune (map (\<lambda>b. (b, [b])) (map ord s)))) = map lower_ascii s"
    using assms by (induction s) (auto simp: lower_rune_def lower_ascii_def)
  ultimately show ?thesis by (simp add: to_lower_def)
qed

lemma ord_lower_ascii: "ord (lower_ascii c) = (if 65 \<le> ord c \<and> ord c \<le> 90 then ord c + 32 else ord c)"
  by (auto simp: lower_ascii_def ord_def)

lemma lower_ascii_name:
  "alnum c \<Longrightarrow> alnum (lower_ascii c)" "name_char c \<Longrightarrow> name_char (lower_ascii c)"
proof -
  show a: "alnum c \<Longrightarrow> alnum (lower_ascii c)"
    by (auto simp: alnum_def is_digit_def ord_lower_ascii)
  assume n: "name_char c"
  show "name_char (lower_ascii c)"
  proof (cases "alnum c")
    case True
    then show ?thesis using a by (simp add: name_char_def)
  next
    case False
    then have "lower_ascii c = c" by (auto simp: alnum_def lower_ascii_def)
    then show ?thesis using n by simp
  qed
qed

lemma pattern_chars:
  assumes "account_name_pattern s"
  shows "list_all name_char s" "s \<noteq> []" "length s \<le> 32"
proof -
  obtain c t where s: "s = c # t" using assms by (cases s) (auto simp: account_name_pattern_def)
  then show "list_all name_char s" "s \<noteq> []" "length s \<le> 32"
    using assms by (auto simp: account_name_pattern_def name_char_def)
qed

lemma pattern_lower:
  assumes "account_name_pattern s"
  shows "account_name_pattern (map lower_ascii s)" "to_lower s = map lower_ascii s"
proof -
  obtain c t where s: "s = c # t" using assms by (cases s) (auto simp: account_name_pattern_def)
  then show "account_name_pattern (map lower_ascii s)"
    using assms lower_ascii_name by (auto simp: account_name_pattern_def list_all_iff)
  show "to_lower s = map lower_ascii s"
    using pattern_chars(1) [OF assms] key_char_facts(1) by (intro to_lower_ascii) (auto simp: list_all_iff)
qed

lemma pattern_trimmed:
  assumes "account_name_pattern s"
  shows "trim_space s = s"
  using pattern_chars [OF assms] key_char_facts by (intro trim_space_plain) (auto simp: list_all_iff)

lemma lower_idem: "map lower_ascii (map lower_ascii s) = map lower_ascii s"
proof -
  have "lower_ascii (lower_ascii c) = lower_ascii c" for c
    using ord_lower_ascii [of c] by (simp add: lower_ascii_def)
  then show ?thesis by simp
qed

lemma canonical_Inr:
  assumes "canonical_account_name name = Inr (key, label)"
  shows "account_name_pattern label" "account_name_pattern key" "key = map lower_ascii label"
    "canonical_account_name key = Inr (key, key)" "canonical_account_name label = Inr (key, label)"
proof -
  have l: "label = trim_space name" "account_name_pattern label" "key = to_lower label"
    using assms by (auto simp: canonical_account_name_def Let_def split: if_splits)
  show "account_name_pattern label" by (rule l(2))
  show k: "key = map lower_ascii label" using l pattern_lower by simp
  show p: "account_name_pattern key" using pattern_lower [OF l(2)] k by simp
  have ne: "key \<noteq> []" "label \<noteq> []" using pattern_chars(2) p l(2) by blast+
  show "canonical_account_name key = Inr (key, key)"
    using p ne pattern_lower(2) [OF p] lower_idem [of label] k
    by (simp add: canonical_account_name_def pattern_trimmed Let_def)
  show "canonical_account_name label = Inr (key, label)"
    using l ne by (simp add: canonical_account_name_def pattern_trimmed Let_def)
qed

lemma canonical_key_iff: "canonical_key k \<longleftrightarrow> canonical_account_name k = Inr (k, k)"
proof
  assume "canonical_key k"
  then obtain l where l: "canonical_account_name k = Inr (k, l)"
    by (auto simp: canonical_key_def split: sum.splits)
  show "canonical_account_name k = Inr (k, k)" by (rule canonical_Inr(4) [OF l])
qed (simp add: canonical_key_def)

section \<open>Token paths\<close>

text \<open>A store whose root is an absolute clean path.\<close>

definition rooted_store :: "account_store \<Rightarrow> bool" where
  "rooted_store st \<longleftrightarrow> (\<exists>es. es \<noteq> [] \<and> list_all proper_elem es \<and> (\<forall>e \<in> set es. CHR ''/'' \<notin> set e)
     \<and> st = new_account_store (CHR ''/'' # join_with ''/'' es))"

lemma clean_proper_rooted: "list_all proper_elem es \<Longrightarrow> clean_elems True st es = rev st @ es"
  by (induction es arbitrary: st) (auto simp: proper_elem_def)

lemma join_with_snoc: "es \<noteq> [] \<Longrightarrow> join_with ''/'' (es @ [x]) = join_with ''/'' es @ ''/'' @ x"
proof (induction es)
  case (Cons e es)
  then show ?case by (cases es) simp_all
qed simp

lemma join_path_rooted:
  assumes "es \<noteq> []" "list_all proper_elem es" "\<forall>e \<in> set es. CHR ''/'' \<notin> set e" "proper_elem x" "CHR ''/'' \<notin> set x"
  shows "join_path (CHR ''/'' # join_with ''/'' es) x = CHR ''/'' # join_with ''/'' (es @ [x])"
proof -
  let ?q = "CHR ''/'' # join_with ''/'' (es @ [x])"
  have p: "(CHR ''/'' # join_with ''/'' es) @ ''/'' @ x = ?q" using join_with_snoc [OF assms(1)] by simp
  have "split_on CHR ''/'' (join_with ''/'' (es @ [x])) = es @ [x]"
    using assms by (intro split_join) auto
  then have "split_on CHR ''/'' ?q = [] # es @ [x]" by (simp only: split_on.simps if_True refl)
  moreover have "clean_elems True [] ([] # es @ [x]) = es @ [x]"
    using clean_proper_rooted [of "es @ [x]" "[]"] assms by simp
  moreover have "has_prefix ?q ''/''" by (simp add: has_prefix_def)
  ultimately have "clean_path ?q = ?q" by (simp only: clean_path_def Let_def if_True)
  moreover have "x \<noteq> []" using assms(4) by (simp add: proper_elem_def)
  ultimately show ?thesis by (simp only: join_path_def p list.distinct if_False) simp
qed

lemma rooted_paths:
  assumes "rooted_store st"
  obtains a where "as_legacy st = a @ ''/auth-token.json''" "as_accounts st = a @ ''/accounts''"
    "\<And>key. canonical_key key \<Longrightarrow> key \<noteq> default_account_name \<Longrightarrow> token_path st key = a @ ''/accounts/'' @ key @ ''.json''"
proof -
  obtain es where es: "es \<noteq> []" "list_all proper_elem es" "\<forall>e \<in> set es. CHR ''/'' \<notin> set e"
    and st: "st = new_account_store (CHR ''/'' # join_with ''/'' es)"
    using assms unfolding rooted_store_def by blast
  let ?a = "CHR ''/'' # join_with ''/'' es"
  have n: "proper_elem ''auth-token.json''" "proper_elem ''accounts''" by (simp_all add: proper_elem_def)
  have acc: "as_accounts st = CHR ''/'' # join_with ''/'' (es @ [''accounts''])"
    using join_path_rooted [OF es n(2)] by (simp add: st new_account_store_def)
  have "token_path st key = ?a @ ''/accounts/'' @ key @ ''.json''" if "canonical_key key" "key \<noteq> default_account_name" for key
  proof -
    have "account_name_pattern key" using that canonical_Inr(2) unfolding canonical_key_iff by blast
    then have "CHR ''/'' \<notin> set key" "key \<noteq> []"
      using pattern_chars [of key] key_char_facts(3) by (auto simp: list_all_iff)
    then have x: "proper_elem (key @ ''.json'')" "CHR ''/'' \<notin> set (key @ ''.json'')"
      by (auto simp: proper_elem_def append_eq_Cons_conv)
    have "list_all proper_elem (es @ [''accounts''])" "\<forall>e \<in> set (es @ [''accounts'']). CHR ''/'' \<notin> set e"
      using es n by auto
    from join_path_rooted [OF _ this x] have
      "token_path st key = CHR ''/'' # join_with ''/'' ((es @ [''accounts'']) @ [key @ ''.json''])"
      using that by (simp add: token_path_def acc)
    also have "\<dots> = CHR ''/'' # (join_with ''/'' es @ ''/'' @ ''accounts'') @ ''/'' @ key @ ''.json''"
      using join_with_snoc [of "es @ [''accounts'']"] join_with_snoc [OF es(1)] by simp
    finally show ?thesis by simp
  qed
  moreover have "as_legacy st = ?a @ ''/auth-token.json''"
    using join_path_rooted [OF es n(1)] es(1) by (simp add: st new_account_store_def join_with_snoc)
  moreover have "as_accounts st = ?a @ ''/accounts''" using acc es(1) by (simp add: join_with_snoc)
  ultimately show ?thesis using that by blast
qed

text \<open>
  Names are canonical: a name is accepted when its trimmed text is 1 to 32 letters, digits, dots,
  underscores and hyphens that start with a letter or digit; its key is that text in lower case, and
  canonicalising the key or the label again changes nothing. Different keys have different token
  paths, and the path of every key but the default one's is directly below the accounts directory.
\<close>

theorem account_names_canonical:
  assumes "canonical_account_name name = Inr (key, label)" "canonical_account_name name' = Inr (key', label')"
    and "rooted_store st"
  shows "canonical_account_name key = Inr (key, key) \<and> canonical_account_name label = Inr (key, label)
    \<and> list_all name_char key \<and> length key \<le> 32 \<and> key \<noteq> []
    \<and> (token_path st key = token_path st key' \<longleftrightarrow> key = key')
    \<and> (key \<noteq> default_account_name \<longrightarrow> token_path st key = as_accounts st @ ''/'' @ key @ ''.json'' \<and> CHR ''/'' \<notin> set key)"
proof -
  obtain a where a: "as_legacy st = a @ ''/auth-token.json''" "as_accounts st = a @ ''/accounts''"
    and p: "\<And>key. canonical_key key \<Longrightarrow> key \<noteq> default_account_name \<Longrightarrow> token_path st key = a @ ''/accounts/'' @ key @ ''.json''"
    using rooted_paths [OF assms(3)] by blast
  have d: "token_path st default_account_name = a @ ''/auth-token.json''" by (simp add: token_path_def a)
  have k: "canonical_key key" "canonical_key key'"
    using canonical_Inr(4) [OF assms(1)] canonical_Inr(4) [OF assms(2)] by (simp_all add: canonical_key_iff)
  have inj: "token_path st key = token_path st key' \<longleftrightarrow> key = key'"
    using p [OF k(1)] p [OF k(2)] d by (cases "key = default_account_name"; cases "key' = default_account_name") auto
  note c = pattern_chars [OF canonical_Inr(2) [OF assms(1)]]
  have "CHR ''/'' \<notin> set key" using c(1) key_char_facts(3) by (auto simp: list_all_iff)
  then show ?thesis using canonical_Inr(4,5) [OF assms(1)] c inj p [OF k(1)] a by simp
qed

definition demo_store :: account_store where "demo_store = new_account_store ''/c''"

lemma demo_rooted: "rooted_store demo_store"
  by (simp add: rooted_store_def demo_store_def exI [of _ "[''c'']"] proper_elem_def)

lemma canonical_pattern: "account_name_pattern s \<Longrightarrow> canonical_account_name s = Inr (map lower_ascii s, s)"
  using pattern_chars(2) by (simp add: canonical_account_name_def Let_def pattern_trimmed pattern_lower(2))

lemma demo_name: "canonical_account_name ''Main'' = Inr (''main'', ''Main'')" "canonical_account_name ''alt'' = Inr (''alt'', ''alt'')"
proof -
  have "account_name_pattern ''Main''" "account_name_pattern ''alt''"
    by (simp_all add: account_name_pattern_def alnum_def name_char_def is_digit_def ord_def)
  moreover have "map lower_ascii ''Main'' = ''main''" "map lower_ascii ''alt'' = ''alt''"
    by (simp_all add: lower_ascii_def ord_def char_of_eq_iff)
  ultimately show "canonical_account_name ''Main'' = Inr (''main'', ''Main'')" "canonical_account_name ''alt'' = Inr (''alt'', ''alt'')"
    by (simp_all only: canonical_pattern)
qed

theorem account_names_canonical_witness:
  "token_path demo_store ''main'' \<noteq> token_path demo_store ''alt'' \<and> canonical_account_name ''main'' = Inr (''main'', ''main'')"
  using account_names_canonical [OF demo_name demo_rooted] by simp

section \<open>The token source\<close>

lemma same_token_iff [simp]: "same_token a b \<longleftrightarrow> a = b"
  by (cases a; cases b) (auto simp: same_token_def)

definition usable_token :: "oauth_token \<Rightarrow> bool" where
  "usable_token t \<longleftrightarrow> tk_access t \<noteq> [] \<or> tk_refresh t \<noteq> []"

lemma read_written:
  assumes "fs path = written_file encoded_size now t" "usable_token t" "encoded_size t \<le> max_cache_bytes"
  shows "read_token fs path = Inr t"
  using assms by (auto simp: read_token_def written_file_def usable_token_def)

lemma write_token_cases:
  assumes "write_token encoded_size now ft fs path t = (fs', r)"
  shows "(\<forall>q. q \<noteq> path \<longrightarrow> fs' q = fs q)
    \<and> (case r of
         Inr _ \<Rightarrow> fs' path = written_file encoded_size now t
       | Inl e \<Rightarrow> fs' path = fs path \<or> (fs' path = Missing \<and> e = PublishFailed \<and> wr_rename ft \<and> wr_rename_again ft))"
  using assms by (auto simp: write_token_def split: option.splits if_splits)

text \<open>
  C30. Writing the token never damages the cache: whatever fails, no other file changes, success leaves
  exactly the new token, and a failure leaves the old file untouched except that it may be gone when the
  rename, its retry after removing the old file, and so both attempts to publish fail.
\<close>

theorem token_write_atomic:
  assumes "write_token encoded_size now ft fs path t = (fs', r)"
  shows "(\<forall>q. q \<noteq> path \<longrightarrow> fs' q = fs q)
    \<and> (r = Inr () \<longrightarrow> fs' path = written_file encoded_size now t
        \<and> (usable_token t \<and> encoded_size t \<le> 65536 \<longrightarrow> read_token fs' path = Inr t))
    \<and> (\<forall>e. r = Inl e \<longrightarrow> fs' path = fs path
        \<or> (fs' path = Missing \<and> e = PublishFailed \<and> wr_rename ft \<and> wr_rename_again ft))"
  using write_token_cases [OF assms] read_written [of fs' path encoded_size now t]
  by (auto simp: max_cache_bytes_def split: sum.splits)

definition demo_token :: oauth_token where
  "demo_token = \<lparr>tk_access = ''a'', tk_type = ''bearer'', tk_refresh = ''r'', tk_expiry = 5\<rparr>"

definition no_write_faults :: write_faults where
  "no_write_faults = \<lparr>wr_prepare = None, wr_rename = False, wr_remove = False, wr_rename_again = False\<rparr>"

theorem token_write_atomic_witness:
  "read_token (fst (write_token (\<lambda>_. 100) 7 no_write_faults (\<lambda>_. Missing) ''p'' demo_token)) ''p'' = Inr demo_token"
proof -
  obtain fs' r where w: "write_token (\<lambda>_. 100) 7 no_write_faults (\<lambda>_. Missing) ''p'' demo_token = (fs', r)"
    by (cases "write_token (\<lambda>_. 100) 7 no_write_faults (\<lambda>_. Missing) ''p'' demo_token")
  moreover have "r = Inr ()" using w by (simp add: write_token_def no_write_faults_def)
  ultimately show ?thesis
    using token_write_atomic [OF w] by (simp add: usable_token_def demo_token_def)
qed

text \<open>
  The source agrees with the disk: the token it holds to be persisted is the one that would be read.
\<close>

definition source_consistent :: "files \<Rightarrow> source \<Rightarrow> bool" where
  "source_consistent fs s \<longleftrightarrow> (\<forall>t. so_persisted s = Some t \<longrightarrow> read_token fs (so_path s) = Inr t)
     \<and> (so_from_cache s \<longrightarrow> so_persisted s \<noteq> None)"

lemma ask_source_fields:
  assumes "ask_source answer s = (s', notices, r)"
  shows "so_path s' = so_path s" "so_persisted s' = so_persisted s" "so_from_cache s' \<longrightarrow> so_from_cache s \<and> notices = []"
    "so_from_cache s \<and> \<not> so_from_cache s' \<longleftrightarrow> answer (so_source s) = None \<and> so_from_cache s"
    "r = (if answer (so_source s) = None \<and> so_from_cache s then answer DeviceSource else answer (so_source s))"
  using assms by (auto simp: ask_source_def split: option.splits if_splits)

lemma persist_token_Inr:
  assumes "persist_token encoded_size now ft fs s t = (fs', Inr s')" "source_consistent fs s"
    and "usable_token t" "encoded_size t \<le> max_cache_bytes"
  shows "so_path s' = so_path s" "so_from_cache s' = so_from_cache s" "so_persisted s' = Some t"
    "read_token fs' (so_path s) = Inr t"
proof -
  have "so_path s' = so_path s \<and> so_from_cache s' = so_from_cache s \<and> so_persisted s' = Some t
      \<and> read_token fs' (so_path s) = Inr t"
  proof (cases "so_persisted s = Some t")
    case True
    then show ?thesis using assms(1,2) by (simp add: persist_token_def source_consistent_def)
  next
    case False
    obtain fs2 r where w: "write_token encoded_size now ft fs (so_path s) t = (fs2, r)"
      by (cases "write_token encoded_size now ft fs (so_path s) t")
    then have r: "r = Inr ()" "fs' = fs2" "s' = s\<lparr>so_persisted := Some t\<rparr>"
      using assms(1) False by (auto simp: persist_token_def split: sum.splits)
    have "fs2 (so_path s) = written_file encoded_size now t" using write_token_cases [OF w] r(1) by simp
    then show ?thesis using r read_written [of fs2 "so_path s" encoded_size now t] assms(3,4) by simp
  qed
  then show "so_path s' = so_path s" "so_from_cache s' = so_from_cache s" "so_persisted s' = Some t"
    "read_token fs' (so_path s) = Inr t" by blast+
qed

text \<open>
  A token that the source returns is the one the refresh gave, or, when refreshing the cached token
  fails, the one device authentication gave; and it is what the cache now holds, so the next start reads
  the same token. The source falls back to device authentication at most once, because afterwards it no
  longer counts as coming from the cache, and it announces itself once per origin.
\<close>

theorem returned_token_cached:
  assumes "source_consistent fs s" "c = source_token encoded_size now answer ft fs s" "tc_result c = Inr t"
    and "usable_token t" "encoded_size t \<le> 65536"
  shows "read_token (tc_files c) (so_path s) = Inr t
    \<and> source_consistent (tc_files c) (tc_source c) \<and> so_announced (tc_source c)
    \<and> (if answer (so_source s) = None then answer DeviceSource else answer (so_source s)) = Some (Some t)
    \<and> (so_from_cache (tc_source c) \<longleftrightarrow> so_from_cache s \<and> answer (so_source s) \<noteq> None)
    \<and> (so_announced s \<and> (so_from_cache (tc_source c) \<longleftrightarrow> so_from_cache s) \<longrightarrow> tc_notices c = [])"
proof -
  obtain s1 notices r where a: "ask_source answer s = (s1, notices, r)" by (cases "ask_source answer s") auto
  note f = ask_source_fields [OF a]
  from assms(2,3) a obtain t' where r: "r = Some (Some t')"
    by (auto simp: source_token_def split: option.splits)
  obtain fs' p where p: "persist_token encoded_size now ft fs s1 t' = (fs', p)"
    by (cases "persist_token encoded_size now ft fs s1 t'")
  from assms(2,3) a r p obtain s2 where p2: "p = Inr s2"
    by (auto simp: source_token_def split: sum.splits)
  have c: "c = (if so_announced s2 then \<lparr>tc_source = s2, tc_files = fs', tc_notices = notices, tc_result = Inr t'\<rparr>
      else \<lparr>tc_source = s2\<lparr>so_announced := True\<rparr>, tc_files = fs',
            tc_notices = notices @ [if so_from_cache s2 then UsingCachedNotice else CachedAtNotice (so_path s2)], tc_result = Inr t'\<rparr>)"
    using assms(2) a r p p2 by (simp add: source_token_def)
  have t: "t' = t" using assms(3) c by (auto split: if_splits)
  have con: "source_consistent fs s1" using assms(1) f by (auto simp: source_consistent_def)
  note pt = persist_token_Inr [OF p [unfolded p2 t] con assms(4)]
  have pt: "so_path s2 = so_path s" "so_from_cache s2 = so_from_cache s1" "so_persisted s2 = Some t"
    "read_token fs' (so_path s) = Inr t"
    using pt assms(5) f(1) by (simp_all add: max_cache_bytes_def)
  have ann: "so_announced s2 = so_announced s1"
    using p unfolding p2 by (auto simp: persist_token_def split: if_splits prod.splits sum.splits)
  have same: "so_from_cache s1 = so_from_cache s \<Longrightarrow> so_announced s1 = so_announced s \<and> notices = []"
    using a by (auto simp: ask_source_def split: option.splits if_splits)
  have src: "(if answer (so_source s) = None then answer DeviceSource else answer (so_source s)) = Some (Some t)"
    using f(5) r t by (auto split: if_splits)
  show ?thesis
  proof (intro conjI)
    show "read_token (tc_files c) (so_path s) = Inr t" using pt(4) by (simp add: c)
    show "source_consistent (tc_files c) (tc_source c)" using pt by (simp add: c source_consistent_def)
    show "so_announced (tc_source c)" by (simp add: c)
    show "(if answer (so_source s) = None then answer DeviceSource else answer (so_source s)) = Some (Some t)" by (rule src)
    show "so_from_cache (tc_source c) \<longleftrightarrow> so_from_cache s \<and> answer (so_source s) \<noteq> None"
      using f(3,4) pt(2) by (auto simp: c)
    show "so_announced s \<and> (so_from_cache (tc_source c) \<longleftrightarrow> so_from_cache s) \<longrightarrow> tc_notices c = []"
      using same ann pt(2) by (auto simp: c)
  qed
qed

theorem returned_token_cached_witness:
  "read_token (tc_files (source_token (\<lambda>_. 100) 7 (\<lambda>_. Some (Some demo_token)) no_write_faults (\<lambda>_. Missing)
     \<lparr>so_path = ''p'', so_source = DeviceSource, so_persisted = None, so_from_cache = False, so_announced = False\<rparr>)) ''p''
   = Inr demo_token"
proof -
  let ?s = "\<lparr>so_path = ''p'', so_source = DeviceSource, so_persisted = None, so_from_cache = False, so_announced = False\<rparr>"
  let ?c = "source_token (\<lambda>_. 100) 7 (\<lambda>_. Some (Some demo_token)) no_write_faults (\<lambda>_. Missing) ?s"
  have s: "source_consistent (\<lambda>_. Missing) ?s" by (simp add: source_consistent_def)
  have r: "tc_result ?c = Inr demo_token"
    by (simp add: source_token_def ask_source_def persist_token_def write_token_def no_write_faults_def)
  have u: "usable_token demo_token" by (simp add: usable_token_def demo_token_def)
  show ?thesis using returned_token_cached [OF s refl r u] by simp
qed

section \<open>The registry invariant\<close>

definition registry_valid :: "registry \<Rightarrow> bool" where
  "registry_valid r \<longleftrightarrow> rg_version r = 1 \<and> distinct (map fst (rg_accounts r))
     \<and> (rg_default r = [] \<longrightarrow> rg_accounts r = [])
     \<and> (rg_default r \<noteq> [] \<longrightarrow> rg_default r \<in> fst ` set (rg_accounts r))
     \<and> (\<forall>(k, a) \<in> set (rg_accounts r). canonical_key k \<and> label_ok k a)"

lemma check_accounts_iff: "check_accounts as = Inr () \<longleftrightarrow> (\<forall>(k, a) \<in> set as. canonical_key k \<and> label_ok k a)"
  by (induction as rule: check_accounts.induct) auto

lemma canonical_key_ne: "canonical_key k \<Longrightarrow> k \<noteq> []"
  using canonical_Inr(2) pattern_chars(2) unfolding canonical_key_iff by blast

lemma check_registry_iff:
  assumes "distinct (map fst (rg_accounts r))"
  shows "check_registry r = Inr r' \<longleftrightarrow> r' = r \<and> registry_valid r"
proof -
  have m: "map_of (rg_accounts r) (rg_default r) = None \<longleftrightarrow> rg_default r \<notin> fst ` set (rg_accounts r)"
    by (simp add: map_of_eq_None_iff)
  have c: "res_bind (check_accounts (rg_accounts r)) (\<lambda>_. Inr r) = Inr x \<longleftrightarrow> x = r \<and> check_accounts (rg_accounts r) = Inr ()" for x
    by (auto simp: result_simps)
  have k: "rg_default r \<in> fst ` set (rg_accounts r) \<Longrightarrow> \<forall>(k, a) \<in> set (rg_accounts r). canonical_key k \<and> label_ok k a
      \<Longrightarrow> canonical_key (rg_default r)" by force
  show ?thesis
    using assms k m by (auto simp: check_registry_def c check_accounts_iff registry_valid_def split: if_splits)
qed

text \<open>What the program leaves on disk: a registry that is absent, or whole and valid.\<close>

definition registry_good :: "account_files \<Rightarrow> bool" where
  "registry_good af \<longleftrightarrow> (case af_registry af of
       NoRegistry \<Rightarrow> True | RegistryFile n (Some r) \<Rightarrow> registry_valid r | _ \<Rightarrow> False)"

lemma canonical_default: "canonical_account_name default_account_name = Inr (default_account_name, default_account_name)"
proof -
  have "account_name_pattern default_account_name" "map lower_ascii default_account_name = default_account_name"
    by (simp_all add: default_account_name_def account_name_pattern_def alnum_def name_char_def is_digit_def ord_def lower_ascii_def)
  then show ?thesis using canonical_pattern by metis
qed

lemma legacy_registry_valid: "registry_valid (legacy_registry st fs)"
  using canonical_default
  by (auto simp: registry_valid_def legacy_registry_def initial_registry_def canonical_key_iff label_ok_def
      default_account_name_def split: sum.splits)

lemma load_valid:
  assumes "registry_good af" "load_registry st af = Inr r"
  shows "registry_valid r"
proof (cases "af_registry af")
  case NoRegistry
  then show ?thesis using assms(2) legacy_registry_valid [of st "af_tokens af"] by (simp add: load_registry_def)
next
  case (RegistryFile n content)
  then obtain r0 where r0: "content = Some r0" "registry_valid r0"
    using assms(1) by (auto simp: registry_good_def split: option.splits)
  then have "check_registry r0 = Inr r" using assms(2) RegistryFile by (auto simp: load_registry_def split: if_splits)
  then show ?thesis using r0 check_registry_iff [of r0 r] by (simp add: registry_valid_def)
qed (use assms in \<open>simp_all add: registry_good_def\<close>)

lemma load_saved:
  assumes "save_registry encoded fails r af = Some af'" "registry_valid r"
  shows "registry_good af'" "af_tokens af' = af_tokens af" "af_registry af' = RegistryFile (encoded r) (Some r)"
    "load_registry st af' = (if encoded r \<le> max_registry_bytes then Inr r else Inl RegistryTooLarge)"
proof -
  have af': "af' = af\<lparr>af_registry := RegistryFile (encoded r) (Some r)\<rparr>"
    using assms by (auto simp: save_registry_def registry_valid_def split: if_splits)
  then show "registry_good af'" "af_tokens af' = af_tokens af" "af_registry af' = RegistryFile (encoded r) (Some r)"
    using assms(2) by (simp_all add: registry_good_def)
  have "check_registry r = Inr r" using assms(2) check_registry_iff [of r r] by (simp add: registry_valid_def)
  then show "load_registry st af' = (if encoded r \<le> max_registry_bytes then Inr r else Inl RegistryTooLarge)"
    by (simp add: load_registry_def af')
qed

lemma set_upsert_const: "x \<in> set (upsert k i (\<lambda>_. i) m) \<Longrightarrow> x = (k, i) \<or> x \<in> set m"
  by (induction m) (auto split: if_splits)

lemma upsert_valid:
  assumes "registry_valid r" "canonical_key k" "label_ok k a"
  shows "registry_valid (set_account k a r)"
proof -
  have keys: "fst ` set (upsert k a (\<lambda>_. a) (rg_accounts r)) = insert k (fst ` set (rg_accounts r))"
    using keys_upsert [of k a "\<lambda>_. a" "rg_accounts r"] by simp
  have "\<forall>(j, b) \<in> set (upsert k a (\<lambda>_. a) (rg_accounts r)). canonical_key j \<and> label_ok j b"
    using assms set_upsert_const [of _ k a "rg_accounts r"] by (fastforce simp: registry_valid_def)
  then show ?thesis
    using assms distinct_upsert [of "rg_accounts r" k a "\<lambda>_. a"] canonical_key_ne [OF assms(2)]
    by (auto simp: registry_valid_def keys set_account_def)
qed

lemma filter_valid:
  assumes "registry_valid r" "d \<in> fst ` set (rg_accounts r)" "d \<noteq> k" "d \<noteq> []"
  shows "registry_valid (r\<lparr>rg_accounts := filter (\<lambda>(j, _). j \<noteq> k) (rg_accounts r), rg_default := d\<rparr>)"
  using assms by (force simp: registry_valid_def distinct_map_filter split_beta)

lemma map_of_filter_ne: "map_of (filter (\<lambda>(j, _). j \<noteq> k) m) x = (if x = k then None else map_of m x)"
  by (induction m) auto

lemma label_ok_found:
  assumes "registry_valid r" "map_of (rg_accounts r) k = Some a"
  shows "canonical_key k" "label_ok k a" "k \<in> fst ` set (rg_accounts r)"
  using assms map_of_SomeD [OF assms(2)] by (force simp: registry_valid_def)+

lemma canonical_label_ok:
  assumes "canonical_account_name name = Inr (k, l)"
  shows "canonical_key k \<and> label_ok k (a\<lparr>ar_name := l\<rparr>)"
  using canonical_Inr(4,5) [OF assms] by (simp add: canonical_key_def label_ok_def)

lemma upserted_label_ok:
  assumes "registry_valid r" "canonical_account_name name = Inr (key, label)"
  shows "label_ok key (upserted_record label now age set_age (map_of (rg_accounts r) key))"
proof (cases "map_of (rg_accounts r) key")
  case None
  then show ?thesis
    using canonical_label_ok [OF assms(2), of "\<lparr>ar_name = [], ar_created = None, ar_max_age = 0\<rparr>"]
    by (auto simp: upserted_record_def label_ok_def Let_def)
next
  case (Some a)
  then show ?thesis
    using label_ok_found(2) [OF assms(1) Some] canonical_label_ok [OF assms(2), of a]
    by (auto simp: upserted_record_def label_ok_def Let_def)
qed

lemma upsert_account_cases:
  assumes "upsert_account encoded st now sf name age set_age af = (af', res)"
  obtains (failed) e where "res = Inl e" "af' = af"
  | (saved) key label r where "res = Inr ()" "canonical_account_name name = Inr (key, label)" "load_registry st af = Inr r"
      "set_age \<longrightarrow> 0 \<le> sint age \<and> sint age mod second = 0"
      "save_registry encoded sf (set_account key (upserted_record label now age set_age (map_of (rg_accounts r) key)) r) af = Some af'"
  using assms by (auto simp: upsert_account_def whole_seconds_def Let_def split: if_splits sum.splits option.splits)

lemma use_account_cases:
  assumes "use_account encoded st now sf name af = (af', res)"
  obtains (failed) e where "res = Inl e" "af' = af"
  | (saved) key l r a where "canonical_account_name name = Inr (key, l)" "load_registry st af = Inr r"
      "map_of (rg_accounts r) key = Some a" "save_registry encoded sf (r\<lparr>rg_default := key\<rparr>) af = Some af'"
      "res = Inr (account_status st now (af_tokens af') key a True)"
  using assms by (auto simp: use_account_def split: sum.splits option.splits)

lemma rename_account_cases:
  assumes "rename_account encoded st ft old_name new_name af = (af', res)"
  obtains (failed) e where "res = Inl e" "af' = af"
  | (stuck) old new e where "res = Inl e" "rf_save ft" "rf_rollback ft"
      "af' = af\<lparr>af_tokens := move_file (token_path st old) (token_path st new) (af_tokens af)\<rparr>"
  | (rolled) old new e where "res = Inl e"
      "af_tokens af (token_path st new) = Missing"
      "af' = af\<lparr>af_tokens := move_file (token_path st new) (token_path st old)
                  (move_file (token_path st old) (token_path st new) (af_tokens af))\<rparr>"
  | (saved) old ol new nl r a where "res = Inr ()" "canonical_account_name old_name = Inr (old, ol)"
      "canonical_account_name new_name = Inr (new, nl)" "old \<noteq> new" "load_registry st af = Inr r"
      "map_of (rg_accounts r) old = Some a" "map_of (rg_accounts r) new = None"
      "check_rename st old_name new_name old new (af_tokens af) = Inr ()"
      "save_registry encoded (rf_save ft) (renamed_registry old new nl a r)
         (af\<lparr>af_tokens := move_file (token_path st old) (token_path st new) (af_tokens af)\<rparr>) = Some af'"
proof (cases "canonical_account_name old_name")
  case o: (Inr okl)
  obtain old ol where old: "okl = (old, ol)" by (cases okl)
  show thesis
  proof (cases "canonical_account_name new_name")
    case n: (Inr nkl)
    obtain new nl where new: "nkl = (new, nl)" by (cases nkl)
    show thesis
    proof (cases "old = new \<or> (\<exists>e. load_registry st af = Inl e)")
      case True
      then have "\<exists>e. rename_account encoded st ft old_name new_name af = (af, Inl e)"
        by (elim disjE exE) (simp_all add: rename_account_def o n old new)
      then show thesis using assms failed by auto
    next
      case False
      then obtain r where r: "load_registry st af = Inr r" "old \<noteq> new" by (cases "load_registry st af") auto
      show thesis
      proof (cases "map_of (rg_accounts r) old = None \<or> map_of (rg_accounts r) new \<noteq> None
          \<or> check_rename st old_name new_name old new (af_tokens af) \<noteq> Inr () \<or> rf_mkdir ft \<or> rf_rename ft")
        case True
        then have "\<exists>e. rename_account encoded st ft old_name new_name af = (af, Inl e)"
          by (cases "check_rename st old_name new_name old new (af_tokens af)"; cases "map_of (rg_accounts r) old")
             (auto simp: rename_account_def o n old new r)
        then show thesis using assms failed by auto
      next
        case ok: False
        then obtain a where a: "map_of (rg_accounts r) old = Some a" by auto
        have miss: "af_tokens af (token_path st new) = Missing"
          using ok by (auto simp: check_rename_def split: path_state.splits)
        let ?moved = "af\<lparr>af_tokens := move_file (token_path st old) (token_path st new) (af_tokens af)\<rparr>"
        have eq: "rename_account encoded st ft old_name new_name af =
          (case save_registry encoded (rf_save ft) (renamed_registry old new nl a r) ?moved of
               Some af' \<Rightarrow> (af', Inr ())
             | None \<Rightarrow>
                 (if rf_rollback ft then (?moved, Inl SaveRenamed)
                  else (?moved\<lparr>af_tokens := move_file (token_path st new) (token_path st old) (af_tokens ?moved)\<rparr>, Inl SaveRenamed)))"
          unfolding rename_account_def Let_def using ok o n old new r a by simp
        show thesis
        proof (cases "save_registry encoded (rf_save ft) (renamed_registry old new nl a r) ?moved")
          case None
          have f: "rf_save ft" using None by (simp add: save_registry_def Let_def split: if_splits)
          show thesis
          proof (cases "rf_rollback ft")
            case True
            then show thesis using assms None eq f stuck [of SaveRenamed old new] by simp
          next
            case False
            then show thesis using assms None eq miss rolled [of SaveRenamed new old] by simp
          qed
        next
          case (Some af2)
          then have "af' = af2" "res = Inr ()" using assms eq by simp_all
          then show thesis using Some saved [of old ol new nl r a] o n old new r a ok by simp
        qed
      qed
    qed
  next
    case (Inl e)
    then have "rename_account encoded st ft old_name new_name af = (af, Inl e)" by (simp add: rename_account_def o old)
    then show thesis using assms failed by auto
  qed
next
  case (Inl e)
  then have "rename_account encoded st ft old_name new_name af = (af, Inl e)" by (simp add: rename_account_def)
  then show thesis using assms failed by auto
qed

lemma remove_account_cases:
  assumes "remove_account encoded st ft name af = (af', res)"
  obtains (failed) e where "res = Inl e" "af' = af"
  | (partial) key l r fs removed e where "res = Inl e" "canonical_account_name name = Inr (key, l)"
      "remove_token (vf_remove ft) (token_path st key) (af_tokens af) = (fs, Inr removed)" "af' = af\<lparr>af_tokens := fs\<rparr>"
      "vf_registry ft \<or> vf_save ft"
  | (last_one) key l r fs removed r' rep where "res = Inr (removed, rep)" "canonical_account_name name = Inr (key, l)"
      "load_registry st af = Inr r" "map_of (rg_accounts r) key \<noteq> None"
      "remove_token (vf_remove ft) (token_path st key) (af_tokens af) = (fs, Inr removed)"
      "removed_registry key r = (r', rep)" "rg_accounts r' = []" "af_registry af' = NoRegistry" "af_tokens af' = fs"
  | (saved) key l r fs removed r' rep where "res = Inr (removed, rep)" "canonical_account_name name = Inr (key, l)"
      "load_registry st af = Inr r" "map_of (rg_accounts r) key \<noteq> None"
      "remove_token (vf_remove ft) (token_path st key) (af_tokens af) = (fs, Inr removed)"
      "removed_registry key r = (r', rep)" "rg_accounts r' \<noteq> []"
      "save_registry encoded (vf_save ft) r' (af\<lparr>af_tokens := fs\<rparr>) = Some af'"
proof (cases "canonical_account_name name")
  case c: (Inr kl)
  obtain key l where kl: "kl = (key, l)" by (cases kl)
  show thesis
  proof (cases "load_registry st af")
    case r: (Inr r)
    obtain fs x where rt: "remove_token (vf_remove ft) (token_path st key) (af_tokens af) = (fs, x)"
      by (cases "remove_token (vf_remove ft) (token_path st key) (af_tokens af)")
    show thesis
    proof (cases "map_of (rg_accounts r) key = None \<or> (\<exists>e. x = Inl e)")
      case True
      then have "\<exists>e. remove_account encoded st ft name af = (af, Inl e)"
        by (elim disjE exE) (simp_all add: remove_account_def c kl r rt)
      then show thesis using assms failed by auto
    next
      case False
      then obtain removed where x: "x = Inr removed" and k: "map_of (rg_accounts r) key \<noteq> None" by (cases x) auto
      obtain r' rep where rr: "removed_registry key r = (r', rep)" by (cases "removed_registry key r")
      let ?gone = "af\<lparr>af_tokens := fs\<rparr>"
      have eq: "remove_account encoded st ft name af =
          (if rg_accounts r' = [] then
             (case remove_registry (vf_registry ft) ?gone of
                Inl e \<Rightarrow> (?gone, Inl e) | Inr af' \<Rightarrow> (af', Inr (removed, rep)))
           else
             (case save_registry encoded (vf_save ft) r' ?gone of
                None \<Rightarrow> (?gone, Inl SaveFailed) | Some af' \<Rightarrow> (af', Inr (removed, rep))))"
        unfolding remove_account_def Let_def using c kl r rt x k rr by auto
      show thesis
      proof (cases "rg_accounts r' = []")
        case e: True
        show thesis
        proof (cases "remove_registry (vf_registry ft) ?gone")
          case (Inl err)
          moreover have "vf_registry ft" using Inl by (auto simp: remove_registry_def split: registry_file.splits if_splits)
          ultimately show thesis using assms eq e c kl rt x partial [of err key l fs removed] by simp
        next
          case (Inr g)
          then have "af_registry g = NoRegistry" "af_tokens g = fs"
            by (auto simp: remove_registry_def split: registry_file.splits if_splits)
          then show thesis using assms eq e c kl r rt x k rr Inr last_one [of removed rep key l r fs r'] by simp
        qed
      next
        case ne: False
        show thesis
        proof (cases "save_registry encoded (vf_save ft) r' ?gone")
          case None
          moreover have "vf_save ft" using None by (simp add: save_registry_def Let_def split: if_splits)
          ultimately show thesis using assms eq ne c kl rt x partial [of SaveFailed key l fs removed] by simp
        next
          case (Some g)
          then show thesis using assms eq ne c kl r rt x k rr saved [of removed rep key l r fs r'] by simp
        qed
      qed
    qed
  next
    case (Inl e)
    then have "remove_account encoded st ft name af = (af, Inl e)" by (simp add: remove_account_def c kl)
    then show thesis using assms failed by auto
  qed
next
  case (Inl e)
  then have "remove_account encoded st ft name af = (af, Inl e)" by (simp add: remove_account_def)
  then show thesis using assms failed by auto
qed

text \<open>The operations of a store, with any outcome, and the token source writing a token.\<close>

inductive account_step :: "(registry \<Rightarrow> nat) \<Rightarrow> account_store \<Rightarrow> account_files \<Rightarrow> account_files \<Rightarrow> bool" for encoded st where
  step_upsert: "account_step encoded st af (fst (upsert_account encoded st now sf name age set_age af))"
| step_use: "account_step encoded st af (fst (use_account encoded st now sf name af))"
| step_rename: "account_step encoded st af (fst (rename_account encoded st rft old_name new_name af))"
| step_remove: "account_step encoded st af (fst (remove_account encoded st vft name af))"
| step_token: "account_step encoded st af (af\<lparr>af_tokens := fst (write_token size_of now wft (af_tokens af) path t)\<rparr>)"

lemma renamed_valid:
  assumes "registry_valid r" "map_of (rg_accounts r) old = Some a" "canonical_key new" "label_ok new (a\<lparr>ar_name := l\<rparr>)" "old \<noteq> new"
  shows "registry_valid (renamed_registry old new l a r)"
proof -
  let ?b = "a\<lparr>ar_name := l\<rparr>"
  let ?r = "set_account new ?b r"
  let ?d = "if rg_default r = old then new else rg_default r"
  have v: "registry_valid ?r" by (rule upsert_valid [OF assms(1,3,4)])
  have keys: "fst ` set (rg_accounts ?r) = insert new (fst ` set (rg_accounts r))"
    using keys_upsert [of new ?b "\<lambda>_. ?b" "rg_accounts r"] by (simp add: set_account_def)
  have ne: "rg_default r \<noteq> []" using assms(1,2) by (auto simp: registry_valid_def)
  then have "?d \<in> fst ` set (rg_accounts ?r)" "?d \<noteq> old" "?d \<noteq> []"
    unfolding keys using assms(1,5) canonical_key_ne [OF assms(3)] ne by (auto simp: registry_valid_def)
  from filter_valid [OF v this(1,2,3)] show ?thesis using ne by (simp add: renamed_registry_def set_account_def)
qed

lemma removed_valid:
  assumes "registry_valid r" "removed_registry k r = (r', l)" "rg_accounts r' \<noteq> []"
  shows "registry_valid r'"
proof (cases "rg_default r = k")
  case False
  have "rg_default r \<noteq> []" using assms by (auto simp: registry_valid_def removed_registry_def Let_def split: if_splits list.splits)
  then have "rg_default r \<in> fst ` set (rg_accounts r)" using assms(1) by (simp add: registry_valid_def)
  from filter_valid [OF assms(1) this False \<open>rg_default r \<noteq> []\<close>] show ?thesis
    using assms(2) False by (auto simp: removed_registry_def Let_def)
next
  case True
  let ?as = "filter (\<lambda>(j, _). j \<noteq> k) (rg_accounts r)"
  from assms(2,3) True obtain d ks where s: "sort (map fst ?as) = d # ks" and r': "r' = r\<lparr>rg_accounts := ?as, rg_default := d\<rparr>"
    by (cases "sort (map fst ?as)") (auto simp: removed_registry_def Let_def dest: arg_cong [where f = length])
  have "d \<in> set (map fst ?as)" using s by (metis list.set_intros(1) set_sort)
  then have d: "d \<in> fst ` set (rg_accounts r)" "d \<noteq> k" by auto
  moreover have "d \<noteq> []" using d assms(1) canonical_key_ne by (fastforce simp: registry_valid_def)
  ultimately show ?thesis using filter_valid [OF assms(1)] by (simp add: r')
qed

lemma account_step_good:
  assumes "account_step encoded st af af'" "registry_good af"
  shows "registry_good af'"
  using assms(1)
proof (cases rule: account_step.cases)
  case (step_upsert now sf name age set_age)
  then obtain res where u: "upsert_account encoded st now sf name age set_age af = (af', res)" by (metis prod.collapse)
  from u show ?thesis
  proof (cases rule: upsert_account_cases)
    case (saved key label r)
    note v = load_valid [OF assms(2) saved(3)]
    have "registry_valid (set_account key (upserted_record label now age set_age (map_of (rg_accounts r) key)) r)"
      using upsert_valid [OF v] canonical_label_ok [OF saved(2)] upserted_label_ok [OF v saved(2)] by blast
    then show ?thesis by (rule load_saved(1) [OF saved(5)])
  qed (use assms(2) in simp)
next
  case (step_use now sf name)
  then obtain res where u: "use_account encoded st now sf name af = (af', res)" by (metis prod.collapse)
  from u show ?thesis
  proof (cases rule: use_account_cases)
    case (saved key l r a)
    note v = load_valid [OF assms(2) saved(2)]
    have "registry_valid (r\<lparr>rg_default := key\<rparr>)"
      using v label_ok_found [OF v saved(3)] canonical_key_ne by (auto simp: registry_valid_def)
    then show ?thesis by (rule load_saved(1) [OF saved(4)])
  qed (use assms(2) in simp)
next
  case (step_rename rft old_name new_name)
  then obtain res where u: "rename_account encoded st rft old_name new_name af = (af', res)" by (metis prod.collapse)
  from u show ?thesis
  proof (cases rule: rename_account_cases)
    case (saved old ol new nl r a)
    note v = load_valid [OF assms(2) saved(5)]
    have "registry_valid (renamed_registry old new nl a r)"
      using renamed_valid [OF v saved(6)] canonical_label_ok [OF saved(3)] saved(4) by blast
    then show ?thesis by (rule load_saved(1) [OF saved(9)])
  qed (use assms(2) in \<open>simp_all add: registry_good_def\<close>)
next
  case (step_remove vft name)
  then obtain res where u: "remove_account encoded st vft name af = (af', res)" by (metis prod.collapse)
  from u show ?thesis
  proof (cases rule: remove_account_cases)
    case (saved key l r fs removed r' rep)
    note v = load_valid [OF assms(2) saved(3)]
    show ?thesis by (rule load_saved(1) [OF saved(8) removed_valid [OF v saved(6,7)]])
  qed (use assms(2) in \<open>simp_all add: registry_good_def\<close>)
next
  case (step_token size_of now wft path t)
  then show ?thesis using assms(2) by (simp add: registry_good_def)
qed

text \<open>
  C32. Whatever sequence of operations runs from a store without a registry, and whatever fails in
  them, the registry on disk is absent or whole and valid: its default account exists, every key is
  canonical and every label belongs to its key. So loading it succeeds, and the only error it can give is
  that the file has grown past its size limit.
\<close>

theorem registry_stays_valid:
  assumes "(account_step encoded st)\<^sup>*\<^sup>* af0 af" "af_registry af0 = NoRegistry"
  shows "(case load_registry st af of
       Inr r \<Rightarrow> registry_valid r
     | Inl e \<Rightarrow> e = RegistryTooLarge \<and> (\<exists>n r. af_registry af = RegistryFile n (Some r) \<and> n > 65536))"
proof -
  have "registry_good af0" using assms(2) by (simp add: registry_good_def)
  with assms(1) have g: "registry_good af"
    by (induction rule: rtranclp_induct) (auto intro: account_step_good)
  show ?thesis
  proof (cases "load_registry st af")
    case (Inr r)
    then show ?thesis using load_valid [OF g Inr] by simp
  next
    case (Inl e)
    show ?thesis
    proof (cases "af_registry af")
      case (RegistryFile n content)
      then obtain r where r: "content = Some r" "registry_valid r"
        using g by (auto simp: registry_good_def split: option.splits)
      then have "check_registry r = Inr r" using check_registry_iff [of r r] by (simp add: registry_valid_def)
      then show ?thesis
        using Inl RegistryFile r by (auto simp: load_registry_def max_registry_bytes_def split: if_splits)
    qed (use g Inl in \<open>simp_all add: registry_good_def load_registry_def\<close>)
  qed
qed

definition empty_files :: account_files where
  "empty_files = \<lparr>af_registry = NoRegistry, af_tokens = (\<lambda>_. Missing)\<rparr>"

theorem registry_stays_valid_witness:
  "case load_registry demo_store (fst (upsert_account (\<lambda>_. 100) demo_store 5 False ''Main'' 0 False empty_files)) of
     Inr r \<Rightarrow> registry_valid r | Inl e \<Rightarrow> e = RegistryTooLarge"
proof -
  let ?af = "fst (upsert_account (\<lambda>_. 100) demo_store 5 False ''Main'' 0 False empty_files)"
  have "(account_step (\<lambda>_. 100) demo_store)\<^sup>*\<^sup>* empty_files ?af" by (rule r_into_rtranclp) (rule step_upsert)
  from registry_stays_valid [OF this] show ?thesis
    by (simp add: empty_files_def split: sum.splits)
qed

end
