(* ===== verification/Accounts_Effects.thy ===== *)
theory Accounts_Effects
  imports Accounts_Theorems
begin

text \<open>
  What the account operations do to the registry and the token files: failures that change nothing,
  the effect of a rename and of a removal, the order of the list, and the cache age policy.
\<close>

section \<open>Failures\<close>

lemma move_back: "fs new = Missing \<Longrightarrow> move_file new old (move_file old new fs) = fs"
  by (rule ext) (simp add: move_file_def)

lemma remove_token_cases:
  assumes "remove_token fails path fs = (fs', Inr removed)"
  shows "fs' path = Missing \<and> (\<forall>q. q \<noteq> path \<longrightarrow> fs' q = fs q) \<and> (removed \<longleftrightarrow> fs path \<noteq> Missing)"
  using assms by (auto simp: remove_token_def split: if_splits path_state.splits)

text \<open>
  C33. An operation that fails changes nothing on disk. The exceptions are the two the code cannot undo:
  a rename whose registry cannot be saved and whose token file cannot be moved back, and a removal that
  has deleted the token before saving the registry failed. Even then the registry is untouched.
\<close>

theorem failed_operations_change_nothing:
  "(upsert_account encoded st now sf name age set_age af = (af1, Inl e1) \<longrightarrow> af1 = af)
   \<and> (use_account encoded st now sf name af = (af2, Inl e2) \<longrightarrow> af2 = af)
   \<and> (rename_account encoded st ft old_name new_name af = (af3, Inl e3)
        \<longrightarrow> af_registry af3 = af_registry af \<and> (af3 = af \<or> rf_save ft \<and> rf_rollback ft))
   \<and> (remove_account encoded st vt name af = (af4, Inl e4)
        \<longrightarrow> af_registry af4 = af_registry af \<and> (af4 = af \<or> vf_registry vt \<or> vf_save vt)
          \<and> (\<forall>key l q. canonical_account_name name = Inr (key, l) \<and> q \<noteq> token_path st key \<longrightarrow> af_tokens af4 q = af_tokens af q))"
proof (intro conjI impI)
  assume u: "upsert_account encoded st now sf name age set_age af = (af1, Inl e1)"
  show "af1 = af" by (rule upsert_account_cases [OF u]) simp_all
next
  assume u: "use_account encoded st now sf name af = (af2, Inl e2)"
  show "af2 = af" by (rule use_account_cases [OF u]) simp_all
next
  assume u: "rename_account encoded st ft old_name new_name af = (af3, Inl e3)"
  show "af_registry af3 = af_registry af" by (rule rename_account_cases [OF u]) simp_all
  show "af3 = af \<or> rf_save ft \<and> rf_rollback ft"
    by (rule rename_account_cases [OF u]) (simp_all add: move_back)
next
  assume u: "remove_account encoded st vt name af = (af4, Inl e4)"
  show "af_registry af4 = af_registry af" by (rule remove_account_cases [OF u]) simp_all
  show "af4 = af \<or> vf_registry vt \<or> vf_save vt" by (rule remove_account_cases [OF u]) simp_all
  show "\<forall>key l q. canonical_account_name name = Inr (key, l) \<and> q \<noteq> token_path st key \<longrightarrow> af_tokens af4 q = af_tokens af q"
    by (rule remove_account_cases [OF u]) (auto dest: remove_token_cases)
qed

theorem failed_operations_change_nothing_witness:
  "fst (use_account (\<lambda>_. 100) demo_store 5 False ''Main'' empty_files) = empty_files
   \<and> (\<exists>e. snd (use_account (\<lambda>_. 100) demo_store 5 False ''Main'' empty_files) = Inl e)"
proof -
  have u: "use_account (\<lambda>_. 100) demo_store 5 False ''Main'' empty_files = (empty_files, Inl (NotFound ''Main''))"
    by (simp add: use_account_def demo_name load_registry_def empty_files_def legacy_registry_def initial_registry_def)
  then have "use_account (\<lambda>_. 100) demo_store 5 False ''Main'' empty_files
      = (fst (use_account (\<lambda>_. 100) demo_store 5 False ''Main'' empty_files), Inl (NotFound ''Main''))"
    by simp
  with failed_operations_change_nothing
  have "fst (use_account (\<lambda>_. 100) demo_store 5 False ''Main'' empty_files) = empty_files" by blast
  then show ?thesis using u by simp
qed

section \<open>Rename\<close>

lemma check_rename_Inr:
  assumes "check_rename st old_name new_name old new fs = Inr ()"
  shows "fs (token_path st new) = Missing" "fs (token_path st old) \<noteq> Missing"
  using assms by (auto simp: check_rename_def split: path_state.splits)

text \<open>
  A rename moves the token file and the account record and nothing else: the new name gets the old
  account's token and record, with the new label; the old name has neither; every other account and
  token is as before; and the default account follows the rename.
\<close>

theorem rename_moves_account:
  assumes "registry_good af" "rename_account encoded st ft old_name new_name af = (af', Inr ())"
    and "canonical_account_name old_name = Inr (old, ol)" "canonical_account_name new_name = Inr (new, nl)"
    and "load_registry st af = Inr r" "\<And>x. encoded x \<le> 65536"
  shows "\<exists>a r'. load_registry st af' = Inr r' \<and> map_of (rg_accounts r) old = Some a
    \<and> map_of (rg_accounts r') = (map_of (rg_accounts r))(new \<mapsto> a\<lparr>ar_name := nl\<rparr>, old := None)
    \<and> rg_default r' = (if rg_default r = old then new else rg_default r)
    \<and> af_tokens af' = (af_tokens af)(token_path st new := af_tokens af (token_path st old), token_path st old := Missing)
    \<and> map_of (rg_accounts r) new = None \<and> af_tokens af (token_path st new) = Missing"
  using assms(2)
proof (cases rule: rename_account_cases)
  case (saved o' ol' n' nl' r0 a)
  then have eq: "o' = old" "n' = new" "nl' = nl" "r0 = r" using assms(3-5) by simp_all
  note s = saved [unfolded eq]
  have v: "registry_valid (renamed_registry old new nl a r)"
    using renamed_valid [OF load_valid [OF assms(1,5)] s(6)] canonical_label_ok [OF assms(4)] s(4) by blast
  note l = load_saved [OF s(9) v]
  have "load_registry st af' = Inr (renamed_registry old new nl a r)"
    using l(4) [of st] assms(6) by (simp add: max_registry_bytes_def)
  moreover have "map_of (rg_accounts (renamed_registry old new nl a r)) = (map_of (rg_accounts r))(new \<mapsto> a\<lparr>ar_name := nl\<rparr>, old := None)"
    using s(7) by (simp add: renamed_registry_def fun_eq_iff map_of_filter_ne map_of_upsert)
  ultimately show ?thesis
    using s(6,7) l(2) check_rename_Inr(1) [OF s(8)] by (simp add: move_file_def renamed_registry_def)
qed simp_all

text \<open>A store with the one account \<^verbatim>\<open>Main\<close>.\<close>

definition main_record :: account_record where
  "main_record = \<lparr>ar_name = ''Main'', ar_created = None, ar_max_age = 0\<rparr>"

definition main_registry :: registry where
  "main_registry = \<lparr>rg_version = 1, rg_default = ''main'', rg_accounts = [(''main'', main_record)]\<rparr>"

definition main_files :: account_files where
  "main_files = \<lparr>af_registry = RegistryFile 100 (Some main_registry),
     af_tokens = (\<lambda>_. Missing)(token_path demo_store ''main'' := written_file (\<lambda>_. 100) 7 demo_token)\<rparr>"

lemma main_registry_valid: "registry_valid main_registry"
  using canonical_Inr(4) [OF demo_name(1)]
  by (simp add: registry_valid_def main_registry_def canonical_key_def label_ok_def main_record_def demo_name)

lemma main_good: "registry_good main_files"
  using main_registry_valid by (simp add: registry_good_def main_files_def)

lemma main_load: "load_registry demo_store main_files = Inr main_registry"
  using main_registry_valid check_registry_iff [of main_registry main_registry]
  by (simp add: load_registry_def main_files_def max_registry_bytes_def registry_valid_def)

lemma demo_paths: "token_path demo_store ''alt'' \<noteq> token_path demo_store ''main''"
  using account_names_canonical [OF demo_name demo_rooted] by auto

theorem rename_moves_account_witness:
  "\<exists>r'. load_registry demo_store
       (fst (rename_account (\<lambda>_. 100) demo_store \<lparr>rf_mkdir = False, rf_rename = False, rf_save = False, rf_rollback = False\<rparr>
              ''Main'' ''alt'' main_files)) = Inr r'
     \<and> rg_default r' = ''alt'' \<and> map_of (rg_accounts r') ''main'' = None"
proof -
  let ?ft = "\<lparr>rf_mkdir = False, rf_rename = False, rf_save = False, rf_rollback = False\<rparr>"
  let ?af = "fst (rename_account (\<lambda>_. 100) demo_store ?ft ''Main'' ''alt'' main_files)"
  have c: "check_rename demo_store ''Main'' ''alt'' ''main'' ''alt'' (af_tokens main_files) = Inr ()"
    using demo_paths by (simp add: check_rename_def main_files_def written_file_def)
  have m: "map_of (rg_accounts main_registry) ''main'' = Some main_record" "map_of (rg_accounts main_registry) ''alt'' = None"
    by (simp_all add: main_registry_def)
  have "snd (rename_account (\<lambda>_. 100) demo_store ?ft ''Main'' ''alt'' main_files) = Inr ()"
    using m c by (simp add: rename_account_def demo_name main_load Let_def save_registry_def)
  then have r: "rename_account (\<lambda>_. 100) demo_store ?ft ''Main'' ''alt'' main_files = (?af, Inr ())"
    by (metis prod.collapse)
  have b: "(\<lambda>_::registry. 100::nat) x \<le> 65536" for x by simp
  show ?thesis
    using rename_moves_account [OF main_good r demo_name main_load b] by (auto simp: main_registry_def)
qed

section \<open>Remove\<close>

text \<open>
  A removal deletes the account and its token and nothing else. When the default account is removed
  the default becomes the account with the smallest key, and when no account is left the registry file
  goes too.
\<close>

theorem remove_deletes_account:
  assumes "registry_good af" "remove_account encoded st ft name af = (af', Inr (removed, replacement))"
    and "canonical_account_name name = Inr (key, l)" "load_registry st af = Inr r" "\<And>x. encoded x \<le> 65536"
  shows "af_tokens af' (token_path st key) = Missing
    \<and> (removed \<longleftrightarrow> af_tokens af (token_path st key) \<noteq> Missing)
    \<and> (\<forall>q. q \<noteq> token_path st key \<longrightarrow> af_tokens af' q = af_tokens af q)
    \<and> (if dom (map_of (rg_accounts r)) = {key} then af_registry af' = NoRegistry
       else \<exists>r'. load_registry st af' = Inr r' \<and> map_of (rg_accounts r') = (map_of (rg_accounts r))(key := None)
         \<and> rg_default r' = (if rg_default r = key then Min (dom (map_of (rg_accounts r)) - {key}) else rg_default r)
         \<and> replacement = (if rg_default r = key then ar_name (the (map_of (rg_accounts r) (rg_default r'))) else []))"
proof -
  define as where "as = filter (\<lambda>(k, _). k \<noteq> key) (rg_accounts r)"
  have m: "map_of as = (map_of (rg_accounts r))(key := None)"
    by (simp add: as_def fun_eq_iff map_of_filter_ne)
  have keys: "fst ` set as = dom (map_of (rg_accounts r)) - {key}"
    by (auto simp: as_def dom_map_of_conv_image_fst)
  have ne: "as = [] \<longleftrightarrow> dom (map_of (rg_accounts r)) - {key} = {}"
    unfolding keys [symmetric] by auto
  have rr: "removed_registry key r = (r', rep) \<Longrightarrow> rg_accounts r' = as" for r' rep
    by (auto simp: removed_registry_def as_def Let_def split: if_splits list.splits)
  show ?thesis
    using assms(2)
  proof (cases rule: remove_account_cases)
    case (last_one k l' r0 fs rem r' rep)
    then have eq: "k = key" "r0 = r" "rem = removed" using assms(3,4) by simp_all
    note s = last_one [unfolded eq]
    have "dom (map_of (rg_accounts r)) = {key}" using rr [OF s(6)] s(4,7) ne by auto
    then show ?thesis using remove_token_cases [OF s(5)] s(8,9) by simp
  next
    case (saved k l' r0 fs rem r' rep)
    then have eq: "k = key" "r0 = r" "rem = removed" "rep = replacement" using assms(3,4) by simp_all
    note s = saved [unfolded eq]
    note ra = rr [OF s(6)]
    have ne': "as \<noteq> []" "dom (map_of (rg_accounts r)) \<noteq> {key}" using ra s(7) ne by auto
    note ls = load_saved [OF s(8) removed_valid [OF load_valid [OF assms(1,4)] s(6,7)]]
    have r': "load_registry st af' = Inr r'" using ls(4) [of st] assms(5) by (simp add: max_registry_bytes_def)
    obtain d ds where d: "sort (map fst as) = d # ds"
      using ne'(1) by (cases "sort (map fst as)") (auto dest: arg_cong [where f = length])
    have srt: "sorted (d # ds)" "set (d # ds) = fst ` set as" unfolding d [symmetric] by simp_all
    have "d = Min (fst ` set as)"
      using srt by (intro Min_eqI [symmetric]) (auto simp flip: srt(2))
    then have dm: "d = Min (dom (map_of (rg_accounts r)) - {key})" by (simp only: keys)
    have din: "d \<noteq> key" using srt(2) keys by auto
    have f: "rg_default r' = (if rg_default r = key then d else rg_default r)"
      "replacement = (if rg_default r = key then ar_name (the (map_of as d)) else [])"
      using s(6) d by (auto simp: removed_registry_def as_def [symmetric] Let_def split: if_splits)
    have t: "af_tokens af' = fs" using ls(2) by simp
    show ?thesis
      using remove_token_cases [OF s(5)] ne'(2) r' ra m f t dm din by auto
  qed simp_all
qed


theorem remove_deletes_account_witness:
  "af_registry (fst (remove_account (\<lambda>_. 100) demo_store \<lparr>vf_remove = False, vf_registry = False, vf_save = False\<rparr>
     ''Main'' main_files)) = NoRegistry"
proof -
  let ?ft = "\<lparr>vf_remove = False, vf_registry = False, vf_save = False\<rparr>"
  let ?af = "fst (remove_account (\<lambda>_. 100) demo_store ?ft ''Main'' main_files)"
  have m: "map_of (rg_accounts main_registry) ''main'' = Some main_record" by (simp add: main_registry_def)
  have e: "removed_registry ''main'' main_registry = (main_registry\<lparr>rg_accounts := [], rg_default := []\<rparr>, [])"
    by (simp add: removed_registry_def main_registry_def)
  have p: "token_path demo_store ''main'' \<noteq> []"
    using account_names_canonical [OF demo_name demo_rooted] by (simp add: default_account_name_def)
  then have t: "remove_token False (token_path demo_store ''main'') (af_tokens main_files)
      = ((af_tokens main_files)(token_path demo_store ''main'' := Missing), Inr True)"
    by (simp add: remove_token_def main_files_def written_file_def)
  have "snd (remove_account (\<lambda>_. 100) demo_store ?ft ''Main'' main_files) = Inr (True, [])"
    by (simp add: remove_account_def demo_name main_load m t e) (simp add: main_files_def remove_registry_def)
  then have r: "remove_account (\<lambda>_. 100) demo_store ?ft ''Main'' main_files = (?af, Inr (True, []))"
    by (metis prod.collapse)
  have b: "(\<lambda>_::registry. 100::nat) x \<le> 65536" for x by simp
  show ?thesis
    using remove_deletes_account [OF main_good r demo_name(1) main_load b] by (simp add: main_registry_def)
qed

section \<open>The list\<close>

lemma display_linear:
  "display_le a a" "display_le a b \<or> display_le b a" "display_le a b \<Longrightarrow> display_le b c \<Longrightarrow> display_le a c"
  by (cases a; cases b; cases c; auto split: if_splits)+

abbreviation "display_order as \<equiv> sorted_wrt (\<lambda>a b. display_le (display_key a) (display_key b)) as"

lemma insert_display_sorted:
  "mset (insert_display a as) = add_mset a (mset as)" "display_order as \<Longrightarrow> display_order (insert_display a as)"
proof -
  show m: "mset (insert_display a as) = add_mset a (mset as)" for as by (induction as) auto
  have s: "set (insert_display a as) = insert a (set as)" for as
    using m [of as] by (metis set_mset_add_mset_insert set_mset_mset)
  show "display_order as \<Longrightarrow> display_order (insert_display a as)"
  proof (induction as)
    case (Cons b bs)
    then show ?case
      using display_linear(2) [of "display_key a" "display_key b"] display_linear(3) [of "display_key a" "display_key b"]
      by (auto simp: s)
  qed simp
qed

lemma sort_display_sorted: "mset (sort_display as) = mset as" "display_order (sort_display as)"
  by (induction as) (simp_all add: sort_display_def insert_display_sorted)

lemma account_status_default [simp]: "ac_default (account_status st now fs key r d) = d"
  by (simp add: account_status_def Let_def split: sum.splits)

lemma list_default_count:
  assumes "distinct (map fst m)"
  shows "length (filter (\<lambda>(k, _). k = d) m) = (if d \<in> fst ` set m then 1 else 0)"
  using assms
proof (induction m)
  case (Cons p m)
  have "filter (\<lambda>(k, _). k = d) m = []" if "d \<notin> fst ` set m" using that by (force simp: filter_empty_conv)
  then show ?case using Cons by (auto simp: split_beta)
qed simp

text \<open>
  The list of accounts shows every account of the registry exactly once, with its status; it is
  sorted, and when there are accounts, the first one is the default and the only default.
\<close>

theorem list_shows_accounts:
  assumes "registry_good af" "list_accounts st now af = Inr shown"
  shows "\<exists>r. load_registry st af = Inr r
    \<and> mset shown = image_mset (\<lambda>(k, a). account_status st now (af_tokens af) k a (k = rg_default r)) (mset (rg_accounts r))
    \<and> sorted_wrt (\<lambda>a b. display_le (display_key a) (display_key b)) shown
    \<and> (shown \<noteq> [] \<longrightarrow> ac_default (hd shown) \<and> list_all (\<lambda>a. \<not> ac_default a) (tl shown))"
proof -
  obtain r where r: "load_registry st af = Inr r" using assms(2) by (cases "load_registry st af") (auto simp: list_accounts_def)
  let ?as = "rg_accounts r"
  let ?f = "\<lambda>(k, a). account_status st now (af_tokens af) k a (k = rg_default r)"
  let ?g = "\<lambda>k. account_status st now (af_tokens af) k (the (map_of ?as k)) (k = rg_default r)"
  have v: "registry_valid r" by (rule load_valid [OF assms(1) r])
  have shown: "shown = sort_display (map ?g (sort (map fst ?as)))" using assms(2) r by (simp add: list_accounts_def)
  have "image_mset ?g (mset (map fst ?as)) = image_mset ?f (mset ?as)"
    using v by (auto simp: registry_valid_def image_mset.compositionality intro!: image_mset_cong)
  then have m: "mset shown = image_mset ?f (mset ?as)" by (simp add: shown sort_display_sorted)
  have srt: "display_order shown" unfolding shown by (rule sort_display_sorted)
  have "size (filter_mset ac_default (mset shown)) = length (filter (\<lambda>(k, _). k = rg_default r) ?as)"
    unfolding m by (simp add: filter_mset_image_mset case_prod_beta' o_def flip: mset_filter)
  then have n: "length (filter ac_default shown) = (if shown = [] then 0 else 1)"
    using list_default_count [of ?as "rg_default r"] v arg_cong [OF m, of size]
    by (auto simp: registry_valid_def simp flip: mset_filter)
  have "ac_default (hd shown) \<and> list_all (\<lambda>a. \<not> ac_default a) (tl shown)" if ne: "shown \<noteq> []"
  proof -
    obtain x xs where x: "shown = x # xs" using ne by (cases shown) auto
    have "ac_default x"
    proof (rule ccontr)
      assume no: "\<not> ac_default x"
      with n x have "filter ac_default xs \<noteq> []" by auto
      then obtain y where y: "y \<in> set xs" "ac_default y" by (auto simp: filter_empty_conv)
      then show False using srt no by (auto simp: x display_key_def)
    qed
    then show ?thesis using n by (simp add: x filter_empty_conv list_all_iff)
  qed
  then show ?thesis using r m srt by blast
qed

theorem list_shows_accounts_witness:
  "\<exists>a. list_accounts demo_store 9 main_files = Inr [a] \<and> ac_default a"
proof -
  obtain shown where s: "list_accounts demo_store 9 main_files = Inr shown"
    by (simp add: list_accounts_def main_load)
  from list_shows_accounts [OF main_good s]
  have m: "size (mset shown) = 1" and d: "shown \<noteq> [] \<longrightarrow> ac_default (hd shown)"
    by (auto simp: main_load main_registry_def)
  from m obtain a where "shown = [a]" by (auto simp: length_Suc_conv)
  then show ?thesis using s d by simp
qed

section \<open>Cache age\<close>

lemma age_round_trip:
  assumes "d mod second = 0"
  shows "age_duration (word_of_int (d div second)) = word_of_int d"
proof -
  have "age_duration (word_of_int (d div second)) = word_of_int (d div second * second)"
    by (simp add: age_duration_def)
  also have "d div second * second = d" using assms by (simp add: mod_0_imp_dvd)
  finally show ?thesis .
qed

lemma lower_days: "trim_space (to_lower (itoa n @ ''d'')) = itoa n @ ''d''"
proof -
  have c: "\<forall>c \<in> set (itoa n @ ''d''). ord c < 128 \<and> \<not> (65 \<le> ord c \<and> ord c \<le> 90)"
  proof
    fix c assume "c \<in> set (itoa n @ ''d'')"
    then have "is_digit c \<or> ord c = 100" using itoa_chars [of c n] by (auto simp: ord_def)
    then show "ord c < 128 \<and> \<not> (65 \<le> ord c \<and> ord c \<le> 90)" by (auto simp: is_digit_def)
  qed
  have h: "\<not> is_space_rune (ord (hd (itoa n)))"
    using itoa_chars [of "hd (itoa n)" n] by (auto simp: is_digit_def is_space_rune_def)
  have "trim_space (itoa n @ ''d'') = itoa n @ ''d''"
    using c h by (intro trim_space_plain) (auto simp: is_space_rune_def ord_def)
  then show ?thesis using to_lower_plain [OF c] by simp
qed

lemma parse_int_itoa: "n < 2 ^ 63 \<Longrightarrow> parse_int 64 (itoa n) = Some (int n)"
proof -
  assume n: "n < 2 ^ 63"
  have h: "hd (itoa n) \<noteq> CHR ''-''" "hd (itoa n) \<noteq> CHR ''+''"
    using itoa_chars [of "hd (itoa n)" n] by (auto simp: is_digit_def ord_def)
  have "int n < 2 ^ 63" using n by simp
  then show ?thesis using h by (simp add: parse_int_def itoa_digits digits_value_itoa)
qed

text \<open>
  The cache age that login accepts is 0 (no limit) or a positive whole number of seconds that fits
  a 64-bit duration; a number of days is accepted exactly up to the largest that fits, 106751; and
  the age survives being stored in seconds, so the duration the status uses is the accepted one.
  \<open>pd\<close> is the library's duration parser, whose results fit 64 bits.
\<close>

theorem cache_age_exact:
  assumes "\<And>s d. pd s = Some d \<Longrightarrow> - (2 ^ 63) \<le> d \<and> d < 2 ^ 63"
  shows "(\<forall>value d. parse_max_cache_age pd value = Inr d \<longrightarrow> 0 \<le> d \<and> d < 2 ^ 63 \<and> d mod second = 0
      \<and> age_duration (ar_max_age (upserted_record label now (word_of_int d) True old)) = word_of_int d)
    \<and> (\<forall>n. 0 < n \<longrightarrow> (parse_max_cache_age pd (itoa n @ ''d'')
         = (if n \<le> 106751 then Inr (int n * 24 * 3600 * second) else Inl (Some (itoa n @ ''d'')))))"
proof (intro conjI allI impI)
  fix "value" d assume p: "parse_max_cache_age pd value = Inr d"
  have r: "0 \<le> d \<and> d < 2 ^ 63 \<and> d mod second = 0"
    using p assms
    by (auto simp: parse_max_cache_age_def Let_def max_days_def second_def split: if_splits option.splits)
  then show "0 \<le> d" "d < 2 ^ 63" "d mod second = 0" by blast+
  have "sint (word_of_int d :: 64 word) = d" using r by (simp add: sint_sbintrunc' signed_take_bit_int_eq_self)
  then show "age_duration (ar_max_age (upserted_record label now (word_of_int d) True old)) = word_of_int d"
    using age_round_trip [of d] r by (simp add: upserted_record_def Let_def)
next
  fix n :: nat assume n: "0 < n"
  have "itoa n @ ''d'' \<noteq> ''0''" "itoa n @ ''d'' \<noteq> ''none''"
    by (auto dest: arg_cong [where f = last])
  moreover have "has_suffix (itoa n @ ''d'') ''d''" "trim_suffix (itoa n @ ''d'') ''d'' = itoa n"
    by (simp_all add: has_suffix_def trim_suffix_def)
  moreover have "parse_int 64 (itoa n) = (if n < 2 ^ 63 then Some (int n) else None)"
  proof (cases "n < 2 ^ 63")
    case False
    then have "\<not> int n < 2 ^ 63" by simp
    moreover have "hd (itoa n) \<noteq> CHR ''-''" "hd (itoa n) \<noteq> CHR ''+''"
      using itoa_chars [of "hd (itoa n)" n] by (auto simp: is_digit_def ord_def)
    ultimately show ?thesis using False by (simp add: parse_int_def itoa_digits digits_value_itoa)
  qed (simp add: parse_int_itoa)
  moreover have "max_days = 106751" by (simp add: max_days_def second_def)
  ultimately show "parse_max_cache_age pd (itoa n @ ''d'')
         = (if n \<le> 106751 then Inr (int n * 24 * 3600 * second) else Inl (Some (itoa n @ ''d'')))"
    using n by (simp add: parse_max_cache_age_def lower_days Let_def)
qed

theorem cache_age_exact_witness:
  "parse_max_cache_age (\<lambda>_. None) (itoa 106752 @ ''d'') = Inl (Some (itoa 106752 @ ''d''))"
proof -
  have p: "(\<lambda>_::string. None::int option) s = Some d \<Longrightarrow> - (2 ^ 63) \<le> d \<and> d < 2 ^ 63" for s d by simp
  have "0 < (106752::nat)" by simp
  with cache_age_exact [of "\<lambda>_. None", OF p] show ?thesis by fastforce
qed

end
