(* ===== verification/Viewer.thy ===== *)
theory Viewer
  imports Archive
begin

text \<open>
  The capture viewer (\<^verbatim>\<open>internal/viewer/viewer.go\<close>): an index over the event stream that follows a
  growing file, the verification of a capture that is closed while it is being watched, and the HTTP
  handlers. Decoding a line of JSON, resolving symbolic links, reading a blob and the embedded assets are
  arguments; what the event stream file does is a record of its outcomes. Each function that takes the
  viewer's lock is one operation.
\<close>

section \<open>Data\<close>

definition default_blob_preview_bytes :: nat where "default_blob_preview_bytes = 64 * 2 ^ 10"
definition max_page_size :: int where "max_page_size = 500"
definition events_file_name :: string where "events_file_name = ''events.jsonl''"

record view_options =
  vo_preview :: int
  vo_external :: bool

record blob_summary =
  bs_size :: int
  bs_media_type :: string
  bs_representation :: string

record row =
  rw_sequence :: u64
  rw_time :: string
  rw_elapsed_nano :: int
  rw_hop :: int
  rw_direction :: direction
  rw_kind :: string
  rw_severity :: severity
  rw_channel :: string
  rw_stage :: string
  rw_packet :: "packet_info option"
  rw_blob :: "blob_summary option"
  rw_error :: "error_info option"
  rw_problem :: bool
  rw_summary :: string

record event_index =
  ix_row :: row
  ix_offset :: nat
  ix_length :: nat
  ix_search :: string

record filter_values =
  fv_directions :: "string list"
  fv_kinds :: "string list"
  fv_packets :: "string list"
  fv_channels :: "string list"

datatype path_error = PathUnsafe string | PathUnresolved | PathOutside

datatype view_error =
    VVerify verify_error | VIssues "issue list" | VStillOpen | VManifest verify_error | VSchema string
  | VEventsPath string | VResolveRoot | VResolveLinks | VResolveStream path_error
  | VOpenStream | VInspectStream | VShrank nat nat | VSeekStream | VNotTerminated nat | VDecode nat
  | VEventSchema u64 string | VEventCapture u64 string | VSequence nat u64 | VReadLine nat
  | VCaptureChanged string string | VVerifyCompleted verify_error
  | VSeekEvent u64 | VReadEvent u64 | VDecodeEvent u64
  | VResolveBlob path_error | VOpenBlob | VReadBlob
  | VQuery string int int | VNotFound | VBadSequence
  | VIndexCompleted view_error | VExternal string

text \<open>An issue of the verifier, or the text of the errors that completing a verification joined.\<close>

datatype view_issue = FoundIssue issue | FailureIssue "view_error list"

text \<open>
  The viewer. Of its \<^verbatim>\<open>capture.Verification\<close> only the manifest and the issues are ever read; the
  sets of filter values are lists without duplicates; no verification error is the empty list.
\<close>

record viewer =
  vw_root :: string
  vw_resolved_root :: string
  vw_events_path :: string
  vw_manifest :: manifest
  vw_issues :: "view_issue list"
  vw_done :: bool
  vw_tailing :: bool
  vw_external :: bool
  vw_progress :: "verification_progress option"
  vw_error :: "view_error list"
  vw_offset :: nat
  vw_rows :: "event_index list"
  vw_by_sequence :: "u64 \<rightharpoonup> nat"
  vw_filters :: filter_values
  vw_directions :: "string list"
  vw_kinds :: "string list"
  vw_packets :: "string list"
  vw_channels :: "string list"
  vw_seen_blobs :: "string list"
  vw_preview :: nat

text \<open>The event stream file: whether it opens, its size, whether it seeks, its text, whether reading ends well.\<close>

record stream_file =
  sf_opens :: bool
  sf_stat :: "nat option"
  sf_seeks :: bool
  sf_text :: string
  sf_read_ok :: bool

section \<open>Rows\<close>

definition event_summary :: "event \<Rightarrow> string" where
  "event_summary e =
     (case ev_packet e of
        Some p \<Rightarrow>
          (let name = (if pi_name p = [] then ''packet '' @ itoa (unat (pi_id p)) else pi_name p)
           in if pi_decode_status p \<noteq> [] then name @ '' - '' @ pi_decode_status p else name)
      | None \<Rightarrow>
          (case ev_error e of
             Some er \<Rightarrow> ei_message er
           | None \<Rightarrow>
               (case ev_blob e of
                  Some b \<Rightarrow> if br_representation b \<noteq> [] then br_representation b else ev_kind e
                | None \<Rightarrow> ev_kind e)))"

definition packet_problem :: "event \<Rightarrow> bool" where
  "packet_problem e =
     (case ev_packet e of
        None \<Rightarrow> False
      | Some p \<Rightarrow> (let status = to_lower (pi_decode_status p) in status \<noteq> [] \<and> status \<noteq> ''decoded''))"

definition search_parts :: "event \<Rightarrow> string list" where
  "search_parts e =
     [itoa (unat (ev_sequence e)), ev_time e, ev_direction e, ev_kind e, ev_severity e, ev_channel e, ev_stage e, event_summary e]
     @ (case ev_packet e of None \<Rightarrow> []
        | Some p \<Rightarrow> [pi_name p, pi_go_type p, pi_decode_status p, itoa (unat (pi_id p))])
     @ (case ev_error e of None \<Rightarrow> [] | Some er \<Rightarrow> [ei_operation er, ei_message er, ei_type er])"

definition make_row :: "event \<Rightarrow> nat \<Rightarrow> nat \<Rightarrow> event_index" where
  "make_row e offset len =
     \<lparr>ix_row = \<lparr>rw_sequence = ev_sequence e, rw_time = ev_time e, rw_elapsed_nano = ev_elapsed_nano e, rw_hop = ev_hop e,
        rw_direction = ev_direction e, rw_kind = ev_kind e, rw_severity = ev_severity e, rw_channel = ev_channel e,
        rw_stage = ev_stage e, rw_packet = ev_packet e,
        rw_blob = map_option (\<lambda>b. \<lparr>bs_size = br_size b, bs_media_type = br_media_type b, bs_representation = br_representation b\<rparr>) (ev_blob e),
        rw_error = ev_error e,
        rw_problem = (ev_error e \<noteq> None \<or> ev_severity e = SeverityError \<or> packet_problem e),
        rw_summary = event_summary e\<rparr>,
      ix_offset = offset, ix_length = len, ix_search = to_lower (join_with '' '' (search_parts e))\<rparr>"

section \<open>Indexing\<close>

definition newline_char :: char where "newline_char = CHR 0x0A"

definition add_value :: "string \<Rightarrow> string list \<Rightarrow> string list" where
  "add_value x xs = (if x = [] then xs else add_once x xs)"

definition refresh_filters :: "viewer \<Rightarrow> viewer" where
  "refresh_filters v =
     v\<lparr>vw_filters := \<lparr>fv_directions = sort (vw_directions v), fv_kinds = sort (vw_kinds v),
        fv_packets = sort (vw_packets v), fv_channels = sort (vw_channels v)\<rparr>\<rparr>"

definition add_event :: "event \<Rightarrow> nat \<Rightarrow> viewer \<Rightarrow> viewer" where
  "add_event e len v =
     v\<lparr>vw_by_sequence := (vw_by_sequence v)(ev_sequence e \<mapsto> length (vw_rows v)),
       vw_rows := vw_rows v @ [make_row e (vw_offset v) len],
       vw_directions := add_value (ev_direction e) (vw_directions v),
       vw_kinds := add_value (ev_kind e) (vw_kinds v),
       vw_channels := add_value (ev_channel e) (vw_channels v),
       vw_packets := (case ev_packet e of None \<Rightarrow> vw_packets v | Some p \<Rightarrow> add_value (pi_name p) (vw_packets v)),
       vw_seen_blobs := (case ev_blob e of None \<Rightarrow> vw_seen_blobs v | Some b \<Rightarrow> add_value (br_sha256 b) (vw_seen_blobs v)),
       vw_offset := vw_offset v + len\<rparr>"

definition index_line :: "(string \<Rightarrow> event option) \<Rightarrow> string \<Rightarrow> viewer \<Rightarrow> view_error + viewer" where
  "index_line decode line v =
     (case decode line of
        None \<Rightarrow> Inl (VDecode (length (vw_rows v) + 1))
      | Some e \<Rightarrow>
          if ev_schema e \<noteq> schema_version then Inl (VEventSchema (ev_sequence e) (ev_schema e))
          else if ev_capture_id e \<noteq> mf_capture_id (vw_manifest v) then Inl (VEventCapture (ev_sequence e) (ev_capture_id e))
          else if ev_sequence e \<noteq> of_nat (length (vw_rows v) + 1) then Inl (VSequence (length (vw_rows v)) (ev_sequence e))
          else Inr (add_event e (length line) v))"

text \<open>The next line with its line end, and what follows it; \<^term>\<open>None\<close> when the text has no line end.\<close>

definition cut_line :: "string \<Rightarrow> (string \<times> string) option" where
  "cut_line s =
     (case dropWhile (\<lambda>c. c \<noteq> newline_char) s of
        [] \<Rightarrow> None
      | _ # rest \<Rightarrow> Some (takeWhile (\<lambda>c. c \<noteq> newline_char) s @ [newline_char], rest))"

lemma cut_line_Some:
  "cut_line s = Some (line, rest) \<longleftrightarrow> (\<exists>body. newline_char \<notin> set body \<and> line = body @ [newline_char] \<and> s = body @ newline_char # rest)"
proof
  assume c: "cut_line s = Some (line, rest)"
  let ?b = "takeWhile (\<lambda>c. c \<noteq> newline_char) s"
  obtain x where d: "dropWhile (\<lambda>c. c \<noteq> newline_char) s = x # rest" and l: "line = ?b @ [newline_char]"
    using c by (auto simp: cut_line_def split: list.splits)
  have "x = newline_char" using hd_dropWhile [of "\<lambda>c. c \<noteq> newline_char" s] d by simp
  then have "s = ?b @ newline_char # rest" using d takeWhile_dropWhile_id [of "\<lambda>c. c \<noteq> newline_char" s] by simp
  moreover have "newline_char \<notin> set ?b" by (auto dest: set_takeWhileD)
  ultimately show "\<exists>body. newline_char \<notin> set body \<and> line = body @ [newline_char] \<and> s = body @ newline_char # rest"
    using l by blast
next
  assume "\<exists>body. newline_char \<notin> set body \<and> line = body @ [newline_char] \<and> s = body @ newline_char # rest"
  then obtain body where b: "newline_char \<notin> set body" "line = body @ [newline_char]" "s = body @ newline_char # rest" by blast
  have "takeWhile (\<lambda>c. c \<noteq> newline_char) s = body" "dropWhile (\<lambda>c. c \<noteq> newline_char) s = newline_char # rest"
    using b(1,3) by (simp_all add: takeWhile_append dropWhile_append)
  then show "cut_line s = Some (line, rest)" using b(2) by (simp add: cut_line_def)
qed

text \<open>The loop of \<^verbatim>\<open>indexAppendedEvents\<close>. Rows read before an error stay, and the filters are only refreshed at a regular end.\<close>

function index_lines :: "(string \<Rightarrow> event option) \<Rightarrow> bool \<Rightarrow> bool \<Rightarrow> bool \<Rightarrow> string \<Rightarrow> viewer \<Rightarrow> viewer \<times> (view_error + bool)" where
  "index_lines decode partial read_ok changed s v =
     (case cut_line s of
        Some (line, rest) \<Rightarrow>
          (case index_line decode line v of
             Inl e \<Rightarrow> (v, Inl e)
           | Inr v' \<Rightarrow> index_lines decode partial read_ok True rest v')
      | None \<Rightarrow>
          (let v' = (if changed then refresh_filters v else v) in
           if s \<noteq> [] then (if partial \<and> read_ok then (v', Inr True) else (v, Inl (VNotTerminated (length (vw_rows v) + 1))))
           else if \<not> read_ok then (v, Inl (VReadLine (length (vw_rows v) + 1)))
           else (v', Inr False)))"
  by pat_completeness auto
termination
  by (relation "measure (\<lambda>(decode, partial, read_ok, changed, s, v). length s)") (auto simp: cut_line_Some)

declare index_lines.simps [simp del]

definition index_appended_events :: "(string \<Rightarrow> event option) \<Rightarrow> bool \<Rightarrow> stream_file \<Rightarrow> viewer \<Rightarrow> viewer \<times> (view_error + bool)" where
  "index_appended_events decode partial f v =
     (if \<not> sf_opens f then (v, Inl VOpenStream)
      else case sf_stat f of
        None \<Rightarrow> (v, Inl VInspectStream)
      | Some n \<Rightarrow>
          if n < vw_offset v then (v, Inl (VShrank (vw_offset v) n))
          else if \<not> sf_seeks f then (v, Inl VSeekStream)
          else index_lines decode partial (sf_read_ok f) False (drop (vw_offset v) (sf_text f)) v)"

section \<open>Opening and following a capture\<close>

definition resolve_capture_file :: "(string \<Rightarrow> string option) \<Rightarrow> string \<Rightarrow> string \<Rightarrow> string \<Rightarrow> path_error + string" where
  "resolve_capture_file eval_links root resolved_root relative =
     (let clean = clean_path relative in
      if has_prefix clean ''/'' \<or> clean = ''.'' \<or> clean = ''..'' \<or> has_prefix clean ''../'' then Inl (PathUnsafe relative)
      else case eval_links (join_path root clean) of
        None \<Rightarrow> Inl PathUnresolved
      | Some resolved \<Rightarrow>
          (let within = rel_path resolved_root resolved in
           if within = ''..'' \<or> has_prefix within ''../'' then Inl PathOutside else Inr resolved))"

definition new_viewer :: "string option \<Rightarrow> (string \<Rightarrow> string option) \<Rightarrow> string \<Rightarrow> manifest \<Rightarrow> view_options \<Rightarrow> view_error + viewer" where
  "new_viewer cwd eval_links root0 m opts =
     (if clean_path (mf_events_path m) \<noteq> events_file_name then Inl (VEventsPath (mf_events_path m))
      else case abs_path cwd root0 of
        None \<Rightarrow> Inl VResolveRoot
      | Some root \<Rightarrow>
          (case eval_links root of
             None \<Rightarrow> Inl VResolveLinks
           | Some resolved \<Rightarrow>
               (case resolve_capture_file eval_links root resolved events_file_name of
                  Inl e \<Rightarrow> Inl (VResolveStream e)
                | Inr path \<Rightarrow>
                    Inr \<lparr>vw_root = root, vw_resolved_root = resolved, vw_events_path = path, vw_manifest = m, vw_issues = [],
                      vw_done = False, vw_tailing = False, vw_external = vo_external opts, vw_progress = None, vw_error = [],
                      vw_offset = 0, vw_rows = [], vw_by_sequence = Map.empty,
                      vw_filters = \<lparr>fv_directions = [], fv_kinds = [], fv_packets = [], fv_channels = []\<rparr>,
                      vw_directions = [], vw_kinds = [], vw_packets = [], vw_channels = [], vw_seen_blobs = [],
                      vw_preview = (if vo_preview opts \<le> 0 then default_blob_preview_bytes else nat (vo_preview opts))\<rparr>)))"

definition still_open :: "manifest \<Rightarrow> bool" where
  "still_open m = (mf_status m = ''open'' \<or> mf_ended_at m = [])"

definition open_viewer :: "(string \<Rightarrow> event option) \<Rightarrow> string option \<Rightarrow> (string \<Rightarrow> string option) \<Rightarrow> disk \<Rightarrow> stream_file \<Rightarrow>
    string \<Rightarrow> view_options \<Rightarrow> view_error + viewer" where
  "open_viewer decode cwd eval_links d f root opts =
     (case verify d of
        Inl e \<Rightarrow> Inl (VVerify e)
      | Inr r \<Rightarrow>
          if vf_issues r \<noteq> [] then Inl (VIssues (vf_issues r))
          else if still_open (vf_manifest r) then Inl VStillOpen
          else res_bind (new_viewer cwd eval_links root (vf_manifest r) opts) (\<lambda>v.
            case index_appended_events decode False f (v\<lparr>vw_issues := map FoundIssue (vf_issues r), vw_done := True\<rparr>) of
              (_, Inl e) \<Rightarrow> Inl e
            | (v', Inr _) \<Rightarrow> Inr v'))"

text \<open>
  What a refresh finds on disk: the stream when it is first read, the manifest, and the stream and the
  capture when the capture turns out to be closed. The recorder may write between these.
\<close>

record refresh_world =
  wd_stream :: stream_file
  wd_disk :: disk
  wd_stream_again :: stream_file
  wd_disk_again :: disk

definition refresh :: "(string \<Rightarrow> event option) \<Rightarrow> refresh_world \<Rightarrow> viewer \<Rightarrow> viewer \<times> view_error option" where
  "refresh decode w v =
     (if \<not> vw_tailing v then (v, None)
      else case index_appended_events decode True (wd_stream w) v of
        (v1, Inl e) \<Rightarrow> (v1, Some e)
      | (v1, Inr _) \<Rightarrow>
          (case read_manifest (wd_disk w) of
             Inl e \<Rightarrow> (v1, Some (VManifest e))
           | Inr m \<Rightarrow>
               if mf_capture_id m \<noteq> mf_capture_id (vw_manifest v1)
               then (v1, Some (VCaptureChanged (mf_capture_id (vw_manifest v1)) (mf_capture_id m)))
               else
                 (let v2 = v1\<lparr>vw_manifest := m\<rparr> in
                  if still_open m then (v2, None)
                  else if vw_external v2 \<and> \<not> vw_done v2 then (v2, None)
                  else case index_appended_events decode False (wd_stream_again w) v2 of
                    (v3, Inl e) \<Rightarrow> (v3, Some e)
                  | (v3, Inr _) \<Rightarrow>
                      (case verify (wd_disk_again w) of
                         Inl e \<Rightarrow> (v3, Some (VVerifyCompleted e))
                       | Inr r \<Rightarrow>
                           (v3\<lparr>vw_manifest := vf_manifest r, vw_issues := map FoundIssue (vf_issues r),
                               vw_done := True, vw_tailing := False\<rparr>, None)))))"

definition open_live :: "(string \<Rightarrow> event option) \<Rightarrow> string option \<Rightarrow> (string \<Rightarrow> string option) \<Rightarrow> disk \<Rightarrow> refresh_world \<Rightarrow>
    string \<Rightarrow> view_options \<Rightarrow> view_error + viewer" where
  "open_live decode cwd eval_links d w root opts =
     (case read_manifest d of
        Inl e \<Rightarrow> Inl (VManifest e)
      | Inr m \<Rightarrow>
          if mf_schema m \<noteq> schema_version then Inl (VSchema (mf_schema m))
          else res_bind (new_viewer cwd eval_links root m opts) (\<lambda>v.
            case refresh decode w (v\<lparr>vw_tailing := True\<rparr>) of
              (_, Some e) \<Rightarrow> Inl e
            | (v', None) \<Rightarrow> Inr v'))"

section \<open>External verification\<close>

definition begin_verification :: "viewer \<Rightarrow> viewer" where
  "begin_verification v =
     v\<lparr>vw_external := True, vw_done := False, vw_error := [],
       vw_progress := Some \<lparr>vp_phase = ''starting'', vp_events = 0, vp_blobs = 0, vp_blob_bytes = 0, vp_last_sequence = 0\<rparr>\<rparr>"

definition update_verification_progress :: "verification_progress \<Rightarrow> viewer \<Rightarrow> viewer" where
  "update_verification_progress p v = v\<lparr>vw_progress := Some p\<rparr>"

text \<open>\<open>verify_err\<close> is the error the verification ended with, if any; joining errors appends them.\<close>

definition complete_verification :: "(string \<Rightarrow> event option) \<Rightarrow> stream_file \<Rightarrow> verification \<Rightarrow> view_error list \<Rightarrow> viewer \<Rightarrow> viewer" where
  "complete_verification decode f result verify_err0 v =
     (let v1 = (if mf_capture_id (vf_manifest result) \<noteq> []
                then v\<lparr>vw_manifest := vf_manifest result, vw_issues := map FoundIssue (vf_issues result)\<rparr> else v);
          indexed = index_appended_events decode False f v1;
          verify_err = (case snd indexed of Inl e \<Rightarrow> verify_err0 @ [VIndexCompleted e] | Inr _ \<Rightarrow> verify_err0);
          v2 = (fst indexed)\<lparr>vw_progress := None, vw_done := True, vw_tailing := False, vw_error := []\<rparr>
      in if verify_err = [] then v2
         else v2\<lparr>vw_error := verify_err, vw_issues := vw_issues v2 @ [FailureIssue verify_err]\<rparr>)"

end
