(* ===== verification/Viewer_Http.thy ===== *)
theory Viewer_Http
  imports Viewer
begin

text \<open>
  The HTTP side of the viewer (\<^verbatim>\<open>internal/viewer/viewer.go\<close>): the access token, the routes, and the
  handlers of the session, the event pages and a single event. Reading the query string and writing JSON
  are the library's; the embedded assets are an argument.
\<close>

section \<open>Requests and replies\<close>

record request =
  rq_method :: string
  rq_path :: string
  rq_query :: "string \<Rightarrow> string"

record session_response =
  sr_manifest :: manifest
  sr_events :: u64
  sr_blobs :: u64
  sr_filters :: filter_values
  sr_preview_bytes :: nat
  sr_mode :: string
  sr_verification :: string
  sr_issues :: "view_issue list"
  sr_progress :: "verification_progress option"

record events_response =
  er_offset :: int
  er_limit :: int
  er_total :: int
  er_rows :: "row list"

record event_response =
  en_event :: event
  en_preview :: "string option"
  en_truncated :: bool

datatype reply =
    Redirected string | PageNotFound | MethodNotAllowed | AssetMissing
  | AssetReply string string bool
  | SessionReply session_response | EventsReply events_response | EventReply event_response
  | ApiError nat view_error

section \<open>The session\<close>

definition session_of :: "viewer \<Rightarrow> session_response" where
  "session_of v =
     \<lparr>sr_manifest = vw_manifest v, sr_events = of_nat (length (vw_rows v)), sr_blobs = of_nat (length (vw_seen_blobs v)),
      sr_filters = vw_filters v, sr_preview_bytes = vw_preview v,
      sr_mode = (if mf_status (vw_manifest v) = ''open'' then ''live'' else ''closed''),
      sr_verification =
        (if vw_done v then (if vw_issues v \<noteq> [] \<or> vw_error v \<noteq> [] then ''failed'' else ''verified'')
         else if vw_progress v \<noteq> None then ''verifying'' else ''pending''),
      sr_issues = vw_issues v, sr_progress = vw_progress v\<rparr>"

definition after_refresh :: "viewer \<times> view_error option \<Rightarrow> (viewer \<Rightarrow> reply) \<Rightarrow> viewer \<times> reply" where
  "after_refresh r serve = (case r of (v, Some e) \<Rightarrow> (v, ApiError 500 e) | (v, None) \<Rightarrow> (v, serve v))"

section \<open>Pages of events\<close>

definition query_integer :: "(string \<Rightarrow> string) \<Rightarrow> string \<Rightarrow> int \<Rightarrow> int \<Rightarrow> int \<Rightarrow> view_error + int" where
  "query_integer query name fallback minimum maximum =
     (if query name = [] then Inr fallback
      else case parse_int 64 (query name) of
        None \<Rightarrow> Inl (VQuery name minimum maximum)
      | Some value \<Rightarrow> if value < minimum \<or> value > maximum then Inl (VQuery name minimum maximum) else Inr value)"

definition row_skipped :: "(string \<Rightarrow> string) \<Rightarrow> event_index \<Rightarrow> bool" where
  "row_skipped query ix =
     (let r = ix_row ix; text = to_lower (trim_space (query ''q''));
          direction = query ''direction''; kind = query ''kind''; packet = query ''packet''; channel = query ''channel''
      in (direction \<noteq> [] \<and> rw_direction r \<noteq> direction) \<or> (kind \<noteq> [] \<and> rw_kind r \<noteq> kind)
         \<or> (channel \<noteq> [] \<and> rw_channel r \<noteq> channel)
         \<or> (packet \<noteq> [] \<and> (case rw_packet r of None \<Rightarrow> True | Some p \<Rightarrow> pi_name p \<noteq> packet))
         \<or> (query ''problems'' = ''true'' \<and> \<not> rw_problem r)
         \<or> (text \<noteq> [] \<and> \<not> contains_sub (ix_search ix) text))"

text \<open>One turn of the loop over the rows: the page so far and the number of rows that matched.\<close>

definition collect_row :: "bool \<Rightarrow> nat \<Rightarrow> nat \<Rightarrow> (string \<Rightarrow> string) \<Rightarrow> row list \<times> nat \<Rightarrow> event_index \<Rightarrow> row list \<times> nat" where
  "collect_row tail offset limit query s ix =
     (case s of (matched, found) \<Rightarrow>
        if row_skipped query ix then (matched, found)
        else if tail then
          (if length matched = limit then tl matched @ [ix_row ix] else matched @ [ix_row ix], found + 1)
        else (if offset \<le> found \<and> length matched < limit then matched @ [ix_row ix] else matched, found + 1))"

definition events_page :: "(string \<Rightarrow> string) \<Rightarrow> viewer \<Rightarrow> reply" where
  "events_page query v =
     (case query_integer query ''offset'' 0 0 (int (length (vw_rows v))) of
        Inl e \<Rightarrow> ApiError 400 e
      | Inr offset \<Rightarrow>
          (case query_integer query ''limit'' 100 1 max_page_size of
             Inl e \<Rightarrow> ApiError 400 e
           | Inr limit \<Rightarrow>
               (let tail = (query ''tail'' = ''true'') in
                case foldl (collect_row tail (nat offset) (nat limit) query) ([], 0) (vw_rows v) of
                  (matched, found) \<Rightarrow>
                    EventsReply \<lparr>er_offset = (if tail then max 0 (int found - int (length matched)) else offset),
                      er_limit = limit, er_total = int found, er_rows = matched\<rparr>)))"

section \<open>One event\<close>

definition read_event :: "(string \<Rightarrow> event option) \<Rightarrow> stream_file \<Rightarrow> event_index \<Rightarrow> view_error + event" where
  "read_event decode f ix =
     (let n = rw_sequence (ix_row ix); line = take (ix_length ix) (drop (ix_offset ix) (sf_text f)) in
      if \<not> sf_opens f then Inl VOpenStream
      else if \<not> sf_seeks f then Inl (VSeekEvent n)
      else if \<not> sf_read_ok f \<or> length line < ix_length ix then Inl (VReadEvent n)
      else case decode line of None \<Rightarrow> Inl (VDecodeEvent n) | Some e \<Rightarrow> Inr e)"

text \<open>A blob file at a path: it does not open, it cannot be read, or its content.\<close>

datatype blob_file = BlobNoOpen | BlobNoRead | BlobContent string

definition read_blob_preview :: "(string \<Rightarrow> string option) \<Rightarrow> (string \<Rightarrow> blob_file) \<Rightarrow> viewer \<Rightarrow> blob_ref \<Rightarrow> view_error + string \<times> bool" where
  "read_blob_preview eval_links read_file v ref =
     (case resolve_capture_file eval_links (vw_root v) (vw_resolved_root v) (br_path ref) of
        Inl e \<Rightarrow> Inl (VResolveBlob e)
      | Inr path \<Rightarrow>
          (case read_file path of
             BlobNoOpen \<Rightarrow> Inl VOpenBlob
           | BlobNoRead \<Rightarrow> Inl VReadBlob
           | BlobContent content \<Rightarrow>
               (let data = take (vw_preview v) content in Inr (data, br_size ref > int (length data)))))"

definition event_page :: "(string \<Rightarrow> event option) \<Rightarrow> (string \<Rightarrow> string option) \<Rightarrow> (string \<Rightarrow> blob_file) \<Rightarrow> stream_file \<Rightarrow>
    string \<Rightarrow> viewer \<Rightarrow> reply" where
  "event_page decode eval_links read_file f path v =
     (let text = trim_prefix path ''/api/events/'' in
      if text = [] \<or> CHR ''/'' \<in> set text then ApiError 404 VNotFound
      else case parse_uint 64 text of
        None \<Rightarrow> ApiError 400 VBadSequence
      | Some n \<Rightarrow>
          (case vw_by_sequence v (of_nat n) of
             None \<Rightarrow> ApiError 404 VNotFound
           | Some position \<Rightarrow>
               (case read_event decode f (vw_rows v ! position) of
                  Inl e \<Rightarrow> ApiError 500 e
                | Inr e \<Rightarrow>
                    (case ev_blob e of
                       None \<Rightarrow> EventReply \<lparr>en_event = e, en_preview = None, en_truncated = False\<rparr>
                     | Some ref \<Rightarrow>
                         (case read_blob_preview eval_links read_file v ref of
                            Inl err \<Rightarrow> ApiError 500 err
                          | Inr (data, truncated) \<Rightarrow>
                              EventReply \<lparr>en_event = e, en_preview = Some data, en_truncated = truncated\<rparr>)))))"

section \<open>Routes\<close>

text \<open>Path, embedded file and content type of every asset.\<close>

definition asset_routes :: "(string \<times> string \<times> string) list" where
  "asset_routes =
     [(''/'', ''assets/index.html'', ''text/html; charset=utf-8''),
      (''/assets/app.css'', ''assets/app.css'', ''text/css; charset=utf-8''),
      (''/assets/app.js'', ''assets/app.js'', ''text/javascript; charset=utf-8''),
      (''/assets/glyph_e031.svg'', ''assets/glyph_e031.svg'', ''image/svg+xml''),
      (''/assets/glyph_v.svg'', ''assets/glyph_v.svg'', ''image/svg+xml''),
      (''/assets/favicon-16x16.png'', ''assets/favicon-16x16.png'', ''image/png''),
      (''/assets/favicon-32x32.png'', ''assets/favicon-32x32.png'', ''image/png''),
      (''/assets/favicon.ico'', ''assets/favicon.ico'', ''image/x-icon''),
      (''/assets/original-logo.png'', ''assets/original-logo.png'', ''image/png''),
      (''/assets/apple-touch-icon.png'', ''assets/apple-touch-icon.png'', ''image/png''),
      (''/assets/android-chrome-192x192.png'', ''assets/android-chrome-192x192.png'', ''image/png''),
      (''/assets/android-chrome-512x512.png'', ''assets/android-chrome-512x512.png'', ''image/png''),
      (''/assets/android-chrome-512x512-maskable.png'', ''assets/android-chrome-512x512-maskable.png'', ''image/png''),
      (''/assets/site.webmanifest'', ''assets/site.webmanifest'', ''application/manifest+json''),
      (''/assets/fonts/Monocraft.ttf'', ''assets/fonts/Monocraft.ttf'', ''font/ttf''),
      (''/assets/fonts/Minecraft-Bold.otf'', ''assets/fonts/Minecraft-Bold.otf'', ''font/otf''),
      (''/assets/fonts/OFL-1.1.txt'', ''assets/fonts/OFL-1.1.txt'', ''text/plain; charset=utf-8'')]"

definition serve_asset :: "(string \<Rightarrow> string option) \<Rightarrow> string \<Rightarrow> string \<Rightarrow> string \<Rightarrow> reply" where
  "serve_asset assets rmethod name content_type =
     (case assets name of None \<Rightarrow> AssetMissing | Some data \<Rightarrow> AssetReply content_type data (rmethod \<noteq> ''HEAD''))"

text \<open>What the file system answers to one request.\<close>

record request_world =
  rw_world :: refresh_world
  rw_event_stream :: stream_file
  rw_links :: "string \<Rightarrow> string option"
  rw_files :: "string \<Rightarrow> blob_file"
  rw_assets :: "string \<Rightarrow> string option"

definition serve_http :: "(string \<Rightarrow> event option) \<Rightarrow> request_world \<Rightarrow> request \<Rightarrow> viewer \<Rightarrow> viewer \<times> reply" where
  "serve_http decode w rq v =
     (if rq_method rq \<noteq> ''GET'' \<and> rq_method rq \<noteq> ''HEAD'' then (v, MethodNotAllowed)
      else case map_of asset_routes (rq_path rq) of
        Some (name, content_type) \<Rightarrow> (v, serve_asset (rw_assets w) (rq_method rq) name content_type)
      | None \<Rightarrow>
          (let refreshed = refresh decode (rw_world w) v in
           if rq_path rq = ''/api/session'' then after_refresh refreshed (\<lambda>v. SessionReply (session_of v))
           else if rq_path rq = ''/api/events'' then after_refresh refreshed (events_page (rq_query rq))
           else if has_prefix (rq_path rq) ''/api/events/''
           then after_refresh refreshed (event_page decode (rw_links w) (rw_files w) (rw_event_stream w) (rq_path rq))
           else (v, PageNotFound)))"

section \<open>Access\<close>

definition quoted :: "string \<Rightarrow> string" where
  "quoted s = CHR 0x27 # s @ [CHR 0x27]"

definition security_headers :: "(string \<times> string) list" where
  "security_headers =
     [(''Cache-Control'', ''no-store''),
      (''Content-Security-Policy'',
       join_with ''; ''
         [''default-src '' @ quoted ''self'', ''script-src '' @ quoted ''self'', ''style-src '' @ quoted ''self'',
          ''font-src '' @ quoted ''self'', ''img-src '' @ quoted ''self'' @ '' data:'', ''connect-src '' @ quoted ''self'',
          ''object-src '' @ quoted ''none'', ''base-uri '' @ quoted ''none'', ''frame-ancestors '' @ quoted ''none'']),
      (''Cross-Origin-Resource-Policy'', ''same-origin''),
      (''Referrer-Policy'', ''no-referrer''),
      (''X-Content-Type-Options'', ''nosniff''),
      (''X-Frame-Options'', ''DENY'')]"

definition new_access_token :: "bytes option \<Rightarrow> string option" where
  "new_access_token random = map_option hex_string random"

definition handler :: "(string \<Rightarrow> event option) \<Rightarrow> request_world \<Rightarrow> string \<Rightarrow> request \<Rightarrow> viewer \<Rightarrow>
    (string \<times> string) list \<times> viewer \<times> reply" where
  "handler decode w token rq v =
     (security_headers,
      if rq_path rq = CHR ''/'' # token then (v, Redirected (CHR ''/'' # token @ ''/''))
      else if token = [] \<or> \<not> has_prefix (rq_path rq) (CHR ''/'' # token @ ''/'') then (v, PageNotFound)
      else serve_http decode w (rq\<lparr>rq_path := trim_prefix (rq_path rq) (CHR ''/'' # token)\<rparr>) v)"

end
