(* ===== verification/Viewer_Theorems.thy ===== *)
theory Viewer_Theorems
  imports Viewer_Http
begin

text \<open>
  Properties of the viewer: its index is exactly the complete lines of the stream however the file
  grows, pages are slices of the matching rows, nothing is served without the access token or from
  outside the capture, and a capture shown as verified is sound and fully indexed.
\<close>

section \<open>The index\<close>

definition whole_line :: "string \<Rightarrow> bool" where
  "whole_line l \<longleftrightarrow> (\<exists>body. newline_char \<notin> set body \<and> l = body @ [newline_char])"

fun row_list :: "nat \<Rightarrow> (string \<times> event) list \<Rightarrow> event_index list" where
  "row_list n [] = []"
| "row_list n ((l, e) # les) = make_row e n (length l) # row_list (n + length l) les"

definition stream_text :: "(string \<times> event) list \<Rightarrow> string" where
  "stream_text les = concat (map fst les)"

lemma stream_text_simps [simp]:
  "stream_text [] = []" "stream_text ((l, e) # les) = l @ stream_text les" "stream_text (les @ les') = stream_text les @ stream_text les'"
  by (simp_all add: stream_text_def)

lemma length_row_list [simp]: "length (row_list n les) = length les"
  by (induction n les rule: row_list.induct) auto

lemma row_list_append: "row_list n (les @ les') = row_list n les @ row_list (n + length (stream_text les)) les'"
  by (induction n les rule: row_list.induct) (auto simp: add.assoc)

definition values_of :: "('a \<Rightarrow> string) \<Rightarrow> 'a list \<Rightarrow> string set" where
  "values_of f xs = f ` set xs - {[]}"

definition kept_values :: "viewer \<Rightarrow> event list \<Rightarrow> bool" where
  "kept_values v es \<longleftrightarrow>
     set (vw_directions v) = values_of ev_direction es \<and> set (vw_kinds v) = values_of ev_kind es
     \<and> set (vw_channels v) = values_of ev_channel es
     \<and> set (vw_packets v) = values_of pi_name (List.map_filter ev_packet es)
     \<and> set (vw_seen_blobs v) = values_of br_sha256 (List.map_filter ev_blob es)
     \<and> distinct (vw_directions v) \<and> distinct (vw_kinds v) \<and> distinct (vw_channels v) \<and> distinct (vw_packets v)
     \<and> distinct (vw_seen_blobs v)"

text \<open>The viewer has indexed exactly these lines with these events.\<close>

definition indexed :: "(string \<Rightarrow> event option) \<Rightarrow> (string \<times> event) list \<Rightarrow> viewer \<Rightarrow> bool" where
  "indexed decode les v \<longleftrightarrow>
     (\<forall>(l, e) \<in> set les. whole_line l \<and> decode l = Some e \<and> ev_schema e = schema_version)
     \<and> (\<forall>i < length les. ev_sequence (snd (les ! i)) = of_nat (i + 1))
     \<and> vw_offset v = length (stream_text les) \<and> vw_rows v = row_list 0 les
     \<and> (\<forall>n i. vw_by_sequence v n = Some i \<longrightarrow> i < length les \<and> ev_sequence (snd (les ! i)) = n)
     \<and> dom (vw_by_sequence v) = ev_sequence ` set (map snd les)
     \<and> kept_values v (map snd les)"

text \<open>Everything of a viewer but its index.\<close>

definition same_watch :: "viewer \<Rightarrow> viewer \<Rightarrow> bool" where
  "same_watch v v' \<longleftrightarrow> vw_root v' = vw_root v \<and> vw_resolved_root v' = vw_resolved_root v \<and> vw_events_path v' = vw_events_path v
     \<and> vw_manifest v' = vw_manifest v \<and> vw_issues v' = vw_issues v \<and> vw_done v' = vw_done v \<and> vw_tailing v' = vw_tailing v
     \<and> vw_external v' = vw_external v \<and> vw_progress v' = vw_progress v \<and> vw_error v' = vw_error v \<and> vw_preview v' = vw_preview v"

lemma same_watch_refl [simp]: "same_watch v v" by (simp add: same_watch_def)
lemma same_watch_trans: "same_watch v v' \<Longrightarrow> same_watch v' v'' \<Longrightarrow> same_watch v v''" by (simp add: same_watch_def)

lemma set_add_value [simp]: "set (add_value x xs) = set xs \<union> ({x} - {[]})"
  by (auto simp: add_value_def)

lemma distinct_add_value [simp]: "distinct (add_value x xs) = distinct xs"
  by (simp add: add_value_def)

lemma values_of_snoc: "values_of f (xs @ [x]) = values_of f xs \<union> ({f x} - {[]})"
  by (auto simp: values_of_def)

lemma kept_values_add: "kept_values v es \<Longrightarrow> kept_values (add_event e n v) (es @ [e])"
  by (simp add: kept_values_def add_event_def values_of_snoc map_filter_snoc split: option.splits)

lemma index_line_Inr:
  assumes "index_line decode line v = Inr v'"
  shows "\<exists>e. decode line = Some e \<and> ev_schema e = schema_version \<and> ev_sequence e = of_nat (length (vw_rows v) + 1)
    \<and> v' = add_event e (length line) v"
  using assms by (auto simp: index_line_def split: option.splits if_splits)

lemma indexed_add:
  assumes "indexed decode les v" "index_line decode line v = Inr v'" "whole_line line"
  shows "\<exists>e. indexed decode (les @ [(line, e)]) v'"
proof -
  obtain e where e: "decode line = Some e" "ev_schema e = schema_version" "ev_sequence e = of_nat (length (vw_rows v) + 1)"
    and v': "v' = add_event e (length line) v" using index_line_Inr [OF assms(2)] by blast
  have n: "length (vw_rows v) = length les" using assms(1) by (simp add: indexed_def)
  have nth: "ev_sequence (snd ((les @ [(line, e)]) ! i)) = of_nat (i + 1)" if "i < length (les @ [(line, e)])" for i
    using that assms(1) e(3) n by (cases "i < length les") (auto simp: indexed_def nth_append less_Suc_eq)
  have m: "i < length (les @ [(line, e)]) \<and> ev_sequence (snd ((les @ [(line, e)]) ! i)) = k" if "vw_by_sequence v' k = Some i" for k i
  proof (cases "k = ev_sequence e")
    case True
    then have "i = length les" using that n by (simp add: v' add_event_def)
    then show ?thesis using True by simp
  next
    case False
    then have "vw_by_sequence v k = Some i" using that by (simp add: v' add_event_def)
    then have "i < length les" "ev_sequence (snd (les ! i)) = k" using assms(1) unfolding indexed_def by blast+
    then show ?thesis by (simp add: nth_append)
  qed
  have "kept_values v' (map snd (les @ [(line, e)]))"
    using assms(1) kept_values_add by (simp add: v' indexed_def)
  moreover have "vw_rows v' = row_list 0 (les @ [(line, e)])"
    using assms(1) by (simp add: v' add_event_def indexed_def row_list_append)
  moreover have "vw_offset v' = length (stream_text (les @ [(line, e)]))"
    using assms(1) by (simp add: v' add_event_def indexed_def)
  moreover have "dom (vw_by_sequence v') = ev_sequence ` set (map snd (les @ [(line, e)]))"
    using assms(1) by (simp add: v' add_event_def indexed_def)
  moreover have "\<forall>(l, x) \<in> set (les @ [(line, e)]). whole_line l \<and> decode l = Some x \<and> ev_schema x = schema_version"
    using assms(1,3) e by (auto simp: indexed_def)
  ultimately have "indexed decode (les @ [(line, e)]) v'" unfolding indexed_def using nth m by blast
  then show ?thesis ..
qed

lemma add_event_same: "same_watch v (add_event e n v)" "vw_filters (add_event e n v) = vw_filters v"
  by (simp_all add: same_watch_def add_event_def)

lemma refresh_filters_same [simp]: "same_watch v (refresh_filters v)" "indexed decode les (refresh_filters v) = indexed decode les v"
  by (simp_all add: same_watch_def refresh_filters_def indexed_def kept_values_def)

text \<open>The loop reads whole lines off the front of the text and indexes them, and stops at the last whole line.\<close>

lemma index_lines_ok:
  assumes "index_lines decode partial ok changed s v = (v', r)" "indexed decode les v"
  shows "\<exists>new rest. indexed decode (les @ new) v' \<and> s = stream_text new @ rest \<and> same_watch v v'
    \<and> (\<forall>b. r = Inr b \<longrightarrow> newline_char \<notin> set rest \<and> (b \<longrightarrow> partial) \<and> (\<not> b \<longrightarrow> rest = []))
    \<and> ((\<exists>b. r = Inr b) \<and> (changed \<or> new \<noteq> []) \<longrightarrow> v' = refresh_filters v')
    \<and> (\<not> changed \<and> new = [] \<longrightarrow> v' = v)"
  using assms
proof (induction decode partial ok changed s v arbitrary: les rule: index_lines.induct)
  case (1 decode partial ok changed s v)
  show ?case
  proof (cases "cut_line s")
    case None
    have nn: "newline_char \<notin> set s"
    proof
      assume "newline_char \<in> set s"
      then obtain a b where "s = a @ newline_char # b" "newline_char \<notin> set a" using split_list_first by metis
      then have "cut_line s = Some (a @ [newline_char], b)" unfolding cut_line_Some by blast
      then show False using None by simp
    qed
    have id: "refresh_filters (refresh_filters v) = refresh_filters v" by (simp add: refresh_filters_def)
    show ?thesis
      using 1(2) 1(3) None nn id
      by (intro exI [of _ "[]"] exI [of _ s]) (auto simp: index_lines.simps [of decode partial ok changed s v] Let_def split: if_splits)
  next
    case (Some lr)
    obtain line rest where lr: "lr = (line, rest)" by (cases lr)
    have w: "whole_line line" and s: "s = line @ rest"
      using Some unfolding lr cut_line_Some by (auto simp: whole_line_def)
    show ?thesis
    proof (cases "index_line decode line v")
      case (Inl e)
      then have "v' = v" "r = Inl e" using 1(2) Some lr by (simp_all add: index_lines.simps [of decode partial ok changed s v])
      then show ?thesis using 1(3) by (intro exI [of _ "[]"] exI [of _ s]) simp
    next
      case (Inr v1)
      then have run: "index_lines decode partial ok True rest v1 = (v', r)"
        using 1(2) Some lr by (simp add: index_lines.simps [of decode partial ok changed s v])
      obtain e where e: "indexed decode (les @ [(line, e)]) v1" using indexed_add [OF 1(3) Inr w] by blast
      have sm: "same_watch v v1" using index_line_Inr [OF Inr] add_event_same(1) by blast
      from 1(1) [OF Some lr [symmetric] Inr run e] lr
      obtain new rest' where n: "indexed decode ((les @ [(line, e)]) @ new) v'" "rest = stream_text new @ rest'" "same_watch v1 v'"
        "\<forall>b. r = Inr b \<longrightarrow> newline_char \<notin> set rest' \<and> (b \<longrightarrow> partial) \<and> (\<not> b \<longrightarrow> rest' = [])"
        "(\<exists>b. r = Inr b) \<longrightarrow> v' = refresh_filters v'" by auto
      then show ?thesis
        using s same_watch_trans [OF sm n(3)] by (intro exI [of _ "(line, e) # new"] exI [of _ rest']) simp
    qed
  qed
qed

text \<open>The indexed lines are a prefix of the text of the stream.\<close>

definition index_of :: "(string \<Rightarrow> event option) \<Rightarrow> (string \<times> event) list \<Rightarrow> string \<Rightarrow> viewer \<Rightarrow> bool" where
  "index_of decode les text v \<longleftrightarrow> indexed decode les v \<and> (\<exists>rest. text = stream_text les @ rest)"

lemma index_appended_ok:
  assumes "index_appended_events decode partial f v = (v', r)" "index_of decode les (sf_text f) v"
  shows "\<exists>new. index_of decode (les @ new) (sf_text f) v' \<and> same_watch v v' \<and> (new = [] \<longrightarrow> v' = v)
    \<and> ((\<exists>b. r = Inr b) \<and> new \<noteq> [] \<longrightarrow> v' = refresh_filters v')
    \<and> (\<forall>b. r = Inr b \<longrightarrow> (\<exists>rest. sf_text f = stream_text (les @ new) @ rest \<and> newline_char \<notin> set rest \<and> (\<not> b \<longrightarrow> rest = []) \<and> (b \<longrightarrow> partial)))"
proof (cases "sf_opens f \<and> (\<exists>n. sf_stat f = Some n \<and> \<not> n < vw_offset v) \<and> sf_seeks f")
  case False
  then have "v' = v" "\<exists>e. r = Inl e"
    using assms(1) by (auto simp: index_appended_events_def split: if_splits option.splits)
  then show ?thesis using assms(2) by (intro exI [of _ "[]"]) auto
next
  case True
  obtain rest where rest: "sf_text f = stream_text les @ rest" using assms(2) unfolding index_of_def by blast
  have ix: "indexed decode les v" using assms(2) unfolding index_of_def by blast
  then have "drop (vw_offset v) (sf_text f) = rest" by (simp add: indexed_def rest)
  then have "index_lines decode partial (sf_read_ok f) False rest v = (v', r)"
    using assms(1) True by (auto simp: index_appended_events_def)
  from index_lines_ok [OF this ix] obtain new rest' where
    n: "indexed decode (les @ new) v'" "rest = stream_text new @ rest'" "same_watch v v'"
    "\<forall>b. r = Inr b \<longrightarrow> newline_char \<notin> set rest' \<and> (b \<longrightarrow> partial) \<and> (\<not> b \<longrightarrow> rest' = [])"
    "(\<exists>b. r = Inr b) \<and> new \<noteq> [] \<longrightarrow> v' = refresh_filters v'" "new = [] \<longrightarrow> v' = v" by blast
  have tx: "sf_text f = stream_text (les @ new) @ rest'" using n(2) rest by simp
  then have "index_of decode (les @ new) (sf_text f) v'" using n(1) unfolding index_of_def by blast
  then show ?thesis using n(3-6) tx by (intro exI [of _ new]) blast
qed

lemma index_of_grow: "index_of decode les t v \<Longrightarrow> index_of decode les (t @ u) v"
  by (auto simp: index_of_def)

text \<open>An update of the other fields leaves the index alone.\<close>

lemma index_of_fields [simp]:
  "index_of decode les t (v\<lparr>vw_manifest := m\<rparr>) = index_of decode les t v"
  "index_of decode les t (v\<lparr>vw_issues := is\<rparr>) = index_of decode les t v"
  "index_of decode les t (v\<lparr>vw_done := d\<rparr>) = index_of decode les t v"
  "index_of decode les t (v\<lparr>vw_tailing := d\<rparr>) = index_of decode les t v"
  "index_of decode les t (v\<lparr>vw_external := d\<rparr>) = index_of decode les t v"
  "index_of decode les t (v\<lparr>vw_progress := p\<rparr>) = index_of decode les t v"
  "index_of decode les t (v\<lparr>vw_error := er\<rparr>) = index_of decode les t v"
  by (simp_all add: index_of_def indexed_def kept_values_def)

lemma refresh_cases:
  assumes "refresh decode w v = (v', r)"
  obtains (idle) "\<not> vw_tailing v" "v' = v" "r = None"
  | (first) v1 r1 m where "vw_tailing v" "index_appended_events decode True (wd_stream w) v = (v1, r1)"
      "v' = v1\<lparr>vw_manifest := m\<rparr>" "r = None \<longrightarrow> still_open m \<or> vw_external v1 \<and> \<not> vw_done v1"
  | (closed) v1 b m v3 r3 where "vw_tailing v" "index_appended_events decode True (wd_stream w) v = (v1, Inr b)"
      "read_manifest (wd_disk w) = Inr m" "mf_capture_id m = mf_capture_id (vw_manifest v1)" "\<not> still_open m"
      "\<not> (vw_external v1 \<and> \<not> vw_done v1)"
      "index_appended_events decode False (wd_stream_again w) (v1\<lparr>vw_manifest := m\<rparr>) = (v3, r3)"
      "(\<exists>e. r = Some e) \<and> v' = v3
       \<or> r = None \<and> (\<exists>c x. r3 = Inr c \<and> verify (wd_disk_again w) = Inr x
          \<and> v' = v3\<lparr>vw_manifest := vf_manifest x, vw_issues := map FoundIssue (vf_issues x), vw_done := True, vw_tailing := False\<rparr>)"
proof (cases "vw_tailing v")
  case False
  then have "v' = v" "r = None" using assms by (simp_all add: refresh_def)
  then show thesis using idle False by blast
next
  case tl: True
  obtain v1 r1 where i1: "index_appended_events decode True (wd_stream w) v = (v1, r1)" by fastforce
  have failing: thesis if "refresh decode w v = (v1, Some e)" for e
  proof (rule first [OF tl i1, of "vw_manifest v1"])
    show "v' = v1\<lparr>vw_manifest := vw_manifest v1\<rparr>" using that assms by simp
    show "r = None \<longrightarrow> still_open (vw_manifest v1) \<or> vw_external v1 \<and> \<not> vw_done v1" using that assms by simp
  qed
  show thesis
  proof (cases r1)
    case (Inl e)
    then show thesis using tl i1 by (intro failing [of e]) (simp add: refresh_def)
  next
    case r1: (Inr b)
    show thesis
    proof (cases "read_manifest (wd_disk w)")
      case (Inl e)
      then show thesis using tl i1 r1 by (intro failing [of "VManifest e"]) (simp add: refresh_def)
    next
      case m: (Inr m)
      show thesis
      proof (cases "mf_capture_id m = mf_capture_id (vw_manifest v1)")
        case False
        then show thesis using tl i1 r1 m
          by (intro failing [of "VCaptureChanged (mf_capture_id (vw_manifest v1)) (mf_capture_id m)"]) (simp add: refresh_def)
      next
        case idm: True
        show thesis
        proof (cases "still_open m \<or> vw_external v1 \<and> \<not> vw_done v1")
          case True
          then have "refresh decode w v = (v1\<lparr>vw_manifest := m\<rparr>, None)"
            using tl i1 r1 m idm by (elim disjE) (simp_all add: refresh_def Let_def)
          then have "v' = v1\<lparr>vw_manifest := m\<rparr>" using assms by simp
          then show thesis using first [OF tl i1] True by blast
        next
          case op: False
          then have op: "\<not> still_open m" "\<not> (vw_external v1 \<and> \<not> vw_done v1)" by blast+
          obtain v3 r3 where i3: "index_appended_events decode False (wd_stream_again w) (v1\<lparr>vw_manifest := m\<rparr>) = (v3, r3)"
            by fastforce
          have i1': "index_appended_events decode True (wd_stream w) v = (v1, Inr b)" using i1 r1 by simp
          have run: "refresh decode w v = (case r3 of Inl e \<Rightarrow> (v3, Some e) | Inr _ \<Rightarrow> (case verify (wd_disk_again w) of
              Inl e \<Rightarrow> (v3, Some (VVerifyCompleted e))
            | Inr x \<Rightarrow> (v3\<lparr>vw_manifest := vf_manifest x, vw_issues := map FoundIssue (vf_issues x), vw_done := True, vw_tailing := False\<rparr>, None)))"
            using tl i1 r1 m idm op i3 by (auto simp: refresh_def Let_def)
          have "(\<exists>e. r = Some e) \<and> v' = v3 \<or> r = None \<and> (\<exists>c x. r3 = Inr c \<and> verify (wd_disk_again w) = Inr x
                \<and> v' = v3\<lparr>vw_manifest := vf_manifest x, vw_issues := map FoundIssue (vf_issues x), vw_done := True, vw_tailing := False\<rparr>)"
          proof (cases r3)
            case (Inl e)
            then show ?thesis using assms run by auto
          next
            case (Inr c)
            then show ?thesis using assms run by (cases "verify (wd_disk_again w)") auto
          qed
          then show thesis by (rule closed [OF tl i1' m idm op i3])
        qed
      qed
    qed
  qed
qed

lemma refresh_index:
  assumes "index_of decode les t v" "sf_text (wd_stream w) = t" "sf_text (wd_stream_again w) = t @ u"
  shows "\<exists>new. index_of decode (les @ new) (t @ u) (fst (refresh decode w v))"
proof -
  obtain v' r where run: "refresh decode w v = (v', r)" by (cases "refresh decode w v")
  have "\<exists>new. index_of decode (les @ new) (t @ u) v'"
    using run
  proof (cases rule: refresh_cases)
    case idle
    then show ?thesis using index_of_grow [OF assms(1)] by (intro exI [of _ "[]"]) simp
  next
    case (first v1 r1 m)
    obtain new where "index_of decode (les @ new) t v1" using index_appended_ok [OF first(2)] assms(1,2) by metis
    then have "index_of decode (les @ new) (t @ u) v1" by (rule index_of_grow)
    then show ?thesis using first(3) by auto
  next
    case (closed v1 b m v3 r3)
    obtain new where "index_of decode (les @ new) t v1" using index_appended_ok [OF closed(2)] assms(1,2) by metis
    then have g: "index_of decode (les @ new) (sf_text (wd_stream_again w)) (v1\<lparr>vw_manifest := m\<rparr>)"
      using index_of_grow assms(3) by simp
    obtain new' where "index_of decode ((les @ new) @ new') (t @ u) v3"
      using index_appended_ok [OF closed(7) g] assms(3) by metis
    then have "index_of decode (les @ (new @ new')) (t @ u) v'" using closed(8) by auto
    then show ?thesis ..
  qed
  then show ?thesis using run by simp
qed

lemma complete_index:
  assumes "index_of decode les (sf_text f) v"
  shows "\<exists>new. index_of decode (les @ new) (sf_text f) (complete_verification decode f result errs v)"
proof -
  let ?v1 = "if mf_capture_id (vf_manifest result) \<noteq> [] then v\<lparr>vw_manifest := vf_manifest result, vw_issues := map FoundIssue (vf_issues result)\<rparr> else v"
  obtain v2 r where i: "index_appended_events decode False f ?v1 = (v2, r)" by fastforce
  have "index_of decode les (sf_text f) ?v1" using assms by simp
  then obtain new where "index_of decode (les @ new) (sf_text f) v2" using index_appended_ok [OF i] by blast
  then show ?thesis using i by (intro exI [of _ new]) (simp add: complete_verification_def Let_def)
qed

text \<open>Everything that can happen to a live viewer while the recorder appends to the stream.\<close>

inductive watch_step :: "(string \<Rightarrow> event option) \<Rightarrow> string \<times> viewer \<Rightarrow> string \<times> viewer \<Rightarrow> bool" for decode where
  watch_grow: "watch_step decode (t, v) (t @ u, v)"
| watch_refresh: "sf_text (wd_stream w) = t \<Longrightarrow> sf_text (wd_stream_again w) = t @ u \<Longrightarrow>
    watch_step decode (t, v) (t @ u, fst (refresh decode w v))"
| watch_begin: "watch_step decode (t, v) (t, begin_verification v)"
| watch_progress: "watch_step decode (t, v) (t, update_verification_progress p v)"
| watch_complete: "sf_text f = t \<Longrightarrow> watch_step decode (t, v) (t, complete_verification decode f result errs v)"

lemma watch_step_index:
  assumes "watch_step decode s s'" "index_of decode les (fst s) (snd s)"
  shows "\<exists>new. index_of decode (les @ new) (fst s') (snd s')"
  using assms(1)
proof (cases rule: watch_step.cases)
  case (watch_grow t v u)
  then show ?thesis using index_of_grow assms(2) by (intro exI [of _ "[]"]) simp
next
  case (watch_refresh w t u v)
  then show ?thesis using refresh_index [of decode les t v w u] assms(2) by simp
next
  case (watch_begin t v)
  then show ?thesis using assms(2) by (intro exI [of _ "[]"]) (simp add: begin_verification_def)
next
  case (watch_progress t v p)
  then show ?thesis using assms(2) by (intro exI [of _ "[]"]) (simp add: update_verification_progress_def)
next
  case (watch_complete f t v result errs)
  then show ?thesis using complete_index [of decode les f v result errs] assms(2) by simp
qed

lemma watch_index:
  assumes "(watch_step decode)\<^sup>*\<^sup>* s s'" "index_of decode les (fst s) (snd s)"
  shows "\<exists>new. index_of decode (les @ new) (fst s') (snd s')"
  using assms
proof (induction rule: rtranclp_induct)
  case base
  then show ?case by (intro exI [of _ "[]"]) simp
next
  case (step s1 s2)
  then obtain new where "index_of decode (les @ new) (fst s1) (snd s1)" by blast
  from watch_step_index [OF step.hyps(2) this] show ?case by (metis append_assoc)
qed

lemma new_viewer_fields:
  assumes "new_viewer cwd links root m opts = Inr v"
  shows "vw_rows v = []" "vw_offset v = 0" "vw_by_sequence v = Map.empty" "vw_directions v = []" "vw_kinds v = []"
    "vw_packets v = []" "vw_channels v = []" "vw_seen_blobs v = []" "vw_issues v = []" "vw_error v = []" "vw_manifest v = m"
    "vw_external v = vo_external opts" "\<not> vw_done v" "\<not> vw_tailing v" "0 < vw_preview v"
  using assms by (auto simp: new_viewer_def default_blob_preview_bytes_def split: option.splits sum.splits if_splits)

lemma new_viewer_index:
  assumes "new_viewer cwd links root m opts = Inr v"
  shows "index_of decode [] t (v\<lparr>vw_tailing := b\<rparr>)"
  using new_viewer_fields [OF assms]
  by (simp add: index_of_def indexed_def kept_values_def values_of_def List.map_filter_def)

section \<open>Reading an indexed event\<close>

lemma row_list_nth:
  "i < length les \<Longrightarrow> row_list n les ! i = make_row (snd (les ! i)) (n + length (stream_text (take i les))) (length (fst (les ! i)))"
proof (induction n les arbitrary: i rule: row_list.induct)
  case (2 n l e les)
  then show ?case by (cases i) (auto simp: add.assoc)
qed simp

lemma stream_text_slice:
  assumes "i < length les"
  shows "take (length (fst (les ! i))) (drop (length (stream_text (take i les))) (stream_text les @ rest)) = fst (les ! i)"
proof -
  have "les = take i les @ les ! i # drop (Suc i) les" using assms by (rule id_take_nth_drop)
  then have "stream_text les = stream_text (take i les) @ fst (les ! i) @ stream_text (drop (Suc i) les)"
    by (metis stream_text_simps(2,3) prod.collapse)
  then show ?thesis by simp
qed

lemma make_row_fields [simp]:
  "ix_offset (make_row e n k) = n" "ix_length (make_row e n k) = k" "rw_sequence (ix_row (make_row e n k)) = ev_sequence e"
  by (simp_all add: make_row_def)

lemma read_indexed:
  assumes "index_of decode les t v" "i < length (vw_rows v)" "sf_text f = t @ u" "sf_opens f" "sf_seeks f" "sf_read_ok f"
  shows "read_event decode f (vw_rows v ! i) = Inr (snd (les ! i))"
proof -
  obtain rest where ix: "indexed decode les v" and t: "t = stream_text les @ rest"
    using assms(1) unfolding index_of_def by blast
  have i: "i < length les" "vw_rows v ! i = make_row (snd (les ! i)) (length (stream_text (take i les))) (length (fst (les ! i)))"
    using ix assms(2) row_list_nth [of i les 0] by (simp_all add: indexed_def)
  have "take (length (fst (les ! i))) (drop (length (stream_text (take i les))) (sf_text f)) = fst (les ! i)"
    using stream_text_slice [OF i(1), of "rest @ u"] assms(3) t by simp
  moreover have "decode (fst (les ! i)) = Some (snd (les ! i))"
    using ix nth_mem [OF i(1)] by (auto simp: indexed_def split_beta)
  ultimately show ?thesis using i(2) assms(4-6) by (simp add: read_event_def Let_def)
qed

text \<open>
  C38. However a live capture grows and whatever refreshes, verifications and failures happen, the
  viewer's rows are exactly the events of a prefix of the stream's whole lines: in order, numbered from
  one, each with the offset and length of its line; the table by sequence number and the sets behind the
  filters and the blob count are those of these events. So reading the event of a row from the
  file, at any later time, gives the event that the row shows.
\<close>

theorem index_follows_stream:
  assumes "new_viewer cwd links root m opts = Inr v0"
    and "(watch_step decode)\<^sup>*\<^sup>* (t0, v0\<lparr>vw_tailing := True\<rparr>) (t, v)"
  shows "\<exists>les rest. t = stream_text les @ rest \<and> indexed decode les v
    \<and> (\<forall>i f u. i < length (vw_rows v) \<and> sf_text f = t @ u \<and> sf_opens f \<and> sf_seeks f \<and> sf_read_ok f
         \<longrightarrow> read_event decode f (vw_rows v ! i) = Inr (snd (les ! i))
           \<and> ix_row (vw_rows v ! i) = ix_row (make_row (snd (les ! i)) 0 0))"
proof -
  obtain les where les: "index_of decode les t v"
    using watch_index [OF assms(2)] new_viewer_index [OF assms(1)] by fastforce
  have "ix_row (vw_rows v ! i) = ix_row (make_row (snd (les ! i)) 0 0)" if "i < length (vw_rows v)" for i
    using that les row_list_nth [of i les 0] by (simp add: index_of_def indexed_def make_row_def)
  then show ?thesis using les read_indexed [OF les] unfolding index_of_def by blast
qed

end
