(* ===== verification/Viewer_Access.thy ===== *)
theory Viewer_Access
  imports Viewer_Theorems
begin

text \<open>
  The handlers of the viewer: pages are slices of the matching rows, nothing leaves the viewer without
  the access token or from outside the capture directory, and what "verified" means to a reader of the
  session.
\<close>

section \<open>Pages\<close>

definition matching_rows :: "(string \<Rightarrow> string) \<Rightarrow> event_index list \<Rightarrow> row list" where
  "matching_rows query ixs = map ix_row (filter (\<lambda>ix. \<not> row_skipped query ix) ixs)"

lemma collect_pages:
  "foldl (collect_row False offset limit query) ([], 0) ixs
     = (take limit (drop offset (matching_rows query ixs)), length (matching_rows query ixs))"
proof (induction ixs rule: rev_induct)
  case (snoc ix ixs)
  then show ?case by (auto simp: collect_row_def matching_rows_def not_le min_def not_less Suc_diff_le)
qed (simp add: matching_rows_def)

lemma collect_tail:
  assumes "0 < limit"
  shows "foldl (collect_row True offset limit query) ([], 0) ixs
     = (drop (length (matching_rows query ixs) - limit) (matching_rows query ixs), length (matching_rows query ixs))"
proof (induction ixs rule: rev_induct)
  case (snoc ix ixs)
  let ?ms = "matching_rows query ixs"
  show ?case
  proof (cases "row_skipped query ix")
    case True
    then show ?thesis using snoc by (simp add: collect_row_def matching_rows_def)
  next
    case False
    have n: "matching_rows query (ixs @ [ix]) = ?ms @ [ix_row ix]" using False by (simp add: matching_rows_def)
    have l: "length (drop (length ?ms - limit) ?ms) = limit \<longleftrightarrow> limit \<le> length ?ms" by auto
    have t: "tl (drop (length ?ms - limit) ?ms) = drop (Suc (length ?ms) - limit) ?ms" if "limit \<le> length ?ms"
      using that by (simp add: tl_drop drop_Suc [symmetric] Suc_diff_le)
    show ?thesis using snoc False assms l t by (simp add: collect_row_def n not_le)
  qed
qed (simp add: matching_rows_def)

lemma query_integer_bounds:
  assumes "query_integer query name fallback lo hi = Inr n" "lo \<le> fallback" "fallback \<le> hi"
  shows "lo \<le> n" "n \<le> hi"
  using assms by (auto simp: query_integer_def split: if_splits option.splits)

text \<open>
  A page of events holds exactly the rows that match the query, in order: without \<^verbatim>\<open>tail\<close> the slice
  at the offset of at most the limit, so that pages at successive multiples of the limit show every
  matching row once; with \<^verbatim>\<open>tail\<close> the last ones. The limit is between 1 and 500, and the total is the
  number of matching rows.
\<close>

theorem pages_are_slices:
  assumes "query_integer query ''offset'' 0 0 (int (length (vw_rows v))) = Inr offset"
    and "query_integer query ''limit'' 100 1 max_page_size = Inr limit"
  shows "\<exists>page. events_page query v = EventsReply page \<and> 1 \<le> limit \<and> limit \<le> 500
    \<and> er_limit page = limit \<and> er_total page = int (length (matching_rows query (vw_rows v)))
    \<and> int (length (er_rows page)) \<le> limit
    \<and> er_rows page = (if query ''tail'' = ''true''
         then drop (length (matching_rows query (vw_rows v)) - nat limit) (matching_rows query (vw_rows v))
         else take (nat limit) (drop (nat offset) (matching_rows query (vw_rows v))))
    \<and> er_rows page = take (length (er_rows page)) (drop (nat (er_offset page)) (matching_rows query (vw_rows v)))
    \<and> concat (map (\<lambda>k. take (nat limit) (drop (k * nat limit) (matching_rows query (vw_rows v))))
         [0..<length (matching_rows query (vw_rows v)) div nat limit + 1]) = matching_rows query (vw_rows v)"
proof -
  let ?ms = "matching_rows query (vw_rows v)"
  have b: "1 \<le> limit" "limit \<le> 500" "0 \<le> offset"
    using query_integer_bounds [OF assms(2)] query_integer_bounds [OF assms(1)] by (simp_all add: max_page_size_def)
  have tiles: "concat (map (\<lambda>k. take n (drop (k * n) xs)) [0..<m]) = take (m * n) xs" for n m and xs :: "row list"
  proof (induction m)
    case (Suc m)
    then show ?case using take_add [of "m * n" n xs] by (simp add: add.commute [of n])
  qed simp
  have "length ?ms \<le> (length ?ms div nat limit + 1) * nat limit"
    using b(1) dividend_less_div_times [of "nat limit" "length ?ms"] by simp
  then have t: "concat (map (\<lambda>k. take (nat limit) (drop (k * nat limit) ?ms)) [0..<length ?ms div nat limit + 1]) = ?ms"
    unfolding tiles by simp
  have l: "int (length (take (nat limit) ys)) \<le> limit" for ys :: "row list"
    using b(1) by (simp add: min_def le_nat_iff)
  have self: "take n ys = take (min (length ys) n) ys" for n and ys :: "row list" by (simp add: min_def)
  show ?thesis
  proof (cases "query ''tail'' = ''true''")
    case True
    let ?page = "\<lparr>er_offset = max 0 (int (length ?ms) - int (length (drop (length ?ms - nat limit) ?ms))), er_limit = limit,
      er_total = int (length ?ms), er_rows = drop (length ?ms - nat limit) ?ms\<rparr>"
    have "events_page query v = EventsReply ?page"
      using assms True collect_tail [of "nat limit" "nat offset" query "vw_rows v"] b(1) by (simp add: events_page_def Let_def)
    moreover have "nat (er_offset ?page) = length ?ms - nat limit" by simp
    ultimately show ?thesis using b True t by (intro exI [of _ ?page]) (simp del: nat_diff_distrib')
  next
    case False
    let ?page = "\<lparr>er_offset = offset, er_limit = limit, er_total = int (length ?ms), er_rows = take (nat limit) (drop (nat offset) ?ms)\<rparr>"
    have "events_page query v = EventsReply ?page"
      using assms False collect_pages [of "nat offset" "nat limit" query "vw_rows v"] by (simp add: events_page_def Let_def)
    then show ?thesis using b False t l [of "drop (nat offset) ?ms"] self [of "nat limit" "drop (nat offset) ?ms"]
      by (intro exI [of _ ?page]) simp
  qed
qed

section \<open>Access\<close>

lemma index_lines_same: "same_watch v (fst (index_lines decode partial ok changed s v))"
proof (induction decode partial ok changed s v rule: index_lines.induct)
  case (1 decode partial ok changed s v)
  show ?case
  proof (cases "cut_line s")
    case None
    then show ?thesis by (simp add: index_lines.simps [of decode partial ok changed s v] Let_def)
  next
    case (Some lr)
    obtain line rest where lr: "lr = (line, rest)" by (cases lr)
    show ?thesis
    proof (cases "index_line decode line v")
      case (Inr v1)
      have "same_watch v v1" using index_line_Inr [OF Inr] add_event_same(1) by blast
      then show ?thesis
        using 1 [OF Some lr [symmetric] Inr] Some lr Inr same_watch_trans
        by (simp add: index_lines.simps [of decode partial ok changed s v])
    qed (use Some lr in \<open>simp add: index_lines.simps [of decode partial ok changed s v]\<close>)
  qed
qed

lemma index_appended_same:
  "index_appended_events decode partial f v = (v', r) \<Longrightarrow> same_watch v v'"
  using index_lines_same [of v decode partial "sf_read_ok f" False "drop (vw_offset v) (sf_text f)"]
  by (auto simp: index_appended_events_def split: if_splits option.splits)

lemma refresh_keeps:
  assumes "refresh decode w v = (v', r)"
  shows "vw_root v' = vw_root v \<and> vw_resolved_root v' = vw_resolved_root v \<and> vw_preview v' = vw_preview v \<and> vw_error v' = vw_error v"
  using assms
proof (cases rule: refresh_cases)
  case (first v1 r1 m)
  then show ?thesis using index_appended_same [OF first(2)] by (simp add: same_watch_def)
next
  case (closed v1 b m v3 r3)
  have "vw_root v3 = vw_root v \<and> vw_resolved_root v3 = vw_resolved_root v \<and> vw_preview v3 = vw_preview v \<and> vw_error v3 = vw_error v"
    using index_appended_same [OF closed(2)] index_appended_same [OF closed(7)] by (simp add: same_watch_def)
  then show ?thesis using closed(8) by auto
qed simp

text \<open>A path as \<^verbatim>\<open>filepath.EvalSymlinks\<close> returns it.\<close>

definition clean_absolute :: "string \<Rightarrow> bool" where
  "clean_absolute q \<longleftrightarrow> (\<exists>u. has_prefix u ''/'' \<and> q = clean_path u)"

lemma resolve_inside:
  assumes "resolve_capture_file links root resolved rel = Inr path"
    and "\<And>p q. links p = Some q \<Longrightarrow> clean_absolute q"
    and "clean_absolute resolved"
  shows "prefix (path_elems resolved) (path_elems path)"
proof -
  have l: "links (join_path root (clean_path rel)) = Some path"
    and r: "rel_path resolved path \<noteq> ''..'' \<and> \<not> has_prefix (rel_path resolved path) ''../''"
    using assms(1) by (auto simp: resolve_capture_file_def Let_def split: if_splits option.splits)
  obtain u where u: "has_prefix u ''/''" "path = clean_path u" using assms(2) [OF l] unfolding clean_absolute_def by blast
  obtain u' where u': "has_prefix u' ''/''" "resolved = clean_path u'" using assms(3) unfolding clean_absolute_def by blast
  show ?thesis using r rel_path_inside [OF u'(1) u(1)] by (simp add: u(2) u'(2))
qed

lemma preview_inside:
  assumes "event_page decode links files f path v = EventReply r" "en_preview r = Some data"
    and "\<And>p q. links p = Some q \<Longrightarrow> clean_absolute q"
    and "clean_absolute (vw_resolved_root v)"
  shows "\<exists>p content. files p = BlobContent content \<and> data = take (vw_preview v) content
    \<and> prefix (path_elems (vw_resolved_root v)) (path_elems p)"
proof -
  obtain ref tr where b: "read_blob_preview links files v ref = Inr (data, tr)"
    using assms(1,2) by (auto simp: event_page_def Let_def split: if_splits option.splits sum.splits)
  then obtain p content where p: "resolve_capture_file links (vw_root v) (vw_resolved_root v) (br_path ref) = Inr p"
    "files p = BlobContent content" "data = take (vw_preview v) content"
    by (auto simp: read_blob_preview_def Let_def split: sum.splits blob_file.splits)
  have "prefix (path_elems (vw_resolved_root v)) (path_elems p)"
    by (rule resolve_inside [OF p(1)]) (fact assms(3), fact assms(4))
  then show ?thesis using p by blast
qed

lemma events_page_reply: "events_page q v \<noteq> EventReply r"
  by (auto simp: events_page_def Let_def split: sum.splits prod.splits)

lemma serve_http_event:
  assumes "serve_http decode w rq v = (v', EventReply r)"
  shows "event_page decode (rw_links w) (rw_files w) (rw_event_stream w) (rq_path rq) v' = EventReply r
    \<and> refresh decode (rw_world w) v = (v', None)"
proof -
  obtain v1 e where rf: "refresh decode (rw_world w) v = (v1, e)" by fastforce
  show ?thesis
    using assms rf events_page_reply
    by (auto simp: serve_http_def Let_def after_refresh_def serve_asset_def split: if_splits option.splits)
qed

text \<open>
  C40. Whatever is requested, every reply carries the security headers; without the access token the
  request reaches nothing, neither a handler nor the capture: the viewer does not change and the answer is
  not found, or a redirect for the token without its slash. Methods other than GET and HEAD do
  nothing either. A blob preview is at most the configured number of bytes at the start of a file
  whose resolved path lies in the resolved capture directory. Link resolution is assumed to give
  absolute clean paths, as \<^verbatim>\<open>filepath.EvalSymlinks\<close> does.
\<close>

theorem access_is_guarded:
  assumes "handler decode w token rq v = (hs, v', rep)"
    and "\<And>p q. rw_links w p = Some q \<Longrightarrow> clean_absolute q"
    and "clean_absolute (vw_resolved_root v)"
  shows "hs = security_headers
    \<and> (token = [] \<or> \<not> has_prefix (rq_path rq) (CHR ''/'' # token @ ''/'') \<longrightarrow>
         v' = v \<and> (rep = PageNotFound \<or> rq_path rq = CHR ''/'' # token \<and> rep = Redirected (CHR ''/'' # token @ ''/'')))
    \<and> (rq_method rq \<notin> {''GET'', ''HEAD''} \<longrightarrow>
         v' = v \<and> (rep = PageNotFound \<or> rep = MethodNotAllowed \<or> rep = Redirected (CHR ''/'' # token @ ''/'')))
    \<and> (\<forall>r data. rep = EventReply r \<and> en_preview r = Some data \<longrightarrow>
         (\<exists>p content. rw_files w p = BlobContent content \<and> data = take (vw_preview v) content
           \<and> prefix (path_elems (vw_resolved_root v)) (path_elems p)))"
proof -
  have h: "hs = security_headers" and out: "(v', rep) =
      (if rq_path rq = CHR ''/'' # token then (v, Redirected (CHR ''/'' # token @ ''/''))
      else if token = [] \<or> \<not> has_prefix (rq_path rq) (CHR ''/'' # token @ ''/'') then (v, PageNotFound)
      else serve_http decode w (rq\<lparr>rq_path := trim_prefix (rq_path rq) (CHR ''/'' # token)\<rparr>) v)"
    using assms(1) by (auto simp: handler_def)
  have "\<exists>p content. rw_files w p = BlobContent content \<and> data = take (vw_preview v) content
      \<and> prefix (path_elems (vw_resolved_root v)) (path_elems p)" if rp: "rep = EventReply r" "en_preview r = Some data" for r data
  proof -
    obtain rq' where s: "serve_http decode w rq' v = (v', EventReply r)"
      using out rp(1) by (auto split: if_splits)
    note e = serve_http_event [OF s]
    note k = refresh_keeps [OF conjunct2 [OF e]]
    have root: "clean_absolute (vw_resolved_root v')" using assms(3) k by simp
    show ?thesis using preview_inside [OF conjunct1 [OF e] rp(2) assms(2) root] k by simp
  qed
  moreover have "token = [] \<or> \<not> has_prefix (rq_path rq) (CHR ''/'' # token @ ''/'') \<longrightarrow>
         v' = v \<and> (rep = PageNotFound \<or> rq_path rq = CHR ''/'' # token \<and> rep = Redirected (CHR ''/'' # token @ ''/''))"
    using out by (auto split: if_splits)
  moreover have "v' = v \<and> (rep = PageNotFound \<or> rep = MethodNotAllowed \<or> rep = Redirected (CHR ''/'' # token @ ''/''))"
    if "rq_method rq \<notin> {''GET'', ''HEAD''}"
    using out that by (auto simp: serve_http_def split: if_splits)
  ultimately show ?thesis using h by blast
qed

section \<open>Verified captures\<close>

text \<open>The text of the stream file and the lines that the verifier reads are the same file.\<close>

definition line_event :: "(string \<Rightarrow> event option) \<Rightarrow> string \<Rightarrow> line" where
  "line_event decode l = (case decode l of Some e \<Rightarrow> EventLine e | None \<Rightarrow> BadLine)"

definition same_stream :: "(string \<Rightarrow> event option) \<Rightarrow> string \<Rightarrow> disk \<Rightarrow> bool" where
  "same_stream decode t d \<longleftrightarrow> (\<exists>ls rest. t = concat ls @ rest \<and> list_all whole_line ls \<and> newline_char \<notin> set rest
     \<and> dk_lines d = map (line_event decode) ls \<and> (dk_torn d \<longleftrightarrow> rest \<noteq> []))"

lemma whole_lines_unique:
  assumes "list_all whole_line ls" "list_all whole_line ls'" "concat ls @ rest = concat ls' @ rest'"
    and "newline_char \<notin> set rest" "newline_char \<notin> set rest'"
  shows "ls = ls' \<and> rest = rest'"
  using assms
proof (induction ls arbitrary: ls')
  case Nil
  then show ?case by (cases ls') (auto simp: whole_line_def)
next
  case (Cons l ls)
  then obtain l' ls2 where ls': "ls' = l' # ls2" by (cases ls') (auto simp: whole_line_def)
  obtain a where a: "newline_char \<notin> set a" "l = a @ [newline_char]" using Cons.prems(1) by (auto simp: whole_line_def)
  obtain a' where a': "newline_char \<notin> set a'" "l' = a' @ [newline_char]" using Cons.prems(2) ls' by (auto simp: whole_line_def)
  have "cut_line (concat (l # ls) @ rest) = Some (l, concat ls @ rest)"
    using a unfolding cut_line_Some by auto
  moreover have "cut_line (concat (l # ls) @ rest) = Some (l', concat ls2 @ rest')"
    unfolding Cons.prems(3) using a' ls' unfolding cut_line_Some by auto
  ultimately have "l = l'" "concat ls @ rest = concat ls2 @ rest'" by simp_all
  then show ?case using Cons.IH [of ls2] Cons.prems(1,2,4,5) ls' by simp
qed

lemma set_map_filter_Some: "set (List.map_filter f xs) = {y. \<exists>x \<in> set xs. f x = Some y}"
  by (induction xs) (auto simp: map_filter_simps split: option.splits)

lemma seen_digests:
  assumes "capture_sound d m es" "kept_values v es"
  shows "set (vw_seen_blobs v) = br_sha256 ` event_refs es"
proof -
  have refs: "set (List.map_filter ev_blob es) = event_refs es"
    by (simp add: set_map_filter_Some event_refs_def)
  have "br_sha256 r \<noteq> []" if ref: "r \<in> event_refs es" for r
  proof -
    obtain content where "br_sha256 r = hex_digest content"
      using ref assms(1) by (auto simp: capture_sound_def blob_sound_def)
    then show ?thesis using length_hex_digest [of content] by (metis list.size(3) zero_neq_numeral)
  qed
  then show ?thesis using assms(2) by (auto simp: kept_values_def values_of_def refs)
qed

lemma whole_lines_prefix:
  assumes "list_all whole_line ks" "list_all whole_line ls" "concat ks @ r = concat ls"
  shows "\<exists>ls'. ls = ks @ ls' \<and> r = concat ls'"
  using assms
proof (induction ks arbitrary: ls)
  case (Cons k ks)
  then obtain l ls2 where ls: "ls = l # ls2" by (cases ls) (auto simp: whole_line_def)
  obtain a where a: "newline_char \<notin> set a" "k = a @ [newline_char]" using Cons.prems(1) by (auto simp: whole_line_def)
  obtain c where c: "newline_char \<notin> set c" "l = c @ [newline_char]" using Cons.prems(2) ls by (auto simp: whole_line_def)
  have "cut_line (concat (k # ks) @ r) = Some (k, concat ks @ r)"
    using a unfolding cut_line_Some by auto
  moreover have "cut_line (concat (k # ks) @ r) = Some (l, concat ls2)"
    unfolding Cons.prems(3) using c ls unfolding cut_line_Some by auto
  ultimately have "k = l" "concat ks @ r = concat ls2" by simp_all
  then show ?case using Cons.IH [of ls2] Cons.prems(1,2) ls by simp
qed simp

text \<open>The lines of a capture in order are all indexed.\<close>

lemma index_lines_total:
  assumes "list_all whole_line ls" "map (line_event decode) ls = map EventLine es"
    and "in_order (mf_capture_id (vw_manifest v)) (length (vw_rows v)) es"
  shows "\<exists>v'. index_lines decode partial True changed (concat ls) v = (v', Inr False)"
  using assms
proof (induction ls arbitrary: es v changed)
  case Nil
  have "cut_line [] = None" by (simp add: cut_line_def)
  then show ?case by (simp add: index_lines.simps [of _ _ _ _ "[]"])
next
  case (Cons l ls)
  obtain e es' where es: "es = e # es'" "line_event decode l = EventLine e" "map (line_event decode) ls = map EventLine es'"
    using Cons.prems(2) by auto
  have d: "decode l = Some e" using es(2) by (simp add: line_event_def split: option.splits)
  obtain a where "newline_char \<notin> set a" "l = a @ [newline_char]" using Cons.prems(1) by (auto simp: whole_line_def)
  then have c: "cut_line (l @ concat ls) = Some (l, concat ls)" unfolding cut_line_Some by auto
  have i: "index_line decode l v = Inr (add_event e (length l) v)"
    using Cons.prems(3) d es(1) by (simp add: index_line_def)
  have "in_order (mf_capture_id (vw_manifest (add_event e (length l) v))) (length (vw_rows (add_event e (length l) v))) es'"
    using Cons.prems(3) es(1) by (simp add: add_event_def)
  then obtain v' where "index_lines decode partial True True (concat ls) (add_event e (length l) v) = (v', Inr False)"
    using Cons.IH [OF _ es(3)] Cons.prems(1) by auto
  then show ?case using c i by (simp add: index_lines.simps [of _ _ _ _ "l @ concat ls"])
qed

definition stream_readable :: "stream_file \<Rightarrow> bool" where
  "stream_readable f \<longleftrightarrow> sf_opens f \<and> sf_stat f = Some (length (sf_text f)) \<and> sf_seeks f \<and> sf_read_ok f"

lemma index_sound_capture:
  assumes "index_of decode les (sf_text f) v" "same_stream decode (sf_text f) d" "capture_sound d (vw_manifest v) es" "stream_readable f"
  shows "\<exists>v'. index_appended_events decode False f v = (v', Inr False)"
proof -
  obtain ls rest where ls: "sf_text f = concat ls @ rest" "list_all whole_line ls" "dk_lines d = map (line_event decode) ls"
    "dk_torn d \<longleftrightarrow> rest \<noteq> []" using assms(2) unfolding same_stream_def by blast
  have rest: "rest = []" and ev: "map (line_event decode) ls = map EventLine es" and io: "in_order (mf_capture_id (vw_manifest v)) 0 es"
    using ls(3,4) assms(3) by (simp_all add: capture_sound_def)
  obtain r where r: "sf_text f = concat (map fst les) @ r" and ix: "indexed decode les v"
    using assms(1) by (auto simp: index_of_def stream_text_def)
  have "list_all whole_line (map fst les)" using ix by (auto simp: indexed_def list_all_iff)
  then obtain ls' where ls': "ls = map fst les @ ls'" "r = concat ls'" using whole_lines_prefix [of "map fst les" ls r] ls(1,2) r rest by auto
  let ?n = "length les"
  have "map (line_event decode) ls' = drop ?n (map (line_event decode) ls)" using ls'(1) by simp
  then have e': "map (line_event decode) ls' = map EventLine (drop ?n es)" using ev by (simp add: drop_map)
  have "length es = ?n + length ls'" using ev ls'(1) by (metis length_append length_map)
  then have "in_order (mf_capture_id (vw_manifest v)) ?n (drop ?n es)"
    using io in_order_append [of _ 0 "take ?n es" "drop ?n es"] by simp
  moreover have "length (vw_rows v) = ?n" using ix by (simp add: indexed_def)
  ultimately have io': "in_order (mf_capture_id (vw_manifest v)) (length (vw_rows v)) (drop ?n es)" by (simp only:)
  have "list_all whole_line ls'" using ls(2) ls'(1) by simp
  from index_lines_total [OF this e' io'] obtain v' where "index_lines decode False True False r v = (v', Inr False)"
    unfolding ls'(2) by blast
  moreover have "vw_offset v = length (concat (map fst les))" using ix by (simp add: indexed_def stream_text_def)
  ultimately show ?thesis using assms(4) r by (simp add: index_appended_events_def stream_readable_def)
qed

lemma index_appended_all:
  assumes "index_appended_events decode False f v = (v', Inr b)" "index_of decode les (sf_text f) v"
  obtains new where "index_of decode (les @ new) (sf_text f) v'" "sf_text f = stream_text (les @ new)"
proof -
  obtain new where n: "index_of decode (les @ new) (sf_text f) v'"
    "\<exists>rest. sf_text f = stream_text (les @ new) @ rest \<and> (\<not> b \<longrightarrow> rest = []) \<and> (b \<longrightarrow> False)"
    using index_appended_ok [OF assms] by blast
  then have "sf_text f = stream_text (les @ new)" by (elim exE) (cases b, simp_all only: simp_thms append_Nil2)
  then show thesis using that n(1) by blast
qed

text \<open>A viewer that still follows the stream has neither issues nor an error.\<close>

definition unset :: "viewer \<Rightarrow> bool" where
  "unset v \<longleftrightarrow> (vw_tailing v \<longrightarrow> vw_issues v = [] \<and> vw_error v = [])"

lemma watch_step_unset:
  assumes "watch_step decode s s'" "unset (snd s)"
  shows "unset (snd s')"
  using assms(1)
proof (cases rule: watch_step.cases)
  case (watch_refresh w t u v)
  obtain v' r where r: "refresh decode w v = (v', r)" by fastforce
  have "unset v'" using r
  proof (cases rule: refresh_cases)
    case idle
    then show ?thesis using assms(2) watch_refresh by simp
  next
    case (first v1 r1 m)
    then show ?thesis using assms(2) watch_refresh index_appended_same [OF first(2)] by (simp add: unset_def same_watch_def)
  next
    case (closed v1 b m v3 r3)
    then show ?thesis
      using assms(2) watch_refresh index_appended_same [OF closed(2)] index_appended_same [OF closed(7)]
      by (auto simp: unset_def same_watch_def)
  qed
  then show ?thesis using watch_refresh r by simp
next
  case (watch_complete f t v result errs)
  then show ?thesis by (simp add: unset_def complete_verification_def Let_def)
qed (use assms(2) in \<open>simp_all add: unset_def begin_verification_def update_verification_progress_def\<close>)

lemma watch_unset:
  assumes "(watch_step decode)\<^sup>*\<^sup>* s s'" "unset (snd s)"
  shows "unset (snd s')"
  using assms by (induction rule: rtranclp_induct) (auto intro: watch_step_unset)

text \<open>What the rows and counts of a viewer are when it has indexed the whole stream of a capture without issues.\<close>

definition shows_capture :: "disk \<Rightarrow> viewer \<Rightarrow> bool" where
  "shows_capture d v \<longleftrightarrow> (\<exists>es. capture_sound d (vw_manifest v) es
     \<and> map ix_row (vw_rows v) = map (\<lambda>e. ix_row (make_row e 0 0)) es
     \<and> sr_events (session_of v) = cc_events (mf_counts (vw_manifest v))
     \<and> sr_blobs (session_of v) = cc_blobs (mf_counts (vw_manifest v)))"

lemma clean_capture_shown:
  assumes "indexed decode les v" "t = stream_text les" "same_stream decode t d" "verify d = Inr x" "vf_issues x = []"
    and "vw_manifest v = vf_manifest x"
  shows "shows_capture d v"
proof -
  obtain es where es: "capture_sound d (vf_manifest x) es" using verify_clean [OF assms(4,5)] by blast
  obtain ls rest where ls: "t = concat ls @ rest" "list_all whole_line ls" "newline_char \<notin> set rest"
    "dk_lines d = map (line_event decode) ls" using assms(3) unfolding same_stream_def by blast
  have tx: "t = concat (map fst les)" using assms(2) by (simp add: stream_text_def)
  have w: "list_all whole_line (map fst les)" and dec: "\<forall>(l, e) \<in> set les. decode l = Some e"
    using assms(1) by (auto simp: indexed_def list_all_iff)
  have mf: "map fst les = ls" using whole_lines_unique [OF w ls(2), of "[]" rest] ls(1,3) tx by simp
  have "map EventLine es = map (line_event decode) (map fst les)"
    unfolding mf using es ls(4) by (simp add: capture_sound_def)
  also have "\<dots> = map EventLine (map snd les)" using dec by (auto simp: line_event_def)
  finally have "map EventLine es = map EventLine (map snd les)" .
  then have all: "es = map snd les" by (rule map_injective) (simp add: inj_def)
  have rows: "map ix_row (row_list k xs) = map (\<lambda>e. ix_row (make_row e 0 0)) (map snd xs)" for k and xs :: "(string \<times> event) list"
    by (induction k xs rule: row_list.induct) (auto simp: make_row_def)
  have kv: "kept_values v es" using assms(1) by (simp add: indexed_def all)
  have "length (vw_seen_blobs v) = card (br_sha256 ` event_refs es)"
    using seen_digests [OF es kv] kv distinct_card [of "vw_seen_blobs v"] by (simp add: kept_values_def)
  then show ?thesis
    unfolding shows_capture_def
    using es assms(1,6) rows all by (intro exI [of _ es]) (simp add: session_of_def indexed_def capture_sound_def)
qed

text \<open>
  The two ways in which a live viewer completes a capture. A refresh that finds the capture closed
  verifies it itself. Where the owner verifies (\<^verbatim>\<open>ExternalVerification\<close>, which the proxy command uses), the
  owner runs the verifier and hands its result, or the error it ended with, to
  \<^const>\<open>complete_verification\<close>. A result without a capture ID is not stored, so the owner's result is
  required to name the capture.
\<close>

inductive completes :: "(string \<Rightarrow> event option) \<Rightarrow> refresh_world \<Rightarrow> viewer \<Rightarrow> view_error list \<Rightarrow> viewer \<Rightarrow> bool" for decode w v where
  by_refresh: "refresh decode w v = (v', None) \<Longrightarrow> \<not> vw_tailing v' \<Longrightarrow> completes decode w v [] v'"
| by_owner: "verify (wd_disk_again w) = Inr x \<Longrightarrow> mf_capture_id (vf_manifest x) \<noteq> [] \<Longrightarrow>
    completes decode w v [] (complete_verification decode (wd_stream_again w) x [] v)"
| by_owner_failed: "errs \<noteq> [] \<Longrightarrow> completes decode w v errs (complete_verification decode (wd_stream_again w) result errs v)"

lemma completed_by_refresh:
  assumes "refresh decode w v = (v', None)" "\<not> vw_tailing v'" "vw_tailing v" "vw_error v = []" "index_of decode les (sf_text (wd_stream w)) v"
    and "sf_text (wd_stream_again w) = sf_text (wd_stream w) @ u" "same_stream decode (sf_text (wd_stream_again w)) (wd_disk_again w)"
  shows "\<exists>x. verify (wd_disk_again w) = Inr x \<and> (sr_verification (session_of v') = ''verified'' \<longleftrightarrow> vf_issues x = [])
    \<and> (vf_issues x = [] \<longrightarrow> shows_capture (wd_disk_again w) v')"
proof -
  have er: "vw_error v' = []" using refresh_keeps [OF assms(1)] assms(4) by simp
  from assms(1) show ?thesis
  proof (cases rule: refresh_cases)
    case (first v1 r1 m1)
    then show ?thesis using index_appended_same [OF first(2)] assms(2,3) by (simp add: same_watch_def)
  next
    case (closed v1 b m1 v3 r3)
    then obtain c x where x: "r3 = Inr c" "verify (wd_disk_again w) = Inr x"
      and v': "v' = v3\<lparr>vw_manifest := vf_manifest x, vw_issues := map FoundIssue (vf_issues x), vw_done := True, vw_tailing := False\<rparr>"
      by auto
    have vd: "sr_verification (session_of v') = ''verified'' \<longleftrightarrow> vf_issues x = []"
      using er by (simp add: session_of_def v')
    obtain new1 where "index_of decode (les @ new1) (sf_text (wd_stream w)) v1" using index_appended_ok [OF closed(2) assms(5)] by blast
    then have g: "index_of decode (les @ new1) (sf_text (wd_stream_again w)) (v1\<lparr>vw_manifest := m1\<rparr>)"
      using index_of_grow assms(6) by simp
    obtain new3 where n: "index_of decode ((les @ new1) @ new3) (sf_text (wd_stream_again w)) v3"
        "sf_text (wd_stream_again w) = stream_text ((les @ new1) @ new3)"
      using index_appended_all [OF closed(7) [unfolded x(1)] g] by blast
    have "index_of decode ((les @ new1) @ new3) (sf_text (wd_stream_again w)) v'" using n(1) by (simp only: v' index_of_fields)
    then have "indexed decode ((les @ new1) @ new3) v'" by (simp only: index_of_def)
    moreover have "vw_manifest v' = vf_manifest x" by (simp add: v')
    ultimately have "vf_issues x = [] \<longrightarrow> shows_capture (wd_disk_again w) v'"
      using clean_capture_shown [OF _ n(2) assms(7) x(2)] by blast
    then show ?thesis using x(2) vd by blast
  qed (use assms(3) in simp)
qed

lemma completed_by_owner:
  assumes "verify (wd_disk_again w) = Inr x" "mf_capture_id (vf_manifest x) \<noteq> []" "index_of decode les (sf_text (wd_stream w)) v"
    and "sf_text (wd_stream_again w) = sf_text (wd_stream w) @ u" "same_stream decode (sf_text (wd_stream_again w)) (wd_disk_again w)"
    and "v' = complete_verification decode (wd_stream_again w) x [] v"
  shows "sr_verification (session_of v') = ''verified'' \<longrightarrow> vf_issues x = [] \<and> shows_capture (wd_disk_again w) v'"
    and "vf_issues x = [] \<and> stream_readable (wd_stream_again w) \<longrightarrow> sr_verification (session_of v') = ''verified''"
proof -
  let ?f = "wd_stream_again w"
  let ?v1 = "v\<lparr>vw_manifest := vf_manifest x, vw_issues := map FoundIssue (vf_issues x)\<rparr>"
  obtain v2 r where i: "index_appended_events decode False ?f ?v1 = (v2, r)" by fastforce
  have g: "index_of decode les (sf_text ?f) ?v1" using index_of_grow [OF assms(3)] assms(4) by simp
  have s: "vw_manifest v2 = vf_manifest x" "vw_issues v2 = map FoundIssue (vf_issues x)"
    using index_appended_same [OF i] by (simp_all add: same_watch_def)
  have bad: "vw_error v' \<noteq> []" if "r = Inl e" for e
    using assms(2,6) i that by (simp add: complete_verification_def Let_def)
  have good: "v' = v2\<lparr>vw_progress := None, vw_done := True, vw_tailing := False, vw_error := []\<rparr>" if "r = Inr b" for b
    using assms(2,6) i that by (simp add: complete_verification_def Let_def)
  show "sr_verification (session_of v') = ''verified'' \<longrightarrow> vf_issues x = [] \<and> shows_capture (wd_disk_again w) v'"
  proof (cases r)
    case (Inl e)
    then show ?thesis using bad by (auto simp: session_of_def split: if_splits)
  next
    case (Inr b)
    obtain new where n: "index_of decode (les @ new) (sf_text ?f) v2" "sf_text ?f = stream_text (les @ new)"
      using index_appended_all [OF i [unfolded Inr] g] by blast
    have "index_of decode (les @ new) (sf_text ?f) v'" using n(1) by (simp only: good [OF Inr] index_of_fields)
    then have "indexed decode (les @ new) v'" by (simp only: index_of_def)
    moreover have "vw_manifest v' = vf_manifest x" by (simp add: good [OF Inr] s)
    ultimately have "vf_issues x = [] \<longrightarrow> shows_capture (wd_disk_again w) v'"
      using clean_capture_shown [OF _ n(2) assms(5,1)] by blast
    moreover have "sr_verification (session_of v') = ''verified'' \<longrightarrow> vf_issues x = []"
      by (simp add: good [OF Inr] session_of_def s)
    ultimately show ?thesis by blast
  qed
  show "vf_issues x = [] \<and> stream_readable ?f \<longrightarrow> sr_verification (session_of v') = ''verified''"
  proof
    assume c: "vf_issues x = [] \<and> stream_readable ?f"
    obtain es where es: "capture_sound (wd_disk_again w) (vf_manifest x) es" using verify_clean [OF assms(1)] c by blast
    have "capture_sound (wd_disk_again w) (vw_manifest ?v1) es" using es by simp
    from index_sound_capture [OF g assms(5) this] c i have "r = Inr False" by auto
    from good [OF this] show "sr_verification (session_of v') = ''verified''" using c by (simp add: session_of_def s)
  qed
qed


text \<open>
  The case that \<^const>\<open>completes\<close> leaves out. A result that names no capture is dropped with its issues, so the
  session shows "verified" for whatever the verifier found, as long as the stream can be indexed.
\<close>

lemma unnamed_result_hides_issues:
  assumes "mf_capture_id (vf_manifest x) = []" "index_appended_events decode False f v = (v2, Inr b)" "vw_issues v = []"
  shows "sr_verification (session_of (complete_verification decode f x [] v)) = ''verified''"
  using assms index_appended_same [OF assms(2)] by (simp add: complete_verification_def Let_def session_of_def same_watch_def)

section \<open>A live capture\<close>

text \<open>A capture with one event that is watched while it is open and when it is closed.\<close>

definition live_manifest :: "string \<Rightarrow> manifest" where
  "live_manifest ended =
     \<lparr>mf_schema = schema_version, mf_capture_id = ''c1'', mf_started_at = [], mf_ended_at = ended, mf_status = ''closed'',
      mf_failure = [],
      mf_generator = \<lparr>g_name = [], g_version = [], g_commit = [], g_go_version = [], g_goos = [], g_goarch = [], g_executable = []\<rparr>,
      mf_options = \<lparr>co_sync_each_event = False, co_raw_layers = [], co_values = Map.empty\<rparr>,
      mf_events_path = events_name, mf_blob_root = blob_root, mf_counts = zero_counts\<lparr>cc_events := 1\<rparr>,
      mf_completeness = \<lparr>cm_complete = True, cm_limitations = []\<rparr>\<rparr>"

definition live_event :: event where
  "live_event = empty_event\<lparr>ev_schema := schema_version, ev_sequence := 1, ev_capture_id := ''c1'', ev_kind := ''proxy.start''\<rparr>"

definition live_line :: string where "live_line = ''x'' @ [newline_char]"

definition live_decode :: "string \<Rightarrow> event option" where
  "live_decode l = (if l = live_line then Some live_event else None)"

definition live_stream :: stream_file where
  "live_stream = \<lparr>sf_opens = True, sf_stat = Some 2, sf_seeks = True, sf_text = live_line, sf_read_ok = True\<rparr>"

definition live_disk :: disk where
  "live_disk = \<lparr>dk_lines = [EventLine live_event], dk_torn = False, dk_blobs = Map.empty, dk_manifest = Some (live_manifest ''t'')\<rparr>"

definition live_world :: refresh_world where
  "live_world = \<lparr>wd_stream = live_stream, wd_disk = live_disk, wd_stream_again = live_stream, wd_disk_again = live_disk\<rparr>"

definition live_options :: view_options where "live_options = \<lparr>vo_preview = 0, vo_external = False\<rparr>"

lemma live_new:
  obtains v0 where "new_viewer None Some ''/c'' (live_manifest []) live_options = Inr v0" "vw_resolved_root v0 = ''/c''"
proof -
  have "\<exists>v0. new_viewer None Some ''/c'' (live_manifest []) live_options = Inr v0 \<and> vw_resolved_root v0 = ''/c''"
    by (simp add: new_viewer_def live_manifest_def abs_path_def has_prefix_def clean_path_def Let_def events_name_def
        events_file_name_def resolve_capture_file_def join_path_def rel_path_def path_elems_def)
  then show thesis using that by blast
qed

lemma live_cut: "cut_line live_line = Some (live_line, [])" "cut_line [] = None"
  unfolding cut_line_Some by (simp_all add: live_line_def newline_char_def cut_line_def)

lemma live_fields:
  "ev_schema live_event = schema_version" "ev_capture_id live_event = ''c1''" "ev_sequence live_event = 1" "ev_blob live_event = None"
  by (simp_all add: live_event_def empty_event_def)

lemma live_index_line:
  assumes "vw_rows v = []" "mf_capture_id (vw_manifest v) = ''c1''"
  shows "index_line live_decode live_line v = Inr (add_event live_event (length live_line) v)"
  using assms by (simp add: index_line_def live_decode_def live_fields)

lemma live_index:
  assumes "vw_rows v = []" "vw_offset v = 0" "mf_capture_id (vw_manifest v) = ''c1''"
  shows "index_appended_events live_decode partial live_stream v
    = (refresh_filters (add_event live_event (length live_line) v), Inr False)"
  using assms live_index_line [OF assms(1,3)]
  by (simp add: index_appended_events_def live_stream_def index_lines.simps [of _ _ _ _ live_line]
      index_lines.simps [of _ _ _ _ "[]"] live_cut)

lemma live_index_again:
  assumes "vw_offset v = 2"
  shows "index_appended_events live_decode partial live_stream v = (v, Inr False)"
proof -
  have "drop 2 live_line = []" by (simp add: live_line_def)
  then show ?thesis using assms
    by (simp add: index_appended_events_def live_stream_def index_lines.simps [of _ _ _ _ "[]"] live_cut)
qed

lemma live_verifies: "\<exists>x. verify live_disk = Inr x \<and> vf_issues x = [] \<and> vf_manifest x = live_manifest ''t''"
  by (simp add: live_disk_def verify_def verify_with_progress_def read_manifest_def scan_events_def Let_def
      verify_start_def report_progress_def check_manifest_def issue_unless_def live_manifest_def verify_visit_def
      check_header_def live_fields zero_counts_def)

lemma live_closed:
  assumes "new_viewer None Some ''/c'' (live_manifest []) live_options = Inr v0"
  shows "\<exists>v'. refresh live_decode live_world (v0\<lparr>vw_tailing := True\<rparr>) = (v', None) \<and> \<not> vw_tailing v' \<and> length (vw_rows v') = 1"
proof -
  let ?v = "v0\<lparr>vw_tailing := True\<rparr>"
  let ?v1 = "refresh_filters (add_event live_event (length live_line) ?v)"
  note f = new_viewer_fields [OF assms]
  have id: "mf_capture_id (live_manifest e) = ''c1''" "\<not> still_open (live_manifest ''t'')" for e
    by (simp_all add: live_manifest_def still_open_def)
  have i: "index_appended_events live_decode True live_stream ?v = (?v1, Inr False)"
    using f id by (intro live_index) simp_all
  have o2: "vw_offset ?v1 = 2" "vw_manifest ?v1 = live_manifest []" "vw_external ?v1 = False" "length (vw_rows ?v1) = 1"
    using f by (simp_all add: refresh_filters_def add_event_def live_line_def live_options_def)
  have i3: "index_appended_events live_decode False live_stream (?v1\<lparr>vw_manifest := live_manifest ''t''\<rparr>)
      = (?v1\<lparr>vw_manifest := live_manifest ''t''\<rparr>, Inr False)"
    using o2(1) by (intro live_index_again) simp
  obtain x where x: "verify live_disk = Inr x" using live_verifies by blast
  have m: "read_manifest live_disk = Inr (live_manifest ''t'')" by (simp add: read_manifest_def live_disk_def)
  show ?thesis
    using i o2 i3 x m id by (simp add: refresh_def live_world_def Let_def)
qed

theorem index_follows_stream_witness:
  "\<exists>v :: viewer. length (vw_rows v) = 1 \<and> read_event live_decode live_stream (vw_rows v ! 0) = Inr live_event"
proof -
  obtain v0 where v0: "new_viewer None Some ''/c'' (live_manifest []) live_options = Inr v0" by (rule live_new)
  obtain v' where v': "refresh live_decode live_world (v0\<lparr>vw_tailing := True\<rparr>) = (v', None)" "length (vw_rows v') = 1"
    using live_closed [OF v0] by blast
  have "watch_step live_decode (live_line, v0\<lparr>vw_tailing := True\<rparr>)
      (live_line @ [], fst (refresh live_decode live_world (v0\<lparr>vw_tailing := True\<rparr>)))"
    by (rule watch_refresh) (simp_all add: live_world_def live_stream_def)
  then have "(watch_step live_decode)\<^sup>*\<^sup>* (live_line, v0\<lparr>vw_tailing := True\<rparr>) (live_line, v')" using v'(1) by simp
  from index_follows_stream [OF v0 this] v'(2) obtain les where
    les: "indexed live_decode les v'" "read_event live_decode live_stream (vw_rows v' ! 0) = Inr (snd (les ! 0))"
    by (auto simp: live_stream_def)
  have "length les = 1" using les(1) v'(2) by (simp add: indexed_def)
  then obtain l e where "les = [(l, e)]" by (cases les) auto
  then have "snd (les ! 0) = live_event" using les(1) by (auto simp: indexed_def live_decode_def split: if_splits)
  then show ?thesis using les(2) v'(2) by (intro exI [of _ v']) simp
qed


definition no_query :: "string \<Rightarrow> string" where "no_query name = []"

theorem pages_are_slices_witness:
  "\<exists>v page. events_page no_query v = EventsReply page \<and> er_limit page = 100 \<and> length (vw_rows v) = 1"
proof -
  obtain v0 where v0: "new_viewer None Some ''/c'' (live_manifest []) live_options = Inr v0" by (rule live_new)
  obtain v' :: viewer where v': "length (vw_rows v') = 1" using live_closed [OF v0] by blast
  have q: "query_integer no_query ''offset'' 0 0 (int (length (vw_rows v'))) = Inr 0"
    "query_integer no_query ''limit'' 100 1 max_page_size = Inr 100"
    by (simp_all add: query_integer_def no_query_def)
  from pages_are_slices [OF q] v' show ?thesis by blast
qed

theorem access_is_guarded_witness:
  "\<exists>v hs v' rep. handler live_decode \<lparr>rw_world = live_world, rw_event_stream = live_stream, rw_links = (\<lambda>_. None),
       rw_files = (\<lambda>_. BlobNoOpen), rw_assets = (\<lambda>_. None)\<rparr> ''t'' \<lparr>rq_method = ''GET'', rq_path = ''/api/session'', rq_query = no_query\<rparr> v
       = (hs, v', rep) \<and> v' = v \<and> rep = PageNotFound"
proof -
  let ?w = "\<lparr>rw_world = live_world, rw_event_stream = live_stream, rw_links = (\<lambda>_. None), rw_files = (\<lambda>_. BlobNoOpen), rw_assets = (\<lambda>_. None)\<rparr>"
  let ?rq = "\<lparr>rq_method = ''GET'', rq_path = ''/api/session'', rq_query = no_query\<rparr>"
  obtain v0 where "new_viewer None Some ''/c'' (live_manifest []) live_options = Inr v0" and v0: "vw_resolved_root v0 = ''/c''"
    by (rule live_new)
  have c: "clean_absolute (vw_resolved_root v0)"
    unfolding clean_absolute_def v0 by (intro exI [of _ "''/c''"]) (simp add: has_prefix_def clean_path_def)
  obtain hs v' rep where h: "handler live_decode ?w ''t'' ?rq v0 = (hs, v', rep)" by (cases "handler live_decode ?w ''t'' ?rq v0") auto
  have l: "rw_links ?w p = Some q \<Longrightarrow> clean_absolute q" for p q by simp
  have "\<not> has_prefix (rq_path ?rq) (CHR ''/'' # ''t'' @ ''/'')" by (simp add: has_prefix_def)
  then have "v' = v0 \<and> rep = PageNotFound" using access_is_guarded [OF h l c] by auto
  then show ?thesis using h by blast
qed

end
