(* ===== verification/PacketView.thy ===== *)
theory PacketView
  imports Digest Go_Net "HOL-Library.List_Lexorder" "HOL-Library.Char_ord"
begin

text \<open>
  The packet view (\<^verbatim>\<open>internal/packetview/encode.go\<close>): it walks a decoded packet by reflection and
  builds the value that is written as JSON into the capture. A Go value is the datatype
  \<^verbatim>\<open>go_value\<close>, one constructor per \<^verbatim>\<open>reflect.Kind\<close> that the code tells apart, each with the name
  of its type. Pointers are addresses into a heap, so a value may be cyclic. Whether a value is an
  \<^verbatim>\<open>encoding.TextMarshaler\<close> and what it answers, the heap, and \<^verbatim>\<open>fmt.Sprint\<close> of a map key are
  parameters. A panic of a marshaler is a value, since \<^verbatim>\<open>Encode\<close> recovers from it. A path is
  kept as its steps; the code writes them out as text.
\<close>

section \<open>Values\<close>

text \<open>A \<^verbatim>\<open>float64\<close> is its IEEE 754 bit pattern.\<close>

type_synonym float64 = u64

definition float_special :: "float64 \<Rightarrow> bool" where
  "float_special f = (f AND 0x7FF0000000000000 = 0x7FF0000000000000)"

definition is_nan :: "float64 \<Rightarrow> bool" where
  "is_nan f = (float_special f \<and> f AND 0x000FFFFFFFFFFFFF \<noteq> 0)"

definition is_inf :: "float64 \<Rightarrow> bool \<Rightarrow> bool" where
  "is_inf f positive = (float_special f \<and> f AND 0x000FFFFFFFFFFFFF = 0 \<and> (f AND 0x8000000000000000 = 0) = positive)"

lemma float_special_cases: "float_special f \<longleftrightarrow> is_nan f \<or> is_inf f True \<or> is_inf f False"
  by (auto simp: is_nan_def is_inf_def)

record field_info =
  fi_name :: string
  fi_exported :: bool
  fi_tag :: string

datatype go_value =
    GInvalid
  | GInterface string "go_value option"
  | GPointer string "nat option"
  | GBool string bool
  | GString string string
  | GInt string "64 word"
  | GUint string u64
  | GFloat string float64
  | GComplex string float64 float64
  | GStruct string "(field_info \<times> go_value) list"
  | GBytes string "bytes option"
  | GSlice string "go_value list option"
  | GByteArray string bytes
  | GArray string "go_value list"
  | GStringMap string "(string \<times> go_value) list option"
  | GMap string "(go_value \<times> go_value) list option"
  | GOther string string

fun type_name :: "go_value \<Rightarrow> string" where
  "type_name GInvalid = []"
| "type_name (GInterface t _) = t"
| "type_name (GPointer t _) = t"
| "type_name (GBool t _) = t"
| "type_name (GString t _) = t"
| "type_name (GInt t _) = t"
| "type_name (GUint t _) = t"
| "type_name (GFloat t _) = t"
| "type_name (GComplex t _ _) = t"
| "type_name (GStruct t _) = t"
| "type_name (GBytes t _) = t"
| "type_name (GSlice t _) = t"
| "type_name (GByteArray t _) = t"
| "type_name (GArray t _) = t"
| "type_name (GStringMap t _) = t"
| "type_name (GMap t _) = t"
| "type_name (GOther t _) = t"

text \<open>The normalized value. \<^verbatim>\<open>OCount\<close> is a Go \<^verbatim>\<open>int\<close> that counts items or bytes.\<close>

datatype out = ONull | OBool bool | OString string | OInt int | OUint nat | OCount nat | OFloat float64
  | OArray "out list" | OObject "(string \<times> out) list"

datatype path_step = PField string | PIndex nat | PKey | PValue

type_synonym path = "path_step list"

record notice =
  nt_path :: path
  nt_kind :: string
  nt_numbers :: "nat list"
  nt_text :: string

datatype marshal_result = NoMarshaler | MarshalPanics string | MarshalError string | MarshalText string

record view_env =
  en_max_depth :: nat
  en_max_items :: int
  en_preview :: nat
  en_heap :: "string \<Rightarrow> nat \<Rightarrow> go_value"
  en_marshal :: "go_value \<Rightarrow> marshal_result"
  en_sprint :: "go_value \<Rightarrow> string"

definition max_safe_integer :: int where "max_safe_integer = 2 ^ 53 - 1"

text \<open>A result and the notices so far; \<^term>\<open>Inl\<close> is a panic on its way to the recovery in \<^verbatim>\<open>Encode\<close>.\<close>

type_synonym 'a encoding = "(string + 'a) \<times> notice list"

fun enc_bind :: "'a encoding \<Rightarrow> ('a \<Rightarrow> notice list \<Rightarrow> 'b encoding) \<Rightarrow> 'b encoding" where
  "enc_bind (Inl e, ns) f = (Inl e, ns)"
| "enc_bind (Inr x, ns) f = f x ns"

definition add_notice :: "path \<Rightarrow> string \<Rightarrow> nat list \<Rightarrow> string \<Rightarrow> notice list \<Rightarrow> notice list" where
  "add_notice p kind numbers message ns = ns @ [\<lparr>nt_path = p, nt_kind = kind, nt_numbers = numbers, nt_text = message\<rparr>]"

definition obj_put :: "string \<Rightarrow> out \<Rightarrow> (string \<times> out) list \<Rightarrow> (string \<times> out) list" where
  "obj_put k x m = upsert k x (\<lambda>_. x) m"

section \<open>Leaves\<close>

definition enc_int :: "string \<Rightarrow> 64 word \<Rightarrow> path \<Rightarrow> notice list \<Rightarrow> out encoding" where
  "enc_int t w p ns =
     (let i = sint w in
      if i > max_safe_integer \<or> i < - max_safe_integer
      then (Inr (OObject [(''$integer'', OString (itoa_int i)), (''$type'', OString t)]), add_notice p ''large_integer'' [] [] ns)
      else (Inr (OInt i), ns))"

definition enc_uint :: "string \<Rightarrow> u64 \<Rightarrow> path \<Rightarrow> notice list \<Rightarrow> out encoding" where
  "enc_uint t w p ns =
     (let n = unat w in
      if int n > max_safe_integer
      then (Inr (OObject [(''$integer'', OString (itoa n)), (''$type'', OString t)]), add_notice p ''large_integer'' [] [] ns)
      else (Inr (OUint n), ns))"

definition enc_float :: "float64 \<Rightarrow> path \<Rightarrow> notice list \<Rightarrow> out encoding" where
  "enc_float f p ns =
     (if is_nan f then (Inr (OString ''NaN''), add_notice p ''non_finite_float'' [] ''NaN'' ns)
      else if is_inf f True then (Inr (OString ''+Infinity''), add_notice p ''non_finite_float'' [] ''positive infinity'' ns)
      else if is_inf f False then (Inr (OString ''-Infinity''), add_notice p ''non_finite_float'' [] ''negative infinity'' ns)
      else (Inr (OFloat f), ns))"

definition binary :: "nat \<Rightarrow> bytes \<Rightarrow> out" where
  "binary preview b =
     (let n = min preview (length b) in
      OObject [(''$binary'', OObject
        ([(''size'', OCount (length b)), (''sha256'', OString (hex_string (sha256 b)))]
         @ (if n \<noteq> 0 then [(''preview_hex'', OString (hex_string (take n b))), (''preview_bytes'', OCount n)] else [])
         @ (if n < length b then [(''omitted_bytes'', OCount (length b - n))] else [])))])"

text \<open>The name under which a struct field is kept, if it is kept.\<close>

definition field_name :: "field_info \<Rightarrow> string option" where
  "field_name f =
     (let tag = takeWhile (\<lambda>c. c \<noteq> CHR '','') (fi_tag f) in
      if \<not> fi_exported f then None
      else if fi_tag f = [] then Some (fi_name f)
      else if tag = ''-'' then None
      else if tag \<noteq> [] then Some tag else Some (fi_name f))"

text \<open>How many of \<^verbatim>\<open>n\<close> items are kept, and the notices when some are not.\<close>

definition item_limit :: "view_env \<Rightarrow> nat \<Rightarrow> nat" where
  "item_limit E n = (if en_max_items E > 0 \<and> int n > en_max_items E then nat (en_max_items E) else n)"

definition note_cut :: "view_env \<Rightarrow> nat \<Rightarrow> string \<Rightarrow> path \<Rightarrow> notice list \<Rightarrow> notice list" where
  "note_cut E n what p ns =
     (if item_limit E n < n then add_notice p ''collection_truncated'' [item_limit E n, n] what ns else ns)"

text \<open>A list, a map with string keys and another map, when \<^verbatim>\<open>n\<close> items were there.\<close>

definition pack_items :: "view_env \<Rightarrow> nat \<Rightarrow> out list \<Rightarrow> out" where
  "pack_items E n items =
     (if item_limit E n = n then OArray items
      else OObject [(''$items'', OArray items), (''$total'', OCount n), (''$truncated'', OCount (n - item_limit E n))])"

definition pack_names :: "view_env \<Rightarrow> nat \<Rightarrow> (string \<times> out) list \<Rightarrow> out" where
  "pack_names E n r =
     OObject (if item_limit E n < n then obj_put ''$truncated'' (OCount (n - item_limit E n)) r else r)"

definition pack_entries :: "view_env \<Rightarrow> nat \<Rightarrow> out list \<Rightarrow> out" where
  "pack_entries E n r =
     OObject ((''$map'', OArray r) # (if item_limit E n < n then [(''$truncated'', OCount (n - item_limit E n))] else []))"

definition key_text :: "view_env \<Rightarrow> go_value \<Rightarrow> string" where
  "key_text E k = type_name k @ '':'' @ en_sprint E k"

definition marker :: "string \<Rightarrow> string \<Rightarrow> out" where
  "marker k t = OObject [(k, OString t)]"

section \<open>The walk\<close>

function (sequential)
  enc_value :: "view_env \<Rightarrow> (string \<times> nat) list \<Rightarrow> go_value \<Rightarrow> path \<Rightarrow> nat \<Rightarrow> notice list \<Rightarrow> out encoding"
  and enc_items :: "view_env \<Rightarrow> (string \<times> nat) list \<Rightarrow> go_value list \<Rightarrow> path \<Rightarrow> nat \<Rightarrow> nat \<Rightarrow> notice list \<Rightarrow> out list encoding"
  and enc_fields :: "view_env \<Rightarrow> (string \<times> nat) list \<Rightarrow> (field_info \<times> go_value) list \<Rightarrow> path \<Rightarrow> nat \<Rightarrow>
      (string \<times> out) list \<Rightarrow> notice list \<Rightarrow> (string \<times> out) list encoding"
  and enc_names :: "view_env \<Rightarrow> (string \<times> nat) list \<Rightarrow> (string \<times> go_value) list \<Rightarrow> path \<Rightarrow> nat \<Rightarrow>
      (string \<times> out) list \<Rightarrow> notice list \<Rightarrow> (string \<times> out) list encoding"
  and enc_entries :: "view_env \<Rightarrow> (string \<times> nat) list \<Rightarrow> (go_value \<times> go_value) list \<Rightarrow> path \<Rightarrow> nat \<Rightarrow> nat \<Rightarrow> notice list \<Rightarrow> out list encoding"
where
  "enc_value E act v p d ns =
     (if v = GInvalid then (Inr ONull, ns)
      else if en_max_depth E \<le> d
      then (Inr (OObject [(''$truncated'', OString ''max_depth''), (''$type'', OString (type_name v))]),
            add_notice p ''max_depth'' [en_max_depth E] [] ns)
      else (case en_marshal E v of
          MarshalPanics m \<Rightarrow> (Inl m, ns)
        | MarshalText s \<Rightarrow> (Inr (OString s), ns)
        | failed \<Rightarrow>
            (let ns = (case failed of MarshalError m \<Rightarrow> add_notice p ''text_marshal_error'' [] m ns | _ \<Rightarrow> ns) in
             case v of
               GInvalid \<Rightarrow> (Inr ONull, ns)
             | GInterface t x \<Rightarrow> (case x of None \<Rightarrow> (Inr ONull, ns) | Some w \<Rightarrow> enc_value E act w p (d + 1) ns)
             | GPointer t a \<Rightarrow>
                 (case a of
                    None \<Rightarrow> (Inr ONull, ns)
                  | Some q \<Rightarrow>
                      if (t, q) \<in> set act then (Inr (marker ''$cycle'' t), add_notice p ''cycle'' [] [] ns)
                      else enc_value E ((t, q) # act) (en_heap E t q) p (d + 1) ns)
             | GBool t b \<Rightarrow> (Inr (OBool b), ns)
             | GString t s \<Rightarrow> (Inr (OString s), ns)
             | GInt t w \<Rightarrow> enc_int t w p ns
             | GUint t w \<Rightarrow> enc_uint t w p ns
             | GFloat t f \<Rightarrow> enc_float f p ns
             | GComplex t re im \<Rightarrow>
                 (Inr (OObject [(''real'', OFloat re), (''imaginary'', OFloat im)]), add_notice p ''complex_number'' [] [] ns)
             | GStruct t fs \<Rightarrow>
                 enc_bind (enc_fields E act fs p (d + 1) [(''$type'', OString t)] ns) (\<lambda>m ns. (Inr (OObject m), ns))
             | GBytes t b \<Rightarrow> (case b of None \<Rightarrow> (Inr ONull, ns) | Some bs \<Rightarrow> (Inr (binary (en_preview E) bs), ns))
             | GByteArray t b \<Rightarrow> (Inr (binary (en_preview E) b), ns)
             | GSlice t xs \<Rightarrow>
                 (case xs of
                    None \<Rightarrow> (Inr ONull, ns)
                  | Some xs \<Rightarrow>
                      enc_bind (enc_items E act (take (item_limit E (length xs)) xs) p 0 (d + 1) (note_cut E (length xs) ''items'' p ns))
                        (\<lambda>items ns. (Inr (pack_items E (length xs) items), ns)))
             | GArray t xs \<Rightarrow>
                 enc_bind (enc_items E act (take (item_limit E (length xs)) xs) p 0 (d + 1) (note_cut E (length xs) ''items'' p ns))
                   (\<lambda>items ns. (Inr (pack_items E (length xs) items), ns))
             | GStringMap t m \<Rightarrow>
                 (case m of
                    None \<Rightarrow> (Inr ONull, ns)
                  | Some kvs \<Rightarrow>
                      enc_bind (enc_names E act (take (item_limit E (length kvs)) (sort_key fst kvs)) p (d + 1) []
                          (note_cut E (length kvs) ''map entries'' p ns))
                        (\<lambda>r ns. (Inr (pack_names E (length kvs) r), ns)))
             | GMap t m \<Rightarrow>
                 (case m of
                    None \<Rightarrow> (Inr ONull, ns)
                  | Some kvs \<Rightarrow>
                      enc_bind (enc_entries E act
                          (take (item_limit E (length kvs)) (sort_key (key_text E \<circ> fst) kvs))
                          p 0 (d + 1) (note_cut E (length kvs) ''map entries'' p ns))
                        (\<lambda>r ns. (Inr (pack_entries E (length kvs) r), ns)))
             | GOther t kind \<Rightarrow> (Inr (marker ''$unsupported'' t), add_notice p ''unsupported_type'' [] kind ns))))"
| "enc_items E act [] p i d ns = (Inr [], ns)"
| "enc_items E act (x # xs) p i d ns =
     enc_bind (enc_value E act x (p @ [PIndex i]) d ns) (\<lambda>y ns.
       enc_bind (enc_items E act xs p (i + 1) d ns) (\<lambda>ys ns. (Inr (y # ys), ns)))"
| "enc_fields E act [] p d m ns = (Inr m, ns)"
| "enc_fields E act ((f, x) # fs) p d m ns =
     (case field_name f of
        None \<Rightarrow> enc_fields E act fs p d m ns
      | Some name \<Rightarrow>
          enc_bind (enc_value E act x (p @ [PField name]) d ns) (\<lambda>y ns. enc_fields E act fs p d (obj_put name y m) ns))"
| "enc_names E act [] p d m ns = (Inr m, ns)"
| "enc_names E act ((name, x) # kvs) p d m ns =
     enc_bind (enc_value E act x (p @ [PField name]) d ns) (\<lambda>y ns. enc_names E act kvs p d (obj_put name y m) ns)"
| "enc_entries E act [] p i d ns = (Inr [], ns)"
| "enc_entries E act ((k, x) # kvs) p i d ns =
     enc_bind (enc_value E act k (p @ [PIndex i, PKey]) d ns) (\<lambda>k' ns.
     enc_bind (enc_value E act x (p @ [PIndex i, PValue]) d ns) (\<lambda>x' ns.
     enc_bind (enc_entries E act kvs p (i + 1) d ns) (\<lambda>r ns.
       (Inr (OObject [(''key'', k'), (''value'', x')] # r), ns))))"
  by pat_completeness auto
termination
  by (relation "inv_image (less_than <*lex*> less_than <*lex*> less_than) (\<lambda>s. case s of
        Inl (Inl (E, act, v, p, d, ns)) \<Rightarrow> (en_max_depth E - d, 0, 0)
      | Inl (Inr (E, act, xs, p, i, d, ns)) \<Rightarrow> (en_max_depth E - d, 1, length xs)
      | Inr (Inl (E, act, xs, p, d, m, ns)) \<Rightarrow> (en_max_depth E - d, 1, length xs)
      | Inr (Inr (Inl (E, act, xs, p, d, m, ns))) \<Rightarrow> (en_max_depth E - d, 1, length xs)
      | Inr (Inr (Inr (E, act, xs, p, i, d, ns))) \<Rightarrow> (en_max_depth E - d, 1, length xs))") auto

declare enc_value.simps [simp del]

section \<open>Encoding\<close>

text \<open>\<^verbatim>\<open>json.Marshal\<close> of a normalized value fails on a number that is not finite, and on nothing else.\<close>

fun marshals :: "out \<Rightarrow> bool" where
  "marshals (OFloat f) = (\<not> float_special f)"
| "marshals (OArray xs) = list_all marshals xs"
| "marshals (OObject m) = list_all (\<lambda>(k, x). marshals x) m"
| "marshals _ = True"

text \<open>
  It writes text as UTF-8: a byte that belongs to no well-formed sequence becomes the replacement character
  U+FFFD, in strings and in the keys of objects. The rest of the value is written as it is.
\<close>

definition replacement :: string where
  "replacement = [CHR 0xEF, CHR 0xBF, CHR 0xBD]"

definition json_text :: "string \<Rightarrow> string" where
  "json_text s = concat (map (\<lambda>(r, w). if r = 0xFFFD \<and> length w = 1 then replacement else map char_of w) (runes (map ord s)))"

fun marshalled :: "out \<Rightarrow> out" where
  "marshalled (OString s) = OString (json_text s)"
| "marshalled (OArray xs) = OArray (map marshalled xs)"
| "marshalled (OObject m) = OObject (map (\<lambda>(k, x). (json_text k, marshalled x)) m)"
| "marshalled j = j"

datatype encode_error = NormalizePanic string | MarshalFailed

record encode_options =
  vo_max_depth :: int
  vo_max_items :: int
  vo_preview :: int

definition encode_env :: "encode_options \<Rightarrow> (string \<Rightarrow> nat \<Rightarrow> go_value) \<Rightarrow> (go_value \<Rightarrow> marshal_result) \<Rightarrow>
    (go_value \<Rightarrow> string) \<Rightarrow> view_env" where
  "encode_env opts heap marshal sprint =
     \<lparr>en_max_depth = (if vo_max_depth opts \<le> 0 then 128 else nat (vo_max_depth opts)),
      en_max_items = vo_max_items opts,
      en_preview = (if vo_preview opts < 0 then 0 else nat (vo_preview opts)),
      en_heap = heap, en_marshal = marshal, en_sprint = sprint\<rparr>"

definition encode :: "encode_options \<Rightarrow> (string \<Rightarrow> nat \<Rightarrow> go_value) \<Rightarrow> (go_value \<Rightarrow> marshal_result) \<Rightarrow>
    (go_value \<Rightarrow> string) \<Rightarrow> go_value \<Rightarrow> (encode_error + out) \<times> notice list" where
  "encode opts heap marshal sprint v =
     (case enc_value (encode_env opts heap marshal sprint) [] v [] 0 [] of
        (Inl m, ns) \<Rightarrow> (Inl (NormalizePanic m), ns)
      | (Inr j, ns) \<Rightarrow> (if marshals j then Inr (marshalled j) else Inl MarshalFailed, ns))"

end
