(* ===== verification/PacketView_Theorems.thy ===== *)
theory PacketView_Theorems
  imports PacketView
begin

text \<open>
  What the packet view guarantees: the shape of every value it writes (depth, safe integers, distinct
  keys), when it fails, and that an encoding without a notice has lost nothing.
\<close>

section \<open>One level of the walk\<close>

text \<open>The \<^verbatim>\<open>switch\<close> on the kind, which \<^verbatim>\<open>value\<close> reaches when the depth allows it and no marshaler answers.\<close>

definition enc_kind :: "view_env \<Rightarrow> (string \<times> nat) list \<Rightarrow> go_value \<Rightarrow> path \<Rightarrow> nat \<Rightarrow> notice list \<Rightarrow> out encoding" where
  "enc_kind E act v p d ns =
     (case v of
        GInvalid \<Rightarrow> (Inr ONull, ns)
      | GInterface t x \<Rightarrow> (case x of None \<Rightarrow> (Inr ONull, ns) | Some w \<Rightarrow> enc_value E act w p (d + 1) ns)
      | GPointer t a \<Rightarrow>
          (case a of
             None \<Rightarrow> (Inr ONull, ns)
           | Some q \<Rightarrow>
               if (t, q) \<in> set act then (Inr (marker ''$cycle'' t), add_notice p ''cycle'' [] [] ns)
               else enc_value E ((t, q) # act) (en_heap E t q) p (d + 1) ns)
      | GBool t b \<Rightarrow> (Inr (OBool b), ns)
      | GString t s \<Rightarrow> (Inr (OString s), ns)
      | GInt t w \<Rightarrow> enc_int t w p ns
      | GUint t w \<Rightarrow> enc_uint t w p ns
      | GFloat t f \<Rightarrow> enc_float f p ns
      | GComplex t re im \<Rightarrow>
          (Inr (OObject [(''real'', OFloat re), (''imaginary'', OFloat im)]), add_notice p ''complex_number'' [] [] ns)
      | GStruct t fs \<Rightarrow>
          enc_bind (enc_fields E act fs p (d + 1) [(''$type'', OString t)] ns) (\<lambda>m ns. (Inr (OObject m), ns))
      | GBytes t b \<Rightarrow> (case b of None \<Rightarrow> (Inr ONull, ns) | Some bs \<Rightarrow> (Inr (binary (en_preview E) bs), ns))
      | GByteArray t b \<Rightarrow> (Inr (binary (en_preview E) b), ns)
      | GSlice t xs \<Rightarrow>
          (case xs of
             None \<Rightarrow> (Inr ONull, ns)
           | Some xs \<Rightarrow>
               enc_bind (enc_items E act (take (item_limit E (length xs)) xs) p 0 (d + 1) (note_cut E (length xs) ''items'' p ns))
                 (\<lambda>items ns. (Inr (pack_items E (length xs) items), ns)))
      | GArray t xs \<Rightarrow>
          enc_bind (enc_items E act (take (item_limit E (length xs)) xs) p 0 (d + 1) (note_cut E (length xs) ''items'' p ns))
            (\<lambda>items ns. (Inr (pack_items E (length xs) items), ns))
      | GStringMap t m \<Rightarrow>
          (case m of
             None \<Rightarrow> (Inr ONull, ns)
           | Some kvs \<Rightarrow>
               enc_bind (enc_names E act (take (item_limit E (length kvs)) (sort_key fst kvs)) p (d + 1) []
                   (note_cut E (length kvs) ''map entries'' p ns))
                 (\<lambda>r ns. (Inr (pack_names E (length kvs) r), ns)))
      | GMap t m \<Rightarrow>
          (case m of
             None \<Rightarrow> (Inr ONull, ns)
           | Some kvs \<Rightarrow>
               enc_bind (enc_entries E act (take (item_limit E (length kvs)) (sort_key (key_text E \<circ> fst) kvs)) p 0 (d + 1)
                   (note_cut E (length kvs) ''map entries'' p ns))
                 (\<lambda>r ns. (Inr (pack_entries E (length kvs) r), ns)))
      | GOther t kind \<Rightarrow> (Inr (marker ''$unsupported'' t), add_notice p ''unsupported_type'' [] kind ns))"

lemma enc_value_eq:
  "enc_value E act v p d ns =
     (if v = GInvalid then (Inr ONull, ns)
      else if en_max_depth E \<le> d
      then (Inr (OObject [(''$truncated'', OString ''max_depth''), (''$type'', OString (type_name v))]),
            add_notice p ''max_depth'' [en_max_depth E] [] ns)
      else (case en_marshal E v of
          MarshalPanics m \<Rightarrow> (Inl m, ns)
        | MarshalText s \<Rightarrow> (Inr (OString s), ns)
        | MarshalError m \<Rightarrow> enc_kind E act v p d (add_notice p ''text_marshal_error'' [] m ns)
        | NoMarshaler \<Rightarrow> enc_kind E act v p d ns))"
  by (subst enc_value.simps) (simp add: enc_kind_def Let_def split: marshal_result.split)

text \<open>Induction over the levels that are left.\<close>

lemma depth_induct:
  assumes "\<And>d. (d < en_max_depth E \<Longrightarrow> \<forall>act v p ns. P act v p (Suc d) ns) \<Longrightarrow> \<forall>act v p ns. P act v p d ns"
  shows "P act v p d ns"
proof (induction "en_max_depth E - d" arbitrary: act v p d ns rule: less_induct)
  case less
  have "\<forall>act v p ns. P act v p d ns"
  proof (rule assms)
    assume "d < en_max_depth E"
    then show "\<forall>act v p ns. P act v p (Suc d) ns" by (intro allI less) simp
  qed
  then show ?case by blast
qed

section \<open>Results and their notices\<close>

text \<open>
  \<^verbatim>\<open>yields E Q ns r\<close>: \<^verbatim>\<open>r\<close> keeps the notices \<^verbatim>\<open>ns\<close>, its value satisfies \<^verbatim>\<open>Q\<close> with the notices
  it ends with, and a panic of it is one of a marshaler.
\<close>

definition panics :: "view_env \<Rightarrow> string \<Rightarrow> bool" where
  "panics E m = (\<exists>v. en_marshal E v = MarshalPanics m)"

definition yields :: "view_env \<Rightarrow> ('a \<Rightarrow> notice list \<Rightarrow> bool) \<Rightarrow> notice list \<Rightarrow> 'a encoding \<Rightarrow> bool" where
  "yields E Q ns r \<longleftrightarrow> (\<exists>t. snd r = ns @ t) \<and> (case fst r of Inl m \<Rightarrow> panics E m | Inr x \<Rightarrow> Q x (snd r))"

lemma yields_Inr: "yields E Q ns (Inr x, ns @ t) \<longleftrightarrow> Q x (ns @ t)"
  and yields_same [simp]: "yields E Q ns (Inr x, ns) \<longleftrightarrow> Q x ns"
  by (auto simp: yields_def)

lemma yields_panic [simp]: "yields E Q ns (Inl m, ns) \<longleftrightarrow> panics E m"
  by (simp add: yields_def)

lemma yields_note [simp]: "yields E Q ns (Inr x, add_notice p k l s ns) \<longleftrightarrow> Q x (add_notice p k l s ns)"
  by (simp add: add_notice_def yields_Inr)

lemma yields_bind:
  assumes "yields E Q ns r" and "\<And>x t. Q x (ns @ t) \<Longrightarrow> yields E R (ns @ t) (f x (ns @ t))"
  shows "yields E R ns (enc_bind r f)"
proof (cases "fst r")
  case (Inl m)
  then show ?thesis using assms(1) by (cases r) (auto simp: yields_def)
next
  case (Inr x)
  then obtain t where r: "r = (Inr x, ns @ t)" and q: "Q x (ns @ t)" using assms(1) by (cases r) (auto simp: yields_def)
  show ?thesis using assms(2) [OF q] by (auto simp: r yields_def)
qed

lemma yields_more:
  assumes "yields E Q (ns @ t) r" and "\<And>x ns. Q x ns \<Longrightarrow> R x ns"
  shows "yields E R ns r"
  using assms by (auto simp: yields_def split: sum.splits)

lemma yields_weaken:
  assumes "yields E Q ns r" and "\<And>x t. Q x (ns @ t) \<Longrightarrow> R x (ns @ t)"
  shows "yields E R ns r"
  using assms by (auto simp: yields_def split: sum.splits)

lemma yields_noted: "yields E Q (add_notice p k l s ns) r \<Longrightarrow> yields E Q ns r"
  by (simp add: add_notice_def yields_more)

lemma yields_cut: "yields E Q (note_cut E n s p ns) r \<Longrightarrow> yields E Q ns r"
  by (auto simp: note_cut_def intro: yields_noted split: if_splits)

section \<open>The shape of the value\<close>

fun fits :: "nat \<Rightarrow> out \<Rightarrow> bool" where
  "fits 0 (OArray xs) = False"
| "fits (Suc n) (OArray xs) = list_all (fits n) xs"
| "fits 0 (OObject m) = False"
| "fits (Suc n) (OObject m) = list_all (\<lambda>(name, x). fits n x) m"
| "fits n _ = True"

fun well_typed :: "out \<Rightarrow> bool" where
  "well_typed (OInt i) = (\<bar>i\<bar> \<le> max_safe_integer)"
| "well_typed (OUint n) = (int n \<le> max_safe_integer)"
| "well_typed (OArray xs) = list_all well_typed xs"
| "well_typed (OObject m) = (distinct (map fst m) \<and> list_all (\<lambda>(name, x). well_typed x) m)"
| "well_typed _ = True"

lemma fits_mono: "fits n j \<Longrightarrow> n \<le> k \<Longrightarrow> fits k j"
proof (induction n arbitrary: k j)
  case 0
  then show ?case by (cases j) simp_all
next
  case (Suc n)
  obtain k' where k: "k = Suc k'" "n \<le> k'" using Suc.prems(2) by (cases k) auto
  show ?case
  proof (cases j)
    case (OArray xs)
    then show ?thesis using Suc k by (simp add: list_all_iff)
  next
    case (OObject m)
    then show ?thesis using Suc k by (simp add: list_all_iff case_prod_beta)
  qed simp_all
qed

definition complex_noted :: "notice list \<Rightarrow> bool" where
  "complex_noted ns = (\<exists>n \<in> set ns. nt_kind n = ''complex_number'')"

lemma complex_noted_append: "complex_noted ns \<Longrightarrow> complex_noted (ns @ t)"
  by (auto simp: complex_noted_def)

definition good :: "nat \<Rightarrow> out \<Rightarrow> notice list \<Rightarrow> bool" where
  "good n j ns \<longleftrightarrow> fits n j \<and> well_typed j \<and> (marshals j \<or> complex_noted ns)"

definition all_good :: "nat \<Rightarrow> out list \<Rightarrow> notice list \<Rightarrow> bool" where
  "all_good n xs ns \<longleftrightarrow> (\<forall>j \<in> set xs. good n j ns)"

definition good_object :: "nat \<Rightarrow> (string \<times> out) list \<Rightarrow> notice list \<Rightarrow> bool" where
  "good_object n m ns \<longleftrightarrow> distinct (map fst m) \<and> all_good n (map snd m) ns"

lemma good_append: "good n j ns \<Longrightarrow> good n j (ns @ t)" "all_good n xs ns \<Longrightarrow> all_good n xs (ns @ t)"
    "good_object n m ns \<Longrightarrow> good_object n m (ns @ t)"
  by (auto simp: good_def all_good_def good_object_def complex_noted_append)

lemma good_mono: "good n j ns \<Longrightarrow> n \<le> k \<Longrightarrow> good k j ns"
  by (auto simp: good_def fits_mono)

lemma all_good_mono: "all_good n xs ns \<Longrightarrow> n \<le> k \<Longrightarrow> all_good k xs ns"
  by (auto simp: all_good_def good_mono)

lemma good_leaf [simp]: "good n ONull ns" "good n (OBool b) ns" "good n (OString s) ns" "good n (OCount c) ns"
  by (simp_all add: good_def)

lemma good_OArray [simp]: "good (Suc n) (OArray xs) ns \<longleftrightarrow> all_good n xs ns"
  by (auto simp: good_def all_good_def list_all_iff)

lemma good_OObject [simp]: "good (Suc n) (OObject m) ns \<longleftrightarrow> good_object n m ns"
  by (auto simp: good_def all_good_def good_object_def list_all_iff)

lemma good_object_simps [simp]:
  "good_object n [] ns"
  "good_object n ((k, x) # m) ns \<longleftrightarrow> k \<notin> fst ` set m \<and> good n x ns \<and> good_object n m ns"
  by (auto simp: good_object_def all_good_def)

lemma good_object_mono: "good_object n m ns \<Longrightarrow> n \<le> k \<Longrightarrow> good_object k m ns"
  by (auto simp: good_object_def all_good_mono)

lemma all_good_simps [simp]: "all_good n [] ns" "all_good n (x # xs) ns \<longleftrightarrow> good n x ns \<and> all_good n xs ns"
  by (auto simp: all_good_def)

lemma snd_upsert: "(k', y) \<in> set (upsert k x (\<lambda>_. x) m) \<Longrightarrow> y = x \<or> (k', y) \<in> set m"
  by (induction m) (auto split: if_splits)

lemma good_put: "good_object n m ns \<Longrightarrow> good n x ns \<Longrightarrow> good_object n (obj_put k x m) ns"
  by (auto simp: good_object_def all_good_def obj_put_def distinct_upsert dest!: snd_upsert)

lemma good_binary: "good (Suc (Suc n)) (binary preview b) ns"
  by (auto simp: binary_def Let_def)

lemma good_complex:
  "good n (OFloat f) (add_notice p ''complex_number'' l s ns)"
proof -
  have "complex_noted (add_notice p ''complex_number'' l s ns)" by (simp add: complex_noted_def add_notice_def)
  then show ?thesis by (simp add: good_def)
qed

lemma good_marker [simp]: "good (Suc n) (marker k t) ns"
  by (simp add: marker_def)

section \<open>The walk builds good values\<close>

lemma items_good:
  assumes level: "\<And>act x p ns. yields E (good k) ns (enc_value E act x p d ns)"
  shows "yields E (all_good k) ns (enc_items E act xs p i d ns)"
proof (induction xs arbitrary: i ns)
  case (Cons x xs)
  show ?case unfolding enc_items.simps
    by (rule yields_bind [OF level], rule yields_bind [OF Cons.IH]) (simp add: good_append del: append_assoc)
qed simp

lemma fields_good:
  assumes level: "\<And>act x p ns. yields E (good k) ns (enc_value E act x p d ns)"
  shows "good_object k m ns \<Longrightarrow> yields E (good_object k) ns (enc_fields E act fs p d m ns)"
proof (induction fs arbitrary: m ns)
  case (Cons fx fs)
  obtain f x where fx: "fx = (f, x)" by (cases fx)
  show ?case
  proof (cases "field_name f")
    case None
    then show ?thesis using Cons by (simp add: fx)
  next
    case (Some name)
    show ?thesis unfolding fx enc_fields.simps Some option.case
      by (rule yields_bind [OF level], rule Cons.IH) (simp add: good_put good_append Cons.prems)
  qed
qed simp

lemma names_good:
  assumes level: "\<And>act x p ns. yields E (good k) ns (enc_value E act x p d ns)"
  shows "good_object k m ns \<Longrightarrow> yields E (good_object k) ns (enc_names E act kvs p d m ns)"
proof (induction kvs arbitrary: m ns)
  case (Cons kv kvs)
  obtain name x where kv: "kv = (name, x)" by (cases kv)
  show ?case unfolding kv enc_names.simps
    by (rule yields_bind [OF level], rule Cons.IH) (simp add: good_put good_append Cons.prems)
qed simp

lemma entries_good:
  assumes level: "\<And>act x p ns. yields E (good k) ns (enc_value E act x p d ns)"
  shows "yields E (all_good (Suc k)) ns (enc_entries E act kvs p i d ns)"
proof (induction kvs arbitrary: i ns)
  case (Cons kv kvs)
  obtain key x where kv: "kv = (key, x)" by (cases kv)
  show ?case unfolding kv enc_entries.simps
    by (rule yields_bind [OF level], rule yields_bind [OF level], rule yields_bind [OF Cons.IH])
      (simp add: good_append del: append_assoc)
qed simp

lemma good_scalars:
  "yields E (good (Suc n)) ns (enc_int t w p ns)" "yields E (good (Suc n)) ns (enc_uint t u p ns)"
  "yields E (good (Suc n)) ns (enc_float f p ns)"
  by (auto simp: enc_int_def enc_uint_def enc_float_def Let_def good_def abs_le_iff float_special_cases)

lemma good_pack:
  "all_good k xs ns \<Longrightarrow> good (Suc (Suc k)) (pack_items E n xs) ns"
  "good_object k m ns \<Longrightarrow> good (Suc k) (pack_names E n m) ns"
  "all_good k xs ns \<Longrightarrow> good (Suc (Suc k)) (pack_entries E n xs) ns"
  by (auto simp: pack_items_def pack_names_def pack_entries_def good_put intro: all_good_mono)

lemma kind_good:
  assumes level: "\<And>act x p ns. yields E (good k) ns (enc_value E act x p (Suc d) ns)"
  shows "yields E (good (Suc (Suc (Suc k)))) ns (enc_kind E act v p d ns)"
proof -
  have up: "yields E (good (Suc (Suc (Suc k)))) ns r" if "yields E (good k) ns r" for r
    using yields_more [of E "good k" ns "[]" r] that good_mono [of k] by simp
  show ?thesis
  proof (cases v)
    case (GStruct t fs)
    show ?thesis unfolding GStruct enc_kind_def go_value.case Suc_eq_plus1 [symmetric]
      by (rule yields_bind [OF fields_good [OF level]]) (auto intro: good_object_mono)
  next
    case (GSlice t xs)
    then show ?thesis
      by (cases xs) (auto simp: enc_kind_def intro!: yields_cut [OF yields_bind [OF items_good [OF level]]] good_mono [OF good_pack(1)])
  next
    case (GArray t xs)
    then show ?thesis
      by (auto simp: enc_kind_def intro!: yields_cut [OF yields_bind [OF items_good [OF level]]] good_mono [OF good_pack(1)])
  next
    case (GStringMap t m)
    then show ?thesis
      by (cases m) (auto simp: enc_kind_def intro!: yields_cut [OF yields_bind [OF names_good [OF level]]] good_mono [OF good_pack(2)])
  next
    case (GMap t m)
    then show ?thesis
      by (cases m) (auto simp: enc_kind_def intro!: yields_cut [OF yields_bind [OF entries_good [OF level]]] good_pack(3))
  qed (auto simp: enc_kind_def good_scalars good_binary good_complex level up split: option.split)
qed

lemma value_good: "yields E (good (3 * (en_max_depth E - d) + 2)) ns (enc_value E act v p d ns)"
proof (rule depth_induct [where P = "\<lambda>act v p d ns. yields E (good (3 * (en_max_depth E - d) + 2)) ns (enc_value E act v p d ns)"])
  fix d
  assume IH: "d < en_max_depth E \<Longrightarrow>
    \<forall>act v p ns. yields E (good (3 * (en_max_depth E - Suc d) + 2)) ns (enc_value E act v p (Suc d) ns)"
  show "\<forall>act v p ns. yields E (good (3 * (en_max_depth E - d) + 2)) ns (enc_value E act v p d ns)"
  proof (intro allI)
    fix act v p ns
    define k' where "k' = 3 * (en_max_depth E - Suc d) + 2"
    let ?r = "enc_value E act v p d ns"
    show "yields E (good (3 * (en_max_depth E - d) + 2)) ns ?r"
    proof (cases "d < en_max_depth E")
      case False
      then show ?thesis by (subst enc_value_eq) (simp add: numeral_2_eq_2)
    next
      case True
      have k: "3 * (en_max_depth E - d) + 2 = Suc (Suc (Suc k'))" using True by (simp add: k'_def)
      have kind: "yields E (good (Suc (Suc (Suc k')))) ns (enc_kind E act v p d ns)" for ns
        using IH [OF True] by (intro kind_good) (simp add: k'_def)
      show ?thesis unfolding k
        by (subst enc_value_eq)
          (use True in \<open>auto simp: kind panics_def intro: yields_noted [OF kind] simp del: mult_Suc_right split: marshal_result.split\<close>)
    qed
  qed
qed

section \<open>Text\<close>

text \<open>What \<^const>\<open>json_text\<close> changes contains the replacement character afterwards.\<close>

lemma contains_sub_in: "contains_sub (a @ p @ b) p"
proof (induction a)
  case Nil
  have "has_prefix (p @ b) p" by (auto simp: has_prefix_iff)
  then show ?case by (cases "p @ b") auto
qed simp

lemma replaced_text:
  assumes "\<exists>(r, w) \<in> set xs. r = 0xFFFD \<and> length w = 1"
  shows "contains_sub (concat (map (\<lambda>(r, w). if r = 0xFFFD \<and> length w = 1 then replacement else map char_of w) xs)) replacement"
proof -
  obtain w where "(0xFFFD, w) \<in> set xs" "length w = 1" using assms by auto
  then obtain ys zs where x: "xs = ys @ (0xFFFD, w) # zs" by (meson split_list)
  show ?thesis using \<open>length w = 1\<close> contains_sub_in unfolding x by simp
qed

lemma json_text_same:
  assumes "valid_string s \<or> \<not> contains_sub (json_text s) replacement"
  shows "json_text s = s"
proof -
  have ok: "\<not> (r = 0xFFFD \<and> length w = 1)" if "(r, w) \<in> set (runes (map ord s))" for r w
  proof
    assume bad: "r = 0xFFFD \<and> length w = 1"
    then have "\<not> valid_string s" using that by (auto simp: valid_string_def utf8_valid_def list_all_iff)
    moreover have "contains_sub (json_text s) replacement"
      unfolding json_text_def by (rule replaced_text) (use bad that in auto)
    ultimately show False using assms by blast
  qed
  have "concat (map (\<lambda>(r, w). if r = 0xFFFD \<and> length w = 1 then replacement else map char_of w) xs) = map char_of (concat (map snd xs))"
    if "\<And>r w. (r, w) \<in> set xs \<Longrightarrow> \<not> (r = 0xFFFD \<and> length w = 1)" for xs :: "(nat \<times> nat list) list"
    using that by (induction xs) (force split: if_splits)+
  from this [OF ok] have "json_text s = map char_of (concat (map snd (runes (map ord s))))"
    unfolding json_text_def .
  then show ?thesis by (simp add: concat_runes map_char_of_ord)
qed

lemma distinct_unreplaced:
  assumes "distinct xs"
  shows "distinct (filter (\<lambda>k. \<not> contains_sub k replacement) (map json_text xs))"
  using assms
proof (induction xs)
  case (Cons x xs)
  have "x \<notin> set (filter (\<lambda>k. \<not> contains_sub k replacement) (map json_text xs))" if "json_text x = x"
  proof
    assume "x \<in> set (filter (\<lambda>k. \<not> contains_sub k replacement) (map json_text xs))"
    then obtain y where y: "y \<in> set xs" "x = json_text y" "\<not> contains_sub (json_text y) replacement" by auto
    then have "x = y" using json_text_same [of y] by simp
    then show False using y(1) Cons.prems by simp
  qed
  then show ?case using Cons json_text_same [of x] by auto
qed simp

text \<open>What is written: integers within the safe range, and no key twice except where the replacement made it so.\<close>

fun json_typed :: "out \<Rightarrow> bool" where
  "json_typed (OInt i) = (\<bar>i\<bar> \<le> max_safe_integer)"
| "json_typed (OUint n) = (int n \<le> max_safe_integer)"
| "json_typed (OArray xs) = list_all json_typed xs"
| "json_typed (OObject m) = (distinct (filter (\<lambda>k. \<not> contains_sub k replacement) (map fst m)) \<and> list_all (\<lambda>(name, x). json_typed x) m)"
| "json_typed _ = True"

fun texts_valid :: "out \<Rightarrow> bool" where
  "texts_valid (OString s) = valid_string s"
| "texts_valid (OArray xs) = list_all texts_valid xs"
| "texts_valid (OObject m) = list_all (\<lambda>(name, x). valid_string name \<and> texts_valid x) m"
| "texts_valid _ = True"

lemma marshalled_typed: "well_typed j \<Longrightarrow> json_typed (marshalled j)"
proof (induction j rule: marshalled.induct)
  case (2 xs)
  then show ?case by (auto simp: list_all_iff)
next
  case (3 m)
  have "map fst (map (\<lambda>(k, x). (json_text k, marshalled x)) m) = map json_text (map fst m)" by (simp add: case_prod_beta comp_def)
  moreover have "distinct (map fst m)" using 3(2) by simp
  ultimately have "distinct (filter (\<lambda>k. \<not> contains_sub k replacement) (map fst (map (\<lambda>(k, x). (json_text k, marshalled x)) m)))"
    using distinct_unreplaced by presburger
  then show ?case using 3 by (simp only: marshalled.simps json_typed.simps) (auto simp: list_all_iff)
qed simp_all

lemma marshalled_marshals: "marshals j \<Longrightarrow> marshals (marshalled j)"
  by (induction j rule: marshalled.induct) (auto simp: list_all_iff)

lemma marshalled_fits: "fits n j \<Longrightarrow> fits n (marshalled j)"
proof (induction n arbitrary: j)
  case 0
  then show ?case by (cases j) simp_all
next
  case (Suc n)
  then show ?case by (cases j) (auto simp: list_all_iff)
qed

lemma marshalled_same: "texts_valid j \<Longrightarrow> marshalled j = j"
proof (induction j rule: marshalled.induct)
  case (2 xs)
  then show ?case by (simp add: list_all_iff map_idI)
next
  case (3 m)
  have "(json_text k, marshalled x) = (k, x)" if "(k, x) \<in> set m" for k x
    using 3 that by (auto simp: list_all_iff json_text_same)
  then show ?case by (auto intro!: map_idI)
qed (simp_all add: json_text_same)

text \<open>
  C16. Whatever value is encoded and under whatever options, cycles included, the walk ends. A value
  that is written nests at most three levels per level of the depth limit, and two; every integer in
  it is one that a reader with 64-bit floats keeps, no number is infinite or NaN, and no object has a key
  twice, but for keys with the replacement character U+FFFD, which different keys that are not UTF-8
  are written as. It fails only if a text marshaler panicked, or if there was a complex number, which
  a notice then names.
\<close>

theorem encoded_well_typed:
  "case encode opts heap marshal sprint v of
     (Inr j, ns) \<Rightarrow> json_typed j \<and> marshals j
       \<and> fits (3 * (if vo_max_depth opts \<le> 0 then 128 else nat (vo_max_depth opts)) + 2) j
   | (Inl (NormalizePanic m), ns) \<Rightarrow> \<exists>w. marshal w = MarshalPanics m
   | (Inl MarshalFailed, ns) \<Rightarrow> \<exists>n \<in> set ns. nt_kind n = ''complex_number''"
proof -
  let ?E = "encode_env opts heap marshal sprint"
  obtain r ns where r: "enc_value ?E [] v [] 0 [] = (r, ns)" by force
  have y: "yields ?E (good (3 * en_max_depth ?E + 2)) [] (r, ns)"
    using value_good [of ?E 0 "[]" "[]" v "[]"] by (simp add: r)
  have e: "en_max_depth ?E = (if vo_max_depth opts \<le> 0 then 128 else nat (vo_max_depth opts))" "en_marshal ?E = marshal"
    by (simp_all add: encode_env_def)
  show ?thesis
  proof (cases r)
    case (Inl m)
    then show ?thesis using y by (simp add: encode_def r yields_def panics_def e)
  next
    case (Inr j)
    have g: "good (3 * en_max_depth ?E + 2) j ns" using y by (simp add: Inr yields_def)
    show ?thesis
    proof (cases "marshals j")
      case True
      then show ?thesis using g unfolding good_def e
        by (simp add: encode_def r Inr marshalled_typed marshalled_marshals marshalled_fits)
    next
      case False
      then show ?thesis using g unfolding good_def by (simp add: encode_def r Inr complex_noted_def)
    qed
  qed
qed

text \<open>Two keys of a map that are not UTF-8 are written as one key, without a notice.\<close>

lemma keys_collide:
  "encode \<lparr>vo_max_depth = 0, vo_max_items = 0, vo_preview = 0\<rparr> (\<lambda>_ _. GInvalid) (\<lambda>_. NoMarshaler) (\<lambda>_. [])
     (GStringMap ''m'' (Some [([CHR 0xFE], GBool ''bool'' True), ([CHR 0xFF], GBool ''bool'' False)]))
   = (Inr (OObject [(replacement, OBool True), (replacement, OBool False)]), [])"
proof -
  let ?E = "encode_env \<lparr>vo_max_depth = 0, vo_max_items = 0, vo_preview = 0\<rparr> (\<lambda>_ _. GInvalid) (\<lambda>_. NoMarshaler) (\<lambda>_. [])"
  have "enc_value ?E [] (GStringMap ''m'' (Some [([CHR 0xFE], GBool ''bool'' True), ([CHR 0xFF], GBool ''bool'' False)])) [] 0 []
      = (Inr (OObject [([CHR 0xFE], OBool True), ([CHR 0xFF], OBool False)]), [])" by code_simp
  moreover have "json_text [CHR 0xFE] = replacement" "json_text [CHR 0xFF] = replacement"
    by (simp_all add: json_text_def runes.simps decode_rune_def cont_byte_def ord_def)
  ultimately show ?thesis by (simp add: encode_def)
qed

section \<open>Nothing is lost without a notice\<close>

text \<open>
  What an encoding says when nothing was cut, replaced or found cyclic, without depths, paths, limits
  and notices: \<^verbatim>\<open>represents\<close> for a value, \<^verbatim>\<open>represents_kind\<close> for one that is no text marshaler.
\<close>

definition object_of :: "(string \<times> out) list \<Rightarrow> (string \<times> out) list \<Rightarrow> (string \<times> out) list" where
  "object_of m kys = foldl (\<lambda>m (k, y). obj_put k y m) m kys"

definition kept_fields :: "(field_info \<times> go_value) list \<Rightarrow> (string \<times> go_value) list" where
  "kept_fields fs = List.map_filter (\<lambda>(f, x). map_option (\<lambda>name. (name, x)) (field_name f)) fs"

inductive represents :: "view_env \<Rightarrow> go_value \<Rightarrow> out \<Rightarrow> bool"
  and represents_kind :: "view_env \<Rightarrow> go_value \<Rightarrow> out \<Rightarrow> bool" for E
where
  rep_invalid: "represents E GInvalid ONull"
| rep_text: "en_marshal E v = MarshalText s \<Longrightarrow> represents E v (OString s)"
| rep_kind: "en_marshal E v = NoMarshaler \<Longrightarrow> represents_kind E v j \<Longrightarrow> represents E v j"
| rep_no_interface: "represents_kind E (GInterface t None) ONull"
| rep_interface: "represents E w j \<Longrightarrow> represents_kind E (GInterface t (Some w)) j"
| rep_no_pointer: "represents_kind E (GPointer t None) ONull"
| rep_pointer: "represents E (en_heap E t q) j \<Longrightarrow> represents_kind E (GPointer t (Some q)) j"
| rep_bool: "represents_kind E (GBool t b) (OBool b)"
| rep_string: "represents_kind E (GString t s) (OString s)"
| rep_int: "represents_kind E (GInt t w) (OInt (sint w))"
| rep_uint: "represents_kind E (GUint t u) (OUint (unat u))"
| rep_float: "\<not> float_special f \<Longrightarrow> represents_kind E (GFloat t f) (OFloat f)"
| rep_struct: "list_all2 (\<lambda>kx ky. fst kx = fst ky \<and> represents E (snd kx) (snd ky)) (kept_fields fs) kys
    \<Longrightarrow> represents_kind E (GStruct t fs) (OObject (object_of [(''$type'', OString t)] kys))"
| rep_no_bytes: "represents_kind E (GBytes t None) ONull"
| rep_bytes: "represents_kind E (GBytes t (Some b)) (binary (en_preview E) b)"
| rep_byte_array: "represents_kind E (GByteArray t b) (binary (en_preview E) b)"
| rep_no_slice: "represents_kind E (GSlice t None) ONull"
| rep_slice: "list_all2 (represents E) xs ys \<Longrightarrow> represents_kind E (GSlice t (Some xs)) (OArray ys)"
| rep_array: "list_all2 (represents E) xs ys \<Longrightarrow> represents_kind E (GArray t xs) (OArray ys)"
| rep_no_string_map: "represents_kind E (GStringMap t None) ONull"
| rep_string_map: "list_all2 (\<lambda>kx ky. fst kx = fst ky \<and> represents E (snd kx) (snd ky)) (sort_key fst kvs) kys
    \<Longrightarrow> represents_kind E (GStringMap t (Some kvs)) (OObject (object_of [] kys))"
| rep_no_map: "represents_kind E (GMap t None) ONull"
| rep_map: "list_all2 (\<lambda>kx ky. represents E (fst kx) (fst ky) \<and> represents E (snd kx) (snd ky)) (sort_key (key_text E \<circ> fst) kvs) kys
    \<Longrightarrow> represents_kind E (GMap t (Some kvs))
      (OObject [(''$map'', OArray (map (\<lambda>(k, y). OObject [(''key'', k), (''value'', y)]) kys))])"

definition silently :: "('a \<Rightarrow> bool) \<Rightarrow> 'a \<Rightarrow> notice list \<Rightarrow> bool" where
  "silently P x ns \<longleftrightarrow> (ns = [] \<longrightarrow> P x)"

lemma add_notice_ne [simp]: "add_notice p k l s ns \<noteq> []"
  by (simp add: add_notice_def)

lemma silently_add [simp]: "silently P x (add_notice p k l s ns)"
  by (simp add: silently_def)

lemma silently_append: "silently P x ns \<Longrightarrow> silently P x (ns @ t)"
  by (simp add: silently_def)

lemma silently_mono: "silently P x ns \<Longrightarrow> (P x \<Longrightarrow> Q y) \<Longrightarrow> silently Q y ns"
  by (simp add: silently_def)

lemma items_represent:
  assumes level: "\<And>act x p ns. yields E (silently (represents E x)) ns (enc_value E act x p d ns)"
  shows "yields E (silently (list_all2 (represents E) xs)) ns (enc_items E act xs p i d ns)"
proof (induction xs arbitrary: i ns)
  case (Cons x xs)
  show ?case unfolding enc_items.simps
    by (rule yields_bind [OF level], rule yields_bind [OF Cons.IH]) (simp add: silently_def)
qed (simp add: silently_def)

text \<open>Named values and what they become, in the same order.\<close>

abbreviation named :: "view_env \<Rightarrow> (string \<times> go_value) list \<Rightarrow> (string \<times> out) list \<Rightarrow> bool" where
  "named E \<equiv> list_all2 (\<lambda>kx ky. fst kx = fst ky \<and> represents E (snd kx) (snd ky))"

lemma object_of_Cons: "object_of m ((k, y) # kys) = object_of (obj_put k y m) kys"
  by (simp add: object_of_def)

lemma named_Cons:
  "represents E x y \<Longrightarrow> \<exists>kys. named E kvs kys \<and> r = object_of (obj_put k y m) kys
    \<Longrightarrow> \<exists>kys. named E ((k, x) # kvs) kys \<and> r = object_of m kys"
  by (elim exE, rule_tac x = "(k, y) # kys" in exI) (simp add: object_of_Cons)

lemma names_represent:
  assumes level: "\<And>act x p ns. yields E (silently (represents E x)) ns (enc_value E act x p d ns)"
  shows "yields E (silently (\<lambda>r. \<exists>kys. named E kvs kys \<and> r = object_of m kys)) ns (enc_names E act kvs p d m ns)"
proof (induction kvs arbitrary: m ns)
  case (Cons kv kvs)
  obtain name x where kv: "kv = (name, x)" by (cases kv)
  show ?case unfolding kv enc_names.simps
    by (rule yields_bind [OF level], rule yields_weaken [OF Cons.IH]) (auto simp: silently_def intro!: named_Cons)
qed (simp add: silently_def object_of_def)

lemma kept_fields_simps [simp]:
  "kept_fields [] = []"
  "kept_fields ((f, x) # fs) = (case field_name f of None \<Rightarrow> kept_fields fs | Some name \<Rightarrow> (name, x) # kept_fields fs)"
  by (simp_all add: kept_fields_def List.map_filter_simps split: option.split)

lemma fields_represent:
  assumes level: "\<And>act x p ns. yields E (silently (represents E x)) ns (enc_value E act x p d ns)"
  shows "yields E (silently (\<lambda>r. \<exists>kys. named E (kept_fields fs) kys \<and> r = object_of m kys)) ns (enc_fields E act fs p d m ns)"
proof (induction fs arbitrary: m ns)
  case (Cons fx fs)
  obtain f x where fx: "fx = (f, x)" by (cases fx)
  show ?case
  proof (cases "field_name f")
    case None
    then show ?thesis using Cons by (simp add: fx)
  next
    case (Some name)
    show ?thesis unfolding fx enc_fields.simps kept_fields_simps Some option.case
      by (rule yields_bind [OF level], rule yields_weaken [OF Cons.IH]) (auto simp: silently_def intro!: named_Cons)
  qed
qed (simp add: silently_def object_of_def)

abbreviation pairs :: "view_env \<Rightarrow> (go_value \<times> go_value) list \<Rightarrow> (out \<times> out) list \<Rightarrow> bool" where
  "pairs E \<equiv> list_all2 (\<lambda>kx ky. represents E (fst kx) (fst ky) \<and> represents E (snd kx) (snd ky))"

abbreviation entry_object :: "out \<times> out \<Rightarrow> out" where
  "entry_object \<equiv> \<lambda>(k, y). OObject [(''key'', k), (''value'', y)]"

lemma pairs_Cons:
  "represents E k k' \<Longrightarrow> represents E x x' \<Longrightarrow> \<exists>kys. pairs E kvs kys \<and> r = map entry_object kys
    \<Longrightarrow> \<exists>kys. pairs E ((k, x) # kvs) kys \<and> OObject [(''key'', k'), (''value'', x')] # r = map entry_object kys"
  by (elim exE, rule_tac x = "(k', x') # kys" in exI) simp

lemma entries_represent:
  assumes level: "\<And>act x p ns. yields E (silently (represents E x)) ns (enc_value E act x p d ns)"
  shows "yields E (silently (\<lambda>r. \<exists>kys. pairs E kvs kys \<and> r = map entry_object kys)) ns (enc_entries E act kvs p i d ns)"
proof (induction kvs arbitrary: i ns)
  case (Cons kv kvs)
  obtain k x where kv: "kv = (k, x)" by (cases kv)
  show ?case unfolding kv enc_entries.simps
    by (rule yields_bind [OF level], rule yields_bind [OF level], rule yields_bind [OF Cons.IH])
      (auto simp: silently_def intro!: pairs_Cons)
qed (simp add: silently_def)

lemma scalars_represent:
  "yields E (silently (represents_kind E (GInt t w))) ns (enc_int t w p ns)"
  "yields E (silently (represents_kind E (GUint t u))) ns (enc_uint t u p ns)"
  "yields E (silently (represents_kind E (GFloat t f))) ns (enc_float f p ns)"
  by (auto simp: enc_int_def enc_uint_def enc_float_def Let_def float_special_cases silently_def intro: represents_represents_kind.intros)

text \<open>Cutting a collection leaves a notice.\<close>

lemma uncut:
  assumes "yields E (silently Q) (note_cut E n s p ns) r" and "\<And>x. item_limit E n = n \<Longrightarrow> Q x \<Longrightarrow> P x"
  shows "yields E (silently P) ns r"
proof (cases "item_limit E n < n")
  case False
  then have "item_limit E n = n" by (auto simp: item_limit_def split: if_splits)
  then show ?thesis using assms by (auto simp: note_cut_def silently_def intro: yields_weaken)
next
  case True
  then show ?thesis using assms(1)
    by (auto simp: note_cut_def yields_def add_notice_def silently_def split: sum.splits)
qed

lemma packed:
  assumes "yields E (silently Q) (note_cut E n s p ns) r" and "\<And>x. item_limit E n = n \<Longrightarrow> Q x \<Longrightarrow> P (pack x)"
  shows "yields E (silently P) ns (enc_bind r (\<lambda>x ns. (Inr (pack x), ns)))"
proof (rule uncut)
  show "yields E (silently (\<lambda>j. \<exists>x. j = pack x \<and> Q x)) (note_cut E n s p ns) (enc_bind r (\<lambda>x ns. (Inr (pack x), ns)))"
    by (rule yields_bind [OF assms(1)]) (auto simp: silently_def)
qed (auto intro: assms(2))

lemma kind_represents:
  assumes level: "\<And>act x p ns. yields E (silently (represents E x)) ns (enc_value E act x p (Suc d) ns)"
    and valid: "v \<noteq> GInvalid"
  shows "yields E (silently (represents_kind E v)) ns (enc_kind E act v p d ns)"
proof -
  note intros = represents_represents_kind.intros
  have up: "yields E (silently (represents_kind E v)) ns (enc_value E act x p (Suc d) ns)"
    if "\<And>j. represents E x j \<Longrightarrow> represents_kind E v j" for act x
    by (rule yields_weaken [OF level]) (use that in \<open>auto simp: silently_def\<close>)
  show ?thesis
  proof (cases v)
    case (GInterface t x)
    then show ?thesis using up by (cases x) (auto simp: enc_kind_def silently_def intro: intros)
  next
    case (GPointer t a)
    then show ?thesis using up by (cases a) (auto simp: enc_kind_def silently_def intro: intros)
  next
    case (GStruct t fs)
    show ?thesis unfolding GStruct enc_kind_def go_value.case Suc_eq_plus1 [symmetric]
      by (rule yields_bind [OF fields_represent [OF level]]) (auto simp: silently_def intro: intros)
  next
    case (GBytes t b)
    then show ?thesis by (cases b) (auto simp: enc_kind_def silently_def intro: intros)
  next
    case (GSlice t xs)
    then show ?thesis
      by (cases xs) (auto simp: enc_kind_def silently_def [of _ _ ns] pack_items_def intro!: packed [OF items_represent [OF level]] intro: intros)
  next
    case (GArray t xs)
    then show ?thesis
      by (auto simp: enc_kind_def pack_items_def intro!: packed [OF items_represent [OF level]] intro: intros)
  next
    case (GStringMap t m)
    then show ?thesis
      by (cases m) (auto simp: enc_kind_def silently_def [of _ _ ns] pack_names_def intro!: packed [OF names_represent [OF level]] intro: intros)
  next
    case (GMap t m)
    then show ?thesis
      by (cases m) (auto simp: enc_kind_def silently_def [of _ _ ns] pack_entries_def intro!: packed [OF entries_represent [OF level]] intro: intros)
  qed (use valid in \<open>auto simp: enc_kind_def scalars_represent silently_def intro: intros\<close>)
qed

lemma value_represents: "yields E (silently (represents E v)) ns (enc_value E act v p d ns)"
proof (rule depth_induct [where P = "\<lambda>act v p d ns. yields E (silently (represents E v)) ns (enc_value E act v p d ns)"])
  fix d
  assume IH: "d < en_max_depth E \<Longrightarrow> \<forall>act v p ns. yields E (silently (represents E v)) ns (enc_value E act v p (Suc d) ns)"
  show "\<forall>act v p ns. yields E (silently (represents E v)) ns (enc_value E act v p d ns)"
  proof (intro allI)
    fix act v p ns
    note intros = represents_represents_kind.intros
    show "yields E (silently (represents E v)) ns (enc_value E act v p d ns)"
    proof (cases "d < en_max_depth E \<and> v \<noteq> GInvalid")
      case False
      then show ?thesis by (subst enc_value_eq) (auto simp: silently_def [of _ ONull] intro: intros)
    next
      case both: True
      then have True: "d < en_max_depth E" and valid: "v \<noteq> GInvalid" by simp_all
      have kind: "yields E (silently (represents_kind E v)) ns (enc_kind E act v p d ns)" for ns
        using IH [OF True] valid by (intro kind_represents) blast+
      have none: "yields E (silently (represents E v)) ns (enc_kind E act v p d ns)" if m: "en_marshal E v = NoMarshaler"
        by (rule yields_weaken [OF kind]) (use m in \<open>auto simp: silently_def intro: intros\<close>)
      have failed: "yields E (silently (represents E v)) ns (enc_kind E act v p d (add_notice p k l s ns))" for k l s
        using kind [of "add_notice p k l s ns"] by (auto simp: yields_def add_notice_def silently_def split: sum.splits)
      show ?thesis
        by (subst enc_value_eq)
          (use True valid in \<open>auto simp: none failed panics_def silently_def [of _ _ ns] intro: intros split: marshal_result.split\<close>)
    qed
  qed
qed


definition demo_packet :: go_value where
  "demo_packet = GPointer ''*packet.Text'' (Some 1)"

definition demo_heap :: "string \<Rightarrow> nat \<Rightarrow> go_value" where
  "demo_heap t q = (if q = 1 then GStruct ''packet.Text''
     [(\<lparr>fi_name = ''Message'', fi_exported = True, fi_tag = ''message,omitempty''\<rparr>, GString ''string'' ''hello''),
      (\<lparr>fi_name = ''cached'', fi_exported = False, fi_tag = []\<rparr>, GInt ''int'' 3),
      (\<lparr>fi_name = ''Levels'', fi_exported = True, fi_tag = []\<rparr>, GSlice ''[]int32'' (Some [GInt ''int32'' 7, GInt ''int32'' (- 1)]))]
     else GInvalid)"

definition demo_view_options :: encode_options where
  "demo_view_options = \<lparr>vo_max_depth = 0, vo_max_items = 8, vo_preview = 16\<rparr>"

definition demo_encoding :: out where
  "demo_encoding = OObject [(''$type'', OString ''packet.Text''), (''message'', OString ''hello''),
     (''Levels'', OArray [OInt 7, OInt (- 1)])]"

lemma demo_encoded: "encode demo_view_options demo_heap (\<lambda>v. NoMarshaler) (\<lambda>v. []) demo_packet = (Inr demo_encoding, [])"
proof -
  have "enc_value (encode_env demo_view_options demo_heap (\<lambda>v. NoMarshaler) (\<lambda>v. [])) [] demo_packet [] 0 [] = (Inr demo_encoding, [])" by code_simp
  moreover have "valid_string s" if "list_all (\<lambda>c. ord c < 0x80) s" for s
    using that utf8_valid_ascii [of "map ord s"] by (auto simp: valid_string_def list_all_iff)
  then have "texts_valid demo_encoding" by (simp add: demo_encoding_def ord_def)
  ultimately show ?thesis by (simp add: encode_def marshalled_same) (simp add: demo_encoding_def)
qed


end
