(* ===== verification/Golem.thy ===== *)
theory Golem
  imports Go_Json Go_Time
begin

text \<open>
  The network client that scenarios drive (\<^verbatim>\<open>internal/golemnet/client.go\<close>): its configuration, the
  forms and events it makes of packets, its bounded history and event queue, and the end of a session.
  \<^verbatim>\<open>Golem_Session\<close> adds the goroutines. The Minecraft connection is a record of what the client asks
  of it; reading, writing, dialing and spawning have their outcomes as arguments. An observer of the
  configuration is present or not; its answer is an argument. The HTTP client and the logger of the
  configuration do not influence the session and are left out.
\<close>

definition golem_schema :: string where "golem_schema = ''bedrockdebugproxy.golem.network.v1''"
definition max_event_buffer :: nat where "max_event_buffer = 1024"
definition max_history :: nat where "max_history = 4096"
definition max_form_bytes :: nat where "max_form_bytes = 2 ^ 20"
definition max_chat_bytes :: nat where "max_chat_bytes = 64 * 2 ^ 10"
definition max_form_buttons :: nat where "max_form_buttons = 1024"
definition max_transfer_hops :: int where "max_transfer_hops = 64"
definition default_input_interval :: int where "default_input_interval = 50 * 10 ^ 6"
definition min_input_interval :: int where "min_input_interval = 20 * 10 ^ 6"
definition max_input_interval :: int where "max_input_interval = 10 ^ 9"

datatype golem_error = GAddressEmpty | GAddressLineBreak | GAddressSyntax addr_error | GHostEmpty | GPortInvalid string
  | GMaxHops | GConnectTimeout | GInputInterval
  | GClosed | GEventBuffer | GNoForm | GHopLimit int | GTarget golem_error | GLibrary string
  | GDial golem_error | GSpawn golem_error | GObservePacks golem_error | GObserveSpawn golem_error
  | GWriteInput string | GFlushInput string | GResponseEmpty | GResponseInvalid | GWrite string | GFlush string
  | GButtonRange int int | GChatEmpty | GChatSize | GCloseTimeout | GContext string | GWaitDuration

section \<open>Configuration\<close>

record golem_config =
  gc_address :: string
  gc_transport :: string
  gc_network :: bool
  gc_identity :: string
  gc_client :: string
  gc_connect_timeout :: int
  gc_follow :: bool
  gc_max_hops :: int
  gc_input_interval :: int
  gc_packs_observer :: bool
  gc_spawn_observer :: bool

definition golem_validate_address :: "string \<Rightarrow> golem_error + unit" where
  "golem_validate_address address =
     (case split_host_port (trim_space address) of
        Inl e \<Rightarrow> Inl (GAddressSyntax e)
      | Inr (host, port) \<Rightarrow>
          if trim_space host = [] then Inl GHostEmpty
          else case parse_uint 16 port of
            None \<Rightarrow> Inl (GPortInvalid port)
          | Some n \<Rightarrow> if n = 0 then Inl (GPortInvalid port) else Inr ())"

definition golem_defaults :: "golem_config \<Rightarrow> golem_config" where
  "golem_defaults g =
     g\<lparr>gc_transport := (if gc_transport g = [] then ''raknet'' else gc_transport g),
       gc_max_hops := (if gc_max_hops g = 0 then max_transfer_hops else gc_max_hops g),
       gc_connect_timeout := (if gc_connect_timeout g = 0 then 15 * 60 * 10 ^ 9 else gc_connect_timeout g),
       gc_input_interval := (if gc_input_interval g = 0 then default_input_interval else gc_input_interval g)\<rparr>"

definition golem_check :: "golem_config \<Rightarrow> golem_error + golem_config" where
  "golem_check g0 =
     (if trim_space (gc_address g0) = [] then Inl GAddressEmpty
      else if contains_any (gc_address g0) {CHR 0x0D, CHR 0x0A} then Inl GAddressLineBreak
      else res_bind (if gc_network g0 then Inr () else golem_validate_address (gc_address g0)) (\<lambda>_.
        let g = golem_defaults g0 in
        if gc_max_hops g < 1 \<or> gc_max_hops g > max_transfer_hops then Inl GMaxHops
        else if gc_connect_timeout g \<le> 0 \<or> gc_connect_timeout g > 30 * 60 * 10 ^ 9 then Inl GConnectTimeout
        else if gc_input_interval g < min_input_interval \<or> gc_input_interval g > max_input_interval then Inl GInputInterval
        else Inr g))"

section \<open>Forms\<close>

datatype form_error = FormTooLarge | FormNotJson | FormTooManyButtons nat

record form =
  fo_id :: u32
  fo_type :: string
  fo_title :: string
  fo_text :: string
  fo_buttons :: "(int \<times> string) list"
  fo_raw :: string
  fo_status :: string
  fo_error :: "form_error option"
  fo_hop :: int
  fo_at :: instant

definition decode_button :: "json \<Rightarrow> string option" where
  "decode_button j = (if json_object_like j then field_with json_string [] ''text'' j else None)"

fun decode_buttons :: "json \<Rightarrow> string list option" where
  "decode_buttons (JArr js) =
     (if list_all (\<lambda>j. decode_button j \<noteq> None) js then Some (map (the \<circ> decode_button) js) else None)"
| "decode_buttons _ = None"

definition decode_form :: "string \<Rightarrow> (string \<times> string \<times> string \<times> string list) option" where
  "decode_form raw =
     (case unmarshal_object (Some raw) of
        None \<Rightarrow> None
      | Some j \<Rightarrow>
          (case (field_with json_string [] ''type'' j, field_with json_string [] ''title'' j,
                 field_with json_string [] ''text'' j, field_with decode_buttons [] ''buttons'' j) of
             (Some kind, Some title, Some body, Some buttons) \<Rightarrow> Some (kind, title, body, buttons)
           | _ \<Rightarrow> None))"

definition parse_form :: "u32 \<Rightarrow> string \<Rightarrow> int \<Rightarrow> instant \<Rightarrow> form" where
  "parse_form n raw hop at =
     (let f = \<lparr>fo_id = n, fo_type = [], fo_title = [], fo_text = [], fo_buttons = [], fo_raw = raw,
               fo_status = ''invalid'', fo_error = None, fo_hop = hop, fo_at = at\<rparr> in
      if length raw > max_form_bytes then f\<lparr>fo_error := Some FormTooLarge\<rparr>
      else case decode_form raw of
        None \<Rightarrow> f\<lparr>fo_error := Some FormNotJson\<rparr>
      | Some (kind, title, body, buttons) \<Rightarrow>
          if length buttons > max_form_buttons then f\<lparr>fo_error := Some (FormTooManyButtons max_form_buttons)\<rparr>
          else f\<lparr>fo_type := kind, fo_title := title, fo_text := body,
                 fo_buttons := zip (map int [0..<length buttons]) buttons, fo_status := ''decoded''\<rparr>)"

section \<open>Events\<close>

record golem_transfer =
  gt_address :: string
  gt_port :: "16 word"
  gt_target :: string
  gt_reload :: bool
  gt_hop :: int
  gt_followed :: bool
  gt_error :: "golem_error option"

record golem_event =
  ge_sequence :: u64
  ge_kind :: string
  ge_packet :: string
  ge_message :: string
  ge_form :: "form option"
  ge_transfer :: "golem_transfer option"
  ge_hop :: int
  ge_at :: instant

text \<open>A decoded packet: the four types the client looks into, and any other with its Go type.\<close>

datatype golem_packet = ModalFormRequest u32 string | TransferPacket string "16 word" bool
  | TextPacket string | DisconnectPacket string | OtherPacket string | NilPacket

fun packet_type :: "golem_packet \<Rightarrow> string" where
  "packet_type (ModalFormRequest _ _) = ''*packet.ModalFormRequest''"
| "packet_type (TransferPacket _ _ _) = ''*packet.Transfer''"
| "packet_type (TextPacket _) = ''*packet.Text''"
| "packet_type (DisconnectPacket _) = ''*packet.Disconnect''"
| "packet_type (OtherPacket t) = t"
| "packet_type NilPacket = ''<nil>''"

definition golem_packet_name :: "golem_packet \<Rightarrow> string" where
  "golem_packet_name p =
     (if p = NilPacket then ''<nil>''
      else let name = packet_type p in
        trim_prefix (case last_index CHR ''.'' name of Some i \<Rightarrow> drop (i + 1) name | None \<Rightarrow> name) ''*'')"

definition plain_event :: "string \<Rightarrow> int \<Rightarrow> instant \<Rightarrow> golem_event" where
  "plain_event kind hop at =
     \<lparr>ge_sequence = 0, ge_kind = kind, ge_packet = [], ge_message = [], ge_form = None, ge_transfer = None,
      ge_hop = hop, ge_at = at\<rparr>"

definition event_for_packet :: "golem_packet \<Rightarrow> int \<Rightarrow> instant \<Rightarrow> golem_event" where
  "event_for_packet p hop at =
     (let e = (plain_event ''packet'' hop at)\<lparr>ge_packet := golem_packet_name p\<rparr> in
      case p of
        ModalFormRequest n data \<Rightarrow> e\<lparr>ge_kind := ''form'', ge_form := Some (parse_form n data hop at)\<rparr>
      | TransferPacket a port reload \<Rightarrow>
          (let address = trim_space (trim_chars {CHR ''['', CHR '']''} a) in
           e\<lparr>ge_kind := ''transfer'',
             ge_transfer := Some \<lparr>gt_address = address, gt_port = port, gt_target = join_host_port address (itoa (unat port)),
               gt_reload = reload, gt_hop = hop, gt_followed = False, gt_error = None\<rparr>\<rparr>)
      | TextPacket m \<Rightarrow> e\<lparr>ge_kind := ''text'', ge_message := m\<rparr>
      | DisconnectPacket m \<Rightarrow> e\<lparr>ge_kind := ''disconnect'', ge_message := m\<rparr>
      | _ \<Rightarrow> e)"

section \<open>Client\<close>

text \<open>A connection: its identity as a resource, and what it answers to the client.\<close>

record connection =
  cn_id :: nat
  cn_identity :: string
  cn_client :: string
  cn_local :: "string option"
  cn_guid :: int
  cn_packs :: int
  cn_authenticated :: bool
  cn_input_mode :: int
  cn_view :: "string list"

record client =
  gl_config :: golem_config
  gl_started_ctx :: bool
  gl_cancelled :: bool
  gl_conn :: "connection option"
  gl_hop :: int
  gl_open :: "nat list"
  gl_input_paused :: bool
  gl_events :: "golem_event list"
  gl_done :: bool
  gl_history :: "golem_event list"
  gl_sequence :: u64
  gl_current_form :: "form option"
  gl_started :: "instant option"
  gl_ended :: "instant option"
  gl_spawned :: bool
  gl_closed :: bool
  gl_reader_started :: bool
  gl_terminal :: "golem_error option"
  gl_close_once :: bool
  gl_packet_count :: "(string \<times> int) list"
  gl_resource_packs :: int
  gl_input_tick :: u64
  gl_input_packets :: int
  gl_last_input :: "instant option"
  gl_forms :: "form list"
  gl_transfers :: "golem_transfer list"
  gl_messages :: "string list"
  gl_errors :: "golem_error list"
  gl_hops :: int

definition empty_client :: "golem_config \<Rightarrow> client" where
  "empty_client g =
     \<lparr>gl_config = g, gl_started_ctx = False, gl_cancelled = False, gl_conn = None, gl_hop = 0, gl_open = [],
      gl_input_paused = False, gl_events = [], gl_done = False, gl_history = [], gl_sequence = 0, gl_current_form = None,
      gl_started = None, gl_ended = None, gl_spawned = False, gl_closed = False, gl_reader_started = False,
      gl_terminal = None, gl_close_once = False, gl_packet_count = [], gl_resource_packs = 0, gl_input_tick = 0,
      gl_input_packets = 0, gl_last_input = None, gl_forms = [], gl_transfers = [], gl_messages = [], gl_errors = [],
      gl_hops = 0\<rparr>"

definition new_client :: "golem_config \<Rightarrow> golem_error + client" where
  "new_client g0 = (case golem_check g0 of Inl e \<Rightarrow> Inl e | Inr g \<Rightarrow> Inr (empty_client g))"

section \<open>The end of a session\<close>

definition close_done :: "client \<Rightarrow> client" where
  "close_done c = c\<lparr>gl_done := True\<rparr>"

definition close_connection :: "nat \<Rightarrow> client \<Rightarrow> client" where
  "close_connection n c = c\<lparr>gl_open := removeAll n (gl_open c)\<rparr>"

definition finish :: "instant \<Rightarrow> client \<Rightarrow> client" where
  "finish now c =
     (if gl_close_once c then c
      else
        (let c1 = c\<lparr>gl_close_once := True, gl_cancelled := gl_cancelled c \<or> gl_started_ctx c\<rparr>;
             c2 = (case gl_conn c1 of None \<Rightarrow> c1 | Some k \<Rightarrow> close_connection (cn_id k) c1);
             c3 = c2\<lparr>gl_closed := True, gl_ended := Some now\<rparr>
         in if gl_reader_started c3 then c3 else close_done c3))"

definition fail_client :: "golem_error \<Rightarrow> instant \<Rightarrow> client \<Rightarrow> client" where
  "fail_client e now c =
     finish now
       (if gl_terminal c = None
        then c\<lparr>gl_terminal := Some e,
               gl_errors := (if length (gl_errors c) < max_history then gl_errors c @ [e] else gl_errors c)\<rparr>
        else c)"

section \<open>Recording\<close>

definition numbered :: "golem_event \<Rightarrow> client \<Rightarrow> golem_event" where
  "numbered e c = e\<lparr>ge_sequence := gl_sequence c + 1\<rparr>"

text \<open>The first mutex section of \<^verbatim>\<open>record\<close>, for an event that has its number.\<close>

definition retain_event :: "golem_event \<Rightarrow> client \<Rightarrow> client" where
  "retain_event e c =
     c\<lparr>gl_sequence := ge_sequence e,
       gl_history := (if length (gl_history c) \<ge> max_history then tl (gl_history c) @ [e] else gl_history c @ [e]),
       gl_packet_count := (if ge_packet e \<noteq> [] then bump (ge_packet e) (gl_packet_count c) else gl_packet_count c),
       gl_forms := (case ge_form e of None \<Rightarrow> gl_forms c | Some f \<Rightarrow> gl_forms c @ [f]),
       gl_current_form := (case ge_form e of None \<Rightarrow> gl_current_form c | Some f \<Rightarrow> Some f),
       gl_transfers := (case ge_transfer e of None \<Rightarrow> gl_transfers c | Some t \<Rightarrow> gl_transfers c @ [t]),
       gl_messages := (if ge_message e \<noteq> [] \<and> ge_kind e = ''text'' \<and> length (gl_messages c) < max_history
                       then gl_messages c @ [ge_message e] else gl_messages c)\<rparr>"

definition record_event :: "golem_event \<Rightarrow> instant \<Rightarrow> client \<Rightarrow> client \<times> bool" where
  "record_event e0 now c0 =
     (let e = numbered e0 c0; c = retain_event e c0 in
      if ge_kind e = ''packet'' then (c, True)
      else if length (gl_events c) < max_event_buffer then (c\<lparr>gl_events := gl_events c @ [e]\<rparr>, True)
      else (fail_client GEventBuffer now c, False))"

text \<open>The last transfer with the target and hop of \<^verbatim>\<open>t\<close> is replaced by it.\<close>

definition replace_last :: "('a \<Rightarrow> bool) \<Rightarrow> 'a \<Rightarrow> 'a list \<Rightarrow> 'a list" where
  "replace_last P y xs =
     (case dropWhile (\<lambda>x. \<not> P x) (rev xs) of
        [] \<Rightarrow> xs
      | _ # rest \<Rightarrow> rev rest @ y # rev (takeWhile (\<lambda>x. \<not> P x) (rev xs)))"

definition same_transfer :: "golem_transfer \<Rightarrow> golem_transfer \<Rightarrow> bool" where
  "same_transfer t x = (gt_target x = gt_target t \<and> gt_hop x = gt_hop t)"

definition update_transfer :: "golem_transfer option \<Rightarrow> client \<Rightarrow> client" where
  "update_transfer t c =
     (case t of None \<Rightarrow> c | Some t \<Rightarrow> c\<lparr>gl_transfers := replace_last (same_transfer t) t (gl_transfers c)\<rparr>)"

definition set_connection :: "connection \<Rightarrow> int \<Rightarrow> client \<Rightarrow> client" where
  "set_connection k hop c = c\<lparr>gl_conn := Some k, gl_hop := hop\<rparr>"

end
