(* ===== verification/Golem_Session.thy ===== *)
theory Golem_Session
  imports Golem
begin

text \<open>
  A session of the network client: \<^verbatim>\<open>Start\<close>, the reader goroutine with the following of transfers,
  the input goroutine, and the operations of a scenario. The reader's place in its loop is explicit, so
  that a \<^verbatim>\<open>Close\<close> or a failure of the input loop can come between any two of its steps.
\<close>

section \<open>Dialing\<close>

datatype network_choice = ConfigNetwork | DefaultRakNet | RakNetFrom "string option" int | HttpsNetwork

record dial_request =
  dr_address :: string
  dr_network :: network_choice
  dr_identity :: string
  dr_client :: string
  dr_local :: "string option"
  dr_guid :: int
  dr_hop :: int

definition first_dial :: "golem_config \<Rightarrow> dial_request" where
  "first_dial g =
     \<lparr>dr_address = gc_address g, dr_network = (if gc_network g then ConfigNetwork else DefaultRakNet),
      dr_identity = gc_identity g, dr_client = gc_client g, dr_local = None, dr_guid = 0, dr_hop = 1\<rparr>"

text \<open>\<^verbatim>\<open>transferHTTPSNetherNet\<close>: \<open>connects\<close> is whether \<^verbatim>\<open>experience.NewHTTPSNetherNetNetwork\<close> succeeds.\<close>

definition golem_https_address :: "(string \<Rightarrow> bool) \<Rightarrow> string \<Rightarrow> string option" where
  "golem_https_address connects target =
     (case split_host_port target of
        Inl _ \<Rightarrow> None
      | Inr (host, port) \<Rightarrow>
          if trim_space host = [] then None
          else (let address = ''https://'' @ join_host_port host port in
            if connects address then Some address else None))"

definition hop_dial :: "golem_config \<Rightarrow> (string \<Rightarrow> bool) \<Rightarrow> golem_transfer \<Rightarrow> connection \<Rightarrow> int \<Rightarrow> dial_request" where
  "hop_dial g connects t previous hop =
     (let https = (if contains_sub (gc_transport g) ''nethernet'' then golem_https_address connects (gt_target t) else None);
          address = (case https of None \<Rightarrow> gt_target t | Some a \<Rightarrow> a);
          network = (case https of Some _ \<Rightarrow> HttpsNetwork | None \<Rightarrow> if gc_network g then ConfigNetwork else DefaultRakNet)
      in \<lparr>dr_address = address,
          dr_network = (if network = DefaultRakNet \<or> address = gt_target t
                        then RakNetFrom (cn_local previous) (cn_guid previous) else network),
          dr_identity = cn_identity previous, dr_client = cn_client previous,
          dr_local = cn_local previous, dr_guid = cn_guid previous, dr_hop = hop + 1\<rparr>)"

section \<open>Starting\<close>

record start_world =
  sw_dial :: "string + connection"
  sw_spawn :: "string option"
  sw_packs :: "string option"
  sw_observe :: "string option"
  sw_time :: instant

definition open_connection :: "connection \<Rightarrow> client \<Rightarrow> client" where
  "open_connection k c = c\<lparr>gl_open := cn_id k # gl_open c\<rparr>"

definition publish_spawn :: "connection \<Rightarrow> int \<Rightarrow> int \<Rightarrow> client \<Rightarrow> client" where
  "publish_spawn k hop packs c =
     (set_connection k hop c)\<lparr>gl_spawned := True, gl_hops := hop, gl_resource_packs := packs\<rparr>"

definition spawned_event :: "int \<Rightarrow> instant \<Rightarrow> golem_event" where
  "spawned_event hop at = plain_event ''session.spawned'' hop at"

text \<open>The result says whether the goroutines run.\<close>

definition start_client :: "start_world \<Rightarrow> client \<Rightarrow> client \<times> golem_error option" where
  "start_client w c0 =
     (let c = c0\<lparr>gl_started_ctx := True, gl_started := Some (sw_time w)\<rparr>; g = gl_config c0; now = sw_time w in
      case sw_dial w of
        Inl e \<Rightarrow> (fail_client (GLibrary e) now c, Some (GDial (GLibrary e)))
      | Inr k \<Rightarrow>
          (let c1 = open_connection k c in
           case sw_spawn w of
             Some e \<Rightarrow> (fail_client (GLibrary e) now (close_connection (cn_id k) c1), Some (GSpawn (GLibrary e)))
           | None \<Rightarrow>
               (case (if gc_packs_observer g then sw_packs w else None) of
                  Some e \<Rightarrow> (fail_client (GLibrary e) now (close_connection (cn_id k) c1), Some (GObservePacks (GLibrary e)))
                | None \<Rightarrow>
                    (let c2 = (publish_spawn k 1 (cn_packs k) c1)\<lparr>gl_reader_started := True\<rparr>;
                         c3 = fst (record_event (spawned_event 1 now) now c2)
                     in case (if gc_spawn_observer g then sw_observe w else None) of
                          Some e \<Rightarrow> (fail_client (GLibrary e) now c3, Some (GObserveSpawn (GLibrary e)))
                        | None \<Rightarrow> (c3, None)))))"

section \<open>The reader\<close>

text \<open>
  Where the reader is: about to read a packet, in one of the stages of \<^verbatim>\<open>followTransfer\<close> (which
  holds the input lock from its start), or returned.
\<close>

datatype reader = Reading
  | FollowCheck golem_transfer connection int
  | FollowDial golem_transfer connection int
  | FollowSpawn golem_transfer connection int
  | FollowPacks golem_transfer connection int
  | FollowPublish golem_transfer connection int
  | FollowObserve connection int
  | Stopped

definition holds_input :: "reader \<Rightarrow> bool" where
  "holds_input r = (r \<noteq> Reading \<and> r \<noteq> Stopped)"

text \<open>What a call of the library answers to the reader: an error text, or a value.\<close>

datatype answer = ReadAnswer "string + golem_packet" | DialAnswer "string + connection" | CallAnswer "string option"

definition stop_with :: "golem_error \<Rightarrow> instant \<Rightarrow> client \<Rightarrow> client \<times> reader" where
  "stop_with e now c = (close_done (fail_client e now c), Stopped)"

text \<open>
  A hop that fails: the transfer keeps the bare error, the session ends with the wrapped one. The branch
  for a missing transfer is never reached, since the reader follows only events that have one.
\<close>

definition hop_failed :: "golem_transfer \<Rightarrow> (golem_error \<Rightarrow> golem_error) \<Rightarrow> golem_error \<Rightarrow> instant \<Rightarrow> client \<Rightarrow> client \<times> reader" where
  "hop_failed t wrap e now c = stop_with (wrap e) now (update_transfer (Some (t\<lparr>gt_error := Some e\<rparr>)) c)"

text \<open>The transfer that \<^verbatim>\<open>followTransfer\<close> marks as followed once the hop has spawned.\<close>

definition mark_followed :: "golem_transfer \<Rightarrow> client \<Rightarrow> client" where
  "mark_followed t c =
     c\<lparr>gl_transfers := replace_last (\<lambda>x. same_transfer t x \<and> \<not> gt_followed x) (t\<lparr>gt_followed := True\<rparr>) (gl_transfers c)\<rparr>"

definition read_turn :: "instant \<Rightarrow> string + golem_packet \<Rightarrow> client \<Rightarrow> client \<times> reader" where
  "read_turn now a c =
     (case gl_conn c of
        None \<Rightarrow> stop_with GClosed now c
      | Some k \<Rightarrow>
          (case a of
             Inl e \<Rightarrow>
               if gl_started_ctx c \<and> gl_cancelled c then (close_done (finish now c), Stopped)
               else stop_with (GLibrary e) now c
           | Inr p \<Rightarrow>
               (let e = event_for_packet p (gl_hop c) now; r = record_event e now c in
                if \<not> snd r then (close_done (fst r), Stopped)
                else case ge_transfer e of
                  None \<Rightarrow> (fst r, Reading)
                | Some t \<Rightarrow> (fst r, if gc_follow (gl_config c) then FollowCheck t k (gl_hop c) else Reading))))"

definition follow_check :: "instant \<Rightarrow> golem_transfer \<Rightarrow> connection \<Rightarrow> int \<Rightarrow> client \<Rightarrow> client \<times> reader" where
  "follow_check now t previous hop c0 =
     (let c = c0\<lparr>gl_input_paused := True\<rparr>; limit = gc_max_hops (gl_config c) in
      if hop \<ge> limit then hop_failed t (\<lambda>e. e) (GHopLimit limit) now c
      else case golem_validate_address (gt_target t) of
        Inl e \<Rightarrow> hop_failed t GTarget e now c
      | Inr _ \<Rightarrow> (close_connection (cn_id previous) c, FollowDial t previous hop))"

definition follow_publish :: "instant \<Rightarrow> golem_transfer \<Rightarrow> connection \<Rightarrow> int \<Rightarrow> client \<Rightarrow> client" where
  "follow_publish now t k hop c =
     fst (record_event (spawned_event hop now) now
       ((mark_followed t (publish_spawn k hop (gl_resource_packs c + cn_packs k) c))\<lparr>gl_input_paused := False\<rparr>))"

text \<open>
  One step of the reader with the answer of the call it waits for; \<^term>\<open>None\<close> when the answer belongs to
  another call.
\<close>

fun reader_turn :: "instant \<Rightarrow> reader \<Rightarrow> answer \<Rightarrow> client \<Rightarrow> (client \<times> reader) option" where
  "reader_turn now Reading (ReadAnswer a) c = Some (read_turn now a c)"
| "reader_turn now (FollowCheck t previous hop) (CallAnswer _) c = Some (follow_check now t previous hop c)"
| "reader_turn now (FollowDial t previous hop) (DialAnswer a) c =
     Some (case a of
        Inl e \<Rightarrow> hop_failed t GDial (GLibrary e) now c
      | Inr k \<Rightarrow> (open_connection k c, FollowSpawn t k (hop + 1)))"
| "reader_turn now (FollowSpawn t k hop) (CallAnswer a) c =
     Some (case a of
        Some e \<Rightarrow> hop_failed t GSpawn (GLibrary e) now (close_connection (cn_id k) c)
      | None \<Rightarrow> (c, FollowPacks t k hop))"
| "reader_turn now (FollowPacks t k hop) (CallAnswer a) c =
     Some (case (if gc_packs_observer (gl_config c) then a else None) of
        Some e \<Rightarrow> hop_failed t GObservePacks (GLibrary e) now (close_connection (cn_id k) c)
      | None \<Rightarrow> (c, FollowPublish t k hop))"
| "reader_turn now (FollowPublish t k hop) (CallAnswer _) c = Some (follow_publish now t k hop c, FollowObserve k hop)"
| "reader_turn now (FollowObserve k hop) (CallAnswer a) c =
     Some (case (if gc_spawn_observer (gl_config c) then a else None) of
        Some e \<Rightarrow> stop_with (GObserveSpawn (GLibrary e)) now c
      | None \<Rightarrow> (c, Reading))"
| "reader_turn now _ _ c = None"

section \<open>Client input\<close>

text \<open>The protocol library's input modes and interaction models.\<close>

record input_modes =
  im_undefined :: int
  im_mouse :: int
  im_touch :: int
  im_gamepad :: int
  im_count :: int
  im_model_touch :: int
  im_model_crosshair :: int

record input_packet =
  ip_view :: "string list"
  ip_mode :: int
  ip_model :: int
  ip_tick :: u64

definition input_mode_of :: "input_modes \<Rightarrow> int \<Rightarrow> int" where
  "input_mode_of im mode = (if mode \<le> im_undefined im \<or> mode \<ge> im_count im then im_touch im else mode)"

definition interaction_of :: "input_modes \<Rightarrow> int \<Rightarrow> int" where
  "interaction_of im mode = (if mode = im_mouse im \<or> mode = im_gamepad im then im_model_crosshair im else im_model_touch im)"

text \<open>
  \<^verbatim>\<open>sendClientInput\<close>: the client afterwards, the packet that was written if one was, and the error.
  \<open>written\<close> and \<open>flushed\<close> are the outcomes of the two calls.
\<close>

definition send_input :: "input_modes \<Rightarrow> instant \<Rightarrow> string option \<Rightarrow> string option \<Rightarrow> client \<Rightarrow>
    client \<times> input_packet option \<times> golem_error option" where
  "send_input im now written flushed c =
     (case (if gl_input_paused c then None else gl_conn c) of
        None \<Rightarrow> (c, None, None)
      | Some k \<Rightarrow>
          (let mode = input_mode_of im (cn_input_mode k); tick = gl_input_tick c + 1; c1 = c\<lparr>gl_input_tick := tick\<rparr>;
               p = \<lparr>ip_view = cn_view k, ip_mode = mode, ip_model = interaction_of im mode, ip_tick = tick\<rparr>
           in case written of
                Some e \<Rightarrow> (c1, None, Some (GWriteInput e))
              | None \<Rightarrow>
                  (case flushed of
                     Some e \<Rightarrow> (c1, Some p, Some (GFlushInput e))
                   | None \<Rightarrow> (c1\<lparr>gl_input_packets := gl_input_packets c1 + 1, gl_last_input := Some now\<rparr>, Some p, None))))"

text \<open>One tick of the input loop; the result says whether the loop goes on.\<close>

definition input_turn :: "input_modes \<Rightarrow> instant \<Rightarrow> string option \<Rightarrow> string option \<Rightarrow> client \<Rightarrow> client \<times> bool" where
  "input_turn im now written flushed c =
     (case send_input im now written flushed c of
        (c1, _, None) \<Rightarrow> (c1, True)
      | (c1, _, Some e) \<Rightarrow>
          if gl_started_ctx c1 \<and> gl_cancelled c1 then (c1, False) else (fail_client e now c1, False))"

section \<open>Operations of a scenario\<close>

text \<open>
  \<^verbatim>\<open>NextEvent\<close>: what the \<^verbatim>\<open>select\<close> may choose, and the queue afterwards; no choice means that the call
  waits. \<open>expired\<close> is the error of the caller's context, if it has ended.
\<close>

definition end_error :: "client \<Rightarrow> golem_error" where
  "end_error c = (case gl_terminal c of None \<Rightarrow> GClosed | Some e \<Rightarrow> e)"

definition next_event :: "string option \<Rightarrow> client \<Rightarrow> (client \<times> (golem_error + golem_event)) list" where
  "next_event expired c =
     (case gl_events c of [] \<Rightarrow> [] | e # es \<Rightarrow> [(c\<lparr>gl_events := es\<rparr>, Inr e)])
     @ (case expired of None \<Rightarrow> [] | Some x \<Rightarrow> [(c, Inl (GContext x))])
     @ (if gl_done c then [(c, Inl (end_error c))] else [])"

text \<open>\<^verbatim>\<open>WaitForForm\<close> over what successive calls of \<^verbatim>\<open>NextEvent\<close> return.\<close>

fun wait_for_form :: "(golem_error + golem_event) list \<Rightarrow> (golem_error + form) option" where
  "wait_for_form [] = None"
| "wait_for_form (Inl e # rs) = Some (Inl e)"
| "wait_for_form (Inr e # rs) = (case ge_form e of Some f \<Rightarrow> Some (Inr f) | None \<Rightarrow> wait_for_form rs)"

text \<open>
  A form response on the wire, and the outcome of the call. The current form and the connection are read under the
  mutex one after the other, so each read has a client of its own: \<^verbatim>\<open>SubmitForm\<close> sees the form of \<open>c1\<close> and
  the connection of \<open>c2\<close>, and \<^verbatim>\<open>SelectForm\<close> has checked the index against the form of \<open>c\<close>.
\<close>

definition submit_form :: "string option \<Rightarrow> string option \<Rightarrow> client \<Rightarrow> client \<Rightarrow> string \<Rightarrow> (u32 \<times> string) option \<times> golem_error option" where
  "submit_form written flushed c1 c2 response =
     (if response = [] then (None, Some GResponseEmpty)
      else if length response > max_form_bytes \<or> \<not> json_valid response then (None, Some GResponseInvalid)
      else case gl_current_form c1 of
        None \<Rightarrow> (None, Some GNoForm)
      | Some f \<Rightarrow>
          (case gl_conn c2 of
             None \<Rightarrow> (None, Some GClosed)
           | Some k \<Rightarrow>
               (case written of
                  Some e \<Rightarrow> (None, Some (GWrite e))
                | None \<Rightarrow> (Some (fo_id f, response), map_option GFlush flushed))))"

definition select_form :: "string option \<Rightarrow> string option \<Rightarrow> client \<Rightarrow> client \<Rightarrow> client \<Rightarrow> int \<Rightarrow> (u32 \<times> string) option \<times> golem_error option" where
  "select_form written flushed c c1 c2 index =
     (case gl_current_form c of
        None \<Rightarrow> (None, Some GNoForm)
      | Some f \<Rightarrow>
          if index < 0 \<or> index \<ge> int (length (fo_buttons f))
          then (None, Some (GButtonRange index (int (length (fo_buttons f)) - 1)))
          else submit_form written flushed c1 c2 (itoa_int index))"

definition chat :: "string option \<Rightarrow> string option \<Rightarrow> client \<Rightarrow> string \<Rightarrow> string option \<times> golem_error option" where
  "chat written flushed c message =
     (if trim_space message = [] then (None, Some GChatEmpty)
      else if length message > max_chat_bytes then (None, Some GChatSize)
      else case gl_conn c of
        None \<Rightarrow> (None, Some GClosed)
      | Some k \<Rightarrow>
          (case written of
             Some e \<Rightarrow> (None, Some (GWrite e))
           | None \<Rightarrow> (Some message, map_option GFlush flushed)))"

text \<open>\<^verbatim>\<open>Wait\<close>: what it may return, once the time is over, the context has ended or the session is done.\<close>

definition wait_client :: "int \<Rightarrow> bool \<Rightarrow> string option \<Rightarrow> client \<Rightarrow> golem_error option list" where
  "wait_client duration elapsed expired c =
     (if duration \<le> 0 then [Some GWaitDuration]
      else (if elapsed then [None] else [])
        @ (case expired of None \<Rightarrow> [] | Some x \<Rightarrow> [Some (GContext x)])
        @ (if gl_done c then [Some (end_error c)] else []))"

text \<open>\<^verbatim>\<open>Close\<close> waits for the end of the session: \<open>done_in_time\<close> is whether it came within five seconds.\<close>

definition close_result :: "bool \<Rightarrow> golem_error option" where
  "close_result done_in_time = (if done_in_time then None else Some GCloseTimeout)"

record report =
  rp_schema :: string
  rp_started :: "instant option"
  rp_ended :: instant
  rp_hops :: int
  rp_spawned :: bool
  rp_closed :: bool
  rp_authenticated :: bool
  rp_packs :: int
  rp_forms :: "form list"
  rp_transfers :: "golem_transfer list"
  rp_packet_counts :: "(string \<times> int) list"
  rp_messages :: "string list"
  rp_errors :: "golem_error list"
  rp_event_count :: int
  rp_follow :: bool
  rp_input :: bool
  rp_input_interval :: int
  rp_input_packets :: int
  rp_last_input :: "instant option"

definition snapshot :: "instant \<Rightarrow> client \<Rightarrow> report" where
  "snapshot now c =
     \<lparr>rp_schema = golem_schema, rp_started = gl_started c,
      rp_ended = (case gl_ended c of None \<Rightarrow> now | Some t \<Rightarrow> t), rp_hops = gl_hops c, rp_spawned = gl_spawned c,
      rp_closed = gl_closed c,
      rp_authenticated = (case gl_conn c of None \<Rightarrow> False | Some k \<Rightarrow> cn_authenticated k),
      rp_packs = gl_resource_packs c, rp_forms = gl_forms c, rp_transfers = gl_transfers c,
      rp_packet_counts = gl_packet_count c, rp_messages = gl_messages c, rp_errors = gl_errors c,
      rp_event_count = int (length (gl_history c)), rp_follow = gc_follow (gl_config c),
      rp_input = (gc_input_interval (gl_config c) > 0), rp_input_interval = gc_input_interval (gl_config c),
      rp_input_packets = gl_input_packets c, rp_last_input = gl_last_input c\<rparr>"

section \<open>Interleaving\<close>

text \<open>
  A running session: the client, the reader, whether the input loop runs, and two observations of the
  history, every event recorded and every event taken by \<^verbatim>\<open>NextEvent\<close>.
\<close>

record session =
  se_client :: client
  se_reader :: reader
  se_input :: bool
  se_log :: "golem_event list"
  se_taken :: "golem_event list"

definition started_session :: "client \<Rightarrow> golem_event list \<Rightarrow> session" where
  "started_session c log = \<lparr>se_client = c, se_reader = Reading, se_input = True, se_log = log, se_taken = []\<rparr>"

text \<open>The events that a reader's step records, with their numbers.\<close>

definition turn_log :: "instant \<Rightarrow> reader \<Rightarrow> answer \<Rightarrow> client \<Rightarrow> golem_event list" where
  "turn_log now r a c =
     (case (r, a) of
        (Reading, ReadAnswer (Inr p)) \<Rightarrow>
          if gl_conn c = None then [] else [numbered (event_for_packet p (gl_hop c) now) c]
      | (FollowPublish t k hop, CallAnswer _) \<Rightarrow> [numbered (spawned_event hop now) c]
      | _ \<Rightarrow> [])"

inductive session_step :: "input_modes \<Rightarrow> session \<Rightarrow> session \<Rightarrow> bool" for im where
  step_reader: "reader_turn now (se_reader s) a (se_client s) = Some (c, r)
    \<Longrightarrow> session_step im s (s\<lparr>se_client := c, se_reader := r, se_log := se_log s @ turn_log now (se_reader s) a (se_client s)\<rparr>)"
| step_input: "se_input s \<Longrightarrow> \<not> holds_input (se_reader s) \<Longrightarrow> input_turn im now written flushed (se_client s) = (c, running)
    \<Longrightarrow> session_step im s (s\<lparr>se_client := c, se_input := running\<rparr>)"
| step_input_stops: "se_input s \<Longrightarrow> gl_cancelled (se_client s) \<or> gl_done (se_client s) \<Longrightarrow> session_step im s (s\<lparr>se_input := False\<rparr>)"
| step_next: "(c, Inr e) \<in> set (next_event expired (se_client s))
    \<Longrightarrow> session_step im s (s\<lparr>se_client := c, se_taken := se_taken s @ [e]\<rparr>)"
| step_close: "session_step im s (s\<lparr>se_client := finish now (se_client s)\<rparr>)"
| step_cancel: "session_step im s (s\<lparr>se_client := (se_client s)\<lparr>gl_cancelled := True\<rparr>\<rparr>)"

end
