(* ===== verification/Golem_Theorems.thy ===== *)
theory Golem_Theorems
  imports Golem_Session Json_Print "HOL-Library.Sublist"
begin

text \<open>
  What a session of the network client keeps: its history, counters and forms are those of the events
  recorded, notifications arrive in order, and a session ends once.
\<close>

section \<open>What is retained\<close>

abbreviation transfer_key :: "golem_transfer \<Rightarrow> string \<times> int" where
  "transfer_key t \<equiv> (gt_target t, gt_hop t)"

text \<open>The parts of a client that only \<^verbatim>\<open>record\<close> changes; of a transfer, its target and hop.\<close>

definition retained :: "client \<Rightarrow> u64 \<times> golem_event list \<times> (string \<times> int) list \<times> form list \<times> form option \<times> (string \<times> int) list \<times> string list" where
  "retained c = (gl_sequence c, gl_history c, gl_packet_count c, gl_forms c, gl_current_form c,
     map transfer_key (gl_transfers c), gl_messages c)"

lemma replace_last_map:
  assumes "\<And>x. P x \<Longrightarrow> f x = f y"
  shows "map f (replace_last P y xs) = map f xs"
proof (cases "dropWhile (\<lambda>x. \<not> P x) (rev xs)")
  case Nil
  then show ?thesis by (simp only: replace_last_def list.case)
next
  case (Cons x rest)
  have x: "P x" using hd_dropWhile [of "\<lambda>x. \<not> P x" "rev xs"] Cons by simp
  have "rev xs = takeWhile (\<lambda>x. \<not> P x) (rev xs) @ x # rest"
    using takeWhile_dropWhile_id [of "\<lambda>x. \<not> P x" "rev xs"] by (simp add: Cons)
  then have "xs = rev rest @ x # rev (takeWhile (\<lambda>x. \<not> P x) (rev xs))"
    by (metis append_Cons append_assoc append_Nil rev_append rev_rev_ident rev_singleton_conv rev.simps(2))
  then have "map f xs = map f (rev rest @ x # rev (takeWhile (\<lambda>x. \<not> P x) (rev xs)))" by simp
  then show ?thesis using assms [OF x] by (simp only: replace_last_def Cons list.case list.map map_append)
qed

lemma transfer_keys_kept:
  "map transfer_key (replace_last (same_transfer t) t xs) = map transfer_key xs"
  "map transfer_key (replace_last (\<lambda>x. same_transfer t x \<and> \<not> gt_followed x) (t\<lparr>gt_followed := True\<rparr>) xs) = map transfer_key xs"
  by (rule replace_last_map; simp add: same_transfer_def)+

lemma take_snoc_bounded: "(if length (take n xs) < n then take n xs @ [x] else take n xs) = take n (xs @ [x])"
  by simp

lemma retained_simps [simp]:
  "retained (close_done c) = retained c"
  "retained (close_connection n c) = retained c"
  "retained (open_connection k c) = retained c"
  "retained (finish now c) = retained c"
  "retained (fail_client e now c) = retained c"
  "retained (update_transfer t c) = retained c"
  "retained (mark_followed u c) = retained c"
  "retained (publish_spawn k hop packs c) = retained c"
  "retained (c\<lparr>gl_input_paused := b\<rparr>) = retained c"
  "retained (c\<lparr>gl_events := es\<rparr>) = retained c"
  "retained (c\<lparr>gl_cancelled := b\<rparr>) = retained c"
  "retained (c\<lparr>gl_input_tick := i\<rparr>) = retained c"
  "retained (c\<lparr>gl_input_packets := j, gl_last_input := l\<rparr>) = retained c"
  "retained (c\<lparr>gl_started_ctx := b, gl_started := l\<rparr>) = retained c"
  "retained (c\<lparr>gl_reader_started := b\<rparr>) = retained c"
proof -
  show f: "retained (finish now c) = retained c" for c
    by (simp add: finish_def retained_def close_connection_def close_done_def Let_def split: option.split)
  show "retained (fail_client e now c) = retained c" by (simp add: fail_client_def f) (simp add: retained_def)
  show "retained (update_transfer t c) = retained c"
    by (cases t) (simp_all add: update_transfer_def retained_def transfer_keys_kept)
  show "retained (mark_followed u c) = retained c"
    by (simp add: mark_followed_def retained_def transfer_keys_kept)
qed (simp_all add: retained_def close_done_def close_connection_def open_connection_def publish_spawn_def set_connection_def)

definition last_some :: "'a list \<Rightarrow> 'a option" where
  "last_some xs = (if xs = [] then None else Some (last xs))"

definition log_texts :: "golem_event list \<Rightarrow> string list" where
  "log_texts log = map ge_message (filter (\<lambda>e. ge_message e \<noteq> [] \<and> ge_kind e = ''text'') log)"

definition log_count :: "golem_event list \<Rightarrow> string \<Rightarrow> nat" where
  "log_count log name = length (filter (\<lambda>e. ge_packet e = name) log)"

text \<open>What the client holds of the events it has recorded.\<close>

definition holds_log :: "golem_event list \<Rightarrow> client \<Rightarrow> bool" where
  "holds_log log c \<longleftrightarrow>
     map ge_sequence log = map of_nat [1..<Suc (length log)] \<and> gl_sequence c = of_nat (length log)
     \<and> gl_history c = drop (length log - max_history) log
     \<and> distinct (map fst (gl_packet_count c))
     \<and> (\<forall>name. map_of (gl_packet_count c) name
          = (if name = [] \<or> log_count log name = 0 then None else Some (int (log_count log name))))
     \<and> gl_forms c = List.map_filter ge_form log \<and> gl_current_form c = last_some (List.map_filter ge_form log)
     \<and> map transfer_key (gl_transfers c) = map transfer_key (List.map_filter ge_transfer log)
     \<and> gl_messages c = take max_history (log_texts log)"

lemma holds_log_retained: "retained c' = retained c \<Longrightarrow> holds_log log c' \<longleftrightarrow> holds_log log c"
  by (simp add: retained_def holds_log_def)

lemmas holds_log_simps [simp] = retained_simps [THEN holds_log_retained]

lemma drop_window: "drop (Suc (length xs) - n) (xs @ [x])
    = (if n \<le> length (drop (length xs - n) xs) then tl (drop (length xs - n) xs) @ [x] else drop (length xs - n) xs @ [x])"
  if "0 < n"
  using that by (cases "n \<le> length xs") (simp_all add: Suc_diff_le drop_Suc drop_tl tl_append split: list.split)

lemma holds_log_retain:
  assumes "holds_log log c"
  shows "holds_log (log @ [numbered e c]) (retain_event (numbered e c) c)"
proof -
  let ?e = "numbered e c"
  have h: "map ge_sequence log = map of_nat [1..<Suc (length log)]" "gl_sequence c = of_nat (length log)"
      "gl_history c = drop (length log - max_history) log" "distinct (map fst (gl_packet_count c))"
      "\<And>name. map_of (gl_packet_count c) name
          = (if name = [] \<or> log_count log name = 0 then None else Some (int (log_count log name)))"
      "gl_forms c = List.map_filter ge_form log" "gl_current_form c = last_some (List.map_filter ge_form log)"
      "map transfer_key (gl_transfers c) = map transfer_key (List.map_filter ge_transfer log)"
      "gl_messages c = take max_history (log_texts log)"
    using assms unfolding holds_log_def by blast+
  have n: "0 < max_history" by (simp add: max_history_def)
  have seq: "ge_sequence ?e = of_nat (Suc (length log))" using h(2) by (simp add: numbered_def)
  have seqs: "map ge_sequence (log @ [?e]) = map of_nat [1..<Suc (length (log @ [?e]))]" using h(1) seq by simp
  have history: "gl_history (retain_event ?e c) = drop (length (log @ [?e]) - max_history) (log @ [?e])"
    using drop_window [OF n, of log ?e] by (simp add: retain_event_def h(3))
  have cnt: "distinct (map fst (gl_packet_count (retain_event ?e c)))"
    using h(4) by (simp add: retain_event_def distinct_upsert)
  have counts: "map_of (gl_packet_count (retain_event ?e c)) name
      = (if name = [] \<or> log_count (log @ [?e]) name = 0 then None else Some (int (log_count (log @ [?e]) name)))" for name
    by (simp add: retain_event_def map_of_upsert log_count_def h(5))
  have forms: "gl_forms (retain_event ?e c) = List.map_filter ge_form (log @ [?e])"
      "gl_current_form (retain_event ?e c) = last_some (List.map_filter ge_form (log @ [?e]))"
    by (simp_all add: retain_event_def map_filter_snoc h(6,7) last_some_def split: option.split)
  have transfers: "map transfer_key (gl_transfers (retain_event ?e c)) = map transfer_key (List.map_filter ge_transfer (log @ [?e]))"
    using h(8) by (simp add: retain_event_def map_filter_snoc split: option.split)
  have texts: "gl_messages (retain_event ?e c) = take max_history (log_texts (log @ [?e]))"
  proof (cases "ge_message ?e \<noteq> [] \<and> ge_kind ?e = ''text''")
    case True
    then have "gl_messages (retain_event ?e c) = (if length (take max_history (log_texts log)) < max_history
        then take max_history (log_texts log) @ [ge_message ?e] else take max_history (log_texts log))"
      by (simp only: retain_event_def h(9)) simp
    moreover have "log_texts (log @ [?e]) = log_texts log @ [ge_message ?e]" using True by (simp add: log_texts_def)
    ultimately show ?thesis by (simp only: take_snoc_bounded)
  next
    case False
    then show ?thesis by (auto simp: retain_event_def h(9) log_texts_def)
  qed
  show ?thesis
    unfolding holds_log_def
    by (intro conjI allI seqs history cnt counts forms transfers texts) (simp add: retain_event_def seq)
qed

lemma holds_log_record:
  assumes "holds_log log c"
  shows "holds_log (log @ [numbered e c]) (fst (record_event e now c))"
proof -
  have "retained (fst (record_event e now c)) = retained (retain_event (numbered e c) c)"
    unfolding record_event_def Let_def by simp
  from holds_log_retained [OF this] show ?thesis using holds_log_retain [OF assms] by blast
qed

section \<open>The history of a session\<close>

lemma read_turn_holds_log:
  assumes "holds_log log c" "read_turn now x c = (c', r')"
  shows "holds_log (log @ turn_log now Reading (ReadAnswer x) c) c'"
proof (cases "gl_conn c")
  case None
  then show ?thesis using assms by (cases x) (auto simp: read_turn_def turn_log_def stop_with_def)
next
  case (Some k)
  show ?thesis
  proof (cases x)
    case (Inl e)
    then show ?thesis using assms Some by (auto simp: read_turn_def turn_log_def stop_with_def split: if_splits)
  next
    case (Inr p)
    have "c' = fst (record_event (event_for_packet p (gl_hop c) now) now c)
        \<or> c' = close_done (fst (record_event (event_for_packet p (gl_hop c) now) now c))"
      using assms(2) Some Inr by (auto simp: read_turn_def Let_def split: if_splits option.splits)
    then show ?thesis using Some Inr holds_log_record [OF assms(1), of _ now] by (elim disjE) (simp_all add: turn_log_def)
  qed
qed

lemma numbered_retained: "retained d = retained c \<Longrightarrow> numbered e d = numbered e c"
  by (simp add: numbered_def retained_def)

lemma publish_holds_log:
  assumes "holds_log log c"
  shows "holds_log (log @ [numbered (spawned_event hop now) c]) (follow_publish now t k hop c)"
proof -
  let ?d = "(mark_followed t (publish_spawn k hop (gl_resource_packs c + cn_packs k) c))\<lparr>gl_input_paused := False\<rparr>"
  have "numbered (spawned_event hop now) ?d = numbered (spawned_event hop now) c" by (rule numbered_retained) simp
  moreover have "holds_log (log @ [numbered (spawned_event hop now) ?d]) (follow_publish now t k hop c)"
    unfolding follow_publish_def by (rule holds_log_record) (simp add: assms)
  ultimately show ?thesis by simp
qed

lemma turn_holds_log:
  assumes "reader_turn now r a c = Some (c', r')" and "holds_log log c"
  shows "holds_log (log @ turn_log now r a c) c'"
proof (cases r)
  case Reading
  then obtain x where "a = ReadAnswer x" using assms(1) by (cases a) auto
  then show ?thesis using Reading assms read_turn_holds_log by auto
next
  case (FollowPublish t k hop)
  then show ?thesis using assms(1) publish_holds_log [OF assms(2), of hop now t k] by (cases a) (simp_all add: turn_log_def)
qed (use assms in \<open>cases a; auto simp: turn_log_def follow_check_def hop_failed_def stop_with_def Let_def split: sum.splits option.splits if_splits\<close>)+

lemma input_retained: "input_turn im now written flushed c = (c', running) \<Longrightarrow> retained c' = retained c"
  by (auto simp: input_turn_def send_input_def Let_def split: option.splits if_splits)

lemma next_retained: "(c', x) \<in> set (next_event expired c) \<Longrightarrow> retained c' = retained c"
  by (auto simp: next_event_def split: list.splits option.splits if_splits)

lemma step_holds_log:
  "session_step im s s' \<Longrightarrow> holds_log (se_log s) (se_client s) \<Longrightarrow> holds_log (se_log s') (se_client s')"
proof (induction rule: session_step.induct)
  case (step_reader now s a c r)
  then show ?case using turn_holds_log by simp
next
  case (step_input s now written flushed c running)
  show ?case using step_input.prems holds_log_retained [OF input_retained [OF step_input.hyps(3)]] by simp
next
  case (step_next c e expired s)
  show ?case using step_next.prems holds_log_retained [OF next_retained [OF step_next.hyps]] by simp
qed simp_all

lemma holds_log_empty: "holds_log [] (empty_client g)"
  by (simp add: holds_log_def empty_client_def log_count_def log_texts_def last_some_def List.map_filter_def max_history_def)

text \<open>A start that succeeds, as one record of the spawn on a client that is otherwise set up.\<close>

lemma start_client_Inr:
  assumes "start_client w c0 = (c, None)"
  obtains k where "sw_dial w = Inr k"
    "c = fst (record_event (spawned_event 1 (sw_time w)) (sw_time w)
       ((publish_spawn k 1 (cn_packs k) (open_connection k (c0\<lparr>gl_started_ctx := True, gl_started := Some (sw_time w)\<rparr>)))
         \<lparr>gl_reader_started := True\<rparr>))"
  using assms by (auto simp: start_client_def Let_def split: sum.splits option.splits if_splits)

lemma started_holds_log:
  assumes "new_client g = Inr c0" "start_client w c0 = (c, None)"
  shows "holds_log [numbered (spawned_event 1 (sw_time w)) c0] c"
proof -
  let ?e = "spawned_event 1 (sw_time w)"
  obtain k where c: "c = fst (record_event ?e (sw_time w)
       ((publish_spawn k 1 (cn_packs k) (open_connection k (c0\<lparr>gl_started_ctx := True, gl_started := Some (sw_time w)\<rparr>)))
         \<lparr>gl_reader_started := True\<rparr>))" (is "_ = fst (record_event _ _ ?d)")
    using start_client_Inr [OF assms(2)] by blast
  have h: "holds_log [] c0" using assms(1) holds_log_empty by (auto simp: new_client_def split: sum.splits)
  then have "holds_log [] ?d" by simp
  from holds_log_record [OF this, of ?e "sw_time w"] have "holds_log [numbered ?e ?d] c" by (simp add: c)
  moreover have "numbered ?e ?d = numbered ?e c0" by (rule numbered_retained) simp
  ultimately show ?thesis by simp
qed

section \<open>Notifications\<close>

definition actionable :: "golem_event \<Rightarrow> bool" where
  "actionable e = (ge_kind e \<noteq> ''packet'')"

text \<open>
  What a scenario has taken and what waits for it are the actionable events in order, all of them as
  long as the session is not closed.
\<close>

definition delivers :: "golem_event list \<Rightarrow> golem_event list \<Rightarrow> client \<Rightarrow> bool" where
  "delivers log taken c \<longleftrightarrow>
     length (gl_events c) \<le> max_event_buffer \<and> subseq (taken @ gl_events c) (filter actionable log)
     \<and> (\<not> gl_closed c \<longrightarrow> taken @ gl_events c = filter actionable log)
     \<and> (gl_close_once c \<longleftrightarrow> gl_closed c)"

lemma delivers_same:
  "gl_events c' = gl_events c \<Longrightarrow> (gl_closed c \<longrightarrow> gl_closed c') \<Longrightarrow> (gl_close_once c' \<longleftrightarrow> gl_closed c') \<Longrightarrow>
   delivers log taken c \<Longrightarrow> delivers log taken c'"
  by (auto simp: delivers_def)

lemmas quiet_defs = close_done_def close_connection_def open_connection_def update_transfer_def mark_followed_def
  set_connection_def publish_spawn_def

lemma finish_fields [simp]:
  "gl_events (finish now c) = gl_events c" "gl_terminal (finish now c) = gl_terminal c" "gl_errors (finish now c) = gl_errors c"
  "gl_reader_started (finish now c) = gl_reader_started c" "gl_started_ctx (finish now c) = gl_started_ctx c"
  "gl_config (finish now c) = gl_config c" "gl_hop (finish now c) = gl_hop c" "gl_hops (finish now c) = gl_hops c"
  "gl_conn (finish now c) = gl_conn c" "gl_close_once (finish now c)"
  "gl_closed (finish now c) = (gl_closed c \<or> \<not> gl_close_once c)"
  "gl_ended (finish now c) = (if gl_close_once c then gl_ended c else Some now)"
  "gl_cancelled (finish now c) = (gl_cancelled c \<or> (\<not> gl_close_once c \<and> gl_started_ctx c))"
  "gl_done (finish now c) = (gl_done c \<or> (\<not> gl_close_once c \<and> \<not> gl_reader_started c))"
  by (auto simp: finish_def quiet_defs Let_def split: option.split)

lemma fail_fields [simp]:
  "gl_events (fail_client e now c) = gl_events c" "gl_reader_started (fail_client e now c) = gl_reader_started c"
  "gl_started_ctx (fail_client e now c) = gl_started_ctx c" "gl_config (fail_client e now c) = gl_config c"
  "gl_hop (fail_client e now c) = gl_hop c" "gl_hops (fail_client e now c) = gl_hops c"
  "gl_conn (fail_client e now c) = gl_conn c" "gl_close_once (fail_client e now c)"
  "gl_closed (fail_client e now c) = (gl_closed c \<or> \<not> gl_close_once c)"
  "gl_terminal (fail_client e now c) = (case gl_terminal c of None \<Rightarrow> Some e | Some x \<Rightarrow> Some x)"
  "gl_errors (fail_client e now c)
     = (if gl_terminal c = None \<and> length (gl_errors c) < max_history then gl_errors c @ [e] else gl_errors c)"
  "gl_ended (fail_client e now c) = (if gl_close_once c then gl_ended c else Some now)"
  "gl_cancelled (fail_client e now c) = (gl_cancelled c \<or> (\<not> gl_close_once c \<and> gl_started_ctx c))"
  "gl_done (fail_client e now c) = (gl_done c \<or> (\<not> gl_close_once c \<and> \<not> gl_reader_started c))"
  by (auto simp: fail_client_def split: option.split)

lemma delivers_finish: "delivers log taken c \<Longrightarrow> delivers log taken (finish now c)"
  using delivers_same [of "finish now c" c log taken] by (auto simp: delivers_def)

lemma delivers_fail: "delivers log taken c \<Longrightarrow> delivers log taken (fail_client e now c)"
  using delivers_same [of "fail_client e now c" c log taken] by (auto simp: delivers_def)

lemma retain_fields [simp]:
  "gl_events (retain_event e c) = gl_events c" "gl_closed (retain_event e c) = gl_closed c"
  "gl_close_once (retain_event e c) = gl_close_once c" "gl_terminal (retain_event e c) = gl_terminal c"
  "gl_errors (retain_event e c) = gl_errors c" "gl_ended (retain_event e c) = gl_ended c" "gl_done (retain_event e c) = gl_done c"
  "gl_reader_started (retain_event e c) = gl_reader_started c" "gl_started_ctx (retain_event e c) = gl_started_ctx c"
  "gl_config (retain_event e c) = gl_config c" "gl_hop (retain_event e c) = gl_hop c" "gl_hops (retain_event e c) = gl_hops c"
  "gl_conn (retain_event e c) = gl_conn c" "gl_cancelled (retain_event e c) = gl_cancelled c"
  by (simp_all add: retain_event_def)

lemma delivers_record:
  assumes "delivers log taken c"
  shows "delivers (log @ [numbered e c]) taken (fst (record_event e now c))"
proof -
  let ?e = "numbered e c"
  have k: "ge_kind ?e = ge_kind e" by (simp add: numbered_def)
  have sub: "subseq xs (ys @ [y])" if "subseq xs ys" for xs ys and y :: golem_event
    using that list_emb_append2 [of "(=)" xs ys "[]"] by (metis list_emb_append_mono subseq_append_iff append_Nil2 list_emb_Nil)
  consider "ge_kind e = ''packet''" | "ge_kind e \<noteq> ''packet''" "length (gl_events c) < max_event_buffer"
    | "ge_kind e \<noteq> ''packet''" "\<not> length (gl_events c) < max_event_buffer" by blast
  then show ?thesis
  proof cases
    case 1
    then show ?thesis using assms by (simp add: record_event_def Let_def k delivers_def actionable_def)
  next
    case 2
    have "subseq ((taken @ gl_events c) @ [?e]) (filter actionable log @ [?e])"
      using assms by (intro list_emb_append_mono) (auto simp: delivers_def)
    then show ?thesis using 2 assms by (simp add: record_event_def Let_def k delivers_def actionable_def)
  next
    case 3
    then show ?thesis using assms sub by (simp add: record_event_def Let_def k delivers_def actionable_def)
  qed
qed

text \<open>Steps that neither record nor end the session.\<close>

definition quiet :: "client \<Rightarrow> client \<Rightarrow> bool" where
  "quiet c d \<longleftrightarrow> gl_events d = gl_events c \<and> gl_closed d = gl_closed c \<and> gl_close_once d = gl_close_once c
     \<and> gl_terminal d = gl_terminal c \<and> gl_errors d = gl_errors c \<and> gl_ended d = gl_ended c
     \<and> gl_reader_started d = gl_reader_started c \<and> gl_started_ctx d = gl_started_ctx c \<and> gl_cancelled d = gl_cancelled c
     \<and> gl_config d = gl_config c"

lemma quiet_delivers: "quiet c d \<Longrightarrow> delivers log taken d \<longleftrightarrow> delivers log taken c"
  by (simp add: quiet_def delivers_def)

lemma quiet_simps [simp]:
  "quiet c c" "quiet c (close_done d) = quiet c d" "quiet c (close_connection n d) = quiet c d"
  "quiet c (open_connection k d) = quiet c d" "quiet c (update_transfer t d) = quiet c d" "quiet c (mark_followed u d) = quiet c d"
  "quiet c (publish_spawn k hop packs d) = quiet c d" "quiet c (d\<lparr>gl_input_paused := b\<rparr>) = quiet c d"
  "quiet c (d\<lparr>gl_input_tick := i\<rparr>) = quiet c d" "quiet c (d\<lparr>gl_input_packets := j, gl_last_input := l\<rparr>) = quiet c d"
  by (auto simp: quiet_def quiet_defs split: option.split)

text \<open>
  What one step of the reader does: it goes on without a record, records an event and goes on, or stops
  after a failure, after the end of the context, or after a notification that found the queue full.
\<close>

lemma reader_turn_effect:
  assumes "reader_turn now r a c = Some (c', r')"
  obtains (quiet) "quiet c c'" "turn_log now r a c = []" "r' \<noteq> Stopped"
  | (noted) e d where "quiet c d" "retained d = retained c" "turn_log now r a c = [numbered e c]"
      "c' = fst (record_event e now d)" "r' \<noteq> Stopped"
  | (full) e where "turn_log now r a c = [numbered e c]" "record_event e now c = (fst (record_event e now c), False)"
      "c' = close_done (fst (record_event e now c))" "r' = Stopped"
  | (fail) e d where "quiet c d" "turn_log now r a c = []" "c' = close_done (fail_client e now d)" "r' = Stopped"
  | (ended) "gl_cancelled c" "turn_log now r a c = []" "c' = close_done (finish now c)" "r' = Stopped"
proof -
  have failing: thesis if "stop_with e now d = (c', r')" "quiet c d" "turn_log now r a c = []" for e d
    using that fail [of d e] by (simp add: stop_with_def)
  show thesis
  proof (cases r)
    case Reading
    then obtain x where a: "a = ReadAnswer x" and t: "read_turn now x c = (c', r')" using assms by (cases a) auto
    show thesis
    proof (cases "gl_conn c")
      case None
      then show thesis using t a Reading by (auto simp: read_turn_def turn_log_def split: sum.splits elim: failing)
    next
      case (Some k)
      show thesis
      proof (cases x)
        case (Inl e)
        have log: "turn_log now r a c = []" using Reading a Inl by (simp add: turn_log_def)
        show thesis
        proof (cases "gl_started_ctx c \<and> gl_cancelled c")
          case True
          then have "c' = close_done (finish now c)" "r' = Stopped" using t Some Inl by (simp_all add: read_turn_def)
          then show thesis using ended True log by blast
        next
          case False
          then have "stop_with (GLibrary e) now c = (c', r')" using t Some Inl by (auto simp: read_turn_def)
          then show thesis by (rule failing) (simp_all add: log)
        qed
      next
        case (Inr p)
        let ?e = "event_for_packet p (gl_hop c) now"
        have log: "turn_log now r a c = [numbered ?e c]" using Reading a Inr Some by (simp add: turn_log_def)
        show thesis
        proof (cases "snd (record_event ?e now c)")
          case True
          then have "c' = fst (record_event ?e now c)" "r' \<noteq> Stopped"
            using t Some Inr by (auto simp: read_turn_def Let_def split: option.splits if_splits)
          then show thesis using noted [of c ?e] log by simp
        next
          case False
          then have "c' = close_done (fst (record_event ?e now c))" "r' = Stopped"
            using t Some Inr by (auto simp: read_turn_def Let_def)
          moreover have "record_event ?e now c = (fst (record_event ?e now c), False)" using False by (metis prod.collapse)
          ultimately show thesis using full log by blast
        qed
      qed
    qed
  next
    case (FollowCheck t k hop)
    then show thesis using assms quiet
      by (cases a) (auto simp: turn_log_def follow_check_def hop_failed_def Let_def split: if_splits sum.splits elim: failing)
  next
    case (FollowDial t k hop)
    then show thesis using assms quiet by (cases a) (auto simp: turn_log_def hop_failed_def split: sum.splits elim: failing)
  next
    case (FollowSpawn t k hop)
    then show thesis using assms quiet by (cases a) (auto simp: turn_log_def hop_failed_def split: option.splits elim: failing)
  next
    case (FollowPacks t k hop)
    then show thesis using assms quiet
      by (cases a) (auto simp: turn_log_def hop_failed_def split: option.splits if_splits elim: failing)
  next
    case (FollowPublish t k hop)
    let ?d = "(mark_followed t (publish_spawn k hop (gl_resource_packs c + cn_packs k) c))\<lparr>gl_input_paused := False\<rparr>"
    show thesis using assms FollowPublish noted [of ?d "spawned_event hop now"] by (cases a) (auto simp: turn_log_def follow_publish_def)
  next
    case (FollowObserve k hop)
    then show thesis using assms quiet by (cases a) (auto simp: turn_log_def split: option.splits if_splits elim: failing)
  next
    case Stopped
    then show thesis using assms by (cases a) auto
  qed
qed

lemma turn_delivers:
  assumes "reader_turn now r a c = Some (c', r')" "delivers log taken c"
  shows "delivers (log @ turn_log now r a c) taken c'"
  using assms(1)
proof (cases rule: reader_turn_effect)
  case quiet
  then show ?thesis using assms(2) quiet_delivers by simp
next
  case (noted e d)
  have "delivers (log @ [numbered e d]) taken (fst (record_event e now d))"
    using assms(2) quiet_delivers [OF noted(1)] by (intro delivers_record) blast
  then show ?thesis using noted numbered_retained [OF noted(2)] by simp
next
  case (full e)
  then show ?thesis using delivers_record [OF assms(2), of e now] quiet_delivers [of "fst (record_event e now c)" c'] by simp
next
  case (fail e d)
  then show ?thesis
    using assms(2) quiet_delivers [OF fail(1)] delivers_fail [of log taken d e now] quiet_delivers [of "fail_client e now d" c'] by simp
next
  case ended
  then show ?thesis using delivers_finish [OF assms(2), of now] quiet_delivers [of "finish now c" c'] by simp
qed

lemma input_effect:
  assumes "input_turn im now written flushed c = (c', running)"
  shows "quiet c c' \<or> (\<exists>e d. quiet c d \<and> c' = fail_client e now d)"
proof -
  have q: "quiet c (c\<lparr>gl_input_tick := gl_input_tick c + 1\<rparr>)" by simp
  show ?thesis
  proof (cases "if gl_input_paused c then None else gl_conn c")
    case None
    then show ?thesis using assms by (simp add: input_turn_def send_input_def)
  next
    case (Some k)
    note steps = input_turn_def send_input_def Some Let_def
    show ?thesis
    proof (cases written)
      case None
      then show ?thesis using assms q by (cases flushed; auto simp: steps split: if_splits; blast)
    next
      case w: (Some e)
      then show ?thesis using assms q by (auto simp: steps split: if_splits; blast)
    qed
  qed
qed

lemma next_event_Inr:
  "(c', Inr e) \<in> set (next_event expired c) \<longleftrightarrow> gl_events c \<noteq> [] \<and> e = hd (gl_events c) \<and> c' = c\<lparr>gl_events := tl (gl_events c)\<rparr>"
  by (cases "gl_events c") (auto simp: next_event_def split: option.splits)

lemma step_delivers:
  "session_step im s s' \<Longrightarrow> delivers (se_log s) (se_taken s) (se_client s) \<Longrightarrow> delivers (se_log s') (se_taken s') (se_client s')"
proof (induction rule: session_step.induct)
  case (step_reader now s a c r)
  then show ?case using turn_delivers by simp
next
  case (step_input s now written flushed c running)
  have "delivers (se_log s) (se_taken s) c"
    using input_effect [OF step_input.hyps(3)] step_input.prems quiet_delivers [of "se_client s"] delivers_fail by metis
  then show ?case by simp
next
  case (step_next c e expired s)
  then show ?case by (cases "gl_events (se_client s)") (auto simp: next_event_Inr delivers_def)
next
  case (step_close s now)
  then show ?case by (simp add: delivers_finish)
next
  case (step_cancel s)
  then show ?case by (simp add: delivers_def)
qed simp_all

text \<open>The state at the start of the goroutines.\<close>

lemma started_fields:
  assumes "new_client g = Inr c0" "start_client w c0 = (c, None)"
  shows "gl_events c = [numbered (spawned_event 1 (sw_time w)) c0]" "\<not> gl_closed c" "\<not> gl_close_once c" "gl_terminal c = None"
    "gl_errors c = []" "gl_ended c = None" "\<not> gl_done c" "gl_reader_started c" "gl_started_ctx c" "gl_hop c = 1" "gl_hops c = 1"
    "golem_check g = Inr (gl_config c)"
proof -
  obtain d where c0: "c0 = empty_client d" "golem_check g = Inr d" using assms(1) by (auto simp: new_client_def split: sum.splits)
  obtain k where c: "c = fst (record_event (spawned_event 1 (sw_time w)) (sw_time w)
       ((publish_spawn k 1 (cn_packs k) (open_connection k (c0\<lparr>gl_started_ctx := True, gl_started := Some (sw_time w)\<rparr>)))
         \<lparr>gl_reader_started := True\<rparr>))" (is "_ = fst (record_event _ _ ?d)")
    using start_client_Inr [OF assms(2)] by blast
  have k: "ge_kind (numbered (spawned_event 1 (sw_time w)) ?d) \<noteq> ''packet''"
    by (simp add: numbered_def spawned_event_def plain_event_def)
  have q: "gl_events ?d = []" by (simp add: c0 empty_client_def quiet_defs)
  have r: "c = (retain_event (numbered (spawned_event 1 (sw_time w)) ?d) ?d)\<lparr>gl_events := [numbered (spawned_event 1 (sw_time w)) ?d]\<rparr>"
    by (simp add: c record_event_def Let_def k q max_event_buffer_def)
  have n: "numbered (spawned_event 1 (sw_time w)) ?d = numbered (spawned_event 1 (sw_time w)) c0" by (rule numbered_retained) simp
  show "gl_events c = [numbered (spawned_event 1 (sw_time w)) c0]" using r n by simp
  show "\<not> gl_closed c" "\<not> gl_close_once c" "gl_terminal c = None" "gl_errors c = []" "gl_ended c = None" "\<not> gl_done c"
      "gl_reader_started c" "gl_started_ctx c" "gl_hop c = 1" "gl_hops c = 1" "golem_check g = Inr (gl_config c)"
    using c0(2) by (simp_all add: r c0(1) empty_client_def quiet_defs)
qed

section \<open>Sessions from their start\<close>

text \<open>The sessions that a successful \<^verbatim>\<open>Start\<close> of a client made by \<^verbatim>\<open>New\<close> leads to.\<close>

definition session_of_config :: "input_modes \<Rightarrow> golem_config \<Rightarrow> session \<Rightarrow> bool" where
  "session_of_config im g s = (\<exists>c0 w c. new_client g = Inr c0 \<and> start_client w c0 = (c, None)
     \<and> (session_step im)\<^sup>*\<^sup>* (started_session c [numbered (spawned_event 1 (sw_time w)) c0]) s)"

lemma session_induct [consumes 1, case_names start step]:
  assumes "session_of_config im g s"
    and "\<And>c0 w c. new_client g = Inr c0 \<Longrightarrow> start_client w c0 = (c, None)
      \<Longrightarrow> P (started_session c [numbered (spawned_event 1 (sw_time w)) c0])"
    and "\<And>s s'. session_of_config im g s \<Longrightarrow> P s \<Longrightarrow> session_step im s s' \<Longrightarrow> P s'"
  shows "P s"
proof -
  obtain c0 w c where n: "new_client g = Inr c0" "start_client w c0 = (c, None)"
      and r: "(session_step im)\<^sup>*\<^sup>* (started_session c [numbered (spawned_event 1 (sw_time w)) c0]) s"
    using assms(1) unfolding session_of_config_def by blast
  from r show ?thesis
  proof (induction rule: rtranclp_induct)
    case base
    then show ?case using assms(2) n by blast
  next
    case (step s s')
    have "session_of_config im g s" using n step.hyps(1) unfolding session_of_config_def by blast
    then show ?case using assms(3) step by blast
  qed
qed

lemma golem_history:
  assumes "session_of_config im g s"
  shows "holds_log (se_log s) (se_client s)"
  using assms
proof (induction rule: session_induct)
  case (start c0 w c)
  then show ?case using started_holds_log by (simp add: started_session_def)
next
  case (step s s')
  then show ?case using step_holds_log by blast
qed

text \<open>
  C36. In every reachable state of a session, whatever the server, the scenario and the two goroutines
  did, the events are numbered 1, 2, 3, ... without a gap, the history is exactly the last 4096 of them,
  the packet counts are the exact counts, and the forms, the current form, the transfers' targets and the
  first 4096 chat messages are those of all events recorded.
\<close>

theorem golem_history_exact:
  assumes "session_of_config im g s"
  shows "holds_log (se_log s) (se_client s) \<and> length (gl_history (se_client s)) \<le> 4096
    \<and> rp_event_count (snapshot now (se_client s)) = int (min 4096 (length (se_log s)))"
proof -
  have h: "holds_log (se_log s) (se_client s)" using assms by (rule golem_history)
  then have "gl_history (se_client s) = drop (length (se_log s) - 4096) (se_log s)"
    by (simp add: holds_log_def max_history_def)
  then show ?thesis using h by (auto simp: snapshot_def)
qed

text \<open>
  Notifications reach the scenario in order: what it has taken and what still waits are, while the
  session is not closed, exactly the forms, texts, transfers, disconnects and spawns recorded, and at any
  time a part of them in the same order. At most 1024 wait.
\<close>

theorem golem_notifications:
  assumes "session_of_config im g s"
  shows "length (gl_events (se_client s)) \<le> 1024
    \<and> subseq (se_taken s @ gl_events (se_client s)) (filter actionable (se_log s))
    \<and> (\<not> gl_closed (se_client s) \<longrightarrow> se_taken s @ gl_events (se_client s) = filter actionable (se_log s))"
proof -
  have "delivers (se_log s) (se_taken s) (se_client s)" using assms
  proof (induction rule: session_induct)
    case (start c0 w c)
    have "actionable (numbered (spawned_event 1 (sw_time w)) c0)"
      by (simp add: actionable_def numbered_def spawned_event_def plain_event_def)
    then show ?case using started_fields [OF start] by (simp add: started_session_def delivers_def max_event_buffer_def)
  next
    case (step s s')
    then show ?case using step_delivers by blast
  qed
  then show ?thesis by (simp add: delivers_def max_event_buffer_def)
qed

end
