(* ===== verification/Golem_Ends.thy ===== *)
theory Golem_Ends
  imports Golem_Theorems
begin

text \<open>
  How a session of the network client ends, how far it follows transfers, and what a scenario can send.
\<close>

section \<open>The end of a session\<close>

definition close_state :: "client \<Rightarrow> bool" where
  "close_state c \<longleftrightarrow>
     (gl_close_once c \<longleftrightarrow> gl_closed c) \<and> (gl_closed c \<longleftrightarrow> gl_ended c \<noteq> None) \<and> (gl_terminal c \<noteq> None \<longrightarrow> gl_closed c)
     \<and> gl_errors c = (case gl_terminal c of None \<Rightarrow> [] | Some e \<Rightarrow> [e])
     \<and> (gl_closed c \<longrightarrow> gl_cancelled c) \<and> gl_started_ctx c \<and> gl_reader_started c"

text \<open>What holds of the client and the place of its reader between any two steps.\<close>

definition well_ended :: "client \<Rightarrow> reader \<Rightarrow> bool" where
  "well_ended c r \<longleftrightarrow> close_state c \<and> (gl_done c \<longleftrightarrow> r = Stopped) \<and> (gl_done c \<longrightarrow> gl_closed c)"

lemma close_state_quiet: "quiet c d \<Longrightarrow> close_state d \<longleftrightarrow> close_state c"
  by (simp add: quiet_def close_state_def)

lemma close_state_done [simp]: "close_state (close_done c) = close_state c"
  by (simp add: close_state_def close_done_def)

lemma close_state_finish: "close_state c \<Longrightarrow> close_state (finish now c)"
  by (auto simp: close_state_def)

lemma close_state_fail: "close_state c \<Longrightarrow> close_state (fail_client e now c)"
  by (auto simp: close_state_def max_history_def split: option.splits)

lemma closed_after [simp]:
  "close_state c \<Longrightarrow> gl_closed (finish now c)" "close_state c \<Longrightarrow> gl_closed (fail_client e now c)"
  "gl_closed (close_done c) = gl_closed c"
  by (auto simp: close_state_def close_done_def)

lemma close_state_record: "close_state c \<Longrightarrow> close_state (fst (record_event e now c))"
proof -
  assume c: "close_state c"
  have r: "close_state (retain_event x c)" for x using c by (auto simp: close_state_def)
  have "close_state ((retain_event x c)\<lparr>gl_events := es\<rparr>)" for x es using r [of x] by (auto simp: close_state_def)
  then show ?thesis using r close_state_fail [OF r] by (simp add: record_event_def Let_def)
qed

lemma refused_closed:
  assumes "record_event e now c = (d, False)" "close_state c"
  shows "gl_closed d"
proof -
  have "close_state (retain_event x c)" for x using assms(2) by (auto simp: close_state_def)
  then show ?thesis using assms(1) by (auto simp: record_event_def Let_def simp del: fail_fields split: if_splits)
qed

lemma record_done: "gl_reader_started c \<Longrightarrow> gl_done (fst (record_event e now c)) = gl_done c"
  by (simp add: record_event_def Let_def)

lemma stop_done: "stop_with e now c = (c', r') \<Longrightarrow> gl_done c' \<and> r' = Stopped"
  by (auto simp: stop_with_def close_done_def)

lemma turn_done:
  assumes "reader_turn now r a c = Some (c', r')" "gl_reader_started c"
  shows "gl_done c' = (gl_done c \<or> r' = Stopped)"
proof (cases r)
  case Reading
  then obtain x where a: "a = ReadAnswer x" and t: "read_turn now x c = (c', r')" using assms(1) by (cases a) auto
  show ?thesis using t assms(2)
    by (auto simp: read_turn_def Let_def close_done_def record_done dest!: stop_done split: option.splits sum.splits if_splits)
next
  case (FollowCheck t k hop)
  then show ?thesis using assms
    by (cases a) (auto simp: follow_check_def hop_failed_def Let_def close_connection_def dest!: stop_done split: if_splits sum.splits)
next
  case (FollowPublish t k hop)
  then show ?thesis using assms by (cases a) (auto simp: follow_publish_def quiet_defs record_done)
qed (use assms in \<open>cases a; auto simp: hop_failed_def quiet_defs dest!: stop_done split: sum.splits option.splits if_splits\<close>)+

lemma turn_well_ended:
  assumes t: "reader_turn now r a c = Some (c', r')" and w: "well_ended c r"
  shows "well_ended c' r'"
proof -
  have r: "r \<noteq> Stopped" using t by (cases a; cases r) auto
  have state: "close_state c" and undone: "\<not> gl_done c" using w r by (simp_all add: well_ended_def)
  have ends: "gl_done c' = (r' = Stopped)" using turn_done [OF t] state undone by (simp add: close_state_def)
  from t have "close_state c' \<and> (r' = Stopped \<longrightarrow> gl_closed c')"
  proof (cases rule: reader_turn_effect)
    case quiet
    then show ?thesis using state close_state_quiet by blast
  next
    case (noted e d)
    then show ?thesis using state close_state_quiet [OF noted(1)] close_state_record by simp
  next
    case (full e)
    then show ?thesis using state close_state_record refused_closed [OF full(2) state] by simp
  next
    case (fail e d)
    then show ?thesis using state close_state_quiet [OF fail(1)] close_state_fail [of d] by (simp del: fail_fields)
  next
    case ended
    then show ?thesis using state close_state_finish [of c] by (simp del: finish_fields)
  qed
  then show ?thesis by (simp add: well_ended_def ends)
qed

lemma input_done: "input_turn im now written flushed c = (c', running) \<Longrightarrow> gl_reader_started c \<Longrightarrow> gl_done c' = gl_done c"
  by (auto simp: input_turn_def send_input_def Let_def split: option.splits if_splits)

lemma step_well_ended:
  "session_step im s s' \<Longrightarrow> well_ended (se_client s) (se_reader s) \<Longrightarrow> well_ended (se_client s') (se_reader s')"
proof (induction rule: session_step.induct)
  case (step_reader now s a c r)
  then show ?case using turn_well_ended by simp
next
  case (step_input s now written flushed c running)
  have d: "gl_done c = gl_done (se_client s)"
    using input_done [OF step_input.hyps(3)] step_input.prems by (simp add: well_ended_def close_state_def)
  have "close_state c \<and> (gl_closed (se_client s) \<longrightarrow> gl_closed c)"
    using input_effect [OF step_input.hyps(3)]
  proof
    assume "quiet (se_client s) c"
    then show ?thesis using step_input.prems close_state_quiet [of "se_client s" c] by (auto simp: well_ended_def quiet_def)
  next
    assume "\<exists>e d. quiet (se_client s) d \<and> c = fail_client e now d"
    then obtain e d where "quiet (se_client s) d" "c = fail_client e now d" by blast
    then show ?thesis using step_input.prems close_state_quiet [of "se_client s" d] close_state_fail [of d]
      by (simp add: well_ended_def del: fail_fields)
  qed
  then show ?case using step_input.prems d by (auto simp: well_ended_def)
next
  case (step_next c e expired s)
  then show ?case by (auto simp: next_event_Inr well_ended_def close_state_def)
next
  case (step_close s now)
  have "gl_done (finish now (se_client s)) = gl_done (se_client s)"
    using step_close by (simp add: well_ended_def close_state_def)
  then show ?case using step_close close_state_finish [of "se_client s" now] by (simp add: well_ended_def)
next
  case (step_cancel s)
  then show ?case by (auto simp: well_ended_def close_state_def)
qed simp_all

section \<open>Connections and hops\<close>

text \<open>Where the session is: its connection and hop, the hop under way, and the connections that are open.\<close>

definition placed :: "client \<Rightarrow> connection \<Rightarrow> reader \<Rightarrow> bool" where
  "placed c k r \<longleftrightarrow> gl_conn c = Some k \<and> 1 \<le> gl_hop c \<and> gl_hop c \<le> gc_max_hops (gl_config c) \<and> gl_hops c = gl_hop c
     \<and> (case r of
          FollowCheck t k' hop \<Rightarrow> k' = k \<and> hop = gl_hop c \<and> set (gl_open c) \<subseteq> {cn_id k}
        | FollowDial t k' hop \<Rightarrow> k' = k \<and> hop = gl_hop c \<and> hop < gc_max_hops (gl_config c)
            \<and> golem_validate_address (gt_target t) = Inr () \<and> gl_open c = []
        | FollowSpawn t n hop \<Rightarrow> hop = gl_hop c + 1 \<and> hop \<le> gc_max_hops (gl_config c) \<and> set (gl_open c) \<subseteq> {cn_id n}
        | FollowPacks t n hop \<Rightarrow> hop = gl_hop c + 1 \<and> hop \<le> gc_max_hops (gl_config c) \<and> set (gl_open c) \<subseteq> {cn_id n}
        | FollowPublish t n hop \<Rightarrow> hop = gl_hop c + 1 \<and> hop \<le> gc_max_hops (gl_config c) \<and> set (gl_open c) \<subseteq> {cn_id n}
        | FollowObserve k' hop \<Rightarrow> k' = k \<and> hop = gl_hop c \<and> set (gl_open c) \<subseteq> {cn_id k}
        | _ \<Rightarrow> set (gl_open c) \<subseteq> {cn_id k})"

text \<open>Ending a session only closes connections.\<close>

definition shrinks :: "client \<Rightarrow> client \<Rightarrow> bool" where
  "shrinks c d \<longleftrightarrow> gl_conn d = gl_conn c \<and> gl_hop d = gl_hop c \<and> gl_hops d = gl_hops c \<and> gl_config d = gl_config c
     \<and> set (gl_open d) \<subseteq> set (gl_open c)"

lemma shrinks_placed: "shrinks c d \<Longrightarrow> placed c k r \<Longrightarrow> placed d k r"
  by (cases r) (auto simp: shrinks_def placed_def)

lemma finish_open: "set (gl_open (finish now c)) \<subseteq> set (gl_open c)"
  by (auto simp: finish_def quiet_defs Let_def split: option.splits if_splits)

lemma shrinks_finish: "shrinks c (finish now c)"
  by (simp add: shrinks_def finish_open)

lemma shrinks_trans: "shrinks b c \<Longrightarrow> shrinks c d \<Longrightarrow> shrinks b d"
  by (auto simp: shrinks_def)

lemma shrinks_fail: "shrinks c (fail_client e now c)"
proof -
  have "shrinks c (if gl_terminal c = None then c\<lparr>gl_terminal := Some e,
      gl_errors := (if length (gl_errors c) < max_history then gl_errors c @ [e] else gl_errors c)\<rparr> else c)"
    by (simp add: shrinks_def)
  then show ?thesis unfolding fail_client_def using shrinks_finish shrinks_trans by blast
qed

lemma shrinks_simps:
  "shrinks c c" "shrinks c (close_done c)" "shrinks c (update_transfer t c)" "shrinks c (c\<lparr>gl_input_paused := b\<rparr>)"
  "shrinks c (close_connection n c)" "shrinks c (c\<lparr>gl_events := es\<rparr>)" "shrinks c (retain_event e c)"
  by (auto simp: shrinks_def quiet_defs retain_event_def split: option.split)

lemma shrinks_record: "shrinks c (fst (record_event e now c))"
proof -
  have a: "shrinks c ((retain_event x c)\<lparr>gl_events := es\<rparr>)" for x es using shrinks_simps(6,7) shrinks_trans by blast
  have b: "shrinks c (fail_client y now (retain_event x c))" for x y using shrinks_simps(7) shrinks_fail shrinks_trans by blast
  show ?thesis by (simp add: record_event_def Let_def a b shrinks_simps)
qed

lemma stop_placed:
  assumes "stop_with e now d = (c', r')" "gl_conn d = Some k" "1 \<le> gl_hop d" "gl_hop d \<le> gc_max_hops (gl_config d)"
    "gl_hops d = gl_hop d" "set (gl_open d) \<subseteq> {cn_id k}"
  shows "placed c' k r'"
proof -
  have "placed d k Stopped" using assms by (simp add: placed_def)
  moreover have "shrinks d c'" "r' = Stopped"
    using assms(1) shrinks_trans [OF shrinks_fail shrinks_simps(2), of d e now] by (auto simp: stop_with_def)
  ultimately show ?thesis using shrinks_placed by blast
qed

lemma read_placed:
  assumes "read_turn now x c = (c', r')" "placed c k Reading"
  shows "placed c' k r'"
proof (cases x)
  case (Inl e)
  have "placed (close_done (finish now c)) k Stopped"
    by (rule shrinks_placed [OF shrinks_trans [OF shrinks_finish shrinks_simps(2)]]) (use assms(2) in \<open>simp add: placed_def\<close>)
  moreover have "placed c' k r'" if "stop_with (GLibrary e) now c = (c', r')"
    by (rule stop_placed [OF that]) (use assms(2) in \<open>simp_all add: placed_def\<close>)
  moreover have "gl_conn c = Some k" using assms(2) by (simp add: placed_def)
  ultimately show ?thesis using assms(1) Inl by (auto simp: read_turn_def split: if_splits)
next
  case (Inr p)
  let ?c = "fst (record_event (event_for_packet p (gl_hop c) now) now c)"
  have c: "shrinks c ?c" by (rule shrinks_record)
  have k: "gl_conn c = Some k" using assms(2) by (simp add: placed_def)
  consider "c' = ?c" "r' = Reading" | t where "c' = ?c" "r' = FollowCheck t k (gl_hop c)" | "c' = close_done ?c" "r' = Stopped"
    using assms(1) Inr k by (auto simp: read_turn_def Let_def split: if_splits option.splits)
  then show ?thesis
  proof cases
    case 1
    then show ?thesis using shrinks_placed [OF c assms(2)] by simp
  next
    case (2 t)
    have "placed c k (FollowCheck t k (gl_hop c))" using assms(2) by (simp add: placed_def)
    then show ?thesis using 2 shrinks_placed [OF c] by simp
  next
    case 3
    have "placed c k Stopped" using assms(2) by (simp add: placed_def)
    then show ?thesis using 3 shrinks_placed [OF shrinks_trans [OF c shrinks_simps(2)]] by simp
  qed
qed

lemma publish_placed:
  assumes "gl_hop c + 1 = hop" "1 \<le> gl_hop c" "hop \<le> gc_max_hops (gl_config c)" "set (gl_open c) \<subseteq> {cn_id n}"
  shows "placed (follow_publish now t n hop c) n (FollowObserve n hop)"
proof -
  let ?d = "(mark_followed t (publish_spawn n hop (gl_resource_packs c + cn_packs n) c))\<lparr>gl_input_paused := False\<rparr>"
  have "placed ?d n (FollowObserve n hop)" using assms by (simp add: placed_def quiet_defs)
  then show ?thesis unfolding follow_publish_def by (rule shrinks_placed [OF shrinks_record])
qed

lemma removeAll_only [simp]: "set xs \<subseteq> {n} \<Longrightarrow> removeAll n xs = []"
  by (induction xs) auto

lemma turn_placed:
  assumes t: "reader_turn now r a c = Some (c', r')" and p: "placed c k r"
  shows "\<exists>k'. placed c' k' r'"
proof (cases r)
  case Reading
  then obtain x where "read_turn now x c = (c', r')" using t by (cases a) auto
  then show ?thesis using p Reading read_placed [of now x c c' r' k] by blast
next
  case (FollowCheck u k0 hop)
  then have t: "follow_check now u k0 hop c = (c', r')" using t by (cases a) auto
  show ?thesis using t p FollowCheck
    by (auto simp: follow_check_def Let_def hop_failed_def placed_def quiet_defs split: if_splits sum.splits
        dest!: stop_placed [where k = k])
next
  case (FollowDial u k0 hop)
  then obtain x where a: "a = DialAnswer x" using t by (cases a) auto
  show ?thesis
  proof (cases x)
    case (Inl e)
    then have f: "hop_failed u GDial (GLibrary e) now c = (c', r')" using t FollowDial a by simp
    have "placed c' k r'"
      by (rule stop_placed [OF f [unfolded hop_failed_def]]) (use p FollowDial in \<open>simp_all add: placed_def quiet_defs\<close>)
    then show ?thesis by blast
  next
    case (Inr n)
    then show ?thesis using t FollowDial a p by (auto simp: placed_def quiet_defs)
  qed
next
  case (FollowSpawn u n hop)
  then obtain x where a: "a = CallAnswer x" using t by (cases a) auto
  show ?thesis
  proof (cases x)
    case (Some e)
    then have f: "hop_failed u GSpawn (GLibrary e) now (close_connection (cn_id n) c) = (c', r')" using t FollowSpawn a by simp
    have "placed c' k r'"
      by (rule stop_placed [OF f [unfolded hop_failed_def]]) (use p FollowSpawn in \<open>auto simp: placed_def quiet_defs\<close>)
    then show ?thesis by blast
  next
    case None
    then show ?thesis using t FollowSpawn a p by (auto simp: placed_def)
  qed
next
  case (FollowPacks u n hop)
  then obtain x where a: "a = CallAnswer x" using t by (cases a) auto
  show ?thesis
  proof (cases "if gc_packs_observer (gl_config c) then x else None")
    case (Some e)
    then have f: "hop_failed u GObservePacks (GLibrary e) now (close_connection (cn_id n) c) = (c', r')" using t FollowPacks a by simp
    have "placed c' k r'"
      by (rule stop_placed [OF f [unfolded hop_failed_def]]) (use p FollowPacks in \<open>auto simp: placed_def quiet_defs\<close>)
    then show ?thesis by blast
  next
    case None
    then show ?thesis using t FollowPacks a p by (auto simp: placed_def)
  qed
next
  case (FollowPublish u n hop)
  then show ?thesis using t p publish_placed [of c hop n now u] by (cases a) (auto simp: placed_def)
next
  case (FollowObserve n hop)
  then obtain x where a: "a = CallAnswer x" using t by (cases a) auto
  show ?thesis
  proof (cases "if gc_spawn_observer (gl_config c) then x else None")
    case (Some e)
    then have f: "stop_with (GObserveSpawn (GLibrary e)) now c = (c', r')" using t FollowObserve a by simp
    have "placed c' k r'" by (rule stop_placed [OF f]) (use p FollowObserve in \<open>auto simp: placed_def\<close>)
    then show ?thesis by blast
  next
    case None
    then show ?thesis using t FollowObserve a p by (auto simp: placed_def)
  qed
next
  case Stopped
  then show ?thesis using t by (cases a) auto
qed

lemma step_placed:
  "session_step im s s' \<Longrightarrow> \<exists>k. placed (se_client s) k (se_reader s) \<Longrightarrow> \<exists>k. placed (se_client s') k (se_reader s')"
proof (induction rule: session_step.induct)
  case (step_reader now s a c r)
  then show ?case using turn_placed [OF step_reader.hyps] by auto
next
  case (step_input s now written flushed c running)
  have "shrinks (se_client s) c"
  proof -
    have tick: "shrinks (se_client s) ((se_client s)\<lparr>gl_input_tick := i\<rparr>)"
        "shrinks (se_client s) ((se_client s)\<lparr>gl_input_tick := i, gl_input_packets := j, gl_last_input := l\<rparr>)" for i j l
      by (simp_all add: shrinks_def)
    have failed: "shrinks (se_client s) (fail_client e now ((se_client s)\<lparr>gl_input_tick := i\<rparr>))" for e i
      by (rule shrinks_trans [OF tick(1) shrinks_fail])
    show ?thesis using step_input.hyps(3) tick failed
      by (auto simp: input_turn_def send_input_def Let_def shrinks_simps split: option.splits if_splits)
  qed
  from shrinks_placed [OF this] show ?case using step_input.prems by auto
next
  case (step_next c e expired s)
  have "shrinks (se_client s) c" using step_next.hyps by (auto simp: next_event_Inr shrinks_simps)
  from shrinks_placed [OF this] show ?case using step_next.prems by auto
next
  case (step_close s now)
  then show ?case using shrinks_placed [OF shrinks_finish [of "se_client s" now]] by auto
next
  case (step_cancel s)
  have "shrinks (se_client s) ((se_client s)\<lparr>gl_cancelled := True\<rparr>)" by (simp add: shrinks_def)
  from shrinks_placed [OF this] show ?case using step_cancel by auto
qed auto

lemma step_config: "session_step im s s' \<Longrightarrow> gl_config (se_client s') = gl_config (se_client s)"
proof (induction rule: session_step.induct)
  case (step_reader now s a c r)
  from step_reader.hyps have "gl_config c = gl_config (se_client s)"
  proof (cases rule: reader_turn_effect)
    case (noted e d)
    then show ?thesis using shrinks_record [of d e now] by (simp add: quiet_def shrinks_def)
  next
    case (full e)
    then show ?thesis using shrinks_record [of "se_client s" e now] by (simp add: quiet_defs shrinks_def)
  qed (simp_all add: quiet_def quiet_defs)
  then show ?case by simp
next
  case (step_input s now written flushed c running)
  then show ?case by (auto simp: input_turn_def send_input_def Let_def split: option.splits if_splits)
next
  case (step_next c e expired s)
  then show ?case by (auto simp: next_event_Inr)
qed simp_all

lemma reachable_parts:
  assumes "session_of_config im g s"
  shows "well_ended (se_client s) (se_reader s)" "\<exists>k. placed (se_client s) k (se_reader s)" "golem_check g = Inr (gl_config (se_client s))"
proof -
  have "well_ended (se_client s) (se_reader s) \<and> (\<exists>k. placed (se_client s) k (se_reader s)) \<and> golem_check g = Inr (gl_config (se_client s))"
    using assms
  proof (induction rule: session_induct)
    case (start c0 w c)
    note f = started_fields [OF start]
    obtain k where c: "c = fst (record_event (spawned_event 1 (sw_time w)) (sw_time w)
         ((publish_spawn k 1 (cn_packs k) (open_connection k (c0\<lparr>gl_started_ctx := True, gl_started := Some (sw_time w)\<rparr>)))
           \<lparr>gl_reader_started := True\<rparr>))" (is "_ = fst (record_event _ _ ?d)")
      using start_client_Inr [OF start(2)] by blast
    have "gl_conn c = Some k \<and> set (gl_open c) \<subseteq> {cn_id k}"
      using shrinks_record [of ?d "spawned_event 1 (sw_time w)" "sw_time w"] start(1) by (auto simp: c shrinks_def quiet_defs new_client_def empty_client_def split: sum.splits)
    moreover have "1 \<le> gc_max_hops (gl_config c)"
      using f(12) by (auto simp: golem_check_def Let_def res_bind_Inr_iff split: if_splits)
    ultimately show ?case using f
      by (auto simp: started_session_def well_ended_def close_state_def placed_def)
  next
    case (step s s')
    then show ?case using step_well_ended step_placed step_config by metis
  qed
  then show "well_ended (se_client s) (se_reader s)" "\<exists>k. placed (se_client s) k (se_reader s)" "golem_check g = Inr (gl_config (se_client s))"
    by blast+
qed

text \<open>What no later step takes back.\<close>

lemma step_keeps_end:
  assumes "session_step im s s'" "well_ended (se_client s) (se_reader s)"
  shows "(gl_closed (se_client s) \<longrightarrow> gl_closed (se_client s') \<and> gl_ended (se_client s') = gl_ended (se_client s))
    \<and> (\<forall>e. gl_terminal (se_client s) = Some e \<longrightarrow> gl_terminal (se_client s') = Some e)"
  using assms
proof (induction rule: session_step.induct)
  case (step_reader now s a c r)
  have w: "gl_close_once (se_client s) = gl_closed (se_client s)" using step_reader.prems by (simp add: well_ended_def close_state_def)
  have rec: "(gl_closed d \<longrightarrow> gl_closed (fst (record_event e now d)) \<and> gl_ended (fst (record_event e now d)) = gl_ended d)
      \<and> (\<forall>x. gl_terminal d = Some x \<longrightarrow> gl_terminal (fst (record_event e now d)) = Some x)" if "gl_close_once d = gl_closed d" for d e
    using that by (simp add: record_event_def Let_def)
  from step_reader.hyps show ?case
  proof (cases rule: reader_turn_effect)
    case quiet
    then show ?thesis by (simp add: quiet_def)
  next
    case (noted e d)
    then show ?thesis using rec [of d e] w by (simp add: quiet_def)
  next
    case (full e)
    then show ?thesis using rec [of "se_client s" e] w by (simp add: close_done_def)
  next
    case (fail e d)
    then show ?thesis using w by (simp add: quiet_def close_done_def)
  next
    case ended
    then show ?thesis using w by (simp add: close_done_def)
  qed
next
  case (step_input s now written flushed c running)
  have w: "gl_close_once (se_client s) = gl_closed (se_client s)" using step_input.prems by (simp add: well_ended_def close_state_def)
  from input_effect [OF step_input.hyps(3)] show ?case
  proof
    assume "quiet (se_client s) c"
    then show ?thesis by (simp add: quiet_def)
  next
    assume "\<exists>e d. quiet (se_client s) d \<and> c = fail_client e now d"
    then show ?thesis using w by (auto simp: quiet_def)
  qed
next
  case (step_next c e expired s)
  then show ?case by (auto simp: next_event_Inr)
next
  case (step_close s now)
  then show ?case by (simp add: well_ended_def close_state_def)
qed simp_all

text \<open>
  C22. A session ends once. Its done signal is given exactly when the reader has returned, and then the
  client is closed; a client is closed exactly when it has an end time, and it is closed whenever it has
  a terminal error, which is the first one and the only one reported. No step takes back the closing, the
  end time or the error. After a closing the reader, back in its read, ends the session with the next
  error of the connection and adds no error of its own; and once the session is done no call of
  \<^verbatim>\<open>NextEvent\<close> waits.
\<close>

theorem golem_session_ends:
  assumes "session_of_config im g s" and "c = se_client s"
  shows "(gl_done c \<longleftrightarrow> se_reader s = Stopped) \<and> (gl_done c \<longrightarrow> gl_closed c \<and> next_event None c \<noteq> [])
    \<and> (gl_closed c \<longleftrightarrow> gl_ended c \<noteq> None) \<and> (gl_terminal c \<noteq> None \<longrightarrow> gl_closed c)
    \<and> gl_errors c = (case gl_terminal c of None \<Rightarrow> [] | Some e \<Rightarrow> [e])
    \<and> (\<forall>s'. session_step im s s' \<longrightarrow>
         (gl_closed c \<longrightarrow> gl_closed (se_client s') \<and> gl_ended (se_client s') = gl_ended c)
         \<and> (\<forall>e. gl_terminal c = Some e \<longrightarrow> gl_terminal (se_client s') = Some e))
    \<and> (gl_closed c \<and> se_reader s = Reading \<longrightarrow>
         (\<forall>now e. \<exists>c'. reader_turn now Reading (ReadAnswer (Inl e)) c = Some (c', Stopped)
            \<and> gl_done c' \<and> gl_closed c' \<and> gl_terminal c' = gl_terminal c))"
proof -
  have w: "well_ended c (se_reader s)" using reachable_parts(1) [OF assms(1)] assms(2) by simp
  have conn: "gl_conn c \<noteq> None" using reachable_parts(2) [OF assms(1)] assms(2) by (auto simp: placed_def)
  have keeps: "\<forall>s'. session_step im s s' \<longrightarrow>
         (gl_closed c \<longrightarrow> gl_closed (se_client s') \<and> gl_ended (se_client s') = gl_ended c)
         \<and> (\<forall>e. gl_terminal c = Some e \<longrightarrow> gl_terminal (se_client s') = Some e)"
    using step_keeps_end w unfolding assms(2) by blast
  have ends: "\<exists>c'. reader_turn now Reading (ReadAnswer (Inl e)) c = Some (c', Stopped)
            \<and> gl_done c' \<and> gl_closed c' \<and> gl_terminal c' = gl_terminal c" if "gl_closed c" for now e
    using w that conn by (auto simp: read_turn_def well_ended_def close_state_def close_done_def)
  have "next_event None c \<noteq> []" if "gl_done c" using that by (simp add: next_event_def)
  then show ?thesis using w keeps ends unfolding well_ended_def close_state_def by blast
qed

text \<open>
  C28. A session follows at most the configured number of transfers, which is at most 64, and at any
  time at most one connection is open. When it dials the next hop, the previous connection is closed and
  the dial keeps the identity, the client data, the local address and the client GUID of it; the target
  has a host and a port from 1 to 65535, and what is dialed is the target or the HTTPS address of its
  own host and port.
\<close>

theorem golem_hops:
  assumes "session_of_config im g s" and "c = se_client s"
  shows "gl_hops c \<le> gc_max_hops (gl_config c) \<and> gc_max_hops (gl_config c) \<le> 64 \<and> (\<exists>n. set (gl_open c) \<subseteq> {n})
    \<and> (\<forall>t k hop connects. se_reader s = FollowDial t k hop \<longrightarrow>
         (let d = hop_dial (gl_config c) connects t k hop in
          gl_conn c = Some k \<and> gl_open c = [] \<and> dr_hop d = gl_hops c + 1 \<and> dr_hop d \<le> gc_max_hops (gl_config c)
          \<and> dr_identity d = cn_identity k \<and> dr_client d = cn_client k \<and> dr_local d = cn_local k \<and> dr_guid d = cn_guid k
          \<and> (\<exists>host port. split_host_port (trim_space (gt_target t)) = Inr (host, port) \<and> trim_space host \<noteq> []
               \<and> (\<exists>n. parse_uint 16 port = Some n \<and> 0 < n \<and> n < 2 ^ 16))
          \<and> (dr_address d = gt_target t
             \<or> (\<exists>host port. split_host_port (gt_target t) = Inr (host, port) \<and> dr_address d = ''https://'' @ join_host_port host port
                  \<and> connects (dr_address d)))))"
proof -
  obtain k0 where p: "placed c k0 (se_reader s)" using reachable_parts(2) [OF assms(1)] assms(2) by blast
  have limit: "gc_max_hops (gl_config c) \<le> 64"
    using reachable_parts(3) [OF assms(1)] assms(2)
    by (auto simp: golem_check_def Let_def res_bind_Inr_iff max_transfer_hops_def split: if_splits)
  have one: "\<exists>n. set (gl_open c) \<subseteq> {n}" using p by (cases "se_reader s") (auto simp: placed_def)
  have hops: "gl_hops c \<le> gc_max_hops (gl_config c)" using p by (simp add: placed_def)
  have target: "\<exists>host port. split_host_port (trim_space x) = Inr (host, port) \<and> trim_space host \<noteq> []
      \<and> (\<exists>n. parse_uint 16 port = Some n \<and> 0 < n \<and> n < 2 ^ 16)" if "golem_validate_address x = Inr ()" for x
    using that parse_uint_bound [of 16] by (auto simp: golem_validate_address_def split: sum.splits option.splits if_splits)
  have address: "dr_address (hop_dial f connects t k hop) = gt_target t
      \<or> (\<exists>host port. split_host_port (gt_target t) = Inr (host, port)
           \<and> dr_address (hop_dial f connects t k hop) = ''https://'' @ join_host_port host port
           \<and> connects (dr_address (hop_dial f connects t k hop)))" for f connects t k hop
    by (auto simp: hop_dial_def golem_https_address_def Let_def split: sum.splits option.splits if_splits)
  have fields: "dr_hop (hop_dial f connects t k hop) = hop + 1" "dr_identity (hop_dial f connects t k hop) = cn_identity k"
      "dr_client (hop_dial f connects t k hop) = cn_client k" "dr_local (hop_dial f connects t k hop) = cn_local k"
      "dr_guid (hop_dial f connects t k hop) = cn_guid k" for f connects t k hop
    by (simp_all add: hop_dial_def Let_def)
  show ?thesis using p limit one hops target address by (auto simp: placed_def fields Let_def)
qed

end
