(* ===== verification/Golem_Actions.thy ===== *)
theory Golem_Actions
  imports Golem_Ends "HOL-Library.Sublist"
begin

text \<open>
  What a scenario can send through the network client, a run of a session through a transfer that
  discharges the hypotheses of the properties, and two ways in which a session is not ended.
\<close>

section \<open>Decimal numbers are JSON\<close>

lemma itoa_lead: "0 < n \<Longrightarrow> hd (itoa n) \<noteq> CHR ''0''"
proof (induction n rule: itoa.induct)
  case (1 n)
  show ?case
  proof (cases "n < 10")
    case True
    have "ord (CHR ''0'') = 48" by (simp add: ord_def)
    then have "digit_char n \<noteq> CHR ''0''" using ord_digit_char [OF True] 1(2) by (metis add_cancel_right_right less_numeral_extra(3))
    then show ?thesis using True by (subst itoa.simps) simp
  next
    case False
    then show ?thesis using 1 by (subst itoa.simps) simp
  qed
qed

lemma itoa_length: "n < 10 ^ k \<Longrightarrow> 0 < k \<Longrightarrow> length (itoa n) \<le> k"
proof (induction k arbitrary: n)
  case (Suc k)
  show ?case
  proof (cases "n < 10")
    case True
    then show ?thesis by (subst itoa.simps) simp
  next
    case False
    then have "0 < k" using Suc.prems by (cases k) auto
    moreover have "n div 10 < 10 ^ k" using Suc.prems by (simp add: less_mult_imp_div_less mult.commute)
    ultimately show ?thesis using Suc.IH False by (subst itoa.simps) simp
  qed
qed simp

lemma number_parts_itoa: "number_parts (itoa n) = Some (False, itoa n, [], 0)"
proof -
  have d: "\<And>c. c \<in> set (itoa n) \<Longrightarrow> is_digit c" by (rule itoa_chars)
  have m: "hd (itoa n) \<noteq> CHR ''-''" using d [of "hd (itoa n)"] by (auto simp: is_digit_def ord_def)
  have t: "takeWhile is_digit (itoa n) = itoa n" "dropWhile is_digit (itoa n) = []"
    using d by (auto simp: takeWhile_eq_all_conv dropWhile_eq_Nil_conv)
  have z: "\<not> (hd (itoa n) = CHR ''0'' \<and> 1 < length (itoa n))"
    using itoa_lead [of n] by (cases n) (auto simp: itoa.simps [of 0])
  show ?thesis using m z by (simp add: number_parts_def t Let_def)
qed

lemma json_valid_itoa: "json_valid (itoa n)"
proof -
  obtain c r where i: "itoa n = c # r" using itoa_ne [of n] by (cases "itoa n") auto
  have d: "is_digit x" if "x \<in> set (c # r)" for x using itoa_chars [of x n] that i by simp
  have c: "48 \<le> ord c" "ord c \<le> 57" using d [of c] by (auto simp: is_digit_def)
  have n: "number_char x" if "x \<in> set r" for x using d [of x] that by (simp add: number_char_def)
  have t: "takeWhile number_char r = r" "dropWhile number_char r = []"
    using n by (auto simp: takeWhile_eq_all_conv dropWhile_eq_Nil_conv)
  have ne: "c \<noteq> CHR '' ''" "c \<noteq> CHR ''{''" "c \<noteq> CHR ''}''" "c \<noteq> CHR ''[''" "c \<noteq> CHR '']''" "c \<noteq> CHR '',''" "c \<noteq> CHR '':''"
      "c \<noteq> CHR ''t''" "c \<noteq> CHR ''f''" "c \<noteq> CHR ''n''"
    using c by (auto simp: ord_def)
  have "lex (itoa n) = Some [TNum (itoa n)]"
    unfolding i using c ne d [of c] number_parts_itoa [of n, unfolded i]
    by (subst lex.simps) (simp add: has_prefix_def t lex.simps [of "[]"])
  then show ?thesis by (simp add: json_valid_def json_parse_def)
qed

section \<open>Forms\<close>

text \<open>What \<^verbatim>\<open>parseForm\<close> guarantees of every form.\<close>

lemma parse_form_bounds:
  "length (fo_buttons (parse_form n raw hop at)) \<le> max_form_buttons"
  "map fst (fo_buttons (parse_form n raw hop at)) = map int [0..<length (fo_buttons (parse_form n raw hop at))]"
  "fo_status (parse_form n raw hop at) = ''decoded'' \<longleftrightarrow> fo_error (parse_form n raw hop at) = None"
  "fo_status (parse_form n raw hop at) \<noteq> ''decoded'' \<Longrightarrow> fo_buttons (parse_form n raw hop at) = []"
  "fo_status (parse_form n raw hop at) = ''decoded'' \<Longrightarrow> length raw \<le> max_form_bytes"
  by (auto simp: parse_form_def Let_def max_form_buttons_def max_form_bytes_def split: option.splits if_splits)

definition parsed_form :: "form \<Rightarrow> bool" where
  "parsed_form f = (\<exists>n raw hop at. f = parse_form n raw hop at)"

lemma event_form: "ge_form (event_for_packet p hop at) = Some f \<Longrightarrow> parsed_form f"
proof (cases p)
  case (ModalFormRequest n raw)
  assume "ge_form (event_for_packet p hop at) = Some f"
  then have "f = parse_form n raw hop at" by (simp add: ModalFormRequest event_for_packet_def Let_def)
  then show ?thesis unfolding parsed_form_def by blast
qed (simp_all add: event_for_packet_def Let_def plain_event_def)

lemma turn_log_forms: "e \<in> set (turn_log now r a c) \<Longrightarrow> ge_form e = Some f \<Longrightarrow> parsed_form f"
  by (cases r; cases a) (auto simp: turn_log_def numbered_def spawned_event_def plain_event_def event_form split: sum.splits if_splits)

lemma log_forms:
  assumes "session_of_config im g s"
  shows "e \<in> set (se_log s) \<Longrightarrow> ge_form e = Some f \<Longrightarrow> parsed_form f"
  using assms
proof (induction rule: session_induct)
  case (start c0 w c)
  then show ?case by (simp add: started_session_def numbered_def spawned_event_def plain_event_def)
next
  case (step s s')
  from step.hyps(2) have "se_log s' = se_log s \<or> (\<exists>now a. se_log s' = se_log s @ turn_log now (se_reader s) a (se_client s))"
    by (cases rule: session_step.cases) auto
  then show ?case using step turn_log_forms by auto
qed

text \<open>The session goes on while a call of the scenario is between two of its reads.\<close>

lemma later_session:
  assumes "session_of_config im g s" "(session_step im)\<^sup>*\<^sup>* s s'"
  shows "session_of_config im g s'" "\<exists>more. se_log s' = se_log s @ more"
proof -
  show "session_of_config im g s'" using assms unfolding session_of_config_def by (blast intro: rtranclp_trans)
  have "\<exists>more. se_log t = se_log r @ more" if "session_step im r t" for r t using that by cases auto
  with assms(2) show "\<exists>more. se_log s' = se_log s @ more" by (induction rule: rtranclp_induct) (auto, metis append.assoc)
qed

lemma current_form_log:
  assumes "session_of_config im g s"
  shows "gl_current_form (se_client s) = (let fs = List.map_filter ge_form (se_log s) in if fs = [] then None else Some (last fs))"
  using golem_history [OF assms] by (auto simp: holds_log_def last_some_def Let_def)

lemma last_form_bounds:
  assumes "session_of_config im g s" "f \<in> set (List.map_filter ge_form (se_log s))"
  shows "length (fo_buttons f) \<le> 1024" "map fst (fo_buttons f) = map int [0..<length (fo_buttons f)]"
    "fo_status f \<noteq> ''decoded'' \<longrightarrow> fo_buttons f = []"
proof -
  obtain e where "e \<in> set (se_log s)" "ge_form e = Some f" using assms(2) by (auto simp: List.map_filter_def)
  then have "parsed_form f" using log_forms [OF assms(1)] by blast
  then obtain n raw hop at where p: "f = parse_form n raw hop at" unfolding parsed_form_def by blast
  show "length (fo_buttons f) \<le> 1024" "map fst (fo_buttons f) = map int [0..<length (fo_buttons f)]"
    "fo_status f \<noteq> ''decoded'' \<longrightarrow> fo_buttons f = []"
    using parse_form_bounds [of n raw hop at] by (simp_all add: p max_form_buttons_def)
qed

lemma select_form_sends:
  assumes "gl_current_form c = Some f" "gl_current_form c1 = Some f1" "gl_conn c2 = Some k" "length (fo_buttons f) \<le> 1024"
  shows "select_form written flushed c c1 c2 i =
      (if 0 \<le> i \<and> i < int (length (fo_buttons f))
       then (case written of Some e \<Rightarrow> (None, Some (GWrite e)) | None \<Rightarrow> (Some (fo_id f1, itoa (nat i)), map_option GFlush flushed))
       else (None, Some (GButtonRange i (int (length (fo_buttons f)) - 1))))"
proof (cases "0 \<le> i \<and> i < int (length (fo_buttons f))")
  case True
  then have "i < 10000" using assms(4) by linarith
  then have "nat i < 10 ^ 4" using True by (simp add: nat_less_iff)
  then have "length (itoa (nat i)) \<le> 4" by (rule itoa_length) simp
  then have "length (itoa (nat i)) \<le> max_form_bytes" by (simp add: max_form_bytes_def)
  then show ?thesis using True assms(1-3) json_valid_itoa
    by (simp add: select_form_def submit_form_def itoa_int_def split: option.split)
next
  case False
  then show ?thesis using assms(1) by (auto simp: select_form_def)
qed

text \<open>
  C13. A scenario presses the buttons that the server shows. \<^verbatim>\<open>SelectForm\<close> looks at the last form recorded
  when it is called (in \<open>s\<close>): it has at most 1024 buttons, numbered from 0, and none unless it could be decoded;
  for an index that is not one of them nothing is sent and the error names the range. Otherwise the response is the
  decimal index, which is JSON, and it is on the wire exactly if writing succeeds, whatever the session did in
  the meantime; it goes under the id of the last form recorded when \<^verbatim>\<open>SubmitForm\<close> looks again (in \<open>s1\<close>).
  That is the id of the form whose buttons were checked if no form came between the two; one that did come
  is answered with an index that was checked against the form before it.
\<close>

theorem golem_presses_shown_buttons:
  assumes "session_of_config im g s" and "(session_step im)\<^sup>*\<^sup>* s s1" and "(session_step im)\<^sup>*\<^sup>* s1 s2"
  shows "let forms = List.map_filter ge_form (se_log s); forms1 = List.map_filter ge_form (se_log s1);
         result = select_form written flushed (se_client s) (se_client s1) (se_client s2) i
    in if forms = [] then result = (None, Some GNoForm)
       else let f = last forms in
         length (fo_buttons f) \<le> 1024 \<and> map fst (fo_buttons f) = map int [0..<length (fo_buttons f)]
        \<and> (fo_status f \<noteq> ''decoded'' \<longrightarrow> fo_buttons f = []) \<and> prefix forms forms1
        \<and> result =
            (if 0 \<le> i \<and> i < int (length (fo_buttons f))
             then (case written of Some e \<Rightarrow> (None, Some (GWrite e)) | None \<Rightarrow> (Some (fo_id (last forms1), itoa (nat i)), map_option GFlush flushed))
             else (None, Some (GButtonRange i (int (length (fo_buttons f)) - 1))))
        \<and> (forms1 = forms \<longrightarrow> last forms1 = f)"
proof (cases "List.map_filter ge_form (se_log s) = []")
  case True
  then show ?thesis using current_form_log [OF assms(1)] by (simp add: select_form_def)
next
  case False
  define forms f where "forms = List.map_filter ge_form (se_log s)" and "f = last forms"
  have ne: "forms \<noteq> []" using False by (simp add: forms_def)
  have form: "gl_current_form (se_client s) = Some f" using current_form_log [OF assms(1)] ne by (simp add: forms_def f_def)
  note later = later_session [OF assms(1,2)]
  obtain more where more: "List.map_filter ge_form (se_log s1) = forms @ more"
    using later(2) by (auto simp: forms_def List.map_filter_def)
  have form1: "gl_current_form (se_client s1) = Some (last (List.map_filter ge_form (se_log s1)))"
    using current_form_log [OF later(1)] more ne by simp
  obtain k where k: "gl_conn (se_client s2) = Some k"
    using reachable_parts(2) [OF later_session(1) [OF later(1) assms(3)]] by (auto simp: placed_def)
  have "f \<in> set (List.map_filter ge_form (se_log s))" using ne by (simp add: f_def forms_def)
  note bounds = last_form_bounds [OF assms(1) this]
  note select_form_sends [OF form form1 k bounds(1), of written flushed i]
  moreover have "\<exists>zs. forms @ more = forms @ zs" "forms @ more = forms \<longrightarrow> last (forms @ more) = f" by (auto simp: f_def)
  ultimately show ?thesis using ne bounds by (simp only: Let_def forms_def [symmetric] f_def [symmetric] prefix_def if_False more refl simp_thms)
qed

section \<open>A run\<close>

fun drive :: "session \<Rightarrow> (instant \<times> answer) list \<Rightarrow> session option" where
  "drive s [] = Some s"
| "drive s ((now, a) # xs) =
     (case reader_turn now (se_reader s) a (se_client s) of
        None \<Rightarrow> None
      | Some (c, r) \<Rightarrow>
          drive (s\<lparr>se_client := c, se_reader := r, se_log := se_log s @ turn_log now (se_reader s) a (se_client s)\<rparr>) xs)"

lemma drive_steps: "drive s xs = Some s' \<Longrightarrow> (session_step im)\<^sup>*\<^sup>* s s'"
proof (induction s xs rule: drive.induct)
  case (2 s now a xs)
  obtain c r where t: "reader_turn now (se_reader s) a (se_client s) = Some (c, r)"
      and d: "drive (s\<lparr>se_client := c, se_reader := r, se_log := se_log s @ turn_log now (se_reader s) a (se_client s)\<rparr>) xs = Some s'"
    using 2(2) by (auto split: option.splits)
  show ?case by (rule converse_rtranclp_into_rtranclp [OF step_reader [OF t] 2(1) [OF t refl d]])
qed simp

definition demo_golem_config :: golem_config where
  "demo_golem_config =
     \<lparr>gc_address = ''play:19132'', gc_transport = ''raknet'', gc_network = False, gc_identity = ''id'', gc_client = ''client'',
      gc_connect_timeout = 0, gc_follow = True, gc_max_hops = 0, gc_input_interval = 0, gc_packs_observer = True,
      gc_spawn_observer = False\<rparr>"

definition demo_connection :: "nat \<Rightarrow> connection" where
  "demo_connection n = \<lparr>cn_id = n, cn_identity = ''id'', cn_client = ''client'', cn_local = Some ''local'', cn_guid = 5,
     cn_packs = 1, cn_authenticated = True, cn_input_mode = 2, cn_view = []\<rparr>"

definition demo_tokens :: "token list" where
  "demo_tokens = [TLBrace, TStr ''buttons'', TColon, TLBrack, TLBrace, TRBrace, TRBrack, TRBrace]"

definition demo_form_text :: string where
  "demo_form_text = print_tokens demo_tokens"

lemma demo_form_decoded: "decode_form demo_form_text = Some ([], [], [], [[]])"
proof -
  have f: "json_fold ''buttons'' = ''buttons''" by (rule json_fold_lower) (simp add: ord_def)
  have "json_parse demo_form_text = Some (JObj [(''buttons'', JArr [JObj []])])"
    unfolding demo_form_text_def demo_tokens_def
    by (subst json_parse_tokens) (simp_all add: plain_char_def ord_def open_frame_def max_nesting_def)
  then show ?thesis
    by (simp add: decode_form_def unmarshal_object_def field_with_def f decode_button_def)
qed

definition demo_started :: session where
  "demo_started =
     (let c0 = empty_client (golem_defaults demo_golem_config);
          w = \<lparr>sw_dial = Inr (demo_connection 7), sw_spawn = None, sw_packs = None, sw_observe = None, sw_time = (0, 0)\<rparr>
      in started_session (fst (start_client w c0)) [numbered (spawned_event 1 (0, 0)) c0])"

lemma demo_trim:
  "trim_space ''play:19132'' = ''play:19132''" "trim_space ''play'' = ''play''" "trim_space ''next:19133'' = ''next:19133''"
  "trim_space ''next'' = ''next''"
  by (rule trim_space_plain; auto simp: ord_def is_space_rune_def)+

lemma scenario_addresses: "golem_validate_address ''play:19132'' = Inr ()" "golem_validate_address ''next:19133'' = Inr ()"
  by (simp_all add: golem_validate_address_def demo_trim split_host_port_def last_index_def parse_uint_def is_digit_def digits_value_def ord_def)

lemma demo_client: "new_client demo_golem_config = Inr (empty_client (golem_defaults demo_golem_config))"
  using scenario_addresses(1)
  by (simp add: new_client_def golem_check_def demo_golem_config_def golem_defaults_def Let_def contains_any_def demo_trim
      max_transfer_hops_def default_input_interval_def min_input_interval_def max_input_interval_def)

lemma demo_started_session:
  assumes "(session_step im)\<^sup>*\<^sup>* demo_started s"
  shows "session_of_config im demo_golem_config s"
proof -
  let ?w = "\<lparr>sw_dial = Inr (demo_connection 7), sw_spawn = None, sw_packs = None, sw_observe = None, sw_time = (0, 0)\<rparr>"
  let ?c0 = "empty_client (golem_defaults demo_golem_config)"
  have "snd (start_client ?w ?c0) = None"
    by (simp add: start_client_def Let_def empty_client_def golem_defaults_def demo_golem_config_def)
  then have "start_client ?w ?c0 = (fst (start_client ?w ?c0), None)" by (metis prod.collapse)
  moreover have "(session_step im)\<^sup>*\<^sup>* (started_session (fst (start_client ?w ?c0)) [numbered (spawned_event 1 (sw_time ?w)) ?c0]) s"
    using assms by (simp add: demo_started_def Let_def)
  ultimately show ?thesis using demo_client unfolding session_of_config_def by blast
qed

definition demo_transfer :: golem_transfer where
  "demo_transfer = \<lparr>gt_address = ''next'', gt_port = 19133, gt_target = ''next:19133'', gt_reload = False, gt_hop = 1,
     gt_followed = False, gt_error = None\<rparr>"

lemma demo_transfer_event:
  "ge_transfer (event_for_packet (TransferPacket ''next'' 19133 False) 1 at) = Some demo_transfer"
  "ge_kind (event_for_packet (TransferPacket ''next'' 19133 False) 1 at) = ''transfer''"
  "ge_form (event_for_packet (TransferPacket ''next'' 19133 False) 1 at) = None"
proof -
  have t: "trim_chars {CHR ''['', CHR '']''} ''next'' = ''next''" by (simp add: trim_chars_def trim_both_def drop_while_end_def)
  have "itoa 19133 = ''19133''" by (subst itoa.simps, simp add: digit_char_def char_of_eq_iff)+
  then have "join_host_port ''next'' (itoa 19133) = ''next:19133''" by (simp add: join_host_port_def)
  then show "ge_transfer (event_for_packet (TransferPacket ''next'' 19133 False) 1 at) = Some demo_transfer"
    by (simp add: event_for_packet_def Let_def t demo_trim demo_transfer_def)
qed (simp_all add: event_for_packet_def Let_def plain_event_def)

text \<open>A step of the run that records a notification.\<close>

lemma demo_record:
  assumes "length (gl_events c) < max_event_buffer" "ge_kind e \<noteq> ''packet''"
  shows "record_event e now c = ((retain_event (numbered e c) c)\<lparr>gl_events := gl_events c @ [numbered e c]\<rparr>, True)"
  using assms by (simp add: record_event_def Let_def numbered_def)

text \<open>The run up to the dial of the next hop, and on to the end of that hop after a \<^verbatim>\<open>Close\<close> in between.\<close>

definition demo_form_event :: golem_event where
  "demo_form_event = event_for_packet (ModalFormRequest 7 demo_form_text) 1 (1, 1)"

definition demo_transfer_step :: golem_event where
  "demo_transfer_step = event_for_packet (TransferPacket ''next'' 19133 False) 1 (2, 2)"

definition demo_c1 :: client where
  "demo_c1 = (retain_event (numbered demo_form_event (se_client demo_started)) (se_client demo_started))
     \<lparr>gl_events := gl_events (se_client demo_started) @ [numbered demo_form_event (se_client demo_started)]\<rparr>"

definition demo_c2 :: client where
  "demo_c2 = (retain_event (numbered demo_transfer_step demo_c1) demo_c1)
     \<lparr>gl_events := gl_events demo_c1 @ [numbered demo_transfer_step demo_c1]\<rparr>"

definition demo_c3 :: client where
  "demo_c3 = close_connection 7 (demo_c2\<lparr>gl_input_paused := True\<rparr>)"

definition demo_dialing :: session where
  "demo_dialing =
     \<lparr>se_client = demo_c3, se_reader = FollowDial demo_transfer (demo_connection 7) 1, se_input = True,
      se_log = se_log demo_started @ [numbered demo_form_event (se_client demo_started), numbered demo_transfer_step demo_c1],
      se_taken = []\<rparr>"

lemma demo_client_fields:
  "gl_conn (se_client demo_started) = Some (demo_connection 7)" "gl_hop (se_client demo_started) = 1"
  "gl_config (se_client demo_started) = golem_defaults demo_golem_config" "length (gl_events (se_client demo_started)) = 1"
  "se_reader demo_started = Reading" "se_input demo_started" "se_taken demo_started = []" "gl_open (se_client demo_started) = [7]"
  "gl_started_ctx (se_client demo_started)" "gl_close_once (se_client demo_started) = False"
  by (simp_all add: demo_started_def start_client_def Let_def started_session_def empty_client_def demo_golem_config_def
      golem_defaults_def record_event_def numbered_def spawned_event_def plain_event_def max_event_buffer_def publish_spawn_def
      set_connection_def open_connection_def retain_event_def max_history_def demo_connection_def)

lemma demo_open: "gl_open demo_c1 = [7]" "gl_open demo_c2 = [7]" "gl_open demo_c3 = []"
  by (simp_all add: demo_c1_def demo_c2_def demo_c3_def retain_event_def demo_client_fields close_connection_def)

lemma demo_dialing_drive:
  "drive demo_started [((1, 1), ReadAnswer (Inr (ModalFormRequest 7 demo_form_text))),
     ((2, 2), ReadAnswer (Inr (TransferPacket ''next'' 19133 False))), ((3, 3), CallAnswer None)] = Some demo_dialing"
proof -
  have k1: "ge_kind demo_form_event \<noteq> ''packet''" "ge_transfer demo_form_event = None"
    by (simp_all add: demo_form_event_def event_for_packet_def Let_def plain_event_def)
  have r1: "record_event demo_form_event (1, 1) (se_client demo_started) = (demo_c1, True)"
    unfolding demo_c1_def by (rule demo_record) (simp_all add: demo_client_fields max_event_buffer_def k1)
  have r2: "record_event demo_transfer_step (2, 2) demo_c1 = (demo_c2, True)"
    unfolding demo_c2_def
    by (rule demo_record) (simp_all add: demo_c1_def demo_client_fields max_event_buffer_def demo_transfer_step_def demo_transfer_event)
  have t1: "read_turn (1, 1) (Inr (ModalFormRequest 7 demo_form_text)) (se_client demo_started) = (demo_c1, Reading)"
    by (simp add: read_turn_def demo_client_fields demo_form_event_def [symmetric] r1 k1)
  have f1: "gl_conn demo_c1 = Some (demo_connection 7)" "gl_hop demo_c1 = 1" "gl_config demo_c1 = golem_defaults demo_golem_config"
    by (simp_all add: demo_c1_def demo_client_fields)
  have f2: "gl_config demo_c2 = golem_defaults demo_golem_config" by (simp add: demo_c2_def f1)
  have t2: "read_turn (2, 2) (Inr (TransferPacket ''next'' 19133 False)) demo_c1 = (demo_c2, FollowCheck demo_transfer (demo_connection 7) 1)"
    by (simp add: read_turn_def f1 demo_transfer_step_def [symmetric] r2)
      (simp add: demo_transfer_step_def demo_transfer_event f1 demo_golem_config_def golem_defaults_def)
  have t3: "follow_check (3, 3) demo_transfer (demo_connection 7) 1 demo_c2 = (demo_c3, FollowDial demo_transfer (demo_connection 7) 1)"
    using scenario_addresses(2)
    by (simp add: follow_check_def f2 golem_defaults_def demo_golem_config_def max_transfer_hops_def demo_transfer_def demo_c3_def demo_connection_def)
  show ?thesis
    by (simp add: t1 t2 t3 turn_log_def demo_client_fields f1 demo_form_event_def [symmetric] demo_transfer_step_def [symmetric] demo_dialing_def)
qed

lemma retain_form:
  "gl_current_form (retain_event (numbered e d) c) = (case ge_form e of None \<Rightarrow> gl_current_form c | Some f \<Rightarrow> Some f)"
  by (simp add: retain_event_def numbered_def)

lemma demo_form_step: "ge_form demo_form_event = Some (parse_form 7 demo_form_text 1 (1, 1))"
  by (simp add: demo_form_event_def event_for_packet_def Let_def)

lemma demo_dialing_session: "session_of_config im demo_golem_config demo_dialing"
  by (rule demo_started_session [OF drive_steps [OF demo_dialing_drive]])

lemma demo_dialing_client: "se_client demo_dialing = demo_c3" "gl_config demo_c3 = golem_defaults demo_golem_config"
    "gl_close_once demo_c3 = False" "gl_started_ctx demo_c3" "gl_current_form demo_c3 = Some (parse_form 7 demo_form_text 1 (1, 1))"
  by (simp_all add: demo_dialing_def demo_c3_def demo_c2_def demo_c1_def close_connection_def demo_client_fields
      retain_form demo_transfer_step_def demo_transfer_event demo_form_step)

section \<open>Two sessions that do not end\<close>

text \<open>
  When the spawn observer refuses the first spawn, the reader counts as started but never runs: the
  client is closed, its done signal is never given, and \<^verbatim>\<open>Close\<close> and \<^verbatim>\<open>NextEvent\<close> wait in vain.
\<close>

theorem refused_spawn_never_done:
  assumes "new_client g = Inr c0" "start_client w c0 = (c, Some (GObserveSpawn e))"
  shows "gl_closed c \<and> \<not> gl_done c \<and> (\<forall>now. finish now c = c)
    \<and> next_event None (c\<lparr>gl_events := []\<rparr>) = []"
proof -
  obtain k where k: "c = fail_client e (sw_time w) (fst (record_event (spawned_event 1 (sw_time w)) (sw_time w)
      ((publish_spawn k 1 (cn_packs k) (open_connection k (c0\<lparr>gl_started_ctx := True, gl_started := Some (sw_time w)\<rparr>)))
        \<lparr>gl_reader_started := True\<rparr>)))" (is "_ = fail_client _ _ (fst (record_event _ _ ?d))")
    using assms(2) by (auto simp: start_client_def Let_def split: sum.splits option.splits if_splits)
  obtain f where c0: "c0 = empty_client f" using assms(1) by (auto simp: new_client_def split: sum.splits)
  have d: "\<not> gl_close_once ?d" "\<not> gl_closed ?d" "\<not> gl_done ?d" "gl_reader_started ?d" "gl_events ?d = []"
    by (simp_all add: c0 empty_client_def quiet_defs)
  have r: "fst (record_event (spawned_event 1 (sw_time w)) (sw_time w) ?d)
      = (retain_event (numbered (spawned_event 1 (sw_time w)) ?d) ?d)\<lparr>gl_events := [numbered (spawned_event 1 (sw_time w)) ?d]\<rparr>"
    by (simp add: demo_record spawned_event_def plain_event_def d(5) max_event_buffer_def)
  have o: "gl_close_once c" unfolding k by simp
  show ?thesis using d o by (simp add: k r next_event_def) (simp add: finish_def)
qed

text \<open>
  A \<^verbatim>\<open>Close\<close> that comes while a transfer is followed closes the connection that the client had. The
  connection of the hop is published afterwards and stays open: the session is closed, its reader waits
  in a read on an open connection, and no further \<^verbatim>\<open>Close\<close> does anything.
\<close>

lemma publish_after_close:
  assumes "gl_close_once c" "cn_id k \<in> set (gl_open c)"
  shows "gl_close_once (follow_publish now t k hop c) \<and> cn_id k \<in> set (gl_open (follow_publish now t k hop c))
    \<and> gl_conn (follow_publish now t k hop c) = Some k"
proof -
  have rec: "gl_close_once (fst (record_event e now d)) \<and> gl_open (fst (record_event e now d)) = gl_open d
      \<and> gl_conn (fst (record_event e now d)) = gl_conn d" if "gl_close_once d" for e d
    using that by (simp add: record_event_def Let_def retain_event_def fail_client_def finish_def)
  show ?thesis unfolding follow_publish_def
    using rec [of "(mark_followed t (publish_spawn k hop (gl_resource_packs c + cn_packs k) c))\<lparr>gl_input_paused := False\<rparr>"] assms
    by (simp add: quiet_defs)
qed

theorem close_misses_next_hop:
  "\<exists>s k. session_of_config im demo_golem_config s \<and> gl_closed (se_client s) \<and> se_reader s = Reading
     \<and> gl_conn (se_client s) = Some k \<and> cn_id k \<in> set (gl_open (se_client s)) \<and> (\<forall>now. finish now (se_client s) = se_client s)"
proof -
  let ?k = "demo_connection 2"
  define s1 where "s1 = demo_dialing\<lparr>se_client := open_connection ?k demo_c3, se_reader := FollowPacks demo_transfer ?k 2\<rparr>"
  have d1: "drive demo_dialing [((4, 4), DialAnswer (Inr ?k)), ((5, 5), CallAnswer None)] = Some s1"
    by (simp add: demo_dialing_def turn_log_def s1_def)
  define c where "c = finish (6, 6) (se_client s1)"
  define s2 where "s2 = s1\<lparr>se_client := c\<rparr>"
  have st: "session_step im s1 s2" unfolding s2_def c_def by (rule step_close)
  have c1: "gl_close_once c" by (simp add: c_def)
  have c2: "cn_id ?k \<in> set (gl_open c)"
    by (simp add: c_def s1_def finish_def open_connection_def Let_def demo_connection_def quiet_defs demo_dialing_client
        demo_open demo_c3_def demo_c2_def demo_c1_def demo_client_fields split: option.split)
  define d where "d = follow_publish (8, 8) demo_transfer ?k 2 c"
  define s3 where "s3 = s2\<lparr>se_client := d, se_reader := Reading, se_log := se_log s2 @ [numbered (spawned_event 2 (8, 8)) c]\<rparr>"
  have cfg: "gl_config c = golem_defaults demo_golem_config" "gl_config d = golem_defaults demo_golem_config"
    using shrinks_record by (auto simp: d_def follow_publish_def c_def s1_def quiet_defs demo_dialing_client shrinks_def)
  have d2: "drive s2 [((7, 7), CallAnswer None), ((8, 8), CallAnswer None), ((9, 9), CallAnswer None)] = Some s3"
    by (simp add: s2_def s1_def turn_log_def s3_def d_def)
  have p: "gl_close_once d" "cn_id ?k \<in> set (gl_open d)" "gl_conn d = Some ?k"
    using publish_after_close [OF c1 c2] by (simp_all add: d_def)
  have "(session_step im)\<^sup>*\<^sup>* demo_started s3"
    using drive_steps [OF demo_dialing_drive] drive_steps [OF d1] st drive_steps [OF d2]
    by (meson rtranclp.rtrancl_into_rtrancl rtranclp_trans)
  then have r: "session_of_config im demo_golem_config s3" by (rule demo_started_session)
  have "gl_closed d" using reachable_parts(1) [OF r] p(1) by (simp add: s3_def well_ended_def close_state_def)
  then show ?thesis using r p by (intro exI [of _ s3] exI [of _ ?k]) (simp add: s3_def finish_def)
qed

section \<open>The properties on the run\<close>

definition demo_modes :: input_modes where
  "demo_modes = \<lparr>im_undefined = 0, im_mouse = 1, im_touch = 2, im_gamepad = 3, im_count = 4, im_model_touch = 0, im_model_crosshair = 1\<rparr>"

lemma demo_start_log: "length (se_log demo_started) = 1"
  by (simp add: demo_started_def started_session_def Let_def)

theorem golem_history_exact_witness:
  "session_of_config demo_modes demo_golem_config demo_dialing \<and> length (se_log demo_dialing) = 3
   \<and> rp_event_count (snapshot (9, 9) (se_client demo_dialing)) = 3"
  using golem_history_exact [OF demo_dialing_session [of demo_modes], of "(9, 9)"] demo_dialing_session
  by (simp add: demo_dialing_def demo_start_log)

theorem golem_notifications_witness:
  "session_of_config demo_modes demo_golem_config demo_dialing \<and> \<not> gl_closed (se_client demo_dialing)
   \<and> gl_events (se_client demo_dialing) = filter actionable (se_log demo_dialing)"
proof -
  have o: "\<not> gl_closed (se_client demo_dialing)"
    using reachable_parts(1) [OF demo_dialing_session] by (simp add: demo_dialing_client well_ended_def close_state_def)
  have "se_taken demo_dialing = []" by (simp add: demo_dialing_def)
  then show ?thesis
    using golem_notifications [OF demo_dialing_session [of demo_modes]] o demo_dialing_session by simp
qed

definition demo_closed :: session where
  "demo_closed = demo_started\<lparr>se_client := finish (1, 1) (se_client demo_started)\<rparr>"

lemma demo_closed_session: "session_of_config im demo_golem_config demo_closed"
proof -
  have "session_step im demo_started demo_closed" unfolding demo_closed_def by (rule step_close)
  then show ?thesis by (intro demo_started_session r_into_rtranclp)
qed

theorem golem_session_ends_witness:
  "\<exists>c'. session_of_config demo_modes demo_golem_config demo_closed
     \<and> reader_turn (2, 2) Reading (ReadAnswer (Inl ''closed'')) (se_client demo_closed) = Some (c', Stopped) \<and> gl_done c'"
proof -
  have "gl_closed (se_client demo_closed) \<and> se_reader demo_closed = Reading"
    by (simp add: demo_closed_def demo_client_fields)
  then show ?thesis
    using golem_session_ends [OF demo_closed_session [of demo_modes] refl] demo_closed_session by blast
qed

theorem golem_hops_witness:
  "se_reader demo_dialing = FollowDial demo_transfer (demo_connection 7) 1
   \<and> (let d = hop_dial (gl_config (se_client demo_dialing)) (\<lambda>_. False) demo_transfer (demo_connection 7) 1 in
      gl_open (se_client demo_dialing) = [] \<and> dr_hop d \<le> 64 \<and> dr_guid d = 5 \<and> dr_local d = Some ''local'' \<and> dr_address d = ''next:19133'')"
proof -
  let ?d = "hop_dial (gl_config (se_client demo_dialing)) (\<lambda>_. False) demo_transfer (demo_connection 7) 1"
  have r: "se_reader demo_dialing = FollowDial demo_transfer (demo_connection 7) 1" by (simp add: demo_dialing_def)
  note h = golem_hops [OF demo_dialing_session [of demo_modes] refl]
  have "gl_open (se_client demo_dialing) = [] \<and> dr_hop ?d \<le> gc_max_hops (gl_config (se_client demo_dialing))
      \<and> dr_guid ?d = cn_guid (demo_connection 7) \<and> dr_local ?d = cn_local (demo_connection 7)
      \<and> (dr_address ?d = gt_target demo_transfer \<or> (\<exists>a. dr_address ?d = a \<and> False))"
    using h r unfolding Let_def by blast
  then show ?thesis using h r by (simp add: demo_connection_def demo_transfer_def)
qed

theorem golem_presses_shown_buttons_witness:
  "session_of_config demo_modes demo_golem_config demo_dialing
   \<and> select_form None None (se_client demo_dialing) (se_client demo_dialing) (se_client demo_dialing) 0 = (Some (7, itoa 0), None)
   \<and> select_form None None (se_client demo_dialing) (se_client demo_dialing) (se_client demo_dialing) 1 = (None, Some (GButtonRange 1 0))"
proof -
  have f: "gl_current_form (se_client demo_dialing) = Some (parse_form 7 demo_form_text 1 (1, 1))"
    by (simp add: demo_dialing_client)
  have l: "length demo_form_text \<le> max_form_bytes"
    by (simp add: demo_form_text_def demo_tokens_def max_form_bytes_def)
  have b: "length (fo_buttons (parse_form 7 demo_form_text 1 (1, 1))) = 1" "fo_id (parse_form 7 demo_form_text 1 (1, 1)) = 7"
    using l by (simp_all add: parse_form_def demo_form_decoded max_form_buttons_def)
  have some: "fo_buttons (parse_form 7 demo_form_text 1 (1, 1)) \<noteq> []" using b(1) by auto
  have fs: "List.map_filter ge_form (se_log demo_dialing) \<noteq> []" "last (List.map_filter ge_form (se_log demo_dialing)) = parse_form 7 demo_form_text 1 (1, 1)"
    using current_form_log [OF demo_dialing_session [of demo_modes]] f by (auto simp: Let_def split: if_splits)
  show ?thesis
    using golem_presses_shown_buttons [OF demo_dialing_session [of demo_modes] rtranclp.rtrancl_refl rtranclp.rtrancl_refl, of None None 0]
      golem_presses_shown_buttons [OF demo_dialing_session [of demo_modes] rtranclp.rtrancl_refl rtranclp.rtrancl_refl, of None None 1]
      demo_dialing_session fs by (simp add: b Let_def some)
qed

end
