(* ===== verification/Pack_Record.thy ===== *)
theory Pack_Record
  imports Schema PackDecrypt
begin

text \<open>
  Recording the resource packs of a connection (\<^verbatim>\<open>internal/bedrock/resource_pack.go\<close>): the archive of
  every pack as it came, and for an encrypted pack the manifests and the archive that decryption derives
  from it, or the failure of the decryption. The recorder is a record of the three calls the code makes,
  on a state of any type; the JSON encoders, the temporary file and the text of errors are parameters.
\<close>

record 'r sink =
  sk_reader :: "event \<Rightarrow> bytes \<Rightarrow> int \<Rightarrow> string \<Rightarrow> string \<Rightarrow> 'r \<Rightarrow> (string + event) \<times> 'r"
  sk_record :: "capture_record \<Rightarrow> 'r \<Rightarrow> (string + event) \<times> 'r"
  sk_limit :: "string \<Rightarrow> 'r \<Rightarrow> (string + unit) \<times> 'r"

text \<open>An error of the library or the system: its message and its Go type.\<close>

type_synonym go_error = "string \<times> string"

text \<open>A pack of the protocol library: what its methods return; the parsed manifest is the text of its JSON.\<close>

record resource_pack =
  pk_uuid :: string
  pk_pack_version :: string
  pk_name :: string
  pk_description :: string
  pk_archive :: bytes
  pk_checksum :: bytes
  pk_download_url :: string
  pk_encrypted :: bool
  pk_key :: string
  pk_has_scripts :: bool
  pk_has_behaviours :: bool
  pk_has_textures :: bool
  pk_world_template :: bool
  pk_manifest :: string
  pk_files :: "zip_file list option"

record pack_data =
  pd_index :: int
  pd_total :: int
  pd_uuid :: string
  pd_version :: string
  pd_name :: string
  pd_description :: string
  pd_archive_bytes :: int
  pd_checksum :: string
  pd_download_url :: string
  pd_delivery :: string
  pd_encrypted :: bool
  pd_content_key :: string
  pd_has_scripts :: bool
  pd_has_behaviours :: bool
  pd_has_textures :: bool
  pd_world_template :: bool
  pd_manifest :: string

datatype derived_report = NoReport | SummaryReport contents_summary | ArchiveReport decrypt_report

record derived_data =
  dd_uuid :: string
  dd_version :: string
  dd_path :: string
  dd_report :: derived_report

record decrypt_options =
  do_decrypt :: bool

text \<open>The connection that the packs belong to.\<close>

record pack_origin =
  po_session :: string
  po_connection :: string
  po_hop :: int
  po_source :: "endpoint option"
  po_destination :: "endpoint option"

text \<open>What the system and the encoders answer while one pack is recorded.\<close>

record pack_world =
  pw_pack_json :: "pack_data \<Rightarrow> string option"
  pw_derived_json :: "derived_data \<Rightarrow> string option"
  pw_temp_error :: "go_error option"
  pw_cancelled :: "string option"
  pw_faults :: writer_faults
  pw_zip :: "out_entry list \<Rightarrow> bytes"
  pw_error_text :: "decrypt_error \<Rightarrow> go_error"
  pw_sync_error :: "go_error option"
  pw_seek_error :: "go_error option"
  pw_stat_ok :: bool

datatype pack_error = PackNil nat | PackEncode string | PackRecord string string | PackChecksum string
  | PackCancelled string | ManifestEncode string | ManifestRecord string string string | ArchiveStat string
  | ArchiveEncode string | ArchiveRecord string string | LimitationError string | FailureEncode string | FailureRecord string

definition pack_event :: "pack_origin \<Rightarrow> string \<Rightarrow> severity \<Rightarrow> string \<Rightarrow> u64 option \<Rightarrow> string \<Rightarrow> error_info option \<Rightarrow> string list \<Rightarrow> event" where
  "pack_event po kind severity stage parent data err notes =
     empty_event\<lparr>ev_session_id := po_session po, ev_connection_id := po_connection po, ev_hop := po_hop po, ev_kind := kind,
       ev_severity := severity, ev_direction := DirectionServerToClient, ev_channel := ''upstream'', ev_stage := stage,
       ev_source := po_source po, ev_destination := po_destination po, ev_parent_sequence := parent, ev_data := Some data,
       ev_error := err, ev_annotations := notes\<rparr>"

definition describe_pack :: "nat \<Rightarrow> nat \<Rightarrow> resource_pack \<Rightarrow> pack_data" where
  "describe_pack i n p =
     \<lparr>pd_index = int i + 1, pd_total = int n, pd_uuid = pk_uuid p, pd_version = pk_pack_version p, pd_name = pk_name p,
      pd_description = pk_description p, pd_archive_bytes = int (length (pk_archive p)), pd_checksum = hex_string (pk_checksum p),
      pd_download_url = pk_download_url p, pd_delivery = (if pk_download_url p \<noteq> [] then ''http'' else ''raknet''),
      pd_encrypted = pk_encrypted p, pd_content_key = pk_key p,
      pd_has_scripts = pk_has_scripts p, pd_has_behaviours = pk_has_behaviours p, pd_has_textures = pk_has_textures p,
      pd_world_template = pk_world_template p, pd_manifest = pk_manifest p\<rparr>"

definition archive_event :: "pack_origin \<Rightarrow> string \<Rightarrow> event" where
  "archive_event po data =
     pack_event po ''resource_pack.archive'' SeverityInfo ''post_resource_pack_download'' None data None
       [''Archive bytes are preserved before any decryption or extraction'']"

definition manifest_event :: "pack_origin \<Rightarrow> u64 \<Rightarrow> string \<Rightarrow> event" where
  "manifest_event po parent data =
     pack_event po ''resource_pack.contents_manifest'' SeverityInfo ''derived_resource_pack_decryption'' (Some parent) data None
       [''Derived plaintext from the original archive without modifying it'',
        ''The contents manifest contains per-file decryption keys and must be treated as sensitive'']"

definition decrypted_event :: "pack_origin \<Rightarrow> u64 \<Rightarrow> string \<Rightarrow> event" where
  "decrypted_event po parent data =
     pack_event po ''resource_pack.decrypted_archive'' SeverityInfo ''derived_resource_pack_decryption'' (Some parent) data None
       [''Derived AES-256-CFB8 plaintext archive; the original archive remains the authoritative captured evidence'',
        ''AES-CFB8 does not authenticate plaintext, so successful decryption is not an integrity proof'']"

definition failure_event :: "pack_origin \<Rightarrow> u64 \<Rightarrow> string \<Rightarrow> go_error \<Rightarrow> event" where
  "failure_event po parent data err =
     pack_event po ''resource_pack.decrypt_error'' SeverityWarn ''derived_resource_pack_decryption'' (Some parent) data
       (Some \<lparr>ei_operation = ''decrypt_resource_pack'', ei_message = fst err, ei_type = snd err, ei_temporary = None, ei_timeout = None\<rparr>)
       [''Decryption is derived and optional; failure does not discard or modify the original archive'',
        ''No undocumented encryption variant or compatibility fallback was attempted'']"

definition derived_of :: "resource_pack \<Rightarrow> string \<Rightarrow> derived_report \<Rightarrow> derived_data" where
  "derived_of p path report = \<lparr>dd_uuid = pk_uuid p, dd_version = pk_pack_version p, dd_path = path, dd_report = report\<rparr>"

definition limitation_text :: "resource_pack \<Rightarrow> string" where
  "limitation_text p = ''Encrypted resource pack '' @ pk_uuid p @ '' could not be decrypted; its original archive was retained''"

section \<open>Recording\<close>

definition record_decrypt_failure :: "'r sink \<Rightarrow> pack_origin \<Rightarrow> pack_world \<Rightarrow> resource_pack \<Rightarrow> u64 \<Rightarrow> go_error \<Rightarrow> 'r \<Rightarrow>
    (pack_error + unit) \<times> 'r" where
  "record_decrypt_failure sk po w p parent err r =
     (case sk_limit sk (limitation_text p) r of
        (Inl e, r1) \<Rightarrow> (Inl (LimitationError e), r1)
      | (Inr _, r1) \<Rightarrow>
          (case pw_derived_json w (derived_of p [] NoReport) of
             None \<Rightarrow> (Inl (FailureEncode (pk_uuid p)), r1)
           | Some data \<Rightarrow>
               (case sk_record sk \<lparr>rc_event = failure_event po parent data err, rc_raw = None, rc_media_type = [], rc_representation = []\<rparr> r1 of
                  (Inl e, r2) \<Rightarrow> (Inl (FailureRecord e), r2)
                | (Inr _, r2) \<Rightarrow> (Inr (), r2))))"

text \<open>The loop over the decrypted contents manifests.\<close>

fun record_manifests :: "'r sink \<Rightarrow> pack_origin \<Rightarrow> pack_world \<Rightarrow> resource_pack \<Rightarrow> u64 \<Rightarrow> contents_manifest list \<Rightarrow> 'r \<Rightarrow>
    (pack_error + unit) \<times> 'r" where
  "record_manifests sk po w p parent [] r = (Inr (), r)"
| "record_manifests sk po w p parent (m # ms) r =
     (case pw_derived_json w (derived_of p (ct_path (cm_summary m)) (SummaryReport (cm_summary m))) of
        None \<Rightarrow> (Inl (ManifestEncode (pk_uuid p)), r)
      | Some data \<Rightarrow>
          (case sk_record sk \<lparr>rc_event = manifest_event po parent data, rc_raw = Some (cm_plaintext m), rc_media_type = ''application/json'',
                  rc_representation = ''minecraft_resource_pack_decrypted_contents_manifest''\<rparr> r of
             (Inl e, r1) \<Rightarrow> (Inl (ManifestRecord (ct_path (cm_summary m)) (pk_uuid p) e), r1)
           | (Inr _, r1) \<Rightarrow> record_manifests sk po w p parent ms r1))"

text \<open>
  What decrypting into the temporary file gives: the result and the bytes of the file, or why it failed;
  \<^term>\<open>Inl None\<close> is the end of the context. A flush and a rewind of the file follow a success.
\<close>

definition decrypt_to_file :: "pack_world \<Rightarrow> resource_pack \<Rightarrow> go_error option + decrypt_result \<times> bytes" where
  "decrypt_to_file w p =
     (if pw_cancelled w \<noteq> None then Inl None
      else case decrypt_archive (pw_faults w) (Some (pk_files p)) True (int (length (pk_archive p))) (pk_key p) of
        Inl e \<Rightarrow> Inl (Some (pw_error_text w e))
      | Inr (result, entries) \<Rightarrow>
          (case pw_sync_error w of
             Some e \<Rightarrow> Inl (Some e)
           | None \<Rightarrow> (case pw_seek_error w of Some e \<Rightarrow> Inl (Some e) | None \<Rightarrow> Inr (result, pw_zip w entries))))"

definition record_decrypted_pack :: "'r sink \<Rightarrow> pack_origin \<Rightarrow> pack_world \<Rightarrow> resource_pack \<Rightarrow> u64 \<Rightarrow> 'r \<Rightarrow> (pack_error + unit) \<times> 'r" where
  "record_decrypted_pack sk po w p parent r =
     (case pw_temp_error w of
        Some e \<Rightarrow> record_decrypt_failure sk po w p parent e r
      | None \<Rightarrow>
          (case decrypt_to_file w p of
             Inl None \<Rightarrow> (Inl (PackCancelled (the (pw_cancelled w))), r)
           | Inl (Some e) \<Rightarrow> record_decrypt_failure sk po w p parent e r
           | Inr (result, archive) \<Rightarrow>
               (case record_manifests sk po w p parent (rs_manifests result) r of
                  (Inl e, r1) \<Rightarrow> (Inl e, r1)
                | (Inr _, r1) \<Rightarrow>
                    if \<not> pw_stat_ok w then (Inl (ArchiveStat (pk_uuid p)), r1)
                    else case pw_derived_json w (derived_of p [] (ArchiveReport (rs_report result))) of
                      None \<Rightarrow> (Inl (ArchiveEncode (pk_uuid p)), r1)
                    | Some data \<Rightarrow>
                        (case sk_reader sk (decrypted_event po parent data) archive (int (length archive)) ''application/zip''
                               ''minecraft_resource_pack_decrypted_archive'' r1 of
                           (Inl e, r2) \<Rightarrow> (Inl (ArchiveRecord (pk_uuid p) e), r2)
                         | (Inr _, r2) \<Rightarrow> (Inr (), r2)))))"

text \<open>One turn of the loop of \<^verbatim>\<open>RecordResourcePacks\<close>, for the pack at position \<open>i\<close> of \<open>n\<close>.\<close>

definition record_pack :: "'r sink \<Rightarrow> decrypt_options \<Rightarrow> pack_origin \<Rightarrow> nat \<Rightarrow> nat \<Rightarrow> pack_world \<Rightarrow> resource_pack option \<Rightarrow> 'r \<Rightarrow>
    (pack_error + unit) \<times> 'r" where
  "record_pack sk opts po i n w pack r =
     (case pack of
        None \<Rightarrow> (Inl (PackNil (i + 1)), r)
      | Some p \<Rightarrow>
          (case pw_pack_json w (describe_pack i n p) of
             None \<Rightarrow> (Inl (PackEncode (pk_uuid p)), r)
           | Some data \<Rightarrow>
               (case sk_reader sk (archive_event po data) (pk_archive p) (int (length (pk_archive p))) ''application/zip''
                      ''minecraft_resource_pack_archive'' r of
                  (Inl e, r1) \<Rightarrow> (Inl (PackRecord (pk_uuid p) e), r1)
                | (Inr event, r1) \<Rightarrow>
                    if (case ev_blob event of None \<Rightarrow> True | Some b \<Rightarrow> br_sha256 b \<noteq> hex_string (pk_checksum p))
                    then (Inl (PackChecksum (pk_uuid p)), r1)
                    else if pk_encrypted p \<and> do_decrypt opts then record_decrypted_pack sk po w p (ev_sequence event) r1
                    else (Inr (), r1))))"

fun record_packs_from :: "'r sink \<Rightarrow> decrypt_options \<Rightarrow> pack_origin \<Rightarrow> nat \<Rightarrow> nat \<Rightarrow> (pack_world \<times> resource_pack option) list \<Rightarrow> 'r \<Rightarrow>
    (pack_error + unit) \<times> 'r" where
  "record_packs_from sk opts po i n [] r = (Inr (), r)"
| "record_packs_from sk opts po i n ((w, p) # ps) r =
     (case record_pack sk opts po i n w p r of
        (Inl e, r1) \<Rightarrow> (Inl e, r1)
      | (Inr _, r1) \<Rightarrow> record_packs_from sk opts po (i + 1) n ps r1)"

definition record_resource_packs :: "'r sink \<Rightarrow> decrypt_options \<Rightarrow> pack_origin \<Rightarrow> (pack_world \<times> resource_pack option) list \<Rightarrow> 'r \<Rightarrow>
    (pack_error + unit) \<times> 'r" where
  "record_resource_packs sk opts po packs r = record_packs_from sk opts po 0 (length packs) packs r"

end
