(* ===== verification/Live_Reporter.thy ===== *)
theory Live_Reporter
  imports Schema Go_Time "HOL-Library.List_Lexorder" "HOL-Library.Char_ord" "HOL-Library.Product_Lexorder"
begin

text \<open>
  The terminal output of a running proxy (\<^verbatim>\<open>internal/proxy/live_reporter.go\<close>): packets are counted by
  channel, direction and name, and a summary is written at most every three seconds. The map of counts is
  an association list in insertion order; the order in which Go iterates over it plays no part. The output is
  the list of writes; the names of packets, the clock and the local time zone are given.
\<close>

section \<open>State\<close>

text \<open>The key of a count is its channel, direction and packet name.\<close>

type_synonym live_key = "string \<times> direction \<times> string"
type_synonym live_group = "string \<times> direction"

definition live_summary_interval :: int where "live_summary_interval = 3 * 1000000000"
definition live_summary_per_side :: nat where "live_summary_per_side = 4"

definition ansi :: "string \<Rightarrow> string" where "ansi code = CHR 0x1B # ''['' @ code @ ''m''"
definition ansi_reset :: string where "ansi_reset = ansi ''0''"
definition ansi_cyan :: string where "ansi_cyan = ansi ''38;5;87''"
definition ansi_green :: string where "ansi_green = ansi ''38;5;83''"
definition ansi_yellow :: string where "ansi_yellow = ansi ''38;5;227''"
definition ansi_magenta :: string where "ansi_magenta = ansi ''38;5;207''"
definition ansi_dark_red :: string where "ansi_dark_red = ansi ''38;5;124''"
definition ansi_white :: string where "ansi_white = ansi ''38;5;231''"

record live_reporter =
  lr_output :: "string list"
  lr_zone :: int
  lr_last_flush :: instant
  lr_counts :: "(live_key \<times> int) list"
  lr_hints :: "string list"
  lr_hop :: int
  lr_spawned :: "int list"
  lr_shutting_down :: bool
  lr_color :: bool
  lr_client_raw :: "u32 \<rightharpoonup> string"
  lr_server_raw :: "u32 \<rightharpoonup> string"
  lr_follow :: bool

text \<open>What the terminal is: colours need a character device and no \<^verbatim>\<open>NO_COLOR\<close> in the environment.\<close>

record terminal =
  tm_no_color :: bool
  tm_mode :: "bool option option"

definition supports_color :: "terminal \<Rightarrow> bool" where
  "supports_color t =
     (if tm_no_color t then False
      else case tm_mode t of None \<Rightarrow> False | Some None \<Rightarrow> False | Some (Some char_device) \<Rightarrow> char_device)"

definition new_live_reporter :: "terminal \<Rightarrow> int \<Rightarrow> (u32 \<rightharpoonup> string) \<Rightarrow> (u32 \<rightharpoonup> string) \<Rightarrow> instant \<Rightarrow> live_reporter" where
  "new_live_reporter t zone client server now =
     \<lparr>lr_output = [], lr_zone = zone, lr_last_flush = now, lr_counts = [], lr_hints = [], lr_hop = 1, lr_spawned = [],
      lr_shutting_down = False, lr_color = supports_color t, lr_client_raw = client, lr_server_raw = server, lr_follow = False\<rparr>"

section \<open>Text\<close>

fun hex_text :: "nat \<Rightarrow> string" where
  "hex_text n = (if n < 16 then [digit_char n] else hex_text (n div 16) @ [digit_char (n mod 16)])"

declare hex_text.simps [simp del]

text \<open>\<^verbatim>\<open>strings.ToUpper\<close> on the ASCII text of channels and levels; other letters are left alone.\<close>

definition upper_ascii :: "char \<Rightarrow> char" where
  "upper_ascii c = (if 97 \<le> ord c \<and> ord c \<le> 122 then char_of (ord c - 32) else c)"

definition live_direction :: "direction \<Rightarrow> string" where
  "live_direction d =
     (if d = DirectionClientToServer then ''C->S'' else if d = DirectionServerToClient then ''S->C'' else ''?'')"

definition raw_packet_name :: "live_reporter \<Rightarrow> direction \<Rightarrow> u32 \<Rightarrow> string" where
  "raw_packet_name r d n =
     (let names = (if d = DirectionClientToServer then lr_client_raw r else lr_server_raw r)
      in case names n of Some name \<Rightarrow> name | None \<Rightarrow> ''Unknown(0x'' @ hex_text (unat n) @ '')'')"

text \<open>The time of day as \<^verbatim>\<open>15:04:05.000\<close> in a zone that is that many nanoseconds ahead of UTC.\<close>

definition clock_text :: "int \<Rightarrow> instant \<Rightarrow> string" where
  "clock_text zone now =
     (let n = (unix_nano now + zone) mod (86400 * 1000000000); s = n div 1000000000; two = (\<lambda>k. pad_left 2 (itoa (nat k)))
      in two (s div 3600) @ '':'' @ two (s div 60 mod 60) @ '':'' @ two (s mod 60)
         @ ''.'' @ pad_left 3 (itoa (nat (n mod 1000000000 div 1000000))))"

text \<open>\<^verbatim>\<open>%-17s\<close> counts characters.\<close>

definition pad_label :: "string \<Rightarrow> string" where
  "pad_label s = s @ replicate (17 - length (runes (map ord s))) (CHR '' '')"

definition live_line :: "live_reporter \<Rightarrow> instant \<Rightarrow> string \<Rightarrow> string \<Rightarrow> string \<Rightarrow> string" where
  "live_line r now label color message =
     (let timestamp = ''['' @ clock_text (lr_zone r) now @ '']''; padded = pad_label label;
          timestamp = (if lr_color r then ansi_cyan @ timestamp @ ansi_reset else timestamp);
          padded = (if lr_color r then color @ padded @ ansi_reset else padded)
      in timestamp @ '' '' @ padded @ '' '' @ message @ [CHR 0x0A])"

definition write_line :: "instant \<Rightarrow> string \<Rightarrow> string \<Rightarrow> string \<Rightarrow> live_reporter \<Rightarrow> live_reporter" where
  "write_line now label color message r = r\<lparr>lr_output := lr_output r @ [live_line r now label color message]\<rparr>"

section \<open>The summary\<close>

definition live_groups :: "(live_key \<times> int) list \<Rightarrow> live_group list" where
  "live_groups counts = sort (remdups (map (\<lambda>((channel, direction, _), _). (channel, direction)) counts))"

definition group_counts :: "live_group \<Rightarrow> (live_key \<times> int) list \<Rightarrow> (string \<times> int) list" where
  "group_counts g counts =
     map (\<lambda>((_, _, name), c). (name, c)) (filter (\<lambda>((channel, direction, _), _). (channel, direction) = g) counts)"

text \<open>Descending by count, then by name.\<close>

definition ranked_counts :: "(string \<times> int) list \<Rightarrow> (string \<times> int) list" where
  "ranked_counts cs = sort_key (\<lambda>(name, c). (- c, name)) cs"

definition count_total :: "(string \<times> int) list \<Rightarrow> int" where "count_total cs = sum_list (map snd cs)"

definition count_text :: "string \<times> int \<Rightarrow> string" where "count_text x = fst x @ '' x'' @ itoa_int (snd x)"

definition summary_parts :: "(string \<times> int) list \<Rightarrow> string list" where
  "summary_parts ranked =
     (let visible = take live_summary_per_side ranked; rest = drop (length visible) ranked
      in map count_text visible
         @ (if length ranked > length visible
            then [''other x'' @ itoa_int (count_total rest) @ '' ('' @ itoa (length ranked - length visible) @ '' types)'']
            else []))"

definition group_label :: "live_group \<Rightarrow> string" where
  "group_label g = (if fst g \<noteq> [] then map upper_ascii (fst g) @ '' '' @ live_direction (snd g) else live_direction (snd g))"

definition group_color :: "live_group \<Rightarrow> string" where
  "group_color g = (if snd g = DirectionServerToClient then ansi_green else ansi_cyan)"

definition group_message :: "(string \<times> int) list \<Rightarrow> string" where
  "group_message cs = itoa_int (count_total cs) @ '' packets | '' @ join_with '' | '' (summary_parts (ranked_counts cs))"

definition write_group :: "instant \<Rightarrow> (live_key \<times> int) list \<Rightarrow> live_reporter \<Rightarrow> live_group \<Rightarrow> live_reporter" where
  "write_group now counts r g =
     (let cs = group_counts g counts
      in if cs = [] then r else write_line now (group_label g) (group_color g) (group_message cs) r)"

definition flush_live :: "instant \<Rightarrow> live_reporter \<Rightarrow> live_reporter" where
  "flush_live now r =
     (if lr_counts r = [] then r\<lparr>lr_last_flush := now\<rparr>
      else (foldl (write_group now (lr_counts r)) r (live_groups (lr_counts r)))\<lparr>lr_counts := [], lr_last_flush := now\<rparr>)"

section \<open>Operations\<close>

definition live_info :: "instant \<Rightarrow> string \<Rightarrow> live_reporter \<Rightarrow> live_reporter" where
  "live_info now text r = write_line now ''INFO'' ansi_white text (flush_live now r)"

definition flush_when_due :: "instant \<Rightarrow> live_reporter \<Rightarrow> live_reporter" where
  "flush_when_due now r = (if elapsed_since (lr_last_flush r) now \<ge> live_summary_interval then flush_live now r else r)"

definition count_key :: "live_key \<Rightarrow> live_reporter \<Rightarrow> live_reporter" where
  "count_key k r = r\<lparr>lr_counts := bump k (lr_counts r)\<rparr>"

definition live_raw_packet :: "instant \<Rightarrow> string \<Rightarrow> direction \<Rightarrow> u32 \<Rightarrow> live_reporter \<Rightarrow> live_reporter" where
  "live_raw_packet now channel d n r =
     (if lr_hop r \<in> set (lr_spawned r) then r
      else flush_when_due now (count_key (channel, d, raw_packet_name r d n) r))"

definition live_set_spawned :: "instant \<Rightarrow> live_reporter \<Rightarrow> live_reporter" where
  "live_set_spawned now r = (let r = flush_live now r in r\<lparr>lr_spawned := add_once (lr_hop r) (lr_spawned r)\<rparr>)"

definition live_set_hop :: "instant \<Rightarrow> int \<Rightarrow> live_reporter \<Rightarrow> live_reporter" where
  "live_set_hop now hop r = (if lr_hop r = hop then r else (flush_live now r)\<lparr>lr_hop := hop\<rparr>)"

text \<open>A decoded packet: its name and, for a transfer, its target.\<close>

datatype live_packet = OrdinaryPacket string | LiveTransfer string string "16 word"

fun live_packet_name :: "live_packet \<Rightarrow> string" where
  "live_packet_name (OrdinaryPacket name) = name"
| "live_packet_name (LiveTransfer name address port) = name"

definition transfer_message :: "bool \<Rightarrow> direction \<Rightarrow> string \<Rightarrow> 16 word \<Rightarrow> string" where
  "transfer_message follow d address port =
     ''Transfer observed '' @ live_direction d @ '' - target '' @ address @ '':'' @ itoa (unat port) @ ''; ''
       @ (if follow then ''hop following is enabled'' else ''automatic hop following is disabled'')"

definition live_packet_seen :: "instant \<Rightarrow> direction \<Rightarrow> live_packet option \<Rightarrow> live_reporter \<Rightarrow> live_reporter" where
  "live_packet_seen now d decoded r =
     (case decoded of
        None \<Rightarrow> r
      | Some p \<Rightarrow>
          (let r1 = count_key ([], d, live_packet_name p) r
           in case p of
                LiveTransfer name address port \<Rightarrow>
                  write_line now ''TRANSFER'' ansi_magenta (transfer_message (lr_follow r) d address port) (flush_live now r1)
              | OrdinaryPacket name \<Rightarrow> flush_when_due now r1))"

text \<open>The levels of \<^verbatim>\<open>log/slog\<close> and their text.\<close>

definition level_warn :: int where "level_warn = 4"
definition level_error :: int where "level_error = 8"

definition signed_text :: "int \<Rightarrow> string" where
  "signed_text n = (if n \<ge> 0 then ''+'' @ itoa_int n else itoa_int n)"

definition level_text :: "int \<Rightarrow> string" where
  "level_text l =
     (let str = (\<lambda>base n. if n = 0 then base else base @ signed_text n)
      in if l < 0 then str ''DEBUG'' (l + 4) else if l < level_warn then str ''INFO'' l
         else if l < level_error then str ''WARN'' (l - level_warn) else str ''ERROR'' (l - level_error))"

definition library_log_color :: "int \<Rightarrow> string" where
  "library_log_color l = (if l \<ge> level_error then ansi_dark_red else if l \<ge> level_warn then ansi_yellow else ansi_white)"

definition quoted :: "string \<Rightarrow> string" where "quoted s = CHR 0x22 # s @ [CHR 0x22]"

definition self_signed_message :: string where
  "self_signed_message = ''unexpected signature algorithm '' @ quoted ''ES384'' @ ''; expected ['' @ quoted ''RS256'' @ '']''"

definition self_signed_hint :: string where "self_signed_hint = ''self-signed-downstream-login''"

definition self_signed_advice :: string where
  "self_signed_advice =
     ''Downstream login rejected - the client used self-signed LAN authentication. ''
     @ ''On a trusted LAN, restart with --allow-unauthenticated-client; ''
     @ ''otherwise add the proxy in the Servers tab for Xbox-authenticated login''"

definition library_text :: "string \<Rightarrow> string \<Rightarrow> string" where
  "library_text channel message = ''Library ['' @ channel @ ''] - '' @ message"

definition live_library_log :: "instant \<Rightarrow> string \<Rightarrow> int \<Rightarrow> string \<Rightarrow> live_reporter \<Rightarrow> live_reporter" where
  "live_library_log now channel level message r =
     (if level < level_warn then r
      else
        (let r = flush_live now r
         in if channel = ''downstream'' \<and> contains_sub message self_signed_message
            then if self_signed_hint \<in> set (lr_hints r) then r
                 else write_line now ''WARN'' ansi_yellow self_signed_advice (r\<lparr>lr_hints := add_once self_signed_hint (lr_hints r)\<rparr>)
            else if lr_shutting_down r \<and> contains_sub (to_lower message) ''capture recorder is closed''
            then write_line now ''WARN'' ansi_yellow (library_text channel message) r
            else write_line now (map upper_ascii (level_text level)) (library_log_color level) (library_text channel message) r))"

definition live_close :: "instant \<Rightarrow> live_reporter \<Rightarrow> live_reporter" where
  "live_close now r = flush_live now r"

section \<open>Runs\<close>

text \<open>The calls of the reporter, each under its mutex with the time it reads.\<close>

datatype live_call = InfoCall instant string | RawCall instant string direction u32 | SpawnedCall instant | HopCall instant int
  | ShutCall | FollowCall bool | PacketCall instant direction "live_packet option" | LogCall instant string int string | CloseCall instant

fun live_step :: "live_call \<Rightarrow> live_reporter \<Rightarrow> live_reporter" where
  "live_step (InfoCall now text) r = live_info now text r"
| "live_step (RawCall now channel d n) r = live_raw_packet now channel d n r"
| "live_step (SpawnedCall now) r = live_set_spawned now r"
| "live_step (HopCall now hop) r = live_set_hop now hop r"
| "live_step ShutCall r = r\<lparr>lr_shutting_down := True\<rparr>"
| "live_step (FollowCall b) r = r\<lparr>lr_follow := b\<rparr>"
| "live_step (PacketCall now d p) r = live_packet_seen now d p r"
| "live_step (LogCall now channel level message) r = live_library_log now channel level message r"
| "live_step (CloseCall now) r = live_close now r"

definition live_run :: "live_call list \<Rightarrow> live_reporter \<Rightarrow> live_reporter" where
  "live_run calls r = foldl (\<lambda>r c. live_step c r) r calls"

end
