(* ===== verification/Forward.thy ===== *)
theory Forward
  imports Pack_Record PacketView Proxy_Transfer Live_Reporter
begin

text \<open>
  The forwarding loop of the proxy (\<^verbatim>\<open>Runner.forward\<close> and the recording functions it calls,
  \<^verbatim>\<open>internal/proxy/proxy.go\<close>). One turn of the loop is a function of what the two connections answer in
  it; the state holds what both loops of a hop share. The recorder is the record of calls of
  \<^verbatim>\<open>Pack_Record\<close>; the JSON encoders and the texts of errors are parameters.
\<close>

section \<open>Packets and errors\<close>

text \<open>
  A decoded packet: its identifier, the names that reflection gives for its type, the value that the packet
  view walks and, of the types that the loop tells apart, what the packet holds.
\<close>

datatype packet_body = PlainBody | UnknownBody bytes | TransferBody "string transfer"

record bridge_packet =
  bp_id :: u32
  bp_name :: string
  bp_go_type :: string
  bp_view :: go_value
  bp_body :: packet_body

text \<open>A packet as it was read: header and payload.\<close>

record raw_read =
  rw_id :: u32
  rw_sender :: "8 word"
  rw_target :: "8 word"
  rw_payload :: bytes

text \<open>An error of a connection: what \<^verbatim>\<open>errors.Is\<close> and \<^verbatim>\<open>errors.As\<close> find in it.\<close>

record net_error =
  ne_message :: string
  ne_type :: string
  ne_canceled :: bool
  ne_closed :: bool
  ne_disconnect :: bool
  ne_timeout :: "bool option"

record transfer_done =
  td_target :: string
  td_local :: "string option"
  td_guid :: int

text \<open>How a loop ends; a second error is the one that recording it gave.\<close>

datatype loop_error = CaptureError string | OperationError net_error "string option"
  | RewriteError net_error "string option" | RewriteViewError string | TimingError string | TransferDone transfer_done

section \<open>Parameters and state\<close>

record forward_timing =
  ft_read :: int
  ft_record :: int
  ft_write :: int
  ft_write_mode :: string
  ft_flush_mode :: string
  ft_flush :: int
  ft_measurement :: string

record 'r runner =
  ru_sink :: "'r sink"
  ru_recorder_err :: "'r \<Rightarrow> string option"
  ru_follow :: bool
  ru_max_items :: int
  ru_preview :: int
  ru_heap :: "string \<Rightarrow> nat \<Rightarrow> go_value"
  ru_marshal :: "go_value \<Rightarrow> marshal_result"
  ru_sprint :: "go_value \<Rightarrow> string"
  ru_envelope :: "out \<Rightarrow> notice list \<Rightarrow> string + string"
  ru_view_error :: "encode_error \<Rightarrow> go_error"
  ru_unknown_view :: "u32 \<Rightarrow> bytes \<Rightarrow> go_value"
  ru_rewrite_view :: "string transfer \<Rightarrow> string transfer \<Rightarrow> string \<Rightarrow> string \<Rightarrow> go_value"
  ru_rewrite_error :: "transfer_error \<Rightarrow> net_error"
  ru_timing_json :: "forward_timing \<Rightarrow> string option"

text \<open>One direction of a hop.\<close>

record lane =
  ln_direction :: direction
  ln_channel :: string
  ln_connection :: string
  ln_hop :: int
  ln_local :: string

datatype sent_packet = RawOut raw_read | TypedOut bridge_packet

text \<open>
  What the loops do to their environment: the packets written, the targets announced to \<^verbatim>\<open>onTransfer\<close>, and
  both in the order in which they happen.
\<close>

datatype bridge_effect = Announced string | Sent "direction \<times> sent_packet"

record 'r bridge =
  bg_recorder :: 'r
  bg_failures :: "string failure_sink"
  bg_shutting :: bool
  bg_live :: live_reporter
  bg_sent :: "(direction \<times> sent_packet) list"
  bg_targets :: "string list"
  bg_trace :: "bridge_effect list"
  bg_acquired :: nat
  bg_released :: nat

definition acquire :: "'r bridge \<Rightarrow> 'r bridge" where "acquire b = b\<lparr>bg_acquired := bg_acquired b + 1\<rparr>"

text \<open>\<^verbatim>\<open>rawRead.Release()\<close> where there is a read.\<close>

definition release :: "raw_read option \<Rightarrow> 'r bridge \<Rightarrow> 'r bridge" where
  "release raw b = (if raw = None then b else b\<lparr>bg_released := bg_released b + 1\<rparr>)"

section \<open>Recording\<close>

definition session_name :: string where "session_name = ''session-1''"

definition record_one :: "'r runner \<Rightarrow> event \<Rightarrow> 'r bridge \<Rightarrow> (string + event) \<times> 'r bridge" where
  "record_one ru e b =
     (case sk_record (ru_sink ru) \<lparr>rc_event = e, rc_raw = None, rc_media_type = [], rc_representation = []\<rparr> (bg_recorder b) of
        (res, r) \<Rightarrow> (res, b\<lparr>bg_recorder := r\<rparr>))"

definition structured_view :: "'r runner \<Rightarrow> go_value \<Rightarrow> go_error + string" where
  "structured_view ru v =
     (case encode \<lparr>vo_max_depth = 0, vo_max_items = ru_max_items ru, vo_preview = ru_preview ru\<rparr> (ru_heap ru) (ru_marshal ru) (ru_sprint ru) v of
        (Inl e, ns) \<Rightarrow> Inl (ru_view_error ru e)
      | (Inr view, ns) \<Rightarrow>
          (case ru_envelope ru view ns of
             Inl e \<Rightarrow> Inl (''encode structured view envelope: '' @ e, ''*fmt.wrapError'')
           | Inr data \<Rightarrow> Inr data))"

definition network_error :: "string \<Rightarrow> net_error \<Rightarrow> error_info" where
  "network_error operation e =
     \<lparr>ei_operation = operation, ei_message = ne_message e, ei_type = ne_type e, ei_temporary = None, ei_timeout = ne_timeout e\<rparr>"

definition bridge_event :: "lane \<Rightarrow> string \<Rightarrow> severity \<Rightarrow> string \<Rightarrow> string \<Rightarrow> event" where
  "bridge_event ln kind severity channel stage =
     empty_event\<lparr>ev_session_id := session_name, ev_connection_id := ln_connection ln, ev_hop := ln_hop ln, ev_kind := kind,
       ev_severity := severity, ev_direction := ln_direction ln, ev_channel := channel, ev_stage := stage\<rparr>"

definition network_error_event :: "lane \<Rightarrow> string \<Rightarrow> string \<Rightarrow> net_error \<Rightarrow> event" where
  "network_error_event ln kind operation e =
     (bridge_event ln kind SeverityError (ln_channel ln) ''bridge'')\<lparr>ev_error := Some (network_error operation e)\<rparr>"

definition decode_error_event :: "lane \<Rightarrow> packet_info \<Rightarrow> string \<Rightarrow> net_error \<Rightarrow> event" where
  "decode_error_event ln info operation e =
     (bridge_event ln ''packet.decode_error'' SeverityError (ln_channel ln) ''bridge'')
       \<lparr>ev_packet := Some info, ev_error := Some (network_error operation e)\<rparr>"

definition named_packet :: "u32 \<Rightarrow> string \<Rightarrow> string \<Rightarrow> string \<Rightarrow> packet_info" where
  "named_packet n name go_type status =
     \<lparr>pi_id = n, pi_name = name, pi_go_type = go_type, pi_sender_sub_client = 0, pi_target_sub_client = 0,
      pi_decode_status = status, pi_unread_bytes = 0\<rparr>"

definition is_transfer :: "bridge_packet \<Rightarrow> bool" where
  "is_transfer p = (case bp_body p of TransferBody _ \<Rightarrow> True | _ \<Rightarrow> False)"

definition is_unknown :: "bridge_packet \<Rightarrow> bool" where
  "is_unknown p = (case bp_body p of UnknownBody _ \<Rightarrow> True | _ \<Rightarrow> False)"

text \<open>The event that \<^verbatim>\<open>recordDecoded\<close> records, with or without a view.\<close>

definition decoded_event :: "'r runner \<Rightarrow> lane \<Rightarrow> bridge_packet \<Rightarrow> event" where
  "decoded_event ru ln p =
     (case structured_view ru (bp_view p) of
        Inl err \<Rightarrow>
          (bridge_event ln ''packet.decode_error'' SeverityError ''bridge'' ''decoded_latest_protocol'')
            \<lparr>ev_packet := Some (named_packet (bp_id p) (bp_name p) (bp_go_type p) ''view_error''),
             ev_error := Some \<lparr>ei_operation = ''encode decoded view'', ei_message = fst err, ei_type = snd err,
               ei_temporary = None, ei_timeout = None\<rparr>\<rparr>
      | Inr data \<Rightarrow>
          (bridge_event ln (if is_unknown p then ''packet.unknown'' else ''packet.decoded'') SeverityInfo ''bridge'' ''decoded_latest_protocol'')
            \<lparr>ev_packet := Some (named_packet (bp_id p) (bp_name p) (bp_go_type p) (if is_unknown p then ''unknown'' else ''decoded'')),
             ev_data := Some data,
             ev_annotations :=
               (if is_transfer p
                then [if ru_follow ru
                      then ''Transfer target is rewritten to the local listener and followed because --follow-transfers is enabled''
                      else ''Transfer is recorded but automatic hop following is disabled'']
                else [])\<rparr>)"

definition record_decoded :: "'r runner \<Rightarrow> lane \<Rightarrow> bridge_packet \<Rightarrow> 'r bridge \<Rightarrow> (string + event) \<times> 'r bridge" where
  "record_decoded ru ln p b =
     (case record_one ru (decoded_event ru ln p) b of
        (Inl e, b1) \<Rightarrow> (Inl e, b1)
      | (Inr e, b1) \<Rightarrow> (Inr (if is_ok (structured_view ru (bp_view p)) then e else empty_event), b1))"

definition should_record_timing :: "bridge_packet \<Rightarrow> bool" where
  "should_record_timing p =
     (bp_name p \<in> {''LevelChunk'', ''UpdateBlock'', ''UpdateSubChunkBlocks'', ''BlockActorData'', ''NetworkChunkPublisherUpdate'',
        ''ChunkRadiusUpdated'', ''MovePlayer'', ''SetActorMotion'', ''Transfer''})"

definition timing_event :: "lane \<Rightarrow> event \<Rightarrow> string \<Rightarrow> event" where
  "timing_event ln decoded data =
     (bridge_event ln ''bridge.forward_timing'' SeverityDebug ''bridge'' ''post_forward_write'')
       \<lparr>ev_parent_sequence := Some (ev_sequence decoded), ev_packet := ev_packet decoded, ev_data := Some data\<rparr>"

definition record_timing :: "'r runner \<Rightarrow> lane \<Rightarrow> event \<Rightarrow> forward_timing \<Rightarrow> 'r bridge \<Rightarrow> (loop_error + unit) \<times> 'r bridge" where
  "record_timing ru ln decoded t b =
     (case ru_timing_json ru t of
        None \<Rightarrow> (Inl (TimingError (case ev_packet decoded of None \<Rightarrow> [] | Some p \<Rightarrow> pi_name p)), b)
      | Some data \<Rightarrow>
          (case record_one ru (timing_event ln decoded data) b of
             (Inl e, b1) \<Rightarrow> (Inl (CaptureError e), b1)
           | (Inr _, b1) \<Rightarrow> (Inr (), b1)))"

definition rewrite_event :: "lane \<Rightarrow> bridge_packet \<Rightarrow> string \<Rightarrow> event" where
  "rewrite_event ln p data =
     (bridge_event ln ''packet.transfer_rewrite'' SeverityInfo ''bridge'' ''pre_forward_mutation'')
       \<lparr>ev_direction := DirectionServerToClient, ev_packet := Some (named_packet (bp_id p) ''Transfer'' (bp_go_type p) ''decoded''),
        ev_data := Some data,
        ev_annotations := [''The original Transfer remains in packet.raw; this opt-in rewrite routes the client back to the local listener'']\<rparr>"

definition listener_target :: "string transfer \<Rightarrow> string" where
  "listener_target t = join_host_port (tr_address t) (itoa (unat (tr_port t)))"

definition record_transfer_rewrite :: "'r runner \<Rightarrow> lane \<Rightarrow> bridge_packet \<Rightarrow> string transfer \<Rightarrow> string transfer \<Rightarrow> string \<Rightarrow> 'r bridge \<Rightarrow>
    (loop_error + unit) \<times> 'r bridge" where
  "record_transfer_rewrite ru ln p original rewritten target b =
     (case structured_view ru (ru_rewrite_view ru original rewritten target (listener_target rewritten)) of
        Inl err \<Rightarrow> (Inl (RewriteViewError (fst err)), b)
      | Inr data \<Rightarrow>
          (case record_one ru (rewrite_event ln p data) b of
             (Inl e, b1) \<Rightarrow> (Inl (CaptureError e), b1)
           | (Inr _, b1) \<Rightarrow> (Inr (), b1)))"

section \<open>The end of a loop\<close>

definition expected_transport_shutdown :: "net_error \<Rightarrow> bool" where
  "expected_transport_shutdown e = (ne_canceled e \<or> ne_closed e \<or> ne_disconnect e)"

definition write_side_error :: "string \<Rightarrow> bool" where
  "write_side_error kind = (kind = ''bridge.write_error'' \<or> kind = ''bridge.flush_error'')"

text \<open>
  The loop claims the terminal state and records its error, unless it is the expected effect of a shutdown;
  the result is the error of recording, if any.
\<close>

definition finish_forward :: "'r runner \<Rightarrow> lane \<Rightarrow> string \<Rightarrow> string \<Rightarrow> net_error \<Rightarrow> 'r bridge \<Rightarrow> string option \<times> 'r bridge" where
  "finish_forward ru ln kind operation e b =
     (let was = bg_shutting b; b1 = b\<lparr>bg_shutting := True\<rparr>
      in if expected_transport_shutdown e \<and> (was \<or> write_side_error kind) then (None, b1)
         else case record_one ru (network_error_event ln kind operation e) b1 of
           (Inl err, b2) \<Rightarrow> (Some err, b2)
         | (Inr _, b2) \<Rightarrow> (None, b2))"

definition finish_operation :: "'r runner \<Rightarrow> lane \<Rightarrow> string \<Rightarrow> string \<Rightarrow> net_error \<Rightarrow> 'r bridge \<Rightarrow> loop_error \<times> 'r bridge" where
  "finish_operation ru ln kind operation e b =
     (case finish_forward ru ln kind operation e b of (capture, b1) \<Rightarrow> (OperationError e capture, b1))"

definition finish_rewrite :: "'r runner \<Rightarrow> lane \<Rightarrow> raw_read option \<Rightarrow> transfer_error \<Rightarrow> 'r bridge \<Rightarrow> loop_error \<times> 'r bridge" where
  "finish_rewrite ru ln raw err b =
     (let e = ru_rewrite_error ru err
      in case finish_forward ru ln ''bridge.transfer_rewrite_error'' ''rewrite Transfer'' e (release raw b) of
           (capture, b1) \<Rightarrow> (RewriteError e capture, b1))"

section \<open>One turn\<close>

text \<open>
  What reading answers. With raw access: an error, with or without a read; no read; a read that holds its
  packet already; or bytes, of which a clone is decoded. Without it, a packet or an error.
\<close>

datatype clone_answer = CloneFails net_error | DecodeFails net_error | CloneDecoded "bridge_packet option"

datatype bridge_answer = RawFails net_error bool | RawNothing | RawDecoded bridge_packet | RawBytes raw_read clone_answer
  | TypedFails net_error | TypedRead "bridge_packet option"

record bridge_turn =
  tn_now :: instant
  tn_answer :: bridge_answer
  tn_write :: "net_error option"
  tn_flush :: "net_error option"
  tn_read_time :: int
  tn_record_time :: int
  tn_write_time :: int
  tn_flush_time :: int
  tn_local :: "string option"
  tn_guid :: "int option"

datatype read_outcome = ReadEnd loop_error | ReadSkip | ReadPacket bridge_packet "raw_read option"

definition raw_packet_info :: "raw_read \<Rightarrow> packet_info" where
  "raw_packet_info rd =
     \<lparr>pi_id = rw_id rd, pi_name = [], pi_go_type = [], pi_sender_sub_client = rw_sender rd, pi_target_sub_client = rw_target rd,
      pi_decode_status = ''decode_error'', pi_unread_bytes = 0\<rparr>"

definition unknown_packet :: "'r runner \<Rightarrow> raw_read \<Rightarrow> bridge_packet" where
  "unknown_packet ru rd =
     \<lparr>bp_id = rw_id rd, bp_name = ''Unknown'', bp_go_type = ''*packet.Unknown'', bp_view = ru_unknown_view ru (rw_id rd) (rw_payload rd),
      bp_body = UnknownBody (rw_payload rd)\<rparr>"

definition end_read :: "loop_error \<times> 'r bridge \<Rightarrow> read_outcome \<times> 'r bridge" where
  "end_read x = (ReadEnd (fst x), snd x)"

fun forward_read :: "'r runner \<Rightarrow> lane \<Rightarrow> bridge_answer \<Rightarrow> 'r bridge \<Rightarrow> read_outcome \<times> 'r bridge" where
  "forward_read ru ln (RawFails e held) b =
     (let b1 = (if held then release (Some \<lparr>rw_id = 0, rw_sender = 0, rw_target = 0, rw_payload = []\<rparr>) (acquire b) else b)
      in end_read (finish_operation ru ln ''bridge.read_error'' ''read packet'' e b1))"
| "forward_read ru ln RawNothing b = (ReadSkip, b)"
| "forward_read ru ln (RawDecoded p) b = (ReadPacket p None, (acquire b)\<lparr>bg_released := bg_released b + 1\<rparr>)"
| "forward_read ru ln (RawBytes rd (CloneFails e)) b =
     end_read (finish_operation ru ln ''bridge.decode_error'' ''clone packet for decode'' e (release (Some rd) (acquire b)))"
| "forward_read ru ln (RawBytes rd (DecodeFails e)) b =
     (case record_one ru (decode_error_event ln (raw_packet_info rd) ''decode packet for forwarding'' e) (acquire b) of
        (Inl err, b1) \<Rightarrow> (ReadEnd (CaptureError err), release (Some rd) b1)
      | (Inr _, b1) \<Rightarrow> (ReadPacket (unknown_packet ru rd) (Some rd), b1))"
| "forward_read ru ln (RawBytes rd (CloneDecoded None)) b = (ReadSkip, release (Some rd) (acquire b))"
| "forward_read ru ln (RawBytes rd (CloneDecoded (Some p))) b = (ReadPacket p (Some rd), acquire b)"
| "forward_read ru ln (TypedFails e) b = end_read (finish_operation ru ln ''bridge.read_error'' ''read packet'' e b)"
| "forward_read ru ln (TypedRead None) b = (ReadSkip, b)"
| "forward_read ru ln (TypedRead (Some p)) b = (ReadPacket p None, b)"

definition live_view :: "bridge_packet \<Rightarrow> live_packet" where
  "live_view p = (case bp_body p of TransferBody t \<Rightarrow> LiveTransfer (bp_name p) (tr_address t) (tr_port t) | _ \<Rightarrow> OrdinaryPacket (bp_name p))"

text \<open>The transfer that is rewritten: with following on, one that comes from the server.\<close>

definition followed_transfer :: "'r runner \<Rightarrow> lane \<Rightarrow> bridge_packet \<Rightarrow> string transfer option" where
  "followed_transfer ru ln p =
     (if ru_follow ru \<and> ln_direction ln = DirectionServerToClient
      then (case bp_body p of TransferBody t \<Rightarrow> Some t | _ \<Rightarrow> None) else None)"

text \<open>The rewriting of a transfer: the packet to send and the target, once they are recorded and announced.\<close>

definition announce_target :: "string \<Rightarrow> 'r bridge \<Rightarrow> 'r bridge" where
  "announce_target target b = b\<lparr>bg_targets := bg_targets b @ [target], bg_trace := bg_trace b @ [Announced target]\<rparr>"

definition rewrite_step :: "'r runner \<Rightarrow> lane \<Rightarrow> bridge_packet \<Rightarrow> raw_read option \<Rightarrow> string transfer \<Rightarrow> 'r bridge \<Rightarrow>
    (loop_error + bridge_packet \<times> string) \<times> 'r bridge" where
  "rewrite_step ru ln p raw t b =
     (case transfer_for_proxy_address (Some t) (ln_local ln) of
        Inl e \<Rightarrow> (case finish_rewrite ru ln raw e b of (err, b1) \<Rightarrow> (Inl err, b1))
      | Inr (rewritten, target) \<Rightarrow>
          (case record_transfer_rewrite ru ln p t rewritten target b of
             (Inl err, b1) \<Rightarrow> (Inl err, release raw b1)
           | (Inr _, b1) \<Rightarrow> (Inr (p\<lparr>bp_body := TransferBody rewritten\<rparr>, target), announce_target target b1)))"

definition write_packet :: "lane \<Rightarrow> sent_packet \<Rightarrow> net_error option \<Rightarrow> 'r bridge \<Rightarrow> 'r bridge" where
  "write_packet ln out err b = 
     (if err = None then b\<lparr>bg_sent := bg_sent b @ [(ln_direction ln, out)], bg_trace := bg_trace b @ [Sent (ln_direction ln, out)]\<rparr> else b)"

definition turn_timing :: "bridge_turn \<Rightarrow> bool \<Rightarrow> bool \<Rightarrow> forward_timing" where
  "turn_timing tn raw flushed =
     \<lparr>ft_read = tn_read_time tn, ft_record = tn_record_time tn, ft_write = tn_write_time tn,
      ft_write_mode = (if raw then ''raw'' else ''typed''), ft_flush_mode = (if flushed then ''explicit'' else ''automatic''),
      ft_flush = (if flushed then tn_flush_time tn else 0),
      ft_measurement = ''bridge read, capture submission, and write durations; capture submission includes queue backpressure but not writer commit; automatic flush completion is represented by subsequent transport.payload events''\<rparr>"

text \<open>Writing, the flush of a rewritten transfer, the timing and, after a rewritten transfer, the end of the loop.\<close>

definition send_packet :: "'r runner \<Rightarrow> lane \<Rightarrow> bridge_turn \<Rightarrow> bridge_packet \<Rightarrow> event \<Rightarrow> raw_read option \<Rightarrow> (bridge_packet \<times> string) option \<Rightarrow> 'r bridge \<Rightarrow>
    loop_error option \<times> 'r bridge" where
  "send_packet ru ln tn p event raw rewritten b =
     (let out = (case rewritten of Some (q, target) \<Rightarrow> TypedOut q
           | None \<Rightarrow> (case raw of Some rd \<Rightarrow> RawOut rd | None \<Rightarrow> TypedOut p));
          b1 = release raw (write_packet ln out (tn_write tn) b)
      in case tn_write tn of
           Some e \<Rightarrow> (case finish_operation ru ln ''bridge.write_error'' ''write packet'' e b1 of (err, b2) \<Rightarrow> (Some err, b2))
         | None \<Rightarrow>
             (case (if rewritten = None then None else tn_flush tn) of
                Some e \<Rightarrow> (case finish_operation ru ln ''bridge.flush_error'' ''flush transfer'' e b1 of (err, b2) \<Rightarrow> (Some err, b2))
              | None \<Rightarrow>
                  (case (if should_record_timing p \<and> ev_sequence event \<noteq> 0
                         then record_timing ru ln event (turn_timing tn (rewritten = None \<and> raw \<noteq> None) (rewritten \<noteq> None)) b1
                         else (Inr (), b1)) of
                     (Inl err, b2) \<Rightarrow> (Some err, b2)
                   | (Inr _, b2) \<Rightarrow>
                       (case rewritten of
                          None \<Rightarrow> (None, b2)
                        | Some (q, target) \<Rightarrow>
                            (Some (TransferDone \<lparr>td_target = target, td_local = tn_local tn,
                               td_guid = (case tn_guid tn of None \<Rightarrow> 0 | Some g \<Rightarrow> g)\<rparr>), b2)))))"

definition forward_packet :: "'r runner \<Rightarrow> lane \<Rightarrow> bridge_turn \<Rightarrow> bridge_packet \<Rightarrow> raw_read option \<Rightarrow> 'r bridge \<Rightarrow> loop_error option \<times> 'r bridge" where
  "forward_packet ru ln tn p raw b0 =
     (let b = b0\<lparr>bg_live := live_packet_seen (tn_now tn) (ln_direction ln) (Some (live_view p)) (bg_live b0)\<rparr>
      in case record_decoded ru ln p b of
           (Inl e, b1) \<Rightarrow> (Some (CaptureError e), release raw b1)
         | (Inr event, b1) \<Rightarrow>
             (case followed_transfer ru ln p of
                None \<Rightarrow> send_packet ru ln tn p event raw None b1
              | Some t \<Rightarrow>
                  (case rewrite_step ru ln p raw t b1 of
                     (Inl err, b2) \<Rightarrow> (Some err, b2)
                   | (Inr rewritten, b2) \<Rightarrow> send_packet ru ln tn p event raw (Some rewritten) b2)))"

definition forward_turn :: "'r runner \<Rightarrow> lane \<Rightarrow> bridge_turn \<Rightarrow> 'r bridge \<Rightarrow> loop_error option \<times> 'r bridge" where
  "forward_turn ru ln tn b =
     (case fs_err (bg_failures b) of
        Some e \<Rightarrow> (Some (CaptureError e), b)
      | None \<Rightarrow>
          (case ru_recorder_err ru (bg_recorder b) of
             Some e \<Rightarrow> (Some (CaptureError e), b)
           | None \<Rightarrow>
               (case forward_read ru ln (tn_answer tn) b of
                  (ReadEnd e, b1) \<Rightarrow> (Some e, b1)
                | (ReadSkip, b1) \<Rightarrow> (None, b1)
                | (ReadPacket p raw, b1) \<Rightarrow> forward_packet ru ln tn p raw b1)))"

text \<open>The loop, over the turns that its environment gives it.\<close>

fun forward :: "'r runner \<Rightarrow> lane \<Rightarrow> bridge_turn list \<Rightarrow> 'r bridge \<Rightarrow> loop_error option \<times> 'r bridge" where
  "forward ru ln [] b = (None, b)"
| "forward ru ln (tn # tns) b =
     (case forward_turn ru ln tn b of
        (Some e, b1) \<Rightarrow> (Some e, b1)
      | (None, b1) \<Rightarrow> forward ru ln tns b1)"

end
