(* ===== verification/Bedrock_Observer.thy ===== *)
theory Bedrock_Observer
  imports Pack_Record Forward Recorder
begin

text \<open>
  The hooks of the protocol library (\<^verbatim>\<open>internal/bedrock/observer.go\<close> and \<^verbatim>\<open>network.go\<close>): the
  observer that attributes a packet to the physical flow it came over, and the network whose connections
  record every payload. The transports are parameters: an operation takes what the transport answers.
  An address is absent where the code has a nil \<^verbatim>\<open>net.Addr\<close>.
\<close>

section \<open>Observer\<close>

record flow =
  fl_local :: string
  fl_remote :: string
  fl_connection :: string
  fl_hop :: int

record observer =
  ob_session :: string
  ob_hop :: int
  ob_flows :: "string \<Rightarrow> flow list"

definition new_observer :: "string \<Rightarrow> int \<Rightarrow> observer" where
  "new_observer session hop = \<lparr>ob_session = session, ob_hop = hop, ob_flows = (\<lambda>_. [])\<rparr>"

text \<open>The first flow between the two addresses is replaced, or the flow comes last.\<close>

fun put_flow :: "flow \<Rightarrow> flow list \<Rightarrow> flow list" where
  "put_flow f [] = [f]"
| "put_flow f (g # fs) = (if fl_local g = fl_local f \<and> fl_remote g = fl_remote f then f # fs else g # put_flow f fs)"

definition set_flow :: "string \<Rightarrow> endpoint option \<Rightarrow> endpoint option \<Rightarrow> string \<Rightarrow> int \<Rightarrow> observer \<Rightarrow> observer" where
  "set_flow channel local remote connection hop ob =
     (case (local, remote) of
        (Some l, Some r) \<Rightarrow>
          ob\<lparr>ob_flows := (ob_flows ob)(channel :=
            put_flow \<lparr>fl_local = ep_address l, fl_remote = ep_address r, fl_connection = connection, fl_hop = hop\<rparr> (ob_flows ob channel))\<rparr>
      | _ \<Rightarrow> ob)"

definition set_plain_flow :: "string \<Rightarrow> endpoint option \<Rightarrow> endpoint option \<Rightarrow> observer \<Rightarrow> observer" where
  "set_plain_flow channel local remote ob = set_flow channel local remote [] 0 ob"

definition set_observer_hop :: "int \<Rightarrow> observer \<Rightarrow> observer" where "set_observer_hop hop ob = ob\<lparr>ob_hop := hop\<rparr>"

text \<open>What a known flow says of a packet, if it is one of its own and the channel one of the two.\<close>

definition flow_direction :: "string \<Rightarrow> string \<Rightarrow> string \<Rightarrow> flow \<Rightarrow> direction option" where
  "flow_direction channel source destination f =
     (let read = (source = fl_remote f \<and> destination = fl_local f); write = (source = fl_local f \<and> destination = fl_remote f)
      in if channel = ''downstream''
         then (if read then Some DirectionClientToServer else if write then Some DirectionServerToClient else None)
         else if channel = ''upstream''
         then (if read then Some DirectionServerToClient else if write then Some DirectionClientToServer else None)
         else None)"

fun search_flow :: "string \<Rightarrow> string \<Rightarrow> string \<Rightarrow> flow list \<Rightarrow> direction \<times> flow option" where
  "search_flow channel source destination [] = (DirectionUnknown, None)"
| "search_flow channel source destination (f # fs) =
     (case flow_direction channel source destination f of
        Some d \<Rightarrow> (d, Some f)
      | None \<Rightarrow> search_flow channel source destination fs)"

definition classify :: "observer \<Rightarrow> string \<Rightarrow> endpoint option \<Rightarrow> endpoint option \<Rightarrow> direction \<times> flow option" where
  "classify ob channel source destination =
     (case (source, destination) of
        (Some s, Some d) \<Rightarrow> search_flow channel (ep_address s) (ep_address d) (rev (ob_flows ob channel))
      | _ \<Rightarrow> (DirectionUnknown, None))"

section \<open>Recording\<close>

text \<open>What the hooks of one run share.\<close>

record 'r hooks =
  hk_recorder :: 'r
  hk_failures :: "string failure_sink"
  hk_observer :: observer
  hk_live :: live_reporter

text \<open>A refused record is the failure of the run.\<close>

definition hook_record :: "'r sink \<Rightarrow> capture_record \<Rightarrow> 'r hooks \<Rightarrow> string option \<times> 'r hooks" where
  "hook_record sk rc h =
     (case sk_record sk rc (hk_recorder h) of
        (Inl e, r) \<Rightarrow> (Some e, h\<lparr>hk_recorder := r, hk_failures := failure_set (hk_failures h) (Some e)\<rparr>)
      | (Inr _, r) \<Rightarrow> (None, h\<lparr>hk_recorder := r\<rparr>))"

record packet_header =
  ph_id :: u32
  ph_sender :: "8 word"
  ph_target :: "8 word"

text \<open>Who a packet is attributed to: the flow it came over, or what the callback answers now.\<close>

definition packet_owner :: "string \<Rightarrow> int \<Rightarrow> flow option \<Rightarrow> string \<times> int" where
  "packet_owner connection hop f =
     (case f of
        Some g \<Rightarrow> if fl_connection g \<noteq> [] then (fl_connection g, fl_hop g) else (connection, hop)
      | None \<Rightarrow> (connection, hop))"

definition raw_packet_event :: "observer \<Rightarrow> string \<Rightarrow> string \<Rightarrow> packet_header \<Rightarrow> endpoint option \<Rightarrow> endpoint option \<Rightarrow> event" where
  "raw_packet_event ob channel connection ph source destination =
     (case classify ob channel source destination of
        (direction, f) \<Rightarrow>
          (case packet_owner connection (ob_hop ob) f of
             (owner, hop) \<Rightarrow>
               empty_event\<lparr>ev_session_id := ob_session ob, ev_connection_id := owner, ev_hop := hop, ev_kind := ''packet.raw'',
                 ev_direction := direction, ev_channel := channel, ev_stage := ''post_decrypt_decompress_frame'',
                 ev_source := source, ev_destination := destination,
                 ev_packet := Some \<lparr>pi_id = ph_id ph, pi_name = [], pi_go_type = [], pi_sender_sub_client = ph_sender ph,
                   pi_target_sub_client = ph_target ph, pi_decode_status = ''not_yet_decoded'', pi_unread_bytes = 0\<rparr>\<rparr>))"

text \<open>
  The callback of \<^verbatim>\<open>PacketFuncDynamic\<close>: \<open>connection\<close> is what its function answers and \<open>seen\<close> what the
  raw observer does to the terminal, if there is one.
\<close>

definition observe_packet :: "'r sink \<Rightarrow> (direction \<Rightarrow> u32 \<Rightarrow> live_reporter \<Rightarrow> live_reporter) option \<Rightarrow> string \<Rightarrow> string \<Rightarrow> packet_header \<Rightarrow>
    bytes option \<Rightarrow> endpoint option \<Rightarrow> endpoint option \<Rightarrow> 'r hooks \<Rightarrow> 'r hooks" where
  "observe_packet sk seen channel connection ph payload source destination h =
     (let e = raw_packet_event (hk_observer h) channel connection ph source destination;
          h = (case seen of None \<Rightarrow> h | Some f \<Rightarrow> h\<lparr>hk_live := f (ev_direction e) (ph_id ph) (hk_live h)\<rparr>)
      in snd (hook_record sk \<lparr>rc_event = e, rc_raw = payload, rc_media_type = ''application/octet-stream'',
           rc_representation = ''bedrock_packet_payload''\<rparr> h))"

section \<open>Network\<close>

datatype meta = MetaText string | MetaNumber int | MetaFlag bool

type_synonym metadata = "string \<rightharpoonup> meta"

text \<open>
  The members of a network. The functions that it may hold for its identity and for the metadata of a payload
  are what they answer at the call; \<open>nw_json\<close> is \<^verbatim>\<open>json.Marshal\<close> of a map, absent when it fails.
\<close>

record 'r network =
  nw_sink :: "'r sink"
  nw_session :: string
  nw_connection :: string
  nw_connection_func :: "string option"
  nw_channel :: string
  nw_hop :: int
  nw_hop_func :: "int option"
  nw_best_effort :: bool
  nw_read :: direction
  nw_write :: direction
  nw_payload_metadata :: "metadata option"
  nw_json :: "metadata \<Rightarrow> string option"

definition network_connection :: "'r network \<Rightarrow> string" where
  "network_connection nw = (case nw_connection_func nw of Some s \<Rightarrow> s | None \<Rightarrow> nw_connection nw)"

definition network_hop :: "'r network \<Rightarrow> int" where
  "network_hop nw = (case nw_hop_func nw of Some n \<Rightarrow> n | None \<Rightarrow> nw_hop nw)"

text \<open>A connection of the transport with the optional methods that it has.\<close>

record link =
  lk_local :: "endpoint option"
  lk_remote :: "endpoint option"
  lk_guid :: "int option"
  lk_key :: "bool option"
  lk_packets :: bool
  lk_batch_header :: "bytes option"
  lk_no_encryption :: "bool option"
  lk_latency :: "int option"

text \<open>Errors that \<^verbatim>\<open>errors.Join\<close> joins: of the operation and of recording it. Both absent is nil.\<close>

type_synonym joined = "net_error option \<times> string option"

definition no_error :: joined where "no_error = (None, None)"

definition capture_error :: "string \<Rightarrow> net_error option \<Rightarrow> error_info option" where
  "capture_error operation err = map_option (network_error operation) err"

definition network_event :: "'r network \<Rightarrow> string \<Rightarrow> severity \<Rightarrow> direction \<Rightarrow> string \<Rightarrow> string option \<Rightarrow> event" where
  "network_event nw kind severity direction stage data =
     empty_event\<lparr>ev_session_id := nw_session nw, ev_connection_id := network_connection nw, ev_hop := network_hop nw,
       ev_kind := kind, ev_severity := severity, ev_direction := direction, ev_channel := nw_channel nw, ev_stage := stage, ev_data := data\<rparr>"

definition connection_metadata :: "link option \<Rightarrow> metadata" where
  "connection_metadata conn =
     (case conn of
        None \<Rightarrow> Map.empty
      | Some c \<Rightarrow>
          (let m = (case lk_guid c of Some g \<Rightarrow> if g \<noteq> 0 then Map.empty(''raknet_client_guid'' \<mapsto> MetaNumber g) else Map.empty | None \<Rightarrow> Map.empty)
           in case lk_key c of
                None \<Rightarrow> m
              | Some present \<Rightarrow> m(''transport_public_key_capability'' \<mapsto> MetaFlag True, ''transport_public_key_present'' \<mapsto> MetaFlag present)))"

definition connection_event :: "'r network \<Rightarrow> string \<Rightarrow> link option \<Rightarrow> net_error option \<Rightarrow> event" where
  "connection_event nw kind conn err =
     (let m = connection_metadata conn
      in (network_event nw kind (if err = None then SeverityInfo else SeverityError) DirectionInternal ''post_transport_connection''
            (if m = Map.empty then None else nw_json nw m))
         \<lparr>ev_source := Option.bind conn lk_local, ev_destination := Option.bind conn lk_remote, ev_error := capture_error ''connection'' err\<rparr>)"

definition record_connection :: "'r network \<Rightarrow> string \<Rightarrow> link option \<Rightarrow> net_error option \<Rightarrow> 'r hooks \<Rightarrow> string option \<times> 'r hooks" where
  "record_connection nw kind conn err h =
     hook_record (nw_sink nw) \<lparr>rc_event = connection_event nw kind conn err, rc_raw = None, rc_media_type = [], rc_representation = []\<rparr> h"

text \<open>
  \<^verbatim>\<open>wrap\<close>: the flow is known before the opening is recorded, and a connection whose opening is refused is
  closed; \<open>close_err\<close> is what its \<^verbatim>\<open>Close\<close> answers then.
\<close>

definition wrap_link :: "'r network \<Rightarrow> link \<Rightarrow> net_error option \<Rightarrow> 'r hooks \<Rightarrow> (joined + link) \<times> 'r hooks" where
  "wrap_link nw c close_err h =
     (case record_connection nw ''transport.connection_open'' (Some c) None
             (h\<lparr>hk_observer := set_flow (nw_channel nw) (lk_local c) (lk_remote c) (network_connection nw) (network_hop nw) (hk_observer h)\<rparr>) of
        (Some e, h1) \<Rightarrow> (Inl (close_err, Some e), h1)
      | (None, h1) \<Rightarrow> (Inr c, h1))"

definition dial_network :: "'r network \<Rightarrow> net_error + link \<Rightarrow> net_error option \<Rightarrow> 'r hooks \<Rightarrow> (joined + link) \<times> 'r hooks" where
  "dial_network nw answer close_err h =
     (case answer of
        Inl e \<Rightarrow>
          (case record_connection nw ''transport.connection_error'' None (Some e) h of (captured, h1) \<Rightarrow> (Inl (Some e, captured), h1))
      | Inr c \<Rightarrow> wrap_link nw c close_err h)"

text \<open>\<^verbatim>\<open>DialContextIdentity\<close> takes the authenticated call where the transport has one.\<close>

definition dial_identity :: "'r network \<Rightarrow> (net_error + link) option \<Rightarrow> net_error + link \<Rightarrow> net_error option \<Rightarrow> 'r hooks \<Rightarrow>
    (joined + link) \<times> 'r hooks" where
  "dial_identity nw authenticated plain close_err h =
     dial_network nw (case authenticated of Some answer \<Rightarrow> answer | None \<Rightarrow> plain) close_err h"

definition listen_network :: "'r network \<Rightarrow> net_error option \<Rightarrow> 'r hooks \<Rightarrow> joined \<times> 'r hooks" where
  "listen_network nw answer h =
     (case answer of
        None \<Rightarrow> (no_error, h)
      | Some e \<Rightarrow> (case record_connection nw ''transport.listen_error'' None (Some e) h of (captured, h1) \<Rightarrow> ((Some e, captured), h1)))"

definition accept_network :: "'r network \<Rightarrow> net_error + link \<Rightarrow> net_error option \<Rightarrow> 'r hooks \<Rightarrow> (joined + link) \<times> 'r hooks" where
  "accept_network nw answer close_err h =
     (case answer of Inl e \<Rightarrow> (Inl (Some e, None), h) | Inr c \<Rightarrow> wrap_link nw c close_err h)"

text \<open>A status ping; as a route hint its failure is only a warning.\<close>

definition ping_severity :: "'r network \<Rightarrow> net_error option \<Rightarrow> severity" where
  "ping_severity nw err = (if err = None then SeverityInfo else if nw_best_effort nw then SeverityWarn else SeverityError)"

definition ping_network :: "'r network \<Rightarrow> string \<Rightarrow> int \<Rightarrow> bytes option \<times> net_error option \<Rightarrow> 'r hooks \<Rightarrow> joined \<times> 'r hooks" where
  "ping_network nw address duration answer h =
     (case answer of
        (response, err) \<Rightarrow>
          (let data = nw_json nw [''address'' \<mapsto> MetaText address, ''response_bytes'' \<mapsto> MetaNumber (raw_length response),
                 ''duration_nano'' \<mapsto> MetaNumber duration, ''best_effort'' \<mapsto> MetaFlag (nw_best_effort nw)];
               e = (network_event nw ''transport.ping'' (ping_severity nw err) DirectionInternal ''post_transport_ping'' data)
                 \<lparr>ev_error := capture_error ''ping'' err\<rparr>
           in case hook_record (nw_sink nw) \<lparr>rc_event = e, rc_raw = response, rc_media_type = ''application/octet-stream'',
                     rc_representation = ''bedrock_transport_ping''\<rparr> h of
                (captured, h1) \<Rightarrow> ((err, map_option (\<lambda>s. ''capture transport ping: '' @ s) captured), h1)))"

section \<open>Connections\<close>

text \<open>An observed connection: the transport's and, once closed, what closing it gave.\<close>

record observed_link =
  ol_link :: link
  ol_closed :: "joined option"

definition payload_direction :: "'r network \<Rightarrow> bool \<Rightarrow> direction" where
  "payload_direction nw writing = (if writing then nw_write nw else nw_read nw)"

definition payload_severity :: "net_error option \<Rightarrow> severity" where
  "payload_severity err = (case err of None \<Rightarrow> SeverityDebug | Some e \<Rightarrow> if ne_closed e then SeverityWarn else SeverityError)"

definition payload_metadata :: "'r network \<Rightarrow> string \<Rightarrow> int \<Rightarrow> int \<Rightarrow> net_error option \<Rightarrow> metadata" where
  "payload_metadata nw operation attempted transferred err =
     (let m = [''operation'' \<mapsto> MetaText operation, ''attempted_bytes'' \<mapsto> MetaNumber attempted, ''transferred_bytes'' \<mapsto> MetaNumber transferred];
          m = (case err of Some e \<Rightarrow> if ne_closed e then m(''best_effort'' \<mapsto> MetaFlag True) else m | None \<Rightarrow> m)
      in m ++ (case nw_payload_metadata nw of Some extra \<Rightarrow> extra | None \<Rightarrow> Map.empty))"

definition payload_event :: "'r network \<Rightarrow> link \<Rightarrow> bool \<Rightarrow> int \<Rightarrow> int \<Rightarrow> net_error option \<Rightarrow> event" where
  "payload_event nw c writing attempted transferred err =
     (let operation = (if writing then ''write'' else ''read'')
      in (network_event nw ''transport.payload'' (payload_severity err) (payload_direction nw writing) ''post_transport_application_payload''
            (nw_json nw (payload_metadata nw operation attempted transferred err)))
         \<lparr>ev_source := (if writing then lk_local c else lk_remote c), ev_destination := (if writing then lk_remote c else lk_local c),
           ev_error := capture_error operation err\<rparr>)"

definition record_payload :: "'r network \<Rightarrow> link \<Rightarrow> bool \<Rightarrow> bytes option \<Rightarrow> int \<Rightarrow> int \<Rightarrow> net_error option \<Rightarrow> 'r hooks \<Rightarrow> string option \<times> 'r hooks" where
  "record_payload nw c writing payload attempted transferred err h =
     (case hook_record (nw_sink nw) \<lparr>rc_event = payload_event nw c writing attempted transferred err, rc_raw = payload,
             rc_media_type = ''application/octet-stream'', rc_representation = ''bedrock_transport_payload''\<rparr> h of
        (captured, h1) \<Rightarrow> (map_option (\<lambda>s. ''capture transport '' @ (if writing then ''write: '' else ''read: '') @ s) captured, h1))"

text \<open>The slice \<^verbatim>\<open>payload[:transferred]\<close> within its bounds; nil stays nil.\<close>

definition transferred_payload :: "bytes option \<Rightarrow> int \<Rightarrow> bytes option" where
  "transferred_payload payload n =
     (if n \<le> 0 then map_option (\<lambda>_. []) payload
      else case payload of None \<Rightarrow> None | Some p \<Rightarrow> if n \<ge> int (length p) then Some p else Some (take (nat n) p))"

text \<open>
  The calls of a connection with what the transport answers: the bytes that a read filled, a packet, what a
  write took.
\<close>

datatype link_call = ReadCall bytes "net_error option" | ReadPacketCall "bytes option" "net_error option"
  | WriteCall "bytes option" int "net_error option" | LinkCloseCall "net_error option"

datatype link_result = LinkRead bytes joined | LinkPacket "bytes option" joined | NoPacketReads | LinkWritten int joined | LinkClosed joined

definition close_link :: "'r network \<Rightarrow> net_error option \<Rightarrow> observed_link \<Rightarrow> 'r hooks \<Rightarrow> joined \<times> observed_link \<times> 'r hooks" where
  "close_link nw err ol h =
     (case ol_closed ol of
        Some res \<Rightarrow> (res, ol, h)
      | None \<Rightarrow>
          (case record_connection nw ''transport.connection_close'' (Some (ol_link ol)) err h of
             (captured, h1) \<Rightarrow> ((err, captured), ol\<lparr>ol_closed := Some (err, captured)\<rparr>, h1)))"

fun link_step :: "'r network \<Rightarrow> link_call \<Rightarrow> observed_link \<times> 'r hooks \<Rightarrow> link_result \<times> observed_link \<times> 'r hooks" where
  "link_step nw (ReadCall p err) (ol, h) =
     (case record_payload nw (ol_link ol) False (Some p) (int (length p)) (int (length p)) err h of
        (captured, h1) \<Rightarrow> (LinkRead p (err, captured), ol, h1))"
| "link_step nw (ReadPacketCall p err) (ol, h) =
     (if lk_packets (ol_link ol)
      then case record_payload nw (ol_link ol) False p (raw_length p) (raw_length p) err h of
             (captured, h1) \<Rightarrow> (LinkPacket p (err, captured), ol, h1)
      else (NoPacketReads, ol, h))"
| "link_step nw (WriteCall p n err) (ol, h) =
     (case record_payload nw (ol_link ol) True (transferred_payload p n) (raw_length p) n err h of
        (captured, h1) \<Rightarrow> (LinkWritten n (err, captured), ol, h1))"
| "link_step nw (LinkCloseCall err) (ol, h) =
     (case close_link nw err ol h of (res, ol1, h1) \<Rightarrow> (LinkClosed res, ol1, h1))"

text \<open>What the wrapper answers for the optional methods of its transport.\<close>

definition batch_header :: "link \<Rightarrow> bytes" where
  "batch_header c = (case lk_batch_header c of Some b \<Rightarrow> b | None \<Rightarrow> [0xFE])"

definition disable_encryption :: "link \<Rightarrow> bool" where
  "disable_encryption c = (case lk_no_encryption c of Some b \<Rightarrow> b | None \<Rightarrow> False)"

definition link_latency :: "link \<Rightarrow> int" where
  "link_latency c = (case lk_latency c of Some n \<Rightarrow> n | None \<Rightarrow> 0)"

definition public_key :: "link \<Rightarrow> bool" where
  "public_key c = (case lk_key c of Some present \<Rightarrow> present | None \<Rightarrow> False)"

definition link_client_guid :: "link \<Rightarrow> int" where
  "link_client_guid c = (case lk_guid c of Some n \<Rightarrow> n | None \<Rightarrow> 0)"

end
