(* ===== verification/Proxy_Hop.thy ===== *)
theory Proxy_Hop
  imports Forward
begin

text \<open>
  One hop of the proxy (\<^verbatim>\<open>Runner.runHop\<close>, \<^verbatim>\<open>internal/proxy/proxy.go\<close>): the records before the loops, the two
  forwarding loops with everything they share, and what becomes of their results. The loops interleave at the
  points where they block; the other writers of the recorder, of the failure sink and of the terminal come in
  between. The JSON and text of the session's facts are parameters.
\<close>

section \<open>Records of the session\<close>

text \<open>
  \<^verbatim>\<open>recordAtHop\<close>: the data is what \<^verbatim>\<open>json.Marshal\<close> gave for the value; \<^term>\<open>Inr None\<close> stands for a nil value.
\<close>

definition lifecycle_event :: "string \<Rightarrow> severity \<Rightarrow> string option \<Rightarrow> int \<Rightarrow> event" where
  "lifecycle_event kind severity data hop =
     empty_event\<lparr>ev_session_id := session_name, ev_hop := hop, ev_kind := kind, ev_severity := severity,
       ev_direction := DirectionInternal, ev_channel := ''proxy'', ev_stage := ''lifecycle'', ev_data := data\<rparr>"

definition record_at_hop :: "'r runner \<Rightarrow> string \<Rightarrow> severity \<Rightarrow> string + string option \<Rightarrow> int \<Rightarrow> 'r bridge \<Rightarrow> string option \<times> 'r bridge" where
  "record_at_hop ru kind severity value hop b =
     (case value of
        Inl e \<Rightarrow> (Some (''encode '' @ kind @ '' event: '' @ e), b)
      | Inr data \<Rightarrow>
          (case record_one ru (lifecycle_event kind severity data hop) b of
             (Inl e, b1) \<Rightarrow> (Some e, b1)
           | (Inr _, b1) \<Rightarrow> (None, b1)))"

record view_place =
  vp_kind :: string
  vp_direction :: direction
  vp_connection :: string
  vp_channel :: string
  vp_stage :: string
  vp_hop :: int
  vp_annotations :: "string list"

definition view_event :: "view_place \<Rightarrow> go_error + string \<Rightarrow> event" where
  "view_event vp view =
     (let e = empty_event\<lparr>ev_session_id := session_name, ev_connection_id := vp_connection vp, ev_hop := vp_hop vp,
                ev_direction := vp_direction vp, ev_channel := vp_channel vp, ev_stage := vp_stage vp\<rparr>
      in case view of
           Inl err \<Rightarrow> e\<lparr>ev_kind := ''capture.view_error'', ev_severity := SeverityError,
             ev_error := Some \<lparr>ei_operation = ''encode '' @ vp_kind vp, ei_message = fst err, ei_type = snd err, ei_temporary = None, ei_timeout = None\<rparr>\<rparr>
         | Inr data \<Rightarrow> e\<lparr>ev_kind := vp_kind vp, ev_severity := SeverityInfo, ev_data := Some data, ev_annotations := vp_annotations vp\<rparr>)"

definition record_view_at_hop :: "'r runner \<Rightarrow> view_place \<Rightarrow> go_value \<Rightarrow> 'r bridge \<Rightarrow> string option \<times> 'r bridge" where
  "record_view_at_hop ru vp v b =
     (case record_one ru (view_event vp (structured_view ru v)) b of
        (Inl e, b1) \<Rightarrow> (Some e, b1)
      | (Inr _, b1) \<Rightarrow> (None, b1))"

section \<open>Before the loops\<close>

record hop_names =
  hn_hop :: int
  hn_target :: string
  hn_downstream :: string
  hn_upstream :: string

text \<open>What a connection negotiated; the scalar is the bit pattern of a \<^verbatim>\<open>float32\<close>.\<close>

record net_settings =
  ns_threshold :: "16 word"
  ns_algorithm :: "16 word"
  ns_throttle :: bool
  ns_throttle_threshold :: "8 word"
  ns_throttle_scalar :: u32

record conn_facts =
  cf_protocol :: int
  cf_version :: string
  cf_client_version :: string
  cf_device_os :: int
  cf_settings :: "net_settings option"

record negotiated =
  ng_downstream_protocol :: int
  ng_downstream_version :: string
  ng_upstream_protocol :: int
  ng_upstream_version :: string
  ng_downstream_client_version :: string
  ng_upstream_client_version :: string
  ng_client_version_match :: bool
  ng_downstream_device_os :: int
  ng_upstream_device_os :: int
  ng_device_os_match :: bool
  ng_downstream_settings :: "net_settings option"
  ng_upstream_settings :: "net_settings option"
  ng_settings_available :: bool
  ng_settings_match :: bool
  ng_packs :: nat
  ng_target :: string

definition negotiate :: "conn_facts \<Rightarrow> conn_facts \<Rightarrow> nat \<Rightarrow> string \<Rightarrow> negotiated" where
  "negotiate client server packs target =
     \<lparr>ng_downstream_protocol = cf_protocol client, ng_downstream_version = cf_version client,
      ng_upstream_protocol = cf_protocol server, ng_upstream_version = cf_version server,
      ng_downstream_client_version = cf_client_version client, ng_upstream_client_version = cf_client_version server,
      ng_client_version_match = (cf_client_version client = cf_client_version server),
      ng_downstream_device_os = cf_device_os client, ng_upstream_device_os = cf_device_os server,
      ng_device_os_match = (cf_device_os client = cf_device_os server),
      ng_downstream_settings = cf_settings client, ng_upstream_settings = cf_settings server,
      ng_settings_available = (cf_settings client \<noteq> None \<and> cf_settings server \<noteq> None),
      ng_settings_match = (cf_settings client \<noteq> None \<and> cf_settings server \<noteq> None \<and> cf_settings client = cf_settings server),
      ng_packs = packs, ng_target = target\<rparr>"

definition negotiated_text :: "hop_names \<Rightarrow> negotiated \<Rightarrow> string" where
  "negotiated_text hn n =
     ''Session negotiated - downstream protocol '' @ itoa_int (ng_downstream_protocol n) @ '', upstream protocol ''
     @ itoa_int (ng_upstream_protocol n) @ '', '' @ itoa (ng_packs n) @ '' resource packs (hop '' @ itoa_int (hn_hop hn) @ '')''"

text \<open>What the connections and the encoders answer up to the spawn.\<close>

record hop_world =
  hw_spawn :: "net_error option"
  hw_spawn_json :: "net_error \<Rightarrow> string + string option"
  hw_client :: conn_facts
  hw_server :: conn_facts
  hw_packs :: nat
  hw_negotiated_json :: "negotiated \<Rightarrow> string + string option"
  hw_client_view :: go_value
  hw_server_view :: go_value
  hw_game_view :: go_value
  hw_start :: "net_error option"
  hw_spawned :: "string + string option"
  hw_spawned_text :: string
  hw_now :: "nat \<Rightarrow> instant"

datatype hop_error = LoginFailure string | SpawnFailure net_error "string option" | HopRecord string | HopCapture string

definition login_annotation :: string where
  "login_annotation = ''Exact Login packet bytes remain in packet.raw; binary fields in this structured view use size, SHA-256, and preview metadata''"

definition game_annotation :: string where
  "game_annotation = ''This is a bounded GameData view exposed by gophertunnel; collections may be truncated and the exact StartGame packet remains in packet.raw''"

definition metadata_place :: "hop_names \<Rightarrow> string \<Rightarrow> string \<Rightarrow> view_place" where
  "metadata_place hn connection channel =
     \<lparr>vp_kind = ''session.connection_metadata'', vp_direction = DirectionInternal, vp_connection = connection, vp_channel = channel,
      vp_stage = ''decoded_login_state'', vp_hop = hn_hop hn, vp_annotations = [login_annotation]\<rparr>"

definition game_place :: "hop_names \<Rightarrow> view_place" where
  "game_place hn =
     \<lparr>vp_kind = ''session.game_data'', vp_direction = DirectionServerToClient, vp_connection = hn_upstream hn, vp_channel = ''upstream'',
      vp_stage = ''decoded_upstream_game_data'', vp_hop = hn_hop hn, vp_annotations = [game_annotation]\<rparr>"

text \<open>A failed record ends the hop; otherwise it goes on with the next state.\<close>

fun then_hop :: "string option \<times> 'r bridge \<Rightarrow> ('r bridge \<Rightarrow> (hop_error + unit) \<times> 'r bridge) \<Rightarrow> (hop_error + unit) \<times> 'r bridge" where
  "then_hop (Some e, b) f = (Inl (HopRecord e), b)"
| "then_hop (None, b) f = f b"

definition set_failure :: "string option \<Rightarrow> 'r bridge \<Rightarrow> 'r bridge" where
  "set_failure err b = b\<lparr>bg_failures := failure_set (bg_failures b) err\<rparr>"

definition live_do :: "(live_reporter \<Rightarrow> live_reporter) \<Rightarrow> 'r bridge \<Rightarrow> 'r bridge" where
  "live_do f b = b\<lparr>bg_live := f (bg_live b)\<rparr>"

definition spawn_failed :: "'r runner \<Rightarrow> hop_world \<Rightarrow> hop_names \<Rightarrow> net_error \<Rightarrow> 'r bridge \<Rightarrow> (hop_error + unit) \<times> 'r bridge" where
  "spawn_failed ru hw hn e b =
     (case record_at_hop ru ''session.spawn_error'' SeverityError (hw_spawn_json hw e) (hn_hop hn) b of
        (capture, b1) \<Rightarrow> (Inl (SpawnFailure e capture), set_failure capture b1))"

definition start_hop :: "'r runner \<Rightarrow> hop_world \<Rightarrow> hop_names \<Rightarrow> 'r bridge \<Rightarrow> (hop_error + unit) \<times> 'r bridge" where
  "start_hop ru hw hn b =
     (case fs_err (bg_failures b) of
        Some e \<Rightarrow> (Inl (LoginFailure e), b)
      | None \<Rightarrow>
          (case hw_spawn hw of
             Some e \<Rightarrow> spawn_failed ru hw hn e b
           | None \<Rightarrow>
               let n = negotiate (hw_client hw) (hw_server hw) (hw_packs hw) (hn_target hn) in
               then_hop (record_at_hop ru ''session.negotiated'' SeverityInfo (hw_negotiated_json hw n) (hn_hop hn) b) (\<lambda>b.
                 let b = live_do (live_info (hw_now hw 0) (negotiated_text hn n)) b in
                 then_hop (record_view_at_hop ru (metadata_place hn (hn_downstream hn) ''downstream'') (hw_client_view hw) b) (\<lambda>b.
                 then_hop (record_view_at_hop ru (metadata_place hn (hn_upstream hn) ''upstream'') (hw_server_view hw) b) (\<lambda>b.
                 then_hop (record_view_at_hop ru (game_place hn) (hw_game_view hw) b) (\<lambda>b.
                   case hw_start hw of
                     Some e \<Rightarrow> spawn_failed ru hw hn e b
                   | None \<Rightarrow>
                       then_hop (record_at_hop ru ''session.spawned'' SeverityInfo (hw_spawned hw) (hn_hop hn)
                           (live_do (live_set_spawned (hw_now hw 1)) b)) (\<lambda>b.
                         (Inr (), live_do (live_info (hw_now hw 2) (hw_spawned_text hw)) b))))))))"

section \<open>The two loops\<close>

text \<open>Where a loop is: before its checks, reading, with a packet in hand, or at its end.\<close>

datatype loop_place = AtCheck | AtRead | AtPacket bridge_turn bridge_packet "raw_read option" | LoopEnded

datatype hop_side = ToServer | ToClient

text \<open>
  The loops are told apart by the side that they lead to. \<open>hp_read\<close> keeps the packets that each one read,
  which the code does not.
\<close>

record 'r hop =
  hp_bridge :: "'r bridge"
  hp_loop :: "hop_side \<Rightarrow> loop_place"
  hp_read :: "hop_side \<Rightarrow> (bridge_packet \<times> raw_read option) list"
  hp_results :: "(hop_side \<times> loop_error) list"

definition loop_check :: "'r runner \<Rightarrow> 'r bridge \<Rightarrow> string option" where
  "loop_check ru b = (case fs_err (bg_failures b) of Some e \<Rightarrow> Some e | None \<Rightarrow> ru_recorder_err ru (bg_recorder b))"

definition end_loop :: "hop_side \<Rightarrow> loop_error \<Rightarrow> 'r bridge \<Rightarrow> 'r hop \<Rightarrow> 'r hop" where
  "end_loop d e b h = h\<lparr>hp_bridge := b, hp_loop := (hp_loop h)(d := LoopEnded), hp_results := hp_results h @ [(d, e)]\<rparr>"

definition move_loop :: "hop_side \<Rightarrow> loop_place \<Rightarrow> 'r bridge \<Rightarrow> 'r hop \<Rightarrow> 'r hop" where
  "move_loop d place b h = h\<lparr>hp_bridge := b, hp_loop := (hp_loop h)(d := place)\<rparr>"

text \<open>
  The last two steps are those of the goroutine that waits for the loops, which claims the end of the hop when
  the first result is there or the run ends, and those of the observers: \<open>others\<close> is what they do to the
  recorder.
\<close>

inductive hop_step :: "'r runner \<Rightarrow> (hop_side \<Rightarrow> lane) \<Rightarrow> ('r \<Rightarrow> 'r \<Rightarrow> bool) \<Rightarrow> 'r hop \<Rightarrow> 'r hop \<Rightarrow> bool"
  for ru :: "'r runner" and lanes :: "hop_side \<Rightarrow> lane" and others :: "'r \<Rightarrow> 'r \<Rightarrow> bool" where
  check_failed: "hp_loop h d = AtCheck \<Longrightarrow> loop_check ru (hp_bridge h) = Some e \<Longrightarrow>
     hop_step ru lanes others h (end_loop d (CaptureError e) (hp_bridge h) h)"
| check_passed: "hp_loop h d = AtCheck \<Longrightarrow> loop_check ru (hp_bridge h) = None \<Longrightarrow>
     hop_step ru lanes others h (move_loop d AtRead (hp_bridge h) h)"
| read_failed: "hp_loop h d = AtRead \<Longrightarrow> forward_read ru (lanes d) (tn_answer (tn :: bridge_turn)) (hp_bridge h) = (ReadEnd e, b) \<Longrightarrow>
     hop_step ru lanes others h (end_loop d e b h)"
| read_nothing: "hp_loop h d = AtRead \<Longrightarrow> forward_read ru (lanes d) (tn_answer (tn :: bridge_turn)) (hp_bridge h) = (ReadSkip, b) \<Longrightarrow>
     hop_step ru lanes others h (move_loop d AtCheck b h)"
| read_packet: "hp_loop h d = AtRead \<Longrightarrow> forward_read ru (lanes d) (tn_answer tn) (hp_bridge h) = (ReadPacket p raw, b) \<Longrightarrow>
     hop_step ru lanes others h ((move_loop d (AtPacket tn p raw) b h)\<lparr>hp_read := (hp_read h)(d := hp_read h d @ [(p, raw)])\<rparr>)"
| packet_done: "hp_loop h d = AtPacket tn p raw \<Longrightarrow> forward_packet ru (lanes d) tn p raw (hp_bridge h) = (None, b) \<Longrightarrow>
     hop_step ru lanes others h (move_loop d AtCheck b h)"
| packet_failed: "hp_loop h d = AtPacket tn p raw \<Longrightarrow> forward_packet ru (lanes d) tn p raw (hp_bridge h) = (Some e, b) \<Longrightarrow>
     hop_step ru lanes others h (end_loop d e b h)"
| claim_end: "hop_step ru lanes others h (h\<lparr>hp_bridge := (hp_bridge h)\<lparr>bg_shutting := True\<rparr>\<rparr>)"
| observed: "others (bg_recorder (hp_bridge h)) r \<Longrightarrow>
     hop_step ru lanes others h (h\<lparr>hp_bridge := (hp_bridge h)
       \<lparr>bg_recorder := r, bg_live := live, bg_failures := failure_set (bg_failures (hp_bridge h)) err\<rparr>\<rparr>)"

definition start_loops :: "'r bridge \<Rightarrow> 'r hop" where
  "start_loops b = \<lparr>hp_bridge = b, hp_loop = (\<lambda>_. AtCheck), hp_read = (\<lambda>_. []), hp_results = []\<rparr>"

text \<open>The lanes of a hop.\<close>

definition hop_lanes :: "hop_names \<Rightarrow> string \<Rightarrow> string \<Rightarrow> hop_side \<Rightarrow> lane" where
  "hop_lanes hn server_address local_address side =
     (let address = (if trim_space server_address = [] then local_address else trim_space server_address)
      in if side = ToClient
         then \<lparr>ln_direction = DirectionServerToClient, ln_channel = ''upstream'', ln_connection = hn_upstream hn, ln_hop = hn_hop hn, ln_local = address\<rparr>
         else \<lparr>ln_direction = DirectionClientToServer, ln_channel = ''downstream'', ln_connection = hn_downstream hn, ln_hop = hn_hop hn, ln_local = address\<rparr>)"

section \<open>After the loops\<close>

definition loop_canceled :: "loop_error \<Rightarrow> bool" where
  "loop_canceled e = (case e of OperationError x _ \<Rightarrow> ne_canceled x | RewriteError x _ \<Rightarrow> ne_canceled x | _ \<Rightarrow> False)"

definition transfer_from_loops :: "loop_error \<Rightarrow> loop_error option \<Rightarrow> transfer_done option" where
  "transfer_from_loops first second =
     (case first of
        TransferDone t \<Rightarrow> Some t
      | _ \<Rightarrow> (case second of Some (TransferDone t) \<Rightarrow> if loop_canceled first then Some t else None | _ \<Rightarrow> None))"

record close_world =
  cw_json :: "loop_error \<Rightarrow> loop_error \<Rightarrow> transfer_done option \<Rightarrow> string + string option"
  cw_text :: "loop_error \<Rightarrow> string"
  cw_now :: instant

datatype hop_result = HopEnded | HopTransfer transfer_done | HopFailed hop_error

definition transfer_text :: "hop_names \<Rightarrow> transfer_done \<Rightarrow> string" where
  "transfer_text hn t = ''Session hop '' @ itoa_int (hn_hop hn) @ '' ended after transfer - target '' @ td_target t"

definition ended_text :: "close_world \<Rightarrow> hop_names \<Rightarrow> loop_error \<Rightarrow> loop_error \<Rightarrow> string" where
  "ended_text cw hn first second =
     ''Session ended - first loop: '' @ cw_text cw first @ ''; second loop: '' @ cw_text cw second @ '' (hop '' @ itoa_int (hn_hop hn) @ '')''"

text \<open>Recording the end of the session, and what the hop then returns.\<close>

definition close_session :: "'r runner \<Rightarrow> close_world \<Rightarrow> hop_names \<Rightarrow> severity \<Rightarrow> loop_error \<Rightarrow> loop_error \<Rightarrow> transfer_done option \<Rightarrow> 'r bridge \<Rightarrow>
    hop_result \<times> 'r bridge" where
  "close_session ru cw hn severity first second transfer b =
     (case record_at_hop ru ''session.close'' severity (cw_json cw first second transfer) (hn_hop hn) b of
        (Some e, b1) \<Rightarrow> (HopFailed (HopRecord e), b1)
      | (None, b1) \<Rightarrow>
          (case transfer of
             Some t \<Rightarrow> (HopTransfer t, live_do (live_info (cw_now cw) (transfer_text hn t)) b1)
           | None \<Rightarrow> (HopEnded, live_do (live_info (cw_now cw) (ended_text cw hn first second)) b1)))"

text \<open>
  Once both results are there, in the order in which they came. The flag says whether the client is left
  open, which happens only when the first loop ended with the transfer. A loop always returns an error, so
  the session of a hop without a transfer is closed with a warning.
\<close>

definition finish_hop :: "'r runner \<Rightarrow> close_world \<Rightarrow> hop_names \<Rightarrow> loop_error \<Rightarrow> loop_error \<Rightarrow> 'r bridge \<Rightarrow> bool \<times> hop_result \<times> 'r bridge" where
  "finish_hop ru cw hn first second b0 =
     (let transfer = transfer_from_loops first None; b = b0\<lparr>bg_shutting := True\<rparr>
      in if ru_follow ru \<and> transfer \<noteq> None
         then (True, (case fs_err (bg_failures b) of
                Some e \<Rightarrow> (HopFailed (HopCapture e), b)
              | None \<Rightarrow> close_session ru cw hn SeverityInfo first second transfer b))
         else (False, (case fs_err (bg_failures b) of
                Some e \<Rightarrow> (HopFailed (HopCapture e), b)
              | None \<Rightarrow>
                  (case (if ru_follow ru then transfer_from_loops first (Some second) else None) of
                     Some t \<Rightarrow> close_session ru cw hn SeverityInfo first second (Some t) b
                   | None \<Rightarrow> close_session ru cw hn SeverityWarn first second None b))))"

end
