(* ===== verification/Proxy_Connect.thy ===== *)
theory Proxy_Connect
  imports Bedrock_Observer PackCache Proxy_Hop Digest
begin

text \<open>
  Connecting to the server (\<^verbatim>\<open>Runner.connectUpstream\<close> and what it calls,
  \<^verbatim>\<open>internal/proxy/proxy.go\<close>), the packs that the client is given, the probe of a transfer's route, and the
  request that is forwarded out of the login. The dial itself, the encoders and the clock are parameters.
\<close>

section \<open>Packs for the client\<close>

text \<open>
  \<^verbatim>\<open>resource.Read\<close> of an archive: \<open>parse\<close> gives what the library finds in it, and the pack it makes has no
  URL and no key; \<^verbatim>\<open>WithContentKey\<close> sets the key of a copy.
\<close>

definition read_pack :: "(bytes \<Rightarrow> string + resource_pack) \<Rightarrow> bytes \<Rightarrow> string + resource_pack" where
  "read_pack parse archive =
     (case parse archive of
        Inl e \<Rightarrow> Inl e
      | Inr p \<Rightarrow> Inr (p\<lparr>pk_archive := archive, pk_checksum := sha256 archive, pk_download_url := [], pk_encrypted := False, pk_key := []\<rparr>))"

definition with_content_key :: "string \<Rightarrow> resource_pack \<Rightarrow> resource_pack" where
  "with_content_key key p = p\<lparr>pk_key := key, pk_encrypted := (key \<noteq> [])\<rparr>"

datatype delivery_error = DeliveryNil | DeliveryClone string string

definition pack_for_downstream :: "(bytes \<Rightarrow> string + resource_pack) \<Rightarrow> resource_pack option \<Rightarrow> delivery_error + resource_pack" where
  "pack_for_downstream parse pack =
     (case pack of
        None \<Rightarrow> Inl DeliveryNil
      | Some p \<Rightarrow>
          if pk_download_url p = [] then Inr p
          else case read_pack parse (pk_archive p) of
            Inl e \<Rightarrow> Inl (DeliveryClone (Pack_Record.pk_uuid p) e)
          | Inr clone \<Rightarrow> Inr (if pk_encrypted p then with_content_key (pk_key p) clone else clone))"

fun resource_packs_for_downstream :: "(bytes \<Rightarrow> string + resource_pack) \<Rightarrow> resource_pack option list \<Rightarrow> delivery_error + resource_pack list" where
  "resource_packs_for_downstream parse [] = Inr []"
| "resource_packs_for_downstream parse (p # ps) =
     res_bind (pack_for_downstream parse p) (\<lambda>q. res_bind (resource_packs_for_downstream parse ps) (\<lambda>qs. Inr (q # qs)))"

text \<open>
  The packs of a connection with those that were fetched by URL. The cache keeps a pack under the bytes of its
  identifier, which \<open>raw\<close> gives for its text.
\<close>

definition cached_pack :: "(string \<Rightarrow> string) \<Rightarrow> resource_pack \<Rightarrow> resource_pack pack" where
  "cached_pack raw p = \<lparr>pu_uuid = raw (Pack_Record.pk_uuid p), pu_version = pk_pack_version p, pu_length = int (length (pk_archive p)), pu_key = pk_key p, pu_content = p\<rparr>"

definition uncached_pack :: "resource_pack pack \<Rightarrow> resource_pack" where
  "uncached_pack q = with_content_key (pu_key q) (pu_content q)"

definition merged_packs :: "(string \<Rightarrow> string) \<Rightarrow> resource_pack pack_cache \<Rightarrow> resource_pack option list \<Rightarrow> resource_pack list" where
  "merged_packs raw cache packs = map uncached_pack (merge_packs cache (map (map_option (cached_pack raw)) packs))"

section \<open>Dialling\<close>

definition upstream_dial_timeout :: int where "upstream_dial_timeout = 15 * 60 * 1000000000"
definition upstream_ping_timeout :: int where "upstream_ping_timeout = 5 * 1000000000"
definition route_probe_timeout :: int where "route_probe_timeout = 750 * 1000000"

text \<open>What the dialer is asked to do.\<close>

record dial_request =
  dr_target :: string
  dr_timeout :: int
  dr_skip_ping :: bool
  dr_ping_timeout :: int
  dr_best_effort_ping :: bool
  dr_client_cache :: bool
  dr_exchange_only :: bool
  dr_defer_completion :: bool

record dialed =
  dl_packs :: "resource_pack option list"
  dl_cache :: "resource_pack pack_cache"
  dl_local :: "endpoint option"
  dl_remote :: "endpoint option"
  dl_protocol :: int
  dl_version :: string
  dl_guid :: "int option"
  dl_close :: "net_error option"

record connect_order =
  cn_target :: string
  cn_connection :: string
  cn_hop :: int
  cn_client_cache :: bool
  cn_transfer_route :: bool
  cn_prepare_downstream :: bool
  cn_exchange_only :: bool

definition dial_request_of :: "bool \<Rightarrow> connect_order \<Rightarrow> dial_request" where
  "dial_request_of best_effort co =
     \<lparr>dr_target = cn_target co, dr_timeout = upstream_dial_timeout, dr_skip_ping = has_prefix (cn_target co) ''https://'',
      dr_ping_timeout = (if cn_transfer_route co then route_probe_timeout else upstream_ping_timeout),
      dr_best_effort_ping = (best_effort \<or> cn_transfer_route co), dr_client_cache = cn_client_cache co,
      dr_exchange_only = cn_exchange_only co, dr_defer_completion = cn_prepare_downstream co\<rparr>"

text \<open>\<^verbatim>\<open>Duration.Round\<close> to milliseconds, and at least one of them.\<close>

definition wait_duration :: "int \<Rightarrow> int" where
  "wait_duration d =
     (let ms = 1000000; r = d mod ms; rounded = (if r + r < ms then d - r else d + ms - r) in max ms rounded)"

record dial_failure =
  df_error :: net_error
  df_timeout :: bool
  df_wait :: int

text \<open>
  What the world does: \<open>cw_dial\<close> is \<^verbatim>\<open>DialContextNetwork\<close> with everything its hooks do meanwhile.
\<close>

record 'r connect_world =
  cw_dial :: "dial_request \<Rightarrow> 'r bridge \<Rightarrow> (net_error + dialed) \<times> 'r bridge"
  cw_deadline :: "net_error \<Rightarrow> bool"
  cw_waited :: int
  cw_duration :: "int \<Rightarrow> string"
  cw_error_text :: "net_error \<Rightarrow> string"
  cw_start_json :: "string \<Rightarrow> string + string option"
  cw_failure_json :: "dial_failure \<Rightarrow> string + string option"
  cw_connected_json :: "dialed \<Rightarrow> nat \<Rightarrow> string + string option"
  cw_raw_uuid :: "string \<Rightarrow> string"
  cw_parse :: "bytes \<Rightarrow> string + resource_pack"
  cw_packs :: "nat \<Rightarrow> pack_world"
  cw_decrypt :: bool
  cw_root :: string
  cw_clock :: "nat \<Rightarrow> instant"

datatype connect_error = ConnectRecord string | DialFailed net_error bool "string option"
  | PacksUnrecorded pack_error "net_error option" | PacksUnprepared delivery_error "net_error option" | ConnectedUnrecorded string "net_error option"

definition connecting_text :: "connect_order \<Rightarrow> string" where
  "connecting_text co = ''Connecting upstream - '' @ cn_target co @ '' (hop '' @ itoa_int (cn_hop co)
     @ '') - waiting for upstream login and resource-pack exchange (buffered by design)''"

definition dial_failed_text :: "bool \<Rightarrow> string \<Rightarrow> string" where
  "dial_failed_text timed_out wait =
     (if timed_out then ''Upstream login and resource-pack exchange timed out after '' @ wait
      else ''Upstream login and resource-pack exchange failed after '' @ wait)"

definition dialed_text :: "bool \<Rightarrow> string \<Rightarrow> string" where
  "dialed_text prepare wait =
     (if prepare then ''Upstream packs and stack ready in '' @ wait @ '' - delivering packs downstream before world startup (sequential buffered mode)''
      else ''Upstream login and resource-pack exchange completed in '' @ wait)"

definition retained_text :: "nat \<Rightarrow> string \<Rightarrow> bool \<Rightarrow> string" where
  "retained_text n root decrypt =
     ''Resource packs retained - '' @ itoa n @ '' archives in '' @ root @ ''; plaintext derivation ''
     @ (if decrypt then ''enabled for supported encrypted archives'' else ''disabled; encrypted originals remain available'')"

definition connected_text :: "dialed \<Rightarrow> string" where
  "connected_text dl = ''Upstream connected - '' @ (case dl_remote dl of Some e \<Rightarrow> ep_address e | None \<Rightarrow> ''<nil>'')
     @ '', Bedrock '' @ dl_version dl @ '' protocol '' @ itoa_int (dl_protocol dl)"

text \<open>The failed dial: its error is wrapped when the deadline of the dial or of the error has passed.\<close>

definition dial_failed :: "'r runner \<Rightarrow> 'r connect_world \<Rightarrow> connect_order \<Rightarrow> net_error \<Rightarrow> 'r bridge \<Rightarrow> (connect_error + 'x) \<times> 'r bridge" where
  "dial_failed ru cw co e b =
     (let timed_out = cw_deadline cw e; wait = wait_duration (cw_waited cw);
          b = live_do (live_info (cw_clock cw 1) (dial_failed_text timed_out (cw_duration cw wait))) b
      in case record_at_hop ru ''upstream.dial_error'' SeverityError (cw_failure_json cw \<lparr>df_error = e, df_timeout = timed_out, df_wait = wait\<rparr>) (cn_hop co) b of
           (captured, b1) \<Rightarrow> (Inl (DialFailed e timed_out captured), set_failure captured b1))"

text \<open>Recording the packs in the recorder of the run.\<close>

definition record_packs :: "'r runner \<Rightarrow> 'r connect_world \<Rightarrow> connect_order \<Rightarrow> dialed \<Rightarrow> resource_pack list \<Rightarrow> 'r bridge \<Rightarrow> (pack_error + unit) \<times> 'r bridge" where
  "record_packs ru cw co dl packs b =
     (case record_resource_packs (ru_sink ru) \<lparr>do_decrypt = cw_decrypt cw\<rparr>
             \<lparr>po_session = session_name, po_connection = cn_connection co, po_hop = cn_hop co, po_source = dl_remote dl, po_destination = dl_local dl\<rparr>
             (zip (map (cw_packs cw) [0..<length packs]) (map Some packs)) (bg_recorder b) of
        (res, r) \<Rightarrow> (res, b\<lparr>bg_recorder := r\<rparr>))"

text \<open>Once the dial has returned a connection. An error from here on closes it.\<close>

definition keep_connection :: "'r runner \<Rightarrow> 'r connect_world \<Rightarrow> connect_order \<Rightarrow> dialed \<Rightarrow> 'r bridge \<Rightarrow> (connect_error + dialed \<times> resource_pack list) \<times> 'r bridge" where
  "keep_connection ru cw co dl b =
     (let b = live_do (live_info (cw_clock cw 1) (dialed_text (cn_prepare_downstream co) (cw_duration cw (wait_duration (cw_waited cw))))) b;
          packs = merged_packs (cw_raw_uuid cw) (dl_cache dl) (dl_packs dl)
      in case record_packs ru cw co dl packs b of
           (Inl e, b1) \<Rightarrow> (Inl (PacksUnrecorded e (dl_close dl)), b1)
         | (Inr _, b1) \<Rightarrow>
             (let b1 = (if packs \<noteq> [] then live_do (live_info (cw_clock cw 2) (retained_text (length packs) (cw_root cw) (cw_decrypt cw))) b1 else b1)
              in case (if cn_prepare_downstream co then resource_packs_for_downstream (cw_parse cw) (map Some packs) else Inr packs) of
                   Inl e \<Rightarrow> (Inl (PacksUnprepared e (dl_close dl)), b1)
                 | Inr delivery \<Rightarrow>
                     (case record_at_hop ru ''upstream.connected'' SeverityInfo (cw_connected_json cw dl (length packs)) (cn_hop co) b1 of
                        (Some e, b2) \<Rightarrow> (Inl (ConnectedUnrecorded e (dl_close dl)), b2)
                      | (None, b2) \<Rightarrow> (Inr (dl, delivery), live_do (live_info (cw_clock cw 3) (connected_text dl)) b2))))"

definition connect_upstream :: "'r runner \<Rightarrow> 'r connect_world \<Rightarrow> bool \<Rightarrow> connect_order \<Rightarrow> 'r bridge \<Rightarrow> (connect_error + dialed \<times> resource_pack list) \<times> 'r bridge" where
  "connect_upstream ru cw best_effort co b =
     (case record_at_hop ru ''upstream.dial_start'' SeverityInfo (cw_start_json cw (cn_target co)) (cn_hop co) b of
        (Some e, b1) \<Rightarrow> (Inl (ConnectRecord e), b1)
      | (None, b1) \<Rightarrow>
          (case cw_dial cw (dial_request_of best_effort co) (live_do (live_info (cw_clock cw 0) (connecting_text co)) b1) of
             (Inl e, b2) \<Rightarrow> dial_failed ru cw co e b2
           | (Inr dl, b2) \<Rightarrow> keep_connection ru cw co dl b2))"

text \<open>What the listener is given: the delivery or, where there is none, the packs of the connection.\<close>

definition fetched_packs :: "dialed \<times> resource_pack list \<Rightarrow> resource_pack option list" where
  "fetched_packs d = (if snd d \<noteq> [] then map Some (snd d) else dl_packs (fst d))"

section \<open>Probe of a route\<close>

definition probe_text :: "string \<Rightarrow> string \<Rightarrow> string" where
  "probe_text target local = ''Transfer route probe completed - '' @ target @ '' (local '' @ local @ '')''"

record route_probe =
  rp_address :: string
  rp_local :: "string option"
  rp_guid_kept :: bool
  rp_error :: "net_error option"

text \<open>
  \<^verbatim>\<open>probeTransferRouteNetwork\<close> with what the ping answered; the errors joined are those of the ping and of
  recording the probe.
\<close>

definition probe_route :: "'r runner \<Rightarrow> (route_probe \<Rightarrow> string + string option) \<Rightarrow> instant \<Rightarrow> int \<Rightarrow> string \<Rightarrow> string option \<Rightarrow> int \<Rightarrow> net_error option \<Rightarrow>
    'r bridge \<Rightarrow> joined \<times> 'r bridge" where
  "probe_route ru json now hop target local guid err b =
     (let fields = \<lparr>rp_address = target, rp_local = local, rp_guid_kept = (guid \<noteq> 0), rp_error = err\<rparr>
      in case record_at_hop ru ''transfer.route_probe'' (if err = None then SeverityInfo else SeverityWarn) (json fields) hop b of
           (captured, b1) \<Rightarrow>
             (let b1 = set_failure captured b1
              in if err \<noteq> None \<or> captured \<noteq> None then ((err, captured), b1)
                 else (no_error, live_do (live_info now (probe_text target (case local of Some s \<Rightarrow> s | None \<Rightarrow> ''<nil>''))) b1)))"

section \<open>Addresses\<close>

fun index_of :: "string \<Rightarrow> string \<Rightarrow> nat option" where
  "index_of [] p = (if p = [] then Some 0 else None)"
| "index_of (c # s) p = (if has_prefix (c # s) p then Some 0 else map_option Suc (index_of s p))"

text \<open>\<^verbatim>\<open>udpAddress\<close>: a UDP address as it is, or what is found in a description and resolves.\<close>

datatype net_address = UdpAddress string | DescribedAddress string

definition described_host :: "string \<Rightarrow> string" where
  "described_host s =
     (case index_of s ''udp4 host '' of
        None \<Rightarrow> s
      | Some i \<Rightarrow>
          (let rest = drop (i + length ''udp4 host '') s
           in case index_of rest '' ('' of None \<Rightarrow> rest | Some j \<Rightarrow> take j rest))"

definition udp_address :: "(string \<Rightarrow> string option) \<Rightarrow> net_address option \<Rightarrow> string option" where
  "udp_address resolve address =
     (case address of
        None \<Rightarrow> None
      | Some (UdpAddress s) \<Rightarrow> Some s
      | Some (DescribedAddress s) \<Rightarrow> resolve (described_host s))"

section \<open>Starting the game\<close>

text \<open>
  \<^verbatim>\<open>startGame\<close>: both results are awaited, in the order in which they come; both connections are closed when
  one of them is an error.
\<close>

definition start_game :: "net_error option \<Rightarrow> net_error option \<Rightarrow> bool \<times> net_error list" where
  "start_game first second =
     (let errs = List.map_filter id [first, second] in (errs \<noteq> [], errs))"

section \<open>Metadata of the transport\<close>

record crypto_facts =
  cy_guid :: "int option"
  cy_disabled :: bool
  cy_enabled :: bool
  cy_settings :: "net_settings option"

definition transport_metadata :: "crypto_facts option \<Rightarrow> metadata option" where
  "transport_metadata conn =
     (case conn of
        None \<Rightarrow> None
      | Some c \<Rightarrow>
          (let m = (case cy_guid c of Some g \<Rightarrow> [''raknet_client_guid'' \<mapsto> MetaNumber g] | None \<Rightarrow> Map.empty);
               m = m(''bedrock_encryption_state'' \<mapsto> MetaText (if cy_disabled c then ''disabled'' else if cy_enabled c then ''enabled'' else ''not_enabled''))
           in Some (case cy_settings c of
                None \<Rightarrow> m(''bedrock_compression_state'' \<mapsto> MetaText ''not_negotiated'')
              | Some s \<Rightarrow> m(''bedrock_compression_state'' \<mapsto> MetaText ''negotiated'',
                    ''bedrock_compression_threshold'' \<mapsto> MetaNumber (uint (ns_threshold s)),
                    ''bedrock_compression_algorithm'' \<mapsto> MetaNumber (uint (ns_algorithm s))))))"

section \<open>A request out of the login\<close>

text \<open>
  The listener's packet callback for \<^verbatim>\<open>RequestChunkRadius\<close>: \<open>marshal\<close> is the library's decoder, which panics
  or leaves bytes unread; the request goes to the server's connection of the accepting hop, if it is there.
\<close>

datatype chunk_error = ChunkPanic string | ChunkUnread nat

definition decode_chunk_radius :: "(bytes \<Rightarrow> string + 'q \<times> bytes) \<Rightarrow> bytes \<Rightarrow> chunk_error + 'q" where
  "decode_chunk_radius marshal payload =
     (case marshal payload of
        Inl e \<Rightarrow> Inl (ChunkPanic e)
      | Inr (q, rest) \<Rightarrow> if rest \<noteq> [] then Inl (ChunkUnread (length rest)) else Inr q)"

record chunk_world =
  ch_error :: "chunk_error \<Rightarrow> net_error"
  ch_unavailable :: net_error

definition chunk_lane :: "bool \<Rightarrow> string \<Rightarrow> int \<Rightarrow> lane" where
  "chunk_lane up connection hop =
     \<lparr>ln_direction = DirectionClientToServer, ln_channel = (if up then ''upstream'' else ''downstream''), ln_connection = connection, ln_hop = hop, ln_local = []\<rparr>"

text \<open>\<open>write\<close> is what writing the request to the server's connection answers, where there is one.\<close>

definition forward_chunk_radius :: "'r runner \<Rightarrow> chunk_world \<Rightarrow> (bytes \<Rightarrow> string + 'q \<times> bytes) \<Rightarrow> hop_names \<Rightarrow> packet_header \<Rightarrow> bytes \<Rightarrow>
    ('q \<Rightarrow> net_error option) option \<Rightarrow> 'r bridge \<Rightarrow> 'q option \<times> 'r bridge" where
  "forward_chunk_radius ru hw marshal hn ph payload write b =
     (case decode_chunk_radius marshal payload of
        Inl e \<Rightarrow>
          (let info = \<lparr>pi_id = ph_id ph, pi_name = ''RequestChunkRadius'', pi_go_type = ''*packet.RequestChunkRadius'', pi_sender_sub_client = ph_sender ph,
                 pi_target_sub_client = ph_target ph, pi_decode_status = ''decode_error'', pi_unread_bytes = 0\<rparr>
           in case record_one ru (decode_error_event (chunk_lane False (hn_downstream hn) (hn_hop hn)) info ''decode RequestChunkRadius for forwarding'' (ch_error hw e)) b of
                (Inl err, b1) \<Rightarrow> (None, set_failure (Some err) b1)
              | (Inr _, b1) \<Rightarrow> (None, b1))
      | Inr q \<Rightarrow>
          (case (case write of None \<Rightarrow> Some (ch_unavailable hw) | Some f \<Rightarrow> f q) of
             None \<Rightarrow> (Some q, b)
           | Some e \<Rightarrow>
               if ne_disconnect e then (if write = None then None else Some q, b)
               else case record_one ru (network_error_event (chunk_lane True (hn_upstream hn) (hn_hop hn)) ''bridge.write_error'' ''forward RequestChunkRadius'' e) b of
                 (Inl err, b1) \<Rightarrow> (if write = None then None else Some q, set_failure (Some err) b1)
               | (Inr _, b1) \<Rightarrow> (if write = None then None else Some q, b1)))"

end
