(* ===== verification/Proxy_Run.thy ===== *)
theory Proxy_Run
  imports Proxy_Connect
begin

text \<open>
  A run of the proxy (\<^verbatim>\<open>Runner.Run\<close>, \<^verbatim>\<open>internal/proxy/proxy.go\<close>): the clients that come and go, the
  notices of their ends, the listener's callbacks, the loop that accepts one client after the other, the hops
  and the following of transfers. The goroutines interleave where they block or take a lock.
\<close>

section \<open>The tracked client\<close>

text \<open>\<^verbatim>\<open>connectionContext\<close>; a context is known by a number.\<close>

record connection_context =
  tc_context :: "nat option"
  tc_generation :: u64

definition set_context :: "nat option \<Rightarrow> connection_context \<Rightarrow> connection_context \<times> u64" where
  "set_context ctx t =
     (case ctx of
        None \<Rightarrow> (t, 0)
      | Some c \<Rightarrow> (let g = tc_generation t + 1 in (\<lparr>tc_context = Some c, tc_generation = g\<rparr>, g)))"

definition clear_context :: "connection_context \<Rightarrow> connection_context" where
  "clear_context t = \<lparr>tc_context = None, tc_generation = tc_generation t + 1\<rparr>"

text \<open>\<^verbatim>\<open>connectionLifecycleContext\<close>, with the context of the connection that is logging in.\<close>

definition lifecycle_context :: "connection_context \<Rightarrow> nat option \<Rightarrow> nat option" where
  "lifecycle_context t connection = (case tc_context t of Some c \<Rightarrow> Some c | None \<Rightarrow> connection)"

text \<open>\<^verbatim>\<open>linkedConnectionContext\<close>: whether work for a connection is cancelled, by the run or by the end of the connection.\<close>

definition linked_canceled :: "bool \<Rightarrow> nat set \<Rightarrow> nat option \<Rightarrow> bool" where
  "linked_canceled parent gone connection = (parent \<or> (case connection of Some c \<Rightarrow> c \<in> gone | None \<Rightarrow> False))"

section \<open>Hops\<close>

text \<open>The barrier is the channel that is closed once the route of a transfer is prepared; the first hop has none.\<close>

datatype barrier = NoBarrier | BarrierUp | BarrierDown

datatype slot_failure = SlotCanceled | SlotConnect connect_error

datatype slot = SlotFree | SlotFailed slot_failure | SlotDone dialed "resource_pack list"

record 'n hop_plan =
  pn_hop :: int
  pn_target :: string
  pn_downstream :: string
  pn_upstream :: string
  pn_local :: "string option"
  pn_guid :: int
  pn_network :: "'n option"
  pn_address :: string
  pn_probed :: bool
  pn_barrier :: barrier
  pn_slot :: slot

definition max_followed_hops :: int where "max_followed_hops = 64"

definition connection_name :: "string \<Rightarrow> int \<Rightarrow> string" where
  "connection_name side hop = side @ ''-'' @ itoa_int hop"

definition first_plan :: "string \<Rightarrow> 'n hop_plan" where
  "first_plan target =
     \<lparr>pn_hop = 1, pn_target = target, pn_downstream = ''downstream-1'', pn_upstream = ''upstream-1'', pn_local = None, pn_guid = 0,
      pn_network = None, pn_address = [], pn_probed = False, pn_barrier = NoBarrier, pn_slot = SlotFree\<rparr>"

text \<open>
  The hop after a transfer keeps the local address and the identifier of the connection that is left;
  \<open>resolve\<close> is \<^verbatim>\<open>net.ResolveUDPAddr\<close>.
\<close>

definition dialed_local :: "(string \<Rightarrow> string option) \<Rightarrow> dialed \<Rightarrow> string option" where
  "dialed_local resolve dl =
     udp_address resolve (map_option (\<lambda>e. if ep_network e = ''udp'' then UdpAddress (ep_address e) else DescribedAddress (ep_address e)) (dl_local dl))"

definition next_plan :: "(string \<Rightarrow> string option) \<Rightarrow> 'n hop_plan \<Rightarrow> string \<Rightarrow> 'n hop_plan" where
  "next_plan resolve p target =
     \<lparr>pn_hop = pn_hop p + 1, pn_target = target, pn_downstream = connection_name ''downstream'' (pn_hop p + 1),
      pn_upstream = connection_name ''upstream'' (pn_hop p + 1),
      pn_local = (case pn_slot p of SlotDone dl _ \<Rightarrow> dialed_local resolve dl | _ \<Rightarrow> None),
      pn_guid = (case pn_slot p of SlotDone dl _ \<Rightarrow> (case dl_guid dl of Some g \<Rightarrow> g | None \<Rightarrow> 0) | _ \<Rightarrow> 0),
      pn_network = None, pn_address = [], pn_probed = False, pn_barrier = BarrierUp, pn_slot = SlotFree\<rparr>"

definition names_of :: "'n hop_plan \<Rightarrow> hop_names" where
  "names_of p = \<lparr>hn_hop = pn_hop p, hn_target = pn_target p, hn_downstream = pn_downstream p, hn_upstream = pn_upstream p\<rparr>"

section \<open>Dialling for a login\<close>

datatype 'n transport = ConfiguredTransport | ChosenNetwork 'n | DatagramTransport "string option" int

definition transfer_route :: "'n hop_plan \<Rightarrow> bool" where
  "transfer_route p = (pn_hop p > 1 \<or> pn_local p \<noteq> None \<or> pn_guid p \<noteq> 0)"

definition plan_transport :: "'n hop_plan \<Rightarrow> 'n transport \<times> string" where
  "plan_transport p =
     (if transfer_route p
      then case pn_network p of
             Some n \<Rightarrow> (ChosenNetwork n, pn_address p)
           | None \<Rightarrow> (DatagramTransport (pn_local p) (pn_guid p), pn_target p)
      else (ConfiguredTransport, pn_target p))"

definition plan_order :: "bool \<Rightarrow> 'n hop_plan \<Rightarrow> connect_order" where
  "plan_order client_cache p =
     \<lparr>cn_target = snd (plan_transport p), cn_connection = pn_upstream p, cn_hop = pn_hop p, cn_client_cache = client_cache,
      cn_transfer_route = transfer_route p, cn_prepare_downstream = True, cn_exchange_only = False\<rparr>"

record 'n dial_note =
  dn_hop :: int
  dn_target :: string
  dn_transport :: "'n transport"

definition note_of :: "'n hop_plan \<Rightarrow> 'n dial_note" where
  "note_of p = \<lparr>dn_hop = pn_hop p, dn_target = snd (plan_transport p), dn_transport = fst (plan_transport p)\<rparr>"

section \<open>Preparing a route\<close>

text \<open>
  \<^verbatim>\<open>prepareTransferHop\<close> with its effects: \<open>pp_connect\<close> is the classification of an endpoint and \<open>pp_ping\<close>
  \<^verbatim>\<open>Network.PingContext\<close> with what it records.
\<close>

record ('r, 'n) prepare_world =
  pp_connect :: "string \<Rightarrow> 'n option"
  pp_chosen_json :: "string \<Rightarrow> string + string option"
  pp_probe_json :: "route_probe \<Rightarrow> string + string option"
  pp_ping :: "string \<Rightarrow> 'r bridge \<Rightarrow> net_error option \<times> 'r bridge"
  pp_text :: "joined \<Rightarrow> string"
  pp_now :: "nat \<Rightarrow> instant"

definition prepare_plan :: "'r runner \<Rightarrow> ('r, 'n) prepare_world \<Rightarrow> 'n hop_plan \<Rightarrow> 'r bridge \<Rightarrow> string option \<times> 'n hop_plan \<times> 'r bridge" where
  "prepare_plan ru pp p b =
     (case transfer_https_nethernet (pp_connect pp) (pn_target p) of
        Some (network, address) \<Rightarrow>
          (let p = p\<lparr>pn_network := Some network, pn_address := address, pn_probed := True\<rparr>
           in case record_at_hop ru ''transfer.route_probe'' SeverityInfo (pp_chosen_json pp (pn_target p)) (pn_hop p) b of
                (Some e, b1) \<Rightarrow> (Some e, p, set_failure (Some e) b1)
              | (None, b1) \<Rightarrow> (None, p, live_do (live_info (pp_now pp 0) (''Transfer route selected HTTPS NetherNet - '' @ address)) b1))
      | None \<Rightarrow>
          if pn_local p = None then (None, p, b)
          else case pp_ping pp (pn_target p) b of
            (err, b1) \<Rightarrow>
              (case probe_route ru (pp_probe_json pp) (pp_now pp 0) (pn_hop p) (pn_target p) (pn_local p) (pn_guid p) err b1 of
                 (j, b2) \<Rightarrow>
                   (None, p\<lparr>pn_probed := True\<rparr>,
                    if j = no_error then b2 else live_do (live_info (pp_now pp 1) (''Transfer route probe failed - '' @ pp_text pp j)) b2)))"

section \<open>State of a run\<close>

datatype run_result = RunOver | RunCapture string | RunAcceptFailed net_error | RunWrongConnection | RunSlotFailed slot_failure
  | RunNoUpstream | RunHopLimit string | RunRecord string | RunHopFailed hop_error | RunUnfollowed transfer_done | RunPanic

text \<open>\<open>InHop\<close> holds the hop's plan and client; the two waits after a followed transfer keep the client that leaves.\<close>

datatype ('r, 'n) run_phase = AtTop | AtAccept | InHop "'n hop_plan" nat "'r hop" | InGrace nat | AtSlot | RunEnded run_result

text \<open>
  A link is a client's context with the generation that \<^verbatim>\<open>Set\<close> gave it. \<open>rn_followed\<close> keeps the transfers
  that were followed, \<open>rn_dials\<close> the dials and \<open>rn_changes\<close> counts the generations; the code has no such
  members.
\<close>

record ('r, 'n) run =
  rn_bridge :: "'r bridge"
  rn_phase :: "('r, 'n) run_phase"
  rn_context :: connection_context
  rn_links :: "(nat \<times> u64) list"
  rn_unsent :: "(nat \<times> u64) list"
  rn_gone :: "nat set"
  rn_channel :: "u64 option"
  rn_current :: "'n hop_plan"
  rn_pending :: "'n hop_plan option"
  rn_cancelled :: bool
  rn_followed :: "transfer_done list"
  rn_dials :: "'n dial_note list"
  rn_changes :: nat

definition accept_plan :: "('r, 'n) run \<Rightarrow> 'n hop_plan" where
  "accept_plan s = (case rn_pending s of Some p \<Rightarrow> p | None \<Rightarrow> rn_current s)"

definition put_plan :: "'n hop_plan \<Rightarrow> ('r, 'n) run \<Rightarrow> ('r, 'n) run" where
  "put_plan p s = (case rn_pending s of Some _ \<Rightarrow> s\<lparr>rn_pending := Some p\<rparr> | None \<Rightarrow> s\<lparr>rn_current := p\<rparr>)"

definition promote_pending :: "('r, 'n) run \<Rightarrow> ('r, 'n) run" where
  "promote_pending s = (case rn_pending s of Some p \<Rightarrow> s\<lparr>rn_current := p, rn_pending := None\<rparr> | None \<Rightarrow> s)"

text \<open>The bridge is the hop's while one runs. The first failure of the sink cancels the run.\<close>

definition run_bridge :: "('r, 'n) run \<Rightarrow> 'r bridge" where
  "run_bridge s = (case rn_phase s of InHop p c h \<Rightarrow> hp_bridge h | _ \<Rightarrow> rn_bridge s)"

definition put_bridge :: "'r bridge \<Rightarrow> ('r, 'n) run \<Rightarrow> ('r, 'n) run" where
  "put_bridge b s =
     (let s = (case rn_phase s of InHop p c h \<Rightarrow> s\<lparr>rn_phase := InHop p c (h\<lparr>hp_bridge := b\<rparr>)\<rparr> | _ \<Rightarrow> s\<lparr>rn_bridge := b\<rparr>)
      in s\<lparr>rn_cancelled := (rn_cancelled s \<or> fs_err (bg_failures b) \<noteq> None)\<rparr>)"

definition end_run :: "run_result \<Rightarrow> ('r, 'n) run \<Rightarrow> ('r, 'n) run" where
  "end_run r s = s\<lparr>rn_phase := RunEnded r\<rparr>"

definition change_context :: "connection_context \<Rightarrow> ('r, 'n) run \<Rightarrow> ('r, 'n) run" where
  "change_context t s = s\<lparr>rn_context := t, rn_changes := rn_changes s + 1\<rparr>"

definition forget_client :: "('r, 'n) run \<Rightarrow> ('r, 'n) run" where
  "forget_client s = change_context (clear_context (rn_context s)) s"

definition ended :: "('r, 'n) run \<Rightarrow> bool" where
  "ended s = (case rn_phase s of RunEnded _ \<Rightarrow> True | _ \<Rightarrow> False)"

text \<open>The tracked client has left.\<close>

definition client_gone :: "('r, 'n) run \<Rightarrow> bool" where
  "client_gone s = (case tc_context (rn_context s) of Some c \<Rightarrow> c \<in> rn_gone s | None \<Rightarrow> False)"

text \<open>What a hook of the run does besides recording: nothing that the hop keeps track of.\<close>

definition records_only :: "('r \<Rightarrow> 'r \<Rightarrow> bool) \<Rightarrow> 'r bridge \<Rightarrow> 'r bridge \<Rightarrow> bool" where
  "records_only others b b' =
     (others (bg_recorder b) (bg_recorder b') \<and> bg_sent b' = bg_sent b \<and> bg_targets b' = bg_targets b \<and> bg_trace b' = bg_trace b
      \<and> bg_acquired b' = bg_acquired b \<and> bg_released b' = bg_released b)"

section \<open>The loop\<close>

text \<open>An accepted client: its slot says whether the hop starts.\<close>

definition new_hop :: "'r bridge \<Rightarrow> 'r bridge" where
  "new_hop b = b\<lparr>bg_shutting := False, bg_sent := [], bg_targets := [], bg_trace := [], bg_acquired := 0, bg_released := 0\<rparr>"

definition begin_hop :: "'r runner \<Rightarrow> hop_world \<Rightarrow> nat \<Rightarrow> ('r, 'n) run \<Rightarrow> ('r, 'n) run" where
  "begin_hop ru hw c s =
     (let p = accept_plan s
      in case pn_slot p of
           SlotFailed f \<Rightarrow> end_run (RunSlotFailed f) s
         | SlotFree \<Rightarrow> end_run RunNoUpstream s
         | SlotDone dl packs \<Rightarrow>
             (case start_hop ru hw (names_of p) (new_hop (run_bridge s)) of
                (Inl e, b) \<Rightarrow> end_run (RunHopFailed e) (put_bridge b s)
              | (Inr _, b) \<Rightarrow> (put_bridge b s)\<lparr>rn_phase := InHop p c (start_loops b)\<rparr>))"

text \<open>The call of \<^verbatim>\<open>onTransfer\<close> for a target that the hop announced.\<close>

definition announce :: "(string \<Rightarrow> string option) \<Rightarrow> 'n hop_plan \<Rightarrow> 'r hop \<Rightarrow> 'r hop \<Rightarrow> 'n hop_plan option \<Rightarrow> 'n hop_plan option" where
  "announce resolve p h h' pending =
     (if bg_targets (hp_bridge h') = bg_targets (hp_bridge h) then pending else Some (next_plan resolve p (last (bg_targets (hp_bridge h')))))"

text \<open>What the loop does with the result of a hop.\<close>

definition follow_transfer :: "'r runner \<Rightarrow> ('r, 'n) prepare_world \<Rightarrow> nat \<Rightarrow> int \<Rightarrow> transfer_done \<Rightarrow> ('r, 'n) run \<Rightarrow> ('r, 'n) run" where
  "follow_transfer ru pp c hop t s =
     (if hop \<ge> max_followed_hops then end_run (RunHopLimit (td_target t)) s
      else case rn_pending s of
        None \<Rightarrow> end_run RunPanic s
      | Some q \<Rightarrow>
          (case prepare_plan ru pp q (run_bridge s) of
             (Some e, q1, b) \<Rightarrow> end_run (RunRecord e) (put_bridge b s)
           | (None, q1, b) \<Rightarrow>
               (put_bridge (live_do (live_info (pp_now pp 2) (''Following transfer to '' @ td_target t @ ''; waiting for the client to reconnect'')) b) s)
                 \<lparr>rn_pending := Some (q1\<lparr>pn_barrier := BarrierDown\<rparr>), rn_followed := rn_followed s @ [t], rn_phase := InGrace c\<rparr>))"

definition after_hop :: "'r runner \<Rightarrow> ('r, 'n) prepare_world \<Rightarrow> nat \<Rightarrow> 'n hop_plan \<Rightarrow> hop_result \<Rightarrow> ('r, 'n) run \<Rightarrow> ('r, 'n) run" where
  "after_hop ru pp c p res s =
     (case res of
        HopTransfer t \<Rightarrow> if ru_follow ru then follow_transfer ru pp c (pn_hop p) t s else end_run (RunUnfollowed t) s
      | HopFailed e \<Rightarrow> end_run (RunHopFailed e) s
      | HopEnded \<Rightarrow> end_run RunOver s)"

definition accept_failure :: "('r, 'n) run \<Rightarrow> net_error \<Rightarrow> run_result" where
  "accept_failure s e =
     (case fs_err (bg_failures (run_bridge s)) of
        Some f \<Rightarrow> RunCapture f
      | None \<Rightarrow> if rn_cancelled s then RunOver else RunAcceptFailed e)"

section \<open>Steps\<close>

text \<open>
  What stays the same in a run: the runner, how a described address resolves, the address that a client dialled
  and that of the listener, and what the other writers do to the recorder.
\<close>

record 'r run_env =
  re_runner :: "'r runner"
  re_resolve :: "string \<Rightarrow> string option"
  re_server_address :: "nat \<Rightarrow> string"
  re_listener :: string
  re_others :: "'r \<Rightarrow> 'r \<Rightarrow> bool"

definition plan_lanes :: "'r run_env \<Rightarrow> 'n hop_plan \<Rightarrow> nat \<Rightarrow> hop_side \<Rightarrow> lane" where
  "plan_lanes re p c = hop_lanes (names_of p) (re_server_address re c) (re_listener re)"

text \<open>
  First the clients and the hooks, then the loop: it drains the notices, waits for a client, runs its hop and,
  after a followed transfer, waits for the client to leave and for the listener's slot. A notice that finds
  the channel full is dropped.
\<close>

inductive run_step :: "'r run_env \<Rightarrow> ('r, 'n) run \<Rightarrow> ('r, 'n) run \<Rightarrow> bool"
  for re :: "'r run_env" where
  client_opens: "\<not> ended s \<Longrightarrow> c \<notin> fst ` set (rn_links s) \<Longrightarrow> set_context (Some c) (rn_context s) = (t, g) \<Longrightarrow>
     run_step re s ((change_context t s)\<lparr>rn_links := rn_links s @ [(c, g)], rn_unsent := rn_unsent s @ [(c, g)]\<rparr>)"
| client_leaves: "\<not> ended s \<Longrightarrow> c \<in> fst ` set (rn_links s) \<Longrightarrow> run_step re s (s\<lparr>rn_gone := insert c (rn_gone s)\<rparr>)"
| notice: "\<not> ended s \<Longrightarrow> (c, g) \<in> set (rn_unsent s) \<Longrightarrow> c \<in> rn_gone s \<Longrightarrow>
     run_step re s (s\<lparr>rn_unsent := remove1 (c, g) (rn_unsent s), rn_channel := (case rn_channel s of None \<Rightarrow> Some g | Some x \<Rightarrow> Some x)\<rparr>)"
| cancels: "run_step re s (s\<lparr>rn_cancelled := True\<rparr>)"
| others: "\<not> ended s \<Longrightarrow> records_only (re_others re) (run_bridge s) b \<Longrightarrow> run_step re s (put_bridge b s)"
| fetches: "\<not> ended s \<Longrightarrow> accept_plan s = p \<Longrightarrow> pn_slot p = SlotFree \<Longrightarrow> pn_barrier p \<noteq> BarrierUp \<Longrightarrow>
     connect_upstream (re_runner re) cw False (plan_order cache p) (run_bridge s) = (res, b) \<Longrightarrow> records_only (re_others re) (run_bridge s) b \<Longrightarrow>
     run_step re s ((put_bridge b (put_plan (p\<lparr>pn_slot := (case res of Inl e \<Rightarrow> SlotFailed (SlotConnect e) | Inr (dl, packs) \<Rightarrow> SlotDone dl packs)\<rparr>) s))
       \<lparr>rn_dials := rn_dials s @ [note_of p]\<rparr>)"
| fetch_canceled: "\<not> ended s \<Longrightarrow> accept_plan s = p \<Longrightarrow> pn_slot p = SlotFree \<Longrightarrow> pn_barrier p = BarrierUp \<Longrightarrow>
     linked_canceled (rn_cancelled s) (rn_gone s) (lifecycle_context (rn_context s) own) \<Longrightarrow>
     run_step re s (put_plan (p\<lparr>pn_slot := SlotFailed SlotCanceled\<rparr>) s)"
| drain_stale: "rn_phase s = AtTop \<Longrightarrow> rn_channel s = Some g \<Longrightarrow> g \<noteq> tc_generation (rn_context s) \<or> \<not> client_gone s \<Longrightarrow>
     run_step re s (s\<lparr>rn_channel := None\<rparr>)"
| drain_gone: "rn_phase s = AtTop \<Longrightarrow> rn_channel s = Some g \<Longrightarrow> g = tc_generation (rn_context s) \<Longrightarrow> client_gone s \<Longrightarrow>
     run_step re s (end_run RunOver (forget_client (s\<lparr>rn_channel := None\<rparr>)))"
| top_gone: "rn_phase s = AtTop \<Longrightarrow> rn_channel s = None \<Longrightarrow> client_gone s \<Longrightarrow> run_step re s (end_run RunOver (forget_client s))"
| waits: "rn_phase s = AtTop \<Longrightarrow> rn_channel s = None \<Longrightarrow> \<not> client_gone s \<Longrightarrow>
     run_step re s ((put_bridge (live_do (live_set_hop now (pn_hop (accept_plan s))) (run_bridge s)) s)\<lparr>rn_phase := AtAccept\<rparr>)"
| accept_stale: "rn_phase s = AtAccept \<Longrightarrow> rn_channel s = Some g \<Longrightarrow> g \<noteq> tc_generation (rn_context s) \<or> tc_context (rn_context s) = None \<Longrightarrow>
     run_step re s (s\<lparr>rn_channel := None\<rparr>)"
| accept_gone: "rn_phase s = AtAccept \<Longrightarrow> rn_channel s = Some g \<Longrightarrow> g = tc_generation (rn_context s) \<Longrightarrow> tc_context (rn_context s) \<noteq> None \<Longrightarrow>
     run_step re s (end_run RunOver (forget_client (s\<lparr>rn_channel := None\<rparr>)))"
| accept_cancelled: "rn_phase s = AtAccept \<Longrightarrow> rn_cancelled s \<Longrightarrow> run_step re s (end_run RunOver s)"
| accept_fails: "rn_phase s = AtAccept \<Longrightarrow> run_step re s (end_run (accept_failure s e) s)"
| accept_wrong: "rn_phase s = AtAccept \<Longrightarrow> run_step re s (end_run RunWrongConnection s)"
| accepts: "rn_phase s = AtAccept \<Longrightarrow> c \<in> fst ` set (rn_links s) \<Longrightarrow>
     run_step re s (begin_hop (re_runner re) hw c (forget_client (put_bridge (live_do (live_info now greeting) (run_bridge s)) s)))"
| hop_goes: "rn_phase s = InHop p c h \<Longrightarrow> hop_step (re_runner re) (plan_lanes re p c) (re_others re) h h' \<Longrightarrow>
     run_step re s ((put_bridge (hp_bridge h') (s\<lparr>rn_phase := InHop p c h'\<rparr>))\<lparr>rn_pending := announce (re_resolve re) p h h' (rn_pending s)\<rparr>)"
| hop_ends: "rn_phase s = InHop p c h \<Longrightarrow> map snd (hp_results h) = [first, second] \<Longrightarrow>
     finish_hop (re_runner re) clw (names_of p) first second (hp_bridge h) = (keep, res, b) \<Longrightarrow>
     run_step re s (after_hop (re_runner re) pp c p res (put_bridge b (s\<lparr>rn_phase := AtSlot\<rparr>)))"
| grace_ends: "rn_phase s = InGrace c \<Longrightarrow> run_step re s ((promote_pending s)\<lparr>rn_phase := AtSlot\<rparr>)"
| grace_cancelled: "rn_phase s = InGrace c \<Longrightarrow> rn_cancelled s \<Longrightarrow> run_step re s (end_run RunOver s)"
| slot_ready: "rn_phase s = AtSlot \<Longrightarrow> run_step re s (s\<lparr>rn_phase := AtTop\<rparr>)"
| slot_cancelled: "rn_phase s = AtSlot \<Longrightarrow> rn_cancelled s \<Longrightarrow> run_step re s (end_run RunOver s)"

section \<open>The beginning\<close>

datatype begin_failure = BeginPacksOnly | BeginRecord string | BeginListen net_error

record begin_world =
  bw_start_json :: "string + string option"
  bw_listening_json :: "string + string option"
  bw_listen :: "net_error option"

definition new_run :: "string \<Rightarrow> 'r bridge \<Rightarrow> ('r, 'n) run" where
  "new_run target b =
     \<lparr>rn_bridge = b, rn_phase = AtTop, rn_context = \<lparr>tc_context = None, tc_generation = 0\<rparr>, rn_links = [], rn_unsent = [], rn_gone = {},
      rn_channel = None, rn_current = first_plan target, rn_pending = None, rn_cancelled = False, rn_followed = [], rn_dials = [], rn_changes = 0\<rparr>"

definition begin_run :: "'r runner \<Rightarrow> config \<Rightarrow> begin_world \<Rightarrow> 'r bridge \<Rightarrow> begin_failure + ('r, 'n) run" where
  "begin_run ru cfg bw b =
     (if cfg_packs_only cfg then Inl BeginPacksOnly
      else case record_at_hop ru ''proxy.start'' SeverityInfo (bw_start_json bw) 1 b of
        (Some e, b1) \<Rightarrow> Inl (BeginRecord e)
      | (None, b1) \<Rightarrow>
          (case bw_listen bw of
             Some e \<Rightarrow> Inl (BeginListen e)
           | None \<Rightarrow>
               (case record_at_hop ru ''proxy.listening'' SeverityInfo (bw_listening_json bw) 1 b1 of
                  (Some e, b2) \<Rightarrow> Inl (BeginRecord e)
                | (None, b2) \<Rightarrow> Inr (new_run (cfg_upstream cfg) b2))))"

section \<open>Resource packs only\<close>

text \<open>
  \<^verbatim>\<open>RunPacksOnly\<close>: the login and the exchange of the packs, without a listener and without a world.
\<close>

datatype packs_failure = PacksDisabled | PacksRecord string | PacksConnect connect_error | PacksDuring string | PacksAfter string

record 'r packs_world =
  px_start_json :: "string + string option"
  px_connect :: "'r connect_world"
  px_metadata :: go_value
  px_game :: go_value
  px_complete_json :: "nat \<Rightarrow> string + string option"
  px_close_json :: "nat \<Rightarrow> net_error option \<Rightarrow> string + string option"
  px_now :: instant

definition packs_order :: "string \<Rightarrow> connect_order" where
  "packs_order target =
     \<lparr>cn_target = target, cn_connection = ''upstream-1'', cn_hop = 1, cn_client_cache = False, cn_transfer_route = False,
      cn_prepare_downstream = False, cn_exchange_only = True\<rparr>"

definition packs_game_annotation :: string where
  "packs_game_annotation = ''This is a bounded GameData view exposed by gophertunnel; collections may be truncated and exact startup packets remain in packet.raw''"

definition packs_names :: "string \<Rightarrow> hop_names" where
  "packs_names target = \<lparr>hn_hop = 1, hn_target = target, hn_downstream = ''downstream-1'', hn_upstream = ''upstream-1''\<rparr>"

text \<open>A failed record ends the exchange; otherwise it goes on with the next state.\<close>

fun then_packs :: "string option \<times> 'r bridge \<Rightarrow> ('r bridge \<Rightarrow> packs_failure option \<times> 'r bridge) \<Rightarrow> packs_failure option \<times> 'r bridge" where
  "then_packs (Some e, b) f = (Some (PacksRecord e), b)"
| "then_packs (None, b) f = f b"

definition exchange_text :: "nat \<Rightarrow> string" where
  "exchange_text n = ''Resource-pack exchange complete - '' @ itoa n @ '' archives retained; no world spawn was requested''"

definition exchange_packs :: "'r runner \<Rightarrow> 'r packs_world \<Rightarrow> string \<Rightarrow> nat \<Rightarrow> 'r bridge \<Rightarrow> packs_failure option \<times> 'r bridge" where
  "exchange_packs ru px target packs b =
     (case fs_err (bg_failures b) of
        Some e \<Rightarrow> (Some (PacksDuring e), b)
      | None \<Rightarrow>
          then_packs (record_view_at_hop ru (metadata_place (packs_names target) ''upstream-1'' ''upstream'') (px_metadata px) b) (\<lambda>b.
          then_packs (record_view_at_hop ru ((game_place (packs_names target))\<lparr>vp_annotations := [packs_game_annotation]\<rparr>) (px_game px) b) (\<lambda>b.
          then_packs (record_at_hop ru ''resource_pack.fetch_complete'' SeverityInfo (px_complete_json px packs) 1 b) (\<lambda>b.
            case fs_err (bg_failures b) of
              Some e \<Rightarrow> (Some (PacksAfter e), b)
            | None \<Rightarrow> (None, live_do (live_info (px_now px) (exchange_text packs)) b)))))"

text \<open>The deferred end: the connection is closed, and its end recorded with the severity of the joined error.\<close>

definition close_packs :: "'r runner \<Rightarrow> 'r packs_world \<Rightarrow> dialed \<Rightarrow> nat \<Rightarrow> packs_failure option \<times> 'r bridge \<Rightarrow>
    (packs_failure option \<times> net_error option \<times> string option) \<times> 'r bridge" where
  "close_packs ru px dl packs x =
     (case x of
        (err, b) \<Rightarrow>
          (case record_at_hop ru ''session.close'' (if err = None \<and> dl_close dl = None then SeverityInfo else SeverityWarn) (px_close_json px packs (dl_close dl)) 1 b of
             (captured, b1) \<Rightarrow> ((err, dl_close dl, captured), b1)))"

definition run_packs_only :: "'r runner \<Rightarrow> config \<Rightarrow> 'r packs_world \<Rightarrow> 'r bridge \<Rightarrow> (packs_failure option \<times> net_error option \<times> string option) \<times> 'r bridge" where
  "run_packs_only ru cfg px b =
     (if \<not> cfg_packs_only cfg then ((Some PacksDisabled, None, None), b)
      else case record_at_hop ru ''proxy.start'' SeverityInfo (px_start_json px) 1 b of
        (Some e, b1) \<Rightarrow> ((Some (PacksRecord e), None, None), b1)
      | (None, b1) \<Rightarrow>
          (case connect_upstream ru (px_connect px) False (packs_order (cfg_upstream cfg)) b1 of
             (Inl e, b2) \<Rightarrow> ((Some (PacksConnect e), None, None), b2)
           | (Inr (dl, packs), b2) \<Rightarrow> close_packs ru px dl (length packs) (exchange_packs ru px (cfg_upstream cfg) (length packs) b2)))"

end
