(* ===== verification/Pack_Record_Theorems.thy ===== *)
theory Pack_Record_Theorems
  imports Pack_Record "HOL-Library.Sublist"
begin

text \<open>
  What recording a connection's resource packs hands to the recorder, whatever the recorder answers: a
  recorder that keeps the calls and answers from a table stands for any behaviour of it.
\<close>

datatype sink_call = ReaderCall event bytes string | RecordCall capture_record | LimitCall string

record sink_answers =
  an_event :: "nat \<Rightarrow> string + event"
  an_limit :: "nat \<Rightarrow> string + unit"

definition logging :: "sink_answers \<Rightarrow> sink_call list sink" where
  "logging an =
     \<lparr>sk_reader = (\<lambda>e b n media repr log. (an_event an (length log), log @ [ReaderCall e b repr])),
      sk_record = (\<lambda>rc log. (an_event an (length log), log @ [RecordCall rc])),
      sk_limit = (\<lambda>s log. (an_limit an (length log), log @ [LimitCall s]))\<rparr>"

section \<open>What should be recorded\<close>

definition manifest_call :: "pack_origin \<Rightarrow> pack_world \<Rightarrow> resource_pack \<Rightarrow> u64 \<Rightarrow> contents_manifest \<Rightarrow> sink_call" where
  "manifest_call po w p parent m =
     RecordCall \<lparr>rc_event = manifest_event po parent (the (pw_derived_json w (derived_of p (ct_path (cm_summary m)) (SummaryReport (cm_summary m))))),
       rc_raw = Some (cm_plaintext m), rc_media_type = ''application/json'',
       rc_representation = ''minecraft_resource_pack_decrypted_contents_manifest''\<rparr>"

definition failure_calls :: "pack_origin \<Rightarrow> pack_world \<Rightarrow> resource_pack \<Rightarrow> u64 \<Rightarrow> go_error \<Rightarrow> sink_call list" where
  "failure_calls po w p parent err =
     [LimitCall (limitation_text p),
      RecordCall \<lparr>rc_event = failure_event po parent (the (pw_derived_json w (derived_of p [] NoReport))) err, rc_raw = None,
        rc_media_type = [], rc_representation = []\<rparr>]"

definition derived_calls :: "pack_origin \<Rightarrow> pack_world \<Rightarrow> resource_pack \<Rightarrow> u64 \<Rightarrow> sink_call list" where
  "derived_calls po w p parent =
     (case pw_temp_error w of
        Some e \<Rightarrow> failure_calls po w p parent e
      | None \<Rightarrow>
          (case decrypt_to_file w p of
             Inl None \<Rightarrow> []
           | Inl (Some e) \<Rightarrow> failure_calls po w p parent e
           | Inr (result, archive) \<Rightarrow>
               map (manifest_call po w p parent) (rs_manifests result)
               @ [ReaderCall (decrypted_event po parent (the (pw_derived_json w (derived_of p [] (ArchiveReport (rs_report result))))))
                    archive ''minecraft_resource_pack_decrypted_archive'']))"

definition pack_calls :: "decrypt_options \<Rightarrow> pack_origin \<Rightarrow> nat \<Rightarrow> nat \<Rightarrow> pack_world \<Rightarrow> resource_pack \<Rightarrow> u64 \<Rightarrow> sink_call list" where
  "pack_calls opts po i n w p parent =
     ReaderCall (archive_event po (the (pw_pack_json w (describe_pack i n p)))) (pk_archive p) ''minecraft_resource_pack_archive''
     # (if pk_encrypted p \<and> do_decrypt opts then derived_calls po w p parent else [])"

section \<open>One pack\<close>

lemma failure_recorded:
  assumes "record_decrypt_failure (logging an) po w p parent err log = (res, log')"
  shows "\<exists>part. log' = log @ part \<and> prefix part (failure_calls po w p parent err) \<and> (res = Inr () \<longrightarrow> part = failure_calls po w p parent err)"
  using assms
  by (auto simp: record_decrypt_failure_def logging_def failure_calls_def split: sum.splits option.splits)

lemma manifests_recorded:
  assumes "record_manifests (logging an) po w p parent ms log = (res, log')"
  shows "\<exists>part. log' = log @ part \<and> prefix part (map (manifest_call po w p parent) ms)
    \<and> (res = Inr () \<longrightarrow> part = map (manifest_call po w p parent) ms)"
  using assms
proof (induction ms arbitrary: log)
  case (Cons m ms)
  show ?case
  proof (cases "pw_derived_json w (derived_of p (ct_path (cm_summary m)) (SummaryReport (cm_summary m)))")
    case None
    then show ?thesis using Cons.prems by auto
  next
    case (Some data)
    let ?c = "manifest_call po w p parent m"
    show ?thesis
    proof (cases "an_event an (length log)")
      case (Inl e)
      then have "log' = log @ [?c]" "res \<noteq> Inr ()" using Cons.prems Some by (auto simp: logging_def manifest_call_def)
      then show ?thesis by simp
    next
      case (Inr e)
      then have "record_manifests (logging an) po w p parent ms (log @ [?c]) = (res, log')"
        using Cons.prems Some by (simp add: logging_def manifest_call_def)
      from Cons.IH [OF this] show ?thesis by (auto intro: exI [of _ "?c # _"])
    qed
  qed
qed simp

lemma derived_recorded:
  assumes "record_decrypted_pack (logging an) po w p parent log = (res, log')"
  shows "\<exists>part. log' = log @ part \<and> prefix part (derived_calls po w p parent) \<and> (res = Inr () \<longrightarrow> part = derived_calls po w p parent)"
proof (cases "pw_temp_error w")
  case (Some e)
  then show ?thesis using assms failure_recorded by (simp add: record_decrypted_pack_def derived_calls_def)
next
  case None
  show ?thesis
  proof (cases "decrypt_to_file w p")
    case (Inl x)
    then show ?thesis using assms None failure_recorded
      by (cases x) (auto simp: record_decrypted_pack_def derived_calls_def)
  next
    case (Inr y)
    obtain result archive where y: "y = (result, archive)" by (cases y)
    obtain r1 log1 where m: "record_manifests (logging an) po w p parent (rs_manifests result) log = (r1, log1)"
      by (cases "record_manifests (logging an) po w p parent (rs_manifests result) log")
    obtain part where part: "log1 = log @ part" "prefix part (map (manifest_call po w p parent) (rs_manifests result))"
        "r1 = Inr () \<longrightarrow> part = map (manifest_call po w p parent) (rs_manifests result)"
      using manifests_recorded [OF m] by blast
    let ?last = "ReaderCall (decrypted_event po parent (the (pw_derived_json w (derived_of p [] (ArchiveReport (rs_report result))))))
                    archive ''minecraft_resource_pack_decrypted_archive''"
    have d: "derived_calls po w p parent = map (manifest_call po w p parent) (rs_manifests result) @ [?last]"
      using None Inr y by (simp add: derived_calls_def)
    show ?thesis
    proof (cases r1)
      case (Inl e)
      then have "log' = log1" "res \<noteq> Inr ()" using assms None Inr y m by (auto simp: record_decrypted_pack_def)
      then show ?thesis using part d by (auto simp: prefix_append)
    next
      case Inr1: (Inr u)
      then have full: "part = map (manifest_call po w p parent) (rs_manifests result)" using part(3) by simp
      have "(log' = log1 \<and> res \<noteq> Inr ()) \<or> log' = log1 @ [?last]"
        using assms None Inr y m Inr1 by (auto simp: record_decrypted_pack_def logging_def split: if_splits option.splits sum.splits)
      then show ?thesis using part(1) full d by (auto simp: prefix_append)
    qed
  qed
qed

lemma pack_recorded:
  assumes "record_pack (logging an) opts po i n w (Some p) log = (res, log')"
  shows "\<exists>part. log' = log @ part \<and> (\<exists>seq. prefix part (pack_calls opts po i n w p seq))
    \<and> (res = Inr () \<longrightarrow> (\<exists>e b. an_event an (length log) = Inr e \<and> ev_blob e = Some b \<and> br_sha256 b = hex_string (pk_checksum p)
         \<and> part = pack_calls opts po i n w p (ev_sequence e)))"
proof (cases "pw_pack_json w (describe_pack i n p)")
  case None
  then show ?thesis using assms by (auto simp: record_pack_def)
next
  case (Some data)
  let ?c = "ReaderCall (archive_event po data) (pk_archive p) ''minecraft_resource_pack_archive''"
  have c: "pack_calls opts po i n w p seq = ?c # (if pk_encrypted p \<and> do_decrypt opts then derived_calls po w p seq else [])" for seq
    using Some by (simp add: pack_calls_def)
  show ?thesis
  proof (cases "an_event an (length log)")
    case (Inl e)
    then have "log' = log @ [?c]" "res \<noteq> Inr ()" using assms Some by (auto simp: record_pack_def logging_def)
    then show ?thesis by (auto simp: c)
  next
    case (Inr e)
    show ?thesis
    proof (cases "case ev_blob e of None \<Rightarrow> True | Some b \<Rightarrow> br_sha256 b \<noteq> hex_string (pk_checksum p)")
      case True
      then have "log' = log @ [?c]" "res \<noteq> Inr ()" using assms Some Inr by (auto simp: record_pack_def logging_def)
      then show ?thesis by (auto simp: c)
    next
      case False
      then obtain b where b: "ev_blob e = Some b" "br_sha256 b = hex_string (pk_checksum p)" by (auto split: option.splits)
      show ?thesis
      proof (cases "pk_encrypted p \<and> do_decrypt opts")
        case True
        then have "record_decrypted_pack (logging an) po w p (ev_sequence e) (log @ [?c]) = (res, log')"
          using assms Some Inr b by (simp add: record_pack_def logging_def)
        then obtain part where "log' = (log @ [?c]) @ part" "prefix part (derived_calls po w p (ev_sequence e))"
            "res = Inr () \<longrightarrow> part = derived_calls po w p (ev_sequence e)"
          using derived_recorded by blast
        then show ?thesis using True b Inr
          by (intro exI [of _ "?c # part"]) (auto simp: c intro: exI [of _ "ev_sequence e"])
      next
        case False
        then have "log' = log @ [?c]" using assms Some Inr b by (auto simp: record_pack_def logging_def)
        then show ?thesis using False b Inr by (auto simp: c)
      qed
    qed
  qed
qed

section \<open>All packs\<close>

text \<open>
  The calls for the pack at position \<open>i\<close> when it was recorded in full after \<open>before\<close> calls: the archive call
  was answered by an event whose blob has the pack's checksum.
\<close>

definition recorded_in_full :: "sink_answers \<Rightarrow> decrypt_options \<Rightarrow> pack_origin \<Rightarrow> nat \<Rightarrow> nat \<Rightarrow> nat \<Rightarrow> pack_world \<times> resource_pack option \<Rightarrow>
    sink_call list \<Rightarrow> bool" where
  "recorded_in_full an opts po before i n wp calls =
     (case wp of
        (w, None) \<Rightarrow> False
      | (w, Some p) \<Rightarrow> (\<exists>e b. an_event an before = Inr e \<and> ev_blob e = Some b \<and> br_sha256 b = hex_string (pk_checksum p)
           \<and> calls = pack_calls opts po i n w p (ev_sequence e)))"

definition recorded_in_part :: "decrypt_options \<Rightarrow> pack_origin \<Rightarrow> nat \<Rightarrow> nat \<Rightarrow> pack_world \<times> resource_pack option \<Rightarrow> sink_call list \<Rightarrow> bool" where
  "recorded_in_part opts po i n wp calls =
     (case wp of (w, None) \<Rightarrow> calls = [] | (w, Some p) \<Rightarrow> (\<exists>seq. prefix calls (pack_calls opts po i n w p seq)))"

fun recorded_run :: "sink_answers \<Rightarrow> decrypt_options \<Rightarrow> pack_origin \<Rightarrow> nat \<Rightarrow> nat \<Rightarrow> nat \<Rightarrow> (pack_world \<times> resource_pack option) list \<Rightarrow>
    sink_call list list \<Rightarrow> bool" where
  "recorded_run an opts po before i n ps [] = True"
| "recorded_run an opts po before i n [] (g # gs) = False"
| "recorded_run an opts po before i n (wp # ps) (g # gs) =
     (recorded_in_full an opts po before i n wp g \<and> recorded_run an opts po (before + length g) (i + 1) n ps gs)"

lemma packs_recorded:
  assumes "record_packs_from (logging an) opts po i n ps log = (res, log')"
  shows "\<exists>groups part. log' = log @ concat groups @ part \<and> recorded_run an opts po (length log) i n ps groups
    \<and> (res = Inr () \<longrightarrow> length groups = length ps \<and> part = [])
    \<and> (res \<noteq> Inr () \<longrightarrow> length groups < length ps \<and> recorded_in_part opts po (i + length groups) n (ps ! length groups) part)"
  using assms
proof (induction ps arbitrary: i log)
  case Nil
  then show ?case by (intro exI [of _ "[]"]) auto
next
  case (Cons wp ps)
  obtain w pk where wp: "wp = (w, pk)" by (cases wp)
  obtain r1 log1 where r: "record_pack (logging an) opts po i n w pk log = (r1, log1)"
    by (cases "record_pack (logging an) opts po i n w pk log")
  show ?case
  proof (cases pk)
    case None
    then have "log' = log" "res \<noteq> Inr ()" using Cons.prems wp by (auto simp: record_pack_def)
    then show ?thesis using None wp by (intro exI [of _ "[]"] exI [of _ "[]"]) (simp add: recorded_in_part_def)
  next
    case (Some p)
    obtain part where part: "log1 = log @ part" "\<exists>seq. prefix part (pack_calls opts po i n w p seq)"
        "r1 = Inr () \<longrightarrow> (\<exists>e b. an_event an (length log) = Inr e \<and> ev_blob e = Some b \<and> br_sha256 b = hex_string (pk_checksum p)
         \<and> part = pack_calls opts po i n w p (ev_sequence e))"
      using pack_recorded [OF r [unfolded Some]] by blast
    show ?thesis
    proof (cases r1)
      case (Inl e)
      then have "log' = log @ part" "res \<noteq> Inr ()" using Cons.prems wp r part by auto
      then show ?thesis using part(2) Some wp
        by (intro exI [of _ "[]"] exI [of _ part]) (simp add: recorded_in_part_def)
    next
      case (Inr u)
      then have full: "recorded_in_full an opts po (length log) i n wp part" using part(3) Some wp by (simp add: recorded_in_full_def)
      have "record_packs_from (logging an) opts po (i + 1) n ps (log @ part) = (res, log')" using Cons.prems wp r Inr part(1) by simp
      from Cons.IH [OF this] obtain groups rest where g: "log' = (log @ part) @ concat groups @ rest"
          "recorded_run an opts po (length (log @ part)) (i + 1) n ps groups"
          "res = Inr () \<longrightarrow> length groups = length ps \<and> rest = []"
          "res \<noteq> Inr () \<longrightarrow> length groups < length ps \<and> recorded_in_part opts po (i + 1 + length groups) n (ps ! length groups) rest"
        by blast
      have "log' = log @ concat (part # groups) @ rest" using g(1) by simp
      moreover have "recorded_run an opts po (length log) i n (wp # ps) (part # groups)" using g(2) full by simp
      moreover have "res \<noteq> Inr () \<longrightarrow> recorded_in_part opts po (i + length (part # groups)) n ((wp # ps) ! length (part # groups)) rest"
        using g(4) by simp
      ultimately show ?thesis using g(3,4) by (intro exI [of _ "part # groups"] exI [of _ rest]) simp
    qed
  qed
qed

text \<open>Nothing but the recorder, the encoders, the file's size and the end of the context makes a pack fail.\<close>

definition calm :: "pack_world \<times> resource_pack option \<Rightarrow> bool" where
  "calm wp = (snd wp \<noteq> None \<and> pw_cancelled (fst wp) = None \<and> pw_stat_ok (fst wp)
     \<and> (\<forall>d. pw_pack_json (fst wp) d \<noteq> None) \<and> (\<forall>d. pw_derived_json (fst wp) d \<noteq> None))"

definition answers_always :: "sink_answers \<Rightarrow> bool" where
  "answers_always an = ((\<forall>k. is_ok (an_event an k)) \<and> (\<forall>k. is_ok (an_limit an k)))"

lemma ok_answer:
  assumes "answers_always an"
  shows "\<exists>e. an_event an k = Inr e" "\<exists>u. an_limit an k = Inr u"
proof -
  have "is_ok (an_event an k)" "is_ok (an_limit an k)" using assms by (simp_all add: answers_always_def)
  then show "\<exists>e. an_event an k = Inr e" "\<exists>u. an_limit an k = Inr u"
    by (auto simp: is_ok_def split: sum.splits)
qed

lemma failure_ok:
  assumes "answers_always an" "calm (w, Some p)"
  shows "fst (record_decrypt_failure (logging an) po w p parent err log) = Inr ()"
proof -
  obtain data where "pw_derived_json w (derived_of p [] NoReport) = Some data" using assms(2) by (auto simp: calm_def)
  moreover obtain u where "an_limit an (length log) = Inr u" using ok_answer(2) [OF assms(1)] by blast
  moreover obtain e where "an_event an (Suc (length log)) = Inr e" using ok_answer(1) [OF assms(1)] by blast
  ultimately show ?thesis by (simp add: record_decrypt_failure_def logging_def)
qed

lemma manifests_ok:
  assumes "answers_always an" "calm (w, Some p)"
  shows "fst (record_manifests (logging an) po w p parent ms log) = Inr ()"
proof (induction ms arbitrary: log)
  case (Cons m ms)
  obtain data where "pw_derived_json w (derived_of p (ct_path (cm_summary m)) (SummaryReport (cm_summary m))) = Some data"
    using assms(2) by (auto simp: calm_def)
  moreover obtain e where "an_event an (length log) = Inr e" using ok_answer(1) [OF assms(1)] by blast
  moreover have "fst (record_manifests (logging an) po w p parent ms l) = Inr ()" for l by (rule Cons.IH)
  ultimately show ?case by (simp add: logging_def)
qed simp

lemma derived_ok:
  assumes "answers_always an" "calm (w, Some p)"
  shows "fst (record_decrypted_pack (logging an) po w p parent log) = Inr ()"
proof (cases "pw_temp_error w")
  case (Some e)
  then show ?thesis using failure_ok [OF assms] by (simp add: record_decrypted_pack_def)
next
  case None
  show ?thesis
  proof (cases "decrypt_to_file w p")
    case (Inl x)
    have "x \<noteq> None"
    proof
      assume "x = None"
      then have "decrypt_to_file w p = Inl None" using Inl by simp
      moreover have "pw_cancelled w = None" using assms(2) by (simp add: calm_def)
      ultimately show False by (simp add: decrypt_to_file_def split: sum.splits option.splits prod.splits)
    qed
    then show ?thesis using Inl None failure_ok [OF assms] by (auto simp: record_decrypted_pack_def)
  next
    case (Inr y)
    obtain result archive where y: "y = (result, archive)" by (cases y)
    obtain log1 where m: "record_manifests (logging an) po w p parent (rs_manifests result) log = (Inr (), log1)"
      using manifests_ok [OF assms] by (metis (full_types) prod.collapse)
    obtain data where "pw_derived_json w (derived_of p [] (ArchiveReport (rs_report result))) = Some data"
      using assms(2) by (auto simp: calm_def)
    moreover obtain e where "an_event an (length log1) = Inr e" using ok_answer(1) [OF assms(1)] by blast
    moreover have "pw_stat_ok w" using assms(2) by (simp add: calm_def)
    ultimately show ?thesis using None Inr y m by (simp add: record_decrypted_pack_def logging_def)
  qed
qed

lemma pack_ok:
  assumes "answers_always an" "calm (w, pk)"
  shows "fst (record_pack (logging an) opts po i n w pk log) = Inr ()
    \<or> (\<exists>p. pk = Some p \<and> fst (record_pack (logging an) opts po i n w pk log) = Inl (PackChecksum (pk_uuid p)))"
proof -
  obtain p where p: "pk = Some p" using assms(2) by (auto simp: calm_def)
  obtain data where d: "pw_pack_json w (describe_pack i n p) = Some data" using assms(2) by (auto simp: calm_def)
  obtain e where e: "an_event an (length log) = Inr e" using ok_answer(1) [OF assms(1)] by blast
  have "fst (record_decrypted_pack (logging an) po w p parent l) = Inr ()" for parent l
    using derived_ok [OF assms(1)] assms(2) p by blast
  then show ?thesis using p d e by (simp add: record_pack_def logging_def)
qed

lemma packs_ok:
  assumes "answers_always an" "\<forall>wp \<in> set ps. calm wp"
  shows "fst (record_packs_from (logging an) opts po i n ps log) = Inr ()
    \<or> (\<exists>u. fst (record_packs_from (logging an) opts po i n ps log) = Inl (PackChecksum u))"
  using assms(2)
proof (induction ps arbitrary: i log)
  case (Cons wp ps)
  obtain w pk where wp: "wp = (w, pk)" by (cases wp)
  obtain r1 log1 where r: "record_pack (logging an) opts po i n w pk log = (r1, log1)" by force
  have "calm (w, pk)" using Cons.prems wp by simp
  from pack_ok [OF assms(1) this, of opts po i n log]
  have "r1 = Inr () \<or> (\<exists>u. r1 = Inl (PackChecksum u))" using r by auto
  then show ?case using wp r Cons.IH [of "i + 1" log1] Cons.prems by auto
qed simp

text \<open>
  C29. Recording the packs of a connection hands to the recorder, pack after pack and whatever it answers:
  the archive as it came with its metadata; then, for an encrypted pack and with decryption on, either every
  decrypted contents manifest and the derived archive, or a limitation and one error event, each with the
  archive's event as parent. Nothing else is recorded: a failed call stops the work within one pack's calls,
  and a success means that every archive's blob had the checksum of its pack. A pack that cannot be decrypted
  is no error: with a recorder that accepts everything, encoders that work and a context that lasts only a
  checksum that differs stops the recording.
\<close>

theorem packs_recorded_faithfully:
  assumes "record_resource_packs (logging an) opts po packs [] = (res, log)"
  shows "(\<exists>groups part. log = concat groups @ part \<and> recorded_run an opts po 0 0 (length packs) packs groups
      \<and> (res = Inr () \<longrightarrow> length groups = length packs \<and> part = [])
      \<and> (res \<noteq> Inr () \<longrightarrow> length groups < length packs
           \<and> recorded_in_part opts po (length groups) (length packs) (packs ! length groups) part))
    \<and> (answers_always an \<and> (\<forall>wp \<in> set packs. calm wp) \<longrightarrow> res = Inr () \<or> (\<exists>u. res = Inl (PackChecksum u)))"
    (is "?calls \<and> ?succeeds")
proof
  have run: "record_packs_from (logging an) opts po 0 (length packs) packs [] = (res, log)"
    using assms by (simp add: record_resource_packs_def)
  show ?calls using packs_recorded [OF run] by simp
  show ?succeeds using packs_ok [of an packs opts po 0 "length packs" "[]"] run by simp
qed

section \<open>An encrypted pack without a key\<close>

definition locked_pack :: resource_pack where
  "locked_pack =
     \<lparr>pk_uuid = ''u'', pk_pack_version = ''v'', pk_name = ''n'', pk_description = [], pk_archive = [80, 75], pk_checksum = [7],
      pk_download_url = ''https://h/p'', pk_encrypted = True, pk_key = ''short'', pk_has_scripts = False, pk_has_behaviours = False,
      pk_has_textures = True, pk_world_template = False, pk_manifest = [], pk_files = None\<rparr>"

definition locked_world :: pack_world where
  "locked_world =
     \<lparr>pw_pack_json = (\<lambda>d. Some (pd_delivery d)), pw_derived_json = (\<lambda>d. Some (dd_path d)), pw_temp_error = None, pw_cancelled = None,
      pw_faults = \<lparr>wf_create = None, wf_copy = None, wf_close = False\<rparr>, pw_zip = (\<lambda>_. []),
      pw_error_text = (\<lambda>e. (''no'', ''t'')), pw_sync_error = None, pw_seek_error = None, pw_stat_ok = True\<rparr>"

definition accepting_sink :: sink_answers where
  "accepting_sink =
     \<lparr>an_event = (\<lambda>k. Inr (empty_event\<lparr>ev_sequence := of_nat (k + 5),
        ev_blob := Some \<lparr>br_sha256 = ''07'', br_size = 2, br_path = [], br_media_type = [], br_representation = []\<rparr>\<rparr>)),
      an_limit = (\<lambda>k. Inr ())\<rparr>"

definition locked_origin :: pack_origin where
  "locked_origin = \<lparr>po_session = ''s'', po_connection = ''c'', po_hop = 0, po_source = None, po_destination = None\<rparr>"

definition locked_calls :: "sink_call list" where
  "locked_calls =
     [ReaderCall (archive_event locked_origin ''http'') [80, 75] ''minecraft_resource_pack_archive'',
      LimitCall ''Encrypted resource pack u could not be decrypted; its original archive was retained'',
      RecordCall \<lparr>rc_event = failure_event locked_origin 5 [] (''no'', ''t''), rc_raw = None, rc_media_type = [], rc_representation = []\<rparr>]"

lemma locked_checksum: "hex_string (pk_checksum locked_pack) = ''07''"
  by code_simp

lemma locked_decryption: "decrypt_to_file locked_world locked_pack = Inl (Some (''no'', ''t''))"
  by (simp add: decrypt_to_file_def decrypt_archive_def locked_world_def locked_pack_def)

lemma locked_run:
  "record_resource_packs (logging accepting_sink) \<lparr>do_decrypt = True\<rparr> locked_origin [(locked_world, Some locked_pack)] []
   = (Inr (), locked_calls)"
proof -
  have "pk_encrypted locked_pack" "pk_uuid locked_pack = ''u''" "pk_archive locked_pack = [80, 75]" "pw_temp_error locked_world = None"
    "pw_pack_json locked_world (describe_pack i n locked_pack) = Some ''http''" "pw_derived_json locked_world d = Some (dd_path d)" for i n d
    by (simp_all add: locked_pack_def locked_world_def describe_pack_def)
  then show ?thesis
    by (simp add: record_resource_packs_def record_pack_def logging_def accepting_sink_def locked_checksum record_decrypted_pack_def
        locked_decryption record_decrypt_failure_def derived_of_def limitation_text_def locked_calls_def)
qed

theorem packs_recorded_faithfully_witness:
  "\<exists>g. locked_calls = g \<and> recorded_in_full accepting_sink \<lparr>do_decrypt = True\<rparr> locked_origin 0 0 (Suc 0) (locked_world, Some locked_pack) g"
proof -
  obtain groups where g: "locked_calls = concat groups" "length groups = Suc 0"
      "recorded_run accepting_sink \<lparr>do_decrypt = True\<rparr> locked_origin 0 0 (Suc 0) [(locked_world, Some locked_pack)] groups"
    using packs_recorded_faithfully [OF locked_run] by auto
  then obtain h where "groups = [h]" by (cases groups) auto
  then show ?thesis using g by simp
qed

end
