(* ===== verification/Forward_Theorems.thy ===== *)
theory Forward_Theorems
  imports Forward Pack_Record_Theorems
begin

text \<open>
  What a forwarding loop sends, records and holds, for any behaviour of the connections and of the recorder
  (which is the one of \<^verbatim>\<open>Pack_Record_Theorems\<close> that keeps the calls and answers from a table).
\<close>

section \<open>What the environment delivers\<close>

type_synonym delivery = "bridge_packet \<times> raw_read option"

fun delivered :: "'r runner \<Rightarrow> bridge_answer \<Rightarrow> delivery option" where
  "delivered ru (RawDecoded p) = Some (p, None)"
| "delivered ru (RawBytes rd (DecodeFails e)) = Some (unknown_packet ru rd, Some rd)"
| "delivered ru (RawBytes rd (CloneDecoded (Some p))) = Some (p, Some rd)"
| "delivered ru (TypedRead (Some p)) = Some (p, None)"
| "delivered ru _ = None"

definition deliveries :: "'r runner \<Rightarrow> bridge_turn list \<Rightarrow> delivery list" where
  "deliveries ru tns = List.map_filter (\<lambda>tn. delivered ru (tn_answer tn)) tns"

lemma deliveries_Cons:
  "deliveries ru (tn # tns) = (case delivered ru (tn_answer tn) of None \<Rightarrow> deliveries ru tns | Some d \<Rightarrow> d # deliveries ru tns)"
  by (simp add: deliveries_def split: option.splits)

text \<open>What is sent for a delivery: a rewritten transfer, the bytes as they were read, or the packet.\<close>

definition sent_form :: "'r runner \<Rightarrow> lane \<Rightarrow> delivery \<Rightarrow> sent_packet" where
  "sent_form ru ln d =
     (case followed_transfer ru ln (fst d) of
        Some t \<Rightarrow>
          (case transfer_for_proxy_address (Some t) (ln_local ln) of
             Inr (rewritten, target) \<Rightarrow> TypedOut ((fst d)\<lparr>bp_body := TransferBody rewritten\<rparr>)
           | Inl e \<Rightarrow> TypedOut (fst d))
      | None \<Rightarrow> (case snd d of Some rd \<Rightarrow> RawOut rd | None \<Rightarrow> TypedOut (fst d)))"

definition followed_target :: "'r runner \<Rightarrow> lane \<Rightarrow> delivery \<Rightarrow> string option" where
  "followed_target ru ln d =
     (case followed_transfer ru ln (fst d) of
        None \<Rightarrow> None
      | Some t \<Rightarrow> (case transfer_for_proxy_address (Some t) (ln_local ln) of Inr (_, target) \<Rightarrow> Some target | Inl _ \<Rightarrow> None))"

section \<open>The recorder\<close>

type_synonym log_bridge = "sink_call list bridge"

definition event_call :: "event \<Rightarrow> sink_call" where
  "event_call e = RecordCall \<lparr>rc_event = e, rc_raw = None, rc_media_type = [], rc_representation = []\<rparr>"

definition quiet :: "log_bridge \<Rightarrow> log_bridge \<Rightarrow> bool" where
  "quiet b b' = (bg_sent b' = bg_sent b \<and> bg_targets b' = bg_targets b \<and> bg_trace b' = bg_trace b \<and> bg_acquired b' = bg_acquired b
     \<and> bg_released b' = bg_released b \<and> prefix (bg_recorder b) (bg_recorder b'))"

lemma quiet_refl [simp]: "quiet b b" by (simp add: quiet_def)

lemma quiet_trans: "quiet b b1 \<Longrightarrow> quiet b1 b2 \<Longrightarrow> quiet b b2"
  by (auto simp: quiet_def intro: prefix_order.trans)

lemma record_one_logging:
  assumes "ru_sink ru = logging an"
  shows "record_one ru e b = (an_event an (length (bg_recorder b)), b\<lparr>bg_recorder := bg_recorder b @ [event_call e]\<rparr>)"
  using assms by (simp add: record_one_def logging_def event_call_def)

lemma record_one_quiet:
  assumes "ru_sink ru = logging an" "record_one ru e b = (res, b')"
  shows "quiet b b'"
  using assms by (auto simp: record_one_logging quiet_def)

lemma finish_quiet:
  assumes "ru_sink ru = logging an" "finish_forward ru ln kind op e b = (cap, b')"
  shows "quiet b b'"
  using assms by (auto simp: finish_forward_def record_one_logging quiet_def Let_def split: if_splits sum.splits)

lemma finish_operation_quiet:
  assumes "ru_sink ru = logging an" "finish_operation ru ln kind op e b = (err, b')"
  shows "quiet b b'" "\<exists>cap. err = OperationError e cap"
  using assms finish_quiet by (auto simp: finish_operation_def split: prod.splits)

lemma record_timing_quiet:
  assumes "ru_sink ru = logging an" "record_timing ru ln ev t b = (res, b')"
  shows "quiet b b'" "res \<noteq> Inl (TransferDone td)"
  using assms by (auto simp: record_timing_def record_one_logging quiet_def split: option.splits sum.splits)

lemma record_rewrite_quiet:
  assumes "ru_sink ru = logging an" "record_transfer_rewrite ru ln p t t' target b = (res, b')"
  shows "quiet b b'" "res \<noteq> Inl (TransferDone td)"
  using assms by (auto simp: record_transfer_rewrite_def record_one_logging quiet_def split: sum.splits)

lemma record_decoded_logging:
  assumes "ru_sink ru = logging an" "record_decoded ru ln p b = (res, b')"
  shows "quiet b b'" "bg_recorder b' = bg_recorder b @ [event_call (decoded_event ru ln p)]"
    "is_ok res \<Longrightarrow> is_ok (an_event an (length (bg_recorder b)))"
  using assms by (auto simp: record_decoded_def record_one_logging quiet_def split: sum.splits)

section \<open>One turn\<close>

definition held :: "log_bridge \<Rightarrow> int" where "held b = int (bg_acquired b) - int (bg_released b)"

lemma quiet_held: "quiet b b' \<Longrightarrow> held b' = held b"
  by (simp add: quiet_def held_def)

definition one_if :: "bool \<Rightarrow> int" where "one_if c = (if c then 1 else 0)"

lemma held_release: "held (release raw b) = held b - one_if (raw \<noteq> None)"
  by (simp add: held_def release_def one_if_def)

lemma release_simps [simp]:
  "bg_trace (release raw b) = bg_trace b" "bg_sent (release raw b) = bg_sent b" "bg_targets (release raw b) = bg_targets b" "bg_recorder (release raw b) = bg_recorder b"
  "bg_shutting (release raw b) = bg_shutting b" "bg_failures (release raw b) = bg_failures b"
  by (simp_all add: release_def)

lemma acquire_simps [simp]:
  "bg_trace (acquire b) = bg_trace b" "bg_sent (acquire b) = bg_sent b" "bg_targets (acquire b) = bg_targets b" "bg_recorder (acquire b) = bg_recorder b"
  "bg_shutting (acquire b) = bg_shutting b" "bg_failures (acquire b) = bg_failures b"
  by (simp_all add: acquire_def)

lemma held_acquire: "held (acquire b) = held b + 1" by (simp add: held_def acquire_def)

text \<open>The frame of a step: what was sent and announced, the reads in hand, and the log.\<close>

definition stepped :: "log_bridge \<Rightarrow> int \<Rightarrow> log_bridge \<Rightarrow> bool" where
  "stepped b n b' = (bg_sent b' = bg_sent b \<and> bg_targets b' = bg_targets b \<and> bg_trace b' = bg_trace b \<and> held b' = held b + n
     \<and> prefix (bg_recorder b) (bg_recorder b'))"

lemma quiet_stepped: "quiet b b' \<Longrightarrow> stepped b 0 b'"
  using quiet_held by (auto simp: stepped_def quiet_def)

lemma stepped_trans: "stepped b m b1 \<Longrightarrow> stepped b1 n b2 \<Longrightarrow> stepped b (m + n) b2"
  by (auto simp: stepped_def intro: prefix_order.trans)

lemma stepped_release: "stepped b (- one_if (raw \<noteq> None)) (release raw b)"
  by (simp add: stepped_def held_release)

lemma stepped_acquire: "stepped b 1 (acquire b)"
  by (simp add: stepped_def held_acquire)

lemma stepped_both: "stepped b 0 (release (Some rd) (acquire b))"
  using stepped_trans [OF stepped_acquire stepped_release [of "acquire b" "Some rd"]] by (simp add: one_if_def)

lemma end_read_stepped:
  assumes "ru_sink ru = logging an" "end_read (finish_operation ru ln kind op e b1) = (out, b')" "stepped b 0 b1"
  shows "stepped b 0 b'" "\<exists>cap. out = ReadEnd (OperationError e cap)"
proof -
  obtain err b2 where f: "finish_operation ru ln kind op e b1 = (err, b2)" by force
  then have "out = ReadEnd err" "b' = b2" using assms(2) by (simp_all add: end_read_def)
  then show "stepped b 0 b'" "\<exists>cap. out = ReadEnd (OperationError e cap)"
    using finish_operation_quiet [OF assms(1) f] stepped_trans [OF assms(3) quiet_stepped] by auto
qed

definition read_ok :: "log_bridge \<Rightarrow> delivery option \<Rightarrow> read_outcome \<Rightarrow> log_bridge \<Rightarrow> bool" where
  "read_ok b d out b' =
     (stepped b (case out of ReadPacket p raw \<Rightarrow> one_if (raw \<noteq> None) | _ \<Rightarrow> 0) b'
      \<and> (case out of ReadPacket p raw \<Rightarrow> d = Some (p, raw) | ReadSkip \<Rightarrow> d = None | ReadEnd e \<Rightarrow> \<not> (\<exists>td. e = TransferDone td)))"

lemma end_read_ok:
  assumes "ru_sink ru = logging an" "stepped b 0 b1"
  shows "read_ok b d (fst (end_read (finish_operation ru ln kind op e b1))) (snd (end_read (finish_operation ru ln kind op e b1)))"
proof -
  obtain err b2 where f: "finish_operation ru ln kind op e b1 = (err, b2)" by force
  then have "end_read (finish_operation ru ln kind op e b1) = (ReadEnd err, b2)" by (simp add: end_read_def)
  with end_read_stepped [OF assms(1) this assms(2)] show ?thesis by (auto simp: read_ok_def)
qed

lemma decode_failure_ok:
  assumes "ru_sink ru = logging an"
  shows "read_ok b (Some (unknown_packet ru rd, Some rd)) (fst (forward_read ru ln (RawBytes rd (DecodeFails e)) b))
    (snd (forward_read ru ln (RawBytes rd (DecodeFails e)) b))"
proof -
  let ?e = "decode_error_event ln (raw_packet_info rd) ''decode packet for forwarding'' e"
  obtain res b1 where r: "record_one ru ?e (acquire b) = (res, b1)" by force
  have s: "stepped b 1 b1" using stepped_trans [OF stepped_acquire quiet_stepped [OF record_one_quiet [OF assms r]]] by simp
  show ?thesis
  proof (cases res)
    case (Inl x)
    then show ?thesis using r stepped_trans [OF s stepped_release [of b1 "Some rd"]] by (simp add: read_ok_def one_if_def)
  next
    case (Inr x)
    then show ?thesis using r s by (simp add: read_ok_def one_if_def)
  qed
qed

lemma read_effect:
  assumes "ru_sink ru = logging an" "forward_read ru ln a b = (out, b')"
  shows "read_ok b (delivered ru a) out b'"
proof -
  have s: "stepped b 0 ((acquire b)\<lparr>bg_released := Suc (bg_released b)\<rparr>)"
    by (simp add: stepped_def held_def acquire_def)
  have "read_ok b (delivered ru a) (fst (forward_read ru ln a b)) (snd (forward_read ru ln a b))"
  proof (cases a)
    case (RawFails e h)
    have "stepped b 0 (if h then release (Some \<lparr>rw_id = 0, rw_sender = 0, rw_target = 0, rw_payload = []\<rparr>) (acquire b) else b)"
      using stepped_both quiet_stepped by simp
    then show ?thesis using end_read_ok [OF assms(1)] RawFails by (simp add: Let_def)
  next
    case (RawBytes rd c)
    show ?thesis
    proof (cases c)
      case (CloneFails e)
      then show ?thesis using end_read_ok [OF assms(1) stepped_both] RawBytes by simp
    next
      case (DecodeFails e)
      then show ?thesis using decode_failure_ok [OF assms(1)] RawBytes by simp
    next
      case (CloneDecoded x)
      then show ?thesis using RawBytes stepped_both stepped_acquire by (cases x) (simp_all add: read_ok_def one_if_def)
    qed
  next
    case (TypedFails e)
    then show ?thesis using end_read_ok [OF assms(1) quiet_stepped] by simp
  next
    case (TypedRead x)
    then show ?thesis using quiet_stepped by (cases x) (simp_all add: read_ok_def one_if_def)
  qed (use s quiet_stepped in \<open>simp_all add: read_ok_def one_if_def\<close>)
  then show ?thesis using assms(2) by simp
qed

text \<open>What sending adds: at most the one packet; the read is given back; a loop goes on only after an ordinary packet.\<close>

definition out_form :: "bridge_packet \<Rightarrow> raw_read option \<Rightarrow> (bridge_packet \<times> string) option \<Rightarrow> sent_packet" where
  "out_form p raw rewritten =
     (case rewritten of Some (q, target) \<Rightarrow> TypedOut q | None \<Rightarrow> (case raw of Some rd \<Rightarrow> RawOut rd | None \<Rightarrow> TypedOut p))"

definition send_ok :: "lane \<Rightarrow> log_bridge \<Rightarrow> bridge_packet \<Rightarrow> raw_read option \<Rightarrow> (bridge_packet \<times> string) option \<Rightarrow> loop_error option \<Rightarrow> log_bridge \<Rightarrow> bool" where
  "send_ok ln b p raw rewritten res b' =
     (held b' = held b - one_if (raw \<noteq> None) \<and> bg_targets b' = bg_targets b \<and> prefix (bg_recorder b) (bg_recorder b')
      \<and> (bg_sent b' = bg_sent b \<and> bg_trace b' = bg_trace b \<and> res \<noteq> None \<and> (\<forall>td. res \<noteq> Some (TransferDone td))
         \<or> bg_sent b' = bg_sent b @ [(ln_direction ln, out_form p raw rewritten)]
           \<and> bg_trace b' = bg_trace b @ [Sent (ln_direction ln, out_form p raw rewritten)])
      \<and> (res = None \<longrightarrow> rewritten = None) \<and> (\<forall>td. res = Some (TransferDone td) \<longrightarrow> (\<exists>q. rewritten = Some (q, td_target td))))"

lemma send_okI:
  assumes "bg_sent b1 = bg_sent b @ sent" "held b1 = held b - one_if (raw \<noteq> None)" "bg_targets b1 = bg_targets b"
    "bg_recorder b1 = bg_recorder b" "bg_trace b1 = bg_trace b @ map Sent sent" "quiet b1 b'"
    "sent = [] \<and> res \<noteq> None \<and> (\<forall>td. res \<noteq> Some (TransferDone td)) \<or> sent = [(ln_direction ln, out_form p raw rewritten)]"
    "res = None \<Longrightarrow> rewritten = None" "\<And>td. res = Some (TransferDone td) \<Longrightarrow> \<exists>q. rewritten = Some (q, td_target td)"
  shows "send_ok ln b p raw rewritten res b'"
  using assms quiet_held [OF assms(6)] by (auto simp: send_ok_def quiet_def)

lemma send_effect:
  assumes "ru_sink ru = logging an" "send_packet ru ln tn p ev raw rewritten b = (res, b')"
  shows "send_ok ln b p raw rewritten res b'"
proof -
  define b1 where "b1 = release raw (write_packet ln (out_form p raw rewritten) (tn_write tn) b)"
  have b1: "held b1 = held b - one_if (raw \<noteq> None)" "bg_targets b1 = bg_targets b" "bg_recorder b1 = bg_recorder b"
      "bg_sent b1 = bg_sent b @ (if tn_write tn = None then [(ln_direction ln, out_form p raw rewritten)] else [])"
      "bg_trace b1 = bg_trace b @ map Sent (if tn_write tn = None then [(ln_direction ln, out_form p raw rewritten)] else [])"
    by (simp_all add: b1_def write_packet_def held_release) (simp add: held_def)
  have s: "send_packet ru ln tn p ev raw rewritten b = (case tn_write tn of
           Some e \<Rightarrow> (case finish_operation ru ln ''bridge.write_error'' ''write packet'' e b1 of (err, b2) \<Rightarrow> (Some err, b2))
         | None \<Rightarrow>
             (case (if rewritten = None then None else tn_flush tn) of
                Some e \<Rightarrow> (case finish_operation ru ln ''bridge.flush_error'' ''flush transfer'' e b1 of (err, b2) \<Rightarrow> (Some err, b2))
              | None \<Rightarrow>
                  (case (if should_record_timing p \<and> ev_sequence ev \<noteq> 0
                         then record_timing ru ln ev (turn_timing tn (rewritten = None \<and> raw \<noteq> None) (rewritten \<noteq> None)) b1
                         else (Inr (), b1)) of
                     (Inl err, b2) \<Rightarrow> (Some err, b2)
                   | (Inr _, b2) \<Rightarrow>
                       (case rewritten of
                          None \<Rightarrow> (None, b2)
                        | Some (q, target) \<Rightarrow>
                            (Some (TransferDone \<lparr>td_target = target, td_local = tn_local tn,
                               td_guid = (case tn_guid tn of None \<Rightarrow> 0 | Some g \<Rightarrow> g)\<rparr>), b2)))))"
    unfolding send_packet_def b1_def out_form_def Let_def ..
  show ?thesis
  proof (cases "tn_write tn")
    case (Some e)
    obtain err b2 where f: "finish_operation ru ln ''bridge.write_error'' ''write packet'' e b1 = (err, b2)" by force
    then have r: "res = Some err" "b' = b2" using assms(2) s Some by simp_all
    show ?thesis
      by (rule send_okI [of b1 _ "[]"]) (use b1 Some r finish_operation_quiet [OF assms(1) f] in auto)
  next
    case None
    note sent = b1(4,5) [unfolded None if_P [OF refl]]
    show ?thesis
    proof (cases "if rewritten = None then None else tn_flush tn")
      case (Some e)
      obtain err b2 where f: "finish_operation ru ln ''bridge.flush_error'' ''flush transfer'' e b1 = (err, b2)" by force
      then have r: "res = Some err" "b' = b2" using assms(2) s None Some by simp_all
      show ?thesis
        by (rule send_okI [OF sent(1) b1(1-3) sent(2)]) (use r finish_operation_quiet [OF assms(1) f] in auto)
    next
      case flushed: None
      define go where "go = (if should_record_timing p \<and> ev_sequence ev \<noteq> 0
                         then record_timing ru ln ev (turn_timing tn (rewritten = None \<and> raw \<noteq> None) (rewritten \<noteq> None)) b1
                         else (Inr (), b1))"
      obtain x b2 where g: "go = (x, b2)" by force
      have q: "quiet b1 b2" "x \<noteq> Inl (TransferDone td)" for td
        using g record_timing_quiet [OF assms(1)] by (auto simp: go_def split: if_splits)
      have e: "(res, b') = (case go of (Inl err, b2) \<Rightarrow> (Some err, b2)
                   | (Inr _, b2) \<Rightarrow>
                       (case rewritten of
                          None \<Rightarrow> (None, b2)
                        | Some (q, target) \<Rightarrow>
                            (Some (TransferDone \<lparr>td_target = target, td_local = tn_local tn,
                               td_guid = (case tn_guid tn of None \<Rightarrow> 0 | Some g \<Rightarrow> g)\<rparr>), b2)))"
        using assms(2) s None flushed unfolding go_def by simp
      show ?thesis
        by (rule send_okI [OF sent(1) b1(1-3) sent(2)]) (use e g q in \<open>auto split: sum.splits option.splits prod.splits\<close>)
    qed
  qed
qed

section \<open>A delivered packet\<close>

text \<open>The decoded event of a packet is in the log, accepted, at a position after \<open>from\<close>.\<close>

definition noted_at :: "sink_answers \<Rightarrow> 'r runner \<Rightarrow> lane \<Rightarrow> sink_call list \<Rightarrow> nat \<Rightarrow> bridge_packet \<Rightarrow> bool" where
  "noted_at an ru ln log k p = (k < length log \<and> log ! k = event_call (decoded_event ru ln p) \<and> is_ok (an_event an k))"

definition turn_ok :: "sink_answers \<Rightarrow> 'r runner \<Rightarrow> lane \<Rightarrow> log_bridge \<Rightarrow> int \<Rightarrow> delivery option \<Rightarrow> loop_error option \<Rightarrow> log_bridge \<Rightarrow> bool" where
  "turn_ok an ru ln b n d res b' =
     (held b' = held b - n \<and> prefix (bg_recorder b) (bg_recorder b')
      \<and> (\<exists>sent targets. bg_sent b' = bg_sent b @ sent \<and> bg_targets b' = bg_targets b @ targets
          \<and> bg_trace b' = bg_trace b @ map Announced targets @ map Sent sent
          \<and> (case d of
               None \<Rightarrow> sent = [] \<and> targets = [] \<and> (\<forall>td. res \<noteq> Some (TransferDone td))
             | Some d \<Rightarrow>
                 (sent = [] \<or> sent = [(ln_direction ln, sent_form ru ln d)]
                    \<and> (\<exists>k \<ge> length (bg_recorder b). noted_at an ru ln (bg_recorder b') k (fst d))
                    \<and> (followed_transfer ru ln (fst d) \<noteq> None \<longrightarrow> targets \<noteq> []))
                 \<and> (targets = [] \<or> (\<exists>target. followed_target ru ln d = Some target \<and> targets = [target]) \<and> res \<noteq> None)
                 \<and> (res = None \<longrightarrow> sent \<noteq> [] \<and> followed_transfer ru ln (fst d) = None)
                 \<and> (\<forall>td. res = Some (TransferDone td) \<longrightarrow> sent \<noteq> [] \<and> targets = [td_target td]))))"

lemma turn_okI:
  assumes "held b' = held b - n" "prefix (bg_recorder b) (bg_recorder b')" "bg_sent b' = bg_sent b @ sent" "bg_targets b' = bg_targets b @ targets"
    "bg_trace b' = bg_trace b @ map Announced targets @ map Sent sent"
    "sent = [] \<or> sent = [(ln_direction ln, sent_form ru ln d)]"
    "sent \<noteq> [] \<Longrightarrow> length (bg_recorder b) \<le> k \<and> noted_at an ru ln (bg_recorder b') k (fst d)"
    "sent \<noteq> [] \<Longrightarrow> followed_transfer ru ln (fst d) \<noteq> None \<Longrightarrow> targets \<noteq> []"
    "targets = [] \<or> (\<exists>target. followed_target ru ln d = Some target \<and> targets = [target]) \<and> res \<noteq> None"
    "res = None \<Longrightarrow> sent \<noteq> [] \<and> followed_transfer ru ln (fst d) = None"
    "\<And>td. res = Some (TransferDone td) \<Longrightarrow> sent \<noteq> [] \<and> targets = [td_target td]"
  shows "turn_ok an ru ln b n (Some d) res b'"
  unfolding turn_ok_def option.case
  by (intro conjI exI [of _ sent] exI [of _ targets]) (use assms in blast)+

text \<open>Rewriting sends nothing; it announces the target when it succeeds and gives the read back when it does not.\<close>

lemma finish_rewrite_effect:
  assumes "ru_sink ru = logging an" "finish_rewrite ru ln raw e b = (err, b')"
  shows "stepped b (- one_if (raw \<noteq> None)) b'" "err \<noteq> TransferDone td"
proof -
  obtain cap b1 where f: "finish_forward ru ln ''bridge.transfer_rewrite_error'' ''rewrite Transfer'' (ru_rewrite_error ru e) (release raw b) = (cap, b1)"
    by force
  then have r: "err = RewriteError (ru_rewrite_error ru e) cap" "b' = b1" using assms(2) by (simp_all add: finish_rewrite_def Let_def)
  show "stepped b (- one_if (raw \<noteq> None)) b'" "err \<noteq> TransferDone td"
    using stepped_trans [OF stepped_release quiet_stepped [OF finish_quiet [OF assms(1) f]]] r by auto
qed

lemma rewrite_effect:
  assumes "ru_sink ru = logging an" "rewrite_step ru ln p raw t b = (res, b')"
  shows "(\<exists>err. res = Inl err \<and> stepped b (- one_if (raw \<noteq> None)) b' \<and> (\<forall>td. err \<noteq> TransferDone td))
    \<or> (\<exists>t' target. transfer_for_proxy_address (Some t) (ln_local ln) = Inr (t', target)
        \<and> res = Inr (p\<lparr>bp_body := TransferBody t'\<rparr>, target)
        \<and> held b' = held b \<and> bg_sent b' = bg_sent b \<and> bg_targets b' = bg_targets b @ [target]
        \<and> bg_trace b' = bg_trace b @ [Announced target] \<and> prefix (bg_recorder b) (bg_recorder b'))"
proof (cases "transfer_for_proxy_address (Some t) (ln_local ln)")
  case (Inl e)
  obtain err b1 where f: "finish_rewrite ru ln raw e b = (err, b1)" by force
  then have "res = Inl err" "b' = b1" using assms(2) Inl by (simp_all add: rewrite_step_def)
  then show ?thesis using finish_rewrite_effect [OF assms(1) f] by auto
next
  case (Inr y)
  obtain t' target where y: "y = (t', target)" by (cases y)
  obtain x b1 where r: "record_transfer_rewrite ru ln p t t' target b = (x, b1)" by force
  note q = record_rewrite_quiet [OF assms(1) r]
  show ?thesis
  proof (cases x)
    case (Inl err)
    then have "res = Inl err" "b' = release raw b1" using assms(2) Inr y r by (simp_all add: rewrite_step_def)
    then show ?thesis using stepped_trans [OF quiet_stepped [OF q(1)] stepped_release [of b1 raw]] q(2) Inl by auto
  next
    case i: (Inr u)
    then have "res = Inr (p\<lparr>bp_body := TransferBody t'\<rparr>, target)" "b' = announce_target target b1"
      using assms(2) Inr y r by (simp_all add: rewrite_step_def)
    moreover have "held (announce_target target b1) = held b1" by (simp add: held_def announce_target_def)
    ultimately show ?thesis using q(1) quiet_held [OF q(1)] Inr y by (auto simp: quiet_def announce_target_def)
  qed
qed

lemma packet_effect:
  assumes "ru_sink ru = logging an" "forward_packet ru ln tn p raw b = (res, b')"
  shows "turn_ok an ru ln b (one_if (raw \<noteq> None)) (Some (p, raw)) res b'"
proof -
  define b0 where "b0 = b\<lparr>bg_live := live_packet_seen (tn_now tn) (ln_direction ln) (Some (live_view p)) (bg_live b)\<rparr>"
  have b0: "bg_sent b0 = bg_sent b" "bg_targets b0 = bg_targets b" "held b0 = held b" "bg_recorder b0 = bg_recorder b" "bg_trace b0 = bg_trace b"
    by (simp_all add: b0_def held_def)
  let ?k = "length (bg_recorder b)" and ?n = "one_if (raw \<noteq> None)"
  obtain x b1 where d: "record_decoded ru ln p b0 = (x, b1)" by force
  note q = record_decoded_logging [OF assms(1) d] 
  have b1: "bg_sent b1 = bg_sent b" "bg_targets b1 = bg_targets b" "held b1 = held b" "bg_recorder b1 = bg_recorder b @ [event_call (decoded_event ru ln p)]" "bg_trace b1 = bg_trace b"
    using q(1,2) quiet_held [OF q(1)] b0 by (simp_all add: quiet_def)
  have noted: "?k \<le> ?k \<and> noted_at an ru ln (bg_recorder b2) ?k (fst (p, raw))" if "prefix (bg_recorder b1) (bg_recorder b2)" "is_ok x" for b2
  proof -
    from that(1) obtain rest where "bg_recorder b2 = bg_recorder b1 @ rest" by (rule prefixE)
    then show ?thesis using b1(4) q(3) that(2) b0(4) by (simp add: noted_at_def)
  qed
  have pre: "prefix (bg_recorder b) (bg_recorder b2)" if "prefix (bg_recorder b1) (bg_recorder b2)" for b2
    using that b1(4) by (metis append_prefixD)
  have step: "forward_packet ru ln tn p raw b = (case (x, b1) of
           (Inl e, b1) \<Rightarrow> (Some (CaptureError e), release raw b1)
         | (Inr event, b1) \<Rightarrow>
             (case followed_transfer ru ln p of
                None \<Rightarrow> send_packet ru ln tn p event raw None b1
              | Some t \<Rightarrow>
                  (case rewrite_step ru ln p raw t b1 of
                     (Inl err, b2) \<Rightarrow> (Some err, b2)
                   | (Inr rewritten, b2) \<Rightarrow> send_packet ru ln tn p event raw (Some rewritten) b2)))"
    using d unfolding forward_packet_def b0_def Let_def by simp
  show ?thesis
  proof (cases x)
    case (Inl e)
    then have r: "res = Some (CaptureError e)" "b' = release raw b1" using assms(2) step by simp_all
    show ?thesis
      by (rule turn_okI [of _ _ _ "[]" "[]"]) (use r b1 pre [of b'] in \<open>simp_all add: held_release\<close>)
  next
    case (Inr event)
    then have ok: "is_ok x" by simp
    show ?thesis
    proof (cases "followed_transfer ru ln p")
      case None
      then have s: "send_packet ru ln tn p event raw None b1 = (res, b')" using assms(2) step Inr by simp
      have form: "out_form p raw None = sent_form ru ln (p, raw)" using None by (simp add: out_form_def sent_form_def split: option.splits)
      note e = send_effect [OF assms(1) s, unfolded send_ok_def form]
      show ?thesis
      proof (cases "bg_sent b' = bg_sent b1 @ [(ln_direction ln, sent_form ru ln (p, raw))]")
        case True
        show ?thesis
          by (rule turn_okI [of _ _ _ "[(ln_direction ln, sent_form ru ln (p, raw))]" "[]" _ _ _ ?k])
            (use e b1 True None noted [of b'] pre [of b'] ok in auto)
      next
        case False
        then have same: "bg_sent b' = bg_sent b1 \<and> bg_trace b' = bg_trace b1 \<and> res \<noteq> None \<and> (\<forall>td. res \<noteq> Some (TransferDone td))" using e by blast
        show ?thesis
          by (rule turn_okI [of _ _ _ "[]" "[]"]) (use e b1 same pre [of b'] in auto)
      qed
    next
      case (Some t)
      obtain y b2 where w: "rewrite_step ru ln p raw t b1 = (y, b2)" by force
      from rewrite_effect [OF assms(1) w] show ?thesis
      proof (elim disjE exE conjE)
        fix err assume y: "y = Inl err" and s: "stepped b1 (- ?n) b2" and nd: "\<forall>td. err \<noteq> TransferDone td"
        have r: "res = Some err" "b' = b2" using assms(2) step Inr Some w y by simp_all
        show ?thesis
          by (rule turn_okI [of _ _ _ "[]" "[]"]) (use r b1 s nd pre [of b2] in \<open>auto simp: stepped_def\<close>)
      next
        fix t' target
        assume t': "transfer_for_proxy_address (Some t) (ln_local ln) = Inr (t', target)"
          and y: "y = Inr (p\<lparr>bp_body := TransferBody t'\<rparr>, target)"
          and b2: "held b2 = held b1" "bg_sent b2 = bg_sent b1" "bg_targets b2 = bg_targets b1 @ [target]" "bg_trace b2 = bg_trace b1 @ [Announced target]" "prefix (bg_recorder b1) (bg_recorder b2)"
        have s: "send_packet ru ln tn p event raw (Some (p\<lparr>bp_body := TransferBody t'\<rparr>, target)) b2 = (res, b')"
          using assms(2) step Inr Some w y by simp
        have form: "out_form p raw (Some (p\<lparr>bp_body := TransferBody t'\<rparr>, target)) = sent_form ru ln (p, raw)"
          using Some t' by (simp add: out_form_def sent_form_def)
        have ft: "followed_target ru ln (p, raw) = Some target" using Some t' by (simp add: followed_target_def)
        note e = send_effect [OF assms(1) s, unfolded send_ok_def form]
        have p1: "prefix (bg_recorder b1) (bg_recorder b')" using e b2(5) prefix_order.trans by blast
        show ?thesis
        proof (cases "bg_sent b' = bg_sent b2 @ [(ln_direction ln, sent_form ru ln (p, raw))]")
          case True
          show ?thesis
            by (rule turn_okI [of _ _ _ "[(ln_direction ln, sent_form ru ln (p, raw))]" "[target]" _ _ _ ?k])
              (use e b1 b2 True ft noted [OF p1 ok] pre [OF p1] in auto)
        next
          case False
          then have same: "bg_sent b' = bg_sent b2 \<and> bg_trace b' = bg_trace b2 \<and> res \<noteq> None \<and> (\<forall>td. res \<noteq> Some (TransferDone td))" using e by blast
          show ?thesis
            by (rule turn_okI [of _ _ _ "[]" "[target]"]) (use e b1 b2 same ft pre [OF p1] in auto)
        qed
      qed
    qed
  qed
qed

section \<open>Turns and runs\<close>

lemma turn_ok_none:
  assumes "stepped b 0 b'" "\<forall>td. res \<noteq> Some (TransferDone td)" "d = None \<or> res \<noteq> None"
  shows "turn_ok an ru ln b 0 d res b'"
proof (cases d)
  case None
  then show ?thesis using assms by (simp add: turn_ok_def stepped_def)
next
  case (Some y)
  then have "res \<noteq> None" using assms(3) by simp
  with Some show ?thesis using assms turn_okI [of b' b 0 "[]" "[]" ln ru y 0 an res] by (auto simp: stepped_def)
qed

lemma turn_effect:
  assumes "ru_sink ru = logging an" "forward_turn ru ln tn b = (res, b')"
  shows "turn_ok an ru ln b 0 (delivered ru (tn_answer tn)) res b'"
proof (cases "fs_err (bg_failures b) \<noteq> None \<or> ru_recorder_err ru (bg_recorder b) \<noteq> None")
  case True
  then have "b' = b" "res \<noteq> None" "\<forall>td. res \<noteq> Some (TransferDone td)"
    using assms(2) by (auto simp: forward_turn_def split: option.splits)
  then show ?thesis using turn_ok_none [OF quiet_stepped [OF quiet_refl]] by blast
next
  case False
  obtain out b1 where r: "forward_read ru ln (tn_answer tn) b = (out, b1)" by force
  note ok = read_effect [OF assms(1) r, unfolded read_ok_def]
  have t: "forward_turn ru ln tn b = (case (out, b1) of
                  (ReadEnd e, b1) \<Rightarrow> (Some e, b1)
                | (ReadSkip, b1) \<Rightarrow> (None, b1)
                | (ReadPacket p raw, b1) \<Rightarrow> forward_packet ru ln tn p raw b1)"
    using False r by (auto simp: forward_turn_def)
  show ?thesis
  proof (cases out)
    case (ReadEnd e)
    then show ?thesis using ok assms(2) t by (intro turn_ok_none) auto
  next
    case ReadSkip
    then show ?thesis using ok assms(2) t by (intro turn_ok_none) auto
  next
    case (ReadPacket p raw)
    then have s: "stepped b (one_if (raw \<noteq> None)) b1" and d: "delivered ru (tn_answer tn) = Some (p, raw)" using ok by simp_all
    have "forward_packet ru ln tn p raw b1 = (res, b')" using assms(2) t ReadPacket by simp
    note e = packet_effect [OF assms(1) this]
    have "turn_ok an ru ln b 0 (Some (p, raw)) res b'"
    proof -
      obtain sent targets where st: "held b' = held b1 - one_if (raw \<noteq> None)" "prefix (bg_recorder b1) (bg_recorder b')"
          "bg_sent b' = bg_sent b1 @ sent" "bg_targets b' = bg_targets b1 @ targets"
          "bg_trace b' = bg_trace b1 @ map Announced targets @ map Sent sent"
          "sent = [] \<or> sent = [(ln_direction ln, sent_form ru ln (p, raw))]
             \<and> (\<exists>k \<ge> length (bg_recorder b1). noted_at an ru ln (bg_recorder b') k (fst (p, raw)))
             \<and> (followed_transfer ru ln (fst (p, raw)) \<noteq> None \<longrightarrow> targets \<noteq> [])"
          "targets = [] \<or> (\<exists>target. followed_target ru ln (p, raw) = Some target \<and> targets = [target]) \<and> res \<noteq> None"
          "res = None \<longrightarrow> sent \<noteq> [] \<and> followed_transfer ru ln (fst (p, raw)) = None"
          "\<forall>td. res = Some (TransferDone td) \<longrightarrow> sent \<noteq> [] \<and> targets = [td_target td]"
        using e unfolding turn_ok_def by (simp only: option.case) blast
      have len: "length (bg_recorder b) \<le> length (bg_recorder b1)" using s by (auto simp: stepped_def prefix_length_le)
      have "\<exists>k. sent \<noteq> [] \<longrightarrow> length (bg_recorder b) \<le> k \<and> noted_at an ru ln (bg_recorder b') k (fst (p, raw))"
        using st(6) len le_trans by blast
      then obtain k where k: "sent \<noteq> [] \<longrightarrow> length (bg_recorder b) \<le> k \<and> noted_at an ru ln (bg_recorder b') k (fst (p, raw))" ..
      show ?thesis
        by (rule turn_okI [of _ _ _ sent targets _ _ _ k])
          (use st s k prefix_order.trans in \<open>auto simp: stepped_def\<close>)
    qed
    then show ?thesis using d by simp
  qed
qed

text \<open>
  The packets \<open>ds\<close> are sent in this order, each after the acceptance of its event: \<open>ks\<close> are the places of the
  events in the log.
\<close>

definition all_noted :: "sink_answers \<Rightarrow> 'r runner \<Rightarrow> lane \<Rightarrow> nat \<Rightarrow> sink_call list \<Rightarrow> nat list \<Rightarrow> delivery list \<Rightarrow> bool" where
  "all_noted an ru ln from log ks ds = (sorted_wrt (<) ks \<and> list_all2 (\<lambda>k d. from \<le> k \<and> noted_at an ru ln log k (fst d)) ks ds)"

definition sendings :: "'r runner \<Rightarrow> lane \<Rightarrow> delivery list \<Rightarrow> (direction \<times> sent_packet) list" where
  "sendings ru ln ds = map (\<lambda>d. (ln_direction ln, sent_form ru ln d)) ds"

definition run_ok :: "sink_answers \<Rightarrow> 'r runner \<Rightarrow> lane \<Rightarrow> bridge_turn list \<Rightarrow> log_bridge \<Rightarrow> loop_error option \<Rightarrow> log_bridge \<Rightarrow> bool" where
  "run_ok an ru ln tns b res b' =
     (held b' = held b \<and> prefix (bg_recorder b) (bg_recorder b')
      \<and> (\<exists>k ks ds targets. bg_sent b' = bg_sent b @ map (\<lambda>d. (ln_direction ln, sent_form ru ln d)) ds
          \<and> bg_targets b' = bg_targets b @ targets
          \<and> bg_trace b' = bg_trace b @ map Sent (sendings ru ln (deliveries ru (take k tns))) @ map Announced targets
              @ map Sent (sendings ru ln (drop (length (deliveries ru (take k tns))) ds))
          \<and> all_noted an ru ln (length (bg_recorder b)) (bg_recorder b') ks ds
          \<and> prefix (deliveries ru (take k tns)) ds \<and> prefix ds (deliveries ru (take (Suc k) tns))
          \<and> (if res = None then k = length tns else k < length tns)
          \<and> (\<forall>d \<in> set (deliveries ru (take k tns)). followed_transfer ru ln (fst d) = None)
          \<and> ((\<exists>d \<in> set ds. followed_transfer ru ln (fst d) \<noteq> None) \<longrightarrow> targets \<noteq> [])
          \<and> (targets = [] \<or> res \<noteq> None \<and> (\<exists>d target. delivered ru (tn_answer (tns ! k)) = Some d \<and> followed_target ru ln d = Some target \<and> targets = [target]))
          \<and> (\<forall>td. res = Some (TransferDone td) \<longrightarrow> ds \<noteq> [] \<and> followed_target ru ln (last ds) = Some (td_target td) \<and> targets = [td_target td])))"

lemma noted_at_mono: "prefix log log' \<Longrightarrow> noted_at an ru ln log k p \<Longrightarrow> noted_at an ru ln log' k p"
  by (auto simp: noted_at_def nth_append elim!: prefixE)

lemma run_ok_last:
  assumes "turn_ok an ru ln b 0 (delivered ru (tn_answer tn)) (Some e) b'"
  shows "run_ok an ru ln (tn # tns) b (Some e) b'"
proof (cases "delivered ru (tn_answer tn)")
  case None
  then show ?thesis unfolding run_ok_def using assms
    by (intro conjI exI [of _ 0] exI [of _ "[]"]) (auto simp: turn_ok_def all_noted_def deliveries_def sendings_def)
next
  case (Some d)
  from assms [unfolded turn_ok_def Some option.case] obtain sent targets where
    st: "bg_sent b' = bg_sent b @ sent" "bg_targets b' = bg_targets b @ targets"
      "bg_trace b' = bg_trace b @ map Announced targets @ map Sent sent"
      "sent = [] \<or> sent = [(ln_direction ln, sent_form ru ln d)]
         \<and> (\<exists>k \<ge> length (bg_recorder b). noted_at an ru ln (bg_recorder b') k (fst d))
         \<and> (followed_transfer ru ln (fst d) \<noteq> None \<longrightarrow> targets \<noteq> [])"
      "targets = [] \<or> (\<exists>target. followed_target ru ln d = Some target \<and> targets = [target])"
      "\<forall>td. Some e = Some (TransferDone td) \<longrightarrow> sent \<noteq> [] \<and> targets = [td_target td]"
    by blast
  have del: "deliveries ru (take (Suc 0) (tn # tns)) = [d]" using Some by (simp add: deliveries_def)
  obtain ks where ks: "all_noted an ru ln (length (bg_recorder b)) (bg_recorder b') ks (if sent = [] then [] else [d])"
  proof (cases "sent = []")
    case True
    then show ?thesis using that [of "[]"] by (simp add: all_noted_def)
  next
    case False
    then obtain k where "length (bg_recorder b) \<le> k" "noted_at an ru ln (bg_recorder b') k (fst d)" using st(4) by blast
    then show ?thesis using that [of "[k]"] False by (simp add: all_noted_def)
  qed
  show ?thesis unfolding run_ok_def
    by (intro conjI exI [of _ 0] exI [of _ ks] exI [of _ "if sent = [] then [] else [d]"] exI [of _ targets])
      (use assms ks st del Some in \<open>auto simp: turn_ok_def deliveries_def sendings_def\<close>)
qed

lemma turn_ok_goes_on:
  assumes "turn_ok an ru ln b 0 d None b1"
  shows "held b1 = held b" "prefix (bg_recorder b) (bg_recorder b1)" "bg_targets b1 = bg_targets b"
    and "\<exists>ks ds. (case d of None \<Rightarrow> ds = [] | Some x \<Rightarrow> ds = [x] \<and> followed_transfer ru ln (fst x) = None)
      \<and> bg_sent b1 = bg_sent b @ map (\<lambda>x. (ln_direction ln, sent_form ru ln x)) ds \<and> bg_trace b1 = bg_trace b @ map Sent (sendings ru ln ds)
      \<and> all_noted an ru ln (length (bg_recorder b)) (bg_recorder b1) ks ds"
proof -
  show "held b1 = held b" "prefix (bg_recorder b) (bg_recorder b1)" "bg_targets b1 = bg_targets b"
    using assms by (auto simp: turn_ok_def split: option.splits)
  show "\<exists>ks ds. (case d of None \<Rightarrow> ds = [] | Some x \<Rightarrow> ds = [x] \<and> followed_transfer ru ln (fst x) = None)
      \<and> bg_sent b1 = bg_sent b @ map (\<lambda>x. (ln_direction ln, sent_form ru ln x)) ds \<and> bg_trace b1 = bg_trace b @ map Sent (sendings ru ln ds)
      \<and> all_noted an ru ln (length (bg_recorder b)) (bg_recorder b1) ks ds"
  proof (cases d)
    case None
    then show ?thesis using assms by (intro exI [of _ "[]"]) (auto simp: turn_ok_def all_noted_def sendings_def)
  next
    case (Some x)
    then have "followed_transfer ru ln (fst x) = None" "bg_sent b1 = bg_sent b @ [(ln_direction ln, sent_form ru ln x)]"
        "bg_trace b1 = bg_trace b @ [Sent (ln_direction ln, sent_form ru ln x)]" "\<exists>k \<ge> length (bg_recorder b). noted_at an ru ln (bg_recorder b1) k (fst x)"
      using assms by (auto simp: turn_ok_def)
    then obtain k where "followed_transfer ru ln (fst x) = None" "bg_sent b1 = bg_sent b @ [(ln_direction ln, sent_form ru ln x)]"
        "bg_trace b1 = bg_trace b @ [Sent (ln_direction ln, sent_form ru ln x)]" "length (bg_recorder b) \<le> k" "noted_at an ru ln (bg_recorder b1) k (fst x)" by blast
    then show ?thesis using Some by (intro exI [of _ "[k]"] exI [of _ "[x]"]) (simp add: all_noted_def sendings_def)
  qed
qed

lemma all_noted_append:
  assumes "all_noted an ru ln n log1 ks1 ds1" "all_noted an ru ln (length log1) log2 ks2 ds2" "prefix log1 log2" "n \<le> length log1"
  shows "all_noted an ru ln n log2 (ks1 @ ks2) (ds1 @ ds2)"
proof -
  have lo: "k < length log1" if "k \<in> set ks1" for k
    using assms(1) that by (auto simp: all_noted_def noted_at_def list_all2_conv_all_nth in_set_conv_nth)
  have hi: "length log1 \<le> k" if "k \<in> set ks2" for k
    using assms(2) that by (auto simp: all_noted_def list_all2_conv_all_nth in_set_conv_nth)
  have "list_all2 (\<lambda>k d. n \<le> k \<and> noted_at an ru ln log2 k (fst d)) ks1 ds1"
    by (rule list_all2_mono [OF assms(1) [unfolded all_noted_def, THEN conjunct2]]) (use noted_at_mono [OF assms(3)] in blast)
  moreover have "list_all2 (\<lambda>k d. n \<le> k \<and> noted_at an ru ln log2 k (fst d)) ks2 ds2"
    by (rule list_all2_mono [OF assms(2) [unfolded all_noted_def, THEN conjunct2]]) (use assms(4) in simp)
  moreover have "\<forall>x \<in> set ks1. \<forall>y \<in> set ks2. x < y" using lo hi less_le_trans by blast
  ultimately show ?thesis using assms(1,2) by (simp add: all_noted_def sorted_wrt_append list_all2_appendI)
qed

lemma run_ok_Cons:
  assumes "turn_ok an ru ln b 0 (delivered ru (tn_answer tn)) None b1" "run_ok an ru ln tns b1 res b'"
  shows "run_ok an ru ln (tn # tns) b res b'"
proof -
  note g = turn_ok_goes_on [OF assms(1)]
  from g(4) obtain ks1 ds1 where d1: "case delivered ru (tn_answer tn) of None \<Rightarrow> ds1 = [] | Some x \<Rightarrow> ds1 = [x] \<and> followed_transfer ru ln (fst x) = None"
      "bg_sent b1 = bg_sent b @ map (\<lambda>x. (ln_direction ln, sent_form ru ln x)) ds1" "bg_trace b1 = bg_trace b @ map Sent (sendings ru ln ds1)"
      "all_noted an ru ln (length (bg_recorder b)) (bg_recorder b1) ks1 ds1" by blast
  from assms(2) [unfolded run_ok_def] obtain k ks ds targets where
    h: "held b' = held b1" "prefix (bg_recorder b1) (bg_recorder b')" and
    r: "bg_sent b' = bg_sent b1 @ map (\<lambda>d. (ln_direction ln, sent_form ru ln d)) ds"
       "bg_targets b' = bg_targets b1 @ targets"
       "all_noted an ru ln (length (bg_recorder b1)) (bg_recorder b') ks ds"
       "prefix (deliveries ru (take k tns)) ds" "prefix ds (deliveries ru (take (Suc k) tns))"
       "if res = None then k = length tns else k < length tns"
       "\<forall>d \<in> set (deliveries ru (take k tns)). followed_transfer ru ln (fst d) = None"
       "(\<exists>d \<in> set ds. followed_transfer ru ln (fst d) \<noteq> None) \<longrightarrow> targets \<noteq> []"
       "targets = [] \<or> res \<noteq> None \<and> (\<exists>d target. delivered ru (tn_answer (tns ! k)) = Some d \<and> followed_target ru ln d = Some target \<and> targets = [target])"
       "\<forall>td. res = Some (TransferDone td) \<longrightarrow> ds \<noteq> [] \<and> followed_target ru ln (last ds) = Some (td_target td) \<and> targets = [td_target td]"
       "bg_trace b' = bg_trace b1 @ map Sent (sendings ru ln (deliveries ru (take k tns))) @ map Announced targets
          @ map Sent (sendings ru ln (drop (length (deliveries ru (take k tns))) ds))"
    by blast
  have del: "deliveries ru (take (Suc n) (tn # tns)) = ds1 @ deliveries ru (take n tns)" for n
    using d1(1) by (simp add: deliveries_Cons split: option.splits)
  have none: "\<forall>x \<in> set ds1. followed_transfer ru ln (fst x) = None" using d1(1) by (auto split: option.splits)
  have noted: "all_noted an ru ln (length (bg_recorder b)) (bg_recorder b') (ks1 @ ks) (ds1 @ ds)"
    by (rule all_noted_append [OF d1(4) r(3) h(2)]) (use g(2) prefix_length_le in blast)
  show ?thesis unfolding run_ok_def
  proof (intro conjI exI [of _ "Suc k"] exI [of _ "ks1 @ ks"] exI [of _ "ds1 @ ds"] exI [of _ targets])
    show "bg_sent b' = bg_sent b @ map (\<lambda>d. (ln_direction ln, sent_form ru ln d)) (ds1 @ ds)" using d1(2) r(1) by simp
    show "all_noted an ru ln (length (bg_recorder b)) (bg_recorder b') (ks1 @ ks) (ds1 @ ds)" by (rule noted)
    show "bg_trace b' = bg_trace b @ map Sent (sendings ru ln (deliveries ru (take (Suc k) (tn # tns)))) @ map Announced targets
        @ map Sent (sendings ru ln (drop (length (deliveries ru (take (Suc k) (tn # tns)))) (ds1 @ ds)))"
      using d1(3) r(11) by (simp add: del sendings_def del: take_Suc_Cons)
    show "prefix (deliveries ru (take (Suc k) (tn # tns))) (ds1 @ ds)" "prefix (ds1 @ ds) (deliveries ru (take (Suc (Suc k)) (tn # tns)))"
      using r(4,5) by (simp_all add: del del: take_Suc_Cons)
    show "\<forall>d \<in> set (deliveries ru (take (Suc k) (tn # tns))). followed_transfer ru ln (fst d) = None"
      using r(7) none by (auto simp: del simp del: take_Suc_Cons)
    show "prefix (bg_recorder b) (bg_recorder b')" using g(2) h(2) prefix_order.trans by blast
    show "(\<exists>d \<in> set (ds1 @ ds). followed_transfer ru ln (fst d) \<noteq> None) \<longrightarrow> targets \<noteq> []" using r(8) none by auto
    show "\<forall>td. res = Some (TransferDone td) \<longrightarrow>
        ds1 @ ds \<noteq> [] \<and> followed_target ru ln (last (ds1 @ ds)) = Some (td_target td) \<and> targets = [td_target td]" using r(10) by auto
  qed (use g h r in auto)
qed

lemma run_effect:
  assumes "ru_sink ru = logging an" "forward ru ln tns b = (res, b')"
  shows "run_ok an ru ln tns b res b'"
  using assms(2)
proof (induction tns arbitrary: b)
  case Nil
  then show ?case unfolding run_ok_def
    by (intro conjI exI [of _ 0] exI [of _ "[]"]) (auto simp: all_noted_def deliveries_def sendings_def)
next
  case (Cons tn tns)
  obtain r1 b1 where t: "forward_turn ru ln tn b = (r1, b1)" by force
  note e = turn_effect [OF assms(1) t]
  show ?case
  proof (cases r1)
    case None
    then have "forward ru ln tns b1 = (res, b')" using Cons.prems t by simp
    from run_ok_Cons [OF e [unfolded None] Cons.IH [OF this]] show ?thesis .
  next
    case (Some x)
    then have "res = Some x" "b' = b1" using Cons.prems t by simp_all
    then show ?thesis using run_ok_last e Some by metis
  qed
qed

section \<open>What a loop reports\<close>

lemma finish_forward_reports:
  assumes "ru_sink ru = logging an" "finish_forward ru ln kind op e b = (cap, b')"
  shows "bg_shutting b'"
    and "expected_transport_shutdown e \<and> (bg_shutting b \<or> write_side_error kind) \<Longrightarrow> cap = None \<and> bg_recorder b' = bg_recorder b"
    and "\<not> (expected_transport_shutdown e \<and> (bg_shutting b \<or> write_side_error kind)) \<Longrightarrow>
      bg_recorder b' = bg_recorder b @ [event_call (network_error_event ln kind op e)]
      \<and> (cap = None \<longleftrightarrow> is_ok (an_event an (length (bg_recorder b))))"
  using assms by (auto simp: finish_forward_def record_one_logging Let_def split: if_splits sum.splits)

text \<open>
  C6. The forwarding loop is transparent and sends nothing unrecorded. Whatever the connections and the
  recorder answer, the packets sent are those that were read, in order and without omission, up to at most
  the one of the turn that ends the loop: with raw access the bytes as they were read, else the packet, and
  only a followed transfer is rewritten, as the last packet of the loop. Each one is sent after the recorder
  accepted its event, at increasing places of the log. The target of a transfer is announced at most once,
  after the packets before the transfer and before the transfer itself, and is the one that the loop returns;
  and every read is released exactly once, on every path.
\<close>

theorem forward_faithful:
  assumes "ru_sink ru = logging an" "forward ru ln tns b = (res, b')"
  shows "int (bg_acquired b') - int (bg_released b') = int (bg_acquired b) - int (bg_released b)
    \<and> (\<exists>k ks ds targets. bg_sent b' = bg_sent b @ map (\<lambda>d. (ln_direction ln, sent_form ru ln d)) ds
        \<and> bg_targets b' = bg_targets b @ targets
        \<and> bg_trace b' = bg_trace b @ map Sent (sendings ru ln (deliveries ru (take k tns))) @ map Announced targets
            @ map Sent (sendings ru ln (drop (length (deliveries ru (take k tns))) ds))
        \<and> prefix (deliveries ru (take k tns)) ds \<and> prefix ds (deliveries ru (take (Suc k) tns))
        \<and> (if res = None then k = length tns else k < length tns)
        \<and> all_noted an ru ln (length (bg_recorder b)) (bg_recorder b') ks ds
        \<and> (\<forall>d \<in> set (deliveries ru (take k tns)). followed_transfer ru ln (fst d) = None)
        \<and> ((\<exists>d \<in> set ds. followed_transfer ru ln (fst d) \<noteq> None) \<longrightarrow> targets \<noteq> [])
        \<and> (targets = [] \<or> res \<noteq> None \<and> (\<exists>d target. delivered ru (tn_answer (tns ! k)) = Some d
             \<and> followed_target ru ln d = Some target \<and> targets = [target]))
        \<and> (\<forall>td. res = Some (TransferDone td) \<longrightarrow>
             ds \<noteq> [] \<and> followed_target ru ln (last ds) = Some (td_target td) \<and> targets = [td_target td]))"
  using run_effect [OF assms] unfolding run_ok_def held_def by blast

section \<open>A chunk and a transfer\<close>

definition chunk_packet :: bridge_packet where
  "chunk_packet = \<lparr>bp_id = 58, bp_name = ''LevelChunk'', bp_go_type = ''*packet.LevelChunk'', bp_view = GBool ''bool'' True, bp_body = PlainBody\<rparr>"

definition chunk_read :: raw_read where
  "chunk_read = \<lparr>rw_id = 58, rw_sender = 0, rw_target = 0, rw_payload = [9, 8]\<rparr>"

definition plain_turn :: "bridge_answer \<Rightarrow> bridge_turn" where
  "plain_turn a =
     \<lparr>tn_now = (0, 0), tn_answer = a, tn_write = None, tn_flush = None, tn_read_time = 0, tn_record_time = 0, tn_write_time = 0,
      tn_flush_time = 0, tn_local = None, tn_guid = None\<rparr>"

definition patient_sink :: sink_answers where
  "patient_sink = \<lparr>an_event = (\<lambda>k. Inr (empty_event\<lparr>ev_sequence := of_nat (k + 1)\<rparr>)), an_limit = (\<lambda>k. Inr ())\<rparr>"

definition plain_runner :: "bool \<Rightarrow> sink_call list runner" where
  "plain_runner follow =
     \<lparr>ru_sink = logging patient_sink, ru_recorder_err = (\<lambda>_. None), ru_follow = follow, ru_max_items = 0, ru_preview = 32,
      ru_heap = (\<lambda>_ _. GInvalid), ru_marshal = (\<lambda>_. NoMarshaler), ru_sprint = (\<lambda>_. []), ru_envelope = (\<lambda>_ _. Inr ''{}''),
      ru_view_error = (\<lambda>_. ([], [])), ru_unknown_view = (\<lambda>_ _. GInvalid), ru_rewrite_view = (\<lambda>_ _ _ _. GInvalid),
      ru_rewrite_error = (\<lambda>_. \<lparr>ne_message = [], ne_type = [], ne_canceled = False, ne_closed = False, ne_disconnect = False, ne_timeout = None\<rparr>),
      ru_timing_json = (\<lambda>_. Some ''{}'')\<rparr>"

definition down_lane :: lane where
  "down_lane = \<lparr>ln_direction = DirectionServerToClient, ln_channel = ''upstream'', ln_connection = ''upstream-1'', ln_hop = 1, ln_local = ''127.0.0.1:19132''\<rparr>"

definition new_bridge :: "terminal \<Rightarrow> 'r \<Rightarrow> 'r bridge" where
  "new_bridge tm r =
     \<lparr>bg_recorder = r, bg_failures = new_failure_sink True, bg_shutting = False,
      bg_live = new_live_reporter tm 0 Map.empty Map.empty (0, 0), bg_sent = [], bg_targets = [], bg_trace = [], bg_acquired = 0, bg_released = 0\<rparr>"

definition quiet_terminal :: terminal where "quiet_terminal = \<lparr>tm_no_color = True, tm_mode = None\<rparr>"

definition closed_error :: net_error where
  "closed_error = \<lparr>ne_message = ''closed'', ne_type = ''*net.OpError'', ne_canceled = False, ne_closed = True, ne_disconnect = False, ne_timeout = None\<rparr>"

definition chunk_turns :: "bridge_turn list" where
  "chunk_turns = [plain_turn (RawBytes chunk_read (CloneDecoded (Some chunk_packet))), plain_turn (RawFails closed_error False)]"

abbreviation chunk_end :: "loop_error option \<times> log_bridge" where
  "chunk_end \<equiv> forward (plain_runner False) down_lane chunk_turns (new_bridge quiet_terminal [])"

lemma chunk_sent: "bg_sent (snd chunk_end) = [(DirectionServerToClient, RawOut chunk_read)]"
  by code_simp

lemma new_bridge_empty: "bg_sent (new_bridge tm r) = []" "bg_recorder (new_bridge tm r) = r"
  by (simp_all add: new_bridge_def)

lemma chunk_form: "sent_form (plain_runner False) down_lane d = RawOut chunk_read \<Longrightarrow> snd d = Some chunk_read"
  by (simp add: sent_form_def followed_transfer_def plain_runner_def split: option.splits)

theorem forward_faithful_witness:
  "\<exists>ks d. snd d = Some chunk_read \<and> all_noted patient_sink (plain_runner False) down_lane 0 (bg_recorder (snd chunk_end)) ks [d]"
proof -
  have sink: "ru_sink (plain_runner False) = logging patient_sink" by (simp add: plain_runner_def)
  have run: "chunk_end = (fst chunk_end, snd chunk_end)" by simp
  obtain ks ds where f: "bg_sent (snd chunk_end)
        = bg_sent (new_bridge quiet_terminal []) @ map (\<lambda>d. (ln_direction down_lane, sent_form (plain_runner False) down_lane d)) ds"
      "all_noted patient_sink (plain_runner False) down_lane 0 (bg_recorder (snd chunk_end)) ks ds"
    using forward_faithful [OF sink run] unfolding new_bridge_empty by (auto simp: new_bridge_empty)
  then obtain d where d: "ds = [d]" "sent_form (plain_runner False) down_lane d = RawOut chunk_read"
    by (auto simp: chunk_sent new_bridge_empty)
  then show ?thesis using f(2) chunk_form by blast
qed

end
