(* ===== verification/Proxy_Hop_Theorems.thy ===== *)
theory Proxy_Hop_Theorems
  imports Proxy_Hop Forward_Theorems
begin

text \<open>
  Both loops of a hop together: what is sent in each direction under every interleaving, with the observers'
  records in between, and what the hop makes of the results.
\<close>

section \<open>The invariant\<close>

definition sent_in :: "direction \<Rightarrow> (direction \<times> sent_packet) list \<Rightarrow> sent_packet list" where
  "sent_in dir sent = map snd (filter (\<lambda>x. fst x = dir) sent)"

lemma sent_in_simps [simp]: "sent_in dir [] = []" "sent_in dir (xs @ ys) = sent_in dir xs @ sent_in dir ys"
  by (simp_all add: sent_in_def)

lemma sent_in_one: "sent_in dir [(dir', x)] = (if dir' = dir then [x] else [])"
  by (simp add: sent_in_def)

definition plain_all :: "'r runner \<Rightarrow> lane \<Rightarrow> delivery list \<Rightarrow> bool" where
  "plain_all ru ln ds = (\<forall>x \<in> set ds. followed_transfer ru ln (fst x) = None)"

definition lane_ok :: "'r runner \<Rightarrow> lane \<Rightarrow> loop_place \<Rightarrow> delivery list \<Rightarrow> sent_packet list \<Rightarrow> bool" where
  "lane_ok ru ln place ds sent =
     (case place of
        AtPacket tn p raw \<Rightarrow>
          ds \<noteq> [] \<and> last ds = (p, raw) \<and> sent = map (sent_form ru ln) (butlast ds) \<and> plain_all ru ln (butlast ds)
      | LoopEnded \<Rightarrow>
          prefix (map (sent_form ru ln) (butlast ds)) sent \<and> prefix sent (map (sent_form ru ln) ds) \<and> plain_all ru ln (butlast ds)
      | _ \<Rightarrow> sent = map (sent_form ru ln) ds \<and> plain_all ru ln ds)"

lemma lane_ok_move:
  "place \<in> {AtCheck, AtRead} \<Longrightarrow> place' \<in> {AtCheck, AtRead} \<Longrightarrow> lane_ok ru ln place ds s \<Longrightarrow> lane_ok ru ln place' ds s"
  by (auto simp: lane_ok_def)

lemma lane_ok_read: "lane_ok ru ln AtRead ds s \<Longrightarrow> lane_ok ru ln (AtPacket tn p raw) (ds @ [(p, raw)]) s"
  by (simp add: lane_ok_def)

lemma lane_ok_end:
  assumes "place \<in> {AtCheck, AtRead}" "lane_ok ru ln place ds s"
  shows "lane_ok ru ln LoopEnded ds s"
proof -
  have s: "s = map (sent_form ru ln) ds" "plain_all ru ln ds" using assms by (auto simp: lane_ok_def)
  have "plain_all ru ln (butlast ds)" using s(2) in_set_butlastD unfolding plain_all_def by metis
  moreover have "prefix (map (sent_form ru ln) (butlast ds)) (map (sent_form ru ln) ds)" by (simp add: map_mono_prefix prefixeq_butlast)
  ultimately show ?thesis using s(1) by (simp add: lane_ok_def)
qed

definition in_hand :: "loop_place \<Rightarrow> int" where
  "in_hand place = (case place of AtPacket tn p raw \<Rightarrow> one_if (raw \<noteq> None) | _ \<Rightarrow> 0)"

definition sent_noted :: "sink_answers \<Rightarrow> 'r runner \<Rightarrow> (hop_side \<Rightarrow> lane) \<Rightarrow> log_bridge \<Rightarrow> bool" where
  "sent_noted an ru lanes b =
     (\<forall>x \<in> set (bg_sent b). \<exists>d y k. x = (ln_direction (lanes d), sent_form ru (lanes d) y)
        \<and> noted_at an ru (lanes d) (bg_recorder b) k (fst y))"

text \<open>
  A target is announced by a loop that ends with its transfer; at most one by each loop that leads downstream,
  and a loop that returns a transfer has sent all it read.
\<close>

definition targets_few :: "(hop_side \<Rightarrow> lane) \<Rightarrow> (hop_side \<times> loop_error) list \<Rightarrow> string list \<Rightarrow> bool" where
  "targets_few lanes results ts = (length ts \<le> length (filter (\<lambda>x. ln_direction (lanes (fst x)) = DirectionServerToClient) results))"

definition targets_from :: "'r runner \<Rightarrow> (hop_side \<Rightarrow> lane) \<Rightarrow> (hop_side \<Rightarrow> loop_place) \<Rightarrow> (hop_side \<Rightarrow> delivery list) \<Rightarrow> string list \<Rightarrow> bool" where
  "targets_from ru lanes loop reads ts =
     (\<forall>t \<in> set ts. \<exists>d. loop d = LoopEnded \<and> reads d \<noteq> [] \<and> followed_target ru (lanes d) (last (reads d)) = Some t)"

definition transfers_sent :: "'r runner \<Rightarrow> (hop_side \<Rightarrow> lane) \<Rightarrow> (hop_side \<times> loop_error) list \<Rightarrow> (hop_side \<Rightarrow> delivery list) \<Rightarrow> (direction \<times> sent_packet) list \<Rightarrow>
    string list \<Rightarrow> bool" where
  "transfers_sent ru lanes results reads sent ts =
     (\<forall>d td. (d, TransferDone td) \<in> set results \<longrightarrow> td_target td \<in> set ts \<and> reads d \<noteq> []
        \<and> followed_target ru (lanes d) (last (reads d)) = Some (td_target td)
        \<and> sent_in (ln_direction (lanes d)) sent = map (sent_form ru (lanes d)) (reads d))"

lemma targets_from_mono:
  assumes "targets_from ru lanes loop reads ts" "\<And>d. loop d = LoopEnded \<Longrightarrow> loop' d = LoopEnded \<and> reads' d = reads d"
  shows "targets_from ru lanes loop' reads' ts"
  unfolding targets_from_def
proof
  fix t assume "t \<in> set ts"
  then obtain d where d: "loop d = LoopEnded" "reads d \<noteq> [] \<and> followed_target ru (lanes d) (last (reads d)) = Some t"
    using assms(1) unfolding targets_from_def by blast
  show "\<exists>d. loop' d = LoopEnded \<and> reads' d \<noteq> [] \<and> followed_target ru (lanes d) (last (reads' d)) = Some t"
    using assms(2) [OF d(1)] d(2) by (intro exI [of _ d]) simp
qed

lemma transfers_sent_mono:
  assumes "transfers_sent ru lanes results reads sent ts" "set ts \<subseteq> set ts'"
    and "\<And>d. d \<in> fst ` set results \<Longrightarrow> reads' d = reads d \<and> sent_in (ln_direction (lanes d)) sent' = sent_in (ln_direction (lanes d)) sent"
  shows "transfers_sent ru lanes results reads' sent' ts'"
  unfolding transfers_sent_def
proof (intro allI impI)
  fix d td assume r: "(d, TransferDone td) \<in> set results"
  then have "d \<in> fst ` set results" by force
  note same = assms(3) [OF this]
  have "td_target td \<in> set ts \<and> reads d \<noteq> [] \<and> followed_target ru (lanes d) (last (reads d)) = Some (td_target td)
      \<and> sent_in (ln_direction (lanes d)) sent = map (sent_form ru (lanes d)) (reads d)"
    using assms(1) r unfolding transfers_sent_def by blast
  then show "td_target td \<in> set ts' \<and> reads' d \<noteq> [] \<and> followed_target ru (lanes d) (last (reads' d)) = Some (td_target td)
      \<and> sent_in (ln_direction (lanes d)) sent' = map (sent_form ru (lanes d)) (reads' d)"
    using same assms(2) by auto
qed

definition targets_ok :: "'r runner \<Rightarrow> (hop_side \<Rightarrow> lane) \<Rightarrow> sink_call list hop \<Rightarrow> bool" where
  "targets_ok ru lanes h =
     (targets_few lanes (hp_results h) (bg_targets (hp_bridge h))
      \<and> targets_from ru lanes (hp_loop h) (hp_read h) (bg_targets (hp_bridge h))
      \<and> transfers_sent ru lanes (hp_results h) (hp_read h) (bg_sent (hp_bridge h)) (bg_targets (hp_bridge h)))"

definition hop_ok :: "sink_answers \<Rightarrow> sink_call list runner \<Rightarrow> (hop_side \<Rightarrow> lane) \<Rightarrow> log_bridge \<Rightarrow> sink_call list hop \<Rightarrow> bool" where
  "hop_ok an ru lanes b0 h =
     ((\<forall>d. lane_ok ru (lanes d) (hp_loop h d) (hp_read h d) (sent_in (ln_direction (lanes d)) (bg_sent (hp_bridge h))))
      \<and> held (hp_bridge h) = held b0 + in_hand (hp_loop h ToClient) + in_hand (hp_loop h ToServer)
      \<and> sent_noted an ru lanes (hp_bridge h) \<and> targets_ok ru lanes h
      \<and> distinct (map fst (hp_results h)) \<and> (\<forall>d. d \<in> fst ` set (hp_results h) \<longleftrightarrow> hp_loop h d = LoopEnded))"

lemma hop_ok_start: "bg_sent b = [] \<Longrightarrow> bg_targets b = [] \<Longrightarrow> hop_ok an ru lanes b (start_loops b)"
  by (simp add: hop_ok_def start_loops_def lane_ok_def plain_all_def in_hand_def sent_noted_def targets_ok_def
      targets_few_def targets_from_def transfers_sent_def)

lemma sent_noted_mono:
  assumes "sent_noted an ru lanes b" "bg_sent b' = bg_sent b" "prefix (bg_recorder b) (bg_recorder b')"
  shows "sent_noted an ru lanes b'"
  using assms noted_at_mono [OF assms(3)] unfolding sent_noted_def by metis

lemma hop_okI:
  assumes "\<And>d. lane_ok ru (lanes d) (hp_loop h d) (hp_read h d) (sent_in (ln_direction (lanes d)) (bg_sent (hp_bridge h)))"
    "held (hp_bridge h) = held b0 + in_hand (hp_loop h ToClient) + in_hand (hp_loop h ToServer)"
    "sent_noted an ru lanes (hp_bridge h)" "targets_ok ru lanes h"
    "distinct (map fst (hp_results h))" "\<And>d. d \<in> fst ` set (hp_results h) \<longleftrightarrow> hp_loop h d = LoopEnded"
  shows "hop_ok an ru lanes b0 h"
  using assms unfolding hop_ok_def by blast

lemma hop_okD:
  assumes "hop_ok an ru lanes b0 h"
  shows "lane_ok ru (lanes d) (hp_loop h d) (hp_read h d) (sent_in (ln_direction (lanes d)) (bg_sent (hp_bridge h)))"
    "held (hp_bridge h) = held b0 + in_hand (hp_loop h ToClient) + in_hand (hp_loop h ToServer)"
    "sent_noted an ru lanes (hp_bridge h)" "targets_ok ru lanes h"
    "distinct (map fst (hp_results h))" "d \<in> fst ` set (hp_results h) \<longleftrightarrow> hp_loop h d = LoopEnded"
  using assms unfolding hop_ok_def by blast+

text \<open>Moves of one loop within its turn.\<close>

lemma move_loop_simps [simp]:
  "hp_bridge (move_loop d place b h) = b" "hp_loop (move_loop d place b h) = (hp_loop h)(d := place)"
  "hp_read (move_loop d place b h) = hp_read h" "hp_results (move_loop d place b h) = hp_results h"
  by (simp_all add: move_loop_def)

lemma end_loop_simps [simp]:
  "hp_bridge (end_loop d e b h) = b" "hp_loop (end_loop d e b h) = (hp_loop h)(d := LoopEnded)"
  "hp_read (end_loop d e b h) = hp_read h" "hp_results (end_loop d e b h) = hp_results h @ [(d, e)]"
  by (simp_all add: end_loop_def)

lemma hop_ok_quiet:
  assumes h: "hop_ok an ru lanes b0 h" and s: "stepped (hp_bridge h) 0 b"
    and p: "hp_loop h d \<in> {AtCheck, AtRead}" "place \<in> {AtCheck, AtRead}"
  shows "hop_ok an ru lanes b0 (move_loop d place b h)"
proof (rule hop_okI)
  note o = hop_okD [OF h]
  have b: "bg_sent b = bg_sent (hp_bridge h)" "bg_targets b = bg_targets (hp_bridge h)" "held b = held (hp_bridge h)"
      "prefix (bg_recorder (hp_bridge h)) (bg_recorder b)" using s by (simp_all add: stepped_def)
  have i: "in_hand (hp_loop h d) = 0" "in_hand place = 0" using p by (auto simp: in_hand_def)
  show "lane_ok ru (lanes x) (hp_loop (move_loop d place b h) x) (hp_read (move_loop d place b h) x)
      (sent_in (ln_direction (lanes x)) (bg_sent (hp_bridge (move_loop d place b h))))" for x
    using o(1) [of x] lane_ok_move [OF p] b(1) by (cases "x = d") simp_all
  show "held (hp_bridge (move_loop d place b h))
      = held b0 + in_hand (hp_loop (move_loop d place b h) ToClient) + in_hand (hp_loop (move_loop d place b h) ToServer)"
    using o(2) i b(3) by (cases d) simp_all
  show "sent_noted an ru lanes (hp_bridge (move_loop d place b h))" using sent_noted_mono [OF o(3) b(1,4)] by simp
  note tk = o(4) [unfolded targets_ok_def]
  have "targets_from ru lanes ((hp_loop h)(d := place)) (hp_read h) (bg_targets (hp_bridge h))"
    by (rule targets_from_mono [OF tk [THEN conjunct2, THEN conjunct1]]) (use p(1) in auto)
  then show "targets_ok ru lanes (move_loop d place b h)" using tk b(1,2) by (simp add: targets_ok_def)
  show "distinct (map fst (hp_results (move_loop d place b h)))" using o(5) by simp
  show "x \<in> fst ` set (hp_results (move_loop d place b h)) \<longleftrightarrow> hp_loop (move_loop d place b h) x = LoopEnded" for x
    using o(6) [of x] p by auto
qed

text \<open>A packet is read.\<close>

lemma hop_ok_read:
  assumes h: "hop_ok an ru lanes b0 h" and s: "stepped (hp_bridge h) (one_if (raw \<noteq> None)) b" and p: "hp_loop h d = AtRead"
  shows "hop_ok an ru lanes b0 ((move_loop d (AtPacket tn p raw) b h)\<lparr>hp_read := (hp_read h)(d := hp_read h d @ [(p, raw)])\<rparr>)"
    (is "hop_ok an ru lanes b0 ?h")
proof (rule hop_okI)
  note o = hop_okD [OF h]
  have b: "bg_sent b = bg_sent (hp_bridge h)" "bg_targets b = bg_targets (hp_bridge h)" "held b = held (hp_bridge h) + one_if (raw \<noteq> None)"
      "prefix (bg_recorder (hp_bridge h)) (bg_recorder b)" using s by (simp_all add: stepped_def)
  have i: "in_hand (hp_loop h d) = 0" "in_hand (AtPacket tn p raw) = one_if (raw \<noteq> None)" using p by (auto simp: in_hand_def)
  show "lane_ok ru (lanes x) (hp_loop ?h x) (hp_read ?h x) (sent_in (ln_direction (lanes x)) (bg_sent (hp_bridge ?h)))" for x
    using o(1) [of x] lane_ok_read p b(1) by (cases "x = d") simp_all
  show "held (hp_bridge ?h) = held b0 + in_hand (hp_loop ?h ToClient) + in_hand (hp_loop ?h ToServer)"
    using o(2) i b(3) by (cases d) simp_all
  show "sent_noted an ru lanes (hp_bridge ?h)" using sent_noted_mono [OF o(3) b(1,4)] by simp
  note tk = o(4) [unfolded targets_ok_def]
  have "targets_from ru lanes ((hp_loop h)(d := AtPacket tn p raw)) ((hp_read h)(d := hp_read h d @ [(p, raw)])) (bg_targets (hp_bridge h))"
    by (rule targets_from_mono [OF tk [THEN conjunct2, THEN conjunct1]]) (use p in auto)
  moreover have "transfers_sent ru lanes (hp_results h) ((hp_read h)(d := hp_read h d @ [(p, raw)])) (bg_sent (hp_bridge h)) (bg_targets (hp_bridge h))"
  proof (rule transfers_sent_mono [OF tk [THEN conjunct2, THEN conjunct2] subset_refl])
    fix x :: hop_side assume "x \<in> fst ` set (hp_results h)"
    then have "hp_loop h x = LoopEnded" using o(6) by simp
    then have "x \<noteq> d" using p by auto
    then show "((hp_read h)(d := hp_read h d @ [(p, raw)])) x = hp_read h x
        \<and> sent_in (ln_direction (lanes x)) (bg_sent (hp_bridge h)) = sent_in (ln_direction (lanes x)) (bg_sent (hp_bridge h))" by simp
  qed
  ultimately show "targets_ok ru lanes ?h" using tk b(1,2) by (simp add: targets_ok_def)
  show "distinct (map fst (hp_results ?h))" using o(5) by simp
  show "x \<in> fst ` set (hp_results ?h) \<longleftrightarrow> hp_loop ?h x = LoopEnded" for x
    using o(6) [of x] p by auto
qed

text \<open>A loop ends before it reads a packet.\<close>

lemma results_end:
  assumes "hop_ok an ru lanes b0 h" "hp_loop h d \<noteq> LoopEnded"
  shows "distinct (map fst (hp_results (end_loop d e b h)))"
    "x \<in> fst ` set (hp_results (end_loop d e b h)) \<longleftrightarrow> hp_loop (end_loop d e b h) x = LoopEnded"
  using hop_okD(5,6) [OF assms(1)] assms(2) by (auto simp: image_iff)

lemma hop_ok_end:
  assumes h: "hop_ok an ru lanes b0 h" and s: "stepped (hp_bridge h) 0 b" and p: "hp_loop h d \<in> {AtCheck, AtRead}"
    and e: "\<forall>td. e \<noteq> TransferDone td"
  shows "hop_ok an ru lanes b0 (end_loop d e b h)" (is "hop_ok an ru lanes b0 ?h")
proof (rule hop_okI)
  note o = hop_okD [OF h]
  have b: "bg_sent b = bg_sent (hp_bridge h)" "bg_targets b = bg_targets (hp_bridge h)" "held b = held (hp_bridge h)"
      "prefix (bg_recorder (hp_bridge h)) (bg_recorder b)" using s by (simp_all add: stepped_def)
  have n: "hp_loop h d \<noteq> LoopEnded" using p by auto
  have i: "in_hand (hp_loop h d) = 0" "in_hand LoopEnded = 0" using p by (auto simp: in_hand_def)
  show "lane_ok ru (lanes x) (hp_loop ?h x) (hp_read ?h x) (sent_in (ln_direction (lanes x)) (bg_sent (hp_bridge ?h)))" for x
    using o(1) [of x] lane_ok_end [OF p] b(1) by (cases "x = d") simp_all
  show "held (hp_bridge ?h) = held b0 + in_hand (hp_loop ?h ToClient) + in_hand (hp_loop ?h ToServer)"
    using o(2) i b(3) by (cases d) simp_all
  show "sent_noted an ru lanes (hp_bridge ?h)" using sent_noted_mono [OF o(3) b(1,4)] by simp
  note tk = o(4) [unfolded targets_ok_def]
  have "targets_from ru lanes ((hp_loop h)(d := LoopEnded)) (hp_read h) (bg_targets (hp_bridge h))"
    by (rule targets_from_mono [OF tk [THEN conjunct2, THEN conjunct1]]) (metis fun_upd_apply)
  moreover have "targets_few lanes (hp_results h @ [(d, e)]) (bg_targets (hp_bridge h))" using tk by (simp add: targets_few_def)
  moreover have "transfers_sent ru lanes (hp_results h @ [(d, e)]) (hp_read h) (bg_sent (hp_bridge h)) (bg_targets (hp_bridge h))"
    using tk e unfolding transfers_sent_def by (auto simp only: set_append set_simps Un_iff insert_iff empty_iff prod.inject)
  ultimately show "targets_ok ru lanes ?h" using b(1,2) by (simp add: targets_ok_def)
  show "distinct (map fst (hp_results ?h))" by (rule results_end(1) [OF h n])
  show "x \<in> fst ` set (hp_results ?h) \<longleftrightarrow> hp_loop ?h x = LoopEnded" for x by (rule results_end(2) [OF h n])
qed

text \<open>What the turn of a packet does, with the witness of its record.\<close>

lemma packet_turn:
  assumes "turn_ok an ru ln b n (Some (p, raw)) res b'"
  obtains sent targets where "held b' = held b - n" "prefix (bg_recorder b) (bg_recorder b')"
    "bg_sent b' = bg_sent b @ sent" "bg_targets b' = bg_targets b @ targets"
    "sent = [] \<or> sent = [(ln_direction ln, sent_form ru ln (p, raw))] \<and> (\<exists>k. noted_at an ru ln (bg_recorder b') k p)"
    "targets = [] \<or> (\<exists>target. followed_target ru ln (p, raw) = Some target \<and> targets = [target])"
    "targets = [] \<or> res \<noteq> None"
    "res = None \<Longrightarrow> sent \<noteq> [] \<and> followed_transfer ru ln p = None"
    "\<And>td. res = Some (TransferDone td) \<Longrightarrow> sent \<noteq> [] \<and> targets = [td_target td]"
  using assms that unfolding turn_ok_def by (simp only: option.case fst_conv) blast

lemma sent_noted_more:
  assumes "sent_noted an ru lanes b" "bg_sent b' = bg_sent b @ sent" "prefix (bg_recorder b) (bg_recorder b')"
    "sent = [] \<or> sent = [(ln_direction (lanes d), sent_form ru (lanes d) (p, raw))] \<and> (\<exists>k. noted_at an ru (lanes d) (bg_recorder b') k p)"
  shows "sent_noted an ru lanes b'"
proof -
  have old: "\<exists>d y k. x = (ln_direction (lanes d), sent_form ru (lanes d) y) \<and> noted_at an ru (lanes d) (bg_recorder b') k (fst y)"
    if "x \<in> set (bg_sent b)" for x
    using assms(1) that noted_at_mono [OF assms(3)] unfolding sent_noted_def by metis
  show ?thesis unfolding sent_noted_def
  proof
    fix x assume "x \<in> set (bg_sent b')"
    then consider "x \<in> set (bg_sent b)" | "x \<in> set sent" using assms(2) by auto
    then show "\<exists>d y k. x = (ln_direction (lanes d), sent_form ru (lanes d) y) \<and> noted_at an ru (lanes d) (bg_recorder b') k (fst y)"
    proof cases
      case 2
      then have "x = (ln_direction (lanes d), sent_form ru (lanes d) (p, raw))" "\<exists>k. noted_at an ru (lanes d) (bg_recorder b') k (fst (p, raw))"
        using assms(4) by auto
      then show ?thesis by metis
    qed (rule old)
  qed
qed

lemma lane_ok_sent:
  assumes "lane_ok ru ln (AtPacket tn p raw) ds s" "sent = [] \<or> sent = [(dir, sent_form ru ln (p, raw))]"
  shows "lane_ok ru ln LoopEnded ds (s @ map snd sent)"
    and "sent \<noteq> [] \<and> followed_transfer ru ln p = None \<Longrightarrow> lane_ok ru ln AtCheck ds (s @ map snd sent)"
    and "sent \<noteq> [] \<Longrightarrow> s @ map snd sent = map (sent_form ru ln) ds"
proof -
  obtain ds0 where ds: "ds = ds0 @ [(p, raw)]" using assms(1) by (cases ds rule: rev_cases) (auto simp: lane_ok_def)
  have s: "s = map (sent_form ru ln) ds0" "plain_all ru ln ds0" using assms(1) ds by (simp_all add: lane_ok_def)
  show "lane_ok ru ln LoopEnded ds (s @ map snd sent)" using assms(2) ds s by (auto simp: lane_ok_def)
  show "lane_ok ru ln AtCheck ds (s @ map snd sent)" if "sent \<noteq> [] \<and> followed_transfer ru ln p = None"
    using assms(2) ds s that by (auto simp: lane_ok_def plain_all_def)
  show "s @ map snd sent = map (sent_form ru ln) ds" if "sent \<noteq> []" using assms(2) ds s that by auto
qed

lemma hop_side_other: "x \<noteq> d \<Longrightarrow> ln_direction (lanes ToClient) \<noteq> ln_direction (lanes ToServer) \<Longrightarrow> ln_direction (lanes x) \<noteq> ln_direction (lanes d)"
  by (cases x; cases d) auto

lemma sent_in_other:
  assumes "sent = [] \<or> sent = [(ln_direction (lanes d), y)]" "ln_direction (lanes ToClient) \<noteq> ln_direction (lanes ToServer)"
  shows "sent_in (ln_direction (lanes x)) (xs @ sent) = sent_in (ln_direction (lanes x)) xs @ (if x = d then map snd sent else [])"
  using assms hop_side_other [of d x lanes] by (auto simp: sent_in_one)

lemma in_hand_packet: "hp_loop h d = AtPacket tn p raw \<Longrightarrow> place = AtCheck \<or> place = LoopEnded \<Longrightarrow>
    in_hand (((hp_loop h)(d := place)) ToClient) + in_hand (((hp_loop h)(d := place)) ToServer)
    = in_hand (hp_loop h ToClient) + in_hand (hp_loop h ToServer) - one_if (raw \<noteq> None)"
  by (cases d) (auto simp: in_hand_def)

lemma hop_ok_sent:
  assumes h: "hop_ok an ru lanes b0 h" and p: "hp_loop h d = AtPacket tn p raw"
    and t: "turn_ok an ru (lanes d) (hp_bridge h) (one_if (raw \<noteq> None)) (Some (p, raw)) None b"
    and dir: "ln_direction (lanes ToClient) \<noteq> ln_direction (lanes ToServer)"
  shows "hop_ok an ru lanes b0 (move_loop d AtCheck b h)" (is "hop_ok an ru lanes b0 ?h")
proof -
  note o = hop_okD [OF h]
  from t obtain sent targets where e: "held b = held (hp_bridge h) - one_if (raw \<noteq> None)" "prefix (bg_recorder (hp_bridge h)) (bg_recorder b)"
      "bg_sent b = bg_sent (hp_bridge h) @ sent" "bg_targets b = bg_targets (hp_bridge h)"
      "sent = [] \<or> sent = [(ln_direction (lanes d), sent_form ru (lanes d) (p, raw))] \<and> (\<exists>k. noted_at an ru (lanes d) (bg_recorder b) k p)"
      "sent \<noteq> [] \<and> followed_transfer ru (lanes d) p = None"
    by (rule packet_turn) auto
  have one: "sent = [] \<or> sent = [(ln_direction (lanes d), sent_form ru (lanes d) (p, raw))]" using e(5) by blast
  show ?thesis
  proof (rule hop_okI)
    show "lane_ok ru (lanes x) (hp_loop ?h x) (hp_read ?h x) (sent_in (ln_direction (lanes x)) (bg_sent (hp_bridge ?h)))" for x
      using o(1) [of x] lane_ok_sent(2) [OF _ one e(6)] p e(3) sent_in_other [OF one dir] by (cases "x = d") simp_all
    show "held (hp_bridge ?h) = held b0 + in_hand (hp_loop ?h ToClient) + in_hand (hp_loop ?h ToServer)"
      using o(2) e(1) in_hand_packet [OF p, of AtCheck] by simp
    show "sent_noted an ru lanes (hp_bridge ?h)" using sent_noted_more [OF o(3) e(3,2,5)] by simp
    note tk = o(4) [unfolded targets_ok_def]
    have "targets_from ru lanes ((hp_loop h)(d := AtCheck)) (hp_read h) (bg_targets (hp_bridge h))"
      by (rule targets_from_mono [OF tk [THEN conjunct2, THEN conjunct1]]) (use p in auto)
    moreover have "transfers_sent ru lanes (hp_results h) (hp_read h) (bg_sent b) (bg_targets (hp_bridge h))"
    proof (rule transfers_sent_mono [OF tk [THEN conjunct2, THEN conjunct2] subset_refl])
      fix x :: hop_side assume "x \<in> fst ` set (hp_results h)"
      then have "x \<noteq> d" using o(6) p by auto
      then show "hp_read h x = hp_read h x
          \<and> sent_in (ln_direction (lanes x)) (bg_sent b) = sent_in (ln_direction (lanes x)) (bg_sent (hp_bridge h))"
        using e(3) sent_in_other [OF one dir] by simp
    qed
    ultimately show "targets_ok ru lanes ?h" using tk e(4) by (simp add: targets_ok_def)
    show "distinct (map fst (hp_results ?h))" using o(5) by simp
    show "x \<in> fst ` set (hp_results ?h) \<longleftrightarrow> hp_loop ?h x = LoopEnded" for x using o(6) [of x] p by auto
  qed
qed

lemma followed_to_client: "followed_target ru ln y = Some t \<Longrightarrow> ln_direction ln = DirectionServerToClient"
  by (auto simp: followed_target_def followed_transfer_def split: if_splits option.splits)

lemma hop_ok_stop:
  assumes h: "hop_ok an ru lanes b0 h" and p: "hp_loop h d = AtPacket tn p raw"
    and t: "turn_ok an ru (lanes d) (hp_bridge h) (one_if (raw \<noteq> None)) (Some (p, raw)) (Some x) b"
    and dir: "ln_direction (lanes ToClient) \<noteq> ln_direction (lanes ToServer)"
  shows "hop_ok an ru lanes b0 (end_loop d x b h)" (is "hop_ok an ru lanes b0 ?h")
proof -
  note o = hop_okD [OF h]
  from t obtain sent targets where e: "held b = held (hp_bridge h) - one_if (raw \<noteq> None)" "prefix (bg_recorder (hp_bridge h)) (bg_recorder b)"
      "bg_sent b = bg_sent (hp_bridge h) @ sent" "bg_targets b = bg_targets (hp_bridge h) @ targets"
      "sent = [] \<or> sent = [(ln_direction (lanes d), sent_form ru (lanes d) (p, raw))] \<and> (\<exists>k. noted_at an ru (lanes d) (bg_recorder b) k p)"
      "targets = [] \<or> (\<exists>target. followed_target ru (lanes d) (p, raw) = Some target \<and> targets = [target])"
      "\<And>td. x = TransferDone td \<Longrightarrow> sent \<noteq> [] \<and> targets = [td_target td]"
    by (rule packet_turn) auto
  have one: "sent = [] \<or> sent = [(ln_direction (lanes d), sent_form ru (lanes d) (p, raw))]" using e(5) by blast
  have n: "hp_loop h d \<noteq> LoopEnded" using p by simp
  have l: "lane_ok ru (lanes d) (AtPacket tn p raw) (hp_read h d) (sent_in (ln_direction (lanes d)) (bg_sent (hp_bridge h)))"
    using o(1) [of d] p by simp
  then have last: "hp_read h d \<noteq> []" "last (hp_read h d) = (p, raw)" by (simp_all add: lane_ok_def)
  note tk = o(4) [unfolded targets_ok_def]
  have client: "targets \<noteq> [] \<Longrightarrow> ln_direction (lanes d) = DirectionServerToClient" using e(6) followed_to_client by blast
  have fewer: "targets_few lanes (hp_results h @ [(d, x)]) (bg_targets b)"
    using tk e(4,6) client by (cases targets) (auto simp: targets_few_def)
  have old: "targets_from ru lanes ((hp_loop h)(d := LoopEnded)) (hp_read h) (bg_targets (hp_bridge h))"
    by (rule targets_from_mono [OF tk [THEN conjunct2, THEN conjunct1]]) simp
  have origin: "targets_from ru lanes ((hp_loop h)(d := LoopEnded)) (hp_read h) (bg_targets b)"
    unfolding targets_from_def
  proof
    fix t assume "t \<in> set (bg_targets b)"
    then consider "t \<in> set (bg_targets (hp_bridge h))" | "followed_target ru (lanes d) (p, raw) = Some t" using e(4,6) by auto
    then show "\<exists>y. ((hp_loop h)(d := LoopEnded)) y = LoopEnded \<and> hp_read h y \<noteq> [] \<and> followed_target ru (lanes y) (last (hp_read h y)) = Some t"
      using old last
      unfolding targets_from_def by cases (blast, metis fun_upd_same)
  qed
  have others: "transfers_sent ru lanes (hp_results h) (hp_read h) (bg_sent b) (bg_targets b)"
  proof (rule transfers_sent_mono [OF tk [THEN conjunct2, THEN conjunct2]])
    show "set (bg_targets (hp_bridge h)) \<subseteq> set (bg_targets b)" using e(4) by simp
    fix y :: hop_side assume "y \<in> fst ` set (hp_results h)"
    then have "y \<noteq> d" using o(6) p by auto
    then show "hp_read h y = hp_read h y
        \<and> sent_in (ln_direction (lanes y)) (bg_sent b) = sent_in (ln_direction (lanes y)) (bg_sent (hp_bridge h))"
      using e(3) sent_in_other [OF one dir] by simp
  qed
  have mine: "td_target td \<in> set (bg_targets b) \<and> hp_read h d \<noteq> [] \<and> followed_target ru (lanes d) (last (hp_read h d)) = Some (td_target td)
      \<and> sent_in (ln_direction (lanes d)) (bg_sent b) = map (sent_form ru (lanes d)) (hp_read h d)" if td: "x = TransferDone td" for td
    using e(4,6) e(7) [OF td] last lane_ok_sent(3) [OF l one] e(3) sent_in_other [OF one dir, of d] by auto
  show ?thesis
  proof (rule hop_okI)
    show "lane_ok ru (lanes y) (hp_loop ?h y) (hp_read ?h y) (sent_in (ln_direction (lanes y)) (bg_sent (hp_bridge ?h)))" for y
      using o(1) [of y] lane_ok_sent(1) [OF l one] e(3) sent_in_other [OF one dir] by (cases "y = d") simp_all
    show "held (hp_bridge ?h) = held b0 + in_hand (hp_loop ?h ToClient) + in_hand (hp_loop ?h ToServer)"
      using o(2) e(1) in_hand_packet [OF p, of LoopEnded] by simp
    show "sent_noted an ru lanes (hp_bridge ?h)" using sent_noted_more [OF o(3) e(3,2,5)] by simp
    have "transfers_sent ru lanes (hp_results h @ [(d, x)]) (hp_read h) (bg_sent b) (bg_targets b)"
      using others mine unfolding transfers_sent_def by auto
    then show "targets_ok ru lanes ?h" using fewer origin by (simp add: targets_ok_def)
    show "distinct (map fst (hp_results ?h))" by (rule results_end(1) [OF h n])
    show "y \<in> fst ` set (hp_results ?h) \<longleftrightarrow> hp_loop ?h y = LoopEnded" for y by (rule results_end(2) [OF h n])
  qed
qed

lemma hop_ok_bridge:
  assumes h: "hop_ok an ru lanes b0 h" and s: "stepped (hp_bridge h) 0 b"
  shows "hop_ok an ru lanes b0 (h\<lparr>hp_bridge := b\<rparr>)"
proof -
  note o = hop_okD [OF h]
  have b: "bg_sent b = bg_sent (hp_bridge h)" "bg_targets b = bg_targets (hp_bridge h)" "held b = held (hp_bridge h)"
      "prefix (bg_recorder (hp_bridge h)) (bg_recorder b)" using s by (simp_all add: stepped_def)
  show ?thesis
    by (rule hop_okI) (use o b sent_noted_mono [OF o(3) b(1,4)] in \<open>simp_all add: targets_ok_def\<close>)
qed

lemma hop_step_ok:
  assumes "hop_step ru lanes prefix h h'" "hop_ok an ru lanes b0 h" "ru_sink ru = logging an"
    "ln_direction (lanes ToClient) \<noteq> ln_direction (lanes ToServer)"
  shows "hop_ok an ru lanes b0 h'"
  using assms(1)
proof cases
  case (check_failed d e)
  then show ?thesis using hop_ok_end [OF assms(2) quiet_stepped [OF quiet_refl]] by simp
next
  case (check_passed d)
  then show ?thesis using hop_ok_quiet [OF assms(2) quiet_stepped [OF quiet_refl]] by simp
next
  case (read_failed d tn e b)
  then show ?thesis using read_effect [OF assms(3) read_failed(3)] hop_ok_end [OF assms(2), of b d e] by (auto simp: read_ok_def)
next
  case (read_nothing d tn b)
  then show ?thesis using read_effect [OF assms(3) read_nothing(3)] hop_ok_quiet [OF assms(2), of b d AtCheck] by (simp add: read_ok_def)
next
  case (read_packet d tn p raw b)
  then show ?thesis using read_effect [OF assms(3) read_packet(3)] hop_ok_read [OF assms(2)] by (simp add: read_ok_def)
next
  case (packet_done d tn p raw b)
  then show ?thesis using packet_effect [OF assms(3) packet_done(3)] hop_ok_sent [OF assms(2) packet_done(2) _ assms(4)] by simp
next
  case (packet_failed d tn p raw e b)
  then show ?thesis using packet_effect [OF assms(3) packet_failed(3)] hop_ok_stop [OF assms(2) packet_failed(2) _ assms(4)] by simp
next
  case claim_end
  have "stepped (hp_bridge h) 0 ((hp_bridge h)\<lparr>bg_shutting := True\<rparr>)" by (simp add: stepped_def held_def)
  then show ?thesis using hop_ok_bridge [OF assms(2)] claim_end by simp
next
  case (observed r err live)
  have "stepped (hp_bridge h) 0 ((hp_bridge h)\<lparr>bg_recorder := r, bg_live := live, bg_failures := failure_set (bg_failures (hp_bridge h)) err\<rparr>)"
    using observed(2) by (simp add: stepped_def held_def)
  then show ?thesis using hop_ok_bridge [OF assms(2)] observed by simp
qed

section \<open>Every interleaving\<close>

lemma hop_steps_ok:
  assumes "(hop_step ru lanes prefix)\<^sup>*\<^sup>* h h'" "hop_ok an ru lanes b0 h" "ru_sink ru = logging an"
    "ln_direction (lanes ToClient) \<noteq> ln_direction (lanes ToServer)"
  shows "hop_ok an ru lanes b0 h'"
  using assms(1,2) by (induction rule: rtranclp_induct) (use hop_step_ok assms(3,4) in blast)+

lemma hop_lanes_direction [simp]:
  "ln_direction (hop_lanes hn sa la ToClient) = DirectionServerToClient" "ln_direction (hop_lanes hn sa la ToServer) = DirectionClientToServer"
  by (simp_all add: hop_lanes_def Let_def)

lemma directions_differ: "DirectionServerToClient \<noteq> DirectionClientToServer"
  by (simp add: DirectionServerToClient_def DirectionClientToServer_def)

lemma lane_ok_prefix:
  assumes "lane_ok ru ln place ds s"
  shows "prefix (map (sent_form ru ln) (butlast ds)) s" "prefix s (map (sent_form ru ln) ds)" "plain_all ru ln (butlast ds)"
    "place \<in> {AtCheck, AtRead} \<Longrightarrow> s = map (sent_form ru ln) ds"
proof -
  have b: "prefix (map (sent_form ru ln) (butlast ds)) (map (sent_form ru ln) ds)" by (simp add: map_mono_prefix prefixeq_butlast)
  have e: "lane_ok ru ln LoopEnded ds s" if "place = AtCheck \<or> place = AtRead" using lane_ok_end assms that by blast
  show "prefix (map (sent_form ru ln) (butlast ds)) s" "prefix s (map (sent_form ru ln) ds)" "plain_all ru ln (butlast ds)"
    using assms b e by (cases place; simp add: lane_ok_def)+
  show "s = map (sent_form ru ln) ds" if "place \<in> {AtCheck, AtRead}" using assms that by (auto simp: lane_ok_def)
qed

lemma one_client_result:
  assumes "distinct (map fst rs)"
  shows "length (filter (\<lambda>x. ln_direction (hop_lanes hn sa la (fst x)) = DirectionServerToClient) rs) \<le> 1"
proof -
  have "ln_direction (hop_lanes hn sa la d) = DirectionServerToClient \<longleftrightarrow> d = ToClient" for d
    using directions_differ by (cases d) simp_all
  moreover have "length (filter (\<lambda>x. fst x = ToClient) rs) \<le> 1" using assms
    by (induction rs) (force simp: filter_empty_conv)+
  ultimately show ?thesis by simp
qed

text \<open>A hop announces one target at most, and a transfer that a loop returns is the announced one.\<close>

lemma hop_ok_targets:
  assumes "hop_ok an ru lanes b0 h" "lanes = hop_lanes hn server_address local_address"
  shows "length (bg_targets (hp_bridge h)) \<le> 1"
    and "(d, TransferDone td) \<in> set (hp_results h) \<Longrightarrow> d = ToClient \<and> bg_targets (hp_bridge h) = [td_target td]
         \<and> followed_target ru (lanes d) (last (hp_read h d)) = Some (td_target td)
         \<and> sent_in (ln_direction (lanes d)) (bg_sent (hp_bridge h)) = map (sent_form ru (lanes d)) (hp_read h d)"
proof -
  note o = hop_okD [OF assms(1)] and t = hop_okD(4) [OF assms(1), unfolded targets_ok_def]
  show few: "length (bg_targets (hp_bridge h)) \<le> 1"
    using t one_client_result [OF o(5)] assms(2) unfolding targets_few_def by (metis le_trans)
  assume r: "(d, TransferDone td) \<in> set (hp_results h)"
  then have s: "td_target td \<in> set (bg_targets (hp_bridge h)) \<and> followed_target ru (lanes d) (last (hp_read h d)) = Some (td_target td)
      \<and> sent_in (ln_direction (lanes d)) (bg_sent (hp_bridge h)) = map (sent_form ru (lanes d)) (hp_read h d)"
    using t unfolding transfers_sent_def by blast
  then have "ln_direction (lanes d) = DirectionServerToClient" using followed_to_client by blast
  then have "d = ToClient" using assms(2) directions_differ by (cases d) auto
  moreover have "bg_targets (hp_bridge h) = [td_target td]" using s few by (cases "bg_targets (hp_bridge h)") auto
  ultimately show "d = ToClient \<and> bg_targets (hp_bridge h) = [td_target td]
         \<and> followed_target ru (lanes d) (last (hp_read h d)) = Some (td_target td)
         \<and> sent_in (ln_direction (lanes d)) (bg_sent (hp_bridge h)) = map (sent_form ru (lanes d)) (hp_read h d)"
    using s by blast
qed

text \<open>
  C11. Under every interleaving of the two loops of a hop with each other and with the other writers of the
  recorder, each direction is transparent by itself: what it sent is what it read, in order, with at most the
  packet in hand or the one that ended the loop missing, and everything it sent had its event accepted by the
  recorder first. At most one target is announced; a loop that ends with a transfer is the one that leads to
  the client, has sent all it read, the rewritten transfer last, and returns the announced target. When both
  loops have ended, every read was released.
\<close>

theorem hop_transparent:
  assumes "ru_sink ru = logging an" "bg_sent b0 = []" "bg_targets b0 = []" "lanes = hop_lanes hn server_address local_address"
    and "(hop_step ru lanes prefix)\<^sup>*\<^sup>* (start_loops b0) h"
  shows "(\<forall>d. let ds = hp_read h d; sent = sent_in (ln_direction (lanes d)) (bg_sent (hp_bridge h)); form = sent_form ru (lanes d)
        in prefix (map form (butlast ds)) sent \<and> prefix sent (map form ds)
           \<and> (\<forall>x \<in> set (butlast ds). followed_transfer ru (lanes d) (fst x) = None)
           \<and> (hp_loop h d \<in> {AtCheck, AtRead} \<longrightarrow> sent = map form ds))
    \<and> (\<forall>x \<in> set (bg_sent (hp_bridge h)). \<exists>d y k. x = (ln_direction (lanes d), sent_form ru (lanes d) y)
         \<and> noted_at an ru (lanes d) (bg_recorder (hp_bridge h)) k (fst y))
    \<and> length (bg_targets (hp_bridge h)) \<le> 1
    \<and> (\<forall>d td. (d, TransferDone td) \<in> set (hp_results h) \<longrightarrow> d = ToClient \<and> bg_targets (hp_bridge h) = [td_target td]
         \<and> followed_target ru (lanes d) (last (hp_read h d)) = Some (td_target td)
         \<and> sent_in (ln_direction (lanes d)) (bg_sent (hp_bridge h)) = map (sent_form ru (lanes d)) (hp_read h d))
    \<and> ((\<forall>d. hp_loop h d = LoopEnded) \<longrightarrow>
         int (bg_acquired (hp_bridge h)) - int (bg_released (hp_bridge h)) = int (bg_acquired b0) - int (bg_released b0))"
    (is "?lanes \<and> ?noted \<and> ?few \<and> ?transfer \<and> ?reads")
proof -
  have ok: "hop_ok an ru lanes b0 h"
    by (rule hop_steps_ok [OF assms(5) hop_ok_start [OF assms(2,3)] assms(1)]) (simp add: assms(4) directions_differ)
  note o = hop_okD [OF ok]
  have ?lanes using lane_ok_prefix [OF o(1)] unfolding plain_all_def Let_def by blast
  moreover have ?noted using o(3) unfolding sent_noted_def by blast
  moreover have ?few by (rule hop_ok_targets(1) [OF ok assms(4)])
  moreover have ?transfer using hop_ok_targets(2) [OF ok assms(4)] by blast
  moreover have ?reads using o(2) by (simp add: held_def in_hand_def)
  ultimately show ?thesis by blast
qed

section \<open>The end of a hop\<close>

text \<open>
  What a hop must make of the results of its loops: the transfer to follow, if any.
\<close>

definition followed_result :: "'r runner \<Rightarrow> loop_error \<Rightarrow> loop_error \<Rightarrow> transfer_done option" where
  "followed_result ru first second = (if ru_follow ru then transfer_from_loops first (Some second) else None)"

lemma close_session_logged:
  assumes "ru_sink ru = logging an"
  shows "close_session ru cw hn severity first second transfer b =
     (case cw_json cw first second transfer of
        Inl e \<Rightarrow> (HopFailed (HopRecord (''encode session.close event: '' @ e)), b)
      | Inr data \<Rightarrow>
          (let b1 = b\<lparr>bg_recorder := bg_recorder b @ [event_call (lifecycle_event ''session.close'' severity data (hn_hop hn))]\<rparr>
           in case an_event an (length (bg_recorder b)) of
                Inl e \<Rightarrow> (HopFailed (HopRecord e), b1)
              | Inr _ \<Rightarrow>
                  (case transfer of
                     Some t \<Rightarrow> (HopTransfer t, live_do (live_info (cw_now cw) (transfer_text hn t)) b1)
                   | None \<Rightarrow> (HopEnded, live_do (live_info (cw_now cw) (ended_text cw hn first second)) b1))))"
  using assms by (simp add: close_session_def record_at_hop_def record_one_logging Let_def split: sum.splits option.splits)

lemma transfer_first: "transfer_from_loops first None = (case first of TransferDone t \<Rightarrow> Some t | _ \<Rightarrow> None)"
  by (simp add: transfer_from_loops_def split: loop_error.splits)

lemma transfer_second: "transfer_from_loops first None = Some t \<Longrightarrow> transfer_from_loops first second = Some t"
  by (auto simp: transfer_from_loops_def split: loop_error.splits)

definition close_severity :: "transfer_done option \<Rightarrow> severity" where
  "close_severity transfer = (if transfer = None then SeverityWarn else SeverityInfo)"

lemma followed_iff:
  "followed_result ru first second = Some td \<longleftrightarrow>
     ru_follow ru \<and> (first = TransferDone td \<or> loop_canceled first \<and> second = TransferDone td)"
  by (auto simp: followed_result_def transfer_from_loops_def loop_canceled_def split: loop_error.splits)

text \<open>Both ways of ending a hop are one: the session is closed with the transfer that is followed.\<close>

lemma finish_hop_eq:
  "finish_hop ru cw hn first second b =
     (ru_follow ru \<and> (\<exists>td. first = TransferDone td),
      (let b1 = b\<lparr>bg_shutting := True\<rparr>; t = followed_result ru first second in
       case fs_err (bg_failures b) of
         Some e \<Rightarrow> (HopFailed (HopCapture e), b1)
       | None \<Rightarrow> close_session ru cw hn (close_severity t) first second t b1))"
proof (cases "ru_follow ru \<and> transfer_from_loops first None \<noteq> None")
  case True
  then obtain t where t: "transfer_from_loops first None = Some t" "ru_follow ru" by auto
  have "followed_result ru first second = Some t" using t(2) transfer_second [OF t(1), of "Some second"] by (simp add: followed_result_def)
  then show ?thesis using t by (auto simp: finish_hop_def transfer_first close_severity_def Let_def split: option.splits loop_error.splits)
next
  case False
  then show ?thesis
    by (auto simp: finish_hop_def followed_result_def transfer_first close_severity_def Let_def split: option.splits if_splits loop_error.splits)
qed

lemma close_session_recorded:
  assumes "ru_sink ru = logging an" "close_session ru cw hn severity first second t b = (res, b')"
  shows "bg_shutting b' = bg_shutting b \<and> bg_sent b' = bg_sent b \<and> bg_targets b' = bg_targets b
    \<and> (case cw_json cw first second t of
         Inl e \<Rightarrow> res = HopFailed (HopRecord (''encode session.close event: '' @ e)) \<and> bg_recorder b' = bg_recorder b
       | Inr data \<Rightarrow>
           bg_recorder b' = bg_recorder b @ [event_call (lifecycle_event ''session.close'' severity data (hn_hop hn))]
           \<and> (case an_event an (length (bg_recorder b)) of
                Inl e \<Rightarrow> res = HopFailed (HopRecord e)
              | Inr _ \<Rightarrow> res = (case t of Some t \<Rightarrow> HopTransfer t | None \<Rightarrow> HopEnded)))"
proof (cases "cw_json cw first second t")
  case (Inl e)
  then show ?thesis using assms(2) by (auto simp: close_session_logged [OF assms(1)])
next
  case (Inr data)
  then show ?thesis using assms(2)
    by (cases "an_event an (length (bg_recorder b))"; cases t)
      (auto simp: close_session_logged [OF assms(1)] live_do_def Let_def)
qed

text \<open>
  C34. When both loops have returned, the hop is closed once: unless a capture failure ends it, exactly one
  event \<^verbatim>\<open>session.close\<close> is recorded, informational when a transfer is followed and a warning otherwise, and
  with the recorder's acceptance the hop returns that transfer or its end. A transfer is followed exactly when
  following is on and it is the first result, or the second after a cancelled first one. The client stays open
  exactly when the first result is a followed transfer: not when the transfer is the second result, although
  the hop returns it then, and a second result behind any other first one is not followed at all
  (\<open>closed_client_loses_transfer\<close> below). The shutdown is claimed in every case.
\<close>

theorem hop_closed_once:
  assumes "ru_sink ru = logging an" "finish_hop ru cw hn first second b = (keep, res, b')"
  shows "bg_shutting b' \<and> bg_sent b' = bg_sent b \<and> bg_targets b' = bg_targets b
    \<and> (keep \<longleftrightarrow> ru_follow ru \<and> (\<exists>td. first = TransferDone td))
    \<and> (\<forall>td. followed_result ru first second = Some td \<longleftrightarrow>
         ru_follow ru \<and> (first = TransferDone td \<or> loop_canceled first \<and> second = TransferDone td))
    \<and> (case fs_err (bg_failures b) of
         Some e \<Rightarrow> res = HopFailed (HopCapture e) \<and> bg_recorder b' = bg_recorder b
       | None \<Rightarrow>
           (case cw_json cw first second (followed_result ru first second) of
              Inl e \<Rightarrow> res = HopFailed (HopRecord (''encode session.close event: '' @ e)) \<and> bg_recorder b' = bg_recorder b
            | Inr data \<Rightarrow>
                bg_recorder b' = bg_recorder b @ [event_call (lifecycle_event ''session.close''
                  (if followed_result ru first second = None then SeverityWarn else SeverityInfo) data (hn_hop hn))]
                \<and> (case an_event an (length (bg_recorder b)) of
                     Inl e \<Rightarrow> res = HopFailed (HopRecord e)
                   | Inr _ \<Rightarrow> res = (case followed_result ru first second of Some t \<Rightarrow> HopTransfer t | None \<Rightarrow> HopEnded))))"
proof (cases "fs_err (bg_failures b)")
  case (Some e)
  then show ?thesis using assms(2) followed_iff by (auto simp: finish_hop_eq Let_def)
next
  case None
  then have "close_session ru cw hn (close_severity (followed_result ru first second)) first second (followed_result ru first second)
      (b\<lparr>bg_shutting := True\<rparr>) = (res, b')" and keep: "keep \<longleftrightarrow> ru_follow ru \<and> (\<exists>td. first = TransferDone td)"
    using assms(2) by (simp_all add: finish_hop_eq Let_def)
  note r = close_session_recorded [OF assms(1) this(1)]
  have sel: "bg_recorder (b\<lparr>bg_shutting := True\<rparr>) = bg_recorder b" "bg_sent (b\<lparr>bg_shutting := True\<rparr>) = bg_sent b"
      "bg_targets (b\<lparr>bg_shutting := True\<rparr>) = bg_targets b" "bg_shutting (b\<lparr>bg_shutting := True\<rparr>) = True" by simp_all
  show ?thesis unfolding None option.case followed_iff using r [unfolded sel close_severity_def] keep by blast
qed

text \<open>
  A transfer that was sent and announced is not followed when the loop from the client ended first, with
  anything but a cancelled context.
\<close>

theorem closed_client_loses_transfer:
  assumes "ru_sink ru = logging an" "fs_err (bg_failures b) = None" "cw_json cw first second None = Inr data"
    "an_event an (length (bg_recorder b)) = Inr e" "first = OperationError x cap" "\<not> ne_canceled x" "second = TransferDone td"
  shows "fst (snd (finish_hop ru cw hn first second b)) = HopEnded"
  using assms by (simp add: finish_hop_def transfer_from_loops_def loop_canceled_def close_session_logged [OF assms(1)] Let_def)

section \<open>A hop that forwards a chunk\<close>

text \<open>A turn of a loop is steps of the hop.\<close>

lemma turn_is_steps:
  assumes "hp_loop h d = AtCheck" "forward_turn ru (lanes d) tn (hp_bridge h) = (None, b)"
  shows "\<exists>h'. (hop_step ru lanes others)\<^sup>*\<^sup>* h h' \<and> hp_bridge h' = b \<and> hp_loop h' d = AtCheck \<and> hp_results h' = hp_results h"
proof -
  have c: "loop_check ru (hp_bridge h) = None" using assms(2) by (auto simp: forward_turn_def loop_check_def split: option.splits)
  let ?h1 = "move_loop d AtRead (hp_bridge h) h"
  have s1: "hop_step ru lanes others h ?h1" by (rule check_passed [OF assms(1) c])
  have t: "forward_turn ru (lanes d) tn (hp_bridge h) = (case forward_read ru (lanes d) (tn_answer tn) (hp_bridge h) of
        (ReadEnd e, b1) \<Rightarrow> (Some e, b1) | (ReadSkip, b1) \<Rightarrow> (None, b1)
      | (ReadPacket p raw, b1) \<Rightarrow> forward_packet ru (lanes d) tn p raw b1)"
    using c by (auto simp: forward_turn_def loop_check_def split: option.splits)
  obtain out b1 where r: "forward_read ru (lanes d) (tn_answer tn) (hp_bridge h) = (out, b1)" by force
  have a1: "hp_loop ?h1 d = AtRead" "hp_bridge ?h1 = hp_bridge h" by simp_all
  show ?thesis
  proof (cases out)
    case (ReadEnd e)
    then show ?thesis using assms(2) t r by simp
  next
    case ReadSkip
    then have "hop_step ru lanes others ?h1 (move_loop d AtCheck b1 ?h1)" using r a1 read_nothing [of ?h1 d] by simp
    moreover have "b1 = b" using assms(2) t r ReadSkip by simp
    ultimately show ?thesis using s1 by (intro exI [of _ "move_loop d AtCheck b1 ?h1"]) simp
  next
    case (ReadPacket p raw)
    let ?h2 = "(move_loop d (AtPacket tn p raw) b1 ?h1)\<lparr>hp_read := (hp_read ?h1)(d := hp_read ?h1 d @ [(p, raw)])\<rparr>"
    have s2: "hop_step ru lanes others ?h1 ?h2" using r a1 ReadPacket by (intro read_packet) simp_all
    have p: "forward_packet ru (lanes d) tn p raw (hp_bridge ?h2) = (None, b)" using assms(2) t r ReadPacket by simp
    have "hop_step ru lanes others ?h2 (move_loop d AtCheck b ?h2)" by (rule packet_done) (use p in simp_all)
    then show ?thesis using s1 s2 by (intro exI [of _ "move_loop d AtCheck b ?h2"]) (simp add: converse_rtranclp_into_rtranclp)
  qed
qed

definition first_hop :: hop_names where
  "first_hop = \<lparr>hn_hop = 1, hn_target = ''h:19132'', hn_downstream = ''downstream-1'', hn_upstream = ''upstream-1''\<rparr>"

abbreviation chunk_lanes :: "hop_side \<Rightarrow> lane" where
  "chunk_lanes \<equiv> hop_lanes first_hop [] ''127.0.0.1:19132''"

lemma chunk_lane: "chunk_lanes ToClient = down_lane"
  by (simp add: hop_lanes_def first_hop_def down_lane_def trim_space_def trim_both_def drop_while_end_def)

definition chunk_turn :: bridge_turn where
  "chunk_turn = plain_turn (RawBytes chunk_read (CloneDecoded (Some chunk_packet)))"

lemma chunk_turn_sent:
  "fst (forward_turn (plain_runner False) (chunk_lanes ToClient) chunk_turn (new_bridge quiet_terminal [])) = None"
  "bg_sent (snd (forward_turn (plain_runner False) (chunk_lanes ToClient) chunk_turn (new_bridge quiet_terminal [])))
    = [(DirectionServerToClient, RawOut chunk_read)]"
  unfolding chunk_lane by code_simp+

theorem hop_transparent_witness:
  "\<exists>h :: sink_call list hop. map (sent_form (plain_runner False) (chunk_lanes ToClient)) (hp_read h ToClient) = [RawOut chunk_read]
     \<and> length (bg_targets (hp_bridge h)) \<le> 1"
proof -
  let ?b = "new_bridge quiet_terminal []"
  have sink: "ru_sink (plain_runner False) = logging patient_sink" by (simp add: plain_runner_def)
  have empty: "bg_sent ?b = []" "bg_targets ?b = []" by (simp_all add: new_bridge_def)
  obtain b1 where b1: "forward_turn (plain_runner False) (chunk_lanes ToClient) chunk_turn ?b = (None, b1)"
      "bg_sent b1 = [(DirectionServerToClient, RawOut chunk_read)]"
    using chunk_turn_sent by (metis prod.collapse)
  then obtain h where h: "(hop_step (plain_runner False) chunk_lanes prefix)\<^sup>*\<^sup>* (start_loops ?b) h" "hp_bridge h = b1" "hp_loop h ToClient = AtCheck"
    using turn_is_steps [of "start_loops ?b" ToClient "plain_runner False" chunk_lanes chunk_turn b1 prefix] by (auto simp: start_loops_def)
  note p = hop_transparent [OF sink empty refl h(1)]
  have "sent_in (ln_direction (chunk_lanes ToClient)) (bg_sent (hp_bridge h))
      = map (sent_form (plain_runner False) (chunk_lanes ToClient)) (hp_read h ToClient)"
    using p h(3) unfolding Let_def by blast
  moreover have "length (bg_targets (hp_bridge h)) \<le> 1" using p by blast
  ultimately show ?thesis using h(2) b1(2) by (intro exI [of _ h]) (simp add: sent_in_one)
qed

definition chunk_close :: close_world where
  "chunk_close = \<lparr>cw_json = (\<lambda>_ _ _. Inr (Some ''{}'')), cw_text = (\<lambda>_. []), cw_now = (0, 0)\<rparr>"

definition chunk_transfer :: transfer_done where
  "chunk_transfer = \<lparr>td_target = ''h2:19132'', td_local = None, td_guid = 0\<rparr>"

theorem hop_closed_once_witness:
  "fst (snd (finish_hop (plain_runner True) chunk_close first_hop (TransferDone chunk_transfer) (OperationError closed_error None)
     (new_bridge quiet_terminal []))) = HopTransfer chunk_transfer"
proof -
  let ?f = "finish_hop (plain_runner True) chunk_close first_hop (TransferDone chunk_transfer) (OperationError closed_error None) (new_bridge quiet_terminal [])"
  have sink: "ru_sink (plain_runner True) = logging patient_sink" by (simp add: plain_runner_def)
  have "?f = (fst ?f, fst (snd ?f), snd (snd ?f))" by simp
  from hop_closed_once [OF sink this] show ?thesis
    by (simp add: followed_result_def transfer_from_loops_def plain_runner_def chunk_close_def patient_sink_def new_bridge_def new_failure_sink_def)
qed

end
