(* ===== verification/Proxy_Connect_Theorems.thy ===== *)
theory Proxy_Connect_Theorems
  imports Proxy_Connect PackCache_Theorems Forward_Theorems
begin

text \<open>
  What connecting to the server records, which packs the client is offered, and that a connection whose packs
  or whose record fail is closed; for any dial and any recorder.
\<close>

section \<open>Packs for the client\<close>

definition delivered_as :: "resource_pack \<Rightarrow> resource_pack \<Rightarrow> bool" where
  "delivered_as p q = (pk_archive q = pk_archive p \<and> pk_key q = pk_key p \<and> pk_encrypted q = pk_encrypted p \<and> pk_download_url q = []
     \<and> (pk_download_url p = [] \<longrightarrow> q = p))"

lemma pack_delivered:
  assumes "pack_for_downstream parse (Some p) = Inr q" "pk_encrypted p = (pk_key p \<noteq> [])"
  shows "delivered_as p q"
  using assms by (auto simp: pack_for_downstream_def read_pack_def with_content_key_def delivered_as_def split: if_splits sum.splits)

lemma packs_delivered:
  assumes "resource_packs_for_downstream parse (map Some ps) = Inr qs" "\<forall>p \<in> set ps. pk_encrypted p = (pk_key p \<noteq> [])"
  shows "list_all2 delivered_as ps qs"
  using assms
proof (induction ps arbitrary: qs)
  case (Cons p ps)
  obtain q rest where q: "pack_for_downstream parse (Some p) = Inr q" "resource_packs_for_downstream parse (map Some ps) = Inr rest" "qs = q # rest"
    using Cons.prems(1)
    by (cases "pack_for_downstream parse (Some p)"; cases "resource_packs_for_downstream parse (map Some ps)") auto
  then show ?case using Cons.IH [OF q(2)] Cons.prems(2) pack_delivered by simp
qed simp

lemma merged_packs_keyed: "\<forall>p \<in> set (merged_packs raw cache packs). pk_encrypted p = (pk_key p \<noteq> [])"
  by (auto simp: merged_packs_def uncached_pack_def with_content_key_def)

text \<open>Merging keeps a pack of the connection or has a cached one in its place.\<close>

lemma merge_empty:
  assumes "merge_packs s existing = []" "p \<in> set existing"
  shows "p = None"
proof -
  have c1: "\<exists>shadowed. mset (merge_packs s existing) + shadowed = mset (present existing)
        + cached_bag (rc_packs s) {k \<in> set (rc_offer_order s) \<union> set (rc_pack_order s). rc_packs s k \<noteq> None}
      \<and> image_mset resource_pack_key shadowed \<subseteq># mset_set {k \<in> set (rc_offer_order s). rc_packs s k \<noteq> None}"
    by (rule conjunct1 [OF merge_complete])
  have c2: "\<exists>front rest. merge_packs s existing = front @ rest
      \<and> ((\<forall>k p. rc_packs s k = Some p \<longrightarrow> resource_pack_key p = k) \<longrightarrow> subseq (map resource_pack_key front) (rc_offer_order s))
      \<and> (\<forall>k \<in> set (rc_offer_order s). \<forall>p. rc_packs s k = Some p \<longrightarrow> p \<in> set front)"
    by (rule conjunct2 [OF merge_complete])
  from c1 obtain shadowed where m: "mset (merge_packs s existing) + shadowed = mset (present existing)
        + cached_bag (rc_packs s) {k \<in> set (rc_offer_order s) \<union> set (rc_pack_order s). rc_packs s k \<noteq> None}"
    "image_mset resource_pack_key shadowed \<subseteq># mset_set {k \<in> set (rc_offer_order s). rc_packs s k \<noteq> None}" by (elim exE conjE)
  from c2 obtain front rest where f: "merge_packs s existing = front @ rest"
    "\<forall>k \<in> set (rc_offer_order s). \<forall>p. rc_packs s k = Some p \<longrightarrow> p \<in> set front" by (elim exE conjE)
  have "front = []" using f(1) assms(1) by simp
  then have no: "{k \<in> set (rc_offer_order s). rc_packs s k \<noteq> None} = {}" using f(2) by auto
  have "image_mset resource_pack_key shadowed = {#}" using m(2) unfolding no by simp
  then have "shadowed = {#}" by simp
  then have "mset (present existing) = {#}" using m(1) unfolding assms(1) by simp
  then have "present existing = []" by simp
  then have "\<forall>x \<in> set existing. \<not> x \<noteq> None" unfolding present_def by (simp add: filter_empty_conv)
  then show ?thesis using assms(2) by blast
qed

lemma merged_empty: "merged_packs raw cache packs = [] \<Longrightarrow> p \<in> set packs \<Longrightarrow> p = None"
  using merge_empty [of cache "map (map_option (cached_pack raw)) packs" "map_option (cached_pack raw) p"]
  by (auto simp: merged_packs_def)

section \<open>Records\<close>

fun archive_in :: "sink_call \<Rightarrow> bytes option" where
  "archive_in (ReaderCall e b r) = (if r = ''minecraft_resource_pack_archive'' then Some b else None)"
| "archive_in _ = None"

lemma map_filter_none: "\<forall>x \<in> set xs. f x = None \<Longrightarrow> List.map_filter f xs = []"
  by (induction xs) (auto simp: List.map_filter_def)

lemma map_filter_app: "List.map_filter f (xs @ ys) = List.map_filter f xs @ List.map_filter f ys"
  by (simp add: List.map_filter_def)

lemma derived_no_archive: "\<forall>c \<in> set (derived_calls po w p parent). archive_in c = None"
  by (auto simp: derived_calls_def failure_calls_def manifest_call_def split: option.splits sum.splits)

lemma pack_archive_once: "List.map_filter archive_in (pack_calls opts po i n w p parent) = [pk_archive p]"
proof -
  have "List.map_filter archive_in (derived_calls po w p parent) = []" by (rule map_filter_none [OF derived_no_archive])
  then show ?thesis by (simp add: pack_calls_def List.map_filter_def)
qed

lemma run_archives:
  assumes "recorded_run an opts po k i n ps gs" "length gs = length ps"
  shows "List.map_filter archive_in (concat gs) = map (\<lambda>wp. pk_archive (the (snd wp))) ps"
  using assms
proof (induction gs arbitrary: ps k i)
  case (Cons g gs)
  then obtain wp ps' where ps: "ps = wp # ps'" by (cases ps) auto
  then have f: "recorded_in_full an opts po k i n wp g" "recorded_run an opts po (k + length g) (i + 1) n ps' gs" "length gs = length ps'"
    using Cons.prems by auto
  obtain w p where wp: "wp = (w, Some p)" using f(1) by (cases wp; cases "snd wp") (auto simp: recorded_in_full_def)
  then have "List.map_filter archive_in g = [pk_archive p]" using f(1) by (auto simp: recorded_in_full_def pack_archive_once)
  then show ?case using Cons.IH [OF f(2, 3)] by (simp add: ps wp map_filter_app)
qed (simp add: List.map_filter_def)

lemma record_packs_archives:
  assumes "ru_sink ru = logging an" "record_packs ru cw co dl packs b = (Inr (), b')"
  shows "\<exists>calls. b' = b\<lparr>bg_recorder := bg_recorder b @ calls\<rparr> \<and> List.map_filter archive_in calls = map pk_archive packs"
proof -
  let ?ps = "zip (map (cw_packs cw) [0..<length packs]) (map Some packs)"
  obtain r where r: "record_resource_packs (logging an) \<lparr>do_decrypt = cw_decrypt cw\<rparr>
       \<lparr>po_session = session_name, po_connection = cn_connection co, po_hop = cn_hop co, po_source = dl_remote dl, po_destination = dl_local dl\<rparr>
       ?ps (bg_recorder b) = (Inr (), r)" and b': "b' = b\<lparr>bg_recorder := r\<rparr>"
    using assms by (auto simp: record_packs_def split: prod.splits)
  from packs_recorded [OF r [unfolded record_resource_packs_def]] obtain gs where
    g: "r = bg_recorder b @ concat gs" "length gs = length ?ps"
      "recorded_run an \<lparr>do_decrypt = cw_decrypt cw\<rparr> \<lparr>po_session = session_name, po_connection = cn_connection co, po_hop = cn_hop co, po_source = dl_remote dl, po_destination = dl_local dl\<rparr>
        (length (bg_recorder b)) 0 (length ?ps) ?ps gs"
    by auto
  have "map (\<lambda>wp. pk_archive (the (snd wp))) ?ps = map pk_archive packs" by (rule nth_equalityI) auto
  then show ?thesis using run_archives [OF g(3, 2)] g(1) b' by auto
qed

lemma record_at_hop_logging:
  assumes "ru_sink ru = logging an" "record_at_hop ru kind severity value hop b = (err, b')"
  shows "err = None \<Longrightarrow> \<exists>data e. value = Inr data \<and> b' = b\<lparr>bg_recorder := bg_recorder b @ [event_call (lifecycle_event kind severity data hop)]\<rparr>
      \<and> an_event an (length (bg_recorder b)) = Inr e"
    and "prefix (bg_recorder b) (bg_recorder b')"
  using assms by (auto simp: record_at_hop_def record_one_logging split: sum.splits)

section \<open>Connecting\<close>

text \<open>With what closing the connection answered, when an error closed it.\<close>

fun closed_by :: "connect_error \<Rightarrow> net_error option option" where
  "closed_by (ConnectRecord e) = None"
| "closed_by (DialFailed e t c) = None"
| "closed_by (PacksUnrecorded e c) = Some c"
| "closed_by (PacksUnprepared e c) = Some c"
| "closed_by (ConnectedUnrecorded e c) = Some c"

lemma live_do_simps [simp]: "bg_recorder (live_do f b) = bg_recorder b" "bg_failures (live_do f b) = bg_failures b"
  by (simp_all add: live_do_def)

text \<open>What holds of a connection that was kept.\<close>

definition kept_ok :: "sink_answers \<Rightarrow> 'r connect_world \<Rightarrow> connect_order \<Rightarrow> sink_call list \<Rightarrow> dialed \<Rightarrow> resource_pack list \<Rightarrow> sink_call list \<Rightarrow> bool" where
  "kept_ok an cw co log dl delivery log' =
     (let packs = merged_packs (cw_raw_uuid cw) (dl_cache dl) (dl_packs dl)
      in (\<exists>before recorded data e. log' = log @ before @ recorded @ [event_call (lifecycle_event ''upstream.connected'' SeverityInfo data (cn_hop co))]
            \<and> an_event an (length (log @ before @ recorded)) = Inr e \<and> cw_connected_json cw dl (length packs) = Inr data
            \<and> List.map_filter archive_in recorded = map pk_archive packs)
       \<and> (if cn_prepare_downstream co then list_all2 delivered_as packs delivery else delivery = packs)
       \<and> (cn_prepare_downstream co \<longrightarrow> (\<forall>p. Some p \<in> set (fetched_packs (dl, delivery)) \<longrightarrow> pk_download_url p = [])))"

lemma kept_connection:
  assumes "ru_sink ru = logging an" "keep_connection ru cw co dl b = (Inr (dl', delivery), b')"
  shows "dl' = dl \<and> kept_ok an cw co (bg_recorder b) dl delivery (bg_recorder b')"
proof -
  let ?packs = "merged_packs (cw_raw_uuid cw) (dl_cache dl) (dl_packs dl)"
  let ?b = "live_do (live_info (cw_clock cw 1) (dialed_text (cn_prepare_downstream co) (cw_duration cw (wait_duration (cw_waited cw))))) b"
  obtain b1 where b1: "record_packs ru cw co dl ?packs ?b = (Inr (), b1)"
    using assms(2) by (auto simp: keep_connection_def Let_def split: prod.splits sum.splits)
  define b2 where "b2 = (if ?packs \<noteq> [] then live_do (live_info (cw_clock cw 2) (retained_text (length ?packs) (cw_root cw) (cw_decrypt cw))) b1 else b1)"
  have rest: "(case (if cn_prepare_downstream co then resource_packs_for_downstream (cw_parse cw) (map Some ?packs) else Inr ?packs) of
       Inl e \<Rightarrow> (Inl (PacksUnprepared e (dl_close dl)), b2)
     | Inr delivery \<Rightarrow>
         (case record_at_hop ru ''upstream.connected'' SeverityInfo (cw_connected_json cw dl (length ?packs)) (cn_hop co) b2 of
            (Some e, b3) \<Rightarrow> (Inl (ConnectedUnrecorded e (dl_close dl)), b3)
          | (None, b3) \<Rightarrow> (Inr (dl, delivery), live_do (live_info (cw_clock cw 3) (connected_text dl)) b3))) = (Inr (dl', delivery), b')"
    using assms(2) unfolding keep_connection_def Let_def b1 b2_def by simp
  have prep: "(if cn_prepare_downstream co then resource_packs_for_downstream (cw_parse cw) (map Some ?packs) else Inr ?packs) = Inr delivery" and dl: "dl' = dl"
    using rest by (auto split: sum.splits prod.splits option.splits)
  obtain b3 where b3: "record_at_hop ru ''upstream.connected'' SeverityInfo (cw_connected_json cw dl (length ?packs)) (cn_hop co) b2 = (None, b3)"
    and b': "bg_recorder b' = bg_recorder b3"
    using rest unfolding prep by (auto split: prod.splits option.splits)
  obtain calls where calls: "b1 = ?b\<lparr>bg_recorder := bg_recorder ?b @ calls\<rparr>" "List.map_filter archive_in calls = map pk_archive ?packs"
    using record_packs_archives [OF assms(1) b1] by blast
  then have r2: "bg_recorder b2 = bg_recorder b @ calls" by (simp add: b2_def)
  obtain data e where rec: "cw_connected_json cw dl (length ?packs) = Inr data" "an_event an (length (bg_recorder b2)) = Inr e"
      "bg_recorder b3 = bg_recorder b2 @ [event_call (lifecycle_event ''upstream.connected'' SeverityInfo data (cn_hop co))]"
    using record_at_hop_logging(1) [OF assms(1) b3] by auto
  have "(if cn_prepare_downstream co then list_all2 delivered_as ?packs delivery else delivery = ?packs)"
    using prep packs_delivered [OF _ merged_packs_keyed] by (auto split: if_splits)
  moreover have "pk_download_url p = []" if "cn_prepare_downstream co" "Some p \<in> set (fetched_packs (dl, delivery))" for p
  proof -
    have l: "list_all2 delivered_as ?packs delivery" using prep packs_delivered [OF _ merged_packs_keyed] that(1) by auto
    have ne: "delivery \<noteq> []"
    proof
      assume none: "delivery = []"
      then have "Some p \<in> set (dl_packs dl)" using that(2) by (simp add: fetched_packs_def)
      moreover have "?packs = []" using l none by simp
      ultimately show False using merged_empty by blast
    qed
    then have "p \<in> set delivery" using that(2) by (auto simp: fetched_packs_def)
    then show ?thesis using l by (metis delivered_as_def in_set_conv_nth list_all2_conv_all_nth)
  qed
  moreover have "bg_recorder b' = bg_recorder b @ [] @ calls @ [event_call (lifecycle_event ''upstream.connected'' SeverityInfo data (cn_hop co))]"
    using b' rec(3) r2 by simp
  moreover have "an_event an (length (bg_recorder b @ [] @ calls)) = Inr e" using rec(2) r2 by simp
  ultimately show ?thesis unfolding kept_ok_def Let_def using dl rec(1) calls(2) by blast
qed

lemma kept_ok_before:
  assumes "kept_ok an cw co (log @ added) dl delivery log'"
  shows "kept_ok an cw co log dl delivery log'"
  using assms unfolding kept_ok_def Let_def by (metis append.assoc)

text \<open>
  C27. For any dial and any recorder: once a connection is returned, the archive of every pack that the
  server offered, in chunks or by URL, was recorded as it came, in order, before the accepted record of the
  connection; the client is offered exactly these archives with their keys, and none with a URL. An error after
  the dial closes the connection that it returned, and no other error does.
\<close>

theorem upstream_packs_delivered:
  assumes "ru_sink ru = logging an" "\<And>rq b. prefix (bg_recorder b) (bg_recorder (snd (cw_dial cw rq b)))"
    and "connect_upstream ru cw best_effort co b = (res, b')"
  shows "case res of
      Inr (dl, delivery) \<Rightarrow>
        (let packs = merged_packs (cw_raw_uuid cw) (dl_cache dl) (dl_packs dl)
         in (\<exists>before recorded data e. bg_recorder b' = bg_recorder b @ before @ recorded
                @ [event_call (lifecycle_event ''upstream.connected'' SeverityInfo data (cn_hop co))]
              \<and> an_event an (length (bg_recorder b @ before @ recorded)) = Inr e \<and> cw_connected_json cw dl (length packs) = Inr data
              \<and> List.map_filter archive_in recorded = map pk_archive packs)
          \<and> (if cn_prepare_downstream co then list_all2 delivered_as packs delivery else delivery = packs)
          \<and> (cn_prepare_downstream co \<longrightarrow> (\<forall>p. Some p \<in> set (fetched_packs (dl, delivery)) \<longrightarrow> pk_download_url p = [])))
    | Inl e \<Rightarrow>
        closed_by e = (case record_at_hop ru ''upstream.dial_start'' SeverityInfo (cw_start_json cw (cn_target co)) (cn_hop co) b of
            (Some _, _) \<Rightarrow> None
          | (None, b1) \<Rightarrow> (case fst (cw_dial cw (dial_request_of best_effort co) (live_do (live_info (cw_clock cw 0) (connecting_text co)) b1)) of
               Inl _ \<Rightarrow> None | Inr dl \<Rightarrow> Some (dl_close dl)))"
proof -
  obtain err b1 where s: "record_at_hop ru ''upstream.dial_start'' SeverityInfo (cw_start_json cw (cn_target co)) (cn_hop co) b = (err, b1)"
    by (cases "record_at_hop ru ''upstream.dial_start'' SeverityInfo (cw_start_json cw (cn_target co)) (cn_hop co) b")
  let ?b1 = "live_do (live_info (cw_clock cw 0) (connecting_text co)) b1"
  obtain ans b2 where d: "cw_dial cw (dial_request_of best_effort co) ?b1 = (ans, b2)" by (cases "cw_dial cw (dial_request_of best_effort co) ?b1")
  have run: "(case err of Some e \<Rightarrow> (Inl (ConnectRecord e), b1) | None \<Rightarrow>
      (case ans of Inl e \<Rightarrow> dial_failed ru cw co e b2 | Inr dl \<Rightarrow> keep_connection ru cw co dl b2)) = (res, b')"
    using assms(3) unfolding connect_upstream_def s by (simp add: d split: option.splits)
  show ?thesis
  proof (cases res)
    case (Inl e)
    have "closed_by e = (case err of Some _ \<Rightarrow> None | None \<Rightarrow> (case ans of Inl _ \<Rightarrow> None | Inr dl \<Rightarrow> Some (dl_close dl)))"
      using run unfolding Inl
      by (auto simp: dial_failed_def keep_connection_def Let_def split: option.splits sum.splits prod.splits if_splits)
    then show ?thesis unfolding Inl s by (simp add: d split: option.splits)
  next
    case (Inr x)
    obtain dl delivery where x: "x = (dl, delivery)" by (cases x)
    have none: "err = None" using run Inr by (auto split: option.splits)
    obtain dl0 where a: "ans = Inr dl0" "keep_connection ru cw co dl0 b2 = (Inr (dl, delivery), b')"
      using run Inr x none by (auto simp: dial_failed_def Let_def split: sum.splits prod.splits)
    have k: "dl = dl0" "kept_ok an cw co (bg_recorder b2) dl delivery (bg_recorder b')" using kept_connection [OF assms(1) a(2)] by auto
    have "prefix (bg_recorder b) (bg_recorder b1)" by (rule record_at_hop_logging(2) [OF assms(1) s])
    moreover have "prefix (bg_recorder b1) (bg_recorder b2)" using assms(2) [of ?b1 "dial_request_of best_effort co"] d by simp
    ultimately obtain added where "bg_recorder b2 = bg_recorder b @ added" by (metis prefixE prefix_order.trans)
    then have "kept_ok an cw co (bg_recorder b) dl delivery (bg_recorder b')" using k(2) kept_ok_before by metis
    then show ?thesis unfolding Inr x kept_ok_def by simp
  qed
qed

text \<open>A server that offers one pack by URL, which the client gets without it.\<close>

definition demo_dialed :: dialed where
  "demo_dialed = \<lparr>dl_packs = [Some locked_pack], dl_cache = new_pack_cache, dl_local = None, dl_remote = None, dl_protocol = 800,
     dl_version = ''1.21'', dl_guid = None, dl_close = None\<rparr>"

definition demo_connect_world :: "sink_call list connect_world" where
  "demo_connect_world =
     \<lparr>cw_dial = (\<lambda>rq b. (Inr demo_dialed, b)), cw_deadline = (\<lambda>_. False), cw_waited = 0, cw_duration = (\<lambda>_. ''1ms''),
      cw_error_text = (\<lambda>_. []), cw_start_json = (\<lambda>_. Inr None), cw_failure_json = (\<lambda>_. Inr None), cw_connected_json = (\<lambda>_ _. Inr None),
      cw_raw_uuid = id, cw_parse = (\<lambda>_. Inr locked_pack), cw_packs = (\<lambda>_. locked_world), cw_decrypt = False, cw_root = ''c'', cw_clock = (\<lambda>_. (0, 0))\<rparr>"

definition demo_order :: connect_order where
  "demo_order = \<lparr>cn_target = ''h:1'', cn_connection = ''upstream-1'', cn_hop = 1, cn_client_cache = False, cn_transfer_route = False,
     cn_prepare_downstream = True, cn_exchange_only = False\<rparr>"

definition demo_connect_runner :: "sink_call list runner" where
  "demo_connect_runner = (plain_runner False)\<lparr>ru_sink := logging \<lparr>an_event = (\<lambda>_. Inr (empty_event\<lparr>ev_blob := Some \<lparr>br_sha256 = hex_string [7], br_size = 2,
     br_path = [], br_media_type = [], br_representation = []\<rparr>\<rparr>)), an_limit = (\<lambda>_. Inr ())\<rparr>\<rparr>"

theorem upstream_packs_delivered_witness:
  "\<exists>dl delivery b'. connect_upstream demo_connect_runner demo_connect_world False demo_order (new_bridge quiet_terminal []) = (Inr (dl, delivery), b')
     \<and> pk_download_url ` {p. Some p \<in> set (fetched_packs (dl, delivery))} \<subseteq> {[]}"
proof -
  have m: "merged_packs id new_pack_cache [Some locked_pack] = [locked_pack]"
    by (simp add: merged_packs_def merge_packs_def new_pack_cache_def unused_packs_def cached_pack_def uncached_pack_def with_content_key_def locked_pack_def)
  have f: "pk_checksum locked_pack = [7]" "pk_encrypted locked_pack" "pk_download_url locked_pack = ''https://h/p''"
    by (simp_all add: locked_pack_def)
  have ok: "is_ok (fst (connect_upstream demo_connect_runner demo_connect_world False demo_order (new_bridge quiet_terminal [])))"
    by (simp add: connect_upstream_def demo_connect_world_def demo_order_def demo_connect_runner_def record_at_hop_def record_one_def logging_def
        keep_connection_def demo_dialed_def m Let_def record_packs_def record_resource_packs_def record_pack_def locked_world_def f
        pack_for_downstream_def read_pack_def is_ok_def)
  obtain dl delivery b' where r: "connect_upstream demo_connect_runner demo_connect_world False demo_order (new_bridge quiet_terminal []) = (Inr (dl, delivery), b')"
    using ok by (cases "connect_upstream demo_connect_runner demo_connect_world False demo_order (new_bridge quiet_terminal [])")
      (auto simp: is_ok_def split: sum.splits)
  have sink: "ru_sink demo_connect_runner = logging \<lparr>an_event = (\<lambda>_. Inr (empty_event\<lparr>ev_blob := Some \<lparr>br_sha256 = hex_string [7], br_size = 2,
     br_path = [], br_media_type = [], br_representation = []\<rparr>\<rparr>)), an_limit = (\<lambda>_. Inr ())\<rparr>" by (simp add: demo_connect_runner_def)
  have "prefix (bg_recorder b) (bg_recorder (snd (cw_dial demo_connect_world rq b)))" for rq b by (simp add: demo_connect_world_def)
  from upstream_packs_delivered [OF sink this r] show ?thesis using r by (simp add: Let_def demo_order_def image_subset_iff)
qed

end
