(* ===== verification/Proxy_Run_Theorems.thy ===== *)
theory Proxy_Run_Theorems
  imports Proxy_Run Proxy_Hop_Theorems Proxy_Connect_Theorems
begin

text \<open>
  What holds in every state that a run of the proxy can reach, whatever its clients, servers and hooks do.
\<close>

section \<open>Updates\<close>

lemma put_bridge_sel [simp]:
  "rn_context (put_bridge b s) = rn_context s" "rn_links (put_bridge b s) = rn_links s" "rn_unsent (put_bridge b s) = rn_unsent s"
  "rn_gone (put_bridge b s) = rn_gone s" "rn_channel (put_bridge b s) = rn_channel s" "rn_current (put_bridge b s) = rn_current s"
  "rn_pending (put_bridge b s) = rn_pending s" "rn_followed (put_bridge b s) = rn_followed s" "rn_dials (put_bridge b s) = rn_dials s"
  "rn_changes (put_bridge b s) = rn_changes s"
  by (cases "rn_phase s"; simp add: put_bridge_def Let_def)+

lemma put_bridge_phase:
  "rn_phase (put_bridge b s) = (case rn_phase s of InHop p c h \<Rightarrow> InHop p c (h\<lparr>hp_bridge := b\<rparr>) | ph \<Rightarrow> ph)"
  by (simp add: put_bridge_def Let_def split: run_phase.splits)

lemma put_plan_sel [simp]:
  "rn_context (put_plan p s) = rn_context s" "rn_links (put_plan p s) = rn_links s" "rn_unsent (put_plan p s) = rn_unsent s"
  "rn_gone (put_plan p s) = rn_gone s" "rn_channel (put_plan p s) = rn_channel s" "rn_followed (put_plan p s) = rn_followed s"
  "rn_dials (put_plan p s) = rn_dials s" "rn_phase (put_plan p s) = rn_phase s" "rn_changes (put_plan p s) = rn_changes s"
  "rn_cancelled (put_plan p s) = rn_cancelled s"
  by (simp_all add: put_plan_def split: option.splits)

lemma end_run_sel [simp]:
  "rn_context (end_run r s) = rn_context s" "rn_links (end_run r s) = rn_links s" "rn_unsent (end_run r s) = rn_unsent s"
  "rn_gone (end_run r s) = rn_gone s" "rn_channel (end_run r s) = rn_channel s" "rn_current (end_run r s) = rn_current s"
  "rn_pending (end_run r s) = rn_pending s" "rn_followed (end_run r s) = rn_followed s" "rn_dials (end_run r s) = rn_dials s"
  "rn_changes (end_run r s) = rn_changes s" "rn_phase (end_run r s) = RunEnded r"
  by (simp_all add: end_run_def)

lemma forget_client_sel [simp]:
  "rn_context (forget_client s) = clear_context (rn_context s)" "rn_links (forget_client s) = rn_links s" "rn_unsent (forget_client s) = rn_unsent s"
  "rn_gone (forget_client s) = rn_gone s" "rn_channel (forget_client s) = rn_channel s" "rn_current (forget_client s) = rn_current s"
  "rn_pending (forget_client s) = rn_pending s" "rn_followed (forget_client s) = rn_followed s" "rn_dials (forget_client s) = rn_dials s"
  "rn_changes (forget_client s) = rn_changes s + 1" "rn_phase (forget_client s) = rn_phase s"
  by (simp_all add: forget_client_def change_context_def)

section \<open>Hops and dials\<close>

definition plan_fits :: "string \<Rightarrow> transfer_done list \<Rightarrow> 'n hop_plan \<Rightarrow> bool" where
  "plan_fits upstream followed p =
     (pn_hop p = int (length followed) + 1
      \<and> pn_target p = (if followed = [] then upstream else td_target (last followed))
      \<and> pn_downstream p = connection_name ''downstream'' (pn_hop p) \<and> pn_upstream p = connection_name ''upstream'' (pn_hop p)
      \<and> (pn_network p \<noteq> None \<longrightarrow> transfer_https_address (pn_target p) = Inr (pn_address p))
      \<and> (followed = [] \<longrightarrow> pn_local p = None \<and> pn_guid p = 0 \<and> pn_network p = None))"

text \<open>While a hop runs, the pending plan is that of the target it announced, not yet dialled.\<close>

definition pending_ok :: "(string \<Rightarrow> string option) \<Rightarrow> 'n hop_plan \<Rightarrow> string list \<Rightarrow> 'n hop_plan option \<Rightarrow> bool" where
  "pending_ok resolve p targets pending =
     (if targets = [] then pending = None
      else \<exists>sl \<in> {SlotFree, SlotFailed SlotCanceled}. pending = Some ((next_plan resolve p (last targets))\<lparr>pn_slot := sl\<rparr>))"

definition phase_ok :: "sink_answers \<Rightarrow> sink_call list run_env \<Rightarrow> string \<Rightarrow> transfer_done list \<Rightarrow> (sink_call list, 'n) run_phase \<Rightarrow> 'n hop_plan \<Rightarrow>
    'n hop_plan option \<Rightarrow> bool" where
  "phase_ok an re upstream followed ph current pending =
     (case ph of
        InHop p c h \<Rightarrow> current = p \<and> plan_fits upstream followed p \<and> pn_slot p \<noteq> SlotFree
          \<and> (\<exists>b0. hop_ok an (re_runner re) (plan_lanes re p c) b0 h) \<and> pending_ok (re_resolve re) p (bg_targets (hp_bridge h)) pending
      | InGrace c \<Rightarrow> (\<exists>q. pending = Some q \<and> plan_fits upstream followed q \<and> pn_barrier q \<noteq> BarrierUp)
      | RunEnded r \<Rightarrow> r \<noteq> RunPanic \<and> (\<forall>t. r \<noteq> RunUnfollowed t)
      | _ \<Rightarrow> pending = None \<and> plan_fits upstream followed current \<and> pn_barrier current \<noteq> BarrierUp)"

text \<open>A dial is for the upstream address or for the target of the transfer that its hop follows.\<close>

definition dial_ok :: "string \<Rightarrow> transfer_done list \<Rightarrow> 'n dial_note \<Rightarrow> bool" where
  "dial_ok upstream followed d =
     (\<exists>n \<le> length followed. dn_hop d = int n + 1
        \<and> (case dn_transport d of
             ConfiguredTransport \<Rightarrow> n = 0 \<and> dn_target d = upstream
           | ChosenNetwork m \<Rightarrow> n > 0 \<and> transfer_https_address (td_target (followed ! (n - 1))) = Inr (dn_target d)
           | DatagramTransport l g \<Rightarrow> n > 0 \<and> dn_target d = td_target (followed ! (n - 1))))"

definition dials_ok :: "string \<Rightarrow> transfer_done list \<Rightarrow> 'n dial_note list \<Rightarrow> bool \<Rightarrow> 'n hop_plan \<Rightarrow> bool" where
  "dials_ok upstream followed dials over plan =
     (sorted_wrt (<) (map dn_hop dials) \<and> (\<forall>d \<in> set dials. dial_ok upstream followed d)
      \<and> (\<not> over \<and> pn_slot plan = SlotFree \<longrightarrow> (\<forall>d \<in> set dials. dn_hop d < pn_hop plan)))"

definition run_ok :: "sink_answers \<Rightarrow> sink_call list run_env \<Rightarrow> string \<Rightarrow> (sink_call list, 'n) run \<Rightarrow> bool" where
  "run_ok an re upstream s =
     (length (rn_followed s) \<le> 63 \<and> phase_ok an re upstream (rn_followed s) (rn_phase s) (rn_current s) (rn_pending s)
      \<and> dials_ok upstream (rn_followed s) (rn_dials s) (ended s) (accept_plan s))"

lemma dial_ok_hop: "dial_ok upstream followed d \<Longrightarrow> dn_hop d \<le> int (length followed) + 1"
  by (auto simp: dial_ok_def)

lemma dial_ok_more:
  assumes "dial_ok upstream followed d"
  shows "dial_ok upstream (followed @ [t]) d"
proof -
  obtain n where n: "n \<le> length followed" "dn_hop d = int n + 1"
    "case dn_transport d of
       ConfiguredTransport \<Rightarrow> n = 0 \<and> dn_target d = upstream
     | ChosenNetwork m \<Rightarrow> n > 0 \<and> transfer_https_address (td_target (followed ! (n - 1))) = Inr (dn_target d)
     | DatagramTransport l g \<Rightarrow> n > 0 \<and> dn_target d = td_target (followed ! (n - 1))"
    using assms unfolding dial_ok_def by blast
  then have "case dn_transport d of
       ConfiguredTransport \<Rightarrow> n = 0 \<and> dn_target d = upstream
     | ChosenNetwork m \<Rightarrow> n > 0 \<and> transfer_https_address (td_target ((followed @ [t]) ! (n - 1))) = Inr (dn_target d)
     | DatagramTransport l g \<Rightarrow> n > 0 \<and> dn_target d = td_target ((followed @ [t]) ! (n - 1))"
    by (auto simp: nth_append split: transport.splits)
  then show ?thesis using n(1, 2) unfolding dial_ok_def by (intro exI [of _ n]) simp
qed

lemma note_ok:
  assumes "plan_fits upstream followed p"
  shows "dial_ok upstream followed (note_of p)"
proof (cases "followed = []")
  case True
  then have "plan_transport p = (ConfiguredTransport, upstream)" using assms by (simp add: plan_fits_def plan_transport_def transfer_route_def)
  then show ?thesis using assms True by (simp add: dial_ok_def note_of_def plan_fits_def)
next
  case False
  then have r: "transfer_route p" using assms by (cases followed) (simp_all add: plan_fits_def transfer_route_def)
  have t: "td_target (followed ! (length followed - 1)) = pn_target p" using assms False by (simp add: plan_fits_def last_conv_nth)
  show ?thesis
    using assms False r t unfolding dial_ok_def note_of_def plan_fits_def plan_transport_def
    by (intro exI [of _ "length followed"]) (auto split: option.splits)
qed

lemma prepared_plan:
  assumes "prepare_plan ru pp q b = (err, q', b')"
  shows "\<exists>network address probed. q' = q\<lparr>pn_network := network, pn_address := address, pn_probed := probed\<rparr>
    \<and> (network \<noteq> None \<longrightarrow> network = pn_network q \<and> address = pn_address q \<or> transfer_https_address (pn_target q) = Inr address)"
proof (cases "transfer_https_nethernet (pp_connect pp) (pn_target q)")
  case None
  then have "q' = q \<or> q' = q\<lparr>pn_probed := True\<rparr>" using assms by (auto simp: prepare_plan_def split: prod.splits if_splits)
  then show ?thesis
    by (rule disjE) (rule exI [of _ "pn_network q"], rule exI [of _ "pn_address q"], rule exI [of _ "pn_probed q"], simp,
        rule exI [of _ "pn_network q"], rule exI [of _ "pn_address q"], rule exI [of _ True], simp)
next
  case (Some x)
  obtain network address where x: "x = (network, address)" by (cases x)
  have "q' = q\<lparr>pn_network := Some network, pn_address := address, pn_probed := True\<rparr>"
    using assms Some x by (auto simp: prepare_plan_def Let_def split: prod.splits option.splits)
  moreover have "transfer_https_address (pn_target q) = Inr address"
    using Some x by (auto simp: transfer_https_nethernet_def split: sum.splits option.splits)
  ultimately show ?thesis by blast
qed

lemma next_fits:
  assumes "plan_fits upstream followed p" "q' = ((next_plan resolve p (td_target t))\<lparr>pn_slot := sl\<rparr>)\<lparr>pn_network := network, pn_address := address,
      pn_probed := probed, pn_barrier := BarrierDown\<rparr>" "network \<noteq> None \<longrightarrow> transfer_https_address (td_target t) = Inr address"
  shows "plan_fits upstream (followed @ [t]) q'"
  using assms by (simp add: plan_fits_def next_plan_def)

lemma finish_transfer:
  assumes "finish_hop ru clw hn first second b = (keep, HopTransfer t, b')"
  shows "ru_follow ru" "first = TransferDone t \<or> second = TransferDone t"
proof -
  have "followed_result ru first second = Some t"
    using assms by (auto simp: finish_hop_eq Let_def close_session_def split: option.splits prod.splits)
  then show "ru_follow ru" "first = TransferDone t \<or> second = TransferDone t" using followed_iff [of ru first second t] by auto
qed

section \<open>Steps\<close>

abbreviation log_env :: "sink_answers \<Rightarrow> sink_call list run_env \<Rightarrow> bool" where
  "log_env an re \<equiv> ru_sink (re_runner re) = logging an \<and> re_others re = prefix"

lemma accept_plan_simps [simp]:
  "rn_pending s = None \<Longrightarrow> accept_plan s = rn_current s" "rn_pending s = Some q \<Longrightarrow> accept_plan s = q"
  by (simp_all add: accept_plan_def)

lemma accept_plan_cong: "rn_pending s' = rn_pending s \<Longrightarrow> rn_current s' = rn_current s \<Longrightarrow> accept_plan s' = accept_plan s"
  by (cases "rn_pending s") (simp_all add: accept_plan_def)

lemma ended_cong: "rn_phase s' = rn_phase s \<Longrightarrow> ended s' = ended s"
  by (simp add: ended_def)

text \<open>A step that leaves plans, transfers and dials alone and stays in its phase.\<close>

lemma run_ok_same:
  assumes "run_ok an re upstream s" "rn_followed s' = rn_followed s" "rn_current s' = rn_current s" "rn_pending s' = rn_pending s"
    "rn_dials s' = rn_dials s" "rn_phase s' = rn_phase s"
  shows "run_ok an re upstream s'"
  using assms accept_plan_cong [OF assms(4,3)] ended_cong [OF assms(6)] by (simp add: run_ok_def)

lemma run_ok_ends:
  assumes "run_ok an re upstream s" "rn_followed s' = rn_followed s" "rn_dials s' = rn_dials s" "rn_phase s' = RunEnded r"
    "r \<noteq> RunPanic" "\<And>t. r \<noteq> RunUnfollowed t"
  shows "run_ok an re upstream s'"
  using assms by (simp add: run_ok_def dials_ok_def ended_def phase_ok_def)

lemma run_ok_moves:
  assumes "run_ok an re upstream s" "rn_followed s' = rn_followed s" "rn_current s' = rn_current s" "rn_pending s' = rn_pending s"
    "rn_dials s' = rn_dials s" "rn_phase s \<in> {AtTop, AtAccept, AtSlot}" "rn_phase s' \<in> {AtTop, AtAccept, AtSlot}"
  shows "run_ok an re upstream s'"
  using assms accept_plan_cong [OF assms(4,3)] by (auto simp: run_ok_def ended_def phase_ok_def)

text \<open>Another writer's records do not change what a hop has done.\<close>

lemma run_ok_bridge:
  assumes "run_ok an re upstream s" "records_only prefix (run_bridge s) b"
  shows "run_ok an re upstream (put_bridge b s)"
proof (cases "\<exists>p c h. rn_phase s = InHop p c h")
  case True
  then obtain p c h where InHop: "rn_phase s = InHop p c h" by blast
  then have "records_only prefix (hp_bridge h) b" using assms(2) by (simp add: run_bridge_def)
  then have s: "stepped (hp_bridge h) 0 b" "bg_targets b = bg_targets (hp_bridge h)"
    by (auto simp: records_only_def stepped_def held_def)
  have "phase_ok an re upstream (rn_followed s) (InHop p c (h\<lparr>hp_bridge := b\<rparr>)) (rn_current s) (rn_pending s)"
    using assms(1) hop_ok_bridge [OF _ s(1), of an "re_runner re" "plan_lanes re p c"] s(2) unfolding run_ok_def phase_ok_def InHop run_phase.case by fastforce
  then show ?thesis using assms(1) accept_plan_cong [of "put_bridge b s" s] by (simp add: run_ok_def put_bridge_phase InHop ended_def)
next
  case False
  then have "rn_phase (put_bridge b s) = rn_phase s" by (simp add: put_bridge_phase split: run_phase.splits)
  then show ?thesis by (intro run_ok_same [OF assms(1)]) simp_all
qed

text \<open>Where the listener's callback can dial.\<close>

lemma free_slot_phase:
  assumes "run_ok an re upstream s" "pn_slot (accept_plan s) = SlotFree" "pn_barrier (accept_plan s) \<noteq> BarrierUp" "\<not> ended s"
  shows "plan_fits upstream (rn_followed s) (accept_plan s)" "\<And>p c h. rn_phase s \<noteq> InHop p c h"
proof -
  have no: "rn_phase s \<noteq> InHop p c h" for p c h
  proof
    assume i: "rn_phase s = InHop p c h"
    then have "rn_current s = p" "pn_slot p \<noteq> SlotFree" "pending_ok (re_resolve re) p (bg_targets (hp_bridge h)) (rn_pending s)"
      using assms(1) by (auto simp: run_ok_def phase_ok_def)
    then show False using assms(2, 3) by (auto simp: pending_ok_def accept_plan_def next_plan_def split: if_splits)
  qed
  then show "rn_phase s \<noteq> InHop p c h" for p c h .
  show "plan_fits upstream (rn_followed s) (accept_plan s)"
    using assms(1, 4) no unfolding run_ok_def phase_ok_def ended_def accept_plan_def by (auto split: run_phase.splits)
qed

lemma put_plan_plan: "accept_plan (put_plan p s) = p"
  by (simp add: put_plan_def accept_plan_def split: option.splits)

lemma put_plan_ok:
  assumes "run_ok an re upstream s" "\<And>p c h. rn_phase s \<noteq> InHop p c h" "\<not> ended s" "sl \<noteq> SlotFree"
  shows "phase_ok an re upstream (rn_followed s) (rn_phase s) (rn_current (put_plan ((accept_plan s)\<lparr>pn_slot := sl\<rparr>) s)) (rn_pending (put_plan ((accept_plan s)\<lparr>pn_slot := sl\<rparr>) s))"
  using assms unfolding run_ok_def phase_ok_def ended_def put_plan_def accept_plan_def plan_fits_def
  by (auto split: run_phase.splits option.splits)

lemma fetch_ok:
  assumes "run_ok an re upstream s" "pn_slot (accept_plan s) = SlotFree" "pn_barrier (accept_plan s) \<noteq> BarrierUp" "\<not> ended s" "sl \<noteq> SlotFree"
  shows "run_ok an re upstream ((put_bridge b (put_plan ((accept_plan s)\<lparr>pn_slot := sl\<rparr>) s))\<lparr>rn_dials := rn_dials s @ [note_of (accept_plan s)]\<rparr>)"
proof -
  let ?p = "accept_plan s"
  note f = free_slot_phase [OF assms(1-4)]
  have ph: "rn_phase (put_bridge b (put_plan (?p\<lparr>pn_slot := sl\<rparr>) s)) = rn_phase s"
    using f(2) by (simp add: put_bridge_phase split: run_phase.splits)
  have d: "sorted_wrt (<) (map dn_hop (rn_dials s))" "\<forall>d \<in> set (rn_dials s). dial_ok upstream (rn_followed s) d \<and> dn_hop d < pn_hop ?p"
    using assms(1, 2, 4) by (auto simp: run_ok_def dials_ok_def)
  then have "sorted_wrt (<) (map dn_hop (rn_dials s @ [note_of ?p]))" by (auto simp: sorted_wrt_append note_of_def)
  then have "dials_ok upstream (rn_followed s) (rn_dials s @ [note_of ?p]) False (?p\<lparr>pn_slot := sl\<rparr>)"
    using d(2) note_ok [OF f(1)] assms(5) by (auto simp: dials_ok_def)
  moreover have "accept_plan ((put_bridge b (put_plan (?p\<lparr>pn_slot := sl\<rparr>) s))\<lparr>rn_dials := rn_dials s @ [note_of ?p]\<rparr>) = ?p\<lparr>pn_slot := sl\<rparr>"
    using put_plan_plan [of "?p\<lparr>pn_slot := sl\<rparr>" s]
      accept_plan_cong [of "(put_bridge b (put_plan (?p\<lparr>pn_slot := sl\<rparr>) s))\<lparr>rn_dials := rn_dials s @ [note_of ?p]\<rparr>" "put_plan (?p\<lparr>pn_slot := sl\<rparr>) s"]
    by simp
  ultimately show ?thesis
    using assms(1, 4) put_plan_ok [OF assms(1) f(2) assms(4, 5)] ph by (simp add: run_ok_def ended_def)
qed

lemma fetch_canceled_ok:
  assumes "run_ok an re upstream s" "pn_slot (accept_plan s) = SlotFree" "\<not> ended s"
  shows "run_ok an re upstream (put_plan ((accept_plan s)\<lparr>pn_slot := SlotFailed SlotCanceled\<rparr>) s)"
proof (cases "\<exists>p c h. rn_phase s = InHop p c h")
  case True
  then obtain p c h where i: "rn_phase s = InHop p c h" by blast
  then have ok: "rn_current s = p" "pn_slot p \<noteq> SlotFree" "pending_ok (re_resolve re) p (bg_targets (hp_bridge h)) (rn_pending s)"
    using assms(1) by (auto simp: run_ok_def phase_ok_def)
  then obtain q where q: "rn_pending s = Some q" using assms(2) by (cases "rn_pending s") auto
  then have "pending_ok (re_resolve re) p (bg_targets (hp_bridge h)) (Some (q\<lparr>pn_slot := SlotFailed SlotCanceled\<rparr>))"
    using ok(3) by (auto simp: pending_ok_def split: if_splits)
  then show ?thesis using assms(1) i q by (simp add: run_ok_def phase_ok_def put_plan_def dials_ok_def ended_def)
next
  case False
  have "dials_ok upstream (rn_followed s) (rn_dials s) False ((accept_plan s)\<lparr>pn_slot := SlotFailed SlotCanceled\<rparr>)"
    using assms(1) by (simp add: run_ok_def dials_ok_def)
  then show ?thesis
    using assms(1, 3) put_plan_ok [OF assms(1) _ assms(3), of "SlotFailed SlotCanceled"] False put_plan_plan [of "(accept_plan s)\<lparr>pn_slot := SlotFailed SlotCanceled\<rparr>" s]
    by (simp add: run_ok_def ended_def)
qed

section \<open>A hop\<close>

lemma hop_targets_grow:
  assumes "hop_step ru lanes prefix h h'" "ru_sink ru = logging an"
  shows "prefix (bg_targets (hp_bridge h)) (bg_targets (hp_bridge h'))"
  using assms(1)
proof cases
  case (read_failed d tn e b)
  then show ?thesis using read_effect [OF assms(2) read_failed(3)] by (simp add: read_ok_def stepped_def)
next
  case (read_nothing d tn b)
  then show ?thesis using read_effect [OF assms(2) read_nothing(3)] by (simp add: read_ok_def stepped_def)
next
  case (read_packet d tn p raw b)
  then show ?thesis using read_effect [OF assms(2) read_packet(3)] by (simp add: read_ok_def stepped_def)
next
  case (packet_done d tn p raw b)
  then show ?thesis using packet_effect [OF assms(2) packet_done(3)] by (auto simp: turn_ok_def)
next
  case (packet_failed d tn p raw e b)
  then show ?thesis using packet_effect [OF assms(2) packet_failed(3)] by (auto simp: turn_ok_def)
qed simp_all

lemma announce_ok:
  assumes "pending_ok resolve p (bg_targets (hp_bridge h)) pending" "prefix (bg_targets (hp_bridge h)) (bg_targets (hp_bridge h'))"
  shows "pending_ok resolve p (bg_targets (hp_bridge h')) (announce resolve p h h' pending)"
proof (cases "bg_targets (hp_bridge h') = bg_targets (hp_bridge h)")
  case True
  then show ?thesis using assms(1) by (simp add: announce_def)
next
  case False
  then have "bg_targets (hp_bridge h') \<noteq> []" using assms(2) by auto
  moreover have "next_plan resolve p t = (next_plan resolve p t)\<lparr>pn_slot := SlotFree\<rparr>" for t by (simp add: next_plan_def)
  ultimately show ?thesis using False by (auto simp: pending_ok_def announce_def)
qed

lemma hop_goes_ok:
  assumes "run_ok an re upstream s" "rn_phase s = InHop p c h" "hop_step (re_runner re) (plan_lanes re p c) prefix h h'"
    "ru_sink (re_runner re) = logging an"
  shows "run_ok an re upstream ((put_bridge (hp_bridge h') (s\<lparr>rn_phase := InHop p c h'\<rparr>))\<lparr>rn_pending := announce (re_resolve re) p h h' (rn_pending s)\<rparr>)"
proof -
  obtain b0 where b: "rn_current s = p" "plan_fits upstream (rn_followed s) p" "pn_slot p \<noteq> SlotFree" "hop_ok an (re_runner re) (plan_lanes re p c) b0 h"
    "pending_ok (re_resolve re) p (bg_targets (hp_bridge h)) (rn_pending s)"
    using assms(1, 2) by (auto simp: run_ok_def phase_ok_def)
  have "hop_ok an (re_runner re) (plan_lanes re p c) b0 h'"
    by (rule hop_step_ok [OF assms(3) b(4) assms(4)]) (simp add: plan_lanes_def directions_differ)
  moreover have pend: "pending_ok (re_resolve re) p (bg_targets (hp_bridge h')) (announce (re_resolve re) p h h' (rn_pending s))"
    by (rule announce_ok [OF b(5) hop_targets_grow [OF assms(3, 4)]])
  moreover have "dn_hop d < pn_hop q" if "d \<in> set (rn_dials s)" "announce (re_resolve re) p h h' (rn_pending s) = Some q" for d q
  proof -
    have "dial_ok upstream (rn_followed s) d" using assms(1) that(1) by (simp add: run_ok_def dials_ok_def)
    then have "dn_hop d \<le> pn_hop p" using dial_ok_hop b(2) by (force simp: plan_fits_def)
    moreover have "pn_hop q = pn_hop p + 1" using pend that(2) by (auto simp: pending_ok_def next_plan_def split: if_splits)
    ultimately show ?thesis by simp
  qed
  ultimately show ?thesis
    using assms(1) b(1, 2, 3) by (auto simp: run_ok_def phase_ok_def put_bridge_phase dials_ok_def ended_def accept_plan_def split: option.splits)
qed

lemma follow_ok:
  assumes "run_ok an re upstream s" "rn_phase s = InHop p c h" "bg_targets (hp_bridge h) = [td_target t]"
    "rn_followed s' = rn_followed s" "rn_dials s' = rn_dials s" "rn_pending s' = rn_pending s"
  shows "run_ok an re upstream (follow_transfer ru pp c (pn_hop p) t s')"
proof (cases "pn_hop p \<ge> max_followed_hops")
  case True
  then show ?thesis by (intro run_ok_ends [OF assms(1), where r = "RunHopLimit (td_target t)"]) (simp_all add: follow_transfer_def assms)
next
  case False
  have b: "plan_fits upstream (rn_followed s) p" "pending_ok (re_resolve re) p [td_target t] (rn_pending s)"
    using assms(1-3) by (auto simp: run_ok_def phase_ok_def)
  then obtain sl where q: "rn_pending s = Some ((next_plan (re_resolve re) p (td_target t))\<lparr>pn_slot := sl\<rparr>)" by (auto simp: pending_ok_def)
  let ?q = "(next_plan (re_resolve re) p (td_target t))\<lparr>pn_slot := sl\<rparr>"
  obtain err q1 b1 where pr: "prepare_plan ru pp ?q (run_bridge s') = (err, q1, b1)" by (metis prod_cases3)
  obtain network address probed where q1: "q1 = ?q\<lparr>pn_network := network, pn_address := address, pn_probed := probed\<rparr>"
    "network \<noteq> None \<longrightarrow> network = pn_network ?q \<and> address = pn_address ?q \<or> transfer_https_address (pn_target ?q) = Inr address"
    using prepared_plan [OF pr] by blast
  have net: "network \<noteq> None \<longrightarrow> transfer_https_address (td_target t) = Inr address" using q1(2) by (auto simp: next_plan_def)
  show ?thesis
  proof (cases err)
    case (Some e)
    then show ?thesis using False q pr
      by (intro run_ok_ends [OF assms(1), where r = "RunRecord e"]) (simp_all add: follow_transfer_def assms)
  next
    case None
    define s2 where "s2 = follow_transfer ru pp c (pn_hop p) t s'"
    have s2: "rn_followed s2 = rn_followed s @ [t]" "rn_dials s2 = rn_dials s" "rn_phase s2 = InGrace c" "rn_pending s2 = Some (q1\<lparr>pn_barrier := BarrierDown\<rparr>)"
      using False q pr None by (simp_all add: s2_def follow_transfer_def assms)
    have fits: "plan_fits upstream (rn_followed s2) (q1\<lparr>pn_barrier := BarrierDown\<rparr>)"
      unfolding s2(1) by (rule next_fits [OF b(1) _ net]) (simp add: q1(1))
    have "length (rn_followed s2) \<le> 63" using False b(1) by (simp add: s2 plan_fits_def max_followed_hops_def)
    moreover have "dn_hop d < int (length (rn_followed s2)) + 1" if "d \<in> set (rn_dials s)" for d
    proof -
      have "dial_ok upstream (rn_followed s) d" using assms(1) that by (simp add: run_ok_def dials_ok_def)
      then show ?thesis using dial_ok_hop by (force simp: s2)
    qed
    moreover have "sorted_wrt (<) (map dn_hop (rn_dials s))" "\<forall>d \<in> set (rn_dials s). dial_ok upstream (rn_followed s2) d"
      using assms(1) unfolding s2(1) by (simp_all add: run_ok_def dials_ok_def dial_ok_more)
    moreover have "pn_hop (q1\<lparr>pn_barrier := BarrierDown\<rparr>) = int (length (rn_followed s2)) + 1" using fits by (simp add: plan_fits_def)
    ultimately have "dials_ok upstream (rn_followed s2) (rn_dials s2) False (q1\<lparr>pn_barrier := BarrierDown\<rparr>)" by (simp add: dials_ok_def s2(2))
    then show ?thesis
      using \<open>length (rn_followed s2) \<le> 63\<close> fits unfolding s2_def [symmetric] run_ok_def by (simp add: phase_ok_def ended_def s2(3, 4))
  qed
qed

lemma hop_ends_ok:
  assumes "run_ok an re upstream s" "rn_phase s = InHop p c h" "map snd (hp_results h) = [first, second]"
    "finish_hop (re_runner re) clw (names_of p) first second (hp_bridge h) = (keep, res, b)"
  shows "run_ok an re upstream (after_hop (re_runner re) pp c p res (put_bridge b (s\<lparr>rn_phase := AtSlot\<rparr>)))"
proof (cases res)
  case (HopTransfer t)
  note f = finish_transfer [OF assms(4) [unfolded HopTransfer]]
  obtain b0 where h: "hop_ok an (re_runner re) (plan_lanes re p c) b0 h" using assms(1, 2) by (auto simp: run_ok_def phase_ok_def)
  have "TransferDone t \<in> snd ` set (hp_results h)" using f(2) assms(3) by (metis list.set_intros(1,2) list.set_map)
  then obtain d where "(d, TransferDone t) \<in> set (hp_results h)" by auto
  then have t: "bg_targets (hp_bridge h) = [td_target t]" using hop_ok_targets(2) [OF h] by (auto simp: plan_lanes_def)
  show ?thesis unfolding HopTransfer after_hop_def using f(1) follow_ok [OF assms(1, 2) t] by simp
next
  case HopEnded
  then show ?thesis by (intro run_ok_ends [OF assms(1), where r = RunOver]) (simp_all add: after_hop_def)
next
  case (HopFailed e)
  then show ?thesis by (intro run_ok_ends [OF assms(1), where r = "RunHopFailed e"]) (simp_all add: after_hop_def)
qed

lemma then_hop_ok: "then_hop x f = (Inr (), b') \<Longrightarrow> \<exists>b. x = (None, b) \<and> f b = (Inr (), b')"
  by (cases x; cases "fst x") auto

lemma record_at_hop_empty:
  assumes "ru_sink ru = logging an" "record_at_hop ru kind severity value hop b = (None, b')"
  shows "bg_sent b' = bg_sent b \<and> bg_targets b' = bg_targets b"
  using assms by (auto simp: record_at_hop_def record_one_logging split: sum.splits)

lemma record_view_empty:
  assumes "ru_sink ru = logging an" "record_view_at_hop ru vp v b = (None, b')"
  shows "bg_sent b' = bg_sent b \<and> bg_targets b' = bg_targets b"
  using assms by (auto simp: record_view_at_hop_def record_one_logging split: sum.splits)

lemma start_hop_empty:
  assumes "ru_sink ru = logging an" "start_hop ru hw hn b = (Inr (), b')"
  shows "bg_sent b' = bg_sent b \<and> bg_targets b' = bg_targets b"
proof -
  have l: "bg_sent (live_do f x) = bg_sent x" "bg_targets (live_do f x) = bg_targets x" for f and x :: log_bridge by (simp_all add: live_do_def)
  note r = record_at_hop_empty [OF assms(1)] record_view_empty [OF assms(1)]
  have none: "fs_err (bg_failures b) = None" "hw_spawn hw = None" using assms(2)
    by (auto simp: start_hop_def spawn_failed_def split: option.splits prod.splits)
  show ?thesis using assms(2)
    unfolding start_hop_def Let_def none option.case
    by (auto dest!: then_hop_ok r simp: l spawn_failed_def split: option.splits prod.splits)
qed

lemma begin_hop_ok:
  assumes "run_ok an re upstream s" "rn_phase s = AtAccept" "ru_sink (re_runner re) = logging an"
  shows "run_ok an re upstream (begin_hop (re_runner re) hw c s)"
proof -
  have p: "rn_pending s = None" "plan_fits upstream (rn_followed s) (rn_current s)" using assms(1, 2) by (simp_all add: run_ok_def phase_ok_def)
  show ?thesis
  proof (cases "pn_slot (rn_current s)")
    case SlotFree
    then show ?thesis using p by (intro run_ok_ends [OF assms(1), where r = RunNoUpstream]) (simp_all add: begin_hop_def)
  next
    case (SlotFailed f)
    then show ?thesis using p by (intro run_ok_ends [OF assms(1), where r = "RunSlotFailed f"]) (simp_all add: begin_hop_def)
  next
    case (SlotDone dl packs)
    obtain res b where st: "start_hop (re_runner re) hw (names_of (rn_current s)) (new_hop (run_bridge s)) = (res, b)"
      by (cases "start_hop (re_runner re) hw (names_of (rn_current s)) (new_hop (run_bridge s))")
    show ?thesis
    proof (cases res)
      case (Inl e)
      then show ?thesis using p SlotDone st by (intro run_ok_ends [OF assms(1), where r = "RunHopFailed e"]) (simp_all add: begin_hop_def)
    next
      case (Inr u)
      have b: "bg_sent b = []" "bg_targets b = []" using start_hop_empty [OF assms(3), of hw "names_of (rn_current s)" "new_hop (run_bridge s)" b] st Inr
        by (simp_all add: new_hop_def)
      define s2 where "s2 = begin_hop (re_runner re) hw c s"
      have s2: "rn_followed s2 = rn_followed s" "rn_dials s2 = rn_dials s" "rn_current s2 = rn_current s" "rn_pending s2 = None"
          "rn_phase s2 = InHop (rn_current s) c (start_loops b)"
        using p SlotDone st Inr by (simp_all add: s2_def begin_hop_def)
      have "hop_ok an (re_runner re) (plan_lanes re (rn_current s) c) b (start_loops b)" by (rule hop_ok_start [OF b])
      then have "phase_ok an re upstream (rn_followed s2) (rn_phase s2) (rn_current s2) (rn_pending s2)"
        using p SlotDone b by (auto simp: phase_ok_def s2 pending_ok_def start_loops_def)
      then show ?thesis using assms(1) SlotDone unfolding s2_def [symmetric] by (simp add: run_ok_def s2 dials_ok_def ended_def)
    qed
  qed
qed

lemma grace_ends_ok:
  assumes "run_ok an re upstream s" "rn_phase s = InGrace c"
  shows "run_ok an re upstream ((promote_pending s)\<lparr>rn_phase := AtSlot\<rparr>)"
proof -
  obtain q where q: "rn_pending s = Some q" "plan_fits upstream (rn_followed s) q" "pn_barrier q \<noteq> BarrierUp"
    using assms by (auto simp: run_ok_def phase_ok_def)
  then show ?thesis using assms by (simp add: run_ok_def promote_pending_def phase_ok_def ended_def)
qed

lemma accept_failure_fine: "accept_failure s e \<noteq> RunPanic" "accept_failure s e \<noteq> RunUnfollowed t"
  by (simp_all add: accept_failure_def split: option.splits)

lemma run_step_ok:
  assumes "run_step re s s'" "run_ok an re upstream s" "log_env an re"
  shows "run_ok an re upstream s'"
  using assms(1)
proof cases
  case (client_opens c t g)
  then show ?thesis by (intro run_ok_same [OF assms(2)]) (simp_all add: change_context_def)
next
  case (client_leaves c)
  then show ?thesis by (intro run_ok_same [OF assms(2)]) simp_all
next
  case (notice c g)
  then show ?thesis by (intro run_ok_same [OF assms(2)]) simp_all
next
  case cancels
  then show ?thesis by (intro run_ok_same [OF assms(2)]) simp_all
next
  case (others b)
  then show ?thesis using run_ok_bridge [OF assms(2)] assms(3) by simp
next
  case (fetches p cw cache res b)
  then show ?thesis using fetch_ok [OF assms(2)] by (auto split: sum.splits)
next
  case (fetch_canceled p own)
  then show ?thesis using fetch_canceled_ok [OF assms(2)] by auto
next
  case (drain_stale g)
  then show ?thesis by (intro run_ok_same [OF assms(2)]) simp_all
next
  case (drain_gone g)
  then show ?thesis by (intro run_ok_ends [OF assms(2), where r = RunOver]) simp_all
next
  case top_gone
  then show ?thesis by (intro run_ok_ends [OF assms(2), where r = RunOver]) simp_all
next
  case (waits now)
  then show ?thesis by (intro run_ok_moves [OF assms(2)]) simp_all
next
  case (accept_stale g)
  then show ?thesis by (intro run_ok_same [OF assms(2)]) simp_all
next
  case (accept_gone g)
  then show ?thesis by (intro run_ok_ends [OF assms(2), where r = RunOver]) simp_all
next
  case accept_cancelled
  then show ?thesis by (intro run_ok_ends [OF assms(2), where r = RunOver]) simp_all
next
  case (accept_fails e)
  then show ?thesis by (intro run_ok_ends [OF assms(2), where r = "accept_failure s e"]) (simp_all add: accept_failure_fine)
next
  case accept_wrong
  then show ?thesis by (intro run_ok_ends [OF assms(2), where r = RunWrongConnection]) simp_all
next
  case (accepts c hw now greeting)
  define s1 where "s1 = forget_client (put_bridge (live_do (live_info now greeting) (run_bridge s)) s)"
  have "run_ok an re upstream s1" "rn_phase s1 = AtAccept"
    using accepts by (auto intro: run_ok_same [OF assms(2)] simp: s1_def put_bridge_phase)
  then show ?thesis using begin_hop_ok assms(3) accepts(1) unfolding s1_def by blast
next
  case (hop_goes p c h h')
  then show ?thesis using hop_goes_ok [OF assms(2)] assms(3) by simp
next
  case (hop_ends p c h first second clw keep res b pp)
  then show ?thesis using hop_ends_ok [OF assms(2)] by simp
next
  case (grace_ends c)
  then show ?thesis using grace_ends_ok [OF assms(2)] by simp
next
  case (grace_cancelled c)
  then show ?thesis by (intro run_ok_ends [OF assms(2), where r = RunOver]) simp_all
next
  case slot_ready
  then show ?thesis by (intro run_ok_moves [OF assms(2)]) simp_all
next
  case slot_cancelled
  then show ?thesis by (intro run_ok_ends [OF assms(2), where r = RunOver]) simp_all
qed

lemma itoa_one: "itoa_int 1 = ''1''"
  by code_simp

lemma run_ok_new: "run_ok an re upstream (new_run upstream b)"
  by (simp add: run_ok_def new_run_def phase_ok_def plan_fits_def first_plan_def dials_ok_def connection_name_def itoa_one)

lemma run_reaches_ok:
  assumes "(run_step re)\<^sup>*\<^sup>* (new_run upstream b) s" "log_env an re"
  shows "run_ok an re upstream s"
  using assms(1) by (induction rule: rtranclp_induct) (use run_ok_new run_step_ok assms(2) in blast)+

text \<open>
  C14. In every state that a run reaches: at most 63 transfers were followed, so that no hop is numbered past
  64; hops are dialled in order and at most once each, the first to the configured address and a later one
  only after the transfer to it was followed, to that transfer's target or the HTTPS endpoint made of it; a
  client is waited for with the hop after the last followed transfer, for its target; while a hop runs, a next
  hop is pending exactly when the hop announced a target, for that target, and is not dialled; and a followed
  transfer always has its prepared hop.
\<close>

theorem run_follows_transfers:
  assumes "ru_sink (re_runner re) = logging an" "re_others re = prefix" "(run_step re)\<^sup>*\<^sup>* (new_run upstream b) s"
  shows "length (rn_followed s) \<le> 63
    \<and> sorted_wrt (<) (map dn_hop (rn_dials s))
    \<and> (\<forall>d \<in> set (rn_dials s). \<exists>n \<le> length (rn_followed s). dn_hop d = int n + 1
        \<and> (case dn_transport d of
             ConfiguredTransport \<Rightarrow> n = 0 \<and> dn_target d = upstream
           | ChosenNetwork m \<Rightarrow> n > 0 \<and> transfer_https_address (td_target (rn_followed s ! (n - 1))) = Inr (dn_target d)
           | DatagramTransport l g \<Rightarrow> n > 0 \<and> dn_target d = td_target (rn_followed s ! (n - 1))))
    \<and> (rn_phase s \<in> {AtTop, AtAccept, AtSlot} \<longrightarrow> rn_pending s = None \<and> plan_fits upstream (rn_followed s) (rn_current s))
    \<and> (\<forall>p c h. rn_phase s = InHop p c h \<longrightarrow> rn_current s = p \<and> plan_fits upstream (rn_followed s) p
        \<and> (case bg_targets (hp_bridge h) of
             [] \<Rightarrow> rn_pending s = None
           | [t] \<Rightarrow> (\<exists>q. rn_pending s = Some q \<and> pn_hop q = pn_hop p + 1 \<and> pn_target q = t \<and> pn_barrier q = BarrierUp
               \<and> pn_slot q \<in> {SlotFree, SlotFailed SlotCanceled})
           | _ \<Rightarrow> False))
    \<and> (\<forall>c. rn_phase s = InGrace c \<longrightarrow> (\<exists>q. rn_pending s = Some q \<and> plan_fits upstream (rn_followed s) q))
    \<and> rn_phase s \<noteq> RunEnded RunPanic"
    (is "?few \<and> ?order \<and> ?dials \<and> ?wait \<and> ?hop \<and> ?grace \<and> ?fine")
proof -
  have ok: "run_ok an re upstream s" using run_reaches_ok [OF assms(3)] assms(1, 2) by simp
  have ?few ?order using ok by (simp_all add: run_ok_def dials_ok_def)
  moreover have ?dials using ok by (simp add: run_ok_def dials_ok_def dial_ok_def)
  moreover have ?wait ?grace ?fine using ok by (auto simp: run_ok_def phase_ok_def)
  moreover have ?hop
  proof (intro allI impI)
    fix p c h assume i: "rn_phase s = InHop p c h"
    then obtain b0 where h: "rn_current s = p" "plan_fits upstream (rn_followed s) p" "hop_ok an (re_runner re) (plan_lanes re p c) b0 h"
      "pending_ok (re_resolve re) p (bg_targets (hp_bridge h)) (rn_pending s)"
      using ok by (auto simp: run_ok_def phase_ok_def)
    have "length (bg_targets (hp_bridge h)) \<le> 1" using hop_ok_targets(1) [OF h(3)] by (simp add: plan_lanes_def)
    then have "bg_targets (hp_bridge h) = [] \<or> (\<exists>t. bg_targets (hp_bridge h) = [t])" by (cases "bg_targets (hp_bridge h)") auto
    then show "rn_current s = p \<and> plan_fits upstream (rn_followed s) p
        \<and> (case bg_targets (hp_bridge h) of
             [] \<Rightarrow> rn_pending s = None
           | [t] \<Rightarrow> (\<exists>q. rn_pending s = Some q \<and> pn_hop q = pn_hop p + 1 \<and> pn_target q = t \<and> pn_barrier q = BarrierUp
               \<and> pn_slot q \<in> {SlotFree, SlotFailed SlotCanceled})
           | _ \<Rightarrow> False)"
      using h(1, 2, 4) by (auto simp: pending_ok_def next_plan_def)
  qed
  ultimately show ?thesis by blast
qed

section \<open>Notices\<close>

text \<open>
  A generation is the number of changes so far, and a link whose generation is the current one is the tracked
  client's; a notice in the channel is that of a client who left.
\<close>

definition context_ok :: "('r, 'n) run \<Rightarrow> bool" where
  "context_ok s =
     (tc_generation (rn_context s) = of_nat (rn_changes s)
      \<and> (\<forall>(c, g) \<in> set (rn_links s). \<exists>k > 0. k \<le> rn_changes s \<and> g = of_nat k \<and> (k = rn_changes s \<longrightarrow> tc_context (rn_context s) = Some c))
      \<and> set (rn_unsent s) \<subseteq> set (rn_links s)
      \<and> (\<forall>g. rn_channel s = Some g \<longrightarrow> (\<exists>c \<in> rn_gone s. (c, g) \<in> set (rn_links s))))"

lemma context_ok_same:
  assumes "context_ok s" "rn_context s' = rn_context s" "rn_changes s' = rn_changes s" "rn_links s' = rn_links s"
    "set (rn_unsent s') \<subseteq> set (rn_unsent s)" "rn_channel s' = rn_channel s \<or> rn_channel s' = None" "rn_gone s \<subseteq> rn_gone s'"
  shows "context_ok s'"
proof -
  have "\<exists>c \<in> rn_gone s'. (c, g) \<in> set (rn_links s')" if "rn_channel s' = Some g" for g
  proof -
    have "rn_channel s = Some g" using that assms(6) by auto
    then show ?thesis using assms(1, 4, 7) unfolding context_ok_def by auto
  qed
  then show ?thesis using assms(1-5) unfolding context_ok_def by auto
qed

lemma context_ok_forgets:
  assumes "context_ok s" "rn_context s' = clear_context (rn_context s)" "rn_changes s' = rn_changes s + 1" "rn_links s' = rn_links s"
    "rn_unsent s' = rn_unsent s" "rn_channel s' = rn_channel s \<or> rn_channel s' = None" "rn_gone s' = rn_gone s"
  shows "context_ok s'"
proof -
  have "\<forall>(c, g) \<in> set (rn_links s'). \<exists>k > 0. k \<le> rn_changes s' \<and> g = of_nat k \<and> (k = rn_changes s' \<longrightarrow> tc_context (rn_context s') = Some c)"
    using assms(1, 3, 4) unfolding context_ok_def by fastforce
  then show ?thesis using assms unfolding context_ok_def by (auto simp: clear_context_def)
qed

lemma begin_hop_context:
  "rn_context (begin_hop ru hw c s) = rn_context s \<and> rn_changes (begin_hop ru hw c s) = rn_changes s \<and> rn_links (begin_hop ru hw c s) = rn_links s
   \<and> rn_unsent (begin_hop ru hw c s) = rn_unsent s \<and> rn_channel (begin_hop ru hw c s) = rn_channel s \<and> rn_gone (begin_hop ru hw c s) = rn_gone s
   \<and> rn_phase (begin_hop ru hw c s) \<noteq> RunEnded RunOver"
  by (auto simp: begin_hop_def Let_def split: slot.splits prod.splits sum.splits)

definition same_clients :: "('r, 'n) run \<Rightarrow> ('r, 'n) run \<Rightarrow> bool" where
  "same_clients s s' =
     (rn_context s' = rn_context s \<and> rn_changes s' = rn_changes s \<and> rn_links s' = rn_links s \<and> rn_unsent s' = rn_unsent s
      \<and> rn_channel s' = rn_channel s \<and> rn_gone s' = rn_gone s)"

lemma follow_context: "same_clients s (follow_transfer ru pp c hop t s)"
  by (cases "rn_pending s"; cases "prepare_plan ru pp (the (rn_pending s)) (run_bridge s)"; cases "fst (prepare_plan ru pp (the (rn_pending s)) (run_bridge s))")
    (simp_all add: follow_transfer_def same_clients_def)

lemma end_context: "same_clients s (end_run r s)"
  by (simp add: same_clients_def)

lemma after_hop_context: "same_clients s (after_hop ru pp c p res s)"
  by (cases res) (simp_all add: after_hop_def follow_context end_context)

lemma client_opens_context:
  assumes "context_ok s" "set_context (Some c) (rn_context s) = (t, g)"
  shows "context_ok ((change_context t s)\<lparr>rn_links := rn_links s @ [(c, g)], rn_unsent := rn_unsent s @ [(c, g)]\<rparr>)"
proof -
  have t: "t = \<lparr>tc_context = Some c, tc_generation = of_nat (rn_changes s + 1)\<rparr>" "g = of_nat (rn_changes s + 1)"
    using assms by (auto simp: set_context_def context_ok_def Let_def)
  have links: "\<exists>k > 0. k \<le> rn_changes s + 1 \<and> y = of_nat k \<and> (k = rn_changes s + 1 \<longrightarrow> Some c = Some x)" if "(x, y) \<in> set (rn_links s @ [(c, g)])" for x y
  proof (cases "(x, y) = (c, g)")
    case True
    then show ?thesis using t(2) by (intro exI [of _ "rn_changes s + 1"]) simp
  next
    case False
    then have "(x, y) \<in> set (rn_links s)" using that by auto
    then obtain k where "k > 0" "k \<le> rn_changes s" "y = of_nat k" using assms(1) unfolding context_ok_def by blast
    then show ?thesis by (intro exI [of _ k]) simp
  qed
  let ?s = "(change_context t s)\<lparr>rn_links := rn_links s @ [(c, g)], rn_unsent := rn_unsent s @ [(c, g)]\<rparr>"
  have sel: "rn_context ?s = t" "rn_changes ?s = rn_changes s + 1" "rn_links ?s = rn_links s @ [(c, g)]" "rn_unsent ?s = rn_unsent s @ [(c, g)]"
      "rn_channel ?s = rn_channel s" "rn_gone ?s = rn_gone s" "tc_context t = Some c" "tc_generation t = of_nat (rn_changes s + 1)"
    by (simp_all add: change_context_def t)
  have rest: "set (rn_unsent s) \<subseteq> set (rn_links s)" "\<forall>g. rn_channel s = Some g \<longrightarrow> (\<exists>c \<in> rn_gone s. (c, g) \<in> set (rn_links s))"
    using assms(1) by (simp_all add: context_ok_def)
  show ?thesis unfolding context_ok_def sel
    by (intro conjI) (use links rest in \<open>(simp; fail)|blast|fastforce\<close>)+
qed

lemma context_step:
  assumes "run_step re s s'" "context_ok s"
  shows "context_ok s'"
  using assms(1)
proof cases
  case (client_opens c t g)
  then show ?thesis using client_opens_context [OF assms(2)] by simp
next
  case (notice c g)
  have "\<exists>x \<in> rn_gone s. (x, y) \<in> set (rn_links s)" if "(case rn_channel s of None \<Rightarrow> Some g | Some x \<Rightarrow> Some x) = Some y" for y
    using that notice assms(2) unfolding context_ok_def by (auto split: option.splits)
  then show ?thesis using assms(2) set_remove1_subset [of "(c, g)" "rn_unsent s"] unfolding context_ok_def notice by auto
next
  case (fetches p cw cache res b)
  show ?thesis unfolding fetches by (rule context_ok_same [OF assms(2)]) simp_all
next
  case (accepts c hw now greeting)
  show ?thesis unfolding accepts by (rule context_ok_forgets [OF assms(2)]) (simp_all add: begin_hop_context)
next
  case (hop_ends p c h first second clw keep res b pp)
  have "same_clients (put_bridge b (s\<lparr>rn_phase := AtSlot\<rparr>)) s'" unfolding hop_ends by (rule after_hop_context)
  then show ?thesis by (intro context_ok_same [OF assms(2)]) (simp_all add: same_clients_def)
next
  case (grace_ends c)
  show ?thesis unfolding grace_ends by (rule context_ok_same [OF assms(2)]) (simp_all add: promote_pending_def split: option.splits)
next
  case (drain_gone g)
  show ?thesis unfolding drain_gone by (rule context_ok_forgets [OF assms(2)]) simp_all
next
  case top_gone
  show ?thesis unfolding top_gone by (rule context_ok_forgets [OF assms(2)]) simp_all
next
  case (accept_gone g)
  show ?thesis unfolding accept_gone by (rule context_ok_forgets [OF assms(2)]) simp_all
qed (rule context_ok_same [OF assms(2)], simp_all, blast?)+

lemma context_reaches:
  assumes "(run_step re)\<^sup>*\<^sup>* (new_run upstream b) s"
  shows "context_ok s"
  using assms
proof (induction rule: rtranclp_induct)
  case base
  show ?case by (simp add: context_ok_def new_run_def)
next
  case (step s s')
  then show ?case using context_step by blast
qed

text \<open>
  C35. A run that ends without an error while it waits for a client was cancelled, or the client that is
  tracked now has left: a late notice of an earlier client never ends it (as long as fewer than $2^{64}$
  clients came and went).
\<close>

theorem notice_ends_run:
  assumes "(run_step re)\<^sup>*\<^sup>* (new_run upstream b) s" "run_step re s s'" "rn_phase s \<in> {AtTop, AtAccept}" "rn_phase s' = RunEnded RunOver"
    "rn_changes s < 2 ^ 64"
  shows "rn_cancelled s \<or> (\<exists>c. tc_context (rn_context s) = Some c \<and> c \<in> rn_gone s)"
proof -
  have ok: "context_ok s" by (rule context_reaches [OF assms(1)])
  have gone: ?thesis if "client_gone s" using that by (auto simp: client_gone_def split: option.splits)
  show ?thesis using assms(2)
  proof cases
    case (accept_gone g)
    then obtain c where c: "c \<in> rn_gone s" "(c, g) \<in> set (rn_links s)" using ok unfolding context_ok_def by blast
    then obtain k where k: "k \<le> rn_changes s" "g = of_nat k" "k = rn_changes s \<longrightarrow> tc_context (rn_context s) = Some c"
      using ok unfolding context_ok_def by blast
    have "(of_nat k :: u64) = of_nat (rn_changes s)" using accept_gone(4) k(2) ok by (simp add: context_ok_def)
    then have "k = rn_changes s" using k(1) assms(5) by (simp add: word_of_nat_eq_iff take_bit_nat_eq_self)
    then show ?thesis using k(3) c(1) by blast
  next
    case (accept_fails e)
    then show ?thesis using assms(4) by (auto simp: accept_failure_def split: option.splits if_splits)
  next
    case (accepts c hw now greeting)
    then show ?thesis using assms(4) begin_hop_context by metis
  next
    case (drain_gone g)
    then show ?thesis using gone by blast
  next
    case top_gone
    then show ?thesis using gone by blast
  qed (use assms(3, 4) in \<open>auto simp: put_bridge_phase change_context_def split: run_phase.splits\<close>)
qed

text \<open>
  The notice of the tracked client is lost when it finds an older one in the channel: the run goes on waiting
  for a client that has left, and nothing will tell it.
\<close>

theorem lost_notice:
  fixes re :: "'r run_env" and b :: "'r bridge"
  shows "\<exists>s :: ('r, 'n) run. (run_step re)\<^sup>*\<^sup>* (new_run upstream b) s \<and> rn_phase s = AtAccept \<and> client_gone s \<and> rn_channel s = None \<and> rn_unsent s = []"
proof -
  let ?go = "\<lambda>s s'. run_step re s s'"
  define s0 where "s0 = (new_run upstream b :: ('r, 'n) run)"
  define s1 where "s1 = (put_bridge (live_do (live_set_hop (0, 0) (pn_hop (accept_plan s0))) (run_bridge s0)) s0)\<lparr>rn_phase := AtAccept\<rparr>"
  define s2 where "s2 = (change_context \<lparr>tc_context = Some 0, tc_generation = 1\<rparr> s1)\<lparr>rn_links := rn_links s1 @ [(0, 1)], rn_unsent := rn_unsent s1 @ [(0, 1)]\<rparr>"
  define s3 where "s3 = (change_context \<lparr>tc_context = Some 1, tc_generation = 2\<rparr> s2)\<lparr>rn_links := rn_links s2 @ [(1, 2)], rn_unsent := rn_unsent s2 @ [(1, 2)]\<rparr>"
  define s4 where "s4 = s3\<lparr>rn_gone := insert 0 (rn_gone s3)\<rparr>"
  define s5 where "s5 = s4\<lparr>rn_gone := insert 1 (rn_gone s4)\<rparr>"
  define s6 where "s6 = s5\<lparr>rn_unsent := remove1 (0, 1) (rn_unsent s5), rn_channel := (case rn_channel s5 of None \<Rightarrow> Some 1 | Some x \<Rightarrow> Some x)\<rparr>"
  define s7 where "s7 = s6\<lparr>rn_unsent := remove1 (1, 2) (rn_unsent s6), rn_channel := (case rn_channel s6 of None \<Rightarrow> Some 2 | Some x \<Rightarrow> Some x)\<rparr>"
  define s8 where "s8 = s7\<lparr>rn_channel := None\<rparr>"
  have f1: "rn_phase s1 = AtAccept" "rn_context s1 = \<lparr>tc_context = None, tc_generation = 0\<rparr>" "rn_links s1 = []" "rn_unsent s1 = []" "rn_gone s1 = {}"
      "rn_channel s1 = None" by (simp_all add: s1_def s0_def new_run_def)
  have f3: "rn_phase s3 = AtAccept" "rn_context s3 = \<lparr>tc_context = Some 1, tc_generation = 2\<rparr>" "rn_links s3 = [(0, 1), (1, 2)]" "rn_unsent s3 = [(0, 1), (1, 2)]"
      "rn_gone s3 = {}" "rn_channel s3 = None" by (simp_all add: s3_def s2_def change_context_def f1)
  have f6: "rn_phase s6 = AtAccept" "rn_context s6 = rn_context s3" "rn_unsent s6 = [(1, 2)]" "rn_gone s6 = {0, 1}" "rn_channel s6 = Some 1"
    by (auto simp: s6_def s5_def s4_def f3)
  have f7: "rn_phase s7 = AtAccept" "rn_context s7 = rn_context s3" "rn_unsent s7 = []" "rn_gone s7 = {0, 1}" "rn_channel s7 = Some 1"
    by (simp_all add: s7_def f6)
  have st1: "?go s0 s1" unfolding s1_def by (rule waits) (simp_all add: s0_def new_run_def client_gone_def)
  have st2: "?go s1 s2" unfolding s2_def by (rule client_opens) (simp_all add: ended_def f1 set_context_def Let_def)
  have st3: "?go s2 s3" unfolding s3_def by (rule client_opens) (simp_all add: ended_def s2_def change_context_def f1 set_context_def Let_def)
  have st4: "?go s3 s4" unfolding s4_def by (rule client_leaves) (simp_all add: ended_def f3)
  have st5: "?go s4 s5" unfolding s5_def by (rule client_leaves) (simp_all add: ended_def s4_def f3)
  have st6: "?go s5 s6" unfolding s6_def by (rule notice) (simp_all add: ended_def s5_def s4_def f3)
  have st7: "?go s6 s7" unfolding s7_def by (rule notice) (simp_all add: ended_def f6)
  have st8: "?go s7 s8" unfolding s8_def by (rule accept_stale [OF f7(1, 5)]) (simp add: f7 f3)
  have "?go\<^sup>*\<^sup>* s0 s8"
    by (rule converse_rtranclp_into_rtranclp [where r = "run_step re", OF st1], rule converse_rtranclp_into_rtranclp [where r = "run_step re", OF st2],
        rule converse_rtranclp_into_rtranclp [where r = "run_step re", OF st3], rule converse_rtranclp_into_rtranclp [where r = "run_step re", OF st4],
        rule converse_rtranclp_into_rtranclp [where r = "run_step re", OF st5], rule converse_rtranclp_into_rtranclp [where r = "run_step re", OF st6],
        rule converse_rtranclp_into_rtranclp [where r = "run_step re", OF st7], rule r_into_rtranclp [where r = "run_step re", OF st8])
  moreover have "rn_phase s8 = AtAccept \<and> client_gone s8 \<and> rn_channel s8 = None \<and> rn_unsent s8 = []"
    by (simp_all add: s8_def f7 f3 client_gone_def)
  ultimately show ?thesis unfolding s0_def by (intro exI [of _ s8]) blast
qed

section \<open>A first login\<close>

definition demo_env :: "sink_call list run_env" where
  "demo_env = \<lparr>re_runner = plain_runner True, re_resolve = (\<lambda>_. None), re_server_address = (\<lambda>_. []), re_listener = ''127.0.0.1:19132'', re_others = prefix\<rparr>"

definition demo_start :: "(sink_call list, unit) run" where
  "demo_start = new_run ''h:19132'' (new_bridge quiet_terminal [])"

definition demo_refused :: "sink_call list connect_world" where
  "demo_refused = demo_connect_world\<lparr>cw_start_json := (\<lambda>_. Inl ''no'')\<rparr>"

definition demo_fetched :: "(sink_call list, unit) run" where
  "demo_fetched =
     (put_bridge (new_bridge quiet_terminal []) (put_plan ((first_plan ''h:19132'')\<lparr>pn_slot :=
        SlotFailed (SlotConnect (ConnectRecord ''encode upstream.dial_start event: no''))\<rparr>) demo_start))\<lparr>rn_dials := [note_of (first_plan ''h:19132'')]\<rparr>"

lemma demo_fetch: "run_step demo_env demo_start demo_fetched"
proof -
  have c: "connect_upstream (re_runner demo_env) demo_refused False (plan_order False (first_plan ''h:19132'' :: unit hop_plan)) (run_bridge demo_start)
      = (Inl (ConnectRecord ''encode upstream.dial_start event: no''), new_bridge quiet_terminal [])"
    by (simp add: connect_upstream_def demo_refused_def record_at_hop_def run_bridge_def demo_start_def new_run_def)
  have p: "accept_plan demo_start = first_plan ''h:19132''" by (simp add: accept_plan_def demo_start_def new_run_def)
  have "records_only (re_others demo_env) (run_bridge demo_start) (new_bridge quiet_terminal [])"
    by (simp add: records_only_def demo_env_def run_bridge_def demo_start_def new_run_def)
  from fetches [OF _ p _ _ c this] show ?thesis
    by (simp add: demo_fetched_def first_plan_def ended_def demo_start_def new_run_def)
qed

theorem run_follows_transfers_witness:
  "rn_dials demo_fetched \<noteq> [] \<and> (\<lambda>d. (dn_hop d, dn_target d)) ` set (rn_dials demo_fetched) = {(1, ''h:19132'')}"
proof -
  have reach: "(run_step demo_env)\<^sup>*\<^sup>* (new_run ''h:19132'' (new_bridge quiet_terminal [])) demo_fetched"
    using demo_fetch unfolding demo_start_def by blast
  have "ru_sink (re_runner demo_env) = logging patient_sink" "re_others demo_env = prefix" by (simp_all add: demo_env_def plain_runner_def)
  note r = run_follows_transfers [OF this reach]
  have "rn_followed demo_fetched = []" "rn_dials demo_fetched \<noteq> []" by (simp_all add: demo_fetched_def demo_start_def new_run_def)
  have "\<forall>d \<in> set (rn_dials demo_fetched). \<exists>n \<le> length (rn_followed demo_fetched). dn_hop d = int n + 1
        \<and> (case dn_transport d of
             ConfiguredTransport \<Rightarrow> n = 0 \<and> dn_target d = ''h:19132''
           | ChosenNetwork m \<Rightarrow> n > 0 \<and> transfer_https_address (td_target (rn_followed demo_fetched ! (n - 1))) = Inr (dn_target d)
           | DatagramTransport l g \<Rightarrow> n > 0 \<and> dn_target d = td_target (rn_followed demo_fetched ! (n - 1)))"
    using r by blast
  then have "dn_hop d = 1 \<and> dn_target d = ''h:19132''" if "d \<in> set (rn_dials demo_fetched)" for d
    using that \<open>rn_followed demo_fetched = []\<close> by (cases "dn_transport d") fastforce+
  then have "(\<lambda>d. (dn_hop d, dn_target d)) ` set (rn_dials demo_fetched) \<subseteq> {(1, ''h:19132'')}" by (simp add: image_subset_iff)
  moreover have "(\<lambda>d. (dn_hop d, dn_target d)) ` set (rn_dials demo_fetched) \<noteq> {}" using \<open>rn_dials demo_fetched \<noteq> []\<close> by simp
  ultimately show ?thesis using \<open>rn_dials demo_fetched \<noteq> []\<close> by (simp only: subset_singleton_iff) argo
qed

definition demo_left :: "(sink_call list, unit) run" where
  "demo_left = \<lparr>rn_bridge = new_bridge quiet_terminal [], rn_phase = AtTop, rn_context = \<lparr>tc_context = Some 0, tc_generation = 1\<rparr>, rn_links = [(0, 1)],
     rn_unsent = [(0, 1)], rn_gone = {0}, rn_channel = None, rn_current = first_plan ''h:19132'', rn_pending = None, rn_cancelled = False,
     rn_followed = [], rn_dials = [], rn_changes = 1\<rparr>"

theorem notice_ends_run_witness:
  "rn_phase (end_run RunOver (forget_client demo_left)) = RunEnded RunOver
     \<and> (\<exists>c. tc_context (rn_context demo_left) = Some c \<and> c \<in> rn_gone demo_left)"
proof -
  let ?s1 = "(change_context \<lparr>tc_context = Some 0, tc_generation = 1\<rparr> demo_start)\<lparr>rn_links := [(0, 1)], rn_unsent := [(0, 1)]\<rparr>"
  have "run_step demo_env demo_start ?s1"
    using client_opens [of demo_start 0 "\<lparr>tc_context = Some 0, tc_generation = 1\<rparr>" 1 demo_env]
    by (simp add: ended_def demo_start_def new_run_def set_context_def Let_def)
  moreover have "run_step demo_env ?s1 demo_left"
    using client_leaves [of ?s1 0 demo_env] by (simp add: ended_def demo_start_def new_run_def change_context_def demo_left_def)
  ultimately have reach: "(run_step demo_env)\<^sup>*\<^sup>* (new_run ''h:19132'' (new_bridge quiet_terminal [])) demo_left"
    unfolding demo_start_def by (meson converse_rtranclp_into_rtranclp rtranclp.rtrancl_refl)
  have step: "run_step demo_env demo_left (end_run RunOver (forget_client demo_left))"
    by (rule top_gone) (simp_all add: demo_left_def client_gone_def)
  show ?thesis using notice_ends_run [OF reach step] by (simp add: demo_left_def)
qed

section \<open>Resource packs only\<close>

text \<open>However the exchange goes, the connection is closed and its end is the last record, a warning if anything failed.\<close>

lemma packs_closed_last:
  assumes "ru_sink ru = logging an" "connect_upstream ru (px_connect px) False (packs_order (cfg_upstream cfg)) b1 = (Inr (dl, packs), b2)"
    "cfg_packs_only cfg" "record_at_hop ru ''proxy.start'' SeverityInfo (px_start_json px) 1 b = (None, b1)"
    "\<And>n e. px_close_json px n e = Inr (data n e)"
  shows "\<exists>err captured b' log. run_packs_only ru cfg px b = ((err, dl_close dl, captured), b')
    \<and> bg_recorder b' = log @ [event_call (lifecycle_event ''session.close''
        (if err = None \<and> dl_close dl = None then SeverityInfo else SeverityWarn) (data (length packs) (dl_close dl)) 1)]"
proof -
  obtain err b3 where x: "exchange_packs ru px (cfg_upstream cfg) (length packs) b2 = (err, b3)" by (cases "exchange_packs ru px (cfg_upstream cfg) (length packs) b2")
  have r: "run_packs_only ru cfg px b = close_packs ru px dl (length packs) (err, b3)"
    using assms(2-4) x by (simp add: run_packs_only_def)
  show ?thesis unfolding r close_packs_def
    by (cases "an_event an (length (bg_recorder b3))") (simp_all add: record_at_hop_def assms(5) record_one_logging [OF assms(1)])
qed

end
