(* ===== verification/Live_Reporter_Theorems.thy ===== *)
theory Live_Reporter_Theorems
  imports Live_Reporter "HOL-Library.Multiset"
begin

text \<open>
  What the reporter writes: every packet that it counts is in exactly one summary or still pending, a summary
  shows its counts exactly and does not depend on the order of the map, and hints are given once.
\<close>

section \<open>Summaries\<close>

text \<open>What a write block says: a summary of a bucket of counts, or one message.\<close>

datatype live_block = SummaryBlock instant "(live_key \<times> int) list" | MessageBlock instant string string string

fun block_lines :: "live_reporter \<Rightarrow> live_block \<Rightarrow> string list" where
  "block_lines r (SummaryBlock now b) =
     map (\<lambda>g. live_line r now (group_label g) (group_color g) (group_message (group_counts g b))) (live_groups b)"
| "block_lines r (MessageBlock now label color message) = [live_line r now label color message]"

definition bucket_count :: "(live_key \<times> int) list \<Rightarrow> live_key \<Rightarrow> int" where
  "bucket_count b k = (case map_of b k of None \<Rightarrow> 0 | Some c \<Rightarrow> c)"

fun block_count :: "live_block \<Rightarrow> live_key \<Rightarrow> int" where
  "block_count (SummaryBlock now b) k = bucket_count b k"
| "block_count (MessageBlock now label color message) k = 0"

definition bucket_ok :: "(live_key \<times> int) list \<Rightarrow> bool" where
  "bucket_ok b = (distinct (map fst b) \<and> (\<forall>(k, c) \<in> set b. c > 0))"

lemma live_groups_set: "set (live_groups b) = (\<lambda>((channel, direction, _), _). (channel, direction)) ` set b"
  by (simp add: live_groups_def)

lemma group_counts_ne: "g \<in> set (live_groups b) \<Longrightarrow> group_counts g b \<noteq> []"
  by (auto simp: live_groups_set group_counts_def filter_empty_conv)

lemma flush_lines:
  "set gs \<subseteq> set (live_groups b) \<Longrightarrow> foldl (write_group now b) r gs =
     r\<lparr>lr_output := lr_output r @ map (\<lambda>g. live_line r now (group_label g) (group_color g) (group_message (group_counts g b))) gs\<rparr>"
proof (induction gs arbitrary: r)
  case (Cons g gs)
  then have "group_counts g b \<noteq> []" using group_counts_ne by simp
  then show ?case using Cons by (simp add: write_group_def write_line_def live_line_def)
qed simp

lemma flush_eq:
  "flush_live now r = r\<lparr>lr_output := lr_output r @ block_lines r (SummaryBlock now (lr_counts r)), lr_counts := [], lr_last_flush := now\<rparr>"
  by (simp add: flush_live_def flush_lines live_groups_def)

text \<open>Equal buckets give equal text, whatever order their entries have.\<close>

lemma map_sort_key: "map f (sort_key f xs) = sort (map f xs)"
  by (metis mset_map mset_sort properties_for_sort sorted_sort_key)

lemma ranked_order_free:
  assumes "mset cs = mset cs'"
  shows "ranked_counts cs = ranked_counts cs'"
proof -
  let ?f = "\<lambda>(name :: string, c :: int). (- c, name)"
  have inj: "inj ?f" by (auto simp: inj_def)
  have "sort (map ?f cs) = sort (map ?f cs')"
    by (rule properties_for_sort) (simp_all add: assms)
  then have "map ?f (ranked_counts cs) = map ?f (ranked_counts cs')" by (simp only: ranked_counts_def map_sort_key)
  then show ?thesis using inj by (metis inj_map_eq_map)
qed

lemma bucket_mset:
  assumes "bucket_ok b" "bucket_ok b'" "set b = set b'"
  shows "mset b = mset b'"
  using assms by (metis bucket_ok_def distinct_map set_eq_iff_mset_eq_distinct)

lemma groups_order_free: "set b = set b' \<Longrightarrow> live_groups b = live_groups b'"
  unfolding live_groups_def
  by (rule sorted_distinct_set_unique) auto

lemma group_counts_mset: "mset b = mset b' \<Longrightarrow> mset (group_counts g b) = mset (group_counts g b')"
  by (simp add: group_counts_def)

lemma lines_order_free:
  assumes "bucket_ok b" "bucket_ok b'" "set b = set b'"
  shows "block_lines r (SummaryBlock now b) = block_lines r (SummaryBlock now b')"
proof -
  have m: "mset (group_counts g b) = mset (group_counts g b')" for g
    using bucket_mset [OF assms] by (rule group_counts_mset)
  have "count_total (group_counts g b) = count_total (group_counts g b')" for g
    using m [of g] by (metis count_total_def mset_map sum_mset_sum_list)
  moreover have "ranked_counts (group_counts g b) = ranked_counts (group_counts g b')" for g using m by (rule ranked_order_free)
  ultimately show ?thesis using groups_order_free [OF assms(3)] by (simp add: group_message_def)
qed

text \<open>The lines of a summary: its groups in order, and in each the counts by rank with nothing lost.\<close>

definition summary_exact :: "(live_key \<times> int) list \<Rightarrow> bool" where
  "summary_exact b =
     (sorted_wrt (<) (live_groups b)
      \<and> (\<forall>channel d. (channel, d) \<in> set (live_groups b) \<longleftrightarrow> (\<exists>name. bucket_count b (channel, d, name) > 0))
      \<and> (\<forall>channel d name c. (name, c) \<in> set (group_counts (channel, d) b) \<longleftrightarrow> c > 0 \<and> bucket_count b (channel, d, name) = c)
      \<and> (\<forall>g. let ranked = ranked_counts (group_counts g b); shown = take live_summary_per_side ranked; rest = drop live_summary_per_side ranked
            in mset ranked = mset (group_counts g b)
               \<and> count_total shown + count_total rest = count_total (group_counts g b)
               \<and> (\<forall>x \<in> set shown. \<forall>y \<in> set rest. snd y \<le> snd x)))"

lemma bucket_count_iff:
  assumes "bucket_ok b"
  shows "(k, c) \<in> set b \<longleftrightarrow> c > 0 \<and> bucket_count b k = c"
proof -
  have d: "distinct (map fst b)" and p: "\<And>k c. (k, c) \<in> set b \<Longrightarrow> c > 0" using assms by (auto simp: bucket_ok_def)
  have "(k, c) \<in> set b \<longleftrightarrow> map_of b k = Some c" using d by simp
  then show ?thesis using p [of k c] by (auto simp: bucket_count_def split: option.splits)
qed

lemma ranked_sorted:
  assumes "i < j" "j < length (ranked_counts cs)"
  shows "snd (ranked_counts cs ! j) \<le> snd (ranked_counts cs ! i)"
proof -
  let ?f = "\<lambda>(name :: string, c :: int). (- c, name)"
  have "sorted (map ?f (ranked_counts cs))" by (simp add: ranked_counts_def)
  then have "?f (ranked_counts cs ! i) \<le> ?f (ranked_counts cs ! j)"
    using assms sorted_nth_mono [of "map ?f (ranked_counts cs)" i j] by simp
  then show ?thesis by (auto simp: less_eq_prod_def split: prod.splits)
qed

lemma summary_exactI:
  assumes "bucket_ok b"
  shows "summary_exact b"
proof -
  have "(channel, d) \<in> set (live_groups b) \<longleftrightarrow> (\<exists>name. bucket_count b (channel, d, name) > 0)" for channel d
  proof -
    have "(channel, d) \<in> set (live_groups b) \<longleftrightarrow> (\<exists>name c. ((channel, d, name), c) \<in> set b)"
      by (force simp: live_groups_set)
    then show ?thesis by (simp add: bucket_count_iff [OF assms])
  qed
  moreover have "(name, c) \<in> set (group_counts (channel, d) b) \<longleftrightarrow> c > 0 \<and> bucket_count b (channel, d, name) = c" for channel d name c
  proof -
    have "(name, c) \<in> set (group_counts (channel, d) b) \<longleftrightarrow> ((channel, d, name), c) \<in> set b"
      by (force simp: group_counts_def)
    then show ?thesis by (simp add: bucket_count_iff [OF assms])
  qed
  moreover have "snd y \<le> snd x" if xy: "x \<in> set (take n (ranked_counts cs))" "y \<in> set (drop n (ranked_counts cs))" for n cs x y
  proof -
    obtain i where "i < n" "i < length (ranked_counts cs)" "x = ranked_counts cs ! i"
      using xy(1) by (auto simp: in_set_conv_nth)
    moreover obtain j where "j < length (drop n (ranked_counts cs))" "y = drop n (ranked_counts cs) ! j"
      using xy(2) by (metis in_set_conv_nth)
    ultimately
    show ?thesis using ranked_sorted [of i "n + j" cs] by simp
  qed
  moreover have "count_total (take n (ranked_counts cs)) + count_total (drop n (ranked_counts cs)) = count_total cs" for n cs
  proof -
    have "count_total (ranked_counts cs) = count_total cs"
      by (simp add: count_total_def ranked_counts_def flip: sum_mset_sum_list)
    then show ?thesis by (metis append_take_drop_id count_total_def map_append sum_list_append)
  qed
  moreover have "sorted_wrt (<) (live_groups b)" by (simp add: live_groups_def strict_sorted_iff)
  ultimately show ?thesis by (simp add: summary_exact_def Let_def ranked_counts_def)
qed

section \<open>Runs\<close>

text \<open>The key under which a call counts a packet, and how often a run counts a key.\<close>

fun counted_key :: "live_call \<Rightarrow> live_reporter \<Rightarrow> live_key option" where
  "counted_key (RawCall now channel d n) r =
     (if lr_hop r \<in> set (lr_spawned r) then None else Some (channel, d, raw_packet_name r d n))"
| "counted_key (PacketCall now d (Some p)) r = Some ([], d, live_packet_name p)"
| "counted_key _ r = None"

fun live_counted :: "live_call list \<Rightarrow> live_reporter \<Rightarrow> live_key \<Rightarrow> int" where
  "live_counted [] r k = 0"
| "live_counted (c # cs) r k = (if counted_key c r = Some k then 1 else 0) + live_counted cs (live_step c r) k"

text \<open>
  The messages that a run has to show, read off its calls alone: \<open>follow\<close> and \<open>closing\<close> say what the last calls
  set, and \<open>advised\<close> whether an earlier call has brought up the advice on self-signed logins.
\<close>

fun advises :: "live_call \<Rightarrow> bool" where
  "advises (LogCall now channel level message) =
     (level \<ge> level_warn \<and> channel = ''downstream'' \<and> contains_sub message self_signed_message)"
| "advises _ = False"

definition advice :: "instant \<Rightarrow> live_block" where
  "advice now = MessageBlock now ''WARN'' ansi_yellow self_signed_advice"

fun call_messages :: "bool \<Rightarrow> bool \<Rightarrow> bool \<Rightarrow> live_call \<Rightarrow> live_block list" where
  "call_messages follow closing advised (InfoCall now line) = [MessageBlock now ''INFO'' ansi_white line]"
| "call_messages follow closing advised (PacketCall now d (Some (LiveTransfer name address port))) =
     [MessageBlock now ''TRANSFER'' ansi_magenta (transfer_message follow d address port)]"
| "call_messages follow closing advised (LogCall now channel level message) =
     (if level < level_warn then []
      else if advises (LogCall now channel level message) then (if advised then [] else [advice now])
      else if closing \<and> contains_sub (to_lower message) ''capture recorder is closed''
      then [MessageBlock now ''WARN'' ansi_yellow (library_text channel message)]
      else [MessageBlock now (map upper_ascii (level_text level)) (library_log_color level) (library_text channel message)])"
| "call_messages follow closing advised _ = []"

fun run_messages :: "bool \<Rightarrow> bool \<Rightarrow> bool \<Rightarrow> live_call list \<Rightarrow> live_block list" where
  "run_messages follow closing advised [] = []"
| "run_messages follow closing advised (c # cs) =
     call_messages follow closing advised c
     @ run_messages (case c of FollowCall b \<Rightarrow> b | _ \<Rightarrow> follow) (closing \<or> c = ShutCall) (advised \<or> advises c) cs"

fun is_message :: "live_block \<Rightarrow> bool" where
  "is_message (MessageBlock now label color message) = True"
| "is_message (SummaryBlock now b) = False"

definition told :: "live_reporter \<Rightarrow> live_block list \<Rightarrow> live_block list \<Rightarrow> (live_key \<Rightarrow> int) \<Rightarrow> live_reporter \<Rightarrow> bool" where
  "told r0 blocks msgs seen r =
     (lr_output r = concat (map (block_lines r0) blocks) \<and> lr_zone r = lr_zone r0 \<and> lr_color r = lr_color r0
      \<and> (\<forall>k. seen k = bucket_count (lr_counts r) k + sum_list (map (\<lambda>b. block_count b k) blocks))
      \<and> bucket_ok (lr_counts r) \<and> (\<forall>now b. SummaryBlock now b \<in> set blocks \<longrightarrow> bucket_ok b)
      \<and> filter is_message blocks = msgs)"

lemma block_lines_same: "lr_zone r = lr_zone r0 \<Longrightarrow> lr_color r = lr_color r0 \<Longrightarrow> block_lines r b = block_lines r0 b"
  by (cases b) (simp_all add: live_line_def)

lemma bucket_ok_bump: "bucket_ok b \<Longrightarrow> bucket_ok (bump k b)"
proof -
  have "\<forall>(k, c) \<in> set b. c > (0 :: int) \<Longrightarrow> \<forall>(k, c) \<in> set (bump k b). c > 0"
    by (induction b) (auto split: if_splits)
  then show "bucket_ok b \<Longrightarrow> bucket_ok (bump k b)" using distinct_upsert [of b] by (simp add: bucket_ok_def)
qed

lemma bucket_count_bump: "bucket_count (bump k b) k' = bucket_count b k' + (if k' = k then 1 else 0)"
  by (auto simp: bucket_count_def map_of_upsert split: option.splits)

lemma told_flush:
  assumes "told r0 blocks msgs seen r"
  shows "told r0 (blocks @ [SummaryBlock now (lr_counts r)]) msgs seen (flush_live now r)"
  using assms block_lines_same [of r r0 "SummaryBlock now (lr_counts r)"]
  by (auto simp: told_def flush_eq bucket_count_def [of "[]"] bucket_ok_def [of "[]"] simp del: block_lines.simps)

lemma told_count:
  assumes "told r0 blocks msgs seen r"
  shows "told r0 blocks msgs (\<lambda>x. (if Some k = Some x then 1 else 0) + seen x) (count_key k r)"
  using assms bucket_ok_bump [of "lr_counts r" k] by (auto simp: told_def count_key_def bucket_count_bump)

lemma told_message:
  assumes "told r0 blocks msgs seen r"
  shows "told r0 (blocks @ [MessageBlock now label color message]) (msgs @ [MessageBlock now label color message]) seen
    (write_line now label color message r)"
  using assms by (auto simp: told_def write_line_def live_line_def)

lemma told_same:
  assumes "told r0 blocks msgs seen r" "lr_output r' = lr_output r" "lr_zone r' = lr_zone r" "lr_color r' = lr_color r"
    "lr_counts r' = lr_counts r"
  shows "told r0 blocks msgs seen r'"
  using assms by (simp add: told_def)

lemma told_due:
  assumes "told r0 blocks msgs seen r"
  shows "\<exists>more. told r0 (blocks @ more) msgs seen (flush_when_due now r)"
  using told_flush [OF assms, of now] assms by (auto simp: flush_when_due_def intro: exI [of _ "[]"])

text \<open>What the messages of the next calls depend on.\<close>

definition hinted :: "live_reporter \<Rightarrow> bool" where "hinted r \<longleftrightarrow> self_signed_hint \<in> set (lr_hints r)"

lemma flush_flags [simp]:
  "lr_follow (flush_live now r) = lr_follow r" "lr_shutting_down (flush_live now r) = lr_shutting_down r" "lr_hints (flush_live now r) = lr_hints r"
  by (simp_all add: flush_eq)

lemma written_flags [simp]:
  "lr_follow (write_line now label color message r) = lr_follow r"
  "lr_shutting_down (write_line now label color message r) = lr_shutting_down r"
  "lr_hints (write_line now label color message r) = lr_hints r"
  by (simp_all add: write_line_def)

lemma counted_flags [simp]:
  "lr_follow (count_key k r) = lr_follow r" "lr_shutting_down (count_key k r) = lr_shutting_down r" "lr_hints (count_key k r) = lr_hints r"
  by (simp_all add: count_key_def)

lemma due_flags [simp]:
  "lr_follow (flush_when_due now r) = lr_follow r" "lr_shutting_down (flush_when_due now r) = lr_shutting_down r"
  "lr_hints (flush_when_due now r) = lr_hints r"
  by (simp_all add: flush_when_due_def)

lemma log_flags:
  "lr_follow (live_library_log now channel level message r) = lr_follow r"
  "lr_shutting_down (live_library_log now channel level message r) = lr_shutting_down r"
  "hinted (live_library_log now channel level message r) = (hinted r \<or> advises (LogCall now channel level message))"
  by (simp_all add: live_library_log_def Let_def hinted_def add_once_def)

lemma packet_flags:
  "lr_follow (live_packet_seen now d p r) = lr_follow r" "lr_shutting_down (live_packet_seen now d p r) = lr_shutting_down r"
  "lr_hints (live_packet_seen now d p r) = lr_hints r"
  by (simp_all add: live_packet_seen_def Let_def split: option.splits live_packet.splits)

lemma step_flags:
  "lr_follow (live_step c r) = (case c of FollowCall b \<Rightarrow> b | _ \<Rightarrow> lr_follow r)"
  "lr_shutting_down (live_step c r) = (lr_shutting_down r \<or> c = ShutCall)"
  "hinted (live_step c r) = (hinted r \<or> advises c)"
proof -
  show "lr_follow (live_step c r) = (case c of FollowCall b \<Rightarrow> b | _ \<Rightarrow> lr_follow r)"
    by (cases c) (simp_all add: live_info_def live_raw_packet_def live_set_spawned_def live_set_hop_def live_close_def log_flags packet_flags Let_def)
  show "lr_shutting_down (live_step c r) = (lr_shutting_down r \<or> c = ShutCall)"
    by (cases c) (simp_all add: live_info_def live_raw_packet_def live_set_spawned_def live_set_hop_def live_close_def log_flags packet_flags Let_def)
  have plain: "hinted (live_step c r) = hinted r" "\<not> advises c" if "\<And>now channel level message. c \<noteq> LogCall now channel level message"
    using that
    by (cases c; simp add: hinted_def live_info_def live_raw_packet_def live_set_spawned_def live_set_hop_def live_close_def packet_flags Let_def)+
  show "hinted (live_step c r) = (hinted r \<or> advises c)"
  proof (cases "\<exists>now channel level message. c = LogCall now channel level message")
    case True
    then show ?thesis using log_flags(3) by auto
  next
    case False
    then show ?thesis using plain by blast
  qed
qed

lemma log_quiet: "level < level_warn \<Longrightarrow> live_library_log now channel level message r = r"
  by (simp add: live_library_log_def)

lemma log_advice:
  assumes "advises (LogCall now channel level message)"
  shows "live_library_log now channel level message r =
    (if hinted r then flush_live now r
     else write_line now ''WARN'' ansi_yellow self_signed_advice
       ((flush_live now r)\<lparr>lr_hints := add_once self_signed_hint (lr_hints (flush_live now r))\<rparr>))"
  using assms by (simp add: live_library_log_def Let_def hinted_def)

lemma log_other:
  assumes "\<not> level < level_warn" "\<not> advises (LogCall now channel level message)"
  shows "\<exists>l c. call_messages follow (lr_shutting_down r) advised (LogCall now channel level message)
      = [MessageBlock now l c (library_text channel message)]
    \<and> live_library_log now channel level message r = write_line now l c (library_text channel message) (flush_live now r)"
proof -
  let ?late = "lr_shutting_down r \<and> contains_sub (to_lower message) ''capture recorder is closed''"
  let ?l = "if ?late then ''WARN'' else map upper_ascii (level_text level)"
  let ?c = "if ?late then ansi_yellow else library_log_color level"
  have n: "(channel = ''downstream'' \<and> contains_sub message self_signed_message) = False" using assms by auto
  have "call_messages follow (lr_shutting_down r) advised (LogCall now channel level message)
      = [MessageBlock now ?l ?c (library_text channel message)]"
    using assms by (simp del: advises.simps)
  moreover have "live_library_log now channel level message r = write_line now ?l ?c (library_text channel message) (flush_live now r)"
    using assms(1) by (simp only: live_library_log_def n Let_def if_False flush_flags split: if_split) blast
  ultimately show ?thesis by blast
qed

lemma told_log:
  assumes "told r0 blocks msgs seen r"
  shows "\<exists>more. told r0 (blocks @ more)
    (msgs @ call_messages follow (lr_shutting_down r) (hinted r) (LogCall now channel level message)) seen
    (live_library_log now channel level message r)"
proof (cases "level < level_warn")
  case True
  then show ?thesis using assms by (intro exI [of _ "[]"]) (simp add: log_quiet)
next
  case False
  let ?r = "flush_live now r" and ?b = "blocks @ [SummaryBlock now (lr_counts r)]" and ?c = "LogCall now channel level message"
  let ?m = "call_messages follow (lr_shutting_down r) (hinted r) ?c"
  have t: "told r0 ?b msgs seen ?r" using told_flush [OF assms] .
  have "\<exists>more. told r0 (?b @ more) (msgs @ ?m) seen (live_library_log now channel level message r)"
  proof (cases "advises ?c")
    case self: True
    show ?thesis
    proof (cases "hinted r")
      case True
      have "?m = []" using self False True by simp
      then show ?thesis using t True by (intro exI [of _ "[]"]) (simp only: log_advice [OF self] append_Nil2 if_True)
    next
      case fresh: False
      let ?r' = "?r\<lparr>lr_hints := add_once self_signed_hint (lr_hints ?r)\<rparr>"
      have "told r0 ?b msgs seen ?r'" by (rule told_same [OF t]) simp_all
      from told_message [OF this, of now "''WARN''" ansi_yellow self_signed_advice]
      have "told r0 (?b @ [advice now]) (msgs @ [advice now]) seen (live_library_log now channel level message r)"
        using fresh by (simp only: log_advice [OF self] advice_def if_False)
      moreover have "?m = [advice now]" using self False fresh by simp
      ultimately show ?thesis by metis
    qed
  next
    case other: False
    from log_other [OF False other, of follow r "hinted r"] obtain l c where m: "?m = [MessageBlock now l c (library_text channel message)]"
      "live_library_log now channel level message r = write_line now l c (library_text channel message) ?r" by blast
    show ?thesis unfolding m using told_message [OF t] by blast
  qed
  then show ?thesis by (metis append_assoc)
qed

lemma told_packet:
  assumes "told r0 blocks msgs seen r"
  shows "\<exists>more. told r0 (blocks @ more) (msgs @ call_messages (lr_follow r) closing advised (PacketCall now d (Some p)))
    (\<lambda>k. (if Some ([], d, live_packet_name p) = Some k then 1 else 0) + seen k) (live_packet_seen now d (Some p) r)"
proof (cases p)
  case (OrdinaryPacket name)
  then show ?thesis using told_due [OF told_count [OF assms]] by (simp add: live_packet_seen_def)
next
  case (LiveTransfer name address port)
  let ?m = "MessageBlock now ''TRANSFER'' ansi_magenta (transfer_message (lr_follow r) d address port)"
  have "told r0 ((blocks @ [SummaryBlock now (lr_counts (count_key ([], d, name) r))]) @ [?m]) (msgs @ [?m])
    (\<lambda>k. (if Some ([], d, name) = Some k then 1 else 0) + seen k)
    (write_line now ''TRANSFER'' ansi_magenta (transfer_message (lr_follow r) d address port) (flush_live now (count_key ([], d, name) r)))"
    by (rule told_message [OF told_flush [OF told_count [OF assms]]])
  then show ?thesis using LiveTransfer by (auto simp: live_packet_seen_def Let_def)
qed

lemma told_step:
  assumes "told r0 blocks msgs seen r"
  shows "\<exists>more. told r0 (blocks @ more) (msgs @ call_messages (lr_follow r) (lr_shutting_down r) (hinted r) c)
    (\<lambda>k. (if counted_key c r = Some k then 1 else 0) + seen k) (live_step c r)"
proof (cases c)
  case (InfoCall now line)
  have "told r0 ((blocks @ [SummaryBlock now (lr_counts r)]) @ [MessageBlock now ''INFO'' ansi_white line])
    (msgs @ [MessageBlock now ''INFO'' ansi_white line]) seen (live_info now line r)"
    unfolding live_info_def by (rule told_message [OF told_flush [OF assms]])
  then show ?thesis using InfoCall by auto
next
  case (RawCall now channel d n)
  show ?thesis
  proof (cases "lr_hop r \<in> set (lr_spawned r)")
    case True
    then show ?thesis using RawCall assms by (auto simp: live_raw_packet_def intro: exI [of _ "[]"])
  next
    case False
    then show ?thesis using RawCall told_due [OF told_count [OF assms]] by (simp add: live_raw_packet_def)
  qed
next
  case (SpawnedCall now)
  have "told r0 (blocks @ [SummaryBlock now (lr_counts r)]) msgs seen (live_set_spawned now r)"
    by (rule told_same [OF told_flush [OF assms]]) (simp_all add: live_set_spawned_def Let_def)
  then show ?thesis using SpawnedCall by auto
next
  case (HopCall now hop)
  have "told r0 (blocks @ [SummaryBlock now (lr_counts r)]) msgs seen ((flush_live now r)\<lparr>lr_hop := hop\<rparr>)"
    by (rule told_same [OF told_flush [OF assms]]) simp_all
  then show ?thesis using HopCall assms by (auto simp: live_set_hop_def intro: exI [of _ "[]"])
next
  case ShutCall
  have "told r0 (blocks @ []) msgs seen (r\<lparr>lr_shutting_down := True\<rparr>)" using assms by (simp add: told_def)
  then show ?thesis unfolding ShutCall by (intro exI [of _ "[]"]) simp
next
  case (FollowCall b)
  have "told r0 (blocks @ []) msgs seen (r\<lparr>lr_follow := b\<rparr>)" using assms by (simp add: told_def)
  then show ?thesis unfolding FollowCall by (intro exI [of _ "[]"]) simp
next
  case (PacketCall now d p)
  show ?thesis
  proof (cases p)
    case None
    then show ?thesis using PacketCall assms by (auto simp: live_packet_seen_def intro: exI [of _ "[]"])
  next
    case (Some q)
    then show ?thesis using PacketCall told_packet [OF assms] by simp
  qed
next
  case (LogCall now channel level message)
  then show ?thesis using told_log [OF assms] by simp
next
  case (CloseCall now)
  have "told r0 (blocks @ [SummaryBlock now (lr_counts r)]) msgs seen (live_close now r)"
    unfolding live_close_def by (rule told_flush [OF assms])
  then show ?thesis using CloseCall by auto
qed

lemma told_run:
  assumes "told r0 blocks msgs seen r"
  shows "\<exists>more. told r0 (blocks @ more) (msgs @ run_messages (lr_follow r) (lr_shutting_down r) (hinted r) calls)
    (\<lambda>k. live_counted calls r k + seen k) (live_run calls r)"
  using assms
proof (induction calls arbitrary: blocks msgs seen r)
  case Nil
  then show ?case by (auto simp: live_run_def intro: exI [of _ "[]"])
next
  case (Cons c calls)
  let ?m = "call_messages (lr_follow r) (lr_shutting_down r) (hinted r) c"
  from told_step [OF Cons.prems, of c] obtain more1
    where t: "told r0 (blocks @ more1) (msgs @ ?m) (\<lambda>k. (if counted_key c r = Some k then 1 else 0) + seen k) (live_step c r)" by blast
  let ?r = "live_step c r"
  from Cons.IH [OF t] obtain more2 where
    "told r0 ((blocks @ more1) @ more2) ((msgs @ ?m) @ run_messages (lr_follow ?r) (lr_shutting_down ?r) (hinted ?r) calls)
       (\<lambda>k. live_counted calls ?r k + ((if counted_key c r = Some k then 1 else 0) + seen k)) (live_run calls ?r)"
    by blast
  then have "told r0 (blocks @ (more1 @ more2)) (msgs @ run_messages (lr_follow r) (lr_shutting_down r) (hinted r) (c # calls))
      (\<lambda>k. live_counted (c # calls) r k + seen k) (live_run (c # calls) r)"
    by (simp add: live_run_def step_flags add.assoc add.left_commute)
  then show ?case by blast
qed

text \<open>The advice is brought up many times and given once.\<close>

lemma library_text_not_advice: "library_text channel message \<noteq> self_signed_advice"
  by (simp add: library_text_def self_signed_advice_def)

definition is_advice :: "live_block \<Rightarrow> bool" where "is_advice b \<longleftrightarrow> (\<exists>now. b = advice now)"

lemma call_advice:
  "filter is_advice (call_messages follow closing advised c) = (if advises c \<and> \<not> advised then call_messages follow closing advised c else [])"
  "advises c \<and> \<not> advised \<Longrightarrow> length (call_messages follow closing advised c) = 1"
  using library_text_not_advice
  by (cases "(follow, closing, advised, c)" rule: call_messages.cases; auto simp: is_advice_def advice_def)+

lemma advice_once: "length (filter is_advice (run_messages follow closing advised calls)) = (if \<not> advised \<and> (\<exists>c \<in> set calls. advises c) then 1 else 0)"
  by (induction follow closing advised calls rule: run_messages.induct) (auto simp: call_advice)

lemma told_start: "told (new_live_reporter tm zone client server now) [] [] (\<lambda>_. 0) (new_live_reporter tm zone client server now)"
  by (simp add: told_def new_live_reporter_def bucket_count_def bucket_ok_def)

text \<open>A summary is due three seconds after the last one; a call that counts a packet writes it then.\<close>

lemma due_flushed:
  assumes "counted_key c r \<noteq> None" "lr_counts (live_step c r) \<noteq> []"
  shows "(\<exists>now channel d n. c = RawCall now channel d n \<and> elapsed_since (lr_last_flush (live_step c r)) now < live_summary_interval)
    \<or> (\<exists>now d name. c = PacketCall now d (Some (OrdinaryPacket name)) \<and> elapsed_since (lr_last_flush (live_step c r)) now < live_summary_interval)"
proof (cases c)
  case (RawCall now channel d n)
  then show ?thesis using assms by (auto simp: live_raw_packet_def flush_when_due_def flush_eq split: if_splits)
next
  case (PacketCall now d p)
  then obtain q where q: "p = Some q" using assms(1) by (cases p) auto
  then show ?thesis using PacketCall assms
    by (cases q) (auto simp: live_packet_seen_def flush_when_due_def flush_eq write_line_def Let_def split: if_splits)
qed (use assms(1) in simp_all)

text \<open>
  C37. The terminal shows every packet once: after any calls the output is a sequence of summaries and messages,
  and for every channel, direction and packet name the packets counted are exactly those of the summaries
  written and those still pending. A summary has one line for each group with a packet, in order, whose shown
  and hidden counts add up to its total, the hidden ones being no larger than the shown ones, and its text does
  not depend on the order in which Go iterates over the map. The messages are exactly those that the calls
  ask for, each once and in the order of the calls, the advice on self-signed logins only by the first call
  that brings it up. A counted packet stays pending only while the last summary is less than three seconds old.
\<close>

theorem live_counts_conserved:
  assumes "r0 = new_live_reporter tm zone client server start" and "r = live_run calls r0"
  shows "(\<exists>blocks. lr_output r = concat (map (block_lines r0) blocks)
      \<and> (\<forall>k. live_counted calls r0 k = bucket_count (lr_counts r) k + sum_list (map (\<lambda>b. block_count b k) blocks))
      \<and> (\<forall>now b. SummaryBlock now b \<in> set blocks \<longrightarrow> bucket_ok b \<and> summary_exact b
           \<and> (\<forall>b'. bucket_ok b' \<and> set b' = set b \<longrightarrow> block_lines r0 (SummaryBlock now b') = block_lines r0 (SummaryBlock now b)))
      \<and> filter is_message blocks = run_messages False False False calls
      \<and> length (filter is_advice blocks) = (if \<exists>c \<in> set calls. advises c then 1 else 0))
    \<and> (\<forall>c. counted_key c r \<noteq> None \<and> lr_counts (live_step c r) \<noteq> [] \<longrightarrow>
        (\<exists>now channel d n. c = RawCall now channel d n \<and> elapsed_since (lr_last_flush (live_step c r)) now < live_summary_interval)
        \<or> (\<exists>now d name. c = PacketCall now d (Some (OrdinaryPacket name))
             \<and> elapsed_since (lr_last_flush (live_step c r)) now < live_summary_interval))"
    (is "?shown \<and> ?due")
proof
  have f: "lr_follow r0 = False" "lr_shutting_down r0 = False" "hinted r0 = False"
    by (simp_all add: assms(1) new_live_reporter_def hinted_def)
  obtain blocks where t: "told r0 blocks (run_messages False False False calls) (\<lambda>k. live_counted calls r0 k + 0) r"
    using told_run [OF told_start, of tm zone client server start calls] f unfolding assms by auto
  have t1: "lr_output r = concat (map (block_lines r0) blocks)"
    and t2: "\<forall>k. live_counted calls r0 k = bucket_count (lr_counts r) k + sum_list (map (\<lambda>b. block_count b k) blocks)"
    and t3: "\<And>now b. SummaryBlock now b \<in> set blocks \<Longrightarrow> bucket_ok b"
    and t4: "filter is_message blocks = run_messages False False False calls"
    using t unfolding told_def by (simp_all only: add_0_right) blast
  have "filter is_advice blocks = filter is_advice (filter is_message blocks)"
    by (simp add: filter_filter) (rule filter_cong, auto simp: is_advice_def advice_def)
  then have t6: "length (filter is_advice blocks) = (if \<exists>c \<in> set calls. advises c then 1 else 0)"
    by (simp add: t4 advice_once)
  have t5: "\<forall>now b. SummaryBlock now b \<in> set blocks \<longrightarrow> bucket_ok b \<and> summary_exact b
      \<and> (\<forall>b'. bucket_ok b' \<and> set b' = set b \<longrightarrow> block_lines r0 (SummaryBlock now b') = block_lines r0 (SummaryBlock now b))"
    using t3 summary_exactI lines_order_free by metis
  show ?shown using t1 t2 t4 t5 t6 by blast
  show ?due using due_flushed by blast
qed

definition seen_calls :: "live_call list" where
  "seen_calls =
     [RawCall (0, 0) ''upstream'' DirectionClientToServer 9, PacketCall (5, 5) DirectionClientToServer (Some (OrdinaryPacket ''Text'')),
      PacketCall (6, 6) DirectionClientToServer (Some (LiveTransfer ''Transfer'' ''h'' 19132))]"

definition seen_reporter :: live_reporter where
  "seen_reporter = new_live_reporter \<lparr>tm_no_color = True, tm_mode = None\<rparr> 0 Map.empty Map.empty (0, 0)"

theorem live_counts_conserved_witness:
  "\<exists>blocks. lr_output (live_run seen_calls seen_reporter) = concat (map (block_lines seen_reporter) blocks)
     \<and> sum_list (map (\<lambda>b. block_count b ([], DirectionClientToServer, ''Text'')) blocks) = 1"
proof -
  have "lr_counts (live_run seen_calls seen_reporter) = []"
    by (simp add: seen_calls_def live_run_def live_packet_seen_def write_line_def flush_eq Let_def)
  moreover have "live_counted seen_calls seen_reporter ([], DirectionClientToServer, ''Text'') = 1"
    by (simp add: seen_calls_def)
  moreover obtain blocks where "lr_output (live_run seen_calls seen_reporter) = concat (map (block_lines seen_reporter) blocks)"
      "\<forall>k. live_counted seen_calls seen_reporter k
        = bucket_count (lr_counts (live_run seen_calls seen_reporter)) k + sum_list (map (\<lambda>b. block_count b k) blocks)"
    using live_counts_conserved [OF seen_reporter_def refl, of seen_calls] by blast
  ultimately show ?thesis by (intro exI [of _ blocks]) (simp add: bucket_count_def)
qed

end
