(* ===== verification/Log_Handler.thy ===== *)
theory Log_Handler
  imports Bedrock_Observer "HOL-Library.Sublist"
begin

text \<open>
  The handler that keeps the protocol library's log lines (\<^verbatim>\<open>internal/bedrock/log_handler.go\<close>). A value
  of an attribute is the resolved one; durations and floating-point numbers are their texts, an error its
  message and Go type, any other value its \<^verbatim>\<open>fmt.Sprint\<close>.
\<close>

section \<open>Attributes\<close>

datatype slog_value = SlogBool bool | SlogDuration string | SlogFloat string | SlogInt int | SlogString string | SlogTime int
  | SlogUint "64 word" | SlogError string string | SlogAny string | SlogNil | SlogGroup "(string \<times> slog_value) list"

datatype log_field = FieldBool bool | FieldFloat string | FieldText string | FieldError string string | FieldMap "(string \<times> log_field) list"

type_synonym log_fields = "(string \<times> log_field) list"

fun slog_field :: "slog_value \<Rightarrow> log_field" where
  "slog_field (SlogBool b) = FieldBool b"
| "slog_field (SlogDuration s) = FieldText s"
| "slog_field (SlogFloat s) = FieldFloat s"
| "slog_field (SlogInt n) = FieldText (itoa_int n)"
| "slog_field (SlogString s) = FieldText s"
| "slog_field (SlogTime w) = FieldText (rfc3339_nano w)"
| "slog_field (SlogUint n) = FieldText (itoa (unat n))"
| "slog_field (SlogError message type) = FieldError message type"
| "slog_field (SlogAny s) = FieldText s"
| "slog_field SlogNil = FieldText ''<nil>''"
| "slog_field (SlogGroup vs) = FieldText []"

definition put_field :: "string \<Rightarrow> log_field \<Rightarrow> log_fields \<Rightarrow> log_fields" where
  "put_field k v m = upsert k v (\<lambda>_. v) m"

definition sub_fields :: "string \<Rightarrow> log_fields \<Rightarrow> log_fields" where
  "sub_fields g m = (case map_of m g of Some (FieldMap n) \<Rightarrow> n | _ \<Rightarrow> [])"

text \<open>The map that a list of groups leads to; what is in its way and no map is replaced.\<close>

fun put_under :: "string list \<Rightarrow> (log_fields \<Rightarrow> log_fields) \<Rightarrow> log_fields \<Rightarrow> log_fields" where
  "put_under [] f m = f m"
| "put_under (g # gs) f m = put_field g (FieldMap (put_under gs f (sub_fields g m))) m"

fun put_attr :: "string list \<Rightarrow> string \<Rightarrow> slog_value \<Rightarrow> log_fields \<Rightarrow> log_fields"
  and put_attrs :: "string list \<Rightarrow> (string \<times> slog_value) list \<Rightarrow> log_fields \<Rightarrow> log_fields" where
  "put_attr gs k (SlogGroup vs) m = put_attrs (if k = [] then gs else gs @ [k]) vs (put_under gs id m)"
| "put_attr gs k v m = (if k = [] \<and> v = SlogNil then m else put_under gs (put_field k (slog_field v)) m)"
| "put_attrs gs [] m = m"
| "put_attrs gs ((k, v) # vs) m = put_attrs gs vs (put_attr gs k v m)"

section \<open>Handler\<close>

record log_handler =
  lh_session :: string
  lh_connection :: string
  lh_channel :: string
  lh_attrs :: "(string list \<times> string \<times> slog_value) list"
  lh_groups :: "string list"

definition new_log_handler :: "string \<Rightarrow> string \<Rightarrow> string \<Rightarrow> log_handler" where
  "new_log_handler session connection channel =
     \<lparr>lh_session = session, lh_connection = connection, lh_channel = channel, lh_attrs = [], lh_groups = []\<rparr>"

definition with_attrs :: "(string \<times> slog_value) list \<Rightarrow> log_handler \<Rightarrow> log_handler" where
  "with_attrs as lh = lh\<lparr>lh_attrs := lh_attrs lh @ map (\<lambda>a. (lh_groups lh, a)) as\<rparr>"

definition with_group :: "string \<Rightarrow> log_handler \<Rightarrow> log_handler" where
  "with_group name lh = (if name = [] then lh else lh\<lparr>lh_groups := lh_groups lh @ [name]\<rparr>)"

definition level_debug :: int where "level_debug = -4"

definition slog_severity :: "int \<Rightarrow> severity" where
  "slog_severity l =
     (if l \<ge> level_error then SeverityError else if l \<ge> level_warn then SeverityWarn
      else if l \<le> level_debug then SeverityDebug else SeverityInfo)"

record log_record =
  lg_level :: int
  lg_message :: string
  lg_time :: int
  lg_attrs :: "(string \<times> slog_value) list"

record log_data =
  ld_message :: string
  ld_level :: string
  ld_time :: string
  ld_attributes :: log_fields

definition log_fields_of :: "log_handler \<Rightarrow> log_record \<Rightarrow> log_fields" where
  "log_fields_of lh lr = put_attrs (lh_groups lh) (lg_attrs lr) (fold (\<lambda>(gs, k, v). put_attr gs k v) (lh_attrs lh) [])"

definition decode_messages :: "string list" where
  "decode_messages = [''decode packet'', ''read packet header'', ''decode batch'', ''decompress batch'', ''verify batch'']"

definition log_kind :: "string \<Rightarrow> string" where
  "log_kind message = (if list_ex (contains_sub (to_lower message)) decode_messages then ''packet.decode_error'' else ''library.log'')"

definition log_event :: "log_handler \<Rightarrow> log_record \<Rightarrow> string \<Rightarrow> event" where
  "log_event lh lr data =
     empty_event\<lparr>ev_session_id := lh_session lh, ev_connection_id := lh_connection lh, ev_kind := log_kind (lg_message lr),
       ev_severity := slog_severity (lg_level lr), ev_direction := DirectionUnknown, ev_channel := lh_channel lh, ev_stage := ''library'',
       ev_data := Some data\<rparr>"

text \<open>
  \<^verbatim>\<open>Handle\<close>: the terminal hears of the line before it is recorded. \<open>encode\<close> is the JSON encoder, which
  may fail on a number that is not finite.
\<close>

definition handle_log :: "'r sink \<Rightarrow> (string \<Rightarrow> int \<Rightarrow> string \<Rightarrow> live_reporter \<Rightarrow> live_reporter) option \<Rightarrow> (log_data \<Rightarrow> string + string) \<Rightarrow>
    log_handler \<Rightarrow> log_record \<Rightarrow> 'r hooks \<Rightarrow> string option \<times> 'r hooks" where
  "handle_log sk observed enc lh lr h =
     (let h = (case observed of None \<Rightarrow> h | Some f \<Rightarrow> h\<lparr>hk_live := f (lh_channel lh) (lg_level lr) (lg_message lr) (hk_live h)\<rparr>)
      in case enc \<lparr>ld_message = lg_message lr, ld_level = level_text (lg_level lr), ld_time = rfc3339_nano (lg_time lr),
                   ld_attributes = log_fields_of lh lr\<rparr> of
           Inl e \<Rightarrow> (Some e, h\<lparr>hk_failures := failure_set (hk_failures h) (Some e)\<rparr>)
         | Inr data \<Rightarrow> hook_record sk \<lparr>rc_event = log_event lh lr data, rc_raw = None, rc_media_type = [], rc_representation = []\<rparr> h)"

section \<open>Where an attribute is found\<close>

fun field_at :: "string list \<Rightarrow> log_fields \<Rightarrow> log_field option" where
  "field_at [] m = Some (FieldMap m)"
| "field_at (g # gs) m =
     (case map_of m g of
        None \<Rightarrow> None
      | Some v \<Rightarrow> if gs = [] then Some v else (case v of FieldMap n \<Rightarrow> field_at gs n | _ \<Rightarrow> None))"

lemma map_of_put_field [simp]: "map_of (put_field k v m) = (map_of m)(k \<mapsto> v)"
  by (auto simp: put_field_def map_of_upsert fun_eq_iff split: option.splits)

lemma field_at_under: "ps \<noteq> [] \<Longrightarrow> field_at (gs @ ps) (put_under gs f m) = field_at ps (f (foldl (\<lambda>m g. sub_fields g m) m gs))"
  by (induction gs arbitrary: m) auto

lemma put_leaf_found:
  assumes "\<nexists>vs. v = SlogGroup vs" "k \<noteq> [] \<or> v \<noteq> SlogNil"
  shows "field_at (gs @ [k]) (put_attr gs k v m) = Some (slog_field v)"
  using assms by (cases v) (auto simp: field_at_under)

text \<open>Two paths are apart when neither leads through the other.\<close>

lemma field_at_put_other:
  assumes "g \<noteq> p"
  shows "field_at (p # ps) (put_field g v m) = field_at (p # ps) m"
  using assms by simp

lemma field_at_sub: "ps \<noteq> [] \<Longrightarrow> field_at (g # ps) m = field_at ps (sub_fields g m)"
  by (cases ps) (auto simp: sub_fields_def split: option.splits log_field.splits)

lemma field_at_apart:
  assumes "\<not> prefix (gs @ [k]) ps" "\<not> prefix ps (gs @ [k])"
  shows "field_at ps (put_under gs (put_field k v) m) = field_at ps m"
  using assms
proof (induction gs arbitrary: ps m)
  case Nil
  then obtain p qs where ps: "ps = p # qs" by (cases ps) auto
  then have "p \<noteq> k" using Nil by auto
  then show ?case by (simp add: ps)
next
  case (Cons g gs)
  then obtain p qs where ps: "ps = p # qs" by (cases ps) auto
  show ?case
  proof (cases "p = g")
    case True
    then have q: "\<not> prefix (gs @ [k]) qs" "\<not> prefix qs (gs @ [k])" "qs \<noteq> []" using Cons.prems by (auto simp: ps)
    have "field_at ps (put_under (g # gs) (put_field k v) m) = field_at qs (put_under gs (put_field k v) (sub_fields g m))"
      using q(3) by (simp add: ps True)
    also have "\<dots> = field_at qs (sub_fields g m)" by (rule Cons.IH [OF q(1, 2)])
    also have "\<dots> = field_at ps m" using q(3) by (simp add: ps True field_at_sub del: field_at.simps)
    finally show ?thesis .
  next
    case False
    then show ?thesis by (simp add: ps)
  qed
qed

lemma put_leaf_other:
  assumes "\<nexists>vs. v = SlogGroup vs" "\<not> prefix (gs @ [k]) ps" "\<not> prefix ps (gs @ [k])"
  shows "field_at ps (put_attr gs k v m) = field_at ps m"
  using assms by (cases v) (auto simp: field_at_apart)

definition bound_attrs :: "log_handler \<Rightarrow> log_record \<Rightarrow> (string list \<times> string \<times> slog_value) list" where
  "bound_attrs lh lr = lh_attrs lh @ map (\<lambda>a. (lh_groups lh, a)) (lg_attrs lr)"

lemma put_attrs_fold: "put_attrs gs vs m = fold (\<lambda>(gs, k, v). put_attr gs k v) (map (\<lambda>a. (gs, a)) vs) m"
  by (induction vs arbitrary: m) auto

lemma log_fields_fold: "log_fields_of lh lr = fold (\<lambda>(gs, k, v). put_attr gs k v) (bound_attrs lh lr) []"
  by (simp add: log_fields_of_def bound_attrs_def put_attrs_fold)

definition apart_from :: "string list \<Rightarrow> string list \<times> string \<times> slog_value \<Rightarrow> bool" where
  "apart_from ps a = (case a of (gs, k, v) \<Rightarrow> (\<nexists>vs. v = SlogGroup vs) \<and> \<not> prefix (gs @ [k]) ps \<and> \<not> prefix ps (gs @ [k]))"

lemma fold_apart: "\<forall>a \<in> set as. apart_from ps a \<Longrightarrow> field_at ps (fold (\<lambda>(gs, k, v). put_attr gs k v) as m) = field_at ps m"
  by (induction as arbitrary: m) (auto simp: apart_from_def put_leaf_other)

text \<open>The last attribute of a path is what the line's record holds under its groups.\<close>

lemma logged_attribute:
  assumes "bound_attrs lh lr = before @ (gs, k, v) # after" "\<forall>a \<in> set after. apart_from (gs @ [k]) a"
    "\<nexists>vs. v = SlogGroup vs" "k \<noteq> [] \<or> v \<noteq> SlogNil"
  shows "field_at (gs @ [k]) (log_fields_of lh lr) = Some (slog_field v)"
  using assms by (simp add: log_fields_fold fold_apart put_leaf_found)

text \<open>A line is recorded once if it can be encoded, after the terminal heard of it, and its failure is the run's.\<close>

lemma handled_once:
  assumes "handle_log sk observed enc lh lr h = (res, h')"
  shows "case enc \<lparr>ld_message = lg_message lr, ld_level = level_text (lg_level lr), ld_time = rfc3339_nano (lg_time lr), ld_attributes = log_fields_of lh lr\<rparr> of
      Inl e \<Rightarrow> res = Some e \<and> hk_recorder h' = hk_recorder h \<and> fs_err (hk_failures h') \<noteq> None
    | Inr data \<Rightarrow> hk_recorder h' = snd (sk_record sk \<lparr>rc_event = log_event lh lr data, rc_raw = None, rc_media_type = [], rc_representation = []\<rparr> (hk_recorder h))
        \<and> (res \<noteq> None \<longrightarrow> fs_err (hk_failures h') \<noteq> None)"
  using assms
  by (auto simp: handle_log_def hook_record_def failure_set_def Let_def split: option.splits sum.splits prod.splits if_splits)

end
