(* ===== verification/Bedrock_Observer_Theorems.thy ===== *)
theory Bedrock_Observer_Theorems
  imports Bedrock_Observer Pack_Record_Theorems
begin

text \<open>
  Which flow a packet is attributed to, and what the observed connections of a run hand to the recorder, for
  any behaviour of the transports and of the recorder.
\<close>

section \<open>Attribution\<close>

datatype flow_call = OpenFlow string "endpoint option" "endpoint option" string int | NowHop int

fun flow_step :: "flow_call \<Rightarrow> observer \<Rightarrow> observer" where
  "flow_step (OpenFlow channel l r connection hop) ob = set_flow channel l r connection hop ob"
| "flow_step (NowHop hop) ob = set_observer_hop hop ob"

definition flow_run :: "flow_call list \<Rightarrow> observer \<Rightarrow> observer" where
  "flow_run calls ob = fold flow_step calls ob"

text \<open>With which identity a flow was opened last.\<close>

fun opens_flow :: "string \<Rightarrow> string \<Rightarrow> string \<Rightarrow> flow_call \<Rightarrow> (string \<times> int) option" where
  "opens_flow channel l r (OpenFlow ch (Some a) (Some b) connection hop) =
     (if ch = channel \<and> ep_address a = l \<and> ep_address b = r then Some (connection, hop) else None)"
| "opens_flow channel l r _ = None"

definition last_open :: "string \<Rightarrow> string \<Rightarrow> string \<Rightarrow> flow_call list \<Rightarrow> (string \<times> int) option" where
  "last_open channel l r calls =
     fold (\<lambda>c known. case opens_flow channel l r c of Some i \<Rightarrow> Some i | None \<Rightarrow> known) calls None"

definition flow_ends :: "flow \<Rightarrow> string \<times> string" where "flow_ends f = (fl_local f, fl_remote f)"

definition flow_owner :: "flow \<Rightarrow> string \<times> int" where "flow_owner f = (fl_connection f, fl_hop f)"

lemma map_of_put_flow:
  "map_of (map (\<lambda>f. (flow_ends f, flow_owner f)) (put_flow f fs)) = (map_of (map (\<lambda>f. (flow_ends f, flow_owner f)) fs))(flow_ends f \<mapsto> flow_owner f)"
  by (induction fs) (auto simp: flow_ends_def fun_eq_iff)

lemma put_flow_ends: "set (map flow_ends (put_flow f fs)) = insert (flow_ends f) (set (map flow_ends fs))"
  by (induction fs) (auto simp: flow_ends_def)

lemma put_flow_distinct: "distinct (map flow_ends fs) \<Longrightarrow> distinct (map flow_ends (put_flow f fs))"
proof (induction fs)
  case (Cons g fs)
  then show ?case using put_flow_ends [of f fs] by (auto simp: flow_ends_def)
qed simp

text \<open>The flows of a channel are those that were opened on it, each once with its last identity.\<close>

definition flows_are :: "observer \<Rightarrow> flow_call list \<Rightarrow> bool" where
  "flows_are ob calls =
     (\<forall>ch. distinct (map flow_ends (ob_flows ob ch))
        \<and> map_of (map (\<lambda>f. (flow_ends f, flow_owner f)) (ob_flows ob ch)) = (\<lambda>(l, r). last_open ch l r calls))"

lemma last_open_snoc:
  "last_open ch l r (calls @ [c]) = (case opens_flow ch l r c of Some i \<Rightarrow> Some i | None \<Rightarrow> last_open ch l r calls)"
  by (cases "opens_flow ch l r c") (simp_all add: last_open_def)

lemma flows_are_step:
  assumes "flows_are ob calls"
  shows "flows_are (flow_step c ob) (calls @ [c])"
proof (cases c)
  case (OpenFlow ch l r connection hop)
  show ?thesis
  proof (cases "l = None \<or> r = None")
    case True
    then have "flow_step c ob = ob" by (auto simp: OpenFlow set_flow_def split: option.splits)
    moreover have "opens_flow ch' a b c = None" for ch' a b using True by (cases l; cases r) (auto simp: OpenFlow)
    ultimately show ?thesis using assms by (simp add: flows_are_def last_open_snoc)
  next
    case False
    then obtain a b where ends: "l = Some a" "r = Some b" by auto
    let ?f = "\<lparr>fl_local = ep_address a, fl_remote = ep_address b, fl_connection = connection, fl_hop = hop\<rparr>"
    have ob: "ob_flows (flow_step c ob) = (ob_flows ob)(ch := put_flow ?f (ob_flows ob ch))"
      by (simp add: OpenFlow ends set_flow_def)
    show ?thesis unfolding flows_are_def
    proof (intro allI conjI)
      fix ch'
      have old: "distinct (map flow_ends (ob_flows ob ch'))"
        "map_of (map (\<lambda>f. (flow_ends f, flow_owner f)) (ob_flows ob ch')) = (\<lambda>(l, r). last_open ch' l r calls)"
        using assms unfolding flows_are_def by auto
      show "distinct (map flow_ends (ob_flows (flow_step c ob) ch'))"
        unfolding ob using old(1) put_flow_distinct by (cases "ch' = ch") auto
      show "map_of (map (\<lambda>f. (flow_ends f, flow_owner f)) (ob_flows (flow_step c ob) ch')) = (\<lambda>(l, r). last_open ch' l r (calls @ [c]))"
      proof (cases "ch' = ch")
        case True
        have "map_of (map (\<lambda>f. (flow_ends f, flow_owner f)) (ob_flows (flow_step c ob) ch')) = (\<lambda>(l, r). last_open ch' l r calls)(flow_ends ?f \<mapsto> flow_owner ?f)"
          unfolding ob using True old(2) by (simp add: map_of_put_flow)
        then show ?thesis by (auto simp: fun_eq_iff last_open_snoc OpenFlow ends True flow_ends_def flow_owner_def)
      next
        case False
        then show ?thesis unfolding ob using old(2) by (auto simp: fun_eq_iff last_open_snoc OpenFlow ends)
      qed
    qed
  qed
next
  case (NowHop hop)
  then show ?thesis using assms by (simp add: flows_are_def last_open_snoc set_observer_hop_def)
qed

lemma flow_run_snoc: "flow_run (calls @ [c]) ob = flow_step c (flow_run calls ob)"
  by (simp add: flow_run_def)

lemma flows_are_run: "flows_are (flow_run calls (new_observer session hop)) calls"
proof (induction calls rule: rev_induct)
  case Nil
  show ?case by (auto simp: flows_are_def flow_run_def new_observer_def last_open_def fun_eq_iff)
next
  case (snoc c calls)
  then show ?case by (simp add: flow_run_snoc flows_are_step)
qed

lemma search_flow_skip:
  "\<forall>g \<in> set xs. flow_direction ch s d g = None \<Longrightarrow> search_flow ch s d (xs @ ys) = search_flow ch s d ys"
  by (induction xs) auto

lemma other_flow_silent:
  assumes "flow_ends g \<noteq> (l, r)" "flow_ends g \<noteq> (r, l)"
  shows "flow_direction ch l r g = None" "flow_direction ch r l g = None"
proof -
  have no: "(l = fl_remote g \<and> r = fl_local g) = False" "(l = fl_local g \<and> r = fl_remote g) = False"
    "(r = fl_remote g \<and> l = fl_local g) = False" "(r = fl_local g \<and> l = fl_remote g) = False"
    using assms by (auto simp: flow_ends_def)
  show "flow_direction ch l r g = None" "flow_direction ch r l g = None" unfolding flow_direction_def Let_def no by simp_all
qed

lemma search_flow_none:
  assumes "(l, r) \<notin> set (map flow_ends fs)" "(r, l) \<notin> set (map flow_ends fs)"
  shows "search_flow ch l r fs = (DirectionUnknown, None)"
proof -
  have "flow_direction ch l r g = None" if "g \<in> set fs" for g
    using that assms by (intro other_flow_silent(1)) (metis image_eqI list.set_map)+
  then show ?thesis using search_flow_skip [of fs ch l r "[]"] by simp
qed

lemma own_flow_speaks:
  assumes "fl_local f \<noteq> fl_remote f" "ch \<in> {''downstream'', ''upstream''}"
  shows "flow_direction ch (fl_remote f) (fl_local f) f = Some (if ch = ''downstream'' then DirectionClientToServer else DirectionServerToClient)"
    and "flow_direction ch (fl_local f) (fl_remote f) f = Some (if ch = ''downstream'' then DirectionServerToClient else DirectionClientToServer)"
proof -
  have "ch = ''downstream'' \<or> ch = ''upstream'' \<and> ch \<noteq> ''downstream''" using assms(2) by auto
  then show "flow_direction ch (fl_remote f) (fl_local f) f = Some (if ch = ''downstream'' then DirectionClientToServer else DirectionServerToClient)"
    "flow_direction ch (fl_local f) (fl_remote f) f = Some (if ch = ''downstream'' then DirectionServerToClient else DirectionClientToServer)"
    using assms(1) unfolding flow_direction_def Let_def by (simp_all only: if_True if_False simp_thms, presburger+)
qed

lemma search_flow_found:
  assumes "f \<in> set fs" "distinct (map flow_ends fs)" "(fl_remote f, fl_local f) \<notin> set (map flow_ends fs)" "ch \<in> {''downstream'', ''upstream''}"
  shows "search_flow ch (fl_remote f) (fl_local f) fs = (if ch = ''downstream'' then DirectionClientToServer else DirectionServerToClient, Some f)"
    and "search_flow ch (fl_local f) (fl_remote f) fs = (if ch = ''downstream'' then DirectionServerToClient else DirectionClientToServer, Some f)"
proof -
  obtain xs ys where fs: "fs = xs @ f # ys" using split_list [OF assms(1)] by blast
  have ne: "fl_local f \<noteq> fl_remote f"
  proof
    assume "fl_local f = fl_remote f"
    then have "flow_ends f = (fl_remote f, fl_local f)" by (simp add: flow_ends_def)
    then show False using assms(1, 3) by (metis image_eqI list.set_map)
  qed
  have silent: "flow_direction ch (fl_local f) (fl_remote f) g = None" "flow_direction ch (fl_remote f) (fl_local f) g = None" if "g \<in> set xs" for g
  proof -
    have g: "flow_ends g \<in> set (map flow_ends xs)" using that by simp
    then have "flow_ends g \<noteq> flow_ends f" using assms(2) unfolding fs by auto
    moreover have "flow_ends g \<noteq> (fl_remote f, fl_local f)" using g assms(3) unfolding fs by (metis UnI1 map_append set_append)
    ultimately show "flow_direction ch (fl_local f) (fl_remote f) g = None" "flow_direction ch (fl_remote f) (fl_local f) g = None"
      using other_flow_silent [of g "fl_local f" "fl_remote f"] by (simp_all add: flow_ends_def)
  qed
  show "search_flow ch (fl_remote f) (fl_local f) fs = (if ch = ''downstream'' then DirectionClientToServer else DirectionServerToClient, Some f)"
    unfolding fs using silent(2) own_flow_speaks(1) [OF ne assms(4)] by (simp add: search_flow_skip)
  show "search_flow ch (fl_local f) (fl_remote f) fs = (if ch = ''downstream'' then DirectionServerToClient else DirectionClientToServer, Some f)"
    unfolding fs using silent(1) own_flow_speaks(2) [OF ne assms(4)] by (simp add: search_flow_skip)
qed

text \<open>A flow that was opened, and not the other way round, is found with its last identity.\<close>

lemma opened_flow_found:
  assumes "flows_are ob calls" "last_open ch l r calls = Some (connection, hop)" "last_open ch r l calls = None"
    "ch \<in> {''downstream'', ''upstream''}"
  shows "\<exists>f. flow_owner f = (connection, hop)
    \<and> search_flow ch r l (rev (ob_flows ob ch)) = (if ch = ''downstream'' then DirectionClientToServer else DirectionServerToClient, Some f)
    \<and> search_flow ch l r (rev (ob_flows ob ch)) = (if ch = ''downstream'' then DirectionServerToClient else DirectionClientToServer, Some f)"
proof -
  have d: "distinct (map flow_ends (rev (ob_flows ob ch)))"
    and m: "map_of (map (\<lambda>f. (flow_ends f, flow_owner f)) (ob_flows ob ch)) = (\<lambda>(l, r). last_open ch l r calls)"
    using assms(1) unfolding flows_are_def by (auto simp: distinct_map)
  have "map_of (map (\<lambda>f. (flow_ends f, flow_owner f)) (ob_flows ob ch)) (l, r) = Some (connection, hop)" using m assms(2) by simp
  then obtain f where f: "f \<in> set (ob_flows ob ch)" "flow_ends f = (l, r)" "flow_owner f = (connection, hop)"
    by (auto dest!: map_of_SomeD)
  have "map_of (map (\<lambda>f. (flow_ends f, flow_owner f)) (ob_flows ob ch)) (r, l) = None" using m assms(3) by simp
  then have "(r, l) \<notin> set (map flow_ends (ob_flows ob ch))" by (auto simp: map_of_eq_None_iff image_image)
  moreover have "fl_local f = l" "fl_remote f = r" using f(2) by (simp_all add: flow_ends_def)
  ultimately show ?thesis using search_flow_found [of f "rev (ob_flows ob ch)" ch] f d assms(4) by auto
qed

lemma known_flow_attributed:
  assumes "ch \<in> {''downstream'', ''upstream''}" "last_open ch (ep_address l) (ep_address r) calls = Some (connection, hop)"
    "last_open ch (ep_address r) (ep_address l) calls = None" "connection \<noteq> []"
    and ob_def: "ob = flow_run calls (new_observer session hop0)"
  shows "ev_connection_id (raw_packet_event ob ch now ph (Some r) (Some l)) = connection \<and> ev_hop (raw_packet_event ob ch now ph (Some r) (Some l)) = hop
    \<and> ev_direction (raw_packet_event ob ch now ph (Some r) (Some l)) = (if ch = ''downstream'' then DirectionClientToServer else DirectionServerToClient)"
    and "ev_connection_id (raw_packet_event ob ch now ph (Some l) (Some r)) = connection \<and> ev_hop (raw_packet_event ob ch now ph (Some l) (Some r)) = hop
    \<and> ev_direction (raw_packet_event ob ch now ph (Some l) (Some r)) = (if ch = ''downstream'' then DirectionServerToClient else DirectionClientToServer)"
proof -
  obtain f where f: "fl_connection f = connection" "fl_hop f = hop"
    "search_flow ch (ep_address r) (ep_address l) (rev (ob_flows ob ch)) = (if ch = ''downstream'' then DirectionClientToServer else DirectionServerToClient, Some f)"
    "search_flow ch (ep_address l) (ep_address r) (rev (ob_flows ob ch)) = (if ch = ''downstream'' then DirectionServerToClient else DirectionClientToServer, Some f)"
    using opened_flow_found [OF flows_are_run assms(2,3,1)] unfolding ob_def by (auto simp: flow_owner_def)
  show "ev_connection_id (raw_packet_event ob ch now ph (Some r) (Some l)) = connection \<and> ev_hop (raw_packet_event ob ch now ph (Some r) (Some l)) = hop
    \<and> ev_direction (raw_packet_event ob ch now ph (Some r) (Some l)) = (if ch = ''downstream'' then DirectionClientToServer else DirectionServerToClient)"
    "ev_connection_id (raw_packet_event ob ch now ph (Some l) (Some r)) = connection \<and> ev_hop (raw_packet_event ob ch now ph (Some l) (Some r)) = hop
    \<and> ev_direction (raw_packet_event ob ch now ph (Some l) (Some r)) = (if ch = ''downstream'' then DirectionServerToClient else DirectionClientToServer)"
    using f assms(4) by (simp_all add: raw_packet_event_def classify_def packet_owner_def)
qed

lemma unknown_flow_attributed:
  assumes "last_open ch (ep_address l) (ep_address r) calls = None" "last_open ch (ep_address r) (ep_address l) calls = None"
    and ob_def: "ob = flow_run calls (new_observer session hop0)"
  shows "ev_direction (raw_packet_event ob ch now ph (Some l) (Some r)) = DirectionUnknown
    \<and> ev_connection_id (raw_packet_event ob ch now ph (Some l) (Some r)) = now \<and> ev_hop (raw_packet_event ob ch now ph (Some l) (Some r)) = ob_hop ob"
proof -
  have m: "map_of (map (\<lambda>f. (flow_ends f, flow_owner f)) (ob_flows ob ch)) = (\<lambda>(l, r). last_open ch l r calls)"
    using flows_are_run [of calls session hop0] unfolding flows_are_def ob_def by blast
  have "p \<notin> set (map flow_ends (ob_flows ob ch))" if "(case p of (l, r) \<Rightarrow> last_open ch l r calls) = None" for p
  proof -
    have "map_of (map (\<lambda>f. (flow_ends f, flow_owner f)) (ob_flows ob ch)) p = None" using m that by simp
    then show ?thesis by (auto simp: map_of_eq_None_iff image_image)
  qed
  from this [of "(ep_address l, ep_address r)"] this [of "(ep_address r, ep_address l)"]
  have "search_flow ch (ep_address l) (ep_address r) (rev (ob_flows ob ch)) = (DirectionUnknown, None)"
    using assms by (intro search_flow_none) auto
  then show ?thesis by (simp add: raw_packet_event_def classify_def packet_owner_def)
qed

text \<open>
  C39. Whatever flows were opened and whichever hop is current, a packet between the addresses of a flow is
  attributed to the connection and the hop with which the flow was opened last, with the direction of its
  sender, if that opening names a connection and no flow the other way round is known; a packet between
  addresses of which no flow is known has no direction, the connection that the callback answers now and the
  current hop.
\<close>

theorem packets_attributed:
  assumes "ch \<in> {''downstream'', ''upstream''}" "ob = flow_run calls (new_observer session hop0)"
  shows "(last_open ch (ep_address l) (ep_address r) calls = Some (connection, hop) \<and> last_open ch (ep_address r) (ep_address l) calls = None \<and> connection \<noteq> []
     \<longrightarrow> (\<forall>(source, destination) \<in> {(l, r), (r, l)}.
           let e = raw_packet_event ob ch now ph (Some source) (Some destination)
           in ev_connection_id e = connection \<and> ev_hop e = hop
             \<and> ev_direction e = (if (ch = ''downstream'') = ((source, destination) = (r, l)) then DirectionClientToServer else DirectionServerToClient)))
   \<and> (last_open ch (ep_address l) (ep_address r) calls = None \<and> last_open ch (ep_address r) (ep_address l) calls = None
     \<longrightarrow> (let e = raw_packet_event ob ch now ph (Some l) (Some r)
          in ev_direction e = DirectionUnknown \<and> ev_connection_id e = now \<and> ev_hop e = ob_hop ob))"
proof (intro conjI impI)
  assume k: "last_open ch (ep_address l) (ep_address r) calls = Some (connection, hop) \<and> last_open ch (ep_address r) (ep_address l) calls = None \<and> connection \<noteq> []"
  then have "l \<noteq> r" by auto
  then show "\<forall>(source, destination) \<in> {(l, r), (r, l)}.
      let e = raw_packet_event ob ch now ph (Some source) (Some destination)
      in ev_connection_id e = connection \<and> ev_hop e = hop
        \<and> ev_direction e = (if (ch = ''downstream'') = ((source, destination) = (r, l)) then DirectionClientToServer else DirectionServerToClient)"
    using known_flow_attributed [OF assms(1) _ _ _ assms(2), of l r connection hop now ph] k unfolding Let_def by auto
next
  assume "last_open ch (ep_address l) (ep_address r) calls = None \<and> last_open ch (ep_address r) (ep_address l) calls = None"
  then show "let e = raw_packet_event ob ch now ph (Some l) (Some r) in ev_direction e = DirectionUnknown \<and> ev_connection_id e = now \<and> ev_hop e = ob_hop ob"
    using unknown_flow_attributed [OF _ _ assms(2), of ch l r now ph] unfolding Let_def by auto
qed

text \<open>The second client of a run, whose flow was opened before the hop became current.\<close>

definition demo_flows :: "flow_call list" where
  "demo_flows =
     [OpenFlow ''downstream'' (Some \<lparr>ep_network = ''udp'', ep_address = ''p''\<rparr>) (Some \<lparr>ep_network = ''udp'', ep_address = ''a''\<rparr>) ''downstream-1'' 1,
      OpenFlow ''downstream'' (Some \<lparr>ep_network = ''udp'', ep_address = ''p''\<rparr>) (Some \<lparr>ep_network = ''udp'', ep_address = ''b''\<rparr>) ''downstream-2'' 2,
      NowHop 7]"

theorem packets_attributed_witness:
  "let e = raw_packet_event (flow_run demo_flows (new_observer ''session-1'' 1)) ''downstream'' ''downstream-9'' \<lparr>ph_id = 5, ph_sender = 0, ph_target = 0\<rparr>
       (Some \<lparr>ep_network = ''udp'', ep_address = ''b''\<rparr>) (Some \<lparr>ep_network = ''udp'', ep_address = ''p''\<rparr>)
   in ev_connection_id e = ''downstream-2'' \<and> ev_hop e = 2 \<and> ev_direction e = DirectionClientToServer"
proof -
  have "last_open ''downstream'' ''p'' ''b'' demo_flows = Some (''downstream-2'', 2)" "last_open ''downstream'' ''b'' ''p'' demo_flows = None"
    by (simp_all add: last_open_def demo_flows_def)
  then show ?thesis
    using packets_attributed [of "''downstream''" "flow_run demo_flows (new_observer ''session-1'' 1)" demo_flows "''session-1''" 1
        "\<lparr>ep_network = ''udp'', ep_address = ''p''\<rparr>" "\<lparr>ep_network = ''udp'', ep_address = ''b''\<rparr>" "''downstream-2''" 2 "''downstream-9''"
        "\<lparr>ph_id = 5, ph_sender = 0, ph_target = 0\<rparr>"]
    by (simp add: Let_def)
qed

section \<open>Payloads\<close>

text \<open>
  The connections of a run, each of one of the networks, and the callbacks for packets share one recorder.
\<close>

datatype 'k hook_call = OnLink 'k link_call
  | OnPacket string string packet_header "bytes option" "endpoint option" "endpoint option"

fun hook_step :: "'r sink \<Rightarrow> ('k \<Rightarrow> 'r network) \<Rightarrow> (string \<Rightarrow> direction \<Rightarrow> u32 \<Rightarrow> live_reporter \<Rightarrow> live_reporter) \<Rightarrow> 'k hook_call \<Rightarrow>
    ('k \<Rightarrow> observed_link) \<times> 'r hooks \<Rightarrow> ('k \<times> link_result) list \<times> ('k \<Rightarrow> observed_link) \<times> 'r hooks" where
  "hook_step sk nets seen (OnLink k c) (links, h) =
     (case link_step (nets k) c (links k, h) of (res, ol, h1) \<Rightarrow> ([(k, res)], links(k := ol), h1))"
| "hook_step sk nets seen (OnPacket ch connection ph p s d) (links, h) =
     ([], links, observe_packet sk (Some (seen ch)) ch connection ph p s d h)"

fun hook_run :: "'r sink \<Rightarrow> ('k \<Rightarrow> 'r network) \<Rightarrow> (string \<Rightarrow> direction \<Rightarrow> u32 \<Rightarrow> live_reporter \<Rightarrow> live_reporter) \<Rightarrow> 'k hook_call list \<Rightarrow>
    ('k \<Rightarrow> observed_link) \<times> 'r hooks \<Rightarrow> ('k \<times> link_result) list \<times> ('k \<Rightarrow> observed_link) \<times> 'r hooks" where
  "hook_run sk nets seen [] st = ([], st)"
| "hook_run sk nets seen (c # cs) st =
     (case hook_step sk nets seen c st of (res, st1) \<Rightarrow> (case hook_run sk nets seen cs st1 of (rest, st2) \<Rightarrow> (res @ rest, st2)))"

text \<open>The bytes that a call moves over its transport.\<close>

fun moved :: "bool \<Rightarrow> link \<Rightarrow> link_call \<Rightarrow> bytes" where
  "moved writing lk (ReadCall p err) = (if writing then [] else p)"
| "moved writing lk (ReadPacketCall p err) = (if writing \<or> \<not> lk_packets lk then [] else case p of None \<Rightarrow> [] | Some b \<Rightarrow> b)"
| "moved writing lk (WriteCall p n err) = (if writing then case p of None \<Rightarrow> [] | Some b \<Rightarrow> take (nat n) b else [])"
| "moved writing lk (LinkCloseCall err) = []"

definition calls_of :: "'k \<Rightarrow> 'k hook_call list \<Rightarrow> link_call list" where
  "calls_of k cs = List.map_filter (\<lambda>c. case c of OnLink j x \<Rightarrow> if j = k then Some x else None | _ \<Rightarrow> None) cs"

definition results_of :: "'k \<Rightarrow> ('k \<times> link_result) list \<Rightarrow> link_result list" where
  "results_of k rs = map snd (filter (\<lambda>r. fst r = k) rs)"

definition link_calls :: "'k hook_call list \<Rightarrow> ('k \<times> link_call) list" where
  "link_calls cs = List.map_filter (\<lambda>c. case c of OnLink k x \<Rightarrow> Some (k, x) | _ \<Rightarrow> None) cs"

text \<open>
  What the recorder keeps of the calls it was given: those that it did not refuse. A flow is a channel and
  direction with the endpoints that the payload came from and went to, as the event gives them.
\<close>

definition accepted :: "sink_answers \<Rightarrow> sink_call list \<Rightarrow> sink_call list" where
  "accepted an log = List.map_filter (\<lambda>(i, c). case an_event an i of Inl _ \<Rightarrow> None | Inr _ \<Rightarrow> Some c) (enumerate 0 log)"

fun payload_in :: "string \<Rightarrow> direction \<Rightarrow> endpoint option \<Rightarrow> endpoint option \<Rightarrow> sink_call \<Rightarrow> bytes" where
  "payload_in ch d s t (RecordCall rc) =
     (if ev_kind (rc_event rc) = ''transport.payload'' \<and> ev_channel (rc_event rc) = ch \<and> ev_direction (rc_event rc) = d
         \<and> ev_source (rc_event rc) = s \<and> ev_destination (rc_event rc) = t
      then case rc_raw rc of None \<Rightarrow> [] | Some b \<Rightarrow> b else [])"
| "payload_in ch d s t _ = []"

definition recorded_stream :: "sink_answers \<Rightarrow> string \<Rightarrow> direction \<Rightarrow> endpoint option \<Rightarrow> endpoint option \<Rightarrow> sink_call list \<Rightarrow> bytes" where
  "recorded_stream an ch d s t log = concat (map (payload_in ch d s t) (accepted an log))"

fun close_in :: "string \<Rightarrow> sink_call \<Rightarrow> bool" where
  "close_in ch (RecordCall rc) = (ev_kind (rc_event rc) = ''transport.connection_close'' \<and> ev_channel (rc_event rc) = ch)"
| "close_in ch _ = False"

definition recorded_closes :: "sink_answers \<Rightarrow> string \<Rightarrow> sink_call list \<Rightarrow> nat" where
  "recorded_closes an ch log = length (filter (close_in ch) (accepted an log))"

fun is_close :: "link_call \<Rightarrow> bool" where
  "is_close (LinkCloseCall err) = True"
| "is_close _ = False"

text \<open>A caller sees what the transport answered; the error of recording is beside that of the operation.\<close>

fun transparent :: "link \<Rightarrow> link_call \<Rightarrow> link_result \<Rightarrow> bool" where
  "transparent lk (ReadCall p err) res = (\<exists>cap. res = LinkRead p (err, cap))"
| "transparent lk (ReadPacketCall p err) res = (if lk_packets lk then \<exists>cap. res = LinkPacket p (err, cap) else res = NoPacketReads)"
| "transparent lk (WriteCall p n err) res = (\<exists>cap. res = LinkWritten n (err, cap))"
| "transparent lk (LinkCloseCall err) res = (\<exists>j. res = LinkClosed j)"

text \<open>Whether the result of a call reports no error of recording.\<close>

fun link_recorded :: "link_result \<Rightarrow> bool" where
  "link_recorded (LinkRead p (err, cap)) = (cap = None)"
| "link_recorded (LinkPacket p (err, cap)) = (cap = None)"
| "link_recorded (LinkWritten n (err, cap)) = (cap = None)"
| "link_recorded (LinkClosed (err, cap)) = (cap = None)"
| "link_recorded NoPacketReads = True"

definition refusals :: "sink_answers \<Rightarrow> nat \<Rightarrow> nat \<Rightarrow> string list" where
  "refusals an m n = List.map_filter (\<lambda>i. case an_event an i of Inl e \<Rightarrow> Some e | Inr _ \<Rightarrow> None) [m..<n]"

definition first_failure :: "string option \<Rightarrow> string list \<Rightarrow> string option" where
  "first_failure old es = (case old of Some e \<Rightarrow> Some e | None \<Rightarrow> (case es of [] \<Rightarrow> None | e # _ \<Rightarrow> Some e))"

lemma accepted_snoc [simp]: "accepted an (log @ [c]) = accepted an log @ (case an_event an (length log) of Inl _ \<Rightarrow> [] | Inr _ \<Rightarrow> [c])"
  by (simp add: accepted_def List.map_filter_def enumerate_append_eq split: sum.splits)

lemma recorded_stream_snoc [simp]:
  "recorded_stream an ch d s t (log @ [c]) =
     recorded_stream an ch d s t log @ (case an_event an (length log) of Inl _ \<Rightarrow> [] | Inr _ \<Rightarrow> payload_in ch d s t c)"
  by (simp add: recorded_stream_def split: sum.splits)

lemma recorded_closes_snoc [simp]:
  "recorded_closes an ch (log @ [c]) =
     recorded_closes an ch log + (case an_event an (length log) of Inl _ \<Rightarrow> 0 | Inr _ \<Rightarrow> if close_in ch c then 1 else 0)"
  by (simp add: recorded_closes_def split: sum.splits)

lemma refusals_snoc: "m \<le> n \<Longrightarrow> refusals an m (Suc n) = refusals an m n @ (case an_event an n of Inl e \<Rightarrow> [e] | Inr _ \<Rightarrow> [])"
  by (simp add: refusals_def List.map_filter_def split: sum.splits)

lemma refusals_split: "m \<le> n \<Longrightarrow> n \<le> k \<Longrightarrow> refusals an m k = refusals an m n @ refusals an n k"
  unfolding refusals_def List.map_filter_def using upt_add_eq_append [of m n "k - n"] by simp

lemma first_failure_append: "first_failure (first_failure old es) fs = first_failure old (es @ fs)"
  by (cases old; cases es) (simp_all add: first_failure_def)

lemma hook_record_logging:
  assumes "hook_record (logging an) rc h = (cap, h')"
  shows "hk_recorder h' = hk_recorder h @ [RecordCall rc]"
    and "cap = (case an_event an (length (hk_recorder h)) of Inl e \<Rightarrow> Some e | Inr _ \<Rightarrow> None)"
    and "fs_err (hk_failures h') = first_failure (fs_err (hk_failures h)) (refusals an (length (hk_recorder h)) (length (hk_recorder h')))"
    and "hk_observer h' = hk_observer h"
  using assms
  by (auto simp: hook_record_def logging_def refusals_snoc refusals_def List.map_filter_def failure_set_def first_failure_def Let_def
      split: sum.splits option.splits if_splits)

text \<open>The record that a call asks for, if it asks for one.\<close>

definition payload_record :: "'r network \<Rightarrow> link \<Rightarrow> bool \<Rightarrow> bytes option \<Rightarrow> int \<Rightarrow> int \<Rightarrow> net_error option \<Rightarrow> capture_record" where
  "payload_record nw lk writing payload attempted transferred err =
     \<lparr>rc_event = payload_event nw lk writing attempted transferred err, rc_raw = payload,
      rc_media_type = ''application/octet-stream'', rc_representation = ''bedrock_transport_payload''\<rparr>"

fun asked :: "'r network \<Rightarrow> observed_link \<Rightarrow> link_call \<Rightarrow> capture_record option" where
  "asked nw ol (ReadCall p err) = Some (payload_record nw (ol_link ol) False (Some p) (int (length p)) (int (length p)) err)"
| "asked nw ol (ReadPacketCall p err) =
     (if lk_packets (ol_link ol) then Some (payload_record nw (ol_link ol) False p (raw_length p) (raw_length p) err) else None)"
| "asked nw ol (WriteCall p n err) = Some (payload_record nw (ol_link ol) True (transferred_payload p n) (raw_length p) n err)"
| "asked nw ol (LinkCloseCall err) =
     (if ol_closed ol = None
      then Some \<lparr>rc_event = connection_event nw ''transport.connection_close'' (Some (ol_link ol)) err, rc_raw = None, rc_media_type = [], rc_representation = []\<rparr>
      else None)"

lemma link_step_effect:
  assumes "nw_sink nw = logging an" "link_step nw c (ol, h) = (res, ol', h')"
  shows "hk_recorder h' = hk_recorder h @ map RecordCall (case asked nw ol c of None \<Rightarrow> [] | Some rc \<Rightarrow> [rc])"
    and "fs_err (hk_failures h') = first_failure (fs_err (hk_failures h)) (refusals an (length (hk_recorder h)) (length (hk_recorder h')))"
    and "ol_link ol' = ol_link ol" "transparent (ol_link ol) c res"
    and "ol_closed ol' = (if is_close c \<and> ol_closed ol = None then case res of LinkClosed j \<Rightarrow> Some j else ol_closed ol)"
    and "res = LinkClosed j \<Longrightarrow> ol_closed ol' = Some j"
    and "asked nw ol c = Some rc \<Longrightarrow> link_recorded res \<longleftrightarrow> (\<exists>e. an_event an (length (hk_recorder h)) = Inr e)"
  using assms
  by (cases c; auto simp: record_payload_def payload_record_def close_link_def record_connection_def refusals_def List.map_filter_def first_failure_def
      split: prod.splits if_splits option.splits sum.splits dest: hook_record_logging)+

lemma payload_kinds:
  "ev_kind (payload_event nw lk w a t err) = ''transport.payload''" "ev_channel (payload_event nw lk w a t err) = nw_channel nw"
  "ev_direction (payload_event nw lk w a t err) = payload_direction nw w"
  "ev_source (payload_event nw lk w a t err) = (if w then lk_local lk else lk_remote lk)"
  "ev_destination (payload_event nw lk w a t err) = (if w then lk_remote lk else lk_local lk)"
  "ev_kind (connection_event nw kind conn err) = kind" "ev_channel (connection_event nw kind conn err) = nw_channel nw"
  by (simp_all add: payload_event_def network_event_def connection_event_def Let_def)

lemma transferred_bytes: "(case transferred_payload p n of None \<Rightarrow> [] | Some b \<Rightarrow> b) = (case p of None \<Rightarrow> [] | Some b \<Rightarrow> take (nat n) b)"
  by (auto simp: transferred_payload_def split: option.splits)

lemma payload_in_record:
  "payload_in ch d s t (RecordCall (payload_record nw lk w p a n err)) =
     (if ch = nw_channel nw \<and> d = payload_direction nw w \<and> s = (if w then lk_local lk else lk_remote lk)
         \<and> t = (if w then lk_remote lk else lk_local lk)
      then case p of None \<Rightarrow> [] | Some b \<Rightarrow> b else [])"
  by (simp add: payload_record_def payload_kinds eq_commute)

lemma payload_in_close:
  "payload_in ch d s t (RecordCall \<lparr>rc_event = connection_event nw ''transport.connection_close'' conn err, rc_raw = raw, rc_media_type = m, rc_representation = r\<rparr>) = []"
  by (simp add: payload_kinds)

declare payload_in.simps(1) [simp del]

text \<open>The bytes that a call moves in a flow.\<close>

definition moved_in :: "'r network \<Rightarrow> string \<Rightarrow> direction \<Rightarrow> endpoint option \<Rightarrow> endpoint option \<Rightarrow> link \<Rightarrow> link_call \<Rightarrow> bytes" where
  "moved_in nw ch d s t lk c =
     (if ch = nw_channel nw \<and> d = nw_read nw \<and> s = lk_remote lk \<and> t = lk_local lk then moved False lk c
      else if ch = nw_channel nw \<and> d = nw_write nw \<and> s = lk_local lk \<and> t = lk_remote lk then moved True lk c else [])"

lemma asked_payload:
  assumes "asked nw ol c = Some rc" "nw_read nw \<noteq> nw_write nw"
  shows "payload_in ch d s t (RecordCall rc) = moved_in nw ch d s t (ol_link ol) c"
proof (cases c)
  case (ReadCall p err)
  then have "rc = payload_record nw (ol_link ol) False (Some p) (int (length p)) (int (length p)) err" using assms(1) by simp
  then show ?thesis using ReadCall assms(2) by (simp add: payload_in_record moved_in_def payload_direction_def)
next
  case (ReadPacketCall p err)
  then have "rc = payload_record nw (ol_link ol) False p (raw_length p) (raw_length p) err" "lk_packets (ol_link ol)"
    using assms(1) by (simp_all split: if_splits)
  then show ?thesis using ReadPacketCall assms(2) by (simp add: payload_in_record moved_in_def payload_direction_def)
next
  case (WriteCall p n err)
  then have "rc = payload_record nw (ol_link ol) True (transferred_payload p n) (raw_length p) n err" using assms(1) by simp
  then show ?thesis using WriteCall assms(2) by (auto simp: payload_in_record moved_in_def payload_direction_def transferred_bytes)
next
  case (LinkCloseCall err)
  then have "rc = \<lparr>rc_event = connection_event nw ''transport.connection_close'' (Some (ol_link ol)) err, rc_raw = None, rc_media_type = [], rc_representation = []\<rparr>"
    using assms(1) by (simp split: if_splits)
  then show ?thesis using LinkCloseCall by (simp add: payload_in_close moved_in_def)
qed

lemma unasked_payload: "asked nw ol c = None \<Longrightarrow> moved_in nw ch d s t (ol_link ol) c = []"
  by (cases c) (auto simp: moved_in_def split: if_splits)

lemma asked_close:
  assumes "asked nw ol c = Some rc"
  shows "close_in ch (RecordCall rc) = (ch = nw_channel nw \<and> is_close c)" "is_close c \<Longrightarrow> ol_closed ol = None"
  using assms by (cases c; auto simp: payload_record_def payload_kinds split: if_splits)+

lemma unasked_close: "asked nw ol c = None \<Longrightarrow> is_close c \<Longrightarrow> ol_closed ol \<noteq> None"
  by (cases c) (auto split: if_splits)

text \<open>What is kept of a call: its bytes, if its result reports no error of recording.\<close>

fun kept :: "('k \<Rightarrow> 'r network) \<Rightarrow> ('k \<Rightarrow> observed_link) \<Rightarrow> string \<Rightarrow> direction \<Rightarrow> endpoint option \<Rightarrow> endpoint option \<Rightarrow>
    'k \<times> link_call \<Rightarrow> 'k \<times> link_result \<Rightarrow> bytes" where
  "kept nets links ch d s t (k, c) (j, res) = (if link_recorded res then moved_in (nets k) ch d s t (ol_link (links k)) c else [])"

lemma recorded_stream_step:
  assumes "nw_sink nw = logging an" "nw_read nw \<noteq> nw_write nw" "link_step nw c (ol, h) = (res, ol', h')"
  shows "recorded_stream an ch d s t (hk_recorder h') = recorded_stream an ch d s t (hk_recorder h)
     @ (if link_recorded res then moved_in nw ch d s t (ol_link ol) c else [])"
proof (cases "asked nw ol c")
  case None
  then show ?thesis using link_step_effect(1) [OF assms(1,3)] unasked_payload [OF None] by simp
next
  case (Some rc)
  have l: "hk_recorder h' = hk_recorder h @ [RecordCall rc]" using link_step_effect(1) [OF assms(1,3)] Some by simp
  show ?thesis
    using link_step_effect(7) [OF assms(1,3) Some] asked_payload [OF Some assms(2), of ch d s t]
    by (cases "an_event an (length (hk_recorder h))") (simp_all add: l)
qed

definition newly_closed :: "observed_link \<Rightarrow> observed_link \<Rightarrow> bool" where
  "newly_closed ol ol' \<longleftrightarrow> ol_closed ol = None \<and> (\<exists>err. ol_closed ol' = Some (err, None))"

lemma recorded_closes_step:
  assumes "nw_sink nw = logging an" "link_step nw c (ol, h) = (res, ol', h')"
  shows "recorded_closes an ch (hk_recorder h') = recorded_closes an ch (hk_recorder h)
     + (if ch = nw_channel nw \<and> newly_closed ol ol' then 1 else 0)"
proof (cases "asked nw ol c")
  case None
  have "ol_closed ol' = ol_closed ol" using link_step_effect(5) [OF assms] unasked_close [OF None] by auto
  then have "\<not> newly_closed ol ol'" by (auto simp: newly_closed_def)
  then show ?thesis using link_step_effect(1) [OF assms] None by simp
next
  case (Some rc)
  have l: "hk_recorder h' = hk_recorder h @ [RecordCall rc]" using link_step_effect(1) [OF assms] Some by simp
  have n: "newly_closed ol ol' \<longleftrightarrow> is_close c \<and> link_recorded res"
  proof (cases "is_close c")
    case True
    then obtain err cap where res: "res = LinkClosed (err, cap)" using link_step_effect(4) [OF assms] by (cases c) auto
    then show ?thesis using True link_step_effect(6) [OF assms] asked_close(2) [OF Some True] by (auto simp: newly_closed_def)
  next
    case False
    then have "ol_closed ol' = ol_closed ol" using link_step_effect(5) [OF assms] by simp
    then show ?thesis using False by (auto simp: newly_closed_def)
  qed
  show ?thesis
    unfolding n l using link_step_effect(7) [OF assms Some] asked_close(1) [OF Some, of ch]
    by (cases "an_event an (length (hk_recorder h))") simp_all
qed

lemma link_packet_effect:
  assumes "observe_packet (logging an) (Some f) ch connection ph p s d h = h'"
  shows "\<exists>rc. hk_recorder h' = hk_recorder h @ [RecordCall rc] \<and> ev_kind (rc_event rc) = ''packet.raw''"
    and "fs_err (hk_failures h') = first_failure (fs_err (hk_failures h)) (refusals an (length (hk_recorder h)) (length (hk_recorder h')))"
proof -
  define rc where "rc = \<lparr>rc_event = raw_packet_event (hk_observer h) ch connection ph s d, rc_raw = p, rc_media_type = ''application/octet-stream'',
    rc_representation = ''bedrock_packet_payload''\<rparr>"
  define h1 where "h1 = h\<lparr>hk_live := f (ev_direction (rc_event rc)) (ph_id ph) (hk_live h)\<rparr>"
  obtain cap where r: "hook_record (logging an) rc h1 = (cap, h')"
    using assms by (auto simp: observe_packet_def rc_def h1_def Let_def prod_eq_iff)
  have "ev_kind (rc_event rc) = ''packet.raw''" by (simp add: rc_def raw_packet_event_def split: prod.splits)
  then show "\<exists>rc. hk_recorder h' = hk_recorder h @ [RecordCall rc] \<and> ev_kind (rc_event rc) = ''packet.raw''"
    using hook_record_logging(1) [OF r] by (auto simp: h1_def)
  show "fs_err (hk_failures h') = first_failure (fs_err (hk_failures h)) (refusals an (length (hk_recorder h)) (length (hk_recorder h')))"
    using hook_record_logging(3) [OF r] by (simp add: h1_def)
qed

section \<open>A run\<close>

text \<open>What one connection has done in a run, and what all of them have.\<close>

definition link_ok :: "link_call list \<Rightarrow> observed_link \<Rightarrow> link_result list \<Rightarrow> observed_link \<Rightarrow> bool" where
  "link_ok calls ol results ol' =
     (ol_link ol' = ol_link ol \<and> list_all2 (transparent (ol_link ol)) calls results
      \<and> (\<forall>j. LinkClosed j \<in> set results \<or> ol_closed ol = Some j \<longrightarrow> ol_closed ol' = Some j)
      \<and> (ol_closed ol' = None \<longleftrightarrow> ol_closed ol = None \<and> (\<forall>c \<in> set calls. \<not> is_close c)))"

definition closed_now :: "('k \<Rightarrow> 'r network) \<Rightarrow> string \<Rightarrow> ('k \<Rightarrow> observed_link) \<Rightarrow> ('k \<Rightarrow> observed_link) \<Rightarrow> 'k set" where
  "closed_now nets ch links links' = {k. nw_channel (nets k) = ch \<and> newly_closed (links k) (links' k)}"

definition hooks_ok :: "sink_answers \<Rightarrow> ('k \<Rightarrow> sink_call list network) \<Rightarrow> 'k hook_call list \<Rightarrow> ('k \<Rightarrow> observed_link) \<Rightarrow> sink_call list hooks \<Rightarrow>
    ('k \<times> link_result) list \<Rightarrow> ('k \<Rightarrow> observed_link) \<Rightarrow> sink_call list hooks \<Rightarrow> bool" where
  "hooks_ok an nets calls links h results links' h' =
     ((\<forall>k. link_ok (calls_of k calls) (links k) (results_of k results) (links' k))
      \<and> map fst results = map fst (link_calls calls)
      \<and> (\<forall>ch d s t. recorded_stream an ch d s t (hk_recorder h') = recorded_stream an ch d s t (hk_recorder h)
           @ concat (map2 (kept nets links ch d s t) (link_calls calls) results))
      \<and> (\<forall>ch. finite (closed_now nets ch links links')
           \<and> recorded_closes an ch (hk_recorder h') = recorded_closes an ch (hk_recorder h) + card (closed_now nets ch links links'))
      \<and> length (hk_recorder h) \<le> length (hk_recorder h')
      \<and> fs_err (hk_failures h') = first_failure (fs_err (hk_failures h)) (refusals an (length (hk_recorder h)) (length (hk_recorder h'))))"

lemma link_calls_simps [simp]:
  "link_calls [] = []" "link_calls (OnLink k c # cs) = (k, c) # link_calls cs" "link_calls (OnPacket ch connection ph p s d # cs) = link_calls cs"
  by (simp_all add: link_calls_def List.map_filter_def)

lemma link_calls_append: "link_calls (cs @ cs') = link_calls cs @ link_calls cs'"
  by (simp add: link_calls_def List.map_filter_def)

lemma calls_of_simps [simp]:
  "calls_of k [] = []" "calls_of k (OnLink j c # cs) = (if j = k then c # calls_of k cs else calls_of k cs)"
  "calls_of k (OnPacket ch connection ph p s d # cs) = calls_of k cs"
  by (simp_all add: calls_of_def List.map_filter_def)

lemma results_of_simps [simp]:
  "results_of k [] = []" "results_of k ((j, r) # rs) = (if j = k then r # results_of k rs else results_of k rs)"
  by (simp_all add: results_of_def)

lemma calls_of_append: "calls_of k (cs @ cs') = calls_of k cs @ calls_of k cs'"
  by (simp add: calls_of_def List.map_filter_def)

lemma results_of_append: "results_of k (rs @ rs') = results_of k rs @ results_of k rs'"
  by (simp add: results_of_def)

lemma link_ok_trans:
  assumes "link_ok cs ol rs ol1" "link_ok cs' ol1 rs' ol2"
  shows "link_ok (cs @ cs') ol (rs @ rs') ol2"
proof -
  note a = assms(1) [unfolded link_ok_def] and b = assms(2) [unfolded link_ok_def]
  have "list_all2 (transparent (ol_link ol)) (cs @ cs') (rs @ rs')" using a b by (intro list_all2_appendI) auto
  moreover have "\<forall>j. LinkClosed j \<in> set (rs @ rs') \<or> ol_closed ol = Some j \<longrightarrow> ol_closed ol2 = Some j" using a b by auto
  moreover have "ol_closed ol2 = None \<longleftrightarrow> ol_closed ol = None \<and> (\<forall>c \<in> set (cs @ cs'). \<not> is_close c)" using a b by auto
  ultimately show ?thesis using a b unfolding link_ok_def by simp
qed

lemma kept_same_links:
  assumes "\<And>k. ol_link (links' k) = ol_link (links k)"
  shows "kept nets links' ch d s t = kept nets links ch d s t"
proof (intro ext)
  fix x y
  show "kept nets links' ch d s t x y = kept nets links ch d s t x y" by (cases x; cases y) (simp add: assms)
qed

lemma closed_now_trans:
  assumes "\<And>k j. ol_closed (links k) = Some j \<Longrightarrow> ol_closed (links1 k) = Some j"
    and "\<And>k j. ol_closed (links1 k) = Some j \<Longrightarrow> ol_closed (links2 k) = Some j"
  shows "closed_now nets ch links links2 = closed_now nets ch links links1 \<union> closed_now nets ch links1 links2"
    and "closed_now nets ch links links1 \<inter> closed_now nets ch links1 links2 = {}"
proof -
  have "newly_closed (links k) (links2 k) \<longleftrightarrow> newly_closed (links k) (links1 k) \<or> newly_closed (links1 k) (links2 k)" for k
    using assms(1) [of k] assms(2) [of k]
    by (cases "ol_closed (links k)"; cases "ol_closed (links1 k)") (auto simp: newly_closed_def)
  then show "closed_now nets ch links links2 = closed_now nets ch links links1 \<union> closed_now nets ch links1 links2"
    by (auto simp: closed_now_def)
  show "closed_now nets ch links links1 \<inter> closed_now nets ch links1 links2 = {}"
    by (auto simp: closed_now_def newly_closed_def)
qed

lemma hooks_ok_trans:
  assumes "hooks_ok an nets cs links h rs links1 h1" "hooks_ok an nets cs' links1 h1 rs' links2 h2"
  shows "hooks_ok an nets (cs @ cs') links h (rs @ rs') links2 h2"
proof -
  note a = assms(1) [unfolded hooks_ok_def] and b = assms(2) [unfolded hooks_ok_def]
  have la: "link_ok (calls_of k cs) (links k) (results_of k rs) (links1 k)" and lb: "link_ok (calls_of k cs') (links1 k) (results_of k rs') (links2 k)" for k
    using a b by blast+
  have "link_ok (calls_of k (cs @ cs')) (links k) (results_of k (rs @ rs')) (links2 k)" for k
    unfolding calls_of_append results_of_append by (rule link_ok_trans [OF la lb])
  moreover have "fs_err (hk_failures h2) = first_failure (fs_err (hk_failures h)) (refusals an (length (hk_recorder h)) (length (hk_recorder h2)))"
    using a b refusals_split [of "length (hk_recorder h)" "length (hk_recorder h1)" "length (hk_recorder h2)" an] by (simp add: first_failure_append)
  moreover have "recorded_stream an ch d s t (hk_recorder h2) = recorded_stream an ch d s t (hk_recorder h)
      @ concat (map2 (kept nets links ch d s t) (link_calls (cs @ cs')) (rs @ rs'))" for ch d s t
  proof -
    have k: "kept nets links1 ch d s t = kept nets links ch d s t" using la by (intro kept_same_links) (simp add: link_ok_def)
    have "length (link_calls cs) = length rs" using a by (metis length_map)
    then show ?thesis using a b by (simp add: k link_calls_append)
  qed
  moreover have "finite (closed_now nets ch links links2)
      \<and> recorded_closes an ch (hk_recorder h2) = recorded_closes an ch (hk_recorder h) + card (closed_now nets ch links links2)" for ch
  proof -
    have mono: "ol_closed (links k) = Some j \<Longrightarrow> ol_closed (links1 k) = Some j" "ol_closed (links1 k) = Some j \<Longrightarrow> ol_closed (links2 k) = Some j" for k j
      using la [of k] lb [of k] unfolding link_ok_def by blast+
    have f: "finite (closed_now nets ch links links1)" "finite (closed_now nets ch links1 links2)" using a b by blast+
    have ct: "closed_now nets ch links links2 = closed_now nets ch links links1 \<union> closed_now nets ch links1 links2"
        "closed_now nets ch links links1 \<inter> closed_now nets ch links1 links2 = {}"
      by (rule closed_now_trans; use mono in blast)+
    have "recorded_closes an ch (hk_recorder h2) = recorded_closes an ch (hk_recorder h)
        + (card (closed_now nets ch links links1) + card (closed_now nets ch links1 links2))" using a b by simp
    then show ?thesis using f card_Un_disjoint [OF f ct(2)] by (simp only: ct(1) finite_Un simp_thms)
  qed
  ultimately show ?thesis using a b unfolding hooks_ok_def by (simp add: link_calls_append)
qed

lemma closed_now_same [simp]: "closed_now nets ch links links = {}"
  by (auto simp: closed_now_def newly_closed_def)

lemma link_ok_quiet: "link_ok [] ol [] ol"
  by (simp add: link_ok_def)

lemma hooks_ok_refl: "hooks_ok an nets [] links h [] links h"
  by (simp add: hooks_ok_def link_ok_quiet first_failure_def refusals_def List.map_filter_def split: option.splits)

definition hooked :: "sink_answers \<Rightarrow> ('k \<Rightarrow> sink_call list network) \<Rightarrow> bool" where
  "hooked an nets = (\<forall>k. nw_sink (nets k) = logging an \<and> nw_read (nets k) \<noteq> nw_write (nets k))"

lemma link_step_ok:
  assumes "nw_sink nw = logging an" "link_step nw c (ol, h) = (res, ol', h')"
  shows "link_ok [c] ol [res] ol'"
proof -
  note e = link_step_effect [OF assms]
  have "ol_closed ol = Some i \<Longrightarrow> ol_closed ol' = Some i" "ol_closed ol' = None \<longleftrightarrow> ol_closed ol = None \<and> \<not> is_close c" for i
    using e(4, 5, 6) by (cases c; cases res; auto split: if_splits)+
  then show ?thesis unfolding link_ok_def using e(3, 4, 6) by simp
qed

lemma closed_now_upd: "closed_now nets ch links (links(k := ol)) = (if nw_channel (nets k) = ch \<and> newly_closed (links k) ol then {k} else {})"
  by (auto simp: closed_now_def newly_closed_def)

lemma hook_step_ok:
  assumes "hooked an nets" "hook_step (logging an) nets seen c (links, h) = (rs, links', h')"
  shows "hooks_ok an nets [c] links h rs links' h'"
proof (cases c)
  case (OnLink k lc)
  then obtain res ol' where s: "link_step (nets k) lc (links k, h) = (res, ol', h')" and r: "rs = [(k, res)]" "links' = links(k := ol')"
    using assms(2) by (auto split: prod.splits)
  have n: "nw_sink (nets k) = logging an" "nw_read (nets k) \<noteq> nw_write (nets k)" using assms(1) by (simp_all add: hooked_def)
  have "link_ok (calls_of j [c]) (links j) (results_of j rs) (links' j)" for j
    using link_step_ok [OF n(1) s] link_ok_quiet by (simp add: r OnLink)
  then show ?thesis
    using link_step_effect(1, 2) [OF n(1) s] recorded_stream_step [OF n s] recorded_closes_step [OF n(1) s]
    unfolding hooks_ok_def r OnLink closed_now_upd by simp
next
  case (OnPacket ch connection ph p s d)
  then have s: "observe_packet (logging an) (Some (seen ch)) ch connection ph p s d h = h'" and r: "rs = []" "links' = links"
    using assms(2) by auto
  obtain rc where rc: "hk_recorder h' = hk_recorder h @ [RecordCall rc]" "ev_kind (rc_event rc) = ''packet.raw''" using link_packet_effect(1) [OF s] by blast
  have "recorded_stream an c1 d1 s1 t1 (hk_recorder h') = recorded_stream an c1 d1 s1 t1 (hk_recorder h)"
    "recorded_closes an c1 (hk_recorder h') = recorded_closes an c1 (hk_recorder h)" for c1 d1 s1 t1
    using rc by (simp_all add: payload_in.simps split: sum.splits)
  then show ?thesis using link_packet_effect(2) [OF s] rc(1) link_ok_quiet unfolding hooks_ok_def r OnPacket by simp
qed

lemma hook_run_ok:
  assumes "hooked an nets" "hook_run (logging an) nets seen cs (links, h) = (rs, links', h')"
  shows "hooks_ok an nets cs links h rs links' h'"
  using assms(2)
proof (induction cs arbitrary: links h rs)
  case Nil
  then show ?case by (simp add: hooks_ok_refl)
next
  case (Cons c cs)
  obtain r1 links1 h1 where s: "hook_step (logging an) nets seen c (links, h) = (r1, links1, h1)" by (cases "hook_step (logging an) nets seen c (links, h)") auto
  obtain r2 where r: "hook_run (logging an) nets seen cs (links1, h1) = (r2, links', h')" "rs = r1 @ r2"
    using Cons.prems s by (auto split: prod.splits)
  show ?case using hooks_ok_trans [OF hook_step_ok [OF assms(1) s] Cons.IH [OF r(1)]] r(2) by simp
qed

text \<open>
  C31. Any number of connections share the networks and the recorder; a channel and even an address may
  belong to several of them. Whatever the transports and the recorder answer and however the calls of the
  connections and the packet callbacks interleave, the payloads that the recorder keeps for a flow (a channel
  and direction between two endpoints) are exactly the bytes that moved in it, in the order of the calls and
  once, less those of the calls whose caller was told that recording failed. A caller sees what the transport
  answered; the first close of a connection is recorded, once, unless it reports that recording failed, and
  every close of it returns the same result; and the failure sink holds the first refusal of the
  recorder. A network gives its two directions different names, as both networks of the proxy do.
\<close>

theorem payloads_faithful:
  assumes "hooked an nets" "hook_run (logging an) nets seen calls (links, h) = (results, links', h')"
  shows "(\<forall>ch d s t. recorded_stream an ch d s t (hk_recorder h') = recorded_stream an ch d s t (hk_recorder h)
        @ concat (map2 (kept nets links ch d s t) (link_calls calls) results))
    \<and> map fst results = map fst (link_calls calls)
    \<and> (\<forall>k. list_all2 (transparent (ol_link (links k))) (calls_of k calls) (results_of k results)
        \<and> (ol_closed (links' k) = None \<longleftrightarrow> ol_closed (links k) = None \<and> (\<forall>c \<in> set (calls_of k calls). \<not> is_close c))
        \<and> (\<forall>j. LinkClosed j \<in> set (results_of k results) \<or> ol_closed (links k) = Some j \<longrightarrow> ol_closed (links' k) = Some j))
    \<and> (\<forall>ch. finite (closed_now nets ch links links')
        \<and> recorded_closes an ch (hk_recorder h') = recorded_closes an ch (hk_recorder h) + card (closed_now nets ch links links'))
    \<and> fs_err (hk_failures h') = first_failure (fs_err (hk_failures h)) (refusals an (length (hk_recorder h)) (length (hk_recorder h')))"
  using hook_run_ok [OF assms] unfolding hooks_ok_def link_ok_def by blast

text \<open>
  Two clients of the listener at once: a short write to the first, a read from the second that the recorder
  refuses, one that it keeps, and two closes of the first.
\<close>

definition demo_endpoint :: "string \<Rightarrow> endpoint option" where "demo_endpoint s = Some \<lparr>ep_network = ''udp'', ep_address = s\<rparr>"

definition demo_link :: "string \<Rightarrow> link" where
  "demo_link s = \<lparr>lk_local = demo_endpoint ''p'', lk_remote = demo_endpoint s, lk_guid = None, lk_key = None, lk_packets = False,
     lk_batch_header = None, lk_no_encryption = None, lk_latency = None\<rparr>"

definition demo_answers :: sink_answers where
  "demo_answers = \<lparr>an_event = (\<lambda>i. if i = 1 then Inl ''full'' else Inr empty_event), an_limit = (\<lambda>_. Inr ())\<rparr>"

definition demo_network :: "bool \<Rightarrow> sink_call list network" where
  "demo_network client =
     \<lparr>nw_sink = logging demo_answers, nw_session = session_name, nw_connection = ''downstream-1'', nw_connection_func = None,
      nw_channel = ''downstream'', nw_hop = 1, nw_hop_func = None, nw_best_effort = False,
      nw_read = DirectionClientToServer, nw_write = DirectionServerToClient, nw_payload_metadata = None, nw_json = (\<lambda>_. None)\<rparr>"

definition demo_clients :: "bool \<Rightarrow> observed_link" where
  "demo_clients client = \<lparr>ol_link = demo_link (if client then ''a'' else ''b''), ol_closed = None\<rparr>"

definition demo_hooks :: "sink_call list hooks" where
  "demo_hooks = \<lparr>hk_recorder = [], hk_failures = new_failure_sink True, hk_observer = new_observer session_name 1,
     hk_live = new_live_reporter \<lparr>tm_no_color = True, tm_mode = None\<rparr> 0 Map.empty Map.empty (0, 0)\<rparr>"

definition demo_hook_calls :: "bool hook_call list" where
  "demo_hook_calls = [OnLink True (WriteCall (Some [1, 2, 3]) 2 None), OnLink False (ReadCall [7] None), OnLink False (ReadCall [8] None),
     OnLink True (LinkCloseCall None), OnLink True (LinkCloseCall None)]"

lemma demo_results:
  assumes "hook_run (logging demo_answers) demo_network (\<lambda>_ _ _ r. r) demo_hook_calls (demo_clients, demo_hooks) = (results, links, h)"
  shows "map (link_recorded \<circ> snd) results = [True, False, True, True, True]"
  using assms
  by (auto simp: demo_hook_calls_def demo_network_def demo_clients_def demo_hooks_def demo_answers_def record_payload_def close_link_def
      record_connection_def hook_record_def logging_def)

theorem payloads_faithful_witness:
  "\<exists>results links h.
     hook_run (logging demo_answers) demo_network (\<lambda>_ _ _ r. r) demo_hook_calls (demo_clients, demo_hooks) = (results, links, h)
     \<and> recorded_stream demo_answers ''downstream'' DirectionServerToClient (demo_endpoint ''p'') (demo_endpoint ''a'') (hk_recorder h) = [1, 2]
     \<and> recorded_stream demo_answers ''downstream'' DirectionClientToServer (demo_endpoint ''b'') (demo_endpoint ''p'') (hk_recorder h) = [8]"
proof -
  obtain results links h where r: "hook_run (logging demo_answers) demo_network (\<lambda>_ _ _ r. r) demo_hook_calls (demo_clients, demo_hooks) = (results, links, h)"
    by (metis prod_cases3)
  have hooked: "hooked demo_answers demo_network"
    by (auto simp: hooked_def demo_network_def DirectionServerToClient_def DirectionClientToServer_def)
  note f = payloads_faithful [OF hooked r]
  obtain r1 r2 r3 r4 r5 where rs: "results = [r1, r2, r3, r4, r5]" "link_recorded (snd r1)" "\<not> link_recorded (snd r2)" "link_recorded (snd r3)"
    using demo_results [OF r] by (auto simp: map_eq_Cons_conv)
  have d: "(DirectionServerToClient :: direction) \<noteq> DirectionClientToServer" by (simp add: DirectionServerToClient_def DirectionClientToServer_def)
  have e: "demo_endpoint ''p'' \<noteq> demo_endpoint ''a''" "demo_endpoint ''b'' \<noteq> demo_endpoint ''a''" "demo_endpoint ''b'' \<noteq> demo_endpoint ''p''"
    by (simp_all add: demo_endpoint_def)
  have s: "recorded_stream demo_answers c x s t (hk_recorder h)
      = concat (map2 (kept demo_network demo_clients c x s t) (link_calls demo_hook_calls) results)" for c x s t
    using f [THEN conjunct1, rule_format, of c x s t] by (simp add: demo_hooks_def recorded_stream_def accepted_def List.map_filter_def)
  have k: "kept demo_network demo_clients c x s t y z
      = (if link_recorded (snd z) then moved_in (demo_network (fst y)) c x s t (ol_link (demo_clients (fst y))) (snd y) else [])" for c x s t y z
    by (cases y; cases z) simp
  have "recorded_stream demo_answers ''downstream'' DirectionServerToClient (demo_endpoint ''p'') (demo_endpoint ''a'') (hk_recorder h) = [1, 2]"
    using d e by (simp add: s rs k demo_hook_calls_def moved_in_def demo_network_def demo_clients_def demo_link_def)
  moreover have "recorded_stream demo_answers ''downstream'' DirectionClientToServer (demo_endpoint ''b'') (demo_endpoint ''p'') (hk_recorder h) = [8]"
    using d e by (simp add: s rs k demo_hook_calls_def moved_in_def demo_network_def demo_clients_def demo_link_def)
  ultimately show ?thesis using r by blast
qed

end
