(* ===== verification/Spec2Isabelle.thy ===== *)
theory Spec2Isabelle
  imports Capture_Theorems Archive_Theorems Analysis_Theorems PackDecrypt_Theorems PackCache_Theorems
    Proxy_Transfer_Theorems Accounts_Effects Viewer_Access PacketView_Theorems Golem_Actions Proxy_Run_Theorems Live_Reporter_Theorems
    Log_Handler Bedrock_Observer_Theorems Proxy_Connect_Theorems
begin

text \<open>
  BedrockDebugProxy is a debugging proxy between a Minecraft Bedrock client and a server. It records
  every packet into a capture directory, checks, analyses and exports captures, decrypts resource packs
  with the keys a server sends, and keeps the local Microsoft accounts it signs in with. This
  development models the parts that carry the program's own logic and proves what makes them correct.

  How the parts interact. The proxy hands events to the recorder
  (\<^verbatim>\<open>internal/capture/recorder.go\<close>), whose writer goroutine appends them to the stream and stores
  their payloads as blobs named by their SHA-256 digest. The verifier (\<^verbatim>\<open>internal/capture/verify.go\<close>)
  reads a capture back; the archive export (\<^verbatim>\<open>internal/capturearchive/export.go\<close>) verifies a capture
  before it packs it, and the analysis (\<^verbatim>\<open>internal/analysis/analysis.go\<close>) counts its events. While it
  runs, the proxy reads the server's pack offer, downloads the packs that have an address
  (\<^verbatim>\<open>internal/proxy/resource_pack_url.go\<close>) and decrypts them
  (\<^verbatim>\<open>internal/resourcepack/decrypt.go\<close>); it rewrites transfer packets so that the client stays behind
  the proxy (\<^verbatim>\<open>internal/proxy/transfer.go\<close>). Two loops forward the packets of a hop
  (\<^verbatim>\<open>internal/proxy/proxy.go\<close>): they record the view of each packet
  (\<^verbatim>\<open>internal/packetview/encode.go\<close>), count it for the terminal
  (\<^verbatim>\<open>internal/proxy/live_reporter.go\<close>) and share the recorder, the failure sink and the flag of the
  shutdown. The token and the accounts the proxy signs in with are in \<^verbatim>\<open>internal/authcache\<close>. The Golem
  client (\<^verbatim>\<open>internal/golemnet/client.go\<close>) plays a scenario against a server through the same library,
  and the viewer (\<^verbatim>\<open>internal/viewer\<close>) serves a capture, also while it grows.

  Theories and code. A record is a struct with the same fields, a datatype an enumeration or an
  error, and each operation is the Go function of the same name in snake case.

  \<^item> \<^verbatim>\<open>Prelude\<close>, \<^verbatim>\<open>Go_Strings\<close>, \<^verbatim>\<open>Go_Net\<close>, \<^verbatim>\<open>Go_Json\<close>, \<^verbatim>\<open>Go_Time\<close>, \<^verbatim>\<open>Digest\<close>, \<^verbatim>\<open>Aes\<close>: what the code
    uses of Go's standard library (results and loops, strings and paths, numbers and addresses, JSON
    text, times, SHA-256, the AES-256 block cipher), with the laws the components share.
    \<^verbatim>\<open>Json_Print\<close> prints tokens and proves that parsing gives them back.
  \<^item> \<^verbatim>\<open>Schema\<close> and \<^verbatim>\<open>Recorder\<close>: \<^verbatim>\<open>internal/capture/schema.go\<close> and \<^verbatim>\<open>recorder.go\<close>. Every mutex section is
    one function on the record \<^verbatim>\<open>recorder\<close>, and the inductive step relation interleaves producers,
    writer and Close in any order, with any outcome of the system calls.
    \<^verbatim>\<open>Recorder_Correct\<close> proves the state invariant, \<^verbatim>\<open>Recorder_Stream\<close> the numbering of the stream,
    \<^verbatim>\<open>Recorder_Accounting\<close> the counters, \<^verbatim>\<open>Recorder_History\<close> what later steps cannot undo,
    \<^verbatim>\<open>Recorder_Verifies\<close> that what a recorder wrote passes the verifier, \<^verbatim>\<open>Recorder_Example\<close> runs it.
  \<^item> \<^verbatim>\<open>Verify\<close> and \<^verbatim>\<open>Verify_Sound\<close>: \<^verbatim>\<open>verify.go\<close>; a report without issues means that the capture is as
    it should be. \<^verbatim>\<open>Capture_Theorems\<close> states the properties of the recorder and verifier together.
  \<^item> \<^verbatim>\<open>Archive\<close> and \<^verbatim>\<open>Archive_Theorems\<close>: \<^verbatim>\<open>export.go\<close>; \<^verbatim>\<open>Analysis\<close> and \<^verbatim>\<open>Analysis_Theorems\<close>:
    \<^verbatim>\<open>analysis.go\<close>, whose tables are proved equal to counts over the event list.
  \<^item> \<^verbatim>\<open>PackDecrypt\<close> and \<^verbatim>\<open>PackDecrypt_Theorems\<close>: \<^verbatim>\<open>decrypt.go\<close>; the loops are folds over the archive's
    entries, and the round trip is against a pack sealed by the inverse cipher.
  \<^item> \<^verbatim>\<open>PackCache\<close> and \<^verbatim>\<open>PackCache_Theorems\<close>: \<^verbatim>\<open>resource_pack_url.go\<close>; the cache's mutex sections and the
    download workers are step relations.
  \<^item> \<^verbatim>\<open>Proxy_Transfer\<close> and \<^verbatim>\<open>Proxy_Transfer_Theorems\<close>: \<^verbatim>\<open>config.go\<close>, \<^verbatim>\<open>transfer.go\<close>,
    \<^verbatim>\<open>transfer_transport.go\<close> and \<^verbatim>\<open>internal/bedrock/failure.go\<close>.
  \<^item> \<^verbatim>\<open>AuthCache\<close>, \<^verbatim>\<open>Accounts\<close>, \<^verbatim>\<open>Accounts_Theorems\<close>, \<^verbatim>\<open>Accounts_Effects\<close>: \<^verbatim>\<open>cache.go\<close> and
    \<^verbatim>\<open>profiles.go\<close>, with the invariant of the registry under every sequence of operations.
  \<^item> \<^verbatim>\<open>Viewer\<close>, \<^verbatim>\<open>Viewer_Http\<close>, \<^verbatim>\<open>Viewer_Theorems\<close>, \<^verbatim>\<open>Viewer_Access\<close>:
    \<^verbatim>\<open>internal/viewer/viewer.go\<close>. \<^verbatim>\<open>Viewer\<close> holds the index that follows a growing stream and the
    verification of a finished one, \<^verbatim>\<open>Viewer_Http\<close> the routes, pages and previews; the theorems say what
    the rows hold in every reachable state, what a page holds, and who gets a reply.
  \<^item> \<^verbatim>\<open>PacketView\<close> and \<^verbatim>\<open>PacketView_Theorems\<close>: \<^verbatim>\<open>encode.go\<close> on a datatype of Go values; what is in an
    encoding, and that one without a notice is complete.
  \<^item> \<^verbatim>\<open>Golem\<close>, \<^verbatim>\<open>Golem_Session\<close>, \<^verbatim>\<open>Golem_Theorems\<close>, \<^verbatim>\<open>Golem_Ends\<close>, \<^verbatim>\<open>Golem_Actions\<close>:
    \<^verbatim>\<open>golemnet/client.go\<close>; the reader, the input loop and the scenario interleave as a step relation.
  \<^item> \<^verbatim>\<open>Pack_Record\<close> and \<^verbatim>\<open>Pack_Record_Theorems\<close>: \<^verbatim>\<open>internal/bedrock/resource_pack.go\<close>. The recorder is a
    record of calls; one that keeps the calls and answers from a table stands for any behaviour of it, and
    the forwarding theorems use the same one.
  \<^item> \<^verbatim>\<open>Live_Reporter\<close> and \<^verbatim>\<open>Live_Reporter_Theorems\<close>: \<^verbatim>\<open>live_reporter.go\<close>.
  \<^item> \<^verbatim>\<open>Forward\<close> and \<^verbatim>\<open>Forward_Theorems\<close>: \<^verbatim>\<open>Runner.forward\<close>, one turn of the loop as a function of what the
    connections answer in it, and the loop over any sequence of turns. \<^verbatim>\<open>Proxy_Hop\<close> and
    \<^verbatim>\<open>Proxy_Hop_Theorems\<close>: \<^verbatim>\<open>Runner.runHop\<close>, with both loops as a step relation that interleaves them at
    the points where they block, and what becomes of their results.
  \<^item> \<^verbatim>\<open>Bedrock_Observer\<close> and \<^verbatim>\<open>Bedrock_Observer_Theorems\<close>: \<^verbatim>\<open>internal/bedrock/observer.go\<close> and
    \<^verbatim>\<open>network.go\<close>: the flows that attribute a raw packet to a connection, and the connections and listeners
    that record what the transport below them moves. The theorems are about any interleaving of the calls of
    any number of connections. \<^verbatim>\<open>Log_Handler\<close> is the handler that records the library's log lines.
  \<^item> \<^verbatim>\<open>Proxy_Connect\<close> and \<^verbatim>\<open>Proxy_Connect_Theorems\<close>: \<^verbatim>\<open>connectUpstream\<close> and the rest of how
    \<^verbatim>\<open>proxy.go\<close> prepares the server's side: the packs that are served on, the probe, the start of the game.
  \<^item> \<^verbatim>\<open>Proxy_Run\<close> and \<^verbatim>\<open>Proxy_Run_Theorems\<close>: \<^verbatim>\<open>Runner.Run\<close>, the loop that accepts a client, runs a
    hop, and follows a transfer. The clients, the listener's callbacks, the notices of a client that left and
    the hop's own loops interleave as one step relation; its states hold the plans of the current and the next
    hop, so that the theorems say which server each dial goes to.

  Interfaces. \<^verbatim>\<open>Aes\<close> states what the stream mode needs of a block cipher as the locale
  \<^verbatim>\<open>block_cipher\<close> (blocks of 16 bytes), proves the facts about CFB8 inside it and interprets it on the AES-256
  defined there. \<^verbatim>\<open>Verify\<close> states what the three readers of a capture's stream share as the locale
  \<^verbatim>\<open>stream_audit\<close>: a visitor that keeps an invariant over the events of the lines read so far. It is interpreted
  on the visitors of the verifier, the archive export and the analysis, whose theorems rest on its facts.

  Bounds and fuel. Loops over a list are structural. Machine integers are words where the code's
  arithmetic can wrap around (sequence numbers, queue bytes, ages), and int or nat where a limit is
  checked first. The state machines have no fuel: properties are over all reachable states.

  Parameters and abstractions. System calls have their outcomes as arguments, so every failure is a
  branch. The JSON text of events, manifests and registries is abstract (a line or file decodes to a
  record or does not), except where the code's own decoding is the point (contents manifests). Zip
  containers are lists of entries. The HTTP download, the Minecraft protocol library and OAuth are
  arguments. What one mutex section does is one step. In a few places a step is larger than that: a call of a
  connection's transport and the record of it are one step (calls of one direction are made one after the
  other), a loop's turn of a packet, from the record of its view to the end of its write, is one step of a hop,
  where the other loop can run only before or after it, \<^verbatim>\<open>Client.fail\<close> takes its two sections
  together, and the record of a raw packet reads the flows, the connection's name and the current hop at one
  moment. The verifier reads a capture that does not change meanwhile, whose root can be opened, and
  the export packs the capture that it verified. The account store keeps the registry and token files in
  its state, and not the directories that it creates for them.

  Not modelled: the command line, the Golem helper process, the local server of the viewer, the featured
  experience target and its signalling, the artifact files, the device prompt and the build information.
  They are mostly I/O over third-party libraries.
\<close>

end
